(* ===== verification/Prelude.thy ===== *)
theory Prelude
  imports Main "HOL-Library.Word" "HOL-Library.Monad_Syntax"
begin

unbundle bit_operations_syntax

text \<open>
  Shared vocabulary of the development: the machine types of rt-thread/include/rtdef.h, the
  error codes, the alignment macros and the generic facts on words, options and lists that
  the component theories rely on.

  Conventions.  An operation that can stop the machine returns an option: None stands for
  an execution that does not come back (RT_ASSERT with no hook installed spins for ever in
  rt_assert_handler, src/rt-thread/src/kservice.c) or that leaves the C object it works on
  (an index outside an array, a list node linked twice).  Every other outcome, error codes
  included, is an ordinary value.
\<close>

named_theorems kernel_defs \<open>definitions unfolded when an operation is evaluated\<close>
named_theorems frame_simps \<open>what an operation leaves unchanged\<close>

section \<open>Machine types\<close>

type_synonym u8 = "8 word"
type_synonym u16 = "16 word"
type_synonym u32 = "32 word"

abbreviation RT_UINT32_MAX :: u32 where "RT_UINT32_MAX \<equiv> 0xffffffff"
abbreviation RT_TICK_MAX :: u32 where "RT_TICK_MAX \<equiv> RT_UINT32_MAX"

text \<open>The window of half the tick range that every tick comparison uses.\<close>

abbreviation TICK_HALF :: u32 where "TICK_HALF \<equiv> RT_TICK_MAX div 2"

section \<open>Error codes\<close>

text \<open>
  The return values RT_EOK and -RT_ERROR, -RT_ETIMEOUT, \<dots> of rtdef.h.  The code only ever
  compares them for equality, so they are the constructors of a datatype.
\<close>

datatype rt_err =
    RT_EOK | RT_ERROR | RT_ETIMEOUT | RT_EFULL | RT_EEMPTY | RT_ENOMEM
  | RT_ENOSYS | RT_EBUSY | RT_EIO | RT_EINTR | RT_EINVAL

section \<open>Alignment\<close>

definition RT_ALIGN :: "u32 \<Rightarrow> u32 \<Rightarrow> u32" where
  "RT_ALIGN sz align = (sz + align - 1) AND NOT (align - 1)"

definition RT_ALIGN_DOWN :: "u32 \<Rightarrow> u32 \<Rightarrow> u32" where
  "RT_ALIGN_DOWN sz align = sz AND NOT (align - 1)"

abbreviation RT_ALIGN_SIZE :: u32 where "RT_ALIGN_SIZE \<equiv> 4"

section \<open>Facts on words\<close>

lemma and_flag_bit:
  fixes w :: "'a::len word"
  shows "w AND 1 \<noteq> 0 \<longleftrightarrow> bit w 0"
    and "w AND push_bit n 1 \<noteq> 0 \<longleftrightarrow> bit w n"
proof -
  have *: "w AND push_bit m 1 \<noteq> 0 \<longleftrightarrow> bit w m" for m
  proof
    assume "w AND push_bit m 1 \<noteq> 0"
    then obtain k where "bit (w AND push_bit m 1) k"
      by (metis bit_eqI bit_0_eq bot_apply bot_bool_def)
    then show "bit w m" by (auto simp: bit_simps)
  next
    assume b: "bit w m"
    then have "m < LENGTH('a)" by (rule bit_imp_le_length)
    with b have "bit (w AND push_bit m 1) m" by (simp add: bit_simps)
    then show "w AND push_bit m 1 \<noteq> 0" by auto
  qed
  show "w AND 1 \<noteq> 0 \<longleftrightarrow> bit w 0" using *[of 0] by simp
  show "w AND push_bit n 1 \<noteq> 0 \<longleftrightarrow> bit w n" by (rule *)
qed

lemma word_and_split:
  fixes x m :: "'a::len word"
  shows "(x AND NOT m) + (x AND m) = x"
proof -
  have "(x AND NOT m) AND (x AND m) = 0" by (rule bit_eqI) (auto simp: bit_simps)
  then have "(x AND NOT m) + (x AND m) = (x AND NOT m) OR (x AND m)" by (rule disjunctive_add_eq_or)
  also have "\<dots> = x" by (rule bit_eqI) (auto simp: bit_simps)
  finally show ?thesis .
qed

text \<open>Clearing the low bits rounds down to a multiple of the power of two.\<close>

lemma unat_and_not_mask:
  fixes x :: "'a::len word"
  shows "unat (x AND NOT (mask n)) = unat x - unat x mod 2 ^ n"
proof -
  have le: "x AND NOT (mask n) \<le> x" by (rule word_and_le2)
  have "x AND mask n = x - (x AND NOT (mask n))" using word_and_split[of x "mask n"] by (simp add: algebra_simps)
  then have "unat (x AND mask n) = unat x - unat (x AND NOT (mask n))" using le by (simp add: unat_sub)
  moreover have "unat (x AND mask n) = unat x mod 2 ^ n"
  proof -
    have "unat (x AND mask n) = take_bit n (unat x)"
      unfolding take_bit_eq_mask[symmetric] by (rule unsigned_take_bit_eq)
    then show ?thesis by (simp add: take_bit_eq_mod)
  qed
  ultimately show ?thesis using le by (simp add: word_le_nat_alt)
qed

text \<open>A positive signed tick count that is not the largest one lies in the half window.\<close>

lemma sint_pos_uint:
  fixes w :: u32
  assumes "0 < sint w"
  shows "sint w = uint w" and "uint w < 2 ^ 31"
proof -
  have lt: "sint w < 2 ^ 31" using sint_lt[of w] by simp
  have "uint w = uint (word_of_int (sint w) :: u32)" by simp
  also have "\<dots> = sint w mod 2 ^ 32" by (simp only: uint_word_of_int_eq take_bit_eq_mod) simp
  also have "\<dots> = sint w" using assms lt by (intro mod_pos_pos_trivial) simp_all
  finally show "sint w = uint w" by (rule sym)
  with lt show "uint w < 2 ^ 31" by simp
qed

lemma sint_pos_u16:
  fixes w :: u16
  assumes "0 < sint w"
  shows "unat w = nat (sint w)"
proof -
  have lt: "sint w < 2 ^ 15" using sint_lt[of w] by simp
  have "uint w = uint (word_of_int (sint w) :: u16)" by simp
  also have "\<dots> = sint w mod 2 ^ 16" by (simp only: uint_word_of_int_eq take_bit_eq_mod) simp
  also have "\<dots> = sint w" using assms lt by (intro mod_pos_pos_trivial) simp_all
  finally show ?thesis by (metis nat_uint_eq)
qed

lemma sint_pos_tick:
  fixes w :: u32
  assumes "0 < sint w" and "w \<noteq> 0x7fffffff"
  shows "w < TICK_HALF"
proof -
  have "w \<le> 0x7fffffff" using sint_pos_uint[OF assms(1)] by (simp add: word_le_def)
  with assms(2) show ?thesis by simp
qed

section \<open>Facts on alignment\<close>

lemma align_down_unat:
  "align = 2 ^ n \<Longrightarrow> unat (RT_ALIGN_DOWN x align) = unat x - unat x mod 2 ^ n"
  by (simp add: RT_ALIGN_DOWN_def unat_and_not_mask flip: mask_eq_exp_minus_1)

lemma align_up_unat:
  assumes "align = 2 ^ n" and "unat x + 2 ^ n \<le> 2 ^ 32" and "n < 32"
  shows "unat (RT_ALIGN x align) = (unat x + (2 ^ n - 1)) - (unat x + (2 ^ n - 1)) mod 2 ^ n"
proof -
  have "x + align - 1 = x + (mask n)" using assms(1) by (simp add: mask_eq_exp_minus_1)
  moreover have "unat (x + mask n) = unat x + (2 ^ n - 1)"
  proof -
    have m: "unat (mask n :: u32) = 2 ^ n - 1"
      using assms(3) by (simp add: uint_mask_eq nat_mask_eq mask_eq_exp_minus_1[where 'a = nat] flip: nat_uint_eq)
    have "unat x + unat (mask n :: u32) < 2 ^ 32"
      using assms(2) unfolding m by (simp add: Suc_le_eq[symmetric] le_diff_conv)
    then show ?thesis using m by (subst unat_add_lem[THEN iffD1]) simp_all
  qed
  moreover have "align - 1 = mask n" using assms(1) by (simp add: mask_eq_exp_minus_1)
  ultimately show ?thesis unfolding RT_ALIGN_def by (simp only: unat_and_not_mask)
qed

end
