(* ===== verification/Rt_List.thy ===== *)
theory Rt_List
  imports Prelude
begin

text \<open>
  The intrusive doubly linked lists of rt-thread/include/rtservice.h, at the level of their
  next and prev pointers.  A node is either the head of a list, embedded in the object that
  owns the list, or the node embedded in an element (the tlist field of a thread, the row
  field of a timer).  The main result is a refinement: under the representation predicate
  \<open>rep\<close> the pointer operations act on the lists of elements as appending, prepending,
  inserting before an element and deleting do.  The kernel theories use the list side.
\<close>

section \<open>The pointer operations\<close>

datatype ('q, 'e) lnode = Head 'q | Node 'e

record 'n lstore =
  lnext :: "'n \<Rightarrow> 'n"
  lprev :: "'n \<Rightarrow> 'n"

definition set_next ::
  "'n \<Rightarrow> 'n \<Rightarrow> 'n lstore \<Rightarrow> 'n lstore" where
  "set_next a b s = s\<lparr>lnext := (lnext s)(a := b)\<rparr>"

definition set_prev ::
  "'n \<Rightarrow> 'n \<Rightarrow> 'n lstore \<Rightarrow> 'n lstore" where
  "set_prev a b s = s\<lparr>lprev := (lprev s)(a := b)\<rparr>"

definition rt_list_init :: "'n \<Rightarrow> 'n lstore \<Rightarrow> 'n lstore" where
  "rt_list_init l s = set_next l l (set_prev l l s)"

definition rt_list_insert_after ::
  "'n \<Rightarrow> 'n \<Rightarrow> 'n lstore \<Rightarrow> 'n lstore" where
  "rt_list_insert_after l n s =
     (let s = set_prev (lnext s l) n s;
          s = set_next n (lnext s l) s;
          s = set_next l n s
      in set_prev n l s)"

definition rt_list_insert_before ::
  "'n \<Rightarrow> 'n \<Rightarrow> 'n lstore \<Rightarrow> 'n lstore" where
  "rt_list_insert_before l n s =
     (let s = set_next (lprev s l) n s;
          s = set_prev n (lprev s l) s;
          s = set_prev l n s
      in set_next n l s)"

definition rt_list_remove :: "'n \<Rightarrow> 'n lstore \<Rightarrow> 'n lstore" where
  "rt_list_remove n s =
     (let s = set_prev (lnext s n) (lprev s n) s;
          s = set_next (lprev s n) (lnext s n) s;
          s = set_prev n n s
      in set_next n n s)"

definition rt_list_isempty :: "'n \<Rightarrow> 'n lstore \<Rightarrow> bool" where
  "rt_list_isempty l s \<longleftrightarrow> lnext s l = l"

text \<open>rt_list_len walks the ring with a 32-bit counter; fuel bounds the walk.\<close>

fun rt_list_len_loop ::
  "nat \<Rightarrow> 'n \<Rightarrow> 'n \<Rightarrow> u32 \<Rightarrow> 'n lstore \<Rightarrow> u32 option" where
  "rt_list_len_loop 0 l p len s = None"
| "rt_list_len_loop (Suc fuel) l p len s =
     (if lnext s p \<noteq> l then rt_list_len_loop fuel l (lnext s p) (len + 1) s else Some len)"

definition rt_list_len :: "nat \<Rightarrow> 'n \<Rightarrow> 'n lstore \<Rightarrow> u32 option" where
  "rt_list_len fuel l s = rt_list_len_loop fuel l l 0 s"

section \<open>Chains of nodes\<close>

text \<open>\<open>links s a xs b\<close>: following next from a visits xs and then reaches b, and the prev
  pointers are the converse.\<close>

fun links ::
  "'n lstore \<Rightarrow> 'n \<Rightarrow> 'n list \<Rightarrow> 'n \<Rightarrow> bool" where
  "links s a [] b \<longleftrightarrow> lnext s a = b \<and> lprev s b = a"
| "links s a (x # xs) b \<longleftrightarrow> lnext s a = x \<and> lprev s x = a \<and> links s x xs b"

lemma links_append [simp]:
  "links s a (xs @ x # ys) b \<longleftrightarrow> links s a xs x \<and> links s x ys b"
  by (induction xs arbitrary: a) auto

lemma links_first: "links s a xs b \<Longrightarrow> lnext s a = (case xs of [] \<Rightarrow> b | x # _ \<Rightarrow> x)"
  by (cases xs) auto

lemma links_last: "links s a xs b \<Longrightarrow> lprev s b = (if xs = [] then a else last xs)"
  by (induction xs arbitrary: a) auto

lemma links_cong:
  assumes "\<And>n. n = a \<or> n \<in> set xs \<Longrightarrow> lnext t n = lnext s n"
    and "\<And>n. n = b \<or> n \<in> set xs \<Longrightarrow> lprev t n = lprev s n"
  shows "links t a xs b \<longleftrightarrow> links s a xs b"
  using assms by (induction xs arbitrary: a) auto

definition ring :: "'n lstore \<Rightarrow> 'n \<Rightarrow> 'n list \<Rightarrow> bool" where
  "ring s h xs \<longleftrightarrow> links s h xs h \<and> distinct (h # xs)"

lemma ring_cong:
  assumes "\<And>n. n \<in> set (h # xs) \<Longrightarrow> lnext t n = lnext s n \<and> lprev t n = lprev s n"
  shows "ring t h xs \<longleftrightarrow> ring s h xs"
  using links_cong[of h xs t s h] assms by (auto simp: ring_def)

section \<open>Splicing a node in and out of a ring\<close>

definition splice_in ::
  "'n \<Rightarrow> 'n \<Rightarrow> 'n \<Rightarrow> 'n lstore \<Rightarrow> 'n lstore" where
  "splice_in a n b s = s\<lparr>lnext := (lnext s)(a := n, n := b), lprev := (lprev s)(b := n, n := a)\<rparr>"

definition splice_out ::
  "'n \<Rightarrow> 'n \<Rightarrow> 'n \<Rightarrow> 'n lstore \<Rightarrow> 'n lstore" where
  "splice_out a n b s = s\<lparr>lnext := (lnext s)(a := b, n := n), lprev := (lprev s)(b := a, n := n)\<rparr>"

lemma insert_after_splice:
  "n \<noteq> l \<Longrightarrow> lnext s l \<noteq> n \<Longrightarrow> rt_list_insert_after l n s = splice_in l n (lnext s l) s"
  by (auto simp: rt_list_insert_after_def splice_in_def set_next_def set_prev_def Let_def
      fun_upd_twist)

lemma insert_before_splice:
  "n \<noteq> l \<Longrightarrow> lprev s l \<noteq> n \<Longrightarrow> rt_list_insert_before l n s = splice_in (lprev s l) n l s"
  by (auto simp: rt_list_insert_before_def splice_in_def set_next_def set_prev_def Let_def
      fun_upd_twist)

lemma remove_unsplice:
  "lnext s n \<noteq> n \<Longrightarrow> rt_list_remove n s = splice_out (lprev s n) n (lnext s n) s"
  by (auto simp: rt_list_remove_def splice_out_def set_next_def set_prev_def Let_def)

lemma remove_detached:
  "lnext s n = n \<Longrightarrow> lprev s n = n \<Longrightarrow> rt_list_remove n s = s"
  by (auto simp: rt_list_remove_def set_next_def set_prev_def Let_def fun_upd_idem)

lemma links_splice:
  assumes "links s a (us @ vs) b" and "distinct (us @ vs)"
    and "a \<notin> set (us @ vs)" and "b \<notin> set (us @ vs)"
    and "n \<notin> set (us @ vs)" and "n \<noteq> a" and "n \<noteq> b"
  shows "links (splice_in (last (a # us)) n (hd (vs @ [b])) s) a (us @ n # vs) b"
  using assms
proof (induction us arbitrary: a)
  case Nil
  show ?case
  proof (cases vs)
    case Nil
    with Nil.prems show ?thesis by (simp add: splice_in_def)
  next
    case (Cons v vs')
    let ?t = "splice_in a n v s"
    have "links ?t v vs' b \<longleftrightarrow> links s v vs' b"
      by (rule links_cong) (use Nil.prems Cons in \<open>auto simp: splice_in_def\<close>)
    with Nil.prems Cons show ?thesis by (auto simp: splice_in_def)
  qed
next
  case (Cons u us)
  let ?t = "splice_in (last (u # us)) n (hd (vs @ [b])) s"
  have "hd (vs @ [b]) \<noteq> u" using Cons.prems by (cases vs) auto
  then have 1: "lprev ?t u = a" using Cons.prems by (auto simp: splice_in_def)
  have "last (u # us) \<noteq> a" using Cons.prems last_in_set[of "u # us"] by auto
  then have 2: "lnext ?t a = u" using Cons.prems by (auto simp: splice_in_def)
  have "links ?t u (us @ n # vs) b"
    by (rule Cons.IH) (use Cons.prems in auto)
  with 1 2 show ?case by simp
qed

lemma links_unsplice:
  assumes "links s a (us @ n # vs) b" and "distinct (us @ n # vs)"
    and "a \<notin> set (us @ n # vs)" and "b \<notin> set (us @ n # vs)"
  shows "links (splice_out (last (a # us)) n (hd (vs @ [b])) s) a (us @ vs) b"
  using assms
proof (induction us arbitrary: a)
  case Nil
  show ?case
  proof (cases vs)
    case Nil
    with Nil.prems show ?thesis by (auto simp: splice_out_def)
  next
    case (Cons v vs')
    let ?t = "splice_out a n v s"
    have "links ?t v vs' b \<longleftrightarrow> links s v vs' b"
      by (rule links_cong) (use Nil.prems Cons in \<open>auto simp: splice_out_def\<close>)
    with Nil.prems Cons show ?thesis by (auto simp: splice_out_def)
  qed
next
  case (Cons u us)
  let ?t = "splice_out (last (u # us)) n (hd (vs @ [b])) s"
  have "hd (vs @ [b]) \<noteq> u" using Cons.prems by (cases vs) auto
  then have 1: "lprev ?t u = a" using Cons.prems by (auto simp: splice_out_def)
  have "last (u # us) \<noteq> a" using Cons.prems last_in_set[of "u # us"] by auto
  then have 2: "lnext ?t a = u" using Cons.prems by (auto simp: splice_out_def)
  have "links ?t u (us @ vs) b"
    by (rule Cons.IH) (use Cons.prems in auto)
  with 1 2 show ?case by simp
qed

lemma links_neighbours:
  assumes "links s a (us @ n # vs) b"
  shows "lprev s n = last (a # us)" and "lnext s n = hd (vs @ [b])"
proof -
  from assms have 1: "links s a us n" and 2: "links s n vs b" by auto
  from links_last[OF 1] show "lprev s n = last (a # us)" by auto
  from links_first[OF 2] show "lnext s n = hd (vs @ [b])" by (cases vs) auto
qed

lemma links_ends:
  assumes "links s a xs b"
  shows "lnext s a = hd (xs @ [b])" and "lprev s b = last (a # xs)"
  using links_first[OF assms] links_last[OF assms] by (cases xs; auto)+

section \<open>Refinement to lists of elements\<close>

definition rep :: "('q, 'e) lnode lstore \<Rightarrow> ('q \<Rightarrow> 'e list) \<Rightarrow> bool" where
  "rep s Q \<longleftrightarrow>
     (\<forall>q. ring s (Head q) (map Node (Q q))) \<and>
     (\<forall>q q' e. e \<in> set (Q q) \<longrightarrow> e \<in> set (Q q') \<longrightarrow> q = q') \<and>
     (\<forall>e. (\<forall>q. e \<notin> set (Q q)) \<longrightarrow> lnext s (Node e) = Node e \<and> lprev s (Node e) = Node e)"

definition detached :: "('q \<Rightarrow> 'e list) \<Rightarrow> 'e \<Rightarrow> bool" where
  "detached Q e \<longleftrightarrow> (\<forall>q. e \<notin> set (Q q))"

lemma rep_ring: "rep s Q \<Longrightarrow> ring s (Head q) (map Node (Q q))"
  by (simp add: rep_def)

lemma rep_distinct: "rep s Q \<Longrightarrow> distinct (Q q)"
  using rep_ring[of s Q q] by (simp add: ring_def distinct_map)

lemma rep_links: "rep s Q \<Longrightarrow> links s (Head q) (map Node (Q q)) (Head q)"
  using rep_ring[of s Q q] by (simp add: ring_def)

lemma rep_unique: "rep s Q \<Longrightarrow> e \<in> set (Q q) \<Longrightarrow> e \<in> set (Q q') \<Longrightarrow> q = q'"
  by (auto simp: rep_def)

lemma rep_detached_self:
  "rep s Q \<Longrightarrow> detached Q e \<Longrightarrow> lnext s (Node e) = Node e \<and> lprev s (Node e) = Node e"
  by (auto simp: rep_def detached_def)

text \<open>Splicing e between us and vs in the list q; the other lists are untouched.\<close>

lemma rep_splice:
  assumes r: "rep s Q" and d: "detached Q e" and q: "Q q = us @ vs"
  shows "rep (splice_in (last (Head q # map Node us)) (Node e) (hd (map Node vs @ [Head q])) s)
             (Q(q := us @ e # vs))" (is "rep ?t ?Q")
proof -
  let ?a = "last (Head q # map Node us)" and ?b = "hd (map Node vs @ [Head q])"
  have ab: "?a \<in> insert (Head q) (Node ` set (Q q))" "?b \<in> insert (Head q) (Node ` set (Q q))"
    using q last_in_set[of us] by (auto simp: last_map hd_append hd_map)
  have e: "e \<notin> set (Q q')" for q' using d by (simp add: detached_def)
  have same: "lnext ?t n = lnext s n \<and> lprev ?t n = lprev s n"
    if "n \<noteq> Node e" "n \<notin> insert (Head q) (Node ` set (Q q))" for n
    using that ab by (auto simp: splice_in_def)
  have 1: "ring ?t (Head q) (map Node (us @ e # vs))"
  proof -
    have "links ?t (Head q) (map Node us @ Node e # map Node vs) (Head q)"
      by (rule links_splice)
         (use rep_links[OF r, of q] rep_distinct[OF r, of q] e[of q] q in
          \<open>auto simp: distinct_map inj_on_def\<close>)
    with rep_distinct[OF r, of q] e[of q] q show ?thesis
      by (auto simp add: ring_def distinct_map inj_on_def image_iff)
  qed
  have 2: "ring ?t (Head q') (map Node (Q q'))" if "q' \<noteq> q" for q'
  proof -
    have "ring ?t (Head q') (map Node (Q q')) \<longleftrightarrow> ring s (Head q') (map Node (Q q'))"
    proof (rule ring_cong)
      fix n assume "n \<in> set (Head q' # map Node (Q q'))"
      with that e rep_unique[OF r, of _ q q'] show "lnext ?t n = lnext s n \<and> lprev ?t n = lprev s n"
        by (intro same) auto
    qed
    with rep_ring[OF r] show ?thesis by simp
  qed
  have 3: "lnext ?t (Node f) = Node f \<and> lprev ?t (Node f) = Node f"
    if "\<forall>q'. f \<notin> set (?Q q')" for f
  proof -
    from that[rule_format, of q] q have "f \<noteq> e" and "f \<notin> set (Q q)" by auto
    moreover from that have "f \<notin> set (Q q')" if "q' \<noteq> q" for q' using that by (metis fun_upd_other)
    ultimately have "f \<noteq> e" and "f \<notin> set (Q q')" for q' by (cases "q' = q"; simp)+
    then have "lnext ?t (Node f) = lnext s (Node f) \<and> lprev ?t (Node f) = lprev s (Node f)"
      and "detached Q f"
      by (intro same; force) (auto simp: detached_def \<open>\<And>q'. f \<notin> set (Q q')\<close>)
    then show ?thesis using rep_detached_self[OF r] by auto
  qed
  show ?thesis
    unfolding rep_def
  proof (intro conjI allI impI)
    fix q' show "ring ?t (Head q') (map Node (?Q q'))" using 1 2 by (cases "q' = q") auto
  next
    fix q1 q2 f assume "f \<in> set (?Q q1)" "f \<in> set (?Q q2)"
    then show "q1 = q2" using rep_unique[OF r, of f] e q by (auto split: if_splits)
  qed (use 3 in blast)+
qed

lemma rep_unsplice:
  assumes r: "rep s Q" and q: "Q q = us @ e # vs"
  shows "rep (splice_out (last (Head q # map Node us)) (Node e) (hd (map Node vs @ [Head q])) s)
             (Q(q := us @ vs))" (is "rep ?t ?Q")
proof -
  let ?a = "last (Head q # map Node us)" and ?b = "hd (map Node vs @ [Head q])"
  have ab: "?a \<in> insert (Head q) (Node ` set (Q q))" "?b \<in> insert (Head q) (Node ` set (Q q))"
    using q last_in_set[of us] by (auto simp: last_map hd_append hd_map)
  have same: "lnext ?t n = lnext s n \<and> lprev ?t n = lprev s n"
    if "n \<notin> insert (Head q) (Node ` set (Q q))" for n
    using that ab q by (auto simp: splice_out_def)
  have 1: "ring ?t (Head q) (map Node (us @ vs))"
  proof -
    have "links ?t (Head q) (map Node us @ map Node vs) (Head q)"
      by (rule links_unsplice)
         (use rep_links[OF r, of q] rep_distinct[OF r, of q] q in
          \<open>auto simp: distinct_map inj_on_def\<close>)
    with rep_distinct[OF r, of q] q show ?thesis
      by (auto simp add: ring_def distinct_map inj_on_def image_iff)
  qed
  have 2: "ring ?t (Head q') (map Node (Q q'))" if "q' \<noteq> q" for q'
  proof -
    have "ring ?t (Head q') (map Node (Q q')) \<longleftrightarrow> ring s (Head q') (map Node (Q q'))"
    proof (rule ring_cong)
      fix n assume "n \<in> set (Head q' # map Node (Q q'))"
      with that rep_unique[OF r, of _ q q'] show "lnext ?t n = lnext s n \<and> lprev ?t n = lprev s n"
        by (intro same) auto
    qed
    with rep_ring[OF r] show ?thesis by simp
  qed
  have 3: "lnext ?t (Node f) = Node f \<and> lprev ?t (Node f) = Node f"
    if "\<forall>q'. f \<notin> set (?Q q')" for f
  proof (cases "f = e")
    case True
    then show ?thesis by (simp add: splice_out_def)
  next
    case False
    with that[rule_format, of q] q have "f \<notin> set (Q q)" by auto
    moreover from that have "f \<notin> set (Q q')" if "q' \<noteq> q" for q' using that by (metis fun_upd_other)
    ultimately have "f \<notin> set (Q q')" for q' by (cases "q' = q") simp_all
    then have "lnext ?t (Node f) = lnext s (Node f) \<and> lprev ?t (Node f) = lprev s (Node f)"
      and "detached Q f"
      by (intro same; force) (auto simp: detached_def \<open>\<And>q'. f \<notin> set (Q q')\<close>)
    then show ?thesis using rep_detached_self[OF r] by auto
  qed
  show ?thesis
    unfolding rep_def
  proof (intro conjI allI impI)
    fix q' show "ring ?t (Head q') (map Node (?Q q'))" using 1 2 by (cases "q' = q") auto
  next
    fix q1 q2 f assume "f \<in> set (?Q q1)" "f \<in> set (?Q q2)"
    then show "q1 = q2" using rep_unique[OF r, of f] q by (auto split: if_splits)
  qed (use 3 in blast)+
qed

lemma rep_head_fresh:
  assumes "rep s Q" and "detached Q e"
  shows "lnext s (Head q) \<noteq> Node e" and "lprev s (Head q) \<noteq> Node e"
  using links_ends[OF rep_links[OF assms(1), of q]] assms(2)
  by (auto simp: detached_def hd_append hd_map last_map split: if_splits)
     (metis hd_in_set last_in_set lnode.inject(2) hd_map last_map list.map_disc_iff)+

theorem rep_insert_after_head:
  assumes "rep s Q" and "detached Q e"
  shows "rep (rt_list_insert_after (Head q) (Node e) s) (Q(q := e # Q q))"
proof -
  have "lnext s (Head q) = hd (map Node (Q q) @ [Head q])"
    using links_ends(1)[OF rep_links[OF assms(1)]] .
  with rep_splice[OF assms, of q "[]" "Q q"] rep_head_fresh[OF assms, of q]
  show ?thesis by (simp add: insert_after_splice)
qed

theorem rep_insert_before_head:
  assumes "rep s Q" and "detached Q e"
  shows "rep (rt_list_insert_before (Head q) (Node e) s) (Q(q := Q q @ [e]))"
proof -
  have "lprev s (Head q) = last (Head q # map Node (Q q))"
    using links_ends(2)[OF rep_links[OF assms(1)]] .
  with rep_splice[OF assms, of q "Q q" "[]"] rep_head_fresh[OF assms, of q]
  show ?thesis by (simp add: insert_before_splice)
qed

theorem rep_insert_before_node:
  assumes r: "rep s Q" and d: "detached Q e" and q: "Q q = us @ x # vs"
  shows "rep (rt_list_insert_before (Node x) (Node e) s) (Q(q := us @ e # x # vs))"
proof -
  have l: "lprev s (Node x) = last (Head q # map Node us)"
    using links_neighbours(1)[of s "Head q" "map Node us" "Node x" "map Node vs" "Head q"]
      rep_links[OF r, of q] q by simp
  have "e \<noteq> x" and "e \<notin> set us" using d q by (auto simp: detached_def dest: spec[of _ q])
  then have "lprev s (Node x) \<noteq> Node e"
    using l last_in_set[of us] by (auto simp: last_map)
  with \<open>e \<noteq> x\<close> l rep_splice[OF r d, of q us "x # vs"] q show ?thesis
    by (simp add: insert_before_splice)
qed

theorem rep_remove:
  assumes "rep s Q"
  shows "rep (rt_list_remove (Node e) s) (\<lambda>q. remove1 e (Q q))"
proof (cases "detached Q e")
  case True
  with rep_detached_self[OF assms True] assms show ?thesis
    by (simp add: remove_detached detached_def remove1_idem)
next
  case False
  then obtain q where q: "e \<in> set (Q q)" by (auto simp: detached_def)
  then obtain us vs where uv: "Q q = us @ e # vs" by (meson split_list)
  have "e \<notin> set us" using rep_distinct[OF assms, of q] uv by auto
  then have "(\<lambda>q'. remove1 e (Q q')) = Q(q := us @ vs)"
    using uv rep_unique[OF assms q] by (auto simp: fun_eq_iff remove1_append intro!: remove1_idem)
  moreover have n: "lprev s (Node e) = last (Head q # map Node us)"
      "lnext s (Node e) = hd (map Node vs @ [Head q])"
    using links_neighbours[of s "Head q" "map Node us" "Node e" "map Node vs" "Head q"]
      rep_links[OF assms, of q] uv by auto
  moreover have "e \<notin> set vs" using rep_distinct[OF assms, of q] uv by auto
  then have "lnext s (Node e) \<noteq> Node e" using n(2) by (cases vs) auto
  ultimately show ?thesis
    using rep_unsplice[OF assms uv] by (simp add: remove_unsplice)
qed

theorem rep_isempty:
  assumes "rep s Q"
  shows "rt_list_isempty (Head q) s \<longleftrightarrow> Q q = []"
  using links_ends(1)[OF rep_links[OF assms, of q]]
  by (cases "Q q") (auto simp: rt_list_isempty_def)

theorem rep_first:
  assumes "rep s Q" and "Q q = e # es"
  shows "lnext s (Head q) = Node e"
  using links_ends(1)[OF rep_links[OF assms(1), of q]] assms(2) by simp

lemma len_loop_links:
  assumes "links s p xs l" and "l \<notin> set xs" and "length xs < fuel"
  shows "rt_list_len_loop fuel l p len s = Some (len + of_nat (length xs))"
  using assms
proof (induction xs arbitrary: p len fuel)
  case Nil
  then show ?case by (cases fuel) auto
next
  case (Cons x xs)
  then obtain f where "fuel = Suc f" by (cases fuel) auto
  with Cons.prems Cons.IH[of x f "len + 1"] show ?case
    by (auto simp: algebra_simps)
qed

theorem rep_len:
  assumes "rep s Q" and "length (Q q) < fuel"
  shows "rt_list_len fuel (Head q) s = Some (of_nat (length (Q q)))"
  using len_loop_links[OF rep_links[OF assms(1), of q], of fuel 0] assms(2)
  by (auto simp: rt_list_len_def)

text \<open>Lists that have just been initialised are empty.\<close>

theorem rep_init:
  assumes "\<And>n. lnext s n = n \<and> lprev s n = n"
  shows "rep (rt_list_init (Head q) s) (\<lambda>_. [])"
  using assms by (auto simp: rep_def ring_def rt_list_init_def set_next_def set_prev_def)

section \<open>The list contract\<close>

text \<open>
  What the kernel relies on: a family of lists indexed by 'q whose elements are linked in at
  most one of them.  \<open>R\<close> relates a concrete state to the family it represents.
\<close>

locale linked_lists =
  fixes R :: "'s \<Rightarrow> ('q \<Rightarrow> 'e list) \<Rightarrow> bool"
    and push_tail :: "'q \<Rightarrow> 'e \<Rightarrow> 's \<Rightarrow> 's"
    and push_head :: "'q \<Rightarrow> 'e \<Rightarrow> 's \<Rightarrow> 's"
    and unlink :: "'e \<Rightarrow> 's \<Rightarrow> 's"
    and is_empty :: "'q \<Rightarrow> 's \<Rightarrow> bool"
  assumes R_distinct: "R s Q \<Longrightarrow> distinct (Q q)"
    and R_unique: "R s Q \<Longrightarrow> e \<in> set (Q q) \<Longrightarrow> e \<in> set (Q q') \<Longrightarrow> q = q'"
    and R_push_tail: "R s Q \<Longrightarrow> detached Q e \<Longrightarrow> R (push_tail q e s) (Q(q := Q q @ [e]))"
    and R_push_head: "R s Q \<Longrightarrow> detached Q e \<Longrightarrow> R (push_head q e s) (Q(q := e # Q q))"
    and R_unlink: "R s Q \<Longrightarrow> R (unlink e s) (\<lambda>q. remove1 e (Q q))"
    and R_is_empty: "R s Q \<Longrightarrow> is_empty q s \<longleftrightarrow> Q q = []"
begin

lemma unlink_detaches: "R s Q \<Longrightarrow> detached (\<lambda>q. remove1 e (Q q)) e"
  by (auto simp: detached_def R_distinct)

lemma unlink_only_from:
  assumes "R s Q" and "e \<in> set (Q q)"
  shows "(\<lambda>q'. remove1 e (Q q')) = Q(q := remove1 e (Q q))"
proof
  fix q'
  show "remove1 e (Q q') = (Q(q := remove1 e (Q q))) q'"
    using R_unique[OF assms, of q'] by (cases "q' = q") (auto intro: remove1_idem)
qed

text \<open>Linking and unlinking again restores every list.\<close>

lemma push_then_unlink:
  assumes "R s Q" and "detached Q e"
  shows "R (unlink e (push_tail q e s)) Q"
proof -
  have "(\<lambda>q'. remove1 e ((Q(q := Q q @ [e])) q')) = Q"
    using assms(2) by (auto simp: fun_eq_iff detached_def remove1_append remove1_idem)
  with R_unlink[OF R_push_tail[OF assms], of e q] show ?thesis by simp
qed

text \<open>Elements pushed at the tail are met in the order in which they were pushed.\<close>

lemma push_tail_fifo:
  assumes "R s Q" and "distinct es" and "\<forall>e \<in> set es. detached Q e"
  shows "R (fold (push_tail q) es s) (Q(q := Q q @ es))"
  using assms
proof (induction es arbitrary: s Q)
  case Nil
  then show ?case by simp
next
  case (Cons e es)
  then have "R (push_tail q e s) (Q(q := Q q @ [e]))" by (simp add: R_push_tail)
  moreover have "\<forall>f \<in> set es. detached (Q(q := Q q @ [e])) f"
    using Cons.prems by (auto simp: detached_def)
  ultimately have "R (fold (push_tail q) es (push_tail q e s)) (Q(q := (Q q @ [e]) @ es))"
    using Cons.IH[of "push_tail q e s" "Q(q := Q q @ [e])"] Cons.prems
    by (simp only: distinct.simps fun_upd_same fun_upd_upd simp_thms)
  then show ?case by (simp only: fold_simps append_assoc append_Cons append_Nil)
qed

text \<open>Unlinking the elements of a list one after the other, from the front, empties it.\<close>

lemma unlink_all:
  assumes "R s Q"
  shows "R (fold unlink (Q q) s) (Q(q := []))"
  using assms
proof (induction "Q q" arbitrary: s Q)
  case Nil
  then show ?case by (simp add: fun_upd_idem)
next
  case (Cons e es)
  let ?Q = "Q(q := es)"
  have "R (unlink e s) ?Q"
  proof -
    have "Q q = e # es" using Cons.hyps(2) by (rule sym)
    then show ?thesis
      using R_unlink[OF Cons.prems, of e] unlink_only_from[OF Cons.prems, of e q] by simp
  qed
  moreover have "es = ?Q q" by simp
  ultimately have "R (fold unlink (?Q q) (unlink e s)) (?Q(q := []))"
    using Cons.hyps(1)[of ?Q "unlink e s"] by blast
  then show ?case using Cons.hyps(2)[symmetric] by simp
qed

end

interpretation ptr: linked_lists rep
  "\<lambda>q e. rt_list_insert_before (Head q) (Node e)"
  "\<lambda>q e. rt_list_insert_after (Head q) (Node e)"
  "\<lambda>e. rt_list_remove (Node e)" "\<lambda>q. rt_list_isempty (Head q)"
  by unfold_locales
     (auto simp: rep_distinct rep_unique rep_insert_before_head rep_insert_after_head rep_remove
       rep_isempty)

end
