(* ===== verification/Kservice.thy ===== *)
theory Kservice
  imports Prelude
begin

text \<open>
  Two services of rt-thread/src/kservice.c: \<open>__rt_ffs\<close>, which the scheduler uses to find the
  highest ready priority, and the bounded string copy and comparison that the object system
  uses for names.  The rest of the file is in Kmemory, Kstring and Kprintf.
\<close>

section \<open>Find first set\<close>

text \<open>The table is written row by row as in the source.\<close>

definition row_0 :: "nat list" where
  "row_0 = [0, 0, 1, 0, 2, 0, 1, 0, 3, 0, 1, 0, 2, 0, 1, 0]"

definition lowest_bit_bitmap :: "nat list" where
  "lowest_bit_bitmap = concat
     [row_0, row_0[0 := 4], row_0[0 := 5], row_0[0 := 4],
      row_0[0 := 6], row_0[0 := 4], row_0[0 := 5], row_0[0 := 4],
      row_0[0 := 7], row_0[0 := 4], row_0[0 := 5], row_0[0 := 4],
      row_0[0 := 6], row_0[0 := 4], row_0[0 := 5], row_0[0 := 4]]"

definition rt_ffs :: "u32 \<Rightarrow> nat" where
  "rt_ffs value =
     (if value = 0 then 0
      else if value AND 0xff \<noteq> 0 then lowest_bit_bitmap ! unat (value AND 0xff) + 1
      else if value AND 0xff00 \<noteq> 0
        then lowest_bit_bitmap ! unat (drop_bit 8 (value AND 0xff00)) + 9
      else if value AND 0xff0000 \<noteq> 0
        then lowest_bit_bitmap ! unat (drop_bit 16 (value AND 0xff0000)) + 17
      else lowest_bit_bitmap ! unat (drop_bit 24 (value AND 0xff000000)) + 25)"

text \<open>The lowest set bit of n is b exactly when n is 2 ^ b modulo 2 ^ (b + 1).\<close>

lemma lowest_bit_mod:
  fixes n :: nat
  assumes "n mod 2 ^ Suc b = 2 ^ b"
  shows "bit n b" and "i < b \<Longrightarrow> \<not> bit n i"
proof -
  have t: "take_bit (Suc b) n = 2 ^ b" using assms by (simp add: take_bit_eq_mod)
  have bits: "bit n i \<longleftrightarrow> i = b" if "i \<le> b" for i
    using that arg_cong[OF t, of "\<lambda>m. bit m i"]
    by (auto simp: bit_take_bit_iff bit_exp_iff)
  show "bit n b" and "i < b \<Longrightarrow> \<not> bit n i" using bits by auto
qed

lemma concat_nth_uniform:
  assumes "\<forall>r \<in> set rows. length r = m" and "h < length rows" and "l < m"
  shows "concat rows ! (m * h + l) = rows ! h ! l"
  using assms
proof (induction rows arbitrary: h)
  case Nil
  then show ?case by simp
next
  case (Cons r rows)
  show ?case
  proof (cases h)
    case 0
    with Cons.prems show ?thesis by (simp add: nth_append)
  next
    case (Suc k)
    with Cons.prems Cons.IH[of k] show ?thesis by (simp add: nth_append)
  qed
qed

lemma row_0_lowest:
  assumes "0 < l" and "l < 16"
  shows "row_0 ! l < 4 \<and> l mod 2 ^ Suc (row_0 ! l) = 2 ^ (row_0 ! l)"
proof -
  from assms have "l \<in> {1, 2, 3, 4, 5, 6, 7, 8, 9, 10, 11, 12, 13, 14, 15}" by (simp; arith)
  then show ?thesis by (auto simp: row_0_def)
qed

lemma bitmap_rows:
  assumes "h < 16" and "l < 16"
  shows "lowest_bit_bitmap ! (16 * h + l) =
    (if l = 0 then if h = 0 then 0 else 4 + row_0 ! h else row_0 ! l)"
proof -
  let ?rows = "map (\<lambda>h. if h = 0 then row_0 else row_0[0 := 4 + row_0 ! h]) [0..<16]"
  have "lowest_bit_bitmap = concat ?rows"
    by (simp add: lowest_bit_bitmap_def row_0_def upt_rec)
  then have "lowest_bit_bitmap ! (16 * h + l) = ?rows ! h ! l"
    using concat_nth_uniform[of ?rows 16 h l] assms by (auto simp: row_0_def)
  then show ?thesis using assms by (auto simp: row_0_def nth_list_update)
qed

text \<open>Every non-zero byte: the table gives its lowest set bit.\<close>

lemma bitmap_byte:
  assumes "0 < n" and "n < 256"
  shows "lowest_bit_bitmap ! n < 8 \<and> n mod 2 ^ Suc (lowest_bit_bitmap ! n) = 2 ^ (lowest_bit_bitmap ! n)"
proof -
  define h l where "h = n div 16" and "l = n mod 16"
  then have n: "n = 16 * h + l" and hl: "h < 16" "l < 16" using assms by auto
  show ?thesis
  proof (cases "l = 0")
    case True
    with n assms have "0 < h" by simp
    from row_0_lowest[OF this hl(1)] have r: "row_0 ! h < 4" "h mod 2 ^ Suc (row_0 ! h) = 2 ^ (row_0 ! h)"
      by auto
    have "(16 * h) mod (16 * 2 ^ Suc (row_0 ! h)) = 16 * 2 ^ (row_0 ! h)"
      by (simp only: mult_mod_right [symmetric] r(2))
    with True n bitmap_rows[OF hl] \<open>0 < h\<close> r(1) show ?thesis by (simp add: power_add)
  next
    case False
    from row_0_lowest[of l] False hl have r: "row_0 ! l < 4" "l mod 2 ^ Suc (row_0 ! l) = 2 ^ (row_0 ! l)"
      by auto
    have "2 ^ Suc (row_0 ! l) dvd (16 * h :: nat)"
    proof -
      have "(2::nat) ^ Suc (row_0 ! l) dvd 2 ^ 4" using r(1) by (intro le_imp_power_dvd) simp
      then show ?thesis by (simp add: dvd_mult2)
    qed
    then have "n mod 2 ^ Suc (row_0 ! l) = l mod 2 ^ Suc (row_0 ! l)"
      using n by (metis mod_add_left_eq dvd_imp_mod_0 add_0)
    with False n bitmap_rows[OF hl] r show ?thesis by simp
  qed
qed

lemma bit_255: "bit (0xff :: int) j \<longleftrightarrow> j < 8"
proof -
  have "(0xff :: int) = mask 8" by (simp add: mask_eq_exp_minus_1)
  then show ?thesis by (simp only: bit_mask_iff) auto
qed

lemma ffs_byte:
  fixes w :: u32 and k :: nat
  defines "n \<equiv> unat (drop_bit k (w AND push_bit k 0xff))"
  assumes k: "k \<le> 24" and nz: "w AND push_bit k 0xff \<noteq> 0"
  shows "lowest_bit_bitmap ! n < 8"
    and "bit w (k + lowest_bit_bitmap ! n)"
    and "k \<le> i \<Longrightarrow> i < k + lowest_bit_bitmap ! n \<Longrightarrow> \<not> bit w i"
proof -
  have bits: "bit n j \<longleftrightarrow> j < 8 \<and> bit w (k + j)" for j
    using k by (auto simp: n_def bit_255 bit_simps bit_unsigned_iff dest: bit_imp_le_length)
  have "take_bit 8 n = n" by (rule bit_eqI) (use bits in \<open>auto simp: bit_take_bit_iff\<close>)
  then have "n < 2 ^ 8" by (metis take_bit_nat_less_exp)
  moreover have "n \<noteq> 0"
  proof
    assume "n = 0"
    then have "\<not> bit w (k + j)" if "j < 8" for j using bits[of j] that by simp
    then have "w AND push_bit k 0xff = 0"
      by (intro bit_eqI) (auto simp: bit_255 bit_simps, metis le_add_diff_inverse)
    with nz show False by simp
  qed
  ultimately have low: "lowest_bit_bitmap ! n < 8"
      "n mod 2 ^ Suc (lowest_bit_bitmap ! n) = 2 ^ (lowest_bit_bitmap ! n)"
    using bitmap_byte[of n] by auto
  show "lowest_bit_bitmap ! n < 8" by (rule low(1))
  show "bit w (k + lowest_bit_bitmap ! n)" using lowest_bit_mod(1)[OF low(2)] bits by simp
  assume i: "k \<le> i" "i < k + lowest_bit_bitmap ! n"
  then have "\<not> bit n (i - k)" using lowest_bit_mod(2)[OF low(2), of "i - k"] by simp
  with bits[of "i - k"] i low(1) show "\<not> bit w i" by auto
qed

text \<open>
  Specification of find-first-set: the result is one more than the index of the lowest set
  bit, and 0 exactly for 0.
\<close>

lemma ffs_spec:
  assumes "w \<noteq> 0"
  shows "\<exists>i. rt_ffs w = Suc i \<and> i < 32 \<and> bit w i \<and> (\<forall>j < i. \<not> bit w j)"
proof -
  have zero: "\<not> bit w j" if "w AND push_bit k 0xff = 0" "k \<le> j" "j < k + 8" "k \<le> 24" for k j
  proof -
    have "bit (push_bit k (0xff::u32)) j" using that by (auto simp add: bit_push_bit_iff bit_255)
    moreover have "\<not> bit (w AND push_bit k 0xff) j" using that by simp
    ultimately show ?thesis by (simp add: bit_and_iff)
  qed
  have split: "j < 8 \<or> (8 \<le> j \<and> j < 16) \<or> (16 \<le> j \<and> j < 24) \<or> 24 \<le> j" for j :: nat by arith
  define b where "b k = lowest_bit_bitmap ! unat (drop_bit k (w AND push_bit k 0xff))" for k
  have ffs: "rt_ffs w =
      (if w AND push_bit 0 0xff \<noteq> 0 then b 0 + 0 + 1
       else if w AND push_bit 8 0xff \<noteq> 0 then b 8 + 8 + 1
       else if w AND push_bit 16 0xff \<noteq> 0 then b 16 + 16 + 1 else b 24 + 24 + 1)"
    using assms by (simp add: rt_ffs_def b_def push_bit_eq_mult)
  have found: ?thesis if "rt_ffs w = b k + k + 1" "w AND push_bit k 0xff \<noteq> 0" "k \<le> 24"
      "\<forall>j < k. \<not> bit w j" for k
  proof (intro exI[of _ "k + b k"] conjI allI impI)
    show "rt_ffs w = Suc (k + b k)" using that by simp
    show "k + b k < 32" "bit w (k + b k)"
      using ffs_byte(1,2)[OF that(3,2)] that(3) unfolding b_def by auto
    fix j assume "j < k + b k"
    then show "\<not> bit w j" using that(4) ffs_byte(3)[OF that(3,2), of j] unfolding b_def
      by (cases "k \<le> j") auto
  qed
  consider "w AND push_bit 0 0xff \<noteq> 0"
    | "w AND push_bit 0 0xff = 0" "w AND push_bit 8 0xff \<noteq> 0"
    | "w AND push_bit 0 0xff = 0" "w AND push_bit 8 0xff = 0" "w AND push_bit 16 0xff \<noteq> 0"
    | "w AND push_bit 0 0xff = 0" "w AND push_bit 8 0xff = 0" "w AND push_bit 16 0xff = 0"
    by blast
  then show ?thesis
  proof cases
    case 1
    then show ?thesis using assms by (intro found[of 0]) (simp_all only: ffs simp_thms if_True if_False, auto)
  next
    case 2
    then show ?thesis using assms zero[of 0]
      by (intro found[of 8]) (simp_all only: ffs simp_thms if_True if_False, auto)
  next
    case 3
    have "\<not> bit w j" if "j < 16" for j
      using zero[OF 3(1), of j] zero[OF 3(2), of j] that by (cases "j < 8") auto
    then show ?thesis using assms 3
      by (intro found[of 16]) (simp_all only: ffs simp_thms if_True if_False, auto)
  next
    case 4
    have low: "\<not> bit w j" if "j < 24" for j
      using zero[OF 4(1), of j] zero[OF 4(2), of j] zero[OF 4(3), of j] that split[of j] by auto
    have nz: "w AND push_bit 24 0xff \<noteq> 0"
    proof
      assume "w AND push_bit 24 0xff = 0"
      then have "\<not> bit w j" for j
        using low[of j] zero[of 24 j] bit_imp_le_length[of w j] by fastforce
      with assms show False by (metis bit_eqI bit_0_eq bot_apply bot_bool_def)
    qed
    show ?thesis using assms 4 nz low
      by (intro found[of 24]) (simp_all only: ffs simp_thms if_True if_False, auto)
  qed
qed

section \<open>Bounded strings\<close>

text \<open>A C string is the list of its bytes; reading at or past the end gives the NUL.\<close>

definition byte_at :: "u8 list \<Rightarrow> u8" where
  "byte_at s = (case s of [] \<Rightarrow> 0 | c # _ \<Rightarrow> c)"

fun rt_strncpy :: "u8 list \<Rightarrow> nat \<Rightarrow> u8 list" where
  "rt_strncpy s 0 = []"
| "rt_strncpy s (Suc n) =
     (if byte_at s = 0 then 0 # replicate n 0 else byte_at s # rt_strncpy (tl s) n)"

fun rt_strncmp :: "u8 list \<Rightarrow> u8 list \<Rightarrow> nat \<Rightarrow> u8" where
  "rt_strncmp cs ct 0 = 0"
| "rt_strncmp cs ct (Suc n) =
     (let res = byte_at cs - byte_at ct
      in if res \<noteq> 0 \<or> byte_at cs = 0 then res else rt_strncmp (tl cs) (tl ct) n)"

lemma length_strncpy: "length (rt_strncpy s n) = n"
  by (induction s n rule: rt_strncpy.induct) auto

lemma strncmp_strncpy:
  assumes "0 \<notin> set a" and "0 \<notin> set b"
  shows "rt_strncmp (rt_strncpy a n) b n = 0 \<longleftrightarrow> take n a = take n b"
  using assms
proof (induction n arbitrary: a b)
  case 0
  then show ?case by simp
next
  case (Suc n)
  show ?case
  proof (cases a)
    case Nil
    with Suc.prems show ?thesis by (cases b) (auto simp: byte_at_def)
  next
    case (Cons x xs)
    with Suc.prems Suc.IH[of xs "tl b"] show ?thesis by (cases b) (auto simp: byte_at_def)
  qed
qed

end
