(* ===== verification/Kernel_State.thy ===== *)
theory Kernel_State
  imports Rt_List Kservice
begin

text \<open>
  The state of the kernel (rt-thread/include/rtdef.h and the static variables of
  rt-thread/src/*.c) as one record, and the primitive updates that every component uses.

  Pointers to kernel objects are natural numbers, one name space per kind of object.  The
  list heads are the values of \<open>list_id\<close>; the elements linked through the tlist field of a
  thread are the members of \<open>tlists\<close>, and \<open>on_list\<close> records the list the tlist node of a
  thread is linked in (None when the node is linked to itself).  Rt_List shows that the
  pointer operations of rtservice.h act on such families of lists as the operations here do.
  Linking a node that is already linked would tear two rings apart, so it is None here.
\<close>

section \<open>Constants\<close>

abbreviation RT_THREAD_PRIORITY_MAX :: nat where "RT_THREAD_PRIORITY_MAX \<equiv> 32"
abbreviation RT_TICK_PER_SECOND :: u32 where "RT_TICK_PER_SECOND \<equiv> 1000"

abbreviation RT_THREAD_INIT :: u8 where "RT_THREAD_INIT \<equiv> 0x00"
abbreviation RT_THREAD_READY :: u8 where "RT_THREAD_READY \<equiv> 0x01"
abbreviation RT_THREAD_SUSPEND :: u8 where "RT_THREAD_SUSPEND \<equiv> 0x02"
abbreviation RT_THREAD_CLOSE :: u8 where "RT_THREAD_CLOSE \<equiv> 0x04"
abbreviation RT_THREAD_STAT_MASK :: u8 where "RT_THREAD_STAT_MASK \<equiv> 0x0f"

abbreviation RT_TIMER_FLAG_ACTIVATED :: u8 where "RT_TIMER_FLAG_ACTIVATED \<equiv> 0x1"
abbreviation RT_TIMER_FLAG_PERIODIC :: u8 where "RT_TIMER_FLAG_PERIODIC \<equiv> 0x2"
abbreviation RT_TIMER_FLAG_SOFT_TIMER :: u8 where "RT_TIMER_FLAG_SOFT_TIMER \<equiv> 0x4"
abbreviation RT_TIMER_FLAG_ONE_SHOT :: u8 where "RT_TIMER_FLAG_ONE_SHOT \<equiv> 0x0"

abbreviation RT_IPC_FLAG_FIFO :: u8 where "RT_IPC_FLAG_FIFO \<equiv> 0x00"
abbreviation RT_IPC_FLAG_PRIO :: u8 where "RT_IPC_FLAG_PRIO \<equiv> 0x01"

abbreviation RT_EVENT_FLAG_AND :: u8 where "RT_EVENT_FLAG_AND \<equiv> 0x01"
abbreviation RT_EVENT_FLAG_OR :: u8 where "RT_EVENT_FLAG_OR \<equiv> 0x02"
abbreviation RT_EVENT_FLAG_CLEAR :: u8 where "RT_EVENT_FLAG_CLEAR \<equiv> 0x04"

section \<open>Kernel objects\<close>

type_synonym tid = nat

datatype timer_id = ThreadTimer tid | UserTimer nat

datatype rt_object_class_type =
    RT_Object_Class_Thread | RT_Object_Class_Semaphore | RT_Object_Class_Mutex
  | RT_Object_Class_Event | RT_Object_Class_MailBox | RT_Object_Class_MessageQueue
  | RT_Object_Class_MemHeap | RT_Object_Class_MemPool | RT_Object_Class_Device
  | RT_Object_Class_Timer | RT_Object_Class_Module | RT_Object_Class_Unknown

datatype object_id =
    ObjThread tid | ObjTimer timer_id | ObjSem nat | ObjMutex nat | ObjEvent nat
  | ObjMb nat | ObjMq nat | ObjMemHeap nat | ObjMemPool nat | ObjDevice nat

record rt_object =
  ob_name :: "u8 list"
  ob_type :: u8
  ob_flag :: u8

datatype timeout_func = Thread_timeout tid | User_func nat

record rt_timer =
  tm_timeout_func :: timeout_func
  tm_init_tick :: u32
  tm_timeout_tick :: u32

record rt_thread =
  th_sp :: u32
  th_entry :: u32
  th_parameter :: u32
  th_stack_addr :: u32
  th_stack_size :: u32
  th_stack_mark :: u8
  th_error :: rt_err
  th_stat :: u8
  th_current_priority :: u8
  th_init_priority :: u8
  th_number_mask :: u32
  th_event_set :: u32
  th_event_info :: u8
  th_init_tick :: u32
  th_remaining_tick :: u32
  th_cleanup :: bool
  th_user_data :: u32

record rt_semaphore =
  sem_value :: u16

record rt_mutex =
  mx_value :: u16
  mx_original_priority :: u8
  mx_hold :: u8
  mx_owner :: "tid option"

record rt_event =
  ev_set :: u32

record rt_mailbox =
  mb_msg_pool :: "u32 list"
  mb_size :: u16
  mb_entry :: u16
  mb_in_offset :: u16
  mb_out_offset :: u16

text \<open>A message queue owns \<open>max_msgs\<close> slots; a slot is a next pointer and a payload.\<close>

record rt_messagequeue =
  mq_msg_size :: u16
  mq_max_msgs :: u16
  mq_entry :: u16
  mq_next :: "nat \<Rightarrow> nat option"
  mq_data :: "nat \<Rightarrow> u8 list"
  mq_queue_head :: "nat option"
  mq_queue_tail :: "nat option"
  mq_queue_free :: "nat option"

text \<open>The statically allocated threads of idle.c and timer.c.\<close>

definition idle_thread :: tid where
  "idle_thread = 0"

definition timer_thread :: tid where
  "timer_thread = 1"

section \<open>The kernel record\<close>

datatype list_id =
    ReadyQ nat | DefunctQ | SemQ nat | MutexQ nat | EventQ nat
  | MbQ nat | MbSendQ nat | MqQ nat | MpQ nat | DqPushQ nat | DqPopQ nat | CompQ nat

record kernel =
  rt_tick :: u32
  threads :: "tid \<Rightarrow> rt_thread"
  timers :: "timer_id \<Rightarrow> rt_timer"
  objs :: "object_id \<Rightarrow> rt_object"
  object_list :: "rt_object_class_type \<Rightarrow> object_id list"
  tlists :: "list_id \<Rightarrow> tid list"
  on_list :: "tid \<Rightarrow> list_id option"
  rt_timer_list :: "timer_id list"
  rt_soft_timer_list :: "timer_id list"
  random_nr :: u32
  rt_thread_ready_priority_group :: u32
  rt_current_thread :: "tid option"
  rt_current_priority :: u8
  rt_scheduler_lock_nest :: u16
  rt_interrupt_nest :: u8
  kernel_errno :: rt_err
  sems :: "nat \<Rightarrow> rt_semaphore"
  mutexes :: "nat \<Rightarrow> rt_mutex"
  events :: "nat \<Rightarrow> rt_event"
  mailboxes :: "nat \<Rightarrow> rt_mailbox"
  mqueues :: "nat \<Rightarrow> rt_messagequeue"

section \<open>Primitive updates\<close>

definition upd_thread :: "tid \<Rightarrow> (rt_thread \<Rightarrow> rt_thread) \<Rightarrow> kernel \<Rightarrow> kernel" where
  "upd_thread t f k = k\<lparr>threads := (threads k)(t := f (threads k t))\<rparr>"

definition upd_timer :: "timer_id \<Rightarrow> (rt_timer \<Rightarrow> rt_timer) \<Rightarrow> kernel \<Rightarrow> kernel" where
  "upd_timer i f k = k\<lparr>timers := (timers k)(i := f (timers k i))\<rparr>"

definition upd_obj :: "object_id \<Rightarrow> (rt_object \<Rightarrow> rt_object) \<Rightarrow> kernel \<Rightarrow> kernel" where
  "upd_obj i f k = k\<lparr>objs := (objs k)(i := f (objs k i))\<rparr>"

definition upd_sem :: "nat \<Rightarrow> (rt_semaphore \<Rightarrow> rt_semaphore) \<Rightarrow> kernel \<Rightarrow> kernel" where
  "upd_sem i f k = k\<lparr>sems := (sems k)(i := f (sems k i))\<rparr>"

definition upd_mutex :: "nat \<Rightarrow> (rt_mutex \<Rightarrow> rt_mutex) \<Rightarrow> kernel \<Rightarrow> kernel" where
  "upd_mutex i f k = k\<lparr>mutexes := (mutexes k)(i := f (mutexes k i))\<rparr>"

definition upd_event :: "nat \<Rightarrow> (rt_event \<Rightarrow> rt_event) \<Rightarrow> kernel \<Rightarrow> kernel" where
  "upd_event i f k = k\<lparr>events := (events k)(i := f (events k i))\<rparr>"

definition upd_mb :: "nat \<Rightarrow> (rt_mailbox \<Rightarrow> rt_mailbox) \<Rightarrow> kernel \<Rightarrow> kernel" where
  "upd_mb i f k = k\<lparr>mailboxes := (mailboxes k)(i := f (mailboxes k i))\<rparr>"

definition upd_mq :: "nat \<Rightarrow> (rt_messagequeue \<Rightarrow> rt_messagequeue) \<Rightarrow> kernel \<Rightarrow> kernel" where
  "upd_mq i f k = k\<lparr>mqueues := (mqueues k)(i := f (mqueues k i))\<rparr>"

lemmas upd_defs [kernel_defs] =
  upd_thread_def upd_timer_def upd_obj_def upd_sem_def upd_mutex_def upd_event_def
  upd_mb_def upd_mq_def

abbreviation thread_stat :: "kernel \<Rightarrow> tid \<Rightarrow> u8" where
  "thread_stat k t \<equiv> th_stat (threads k t) AND RT_THREAD_STAT_MASK"

abbreviation thread_prio :: "kernel \<Rightarrow> tid \<Rightarrow> nat" where
  "thread_prio k t \<equiv> unat (th_current_priority (threads k t))"

section \<open>The thread lists\<close>

definition link_tail :: "list_id \<Rightarrow> tid \<Rightarrow> kernel \<Rightarrow> kernel" where
  "link_tail q t k =
     k\<lparr>tlists := (tlists k)(q := tlists k q @ [t]), on_list := (on_list k)(t := Some q)\<rparr>"

definition link_head :: "list_id \<Rightarrow> tid \<Rightarrow> kernel \<Rightarrow> kernel" where
  "link_head q t k =
     k\<lparr>tlists := (tlists k)(q := t # tlists k q), on_list := (on_list k)(t := Some q)\<rparr>"

definition link_at :: "list_id \<Rightarrow> tid list \<Rightarrow> tid \<Rightarrow> tid list \<Rightarrow> kernel \<Rightarrow> kernel" where
  "link_at q us t vs k =
     k\<lparr>tlists := (tlists k)(q := us @ t # vs), on_list := (on_list k)(t := Some q)\<rparr>"

definition unlink_thread :: "tid \<Rightarrow> kernel \<Rightarrow> kernel" where
  "unlink_thread t k =
     (case on_list k t of
        None \<Rightarrow> k
      | Some q \<Rightarrow> k\<lparr>tlists := (tlists k)(q := remove1 t (tlists k q)),
                   on_list := (on_list k)(t := None)\<rparr>)"

text \<open>\<open>rt_list_insert_before\<close> on a list head, \<open>rt_list_insert_after\<close> on a list head and
  \<open>rt_list_remove\<close>, for the tlist node of a thread.\<close>

definition tlist_insert_before :: "list_id \<Rightarrow> tid \<Rightarrow> kernel \<Rightarrow> kernel option" where
  "tlist_insert_before q t k = (if on_list k t = None then Some (link_tail q t k) else None)"

definition tlist_insert_after :: "list_id \<Rightarrow> tid \<Rightarrow> kernel \<Rightarrow> kernel option" where
  "tlist_insert_after q t k = (if on_list k t = None then Some (link_head q t k) else None)"

text \<open>\<open>rt_list_insert_before\<close> on the tlist node of the thread s, which is on the list q.\<close>

definition tlist_insert_before_thread :: "list_id \<Rightarrow> tid \<Rightarrow> tid \<Rightarrow> kernel \<Rightarrow> kernel option" where
  "tlist_insert_before_thread q s t k =
     (if on_list k t = None
      then Some (link_at q (takeWhile (\<lambda>x. x \<noteq> s) (tlists k q)) t (dropWhile (\<lambda>x. x \<noteq> s) (tlists k q)) k)
      else None)"

definition tlist_remove :: "tid \<Rightarrow> kernel \<Rightarrow> kernel" where
  "tlist_remove t k = unlink_thread t k"

definition tlist_isempty :: "list_id \<Rightarrow> kernel \<Rightarrow> bool" where
  "tlist_isempty q k \<longleftrightarrow> tlists k q = []"

lemmas tlist_defs [kernel_defs] =
  link_tail_def link_head_def link_at_def unlink_thread_def
  tlist_insert_before_def tlist_insert_after_def tlist_insert_before_thread_def
  tlist_remove_def tlist_isempty_def

text \<open>\<open>on_list\<close> is exactly membership, and no list holds a thread twice.\<close>

definition lists_ok :: "kernel \<Rightarrow> bool" where
  "lists_ok k \<longleftrightarrow> (\<forall>t q. on_list k t = Some q \<longleftrightarrow> t \<in> set (tlists k q)) \<and> (\<forall>q. distinct (tlists k q))"

definition tlists_rep :: "kernel \<Rightarrow> (list_id \<Rightarrow> tid list) \<Rightarrow> bool" where
  "tlists_rep k Q \<longleftrightarrow> lists_ok k \<and> tlists k = Q"

lemma lists_okI:
  assumes "\<And>t q. on_list k t = Some q \<longleftrightarrow> t \<in> set (tlists k q)" and "\<And>q. distinct (tlists k q)"
  shows "lists_ok k"
  using assms by (simp add: lists_ok_def)

lemma lists_ok_mem: "lists_ok k \<Longrightarrow> t \<in> set (tlists k q) \<longleftrightarrow> on_list k t = Some q"
  by (simp add: lists_ok_def)

lemma lists_ok_distinct: "lists_ok k \<Longrightarrow> distinct (tlists k q)"
  by (simp add: lists_ok_def)

lemma lists_ok_detached: "lists_ok k \<Longrightarrow> detached (tlists k) t \<longleftrightarrow> on_list k t = None"
  by (auto simp: detached_def lists_ok_mem)

lemma lists_ok_link_at:
  assumes "lists_ok k" and "on_list k t = None" and "tlists k q = us @ vs"
  shows "lists_ok (link_at q us t vs k)"
proof (rule lists_okI)
  fix u q'
  show "on_list (link_at q us t vs k) u = Some q' \<longleftrightarrow> u \<in> set (tlists (link_at q us t vs k) q')"
    using assms lists_ok_mem[OF assms(1), of u q'] lists_ok_mem[OF assms(1), of t q]
    by (cases "q' = q"; cases "u = t") (auto simp: link_at_def lists_ok_mem)
next
  fix q'
  show "distinct (tlists (link_at q us t vs k) q')"
    using assms lists_ok_distinct[OF assms(1), of q'] lists_ok_mem[OF assms(1), of t q]
    by (cases "q' = q") (auto simp: link_at_def)
qed

lemma link_tail_at: "link_tail q t k = link_at q (tlists k q) t [] k"
  by (simp add: link_tail_def link_at_def)

lemma link_head_at: "link_head q t k = link_at q [] t (tlists k q) k"
  by (simp add: link_head_def link_at_def)

lemma lists_ok_link_tail: "lists_ok k \<Longrightarrow> on_list k t = None \<Longrightarrow> lists_ok (link_tail q t k)"
  by (simp add: link_tail_at lists_ok_link_at)

lemma lists_ok_link_head: "lists_ok k \<Longrightarrow> on_list k t = None \<Longrightarrow> lists_ok (link_head q t k)"
  by (simp add: link_head_at lists_ok_link_at)

lemma unlink_tlists:
  assumes "lists_ok k"
  shows "tlists (unlink_thread t k) q = remove1 t (tlists k q)"
  using assms by (auto simp: unlink_thread_def lists_ok_mem remove1_idem split: option.split)

lemma unlink_on_list: "on_list (unlink_thread t k) = (on_list k)(t := None)"
  by (auto simp: unlink_thread_def fun_upd_idem split: option.split)

lemma lists_ok_unlink:
  assumes "lists_ok k"
  shows "lists_ok (unlink_thread t k)"
  by (rule lists_okI)
     (use assms in \<open>auto simp: unlink_tlists unlink_on_list lists_ok_mem lists_ok_distinct\<close>)

text \<open>The kernel's lists satisfy the contract that the pointer lists satisfy.\<close>

interpretation tl: linked_lists tlists_rep link_tail link_head unlink_thread tlist_isempty
proof unfold_locales
  fix k Q q e q'
  assume r: "tlists_rep k Q"
  then have ok: "lists_ok k" and Q: "Q = tlists k" by (auto simp: tlists_rep_def)
  show "distinct (Q q)" using ok Q by (simp add: lists_ok_distinct)
  show "e \<in> set (Q q) \<Longrightarrow> e \<in> set (Q q') \<Longrightarrow> q = q'"
    using ok Q by (simp add: lists_ok_mem)
  show "tlists_rep (unlink_thread e k) (\<lambda>q. remove1 e (Q q))"
    using ok Q by (auto simp: tlists_rep_def lists_ok_unlink unlink_tlists)
  show "tlist_isempty q k \<longleftrightarrow> Q q = []" using Q by (simp add: tlist_isempty_def)
  assume "detached Q e"
  then have n: "on_list k e = None" using ok Q by (simp add: lists_ok_detached)
  show "tlists_rep (link_tail q e k) (Q(q := Q q @ [e]))"
    using lists_ok_link_tail[OF ok n] Q by (auto simp: tlists_rep_def link_tail_def)
  show "tlists_rep (link_head q e k) (Q(q := e # Q q))"
    using lists_ok_link_head[OF ok n] Q by (auto simp: tlists_rep_def link_head_def)
qed

text \<open>
  One pointer store represents the lists of the kernel before and after each operation: the
  abstract operations are what the pointer operations compute.
\<close>

lemma pointer_lists_simulate:
  assumes "lists_ok k" and "rep s (tlists k)"
  shows "on_list k t = None \<Longrightarrow>
      rep (rt_list_insert_before (Head q) (Node t) s) (tlists (link_tail q t k))"
    and "on_list k t = None \<Longrightarrow>
      rep (rt_list_insert_after (Head q) (Node t) s) (tlists (link_head q t k))"
    and "rep (rt_list_remove (Node t) s) (tlists (unlink_thread t k))"
    and "rt_list_isempty (Head q) s \<longleftrightarrow> tlist_isempty q k"
proof -
  show "rep (rt_list_remove (Node t) s) (tlists (unlink_thread t k))"
  proof -
    have "tlists (unlink_thread t k) = (\<lambda>q. remove1 t (tlists k q))"
      using unlink_tlists[OF assms(1)] by (rule ext)
    with rep_remove[OF assms(2), of t] show ?thesis by simp
  qed
  show "rt_list_isempty (Head q) s \<longleftrightarrow> tlist_isempty q k"
    using rep_isempty[OF assms(2)] by (simp add: tlist_isempty_def)
  assume "on_list k t = None"
  then have d: "detached (tlists k) t" using assms(1) by (simp add: lists_ok_detached)
  show "rep (rt_list_insert_before (Head q) (Node t) s) (tlists (link_tail q t k))"
    using rep_insert_before_head[OF assms(2) d] by (simp add: link_tail_def)
  show "rep (rt_list_insert_after (Head q) (Node t) s) (tlists (link_head q t k))"
    using rep_insert_after_head[OF assms(2) d] by (simp add: link_head_def)
qed

end
