(* ===== verification/Scheduler.thy ===== *)
theory Scheduler
  imports Kernel_State
begin

text \<open>
  rt-thread/src/scheduler.c and rt-thread/src/irq.c.  RT_THREAD_PRIORITY_MAX is 32, so the
  ready set is the single word rt_thread_ready_priority_group.  The interrupt lock around each
  function body makes the body one step; the context switch itself (libcpu) saves and restores
  registers and is visible here as the new value of rt_current_thread.
\<close>

section \<open>Operations\<close>

definition rt_scheduler_stack_check :: "rt_thread \<Rightarrow> bool" where
  "rt_scheduler_stack_check th \<longleftrightarrow>
     \<not> (th_stack_mark th \<noteq> 0x23 \<or> th_sp th \<le> th_stack_addr th \<or>
        th_sp th > th_stack_addr th + th_stack_size th)"

definition rt_system_scheduler_init :: "kernel \<Rightarrow> kernel" where
  "rt_system_scheduler_init k =
     k\<lparr>rt_scheduler_lock_nest := 0,
       tlists := (\<lambda>q. case q of ReadyQ p \<Rightarrow> if p < RT_THREAD_PRIORITY_MAX then [] else tlists k q
                              | DefunctQ \<Rightarrow> [] | _ \<Rightarrow> tlists k q),
       rt_current_priority := of_nat (RT_THREAD_PRIORITY_MAX - 1),
       rt_current_thread := None,
       rt_thread_ready_priority_group := 0\<rparr>"

text \<open>The thread at the front of the highest non-empty ready queue.  With no ready thread
  __rt_ffs returns 0 and the code indexes the table at -1: None.\<close>

definition highest_ready :: "kernel \<Rightarrow> (nat \<times> tid) option" where
  "highest_ready k =
     (case rt_ffs (rt_thread_ready_priority_group k) of
        0 \<Rightarrow> None
      | Suc p \<Rightarrow> (case tlists k (ReadyQ p) of [] \<Rightarrow> None | t # _ \<Rightarrow> Some (p, t)))"

definition rt_system_scheduler_start :: "kernel \<Rightarrow> kernel option" where
  "rt_system_scheduler_start k =
     do { (_, to_thread) \<leftarrow> highest_ready k;
          Some (k\<lparr>rt_current_thread := Some to_thread\<rparr>) }"

definition rt_schedule :: "kernel \<Rightarrow> kernel option" where
  "rt_schedule k =
     (if rt_scheduler_lock_nest k = 0
      then do { (p, to_thread) \<leftarrow> highest_ready k;
                if rt_current_thread k \<noteq> Some to_thread
                then if rt_scheduler_stack_check (threads k to_thread)
                     then Some (k\<lparr>rt_current_priority := of_nat p, rt_current_thread := Some to_thread\<rparr>)
                     else None
                else Some k }
      else Some k)"

definition rt_schedule_insert_thread :: "tid \<Rightarrow> kernel \<Rightarrow> kernel option" where
  "rt_schedule_insert_thread t k =
     (let k = upd_thread t (\<lambda>th. th\<lparr>th_stat := RT_THREAD_READY OR (th_stat th AND NOT RT_THREAD_STAT_MASK)\<rparr>) k
      in if thread_prio k t < RT_THREAD_PRIORITY_MAX
         then do { k \<leftarrow> tlist_insert_before (ReadyQ (thread_prio k t)) t k;
                   Some (k\<lparr>rt_thread_ready_priority_group :=
                            rt_thread_ready_priority_group k OR th_number_mask (threads k t)\<rparr>) }
         else None)"

definition rt_schedule_remove_thread :: "tid \<Rightarrow> kernel \<Rightarrow> kernel option" where
  "rt_schedule_remove_thread t k =
     (let k = tlist_remove t k
      in if thread_prio k t < RT_THREAD_PRIORITY_MAX
         then Some (if tlist_isempty (ReadyQ (thread_prio k t)) k
                    then k\<lparr>rt_thread_ready_priority_group :=
                            rt_thread_ready_priority_group k AND NOT (th_number_mask (threads k t))\<rparr>
                    else k)
         else None)"

text \<open>The nesting counter is a signed 16-bit integer.\<close>

definition rt_enter_critical :: "kernel \<Rightarrow> kernel" where
  "rt_enter_critical k = k\<lparr>rt_scheduler_lock_nest := rt_scheduler_lock_nest k + 1\<rparr>"

definition rt_exit_critical :: "kernel \<Rightarrow> kernel option" where
  "rt_exit_critical k =
     (let k = k\<lparr>rt_scheduler_lock_nest := rt_scheduler_lock_nest k - 1\<rparr>
      in if sint (rt_scheduler_lock_nest k) \<le> 0
         then rt_schedule (k\<lparr>rt_scheduler_lock_nest := 0\<rparr>)
         else Some k)"

definition rt_critical_level :: "kernel \<Rightarrow> u16" where
  "rt_critical_level k = rt_scheduler_lock_nest k"

definition rt_interrupt_enter :: "kernel \<Rightarrow> kernel" where
  "rt_interrupt_enter k = k\<lparr>rt_interrupt_nest := rt_interrupt_nest k + 1\<rparr>"

definition rt_interrupt_leave :: "kernel \<Rightarrow> kernel" where
  "rt_interrupt_leave k = k\<lparr>rt_interrupt_nest := rt_interrupt_nest k - 1\<rparr>"

definition rt_interrupt_get_nest :: "kernel \<Rightarrow> u8" where
  "rt_interrupt_get_nest k = rt_interrupt_nest k"

definition rt_thread_self :: "kernel \<Rightarrow> tid option" where
  "rt_thread_self k = rt_current_thread k"

text \<open>The context checks of rtdebug.h.\<close>

definition RT_DEBUG_NOT_IN_INTERRUPT :: "kernel \<Rightarrow> bool" where
  "RT_DEBUG_NOT_IN_INTERRUPT k \<longleftrightarrow> rt_interrupt_get_nest k = 0"

definition RT_DEBUG_IN_THREAD_CONTEXT :: "kernel \<Rightarrow> bool" where
  "RT_DEBUG_IN_THREAD_CONTEXT k \<longleftrightarrow> rt_thread_self k \<noteq> None \<and> RT_DEBUG_NOT_IN_INTERRUPT k"

lemmas scheduler_defs [kernel_defs] =
  rt_schedule_insert_thread_def rt_schedule_remove_thread_def rt_enter_critical_def
  rt_critical_level_def rt_interrupt_enter_def rt_interrupt_leave_def
  rt_interrupt_get_nest_def rt_thread_self_def RT_DEBUG_NOT_IN_INTERRUPT_def
  RT_DEBUG_IN_THREAD_CONTEXT_def

section \<open>The scheduler invariant\<close>

text \<open>A wait list is any list but the ready queues and the defunct list.\<close>

fun wait_list :: "list_id option \<Rightarrow> bool" where
  "wait_list (Some (ReadyQ _)) = False"
| "wait_list (Some DefunctQ) = False"
| "wait_list _ = True"

definition mask_ok :: "rt_thread \<Rightarrow> bool" where
  "mask_ok th \<longleftrightarrow> unat (th_current_priority th) < 32 \<and>
     (th_number_mask th = 0 \<or> th_number_mask th = push_bit (unat (th_current_priority th)) 1)"

definition prio_ok :: "rt_thread \<Rightarrow> bool" where
  "prio_ok th \<longleftrightarrow> unat (th_current_priority th) < 32 \<and>
     th_number_mask th = push_bit (unat (th_current_priority th)) 1 \<and> rt_scheduler_stack_check th"

text \<open>The state of a thread and the list it is linked in agree.\<close>

definition thread_ok :: "rt_thread \<Rightarrow> list_id option \<Rightarrow> bool" where
  "thread_ok th l \<longleftrightarrow>
     (let s = th_stat th AND RT_THREAD_STAT_MASK in
      if s = RT_THREAD_READY
        then prio_ok th \<and> l = Some (ReadyQ (unat (th_current_priority th)))
      else if s = RT_THREAD_SUSPEND then prio_ok th \<and> wait_list l
      else if s = RT_THREAD_CLOSE then mask_ok th \<and> (l = None \<or> l = Some DefunctQ)
      else mask_ok th \<and> l = None)"

lemma prio_mask_ok: "prio_ok th \<Longrightarrow> mask_ok th"
  by (simp add: prio_ok_def mask_ok_def)

lemma thread_mask_ok: "thread_ok th l \<Longrightarrow> mask_ok th"
  by (auto simp: thread_ok_def Let_def prio_mask_ok split: if_splits)

definition group_ok :: "kernel \<Rightarrow> bool" where
  "group_ok k \<longleftrightarrow>
     (\<forall>p < 32. bit (rt_thread_ready_priority_group k) p \<longleftrightarrow> tlists k (ReadyQ p) \<noteq> [])"

definition sched_ok_but :: "tid set \<Rightarrow> kernel \<Rightarrow> bool" where
  "sched_ok_but T k \<longleftrightarrow> lists_ok k \<and> group_ok k \<and> (\<forall>t. t \<notin> T \<longrightarrow> thread_ok (threads k t) (on_list k t))"

abbreviation sched_ok :: "kernel \<Rightarrow> bool" where
  "sched_ok k \<equiv> sched_ok_but {} k"

lemma sched_okD:
  assumes "sched_ok_but T k"
  shows "lists_ok k" and "group_ok k" and "t \<notin> T \<Longrightarrow> thread_ok (threads k t) (on_list k t)"
  using assms by (auto simp: sched_ok_but_def)

lemma stat_set:
  fixes s x :: u8
  shows "(s OR (x AND NOT RT_THREAD_STAT_MASK)) AND RT_THREAD_STAT_MASK = s AND RT_THREAD_STAT_MASK"
  by (rule bit_eqI) (auto simp: bit_simps)

text \<open>The same with the mask as the simplifier writes it.\<close>

lemma stat_set_numeral [simp]:
  fixes s x :: u8
  shows "(s OR (x AND - 16)) AND 15 = s AND 15"
  using stat_set[of s x] by simp

text \<open>Threads on a ready queue are ready, and of that priority.\<close>

lemma thread_ok_ready_list:
  assumes "thread_ok th (Some (ReadyQ p))"
  shows "th_stat th AND RT_THREAD_STAT_MASK = RT_THREAD_READY"
    and "p = unat (th_current_priority th)" and "prio_ok th"
  using assms by (auto simp: thread_ok_def Let_def split: if_splits)

lemma prio_ok_simps:
  assumes "prio_ok th"
  shows "unat (th_current_priority th) < 32"
    and "th_number_mask th = push_bit (unat (th_current_priority th)) 1"
    and "rt_scheduler_stack_check th"
  using assms by (auto simp: prio_ok_def)

lemma bit_number_mask:
  assumes "prio_ok th"
  shows "bit (th_number_mask th) p \<longleftrightarrow> p = unat (th_current_priority th)"
  using prio_ok_simps[OF assms] by (auto simp: bit_simps)

section \<open>Choosing the next thread\<close>

lemma highest_ready_spec:
  assumes ok: "sched_ok k" and ne: "tlists k (ReadyQ r) \<noteq> []"
  shows "\<exists>p t. highest_ready k = Some (p, t) \<and> p \<le> r \<and> p < 32 \<and> on_list k t = Some (ReadyQ p) \<and>
           (\<exists>ts. tlists k (ReadyQ p) = t # ts) \<and> (\<forall>j < p. tlists k (ReadyQ j) = [])"
proof -
  let ?g = "rt_thread_ready_priority_group k"
  note l = sched_okD(1)[OF ok] and g = sched_okD(2)[OF ok]
  from ne obtain u where "u \<in> set (tlists k (ReadyQ r))" by (cases "tlists k (ReadyQ r)") auto
  then have "on_list k u = Some (ReadyQ r)" using l by (simp add: lists_ok_mem)
  then have "r < 32"
    using thread_ok_ready_list(2,3)[of "threads k u" r] sched_okD(3)[OF ok, of u]
    by (auto simp: prio_ok_def)
  with g ne have br: "bit ?g r" by (simp add: group_ok_def)
  then have "?g \<noteq> 0" by auto
  then obtain p where p: "rt_ffs ?g = Suc p" "p < 32" "bit ?g p" "\<forall>j < p. \<not> bit ?g j"
    using ffs_spec[of ?g] by blast
  from p(4) br have "p \<le> r" by (meson not_le)
  from g p(2,3) obtain t ts where t: "tlists k (ReadyQ p) = t # ts"
    by (cases "tlists k (ReadyQ p)") (auto simp: group_ok_def)
  then have "t \<in> set (tlists k (ReadyQ p))" by simp
  then have "on_list k t = Some (ReadyQ p)" using l by (simp only: lists_ok_mem)
  moreover have "\<forall>j < p. tlists k (ReadyQ j) = []"
    using g p(2,4) by (auto simp: group_ok_def)
  ultimately show ?thesis using p t \<open>p \<le> r\<close> by (auto simp: highest_ready_def)
qed

section \<open>What the invariant depends on\<close>

lemma sched_ok_cong:
  assumes "\<And>t. t \<notin> T \<Longrightarrow> thread_ok (threads k' t) (on_list k' t) = thread_ok (threads k t) (on_list k t)"
    and "tlists k' = tlists k" and "on_list k' = on_list k"
    and "rt_thread_ready_priority_group k' = rt_thread_ready_priority_group k"
  shows "sched_ok_but T k' \<longleftrightarrow> sched_ok_but T k"
  using assms by (auto simp: sched_ok_but_def lists_ok_def group_ok_def)

lemma sched_ok_frame [simp]:
  "sched_ok_but T (k\<lparr>rt_tick := a\<rparr>) = sched_ok_but T k"
  "sched_ok_but T (k\<lparr>timers := b\<rparr>) = sched_ok_but T k"
  "sched_ok_but T (k\<lparr>objs := c\<rparr>) = sched_ok_but T k"
  "sched_ok_but T (k\<lparr>object_list := d\<rparr>) = sched_ok_but T k"
  "sched_ok_but T (k\<lparr>rt_timer_list := e\<rparr>) = sched_ok_but T k"
  "sched_ok_but T (k\<lparr>rt_soft_timer_list := e\<rparr>) = sched_ok_but T k"
  "sched_ok_but T (k\<lparr>random_nr := a\<rparr>) = sched_ok_but T k"
  "sched_ok_but T (k\<lparr>rt_current_thread := f\<rparr>) = sched_ok_but T k"
  "sched_ok_but T (k\<lparr>rt_current_priority := g\<rparr>) = sched_ok_but T k"
  "sched_ok_but T (k\<lparr>rt_scheduler_lock_nest := h\<rparr>) = sched_ok_but T k"
  "sched_ok_but T (k\<lparr>rt_interrupt_nest := g\<rparr>) = sched_ok_but T k"
  "sched_ok_but T (k\<lparr>kernel_errno := i\<rparr>) = sched_ok_but T k"
  "sched_ok_but T (k\<lparr>sems := j\<rparr>) = sched_ok_but T k"
  "sched_ok_but T (k\<lparr>mutexes := l\<rparr>) = sched_ok_but T k"
  "sched_ok_but T (k\<lparr>events := m\<rparr>) = sched_ok_but T k"
  "sched_ok_but T (k\<lparr>mailboxes := n\<rparr>) = sched_ok_but T k"
  "sched_ok_but T (k\<lparr>mqueues := p\<rparr>) = sched_ok_but T k"
  by (rule sched_ok_cong; simp)+

lemma sched_ok_upds [simp]:
  "sched_ok_but T (upd_timer i f k) = sched_ok_but T k"
  "sched_ok_but T (upd_obj j g k) = sched_ok_but T k"
  "sched_ok_but T (upd_sem n h k) = sched_ok_but T k"
  "sched_ok_but T (upd_mutex n a k) = sched_ok_but T k"
  "sched_ok_but T (upd_event n b k) = sched_ok_but T k"
  "sched_ok_but T (upd_mb n c k) = sched_ok_but T k"
  "sched_ok_but T (upd_mq n d k) = sched_ok_but T k"
  by (simp_all add: upd_defs)

lemma sched_ok_upd_thread:
  assumes "t \<notin> T \<Longrightarrow> thread_ok (f (threads k t)) (on_list k t) = thread_ok (threads k t) (on_list k t)"
  shows "sched_ok_but T (upd_thread t f k) = sched_ok_but T k"
  using assms by (intro sched_ok_cong) (auto simp: upd_thread_def)

lemma thread_ok_frame [simp]:
  "thread_ok (th\<lparr>th_error := e\<rparr>) l = thread_ok th l"
  "thread_ok (th\<lparr>th_event_set := x\<rparr>) l = thread_ok th l"
  "thread_ok (th\<lparr>th_event_info := y\<rparr>) l = thread_ok th l"
  "thread_ok (th\<lparr>th_remaining_tick := x\<rparr>) l = thread_ok th l"
  "prio_ok (th\<lparr>th_error := e\<rparr>) = prio_ok th"
  "prio_ok (th\<lparr>th_stat := y\<rparr>) = prio_ok th"
  "mask_ok (th\<lparr>th_stat := y\<rparr>) = mask_ok th"
  by (simp_all add: thread_ok_def prio_ok_def mask_ok_def rt_scheduler_stack_check_def)

lemma sched_ok_but_mono: "sched_ok_but S k \<Longrightarrow> S \<subseteq> T \<Longrightarrow> sched_ok_but T k"
  by (auto simp: sched_ok_but_def)

lemma sched_ok_but_insert:
  "sched_ok_but (insert t T) k \<Longrightarrow> thread_ok (threads k t) (on_list k t) \<Longrightarrow> sched_ok_but T k"
  by (auto simp: sched_ok_but_def)

section \<open>Preservation\<close>

text \<open>Linking a detached thread of valid priority into its ready queue.\<close>

lemma insert_thread_ok:
  assumes ok: "sched_ok_but {t} k" and det: "on_list k t = None" and pr: "prio_ok (threads k t)"
  shows "\<exists>k'. rt_schedule_insert_thread t k = Some k' \<and> sched_ok k' \<and>
           thread_stat k' t = RT_THREAD_READY \<and>
           k' = k\<lparr>threads := (threads k)(t := threads k' t), tlists := tlists k', on_list := on_list k',
                  rt_thread_ready_priority_group := rt_thread_ready_priority_group k'\<rparr> \<and>
           threads k' t = (threads k t)\<lparr>th_stat := RT_THREAD_READY OR (th_stat (threads k t) AND NOT RT_THREAD_STAT_MASK)\<rparr> \<and>
           tlists k' = (tlists k)(ReadyQ (thread_prio k t) := tlists k (ReadyQ (thread_prio k t)) @ [t])"
proof -
  let ?p = "thread_prio k t" and ?th = "threads k t"
  define th' where "th' = ?th\<lparr>th_stat := RT_THREAD_READY OR (th_stat ?th AND NOT RT_THREAD_STAT_MASK)\<rparr>"
  define k1 where "k1 = link_tail (ReadyQ ?p) t (upd_thread t (\<lambda>_. th') k)"
  define k' where "k' = k1\<lparr>rt_thread_ready_priority_group :=
    rt_thread_ready_priority_group k OR th_number_mask ?th\<rparr>"
  have eq: "rt_schedule_insert_thread t k = Some k'"
    using det prio_ok_simps(1)[OF pr]
    by (simp add: kernel_defs k'_def k1_def th'_def)
  have th': "prio_ok th'" "th_stat th' AND RT_THREAD_STAT_MASK = RT_THREAD_READY"
    using pr by (simp_all add: th'_def)
  have "lists_ok (link_tail (ReadyQ ?p) t k)" using sched_okD(1)[OF ok] det by (rule lists_ok_link_tail)
  then have 1: "lists_ok k'" by (simp add: lists_ok_def k'_def k1_def link_tail_def upd_thread_def)
  have 2: "group_ok k'"
    using sched_okD(2)[OF ok] bit_number_mask[OF pr]
    by (auto simp: group_ok_def k'_def k1_def link_tail_def upd_thread_def bit_or_iff)
  have 3: "thread_ok (threads k' u) (on_list k' u)" for u
    using sched_okD(3)[OF ok, of u] th'
    by (cases "u = t") (auto simp: k'_def k1_def link_tail_def upd_thread_def thread_ok_def Let_def th'_def)
  show ?thesis
    using eq 1 2 3 th'
    by (intro exI[of _ k'])
       (auto simp: sched_ok_but_def k'_def k1_def link_tail_def upd_thread_def th'_def)
qed

text \<open>Unlinking a thread clears its ready bit when its queue becomes empty.  The thread may
  be on a wait list instead: then the bit already agrees with the queue.\<close>

lemma remove_thread_ok:
  assumes ok: "sched_ok_but {t} k" and pr: "mask_ok (threads k t)"
    and l: "\<And>p. on_list k t = Some (ReadyQ p) \<Longrightarrow> p = thread_prio k t \<and> prio_ok (threads k t)"
  shows "\<exists>k'. rt_schedule_remove_thread t k = Some k' \<and> sched_ok_but {t} k' \<and> on_list k' t = None \<and>
           k' = k\<lparr>tlists := tlists k', on_list := (on_list k)(t := None),
                  rt_thread_ready_priority_group := rt_thread_ready_priority_group k'\<rparr> \<and>
           (\<forall>q. tlists k' q = remove1 t (tlists k q))"
proof -
  let ?p = "thread_prio k t"
  define k1 where "k1 = unlink_thread t k"
  define k' where "k' = (if tlists k1 (ReadyQ ?p) = []
    then k1\<lparr>rt_thread_ready_priority_group :=
           rt_thread_ready_priority_group k AND NOT (th_number_mask (threads k t))\<rparr> else k1)"
  note lo = sched_okD(1)[OF ok]
  have fr: "k1 = k\<lparr>tlists := tlists k1, on_list := (on_list k)(t := None)\<rparr>"
    using unlink_on_list[of t k] by (auto simp: k1_def unlink_thread_def split: option.split)
  have same: "threads k1 = threads k"
    "rt_thread_ready_priority_group k1 = rt_thread_ready_priority_group k"
    by (subst fr, simp)+
  have eq: "rt_schedule_remove_thread t k = Some k'"
    using pr same
    by (simp add: mask_ok_def rt_schedule_remove_thread_def tlist_remove_def tlist_isempty_def k1_def[symmetric]
        k'_def Let_def)
  have tl: "tlists k1 q = remove1 t (tlists k q)" for q using unlink_tlists[OF lo] by (simp add: k1_def)
  have tl': "tlists k' q = remove1 t (tlists k q)" for q using tl by (simp add: k'_def)
  have on: "on_list k' = (on_list k)(t := None)" by (simp add: k'_def k1_def unlink_on_list)
  have th: "threads k' = threads k" using same by (simp add: k'_def)
  have 1: "lists_ok k'"
    using lists_ok_unlink[OF lo, of t] by (simp add: k'_def k1_def[symmetric] lists_ok_def)
  have g: "bit (rt_thread_ready_priority_group k') p \<longleftrightarrow> bit (rt_thread_ready_priority_group k) p \<and>
      \<not> (p = ?p \<and> tlists k1 (ReadyQ ?p) = [])" if "p < 32" for p
  proof (cases "th_number_mask (threads k t) = 0")
    case True
    then have "\<not> prio_ok (threads k t)" by (auto simp: prio_ok_def push_bit_eq_0_iff)
    then have "on_list k t \<noteq> Some (ReadyQ ?p)" using l by blast
    then have "tlists k1 (ReadyQ ?p) = tlists k (ReadyQ ?p)"
      using tl lists_ok_mem[OF lo, of t "ReadyQ ?p"] by (simp add: remove1_idem)
    with True sched_okD(2)[OF ok] that show ?thesis by (auto simp: k'_def same group_ok_def)
  next
    case False
    with pr have "th_number_mask (threads k t) = push_bit ?p 1" "?p < 32" by (auto simp: mask_ok_def)
    then have "bit (th_number_mask (threads k t)) p \<longleftrightarrow> p = ?p" by (auto simp: bit_simps)
    with that show ?thesis by (auto simp: k'_def same bit_and_iff bit_not_iff)
  qed
  have ne: "remove1 t (tlists k (ReadyQ p)) = tlists k (ReadyQ p)" if "p \<noteq> ?p" for p
    using l[of p] that lists_ok_mem[OF lo, of t "ReadyQ p"] by (auto intro: remove1_idem)
  have 2: "group_ok k'"
    unfolding group_ok_def
  proof (intro allI impI)
    fix p :: nat assume "p < 32"
    then show "bit (rt_thread_ready_priority_group k') p \<longleftrightarrow> tlists k' (ReadyQ p) \<noteq> []"
      using g[of p] sched_okD(2)[OF ok] tl'[of "ReadyQ p"] tl[of "ReadyQ p"] ne[of p]
      by (cases "p = ?p") (auto simp: group_ok_def)
  qed
  have "sched_ok_but {t} k'" using 1 2 sched_okD(3)[OF ok] by (auto simp: sched_ok_but_def on th)
  moreover have "k' = k\<lparr>tlists := tlists k', on_list := (on_list k)(t := None),
                  rt_thread_ready_priority_group := rt_thread_ready_priority_group k'\<rparr>"
    unfolding k'_def by (auto simp: same) (subst fr, simp)+
  ultimately show ?thesis using eq tl' by (intro exI[of _ k']) (simp add: on)
qed

text \<open>A thread is left in the state in which the scheduler found it.\<close>

lemma schedule_frame:
  assumes "rt_schedule k = Some k'"
  shows "k' = k\<lparr>rt_current_priority := rt_current_priority k', rt_current_thread := rt_current_thread k'\<rparr>"
  using assms by (auto simp: rt_schedule_def split: if_splits Option.bind_splits)

lemma schedule_ok: "rt_schedule k = Some k' \<Longrightarrow> sched_ok_but T k \<Longrightarrow> sched_ok_but T k'"
  by (subst schedule_frame) simp_all

lemma critical_pair:
  assumes "rt_scheduler_lock_nest k = 0"
  shows "rt_exit_critical (rt_enter_critical k) = rt_schedule k"
proof -
  have "k\<lparr>rt_scheduler_lock_nest := 0\<rparr> = k" using assms by (cases k) simp
  moreover have "rt_exit_critical (rt_enter_critical k) = rt_schedule (k\<lparr>rt_scheduler_lock_nest := 0\<rparr>)"
    by (simp add: rt_enter_critical_def rt_exit_critical_def assms Let_def)
  ultimately show ?thesis by (rule trans[OF _ arg_cong[where f = rt_schedule], rotated])
qed

end
