(* ===== verification/Object.thy ===== *)
theory Object
  imports Scheduler
begin

text \<open>
  rt-thread/src/object.c: the containers of kernel objects, one list per configured class, and
  the registration, removal and lookup of objects.  The class of an object is fixed by its
  kind, so a container is indexed by the class; registering a registered object again would
  corrupt the ring and is None.  What RT_KERNEL_MALLOC returns is an argument of
  rt_object_allocate: None for no memory, else the object that lives at the new address.
\<close>

abbreviation RT_NAME_MAX :: nat where "RT_NAME_MAX \<equiv> 8"
abbreviation RT_Object_Class_Static :: u8 where "RT_Object_Class_Static \<equiv> 0x80"

primrec class_of :: "object_id \<Rightarrow> rt_object_class_type" where
  "class_of (ObjThread _) = RT_Object_Class_Thread"
| "class_of (ObjTimer _) = RT_Object_Class_Timer"
| "class_of (ObjSem _) = RT_Object_Class_Semaphore"
| "class_of (ObjMutex _) = RT_Object_Class_Mutex"
| "class_of (ObjEvent _) = RT_Object_Class_Event"
| "class_of (ObjMb _) = RT_Object_Class_MailBox"
| "class_of (ObjMq _) = RT_Object_Class_MessageQueue"
| "class_of (ObjMemHeap _) = RT_Object_Class_MemHeap"
| "class_of (ObjMemPool _) = RT_Object_Class_MemPool"
| "class_of (ObjDevice _) = RT_Object_Class_Device"

primrec class_value :: "rt_object_class_type \<Rightarrow> u8" where
  "class_value RT_Object_Class_Thread = 0"
| "class_value RT_Object_Class_Semaphore = 1"
| "class_value RT_Object_Class_Mutex = 2"
| "class_value RT_Object_Class_Event = 3"
| "class_value RT_Object_Class_MailBox = 4"
| "class_value RT_Object_Class_MessageQueue = 5"
| "class_value RT_Object_Class_MemHeap = 6"
| "class_value RT_Object_Class_MemPool = 7"
| "class_value RT_Object_Class_Device = 8"
| "class_value RT_Object_Class_Timer = 9"
| "class_value RT_Object_Class_Module = 10"
| "class_value RT_Object_Class_Unknown = 11"

text \<open>The configured containers, in the order of the array (RT_USING_MODULE is off).\<close>

definition rt_object_container :: "rt_object_class_type list" where
  "rt_object_container =
     [RT_Object_Class_Thread, RT_Object_Class_Semaphore, RT_Object_Class_Mutex,
      RT_Object_Class_Event, RT_Object_Class_MailBox, RT_Object_Class_MessageQueue,
      RT_Object_Class_MemHeap, RT_Object_Class_MemPool, RT_Object_Class_Device,
      RT_Object_Class_Timer]"

definition rt_object_get_information :: "u8 \<Rightarrow> rt_object_class_type option" where
  "rt_object_get_information type = List.find (\<lambda>c. class_value c = type) rt_object_container"

definition rt_object_init :: "object_id \<Rightarrow> u8 list \<Rightarrow> kernel \<Rightarrow> kernel option" where
  "rt_object_init ob name k =
     do { c \<leftarrow> rt_object_get_information (class_value (class_of ob));
          let k = upd_obj ob (\<lambda>x. x\<lparr>ob_type := class_value (class_of ob) OR RT_Object_Class_Static,
                                    ob_name := rt_strncpy name RT_NAME_MAX\<rparr>) k;
          if ob \<in> set (object_list k c) then None
          else Some (k\<lparr>object_list := (object_list k)(c := ob # object_list k c)\<rparr>) }"

definition rt_object_detach :: "object_id \<Rightarrow> kernel \<Rightarrow> kernel" where
  "rt_object_detach ob k =
     k\<lparr>object_list := (object_list k)(class_of ob := remove1 ob (object_list k (class_of ob)))\<rparr>"

definition rt_object_allocate ::
  "object_id option \<Rightarrow> rt_object_class_type \<Rightarrow> u8 list \<Rightarrow> kernel \<Rightarrow> (object_id option \<times> kernel) option" where
  "rt_object_allocate mem type name k =
     (if \<not> RT_DEBUG_NOT_IN_INTERRUPT k then None
      else do { c \<leftarrow> rt_object_get_information (class_value type);
                case mem of
                  None \<Rightarrow> Some (None, k)
                | Some ob \<Rightarrow>
                    let k = upd_obj ob (\<lambda>_. \<lparr>ob_name = rt_strncpy name RT_NAME_MAX,
                                            ob_type = class_value type, ob_flag = 0\<rparr>) k
                    in if ob \<in> set (object_list k c) then None
                       else Some (Some ob, k\<lparr>object_list := (object_list k)(c := ob # object_list k c)\<rparr>) })"

definition rt_object_delete :: "object_id \<Rightarrow> kernel \<Rightarrow> kernel option" where
  "rt_object_delete ob k =
     (if ob_type (objs k ob) AND RT_Object_Class_Static = 0 then Some (rt_object_detach ob k) else None)"

definition rt_object_is_systemobject :: "object_id \<Rightarrow> kernel \<Rightarrow> bool" where
  "rt_object_is_systemobject ob k \<longleftrightarrow> ob_type (objs k ob) AND RT_Object_Class_Static \<noteq> 0"

text \<open>The search compares at most RT_NAME_MAX bytes and returns the first match; the object
  list is walked under the scheduler lock.\<close>

definition rt_object_find :: "u8 list option \<Rightarrow> u8 \<Rightarrow> kernel \<Rightarrow> (object_id option \<times> kernel) option" where
  "rt_object_find name type k =
     (case name of
        None \<Rightarrow> Some (None, k)
      | Some name \<Rightarrow>
          if type > class_value RT_Object_Class_Unknown then Some (None, k)
          else if \<not> RT_DEBUG_NOT_IN_INTERRUPT k then None
          else do { let k = rt_enter_critical k;
                    c \<leftarrow> rt_object_get_information type;
                    let found = List.find (\<lambda>ob. rt_strncmp (ob_name (objs k ob)) name RT_NAME_MAX = 0)
                                  (object_list k c);
                    k \<leftarrow> rt_exit_critical k;
                    Some (found, k) })"

text \<open>The error code of the running thread: rt_set_errno and rt_get_errno of kservice.c.\<close>

definition rt_set_errno :: "rt_err \<Rightarrow> kernel \<Rightarrow> kernel" where
  "rt_set_errno error k =
     (if rt_interrupt_get_nest k \<noteq> 0 then k\<lparr>kernel_errno := error\<rparr>
      else case rt_thread_self k of
             None \<Rightarrow> k\<lparr>kernel_errno := error\<rparr>
           | Some tid \<Rightarrow> upd_thread tid (\<lambda>th. th\<lparr>th_error := error\<rparr>) k)"

definition rt_get_errno :: "kernel \<Rightarrow> rt_err" where
  "rt_get_errno k =
     (if rt_interrupt_get_nest k \<noteq> 0 then kernel_errno k
      else case rt_thread_self k of
             None \<Rightarrow> kernel_errno k
           | Some tid \<Rightarrow> th_error (threads k tid))"

lemmas object_defs [kernel_defs] = rt_object_detach_def rt_object_is_systemobject_def

section \<open>Facts\<close>

lemma class_value_eq [simp]: "class_value a = class_value b \<longleftrightarrow> a = b"
  by (cases a; cases b) simp_all

lemma get_information_class [simp]:
  "rt_object_get_information (class_value (class_of ob)) = Some (class_of ob)"
  by (cases ob) (simp_all add: rt_object_get_information_def rt_object_container_def)

lemma get_information_iff:
  "rt_object_get_information type = Some c \<longleftrightarrow> c \<in> set rt_object_container \<and> class_value c = type"
  by (auto simp: rt_object_get_information_def rt_object_container_def)

text \<open>Each container holds objects of its class, once each.\<close>

definition objects_ok :: "kernel \<Rightarrow> bool" where
  "objects_ok k \<longleftrightarrow> (\<forall>c. distinct (object_list k c) \<and> (\<forall>ob \<in> set (object_list k c). class_of ob = c))"

lemma object_init_eq:
  assumes "ob \<notin> set (object_list k (class_of ob))"
  shows "rt_object_init ob name k =
    Some ((upd_obj ob (\<lambda>x. x\<lparr>ob_type := class_value (class_of ob) OR RT_Object_Class_Static,
            ob_name := rt_strncpy name RT_NAME_MAX\<rparr>) k)
          \<lparr>object_list := (object_list k)(class_of ob := ob # object_list k (class_of ob))\<rparr>)"
  using assms by (simp add: rt_object_init_def upd_obj_def)

lemma object_init_ok:
  "rt_object_init ob name k = Some k' \<Longrightarrow> objects_ok k \<Longrightarrow> objects_ok k'"
  by (auto simp: rt_object_init_def upd_obj_def objects_ok_def Let_def split: if_splits)

lemma object_allocate_ok:
  assumes "rt_object_allocate mem type name k = Some (r, k')" and "objects_ok k"
    and "\<And>ob. mem = Some ob \<Longrightarrow> class_of ob = type"
  shows "objects_ok k'"
  using assms
  by (auto simp: rt_object_allocate_def upd_obj_def objects_ok_def Let_def get_information_iff
      split: if_splits option.splits Option.bind_splits)

lemma object_detach_ok: "objects_ok k \<Longrightarrow> objects_ok (rt_object_detach ob k)"
  by (auto simp: rt_object_detach_def objects_ok_def dest: notin_set_remove1)

lemma sched_ok_object [simp]:
  "sched_ok_but T (rt_object_detach ob k) = sched_ok_but T k"
  by (simp add: rt_object_detach_def)

lemma object_init_frame:
  "rt_object_init ob name k = Some k' \<Longrightarrow> k' = k\<lparr>objs := objs k', object_list := object_list k'\<rparr>"
  by (auto simp: rt_object_init_def upd_obj_def Let_def split: if_splits)

end
