(* ===== verification/Timer.thy ===== *)
theory Timer
  imports Object
begin

text \<open>
  rt-thread/src/timer.c, the part that works on the timer lists.  RT_TIMER_SKIP_LIST_LEVEL is
  1, so a timer list is one row and the loops over further rows have no iteration.  The flag
  byte of a timer is the flag of its kernel object.  rt_timer_start resumes the timer thread
  for a soft timer and is in Thread; the check loop of the hard timers is in Clock, that of the
  soft timers in Soft_Timer.
\<close>

section \<open>Operations\<close>

abbreviation timer_flag :: "kernel \<Rightarrow> timer_id \<Rightarrow> u8" where
  "timer_flag k i \<equiv> ob_flag (objs k (ObjTimer i))"

abbreviation set_timer_flag :: "timer_id \<Rightarrow> (u8 \<Rightarrow> u8) \<Rightarrow> kernel \<Rightarrow> kernel" where
  "set_timer_flag i f k \<equiv> upd_obj (ObjTimer i) (\<lambda>x. x\<lparr>ob_flag := f (ob_flag x)\<rparr>) k"

definition timer_active :: "kernel \<Rightarrow> timer_id \<Rightarrow> bool" where
  "timer_active k i \<longleftrightarrow> timer_flag k i AND RT_TIMER_FLAG_ACTIVATED \<noteq> 0"

definition timer_periodic :: "kernel \<Rightarrow> timer_id \<Rightarrow> bool" where
  "timer_periodic k i \<longleftrightarrow> timer_flag k i AND RT_TIMER_FLAG_PERIODIC \<noteq> 0"

definition timer_soft :: "kernel \<Rightarrow> timer_id \<Rightarrow> bool" where
  "timer_soft k i \<longleftrightarrow> timer_flag k i AND RT_TIMER_FLAG_SOFT_TIMER \<noteq> 0"

text \<open>\<open>timer->parent.flag &= ~RT_TIMER_FLAG_ACTIVATED\<close> and \<open>timer->parent.flag |= RT_TIMER_FLAG_ACTIVATED\<close>.\<close>

definition timer_deactivate :: "timer_id \<Rightarrow> kernel \<Rightarrow> kernel" where
  "timer_deactivate i k = set_timer_flag i (\<lambda>f. f AND NOT RT_TIMER_FLAG_ACTIVATED) k"

definition timer_activate :: "timer_id \<Rightarrow> kernel \<Rightarrow> kernel" where
  "timer_activate i k = set_timer_flag i (\<lambda>f. f OR RT_TIMER_FLAG_ACTIVATED) k"

definition timer_linked :: "kernel \<Rightarrow> timer_id \<Rightarrow> bool" where
  "timer_linked k i \<longleftrightarrow> i \<in> set (rt_timer_list k) \<or> i \<in> set (rt_soft_timer_list k)"

text \<open>Initialising the row of a timer that is linked would leave its neighbours pointing at it:
  None.\<close>

definition timer_init_core :: "timer_id \<Rightarrow> timeout_func \<Rightarrow> u32 \<Rightarrow> u8 \<Rightarrow> kernel \<Rightarrow> kernel option" where
  "timer_init_core i timeout time flag k =
     (if timer_linked k i then None
      else Some (upd_timer i (\<lambda>_. \<lparr>tm_timeout_func = timeout, tm_init_tick = time, tm_timeout_tick = 0\<rparr>)
             (set_timer_flag i (\<lambda>_. flag AND NOT RT_TIMER_FLAG_ACTIVATED) k)))"

definition rt_timer_list_next_timeout :: "timer_id list \<Rightarrow> kernel \<Rightarrow> u32" where
  "rt_timer_list_next_timeout timer_list k =
     (case timer_list of [] \<Rightarrow> RT_TICK_MAX | i # _ \<Rightarrow> tm_timeout_tick (timers k i))"

definition rt_timer_next_timeout_tick :: "kernel \<Rightarrow> u32" where
  "rt_timer_next_timeout_tick k = rt_timer_list_next_timeout (rt_timer_list k) k"

definition timer_remove :: "timer_id \<Rightarrow> kernel \<Rightarrow> kernel" where
  "timer_remove i k =
     k\<lparr>rt_timer_list := remove1 i (rt_timer_list k), rt_soft_timer_list := remove1 i (rt_soft_timer_list k)\<rparr>"

definition rt_timer_init :: "timer_id \<Rightarrow> u8 list \<Rightarrow> timeout_func \<Rightarrow> u32 \<Rightarrow> u8 \<Rightarrow> kernel \<Rightarrow> kernel option" where
  "rt_timer_init i name timeout time flag k =
     do { k \<leftarrow> rt_object_init (ObjTimer i) name k;
          timer_init_core i timeout time flag k }"

definition rt_timer_detach :: "timer_id \<Rightarrow> kernel \<Rightarrow> kernel" where
  "rt_timer_detach i k = rt_object_detach (ObjTimer i) (timer_remove i k)"

definition rt_timer_stop :: "timer_id \<Rightarrow> kernel \<Rightarrow> rt_err \<times> kernel" where
  "rt_timer_stop i k =
     (if \<not> timer_active k i then (RT_ERROR, k)
      else (RT_EOK, timer_deactivate i (timer_remove i k)))"

datatype timer_cmd =
    RT_TIMER_CTRL_GET_TIME | RT_TIMER_CTRL_SET_TIME u32
  | RT_TIMER_CTRL_SET_ONESHOT | RT_TIMER_CTRL_SET_PERIODIC | RT_TIMER_CTRL_OTHER

text \<open>The value the command writes through its argument, if any, and the state.\<close>

definition rt_timer_control :: "timer_id \<Rightarrow> timer_cmd \<Rightarrow> kernel \<Rightarrow> u32 option \<times> kernel" where
  "rt_timer_control i cmd k =
     (case cmd of
        RT_TIMER_CTRL_GET_TIME \<Rightarrow> (Some (tm_init_tick (timers k i)), k)
      | RT_TIMER_CTRL_SET_TIME t \<Rightarrow> (None, upd_timer i (\<lambda>tm. tm\<lparr>tm_init_tick := t\<rparr>) k)
      | RT_TIMER_CTRL_SET_ONESHOT \<Rightarrow> (None, set_timer_flag i (\<lambda>f. f AND NOT RT_TIMER_FLAG_PERIODIC) k)
      | RT_TIMER_CTRL_SET_PERIODIC \<Rightarrow> (None, set_timer_flag i (\<lambda>f. f OR RT_TIMER_FLAG_PERIODIC) k)
      | RT_TIMER_CTRL_OTHER \<Rightarrow> (None, k))"

text \<open>The insertion loop of rt_timer_start: the new timer goes behind every timer that the
  loop steps over, that is up to the first one whose timeout lies ahead of its own by less
  than half the tick range.\<close>

fun timer_insert :: "(timer_id \<Rightarrow> u32) \<Rightarrow> timer_id \<Rightarrow> timer_id list \<Rightarrow> timer_id list" where
  "timer_insert tt i [] = [i]"
| "timer_insert tt i (t # ts) =
     (if tt t - tt i = 0 then t # timer_insert tt i ts
      else if tt t - tt i < TICK_HALF then i # t # ts
      else t # timer_insert tt i ts)"

text \<open>rt_timer_start up to the point where the timer is linked and marked.\<close>

definition timer_start_core :: "timer_id \<Rightarrow> kernel \<Rightarrow> kernel option" where
  "timer_start_core i k =
     (let k = timer_deactivate i (timer_remove i k)
      in if tm_init_tick (timers k i) < TICK_HALF
         then let k = upd_timer i (\<lambda>tm. tm\<lparr>tm_timeout_tick := rt_tick k + tm_init_tick tm\<rparr>) k;
                  tt = (\<lambda>j. tm_timeout_tick (timers k j));
                  k = (if timer_soft k i
                       then k\<lparr>rt_soft_timer_list := timer_insert tt i (rt_soft_timer_list k)\<rparr>
                       else k\<lparr>rt_timer_list := timer_insert tt i (rt_timer_list k)\<rparr>);
                  k = k\<lparr>random_nr := random_nr k + 1\<rparr>
              in Some (timer_activate i k)
         else None)"

definition rt_system_timer_init :: "kernel \<Rightarrow> kernel" where
  "rt_system_timer_init k = k\<lparr>rt_timer_list := []\<rparr>"

section \<open>Frames\<close>

lemma timer_remove_sel [simp]:
  "rt_tick (timer_remove i k) = rt_tick k" "threads (timer_remove i k) = threads k"
  "timers (timer_remove i k) = timers k" "objs (timer_remove i k) = objs k"
  "object_list (timer_remove i k) = object_list k" "tlists (timer_remove i k) = tlists k"
  "on_list (timer_remove i k) = on_list k"
  "rt_timer_list (timer_remove i k) = remove1 i (rt_timer_list k)"
  "rt_soft_timer_list (timer_remove i k) = remove1 i (rt_soft_timer_list k)"
  "sched_ok_but T (timer_remove i k) = sched_ok_but T k"
  by (simp_all add: timer_remove_def)

lemma timer_stop_frame:
  "snd (rt_timer_stop i k) = k\<lparr>rt_timer_list := rt_timer_list (snd (rt_timer_stop i k)),
     rt_soft_timer_list := rt_soft_timer_list (snd (rt_timer_stop i k)), objs := objs (snd (rt_timer_stop i k))\<rparr>"
  by (simp add: rt_timer_stop_def timer_remove_def timer_deactivate_def upd_obj_def)

lemma timer_stop_sel [simp]:
  "rt_tick (snd (rt_timer_stop i k)) = rt_tick k" "threads (snd (rt_timer_stop i k)) = threads k"
  "timers (snd (rt_timer_stop i k)) = timers k" "tlists (snd (rt_timer_stop i k)) = tlists k"
  "on_list (snd (rt_timer_stop i k)) = on_list k"
  "rt_current_thread (snd (rt_timer_stop i k)) = rt_current_thread k"
  "rt_thread_ready_priority_group (snd (rt_timer_stop i k)) = rt_thread_ready_priority_group k"
  "sched_ok_but T (snd (rt_timer_stop i k)) = sched_ok_but T k"
  by (subst timer_stop_frame, simp)+

lemma timer_start_core_frame:
  "timer_start_core i k = Some k' \<Longrightarrow>
     k' = k\<lparr>rt_timer_list := rt_timer_list k', rt_soft_timer_list := rt_soft_timer_list k', objs := objs k',
            timers := timers k', random_nr := random_nr k + 1\<rparr>"
  by (auto simp: timer_start_core_def timer_remove_def timer_deactivate_def timer_activate_def upd_defs Let_def split: if_splits)

section \<open>Order of the timer lists\<close>

text \<open>Distances from a base tick linearise the wrapping tick counter.\<close>

definition tick_off :: "u32 \<Rightarrow> u32 \<Rightarrow> nat" where
  "tick_off b x = unat (x - b)"

lemma tick_diff:
  "x - y = 0 \<longleftrightarrow> tick_off b x = tick_off b y"
  "tick_off b y \<le> tick_off b x \<Longrightarrow> unat (x - y) = tick_off b x - tick_off b y"
  "tick_off b x < tick_off b y \<Longrightarrow> unat (x - y) = 2 ^ 32 + tick_off b x - tick_off b y"
proof -
  have xy: "x - y = (x - b) - (y - b)" by simp
  show "x - y = 0 \<longleftrightarrow> tick_off b x = tick_off b y"
    using word_unat_eq_iff[of "x - b" "y - b"] by (auto simp: tick_off_def)
  show "unat (x - y) = tick_off b x - tick_off b y" if "tick_off b y \<le> tick_off b x"
    using that unfolding xy tick_off_def by (subst unat_sub) (auto simp: word_le_nat_alt)
  show "unat (x - y) = 2 ^ 32 + tick_off b x - tick_off b y" if "tick_off b x < tick_off b y"
    using that unsigned_less[of "y - b", where ?'a = nat] unfolding xy tick_off_def
    by (subst unat_sub_if') simp
qed

text \<open>A list is in firing order from the base b: distances are non-decreasing.\<close>

definition firing_order :: "u32 \<Rightarrow> (timer_id \<Rightarrow> u32) \<Rightarrow> timer_id list \<Rightarrow> bool" where
  "firing_order b tt ts \<longleftrightarrow> sorted (map (\<lambda>i. tick_off b (tt i)) ts)"

lemma set_timer_insert [simp]: "set (timer_insert tt i ts) = insert i (set ts)"
  by (induction ts) auto

lemma distinct_timer_insert [simp]:
  "distinct (timer_insert tt i ts) \<longleftrightarrow> i \<notin> set ts \<and> distinct ts"
  by (induction ts) auto

lemma timer_insert_cong:
  "tt i = tt' i \<Longrightarrow> (\<And>j. j \<in> set ts \<Longrightarrow> tt j = tt' j) \<Longrightarrow> timer_insert tt i ts = timer_insert tt' i ts"
  by (induction ts) auto

lemma timer_half_cmp:
  assumes "tick_off b x \<le> tick_off b y + 0x7ffffffe" and "tick_off b y \<le> 2 ^ 31"
  shows "x - y < TICK_HALF \<longleftrightarrow> tick_off b y \<le> tick_off b x"
  using assms tick_diff(2)[of b y x] tick_diff(3)[of b x y]
  by (cases "tick_off b y \<le> tick_off b x") (auto simp: word_less_nat_alt)

text \<open>In a window of half the range the loop is a stable insertion: behind every timer that
  is due no later, ahead of every timer that is due later.\<close>

lemma timer_insert_split:
  assumes "firing_order b tt ts" and "tick_off b (tt i) \<le> 2 ^ 31"
    and "\<And>j. j \<in> set ts \<Longrightarrow> tick_off b (tt j) \<le> tick_off b (tt i) + 0x7ffffffe"
  shows "timer_insert tt i ts =
    takeWhile (\<lambda>j. tick_off b (tt j) \<le> tick_off b (tt i)) ts @ i #
    dropWhile (\<lambda>j. tick_off b (tt j) \<le> tick_off b (tt i)) ts"
  using assms
proof (induction ts)
  case (Cons t ts)
  have "tt t - tt i < TICK_HALF \<longleftrightarrow> tick_off b (tt i) \<le> tick_off b (tt t)"
    using Cons.prems(2,3) by (intro timer_half_cmp) auto
  moreover have "tt t - tt i = 0 \<longleftrightarrow> tick_off b (tt t) = tick_off b (tt i)" by (rule tick_diff)
  ultimately show ?case using Cons by (auto simp: firing_order_def)
qed simp

lemma sorted_stable_insert:
  assumes "sorted (map f ts)"
  shows "sorted (map f (takeWhile (\<lambda>j. f j \<le> f i) ts @ i # dropWhile (\<lambda>j. f j \<le> f i) ts))"
  using assms
proof (induction ts)
  case (Cons t ts)
  then show ?case by (auto dest: set_takeWhileD set_dropWhileD)
qed simp

lemma timer_insert_order:
  assumes "firing_order b tt ts" and "tick_off b (tt i) \<le> 2 ^ 31"
    and "\<And>j. j \<in> set ts \<Longrightarrow> tick_off b (tt j) \<le> tick_off b (tt i) + 0x7ffffffe"
  shows "firing_order b tt (timer_insert tt i ts)"
  using sorted_stable_insert[of "\<lambda>j. tick_off b (tt j)" ts i] assms(1) timer_insert_split[OF assms]
  by (simp add: firing_order_def)

section \<open>The flags of a timer\<close>

lemma flag_bits:
  fixes f :: u8
  shows "f AND RT_TIMER_FLAG_ACTIVATED \<noteq> 0 \<longleftrightarrow> bit f 0"
    and "f AND RT_TIMER_FLAG_PERIODIC \<noteq> 0 \<longleftrightarrow> bit f 1"
    and "f AND RT_TIMER_FLAG_SOFT_TIMER \<noteq> 0 \<longleftrightarrow> bit f 2"
  using and_flag_bit(1)[of f] and_flag_bit(2)[of f 1] and_flag_bit(2)[of f 2]
  by (simp_all add: push_bit_eq_mult)

lemma bit_flag_mask:
  fixes f :: u8
  assumes "n \<le> 2"
  shows "bit (f AND NOT RT_TIMER_FLAG_ACTIVATED) n \<longleftrightarrow> n \<noteq> 0 \<and> bit f n"
    and "bit (f OR RT_TIMER_FLAG_ACTIVATED) n \<longleftrightarrow> n = 0 \<or> bit f n"
    and "bit (f AND NOT RT_TIMER_FLAG_PERIODIC) n \<longleftrightarrow> n \<noteq> 1 \<and> bit f n"
    and "bit (f OR RT_TIMER_FLAG_PERIODIC) n \<longleftrightarrow> n = 1 \<or> bit f n"
proof -
  have len8: "LENGTH(8) = 8" by simp
  have 1: "bit (1 :: u8) n \<longleftrightarrow> n = 0" and 2: "bit (2 :: u8) n \<longleftrightarrow> n = 1" for n
    using bit_push_bit_iff[of 1 "1 :: u8" n] by (auto simp: bit_1_iff push_bit_eq_mult)
  show "bit (f AND NOT RT_TIMER_FLAG_ACTIVATED) n \<longleftrightarrow> n \<noteq> 0 \<and> bit f n"
    "bit (f OR RT_TIMER_FLAG_ACTIVATED) n \<longleftrightarrow> n = 0 \<or> bit f n"
    "bit (f AND NOT RT_TIMER_FLAG_PERIODIC) n \<longleftrightarrow> n \<noteq> 1 \<and> bit f n"
    "bit (f OR RT_TIMER_FLAG_PERIODIC) n \<longleftrightarrow> n = 1 \<or> bit f n"
    using assms by (auto simp only: bit_and_iff bit_or_iff bit_not_iff 1 2 possible_bit_word len8)
qed

lemma timer_flag_set:
  "timer_flag (timer_deactivate i k) j = (if j = i then timer_flag k j AND NOT RT_TIMER_FLAG_ACTIVATED else timer_flag k j)"
  "timer_flag (timer_activate i k) j = (if j = i then timer_flag k j OR RT_TIMER_FLAG_ACTIVATED else timer_flag k j)"
  by (simp_all add: timer_deactivate_def timer_activate_def upd_obj_def)

lemma timer_flag_upd [simp]:
  "timer_active (timer_deactivate i k) j \<longleftrightarrow> j \<noteq> i \<and> timer_active k j"
  "timer_periodic (timer_deactivate i k) j = timer_periodic k j"
  "timer_soft (timer_deactivate i k) j = timer_soft k j"
  "timer_active (timer_activate i k) j \<longleftrightarrow> j = i \<or> timer_active k j"
  "timer_periodic (timer_activate i k) j = timer_periodic k j"
  "timer_soft (timer_activate i k) j = timer_soft k j"
  unfolding timer_active_def timer_periodic_def timer_soft_def flag_bits timer_flag_set
  by (auto simp only: bit_flag_mask split: if_splits)

lemma timer_flag_sel [simp]:
  "rt_tick (timer_deactivate i k) = rt_tick k" "rt_tick (timer_activate i k) = rt_tick k"
  "threads (timer_deactivate i k) = threads k" "threads (timer_activate i k) = threads k"
  "timers (timer_deactivate i k) = timers k" "timers (timer_activate i k) = timers k"
  "rt_timer_list (timer_deactivate i k) = rt_timer_list k" "rt_timer_list (timer_activate i k) = rt_timer_list k"
  "rt_soft_timer_list (timer_deactivate i k) = rt_soft_timer_list k"
  "rt_soft_timer_list (timer_activate i k) = rt_soft_timer_list k"
  by (simp_all add: timer_deactivate_def timer_activate_def upd_obj_def)

lemma timer_flag_sched_ok [simp]:
  "sched_ok_but T (timer_deactivate i k) = sched_ok_but T k" "sched_ok_but T (timer_activate i k) = sched_ok_but T k"
  by (simp_all add: timer_deactivate_def timer_activate_def)

lemma timer_flag_frame:
  assumes "\<And>i. timer_flag k' i = timer_flag k i"
  shows "timer_active k' = timer_active k" "timer_soft k' = timer_soft k" "timer_periodic k' = timer_periodic k"
  using assms by (auto simp: fun_eq_iff timer_active_def timer_soft_def timer_periodic_def)

section \<open>The timer invariant\<close>

definition thread_timer_ok :: "kernel \<Rightarrow> tid \<Rightarrow> bool" where
  "thread_timer_ok k t \<longleftrightarrow> tm_timeout_func (timers k (ThreadTimer t)) = Thread_timeout t \<and>
     \<not> timer_soft k (ThreadTimer t) \<and> \<not> timer_periodic k (ThreadTimer t)"

text \<open>The timer of a thread is linked only while the thread is suspended, so its timeout
  function never finds the thread in another state.\<close>

definition timers_base :: "kernel \<Rightarrow> bool" where
  "timers_base k \<longleftrightarrow>
     distinct (rt_timer_list k) \<and> distinct (rt_soft_timer_list k) \<and>
     (\<forall>i \<in> set (rt_timer_list k). timer_active k i \<and> \<not> timer_soft k i) \<and>
     (\<forall>i \<in> set (rt_soft_timer_list k). timer_active k i \<and> timer_soft k i) \<and>
     (\<forall>t. ThreadTimer t \<in> set (rt_timer_list k) \<longrightarrow> thread_stat k t = RT_THREAD_SUSPEND) \<and>
     (\<forall>t. ThreadTimer t \<notin> set (rt_soft_timer_list k)) \<and>
     (\<forall>t. thread_stat k t = RT_THREAD_READY \<or> thread_stat k t = RT_THREAD_SUSPEND \<longrightarrow> thread_timer_ok k t) \<and>
     (\<forall>u t. tm_timeout_func (timers k (UserTimer u)) \<noteq> Thread_timeout t)"

definition timer_order :: "u32 \<Rightarrow> nat \<Rightarrow> kernel \<Rightarrow> bool" where
  "timer_order b m k \<longleftrightarrow>
     firing_order b (\<lambda>i. tm_timeout_tick (timers k i)) (rt_timer_list k) \<and>
     (\<forall>i \<in> set (rt_timer_list k). tick_off b (tm_timeout_tick (timers k i)) \<le> m)"

definition timers_ok :: "kernel \<Rightarrow> bool" where
  "timers_ok k \<longleftrightarrow> timers_base k \<and> timer_order (rt_tick k) 0x7ffffffe k"

lemma timers_base_cong:
  assumes "rt_timer_list k' = rt_timer_list k" and "rt_soft_timer_list k' = rt_soft_timer_list k"
    and "timers k' = timers k" and "\<And>i. timer_flag k' i = timer_flag k i"
    and "\<And>t. thread_stat k' t = thread_stat k t"
  shows "timers_base k' = timers_base k"
  unfolding timers_base_def thread_timer_ok_def assms timer_flag_frame[OF assms(4)] by simp

lemma timer_order_cong:
  "rt_timer_list k' = rt_timer_list k \<Longrightarrow> timers k' = timers k \<Longrightarrow> timer_order b m k' = timer_order b m k"
  by (simp add: timer_order_def)

lemma timers_ok_cong:
  assumes "rt_timer_list k' = rt_timer_list k" and "rt_soft_timer_list k' = rt_soft_timer_list k"
    and "timers k' = timers k" and "\<And>i. timer_flag k' i = timer_flag k i"
    and "\<And>t. thread_stat k' t = thread_stat k t" and "rt_tick k' = rt_tick k"
  shows "timers_ok k' = timers_ok k"
  using timers_base_cong[OF assms(1-5)] timer_order_cong[OF assms(1,3)] assms(6) by (simp add: timers_ok_def)

lemma firing_order_remove: "firing_order b tt ts \<Longrightarrow> firing_order b tt (remove1 i ts)"
  by (simp add: firing_order_def sorted_map_remove1)

lemma timer_order_remove: "timer_order b m k \<Longrightarrow> timer_order b m (timer_remove i k)"
  by (auto simp: timer_order_def firing_order_remove dest: notin_set_remove1)

lemma timer_remove_flags [simp]:
  "timer_active (timer_remove i k) = timer_active k" "timer_soft (timer_remove i k) = timer_soft k"
  "timer_periodic (timer_remove i k) = timer_periodic k"
  by (rule timer_flag_frame; simp)+

lemma timers_base_remove: "timers_base k \<Longrightarrow> timers_base (timer_remove i k)"
  by (auto simp: timers_base_def thread_timer_ok_def)

text \<open>Once a timer is unlinked its activation flag is free.\<close>

lemma timers_base_deactivate:
  "timers_base k \<Longrightarrow> \<not> timer_linked k i \<Longrightarrow> timers_base (timer_deactivate i k)"
  by (auto simp: timers_base_def thread_timer_ok_def timer_linked_def)

lemma timer_remove_linked [simp]:
  "timers_base k \<Longrightarrow> timer_linked (timer_remove i k) j \<longleftrightarrow> j \<noteq> i \<and> timer_linked k j"
  by (auto simp: timers_base_def timer_linked_def)

lemma timer_stop_ok:
  assumes "timers_base k"
  shows "timers_base (snd (rt_timer_stop i k))" and "\<not> timer_linked (snd (rt_timer_stop i k)) i"
    and "timer_order b m k \<Longrightarrow> timer_order b m (snd (rt_timer_stop i k))"
    and "\<not> timer_active (snd (rt_timer_stop i k)) i"
proof -
  have "timers_base (timer_deactivate i (timer_remove i k))"
    using assms by (intro timers_base_deactivate timers_base_remove) auto
  with assms show "timers_base (snd (rt_timer_stop i k))" by (simp add: rt_timer_stop_def)
  show "\<not> timer_linked (snd (rt_timer_stop i k)) i" "\<not> timer_active (snd (rt_timer_stop i k)) i"
    using assms by (auto simp: rt_timer_stop_def timers_base_def timer_linked_def)
  show "timer_order b m k \<Longrightarrow> timer_order b m (snd (rt_timer_stop i k))"
    using timer_order_remove[of b m k i] by (simp add: rt_timer_stop_def timer_order_def)
qed

text \<open>A change of the state of a thread.\<close>

lemma timers_base_stat:
  assumes "timers_base k" and "ThreadTimer t \<in> set (rt_timer_list k) \<Longrightarrow> th_stat th AND RT_THREAD_STAT_MASK = RT_THREAD_SUSPEND"
    and "th_stat th AND RT_THREAD_STAT_MASK = RT_THREAD_READY \<or> th_stat th AND RT_THREAD_STAT_MASK = RT_THREAD_SUSPEND
           \<Longrightarrow> thread_timer_ok k t"
  shows "timers_base (k\<lparr>threads := (threads k)(t := th)\<rparr>)"
proof -
  let ?k = "k\<lparr>threads := (threads k)(t := th)\<rparr>"
  have "timer_active ?k = timer_active k" "timer_soft ?k = timer_soft k" "timer_periodic ?k = timer_periodic k"
    by (rule timer_flag_frame; simp)+
  with assms show ?thesis by (auto simp: timers_base_def thread_timer_ok_def)
qed

section \<open>Starting a timer\<close>

lemma timer_start_core_eq:
  assumes "tm_init_tick (timers k i) < TICK_HALF"
  shows "\<exists>k'. timer_start_core i k = Some k' \<and>
     timers k' = (timers k)(i := (timers k i)\<lparr>tm_timeout_tick := rt_tick k + tm_init_tick (timers k i)\<rparr>) \<and>
     (rt_timer_list k' = (if timer_soft k i then remove1 i (rt_timer_list k)
        else timer_insert (\<lambda>j. tm_timeout_tick (timers k' j)) i (remove1 i (rt_timer_list k)))) \<and>
     (rt_soft_timer_list k' = (if timer_soft k i
        then timer_insert (\<lambda>j. tm_timeout_tick (timers k' j)) i (remove1 i (rt_soft_timer_list k))
        else remove1 i (rt_soft_timer_list k))) \<and>
     (\<forall>j. timer_active k' j \<longleftrightarrow> j = i \<or> timer_active k j) \<and>
     (\<forall>j. timer_soft k' j = timer_soft k j) \<and> (\<forall>j. timer_periodic k' j = timer_periodic k j)"
proof -
  define k1 where "k1 = timer_deactivate i (timer_remove i k)"
  define k2 where "k2 = upd_timer i (\<lambda>tm. tm\<lparr>tm_timeout_tick := rt_tick k + tm_init_tick tm\<rparr>) k1"
  let ?tt = "\<lambda>j. tm_timeout_tick (timers k2 j)"
  define k3 where "k3 = (if timer_soft k i
    then k2\<lparr>rt_soft_timer_list := timer_insert ?tt i (rt_soft_timer_list k2)\<rparr>
    else k2\<lparr>rt_timer_list := timer_insert ?tt i (rt_timer_list k2)\<rparr>)"
  define k4 where "k4 = k3\<lparr>random_nr := random_nr k3 + 1\<rparr>"
  have 2: "timer_active k2 = timer_active k1" "timer_soft k2 = timer_soft k1" "timer_periodic k2 = timer_periodic k1"
    by (rule timer_flag_frame; simp add: k2_def upd_timer_def)+
  have 4: "timer_active k4 = timer_active k2" "timer_soft k4 = timer_soft k2" "timer_periodic k4 = timer_periodic k2"
    by (rule timer_flag_frame; simp add: k4_def k3_def)+
  have "timer_start_core i k = Some (timer_activate i k4)"
    using assms 2 by (simp add: timer_start_core_def Let_def k1_def k2_def k3_def k4_def)
  then show ?thesis
    using 2 4 by (intro exI[of _ "timer_activate i k4"]) (auto simp: k1_def k2_def k3_def k4_def upd_timer_def)
qed

lemma timer_start_core_ok:
  assumes base: "timers_base k" and init: "tm_init_tick (timers k i) < TICK_HALF"
    and th: "\<And>t. i = ThreadTimer t \<Longrightarrow> thread_stat k t = RT_THREAD_SUSPEND"
  shows "\<exists>k'. timer_start_core i k = Some k' \<and> timers_base k' \<and>
     (\<forall>b m. timer_order b m k \<longrightarrow> m \<le> 0x7ffffffe + tick_off b (rt_tick k + tm_init_tick (timers k i)) \<longrightarrow>
        tick_off b (rt_tick k + tm_init_tick (timers k i)) \<le> 2 ^ 31 \<longrightarrow>
        timer_order b (max m (tick_off b (rt_tick k + tm_init_tick (timers k i)))) k')"
proof -
  from timer_start_core_eq[OF init] obtain k' where k': "timer_start_core i k = Some k'"
    and t: "timers k' = (timers k)(i := (timers k i)\<lparr>tm_timeout_tick := rt_tick k + tm_init_tick (timers k i)\<rparr>)"
    and h: "rt_timer_list k' = (if timer_soft k i then remove1 i (rt_timer_list k)
        else timer_insert (\<lambda>j. tm_timeout_tick (timers k' j)) i (remove1 i (rt_timer_list k)))"
    and s: "rt_soft_timer_list k' = (if timer_soft k i
        then timer_insert (\<lambda>j. tm_timeout_tick (timers k' j)) i (remove1 i (rt_soft_timer_list k))
        else remove1 i (rt_soft_timer_list k))"
    and f: "\<forall>j. timer_active k' j \<longleftrightarrow> j = i \<or> timer_active k j"
      "\<forall>j. timer_soft k' j = timer_soft k j" "\<forall>j. timer_periodic k' j = timer_periodic k j"
    by blast
  have thr: "threads k' = threads k" by (subst timer_start_core_frame[OF k']) simp
  have soft: "\<not> timer_soft k i" if "i = ThreadTimer t" for t
    using that th base by (auto simp: timers_base_def thread_timer_ok_def)
  have "timers_base k'"
    using base f th soft by (auto simp: timers_base_def thread_timer_ok_def thr h s t)
  moreover have "timer_order b (max m (tick_off b (rt_tick k + tm_init_tick (timers k i)))) k'"
    if o: "timer_order b m k" and m: "m \<le> 0x7ffffffe + tick_off b (rt_tick k + tm_init_tick (timers k i))"
      and n: "tick_off b (rt_tick k + tm_init_tick (timers k i)) \<le> 2 ^ 31" for b m
  proof -
    let ?tt = "\<lambda>j. tm_timeout_tick (timers k' j)" and ?l = "remove1 i (rt_timer_list k)"
    have d: "i \<notin> set ?l" using base by (simp add: timers_base_def)
    then have same: "?tt j = tm_timeout_tick (timers k j)" if "j \<in> set ?l" for j
      using that by (auto simp: t)
    have "firing_order b (\<lambda>j. tm_timeout_tick (timers k j)) ?l"
      using o by (simp add: timer_order_def firing_order_remove)
    then have fo: "firing_order b ?tt ?l" using same by (simp add: firing_order_def cong: map_cong)
    have le: "tick_off b (?tt j) \<le> m" if "j \<in> set ?l" for j
      using that o same by (auto simp: timer_order_def dest: notin_set_remove1)
    have fo': "firing_order b ?tt (timer_insert ?tt i ?l)"
    proof (rule timer_insert_order[OF fo])
      show "tick_off b (?tt i) \<le> 2 ^ 31" using n by (simp add: t)
      show "tick_off b (?tt j) \<le> tick_off b (?tt i) + 0x7ffffffe" if "j \<in> set ?l" for j
        using le[OF that] m by (simp add: t)
    qed
    have le': "tick_off b (?tt j) \<le> max m (tick_off b (rt_tick k + tm_init_tick (timers k i)))"
      if "j \<in> insert i (set ?l)" for j
    proof (cases "j = i")
      case True
      then show ?thesis by (simp add: t)
    next
      case False
      with that have "tick_off b (?tt j) \<le> m" by (intro le) simp
      then show ?thesis by (rule max.coboundedI1)
    qed
    show ?thesis
    proof (cases "timer_soft k i")
      case True
      with fo le show ?thesis unfolding timer_order_def by (force simp: h)
    next
      case False
      then have "rt_timer_list k' = timer_insert ?tt i ?l" by (simp only: h if_False)
      with fo' le' show ?thesis unfolding timer_order_def by auto
    qed
  qed
  ultimately show ?thesis using k' by blast
qed

lemma tick_off_add [simp]: "tick_off b (b + x) = unat x"
  by (simp add: tick_off_def)

lemma timer_start_core_timers_ok:
  assumes "timers_ok k" and init: "tm_init_tick (timers k i) < TICK_HALF"
    and "\<And>t. i = ThreadTimer t \<Longrightarrow> thread_stat k t = RT_THREAD_SUSPEND"
  shows "\<exists>k'. timer_start_core i k = Some k' \<and> timers_ok k'"
proof -
  from init have x: "unat (tm_init_tick (timers k i)) \<le> 0x7ffffffe" by (simp add: word_less_nat_alt)
  from assms(1) have b: "timers_base k" and o: "timer_order (rt_tick k) 0x7ffffffe k" by (auto simp: timers_ok_def)
  from timer_start_core_ok[OF b init assms(3)] obtain k' where k': "timer_start_core i k = Some k'" "timers_base k'"
    and ord: "\<forall>b m. timer_order b m k \<longrightarrow> m \<le> 0x7ffffffe + tick_off b (rt_tick k + tm_init_tick (timers k i)) \<longrightarrow>
        tick_off b (rt_tick k + tm_init_tick (timers k i)) \<le> 2 ^ 31 \<longrightarrow>
        timer_order b (max m (tick_off b (rt_tick k + tm_init_tick (timers k i)))) k'"
    by blast
  have "timer_order (rt_tick k) (max 0x7ffffffe (unat (tm_init_tick (timers k i)))) k'"
    using ord[rule_format, OF o] x by simp
  moreover have "rt_tick k' = rt_tick k" by (subst timer_start_core_frame[OF k'(1)]) simp
  ultimately show ?thesis using k' x by (auto simp: timers_ok_def max_absorb1)
qed

end
