(* ===== verification/Thread.thy ===== *)
theory Thread
  imports Timer
begin

text \<open>
  rt-thread/src/thread.c, the initial stack frame of libcpu/stack.c, and rt_timer_start of
  timer.c, which wakes the timer thread.  A call that blocks is split at its rt_schedule: the
  definition with the name of the function is the code up to and including rt_schedule, and
  the one with the suffix _resumed is what the thread runs when it is scheduled again.
\<close>

section \<open>Operations\<close>

subsection \<open>Suspend, resume and timeout\<close>

abbreviation set_stat :: "tid \<Rightarrow> u8 \<Rightarrow> kernel \<Rightarrow> kernel" where
  "set_stat t s k \<equiv> upd_thread t (\<lambda>th. th\<lparr>th_stat := s\<rparr>) k"

definition rt_thread_suspend :: "tid \<Rightarrow> kernel \<Rightarrow> (rt_err \<times> kernel) option" where
  "rt_thread_suspend t k =
     (if thread_stat k t \<noteq> RT_THREAD_READY then Some (RT_ERROR, k)
      else do { let k = upd_thread t (\<lambda>th. th\<lparr>th_stat := RT_THREAD_SUSPEND OR (th_stat th AND NOT RT_THREAD_STAT_MASK)\<rparr>) k;
                k \<leftarrow> rt_schedule_remove_thread t k;
                let k = snd (rt_timer_stop (ThreadTimer t) k);
                Some (RT_EOK, k) })"

definition rt_thread_resume :: "tid \<Rightarrow> kernel \<Rightarrow> (rt_err \<times> kernel) option" where
  "rt_thread_resume t k =
     (if thread_stat k t \<noteq> RT_THREAD_SUSPEND then Some (RT_ERROR, k)
      else do { let k = tlist_remove t k;
                let k = snd (rt_timer_stop (ThreadTimer t) k);
                k \<leftarrow> rt_schedule_insert_thread t k;
                Some (RT_EOK, k) })"

definition rt_thread_timeout :: "tid \<Rightarrow> kernel \<Rightarrow> kernel option" where
  "rt_thread_timeout t k =
     (if thread_stat k t = RT_THREAD_SUSPEND
      then do { let k = upd_thread t (\<lambda>th. th\<lparr>th_error := RT_ETIMEOUT\<rparr>) k;
                let k = tlist_remove t k;
                k \<leftarrow> rt_schedule_insert_thread t k;
                rt_schedule k }
      else None)"

definition rt_timer_start :: "timer_id \<Rightarrow> kernel \<Rightarrow> kernel option" where
  "rt_timer_start i k =
     do { k \<leftarrow> timer_start_core i k;
          if timer_soft k i \<and> thread_stat k timer_thread \<noteq> RT_THREAD_READY
          then do { (_, k) \<leftarrow> rt_thread_resume timer_thread k; rt_schedule k }
          else Some k }"

subsection \<open>Creation and start\<close>

abbreviation SVCMODE :: u32 where "SVCMODE \<equiv> 0x13"

text \<open>The stack pointer and the sixteen words above it, lowest address first.\<close>

definition rt_hw_stack_init :: "u32 \<Rightarrow> u32 \<Rightarrow> u32 \<Rightarrow> u32 \<Rightarrow> u32 \<times> u32 list" where
  "rt_hw_stack_init tentry parameter stack_addr texit =
     (let stk = RT_ALIGN_DOWN (stack_addr + 4) 8;
          cpsr = (if tentry AND 0x01 \<noteq> 0 then SVCMODE OR 0x20 else SVCMODE)
      in (stk - 64, [cpsr, parameter] @ replicate 12 0xdeadbeef @ [texit, tentry]))"

text \<open>The stack is filled with '#' before the frame is written at its top.  A frame that starts
  below the stack writes outside it: None; one that starts at its first byte overwrites the
  mark.\<close>

definition thread_init_core ::
  "tid \<Rightarrow> u32 \<Rightarrow> u32 \<Rightarrow> u32 \<Rightarrow> u32 \<Rightarrow> u8 \<Rightarrow> u32 \<Rightarrow> u32 \<Rightarrow> kernel \<Rightarrow> kernel option" where
  "thread_init_core t entry parameter stack_start stack_size priority tick texit k =
     (let (sp, frame) = rt_hw_stack_init entry parameter (stack_start + stack_size - 4) texit
      in if on_list k t \<noteq> None \<or> sp < stack_start \<or> \<not> unat priority < RT_THREAD_PRIORITY_MAX then None
         else do { let k = upd_thread t (\<lambda>th.
                     \<lparr>th_sp = sp, th_entry = entry, th_parameter = parameter,
                      th_stack_addr = stack_start, th_stack_size = stack_size,
                      th_stack_mark = (if sp = stack_start then ucast (hd frame) else 0x23),
                      th_error = RT_EOK, th_stat = RT_THREAD_INIT,
                      th_current_priority = priority, th_init_priority = priority, th_number_mask = 0,
                      th_event_set = th_event_set th, th_event_info = th_event_info th,
                      th_init_tick = tick, th_remaining_tick = tick,
                      th_cleanup = False, th_user_data = 0\<rparr>) k;
                   rt_timer_init (ThreadTimer t) (ob_name (objs k (ObjThread t))) (Thread_timeout t) 0
                     RT_TIMER_FLAG_ONE_SHOT k })"

definition rt_thread_init ::
  "tid \<Rightarrow> u8 list \<Rightarrow> u32 \<Rightarrow> u32 \<Rightarrow> u32 \<Rightarrow> u32 \<Rightarrow> u8 \<Rightarrow> u32 \<Rightarrow> u32 \<Rightarrow> kernel \<Rightarrow> kernel option" where
  "rt_thread_init t name entry parameter stack_start stack_size priority tick texit k =
     (if stack_start = 0 then None
      else do { k \<leftarrow> rt_object_init (ObjThread t) name k;
                thread_init_core t entry parameter stack_start stack_size priority tick texit k })"

text \<open>mem is what the allocation of the thread object returns, stack what the allocation of its
  stack returns.\<close>

definition rt_thread_create ::
  "tid option \<Rightarrow> u32 option \<Rightarrow> u8 list \<Rightarrow> u32 \<Rightarrow> u32 \<Rightarrow> u32 \<Rightarrow> u8 \<Rightarrow> u32 \<Rightarrow> u32 \<Rightarrow> kernel \<Rightarrow>
     (tid option \<times> kernel) option" where
  "rt_thread_create mem stack name entry parameter stack_size priority tick texit k =
     do { (ob, k) \<leftarrow> rt_object_allocate (map_option ObjThread mem) RT_Object_Class_Thread name k;
          case mem of
            None \<Rightarrow> Some (None, k)
          | Some t \<Rightarrow>
             (case stack of
                None \<Rightarrow> do { k \<leftarrow> rt_object_delete (ObjThread t) k; Some (None, k) }
              | Some stack_start \<Rightarrow>
                  do { k \<leftarrow> thread_init_core t entry parameter stack_start stack_size priority tick texit k;
                       Some (Some t, k) }) }"

definition rt_thread_startup :: "tid \<Rightarrow> kernel \<Rightarrow> kernel option" where
  "rt_thread_startup t k =
     (if thread_stat k t \<noteq> RT_THREAD_INIT \<or> \<not> unat (th_init_priority (threads k t)) < RT_THREAD_PRIORITY_MAX
      then None
      else do { let k = upd_thread t (\<lambda>th. th\<lparr>th_current_priority := th_init_priority th,
                                    th_number_mask := push_bit (unat (th_init_priority th)) 1\<rparr>) k;
                let k = set_stat t RT_THREAD_SUSPEND k;
                (_, k) \<leftarrow> rt_thread_resume t k;
                if rt_thread_self k \<noteq> None then rt_schedule k else Some k })"

subsection \<open>End of a thread\<close>

definition rt_thread_exit :: "kernel \<Rightarrow> kernel option" where
  "rt_thread_exit k =
     do { t \<leftarrow> rt_current_thread k;
          k \<leftarrow> rt_schedule_remove_thread t k;
          let k = set_stat t RT_THREAD_CLOSE k;
          let k = rt_timer_detach (ThreadTimer t) k;
          k \<leftarrow> (if rt_object_is_systemobject (ObjThread t) k \<and> \<not> th_cleanup (threads k t)
               then Some (rt_object_detach (ObjThread t) k)
               else tlist_insert_after DefunctQ t k);
          rt_schedule k }"

definition rt_thread_detach :: "tid \<Rightarrow> kernel \<Rightarrow> kernel option" where
  "rt_thread_detach t k =
     do { k \<leftarrow> (if thread_stat k t \<noteq> RT_THREAD_INIT then rt_schedule_remove_thread t k else Some k);
          let k = rt_timer_detach (ThreadTimer t) k;
          let k = set_stat t RT_THREAD_CLOSE k;
          let k = rt_object_detach (ObjThread t) k;
          if th_cleanup (threads k t) then tlist_insert_after DefunctQ t k else Some k }"

definition rt_thread_delete :: "tid \<Rightarrow> kernel \<Rightarrow> kernel option" where
  "rt_thread_delete t k =
     do { k \<leftarrow> (if thread_stat k t \<noteq> RT_THREAD_INIT then rt_schedule_remove_thread t k else Some k);
          let k = rt_timer_detach (ThreadTimer t) k;
          let k = set_stat t RT_THREAD_CLOSE k;
          tlist_insert_after DefunctQ t k }"

subsection \<open>Yield, sleep and control\<close>

text \<open>next and prev of a linked tlist node differ exactly when its list has another element.\<close>

definition rt_thread_yield :: "kernel \<Rightarrow> kernel option" where
  "rt_thread_yield k =
     do { t \<leftarrow> rt_current_thread k;
          if thread_stat k t = RT_THREAD_READY \<and>
             (case on_list k t of None \<Rightarrow> False | Some q \<Rightarrow> 2 \<le> length (tlists k q))
          then do { let k = tlist_remove t k;
                    k \<leftarrow> tlist_insert_before (ReadyQ (thread_prio k t)) t k;
                    rt_schedule k }
          else Some k }"

definition rt_thread_sleep :: "u32 \<Rightarrow> kernel \<Rightarrow> kernel option" where
  "rt_thread_sleep tick k =
     do { t \<leftarrow> rt_current_thread k;
          (_, k) \<leftarrow> rt_thread_suspend t k;
          let k = snd (rt_timer_control (ThreadTimer t) (RT_TIMER_CTRL_SET_TIME tick) k);
          k \<leftarrow> rt_timer_start (ThreadTimer t) k;
          rt_schedule k }"

definition rt_thread_sleep_resumed :: "tid \<Rightarrow> kernel \<Rightarrow> kernel" where
  "rt_thread_sleep_resumed t k =
     (if th_error (threads k t) = RT_ETIMEOUT then upd_thread t (\<lambda>th. th\<lparr>th_error := RT_EOK\<rparr>) k else k)"

definition rt_thread_delay :: "u32 \<Rightarrow> kernel \<Rightarrow> kernel option" where
  "rt_thread_delay tick k = rt_thread_sleep tick k"

datatype thread_cmd =
    RT_THREAD_CTRL_CHANGE_PRIORITY u8 | RT_THREAD_CTRL_STARTUP | RT_THREAD_CTRL_CLOSE | RT_THREAD_CTRL_OTHER

text \<open>A priority of 32 or more shifts past the width of the mask: None.\<close>

definition rt_thread_control :: "tid \<Rightarrow> thread_cmd \<Rightarrow> kernel \<Rightarrow> kernel option" where
  "rt_thread_control t cmd k =
     (case cmd of
        RT_THREAD_CTRL_CHANGE_PRIORITY p \<Rightarrow>
          let set_priority = upd_thread t (\<lambda>th. th\<lparr>th_current_priority := p, th_number_mask := push_bit (unat p) 1\<rparr>)
          in if \<not> unat p < RT_THREAD_PRIORITY_MAX then None
             else if thread_stat k t = RT_THREAD_READY
             then do { k \<leftarrow> rt_schedule_remove_thread t k;
                       rt_schedule_insert_thread t (set_priority k) }
             else Some (set_priority k)
      | RT_THREAD_CTRL_STARTUP \<Rightarrow> rt_thread_startup t k
      | RT_THREAD_CTRL_CLOSE \<Rightarrow> rt_thread_delete t k
      | RT_THREAD_CTRL_OTHER \<Rightarrow> Some k)"

definition rt_thread_find :: "u8 list \<Rightarrow> kernel \<Rightarrow> (object_id option \<times> kernel) option" where
  "rt_thread_find name k =
     do { let k = (if rt_thread_self k \<noteq> None then rt_enter_critical k else k);
          c \<leftarrow> rt_object_get_information (class_value RT_Object_Class_Thread);
          let found = List.find (\<lambda>ob. rt_strncmp (ob_name (objs k ob)) name RT_NAME_MAX = 0) (object_list k c);
          k \<leftarrow> (if rt_thread_self k \<noteq> None then rt_exit_critical k else Some k);
          Some (found, k) }"

section \<open>The kernel invariant\<close>

definition kernel_ok :: "kernel \<Rightarrow> bool" where
  "kernel_ok k \<longleftrightarrow> sched_ok k \<and> timers_ok k"

text \<open>The fields that moving threads between lists and starting or stopping timers may change.\<close>

definition thread_frame :: "kernel \<Rightarrow> kernel \<Rightarrow> bool" where
  "thread_frame k k' \<longleftrightarrow>
     k' = k\<lparr>threads := threads k', tlists := tlists k', on_list := on_list k',
            rt_thread_ready_priority_group := rt_thread_ready_priority_group k',
            rt_timer_list := rt_timer_list k', rt_soft_timer_list := rt_soft_timer_list k',
            objs := objs k', timers := timers k', random_nr := random_nr k'\<rparr> \<and>
     (\<forall>ob. (\<forall>i. ob \<noteq> ObjTimer i) \<longrightarrow> objs k' ob = objs k ob)"

lemma thread_frameD:
  assumes "thread_frame k k'"
  shows "rt_tick k' = rt_tick k" "object_list k' = object_list k" "rt_current_thread k' = rt_current_thread k"
    "rt_current_priority k' = rt_current_priority k" "rt_scheduler_lock_nest k' = rt_scheduler_lock_nest k"
    "rt_interrupt_nest k' = rt_interrupt_nest k" "kernel_errno k' = kernel_errno k"
    "sems k' = sems k" "mutexes k' = mutexes k" "events k' = events k" "mailboxes k' = mailboxes k"
    "mqueues k' = mqueues k"
    "\<And>ob. (\<And>i. ob \<noteq> ObjTimer i) \<Longrightarrow> objs k' ob = objs k ob"
proof -
  from assms have *: "k' = k\<lparr>threads := threads k', tlists := tlists k', on_list := on_list k',
            rt_thread_ready_priority_group := rt_thread_ready_priority_group k',
            rt_timer_list := rt_timer_list k', rt_soft_timer_list := rt_soft_timer_list k',
            objs := objs k', timers := timers k', random_nr := random_nr k'\<rparr>"
    by (simp add: thread_frame_def)
  show "rt_tick k' = rt_tick k" "object_list k' = object_list k" "rt_current_thread k' = rt_current_thread k"
    "rt_current_priority k' = rt_current_priority k" "rt_scheduler_lock_nest k' = rt_scheduler_lock_nest k"
    "rt_interrupt_nest k' = rt_interrupt_nest k" "kernel_errno k' = kernel_errno k"
    "sems k' = sems k" "mutexes k' = mutexes k" "events k' = events k" "mailboxes k' = mailboxes k"
    "mqueues k' = mqueues k"
    by (subst *, simp)+
  show "\<And>ob. (\<And>i. ob \<noteq> ObjTimer i) \<Longrightarrow> objs k' ob = objs k ob"
    using assms by (simp add: thread_frame_def)
qed

lemma thread_frame_refl [simp]: "thread_frame k k"
  by (simp add: thread_frame_def)

lemma thread_frame_trans [trans]:
  assumes "thread_frame k k1" and "thread_frame k1 k2"
  shows "thread_frame k k2"
proof -
  have "\<forall>ob. (\<forall>i. ob \<noteq> ObjTimer i) \<longrightarrow> objs k2 ob = objs k ob"
    using thread_frameD(13)[OF assms(1)] thread_frameD(13)[OF assms(2)] by metis
  then show ?thesis
    unfolding thread_frame_def
    by (intro conjI kernel.equality) (simp_all add: thread_frameD(1-12)[OF assms(1)] thread_frameD(1-12)[OF assms(2)])
qed

lemma thread_frame_upd_thread [simp]: "thread_frame k (upd_thread t f k)"
  and thread_frame_link [simp]: "thread_frame k (link_at q us t vs k)"
  and thread_frame_unlink [simp]: "thread_frame k (unlink_thread t k)"
  by (simp_all add: thread_frame_def upd_thread_def link_at_def unlink_thread_def split: option.split)

lemma thread_frame_lists:
  "thread_frame k (k\<lparr>threads := a, tlists := b, on_list := c, rt_thread_ready_priority_group := d\<rparr>)"
  by (simp add: thread_frame_def)

lemma thread_frame_stop [simp]: "thread_frame k (snd (rt_timer_stop i k))"
  by (simp add: thread_frame_def rt_timer_stop_def timer_deactivate_def timer_remove_def upd_obj_def)

lemma thread_frame_start_core: "timer_start_core i k = Some k' \<Longrightarrow> thread_frame k k'"
  by (auto simp: thread_frame_def timer_start_core_def timer_remove_def timer_deactivate_def timer_activate_def
      upd_defs Let_def split: if_splits)

lemma kernel_okD:
  assumes "kernel_ok k"
  shows "sched_ok k" "timers_ok k" "timers_base k" "lists_ok k" "thread_ok (threads k t) (on_list k t)"
  using assms sched_okD[of "{}" k] by (auto simp: kernel_ok_def timers_ok_def)

section \<open>Suspend and resume\<close>

lemma suspend_ok:
  assumes ok: "kernel_ok k" and ready: "thread_stat k t = RT_THREAD_READY"
  shows "\<exists>k'. rt_thread_suspend t k = Some (RT_EOK, k') \<and> kernel_ok k' \<and> thread_frame k k' \<and>
     thread_stat k' t = RT_THREAD_SUSPEND \<and> on_list k' = (on_list k)(t := None) \<and>
     (\<forall>q. tlists k' q = remove1 t (tlists k q)) \<and>
     threads k' = (threads k)(t := (threads k t)\<lparr>th_stat := RT_THREAD_SUSPEND OR (th_stat (threads k t) AND NOT RT_THREAD_STAT_MASK)\<rparr>)"
proof -
  let ?th = "(threads k t)\<lparr>th_stat := RT_THREAD_SUSPEND OR (th_stat (threads k t) AND NOT RT_THREAD_STAT_MASK)\<rparr>"
  define k1 where "k1 = k\<lparr>threads := (threads k)(t := ?th)\<rparr>"
  have tok: "prio_ok (threads k t)" "on_list k t = Some (ReadyQ (thread_prio k t))"
    using kernel_okD(5)[OF ok, of t] ready by (simp_all add: thread_ok_def)
  have s1: "sched_ok_but {t} k1"
    using kernel_okD(1)[OF ok] by (auto simp: sched_ok_but_def k1_def lists_ok_def group_ok_def)
  have "\<exists>k2. rt_schedule_remove_thread t k1 = Some k2 \<and> sched_ok_but {t} k2 \<and> on_list k2 t = None \<and>
           k2 = k1\<lparr>tlists := tlists k2, on_list := (on_list k1)(t := None),
                  rt_thread_ready_priority_group := rt_thread_ready_priority_group k2\<rparr> \<and>
           (\<forall>q. tlists k2 q = remove1 t (tlists k1 q))"
    using tok by (intro remove_thread_ok[OF s1]) (auto simp: k1_def prio_mask_ok)
  then obtain k2 where k2: "rt_schedule_remove_thread t k1 = Some k2" "sched_ok_but {t} k2" "on_list k2 t = None"
    and fr: "k2 = k1\<lparr>tlists := tlists k2, on_list := (on_list k1)(t := None),
                  rt_thread_ready_priority_group := rt_thread_ready_priority_group k2\<rparr>"
    and tl: "\<forall>q. tlists k2 q = remove1 t (tlists k1 q)" by blast
  define k' where "k' = snd (rt_timer_stop (ThreadTimer t) k2)"
  have same: "threads k2 = threads k1" "rt_tick k2 = rt_tick k1" "timers k2 = timers k1" "objs k2 = objs k1"
    "rt_timer_list k2 = rt_timer_list k1" "rt_soft_timer_list k2 = rt_soft_timer_list k1"
    "on_list k2 = (on_list k)(t := None)"
    by (subst fr, simp add: k1_def)+
  have eq: "rt_thread_suspend t k = Some (RT_EOK, k')"
    using ready k2(1) by (simp add: rt_thread_suspend_def upd_thread_def k1_def k'_def)
  have f1: "timers_base k1"
    unfolding k1_def using kernel_okD(3)[OF ok] ready
    by (intro timers_base_stat) (auto simp: timers_base_def)
  have f2: "timers_base k2" using f1 by (subst timers_base_cong[of k2 k1]) (simp_all add: same)
  have "timer_order (rt_tick k) 0x7ffffffe k2"
    using kernel_okD(2)[OF ok] by (subst timer_order_cong[of k2 k]) (simp_all add: same k1_def timers_ok_def)
  then have tk: "timers_ok k'"
    using timer_stop_ok(1,3)[OF f2] by (simp add: timers_ok_def k'_def same k1_def)
  have st: "sched_ok k'"
  proof (rule sched_ok_but_insert)
    show "sched_ok_but {t} k'" using k2(2) by (simp add: k'_def)
    show "thread_ok (threads k' t) (on_list k' t)"
      using tok by (simp add: k'_def same k1_def thread_ok_def)
  qed
  have "thread_frame k k2" by (subst fr) (simp add: thread_frame_def k1_def)
  then have "thread_frame k k'" unfolding k'_def by (rule thread_frame_trans) simp
  with eq st tk tl show ?thesis
    by (intro exI[of _ k']) (simp add: kernel_ok_def k'_def same k1_def)
qed

lemma unlink_sched_ok:
  assumes ok: "sched_ok k" and st: "thread_stat k t = RT_THREAD_SUSPEND"
  shows "sched_ok (unlink_thread t k)"
proof -
  have t: "thread_ok (threads k t) (on_list k t)" using ok by (rule sched_okD) simp
  then have wl: "wait_list (on_list k t)" using st by (simp add: thread_ok_def)
  have "tlists (unlink_thread t k) (ReadyQ p) = tlists k (ReadyQ p)" for p
    using sched_okD(1)[OF ok] wl lists_ok_mem[OF sched_okD(1)[OF ok], of t "ReadyQ p"]
    by (auto simp: unlink_tlists intro: remove1_idem)
  then have "group_ok (unlink_thread t k)"
    using sched_okD(2)[OF ok] by (auto simp: group_ok_def unlink_thread_def split: option.split)
  moreover have "threads (unlink_thread t k) = threads k" by (simp add: unlink_thread_def split: option.split)
  ultimately show ?thesis
    using ok t st sched_okD(3)[OF ok]
    by (auto simp: sched_ok_but_def lists_ok_unlink unlink_on_list thread_ok_def)
qed

text \<open>The common part of resume and timeout: a suspended thread whose timer is not linked
  becomes ready at the tail of its queue.\<close>

lemma make_ready_ok:
  assumes s: "sched_ok k" and st: "thread_stat k t = RT_THREAD_SUSPEND" and d: "on_list k t = None"
    and tb: "timers_base k" and nl: "\<not> timer_linked k (ThreadTimer t)"
  shows "\<exists>k'. rt_schedule_insert_thread t k = Some k' \<and> sched_ok k' \<and> timers_base k' \<and>
     (\<forall>b m. timer_order b m k' = timer_order b m k) \<and> thread_frame k k' \<and>
     on_list k' t = Some (ReadyQ (thread_prio k t)) \<and> timers k' = timers k \<and> objs k' = objs k \<and>
     rt_timer_list k' = rt_timer_list k \<and> rt_soft_timer_list k' = rt_soft_timer_list k \<and>
     thread_stat k' t = RT_THREAD_READY \<and>
     threads k' = (threads k)(t := (threads k t)\<lparr>th_stat := RT_THREAD_READY OR (th_stat (threads k t) AND NOT RT_THREAD_STAT_MASK)\<rparr>) \<and>
     tlists k' = (tlists k)(ReadyQ (thread_prio k t) := tlists k (ReadyQ (thread_prio k t)) @ [t])"
proof -
  have p: "prio_ok (threads k t)" using sched_okD(3)[OF s, of t] st by (simp add: thread_ok_def)
  obtain k' where k': "rt_schedule_insert_thread t k = Some k'" "sched_ok k'" "thread_stat k' t = RT_THREAD_READY"
    and fr: "k' = k\<lparr>threads := (threads k)(t := threads k' t), tlists := tlists k', on_list := on_list k',
                  rt_thread_ready_priority_group := rt_thread_ready_priority_group k'\<rparr>"
    and th: "threads k' t = (threads k t)\<lparr>th_stat := RT_THREAD_READY OR (th_stat (threads k t) AND NOT RT_THREAD_STAT_MASK)\<rparr>"
    and tl: "tlists k' = (tlists k)(ReadyQ (thread_prio k t) := tlists k (ReadyQ (thread_prio k t)) @ [t])"
    using insert_thread_ok[OF sched_ok_but_mono[OF s] d p] by blast
  have same: "timers k' = timers k" "objs k' = objs k" "rt_timer_list k' = rt_timer_list k"
    "rt_soft_timer_list k' = rt_soft_timer_list k"
    by (subst fr, simp)+
  let ?th = "(threads k t)\<lparr>th_stat := RT_THREAD_READY OR (th_stat (threads k t) AND NOT RT_THREAD_STAT_MASK)\<rparr>"
  have thr: "threads k' = (threads k)(t := ?th)" by (subst fr) (simp add: th)
  have "timers_base (k\<lparr>threads := (threads k)(t := ?th)\<rparr>)"
    using tb nl st by (intro timers_base_stat) (auto simp: timer_linked_def timers_base_def)
  then have "timers_base k'"
    by (subst timers_base_cong[of _ "k\<lparr>threads := (threads k)(t := ?th)\<rparr>"]) (simp_all add: same thr)
  moreover have "timer_order b m k' = timer_order b m k" for b m by (rule timer_order_cong) (simp_all add: same)
  moreover have "thread_frame k k'" by (subst fr) (rule thread_frame_lists)
  moreover have "on_list k' t = Some (ReadyQ (thread_prio k t))"
    using lists_ok_mem[OF sched_okD(1)[OF k'(2)], of t "ReadyQ (thread_prio k t)"] tl by simp
  ultimately show ?thesis using k' thr tl same by (intro exI[of _ k']) simp
qed

lemma resume_ok:
  assumes ok: "kernel_ok k" and st: "thread_stat k t = RT_THREAD_SUSPEND"
  shows "\<exists>k'. rt_thread_resume t k = Some (RT_EOK, k') \<and> kernel_ok k' \<and> thread_frame k k' \<and>
     thread_stat k' t = RT_THREAD_READY \<and> timers k' = timers k \<and>
     threads k' = (threads k)(t := (threads k t)\<lparr>th_stat := RT_THREAD_READY OR (th_stat (threads k t) AND NOT RT_THREAD_STAT_MASK)\<rparr>) \<and>
     tlists k' = (\<lambda>q. remove1 t (tlists k q))(ReadyQ (thread_prio k t) := tlists k (ReadyQ (thread_prio k t)) @ [t])"
proof -
  define k1 where "k1 = unlink_thread t k"
  define k2 where "k2 = snd (rt_timer_stop (ThreadTimer t) k1)"
  have same1: "threads k1 = threads k" "timers k1 = timers k" "rt_tick k1 = rt_tick k" "objs k1 = objs k"
    "rt_timer_list k1 = rt_timer_list k" "rt_soft_timer_list k1 = rt_soft_timer_list k"
    by (simp_all add: k1_def unlink_thread_def split: option.split)
  have s1: "sched_ok k1" unfolding k1_def by (rule unlink_sched_ok[OF kernel_okD(1)[OF ok] st])
  have t1: "timers_ok k1" using kernel_okD(2)[OF ok] by (subst timers_ok_cong[of k1 k]) (simp_all add: same1)
  have tb: "timers_base k1" using t1 by (simp add: timers_ok_def)
  have s2: "sched_ok k2" "on_list k2 t = None" "thread_stat k2 t = RT_THREAD_SUSPEND"
    using s1 st by (simp_all add: k2_def k1_def unlink_on_list) (simp add: k1_def[symmetric] same1)
  have t2: "timers_base k2" "\<not> timer_linked k2 (ThreadTimer t)" "timer_order (rt_tick k) 0x7ffffffe k2"
    using timer_stop_ok[OF tb] t1 by (simp_all add: k2_def timers_ok_def same1)
  from make_ready_ok[OF s2(1,3,2) t2(1,2)] obtain k' where
    k': "rt_schedule_insert_thread t k2 = Some k'" "sched_ok k'" "timers_base k'"
     "\<forall>b m. timer_order b m k' = timer_order b m k2" "thread_frame k2 k'" "thread_stat k' t = RT_THREAD_READY"
     "timers k' = timers k2"
     "threads k' = (threads k2)(t := (threads k2 t)\<lparr>th_stat := RT_THREAD_READY OR (th_stat (threads k2 t) AND NOT RT_THREAD_STAT_MASK)\<rparr>)"
     "tlists k' = (tlists k2)(ReadyQ (thread_prio k2 t) := tlists k2 (ReadyQ (thread_prio k2 t)) @ [t])"
    by blast
  have wl: "wait_list (on_list k t)" using kernel_okD(5)[OF ok, of t] st by (simp add: thread_ok_def)
  have tl2: "tlists k2 q = remove1 t (tlists k q)" for q
    using unlink_tlists[OF kernel_okD(4)[OF ok]] by (simp add: k2_def k1_def)
  have tlp: "tlists k2 (ReadyQ p) = tlists k (ReadyQ p)" for p
    using wl lists_ok_mem[OF kernel_okD(4)[OF ok], of t "ReadyQ p"] by (auto simp: tl2 intro: remove1_idem)
  have fr2: "thread_frame k k2" unfolding k2_def k1_def by (rule thread_frame_trans[OF _ thread_frame_stop]) simp
  have eq: "rt_thread_resume t k = Some (RT_EOK, k')"
    using st k'(1) by (simp add: rt_thread_resume_def tlist_remove_def k1_def k2_def)
  have "timers_ok k'" using k'(3,4) t2(3) thread_frameD(1)[OF fr2] thread_frameD(1)[OF k'(5)]
    by (simp add: timers_ok_def)
  moreover have "thread_frame k k'" using fr2 k'(5) by (rule thread_frame_trans)
  moreover have "threads k2 = threads k" "timers k2 = timers k" by (simp_all add: k2_def same1)
  ultimately show ?thesis using eq k' tl2 tlp
    by (intro exI[of _ k']) (auto simp: kernel_ok_def)
qed

section \<open>Waiting\<close>

lemma link_ok:
  assumes ok: "kernel_ok k" and th: "thread_ok (threads k t) (Some q)" and d: "on_list k t = None"
    and w: "\<And>p. q \<noteq> ReadyQ p" and q: "tlists k q = us @ vs"
  shows "kernel_ok (link_at q us t vs k)"
proof -
  let ?k = "link_at q us t vs k"
  have "group_ok ?k" using w sched_okD(2)[OF kernel_okD(1)[OF ok]] by (auto simp: group_ok_def link_at_def)
  moreover have "lists_ok ?k" using kernel_okD(4)[OF ok] d q by (rule lists_ok_link_at)
  moreover have "thread_ok (threads ?k u) (on_list ?k u)" for u
    using kernel_okD(5)[OF ok, of u] th by (auto simp: link_at_def)
  moreover have "timers_ok ?k"
    using kernel_okD(2)[OF ok] by (subst timers_ok_cong[of _ k]) (simp_all add: link_at_def)
  ultimately show ?thesis by (simp add: kernel_ok_def sched_ok_but_def)
qed

lemma wait_link_ok:
  assumes "kernel_ok k" and "thread_stat k t = RT_THREAD_SUSPEND" and "on_list k t = None"
    and "wait_list (Some q)" and "tlists k q = us @ vs"
  shows "kernel_ok (link_at q us t vs k)"
  using kernel_okD(5)[OF assms(1), of t] assms by (intro link_ok) (auto simp: thread_ok_def)

lemma thread_timer_start_ok:
  assumes ok: "kernel_ok k" and st: "thread_stat k t = RT_THREAD_SUSPEND"
    and init: "tm_init_tick (timers k (ThreadTimer t)) < TICK_HALF"
  shows "\<exists>k'. rt_timer_start (ThreadTimer t) k = Some k' \<and> kernel_ok k' \<and> thread_frame k k' \<and>
     threads k' = threads k \<and> tlists k' = tlists k \<and> on_list k' = on_list k \<and>
     ThreadTimer t \<in> set (rt_timer_list k') \<and>
     tm_timeout_tick (timers k' (ThreadTimer t)) = rt_tick k + tm_init_tick (timers k (ThreadTimer t))"
proof -
  from timer_start_core_timers_ok[OF kernel_okD(2)[OF ok] init] st
  obtain k' where k': "timer_start_core (ThreadTimer t) k = Some k'" "timers_ok k'" by auto
  have ns: "\<not> timer_soft k (ThreadTimer t)"
    using kernel_okD(3)[OF ok] st by (auto simp: timers_base_def thread_timer_ok_def)
  from timer_start_core_eq[OF init] k'(1)
  have e: "timers k' = (timers k)(ThreadTimer t := (timers k (ThreadTimer t))\<lparr>tm_timeout_tick := rt_tick k + tm_init_tick (timers k (ThreadTimer t))\<rparr>)"
    "ThreadTimer t \<in> set (rt_timer_list k')" "\<not> timer_soft k' (ThreadTimer t)"
    using ns by auto
  note fr = timer_start_core_frame[OF k'(1)]
  have same: "threads k' = threads k" "tlists k' = tlists k" "on_list k' = on_list k"
    "rt_thread_ready_priority_group k' = rt_thread_ready_priority_group k"
    by (subst fr, simp)+
  have "sched_ok k'" using kernel_okD(1)[OF ok] by (subst sched_ok_cong[of _ _ k]) (simp_all add: same)
  with k' e same thread_frame_start_core[OF k'(1)] show ?thesis
    by (intro exI[of _ k']) (simp add: rt_timer_start_def kernel_ok_def)
qed

lemma set_time_ok:
  assumes "kernel_ok k"
  shows "kernel_ok (upd_timer i (\<lambda>tm. tm\<lparr>tm_init_tick := x\<rparr>) k)"
proof -
  let ?k = "upd_timer i (\<lambda>tm. tm\<lparr>tm_init_tick := x\<rparr>) k"
  have f: "tm_timeout_tick (timers ?k j) = tm_timeout_tick (timers k j)"
    "tm_timeout_func (timers ?k j) = tm_timeout_func (timers k j)" for j by (simp_all add: upd_timer_def)
  have l: "rt_timer_list ?k = rt_timer_list k" "rt_soft_timer_list ?k = rt_soft_timer_list k" "threads ?k = threads k"
    "rt_tick ?k = rt_tick k"
    by (simp_all add: upd_timer_def)
  have "timer_active ?k = timer_active k" "timer_soft ?k = timer_soft k" "timer_periodic ?k = timer_periodic k"
    by (rule timer_flag_frame; simp add: upd_timer_def)+
  then have "timers_ok ?k \<longleftrightarrow> timers_ok k"
    unfolding timers_ok_def timers_base_def thread_timer_ok_def timer_order_def f l by simp
  then show ?thesis using assms by (simp add: kernel_ok_def)
qed

section \<open>Scheduling\<close>

text \<open>A kernel in which some thread is ready, for instance the idle thread, can always switch.\<close>

definition someone_ready :: "kernel \<Rightarrow> bool" where
  "someone_ready k \<longleftrightarrow> (\<exists>p. tlists k (ReadyQ p) \<noteq> [])"

lemma ready_listed:
  assumes "sched_ok k" and "thread_stat k t = RT_THREAD_READY"
  shows "t \<in> set (tlists k (ReadyQ (thread_prio k t)))" and "someone_ready k"
proof -
  have "on_list k t = Some (ReadyQ (thread_prio k t))"
    using sched_okD(3)[OF assms(1), of t] assms(2) by (simp add: thread_ok_def)
  then show *: "t \<in> set (tlists k (ReadyQ (thread_prio k t)))"
    using lists_ok_mem[OF sched_okD(1)[OF assms(1)]] by simp
  then have "tlists k (ReadyQ (thread_prio k t)) \<noteq> []" by auto
  then show "someone_ready k" unfolding someone_ready_def by blast
qed

lemma schedule_total:
  assumes ok: "sched_ok k" and ready: "someone_ready k" and unlocked: "rt_scheduler_lock_nest k = 0"
  shows "\<exists>k' t ts p. rt_schedule k = Some k' \<and> rt_current_thread k' = Some t \<and> p < 32 \<and>
     tlists k (ReadyQ p) = t # ts \<and> (\<forall>j < p. tlists k (ReadyQ j) = []) \<and>
     thread_stat k t = RT_THREAD_READY \<and> thread_prio k t = p"
proof -
  from ready obtain r where "tlists k (ReadyQ r) \<noteq> []" by (auto simp: someone_ready_def)
  from highest_ready_spec[OF ok this] obtain p t ts where
    h: "highest_ready k = Some (p, t)" "p < 32" "on_list k t = Some (ReadyQ p)"
      "tlists k (ReadyQ p) = t # ts" "\<forall>j < p. tlists k (ReadyQ j) = []"
    by blast
  have "thread_ok (threads k t) (Some (ReadyQ p))" using sched_okD(3)[OF ok, of t] h(3) by simp
  note r = thread_ok_ready_list[OF this]
  then have "rt_scheduler_stack_check (threads k t)" by (simp add: prio_ok_def)
  with h r unlocked show ?thesis by (auto simp: rt_schedule_def)
qed

lemma schedule_defined:
  assumes "sched_ok k" and "someone_ready k"
  shows "\<exists>k'. rt_schedule k = Some k'"
proof (cases "rt_scheduler_lock_nest k = 0")
  case True
  then show ?thesis using schedule_total[OF assms] by blast
qed (simp add: rt_schedule_def)

lemma schedule_kernel_ok:
  assumes "rt_schedule k = Some k'"
  shows "kernel_ok k' = kernel_ok k"
proof -
  note fr = schedule_frame[OF assms]
  have same: "rt_timer_list k' = rt_timer_list k" "rt_soft_timer_list k' = rt_soft_timer_list k" "timers k' = timers k"
    "objs k' = objs k" "threads k' = threads k" "rt_tick k' = rt_tick k" "on_list k' = on_list k" "tlists k' = tlists k"
    "rt_thread_ready_priority_group k' = rt_thread_ready_priority_group k"
    by (subst fr, simp)+
  have "sched_ok k' = sched_ok k" by (rule sched_ok_cong) (simp_all add: same)
  moreover have "timers_ok k' = timers_ok k" by (rule timers_ok_cong) (simp_all add: same)
  ultimately show ?thesis by (simp add: kernel_ok_def)
qed

lemma schedule_sel:
  assumes "rt_schedule k = Some k'"
  shows "threads k' = threads k" "tlists k' = tlists k" "on_list k' = on_list k" "timers k' = timers k"
    "objs k' = objs k" "rt_tick k' = rt_tick k" "sems k' = sems k" "mutexes k' = mutexes k" "events k' = events k"
    "mailboxes k' = mailboxes k" "mqueues k' = mqueues k" "rt_timer_list k' = rt_timer_list k"
    "rt_soft_timer_list k' = rt_soft_timer_list k" "rt_interrupt_nest k' = rt_interrupt_nest k"
    "rt_scheduler_lock_nest k' = rt_scheduler_lock_nest k"
  by (subst schedule_frame[OF assms], simp)+

section \<open>Timeout, yield and sleep\<close>

lemma timeout_ok:
  assumes s: "sched_ok k" and tb: "timers_base k" and st: "thread_stat k t = RT_THREAD_SUSPEND"
    and nl: "\<not> timer_linked k (ThreadTimer t)"
  shows "\<exists>k'. rt_thread_timeout t k = Some k' \<and> sched_ok k' \<and> timers_base k' \<and>
     (\<forall>b m. timer_order b m k' = timer_order b m k) \<and> rt_tick k' = rt_tick k \<and>
     timers k' = timers k \<and> objs k' = objs k \<and> rt_timer_list k' = rt_timer_list k \<and>
     threads k' = (threads k)(t := threads k' t) \<and>
     thread_stat k' t = RT_THREAD_READY \<and> th_error (threads k' t) = RT_ETIMEOUT \<and> someone_ready k'"
proof -
  define k1 where "k1 = upd_thread t (\<lambda>th. th\<lparr>th_error := RT_ETIMEOUT\<rparr>) k"
  define k2 where "k2 = unlink_thread t k1"
  have k2e: "threads k2 = (threads k)(t := (threads k t)\<lparr>th_error := RT_ETIMEOUT\<rparr>)" "timers k2 = timers k"
    "objs k2 = objs k" "rt_timer_list k2 = rt_timer_list k" "rt_soft_timer_list k2 = rt_soft_timer_list k"
    "rt_tick k2 = rt_tick k"
    by (simp_all add: k2_def k1_def unlink_thread_def upd_thread_def split: option.split)
  have s1: "sched_ok k1" unfolding k1_def using s by (subst sched_ok_upd_thread) simp_all
  have st1: "thread_stat k1 t = RT_THREAD_SUSPEND" using st by (simp add: k1_def upd_thread_def)
  have s2: "sched_ok k2" unfolding k2_def by (rule unlink_sched_ok[OF s1 st1])
  have d2: "on_list k2 t = None" by (simp add: k2_def unlink_on_list)
  have st2: "thread_stat k2 t = RT_THREAD_SUSPEND" using st by (simp add: k2e)
  have tb2: "timers_base k2" using tb by (subst timers_base_cong[of k2 k]) (simp_all add: k2e)
  have to2: "timer_order b m k2 = timer_order b m k" for b m by (rule timer_order_cong) (simp_all add: k2e)
  have nl2: "\<not> timer_linked k2 (ThreadTimer t)" using nl by (simp add: timer_linked_def k2e)
  from make_ready_ok[OF s2 st2 d2 tb2 nl2] obtain k3 where
    k3: "rt_schedule_insert_thread t k2 = Some k3" "sched_ok k3" "timers_base k3"
      "\<forall>b m. timer_order b m k3 = timer_order b m k2" "thread_frame k2 k3" "thread_stat k3 t = RT_THREAD_READY"
      "timers k3 = timers k2" "objs k3 = objs k2" "rt_timer_list k3 = rt_timer_list k2"
      "threads k3 = (threads k2)(t := (threads k2 t)\<lparr>th_stat := RT_THREAD_READY OR (th_stat (threads k2 t) AND NOT RT_THREAD_STAT_MASK)\<rparr>)"
    by blast
  have sr: "someone_ready k3" using ready_listed(2)[OF k3(2,6)] .
  from schedule_defined[OF k3(2) sr] obtain k' where k': "rt_schedule k3 = Some k'" ..
  have "rt_thread_timeout t k = Some k'"
    using st k3(1) k' by (simp add: rt_thread_timeout_def tlist_remove_def k1_def[symmetric] k2_def[symmetric])
  moreover have "sched_ok k'" using k' k3(2) by (rule schedule_ok)
  moreover have "timers_base k'"
    using k3(3) by (subst timers_base_cong[of k' k3]) (simp_all add: schedule_sel[OF k'])
  moreover have "timer_order b m k' = timer_order b m k" for b m
    using k3(4) to2 timer_order_cong[of k' k3] by (simp add: schedule_sel[OF k'])
  moreover have "rt_tick k' = rt_tick k" using thread_frameD(1)[OF k3(5)] by (simp add: schedule_sel[OF k'] k2e)
  ultimately show ?thesis using k3 sr
    by (intro exI[of _ k']) (auto simp: schedule_sel[OF k'] k2e someone_ready_def)
qed

lemma yield_ok:
  assumes so: "sched_ok k" and cur: "rt_current_thread k = Some t"
    and st: "thread_stat k t = RT_THREAD_READY"
  shows "\<exists>k'. rt_thread_yield k = Some k' \<and> sched_ok k' \<and> threads k' = threads k \<and> timers k' = timers k \<and>
     objs k' = objs k \<and> rt_timer_list k' = rt_timer_list k \<and> rt_tick k' = rt_tick k \<and>
     rt_soft_timer_list k' = rt_soft_timer_list k \<and>
     tlists k' = (tlists k)(ReadyQ (thread_prio k t) := remove1 t (tlists k (ReadyQ (thread_prio k t))) @ [t]) \<and>
     (2 \<le> length (tlists k (ReadyQ (thread_prio k t))) \<longrightarrow>
        (\<exists>k2. rt_schedule k2 = Some k' \<and> sched_ok k2 \<and> tlists k2 = tlists k' \<and> threads k2 = threads k \<and>
              rt_scheduler_lock_nest k2 = rt_scheduler_lock_nest k))"
proof -
  let ?q = "ReadyQ (thread_prio k t)"
  note lo = sched_okD(1)[OF so]
  have on: "on_list k t = Some ?q" using sched_okD(3)[OF so, of t] st by (simp add: thread_ok_def)
  have mem: "t \<in> set (tlists k ?q)" using on lo by (simp add: lists_ok_mem)
  show ?thesis
  proof (cases "2 \<le> length (tlists k ?q)")
    case True
    define k1 where "k1 = unlink_thread t k"
    define k2 where "k2 = link_tail ?q t k1"
    have k1: "threads k1 = threads k" "on_list k1 t = None" "lists_ok k1" "\<And>q. tlists k1 q = remove1 t (tlists k q)"
      using lo by (auto simp: k1_def unlink_on_list lists_ok_unlink unlink_tlists) (simp add: unlink_thread_def split: option.split)
    have tl2: "tlists k2 = (tlists k)(?q := remove1 t (tlists k ?q) @ [t])"
    proof
      fix q show "tlists k2 q = ((tlists k)(?q := remove1 t (tlists k ?q) @ [t])) q"
        using k1(4)[of q] lists_ok_mem[OF lo, of t q] on
        by (auto simp: k2_def link_tail_def k1(4) intro: remove1_idem)
    qed
    have fr: "threads k2 = threads k" "timers k2 = timers k" "objs k2 = objs k" "rt_timer_list k2 = rt_timer_list k"
      "rt_soft_timer_list k2 = rt_soft_timer_list k" "rt_tick k2 = rt_tick k"
      "rt_thread_ready_priority_group k2 = rt_thread_ready_priority_group k" "on_list k2 = on_list k"
      "rt_scheduler_lock_nest k2 = rt_scheduler_lock_nest k"
      using on by (auto simp: k2_def k1_def link_tail_def unlink_thread_def)
    have "lists_ok k2" unfolding k2_def using k1(3,2) by (rule lists_ok_link_tail)
    moreover have "group_ok k2"
      using sched_okD(2)[OF so] mem by (auto simp: group_ok_def fr tl2)
    ultimately have s2: "sched_ok k2" using so by (auto simp: sched_ok_but_def fr)
    have "someone_ready k2" using ready_listed(2)[OF s2, of t] st by (simp add: fr)
    from schedule_defined[OF s2 this] obtain k' where k': "rt_schedule k2 = Some k'" ..
    have "rt_thread_yield k = Some k'"
      using cur st on True k1(2) k'
      by (simp add: rt_thread_yield_def tlist_remove_def tlist_insert_before_def k1_def[symmetric] k1(1) k2_def[symmetric])
    with schedule_ok[OF k' s2] k' s2 show ?thesis
      by (intro exI[of _ k'] conjI impI exI[of _ k2]) (simp_all add: schedule_sel[OF k'] fr tl2)
  next
    case False
    then have "tlists k ?q = [t]" using mem by (cases "tlists k ?q"; cases "tl (tlists k ?q)") auto
    with False cur on so show ?thesis by (simp add: rt_thread_yield_def fun_upd_idem)
  qed
qed

text \<open>Sleeping is suspending, arming the thread's own timer and switching.\<close>

lemma sleep_frame:
  assumes ok: "kernel_ok k" and cur: "rt_current_thread k = Some t" and st: "thread_stat k t = RT_THREAD_READY"
    and idle: "thread_stat k i = RT_THREAD_READY" "i \<noteq> t" and tick: "tick < TICK_HALF"
  shows "\<exists>k'. rt_thread_sleep tick k = Some k' \<and> kernel_ok k' \<and> thread_stat k' t = RT_THREAD_SUSPEND \<and>
     ThreadTimer t \<in> set (rt_timer_list k') \<and> tm_timeout_tick (timers k' (ThreadTimer t)) = rt_tick k + tick \<and>
     (rt_scheduler_lock_nest k = 0 \<longrightarrow> rt_current_thread k' \<noteq> Some t) \<and>
     (\<forall>u. u \<noteq> t \<longrightarrow> threads k' u = threads k u)"
proof -
  from suspend_ok[OF ok st] obtain k1 where
    k1: "rt_thread_suspend t k = Some (RT_EOK, k1)" "kernel_ok k1" "thread_frame k k1"
      "thread_stat k1 t = RT_THREAD_SUSPEND"
      "threads k1 = (threads k)(t := (threads k t)\<lparr>th_stat := RT_THREAD_SUSPEND OR (th_stat (threads k t) AND NOT RT_THREAD_STAT_MASK)\<rparr>)"
    by blast
  define k2 where "k2 = upd_timer (ThreadTimer t) (\<lambda>tm. tm\<lparr>tm_init_tick := tick\<rparr>) k1"
  have k2: "kernel_ok k2" unfolding k2_def by (rule set_time_ok[OF k1(2)])
  have e2: "threads k2 = threads k1" "tm_init_tick (timers k2 (ThreadTimer t)) = tick" "rt_tick k2 = rt_tick k"
    "rt_scheduler_lock_nest k2 = rt_scheduler_lock_nest k"
    using thread_frameD[OF k1(3)] by (simp_all add: k2_def upd_timer_def)
  from thread_timer_start_ok[OF k2, of t] k1(4) tick obtain k3 where
    k3: "rt_timer_start (ThreadTimer t) k2 = Some k3" "kernel_ok k3" "thread_frame k2 k3" "threads k3 = threads k2"
      "ThreadTimer t \<in> set (rt_timer_list k3)" "tm_timeout_tick (timers k3 (ThreadTimer t)) = rt_tick k + tick"
    by (auto simp: e2)
  note so = kernel_okD(1)[OF k3(2)]
  have "thread_stat k3 i = RT_THREAD_READY" using idle by (simp add: k3(4) e2(1) k1(5))
  then have sr: "someone_ready k3" using ready_listed(2)[OF so] by simp
  from schedule_defined[OF so sr] obtain k' where k': "rt_schedule k3 = Some k'" ..
  have "rt_current_thread k' \<noteq> Some t" if "rt_scheduler_lock_nest k = 0"
    using schedule_total[OF so sr] that thread_frameD(5)[OF k3(3)] k' k1(4) by (auto simp: e2 k3(4))
  then show ?thesis
    using k1(1,4) k3 k' cur schedule_kernel_ok[OF k']
    by (intro exI[of _ k'])
       (simp add: rt_thread_sleep_def rt_timer_control_def k2_def[symmetric] schedule_sel[OF k'] e2(1) k1(5))
qed

lemma sleep_ok:
  assumes "kernel_ok k" and "rt_current_thread k = Some t" and "thread_stat k t = RT_THREAD_READY"
    and "thread_stat k i = RT_THREAD_READY" "i \<noteq> t" and "tick < TICK_HALF"
  shows "\<exists>k'. rt_thread_sleep tick k = Some k' \<and> kernel_ok k' \<and> thread_stat k' t = RT_THREAD_SUSPEND \<and>
     ThreadTimer t \<in> set (rt_timer_list k') \<and> tm_timeout_tick (timers k' (ThreadTimer t)) = rt_tick k + tick \<and>
     (rt_scheduler_lock_nest k = 0 \<longrightarrow> rt_current_thread k' \<noteq> Some t)"
  using sleep_frame[OF assms] by blast

section \<open>The life of a thread\<close>

text \<open>What rt_thread_init establishes and rt_thread_startup needs.\<close>

definition startable :: "kernel \<Rightarrow> tid \<Rightarrow> bool" where
  "startable k t \<longleftrightarrow> thread_stat k t = RT_THREAD_INIT \<and> on_list k t = None \<and> thread_timer_ok k t \<and>
     \<not> timer_linked k (ThreadTimer t) \<and> rt_scheduler_stack_check (threads k t) \<and>
     unat (th_init_priority (threads k t)) < RT_THREAD_PRIORITY_MAX"

lemma set_detached_thread_ok:
  assumes ok: "kernel_ok k" and d: "on_list k t = None" and th: "thread_ok th None"
    and nl: "\<not> timer_linked k (ThreadTimer t)"
    and tt: "th_stat th AND RT_THREAD_STAT_MASK = RT_THREAD_READY \<or> th_stat th AND RT_THREAD_STAT_MASK = RT_THREAD_SUSPEND
           \<Longrightarrow> thread_timer_ok k t"
  shows "kernel_ok (k\<lparr>threads := (threads k)(t := th)\<rparr>)"
proof -
  let ?k = "k\<lparr>threads := (threads k)(t := th)\<rparr>"
  have "sched_ok ?k"
    using kernel_okD(1)[OF ok] d th by (auto simp: sched_ok_but_def lists_ok_def group_ok_def)
  moreover have "timers_base ?k"
    using kernel_okD(3)[OF ok] nl tt by (intro timers_base_stat) (auto simp: timer_linked_def)
  ultimately show ?thesis using kernel_okD(2)[OF ok] by (simp add: kernel_ok_def timers_ok_def timer_order_def)
qed

lemma startup_ok:
  assumes ok: "kernel_ok k" and st: "startable k t"
  shows "\<exists>k'. rt_thread_startup t k = Some k' \<and> kernel_ok k' \<and> thread_stat k' t = RT_THREAD_READY \<and>
     tlists k' (ReadyQ (unat (th_init_priority (threads k t)))) =
       tlists k (ReadyQ (unat (th_init_priority (threads k t)))) @ [t] \<and>
     th_current_priority (threads k' t) = th_init_priority (threads k t)"
proof -
  let ?p = "th_init_priority (threads k t)"
  define th where "th = (threads k t)\<lparr>th_current_priority := ?p, th_number_mask := push_bit (unat ?p) 1,
    th_stat := RT_THREAD_SUSPEND\<rparr>"
  define k1 where "k1 = k\<lparr>threads := (threads k)(t := th)\<rparr>"
  have p: "unat ?p < 32" and nl: "\<not> timer_linked k (ThreadTimer t)" and d: "on_list k t = None"
    and sc: "rt_scheduler_stack_check (threads k t)" and init: "thread_stat k t = RT_THREAD_INIT"
    and tt: "thread_timer_ok k t"
    using st by (auto simp: startable_def)
  have "thread_ok th None"
    using p sc by (simp add: thread_ok_def th_def prio_ok_def rt_scheduler_stack_check_def)
  then have k1: "kernel_ok k1" unfolding k1_def using nl tt by (intro set_detached_thread_ok[OF ok d]) auto
  have e1: "threads k1 t = th" "thread_stat k1 t = RT_THREAD_SUSPEND" "thread_prio k1 t = unat ?p" "tlists k1 = tlists k"
    by (simp_all add: k1_def th_def)
  from resume_ok[OF k1 e1(2)] obtain k2 where
    k2: "rt_thread_resume t k1 = Some (RT_EOK, k2)" "kernel_ok k2" "thread_stat k2 t = RT_THREAD_READY"
      and th2: "threads k2 = (threads k1)(t := (threads k1 t)\<lparr>th_stat := RT_THREAD_READY OR (th_stat (threads k1 t) AND NOT RT_THREAD_STAT_MASK)\<rparr>)"
      and tl2: "tlists k2 = (\<lambda>q. remove1 t (tlists k1 q))(ReadyQ (thread_prio k1 t) := tlists k1 (ReadyQ (thread_prio k1 t)) @ [t])"
    by blast
  have p2: "th_current_priority (threads k2 t) = ?p" by (simp add: th2 e1(1) th_def)
  have q2: "tlists k2 (ReadyQ (unat ?p)) = tlists k (ReadyQ (unat ?p)) @ [t]" by (simp add: tl2 e1(3,4))
  have k1u: "set_stat t RT_THREAD_SUSPEND (upd_thread t (\<lambda>th. th\<lparr>th_current_priority := th_init_priority th,
      th_number_mask := push_bit (unat (th_init_priority th)) 1\<rparr>) k) = k1"
    by (simp add: upd_thread_def k1_def th_def)
  have eq: "rt_thread_startup t k = (if rt_thread_self k2 \<noteq> None then rt_schedule k2 else Some k2)"
  proof -
    have "\<not> (thread_stat k t \<noteq> RT_THREAD_INIT \<or> \<not> unat ?p < RT_THREAD_PRIORITY_MAX)" using init p by blast
    then show ?thesis
      unfolding rt_thread_startup_def Let_def k1u k2(1) by (simp only: if_False bind.bind_lunit prod.case)
  qed
  have "someone_ready k2" using ready_listed(2)[OF kernel_okD(1)[OF k2(2)] k2(3)] .
  from schedule_defined[OF kernel_okD(1)[OF k2(2)] this] obtain k3 where k3: "rt_schedule k2 = Some k3" ..
  show ?thesis
  proof (cases "rt_thread_self k2 = None")
    case True
    then show ?thesis using eq k2 p2 q2 by (intro exI[of _ k2]) simp
  next
    case False
    then show ?thesis using eq k2 p2 q2 k3 schedule_kernel_ok[OF k3]
      by (intro exI[of _ k3]) (simp add: schedule_sel[OF k3])
  qed
qed

text \<open>Leaving the scheduler: what rt_thread_exit, rt_thread_detach and rt_thread_delete share.\<close>

lemma timer_detach_ok:
  assumes "timers_base k"
  shows "timers_base (rt_timer_detach i k)" and "\<not> timer_linked (rt_timer_detach i k) i"
    and "timer_order b m k \<Longrightarrow> timer_order b m (rt_timer_detach i k)"
proof -
  have c: "timers_base (rt_timer_detach i k) = timers_base (timer_remove i k)"
    by (rule timers_base_cong) (simp_all add: rt_timer_detach_def rt_object_detach_def)
  show "timers_base (rt_timer_detach i k)" using timers_base_remove[OF assms] c by simp
  show "\<not> timer_linked (rt_timer_detach i k) i"
    using assms by (auto simp: rt_timer_detach_def rt_object_detach_def timer_linked_def timers_base_def)
  show "timer_order b m k \<Longrightarrow> timer_order b m (rt_timer_detach i k)"
    using timer_order_remove[of b m k i] timer_order_cong[of "rt_timer_detach i k" "timer_remove i k"]
    by (simp add: rt_timer_detach_def rt_object_detach_def)
qed

lemma close_ok:
  assumes ok: "kernel_ok k" and init: "thread_stat k t = RT_THREAD_INIT \<Longrightarrow> on_list k t = None"
  shows "\<exists>k1 k2. (if thread_stat k t \<noteq> RT_THREAD_INIT then rt_schedule_remove_thread t k else Some k) = Some k1 \<and>
     k2 = set_stat t RT_THREAD_CLOSE (rt_timer_detach (ThreadTimer t) k1) \<and>
     k2 = rt_timer_detach (ThreadTimer t) (set_stat t RT_THREAD_CLOSE k1) \<and>
     kernel_ok k2 \<and> on_list k2 t = None \<and> \<not> timer_linked k2 (ThreadTimer t) \<and>
     threads k2 = (threads k)(t := (threads k t)\<lparr>th_stat := RT_THREAD_CLOSE\<rparr>) \<and>
     (\<forall>q. tlists k2 q = remove1 t (tlists k q))"
proof -
  note tk = kernel_okD(5)[OF ok, of t] and lo = kernel_okD(4)[OF ok]
  have "\<exists>k1. (if thread_stat k t \<noteq> RT_THREAD_INIT then rt_schedule_remove_thread t k else Some k) = Some k1 \<and>
     sched_ok_but {t} k1 \<and> on_list k1 t = None \<and>
     k1 = k\<lparr>tlists := tlists k1, on_list := on_list k1,
                  rt_thread_ready_priority_group := rt_thread_ready_priority_group k1\<rparr> \<and>
     (\<forall>q. tlists k1 q = remove1 t (tlists k q))"
  proof (cases "thread_stat k t = RT_THREAD_INIT")
    case True
    then have "on_list k t = None" by (rule init)
    moreover have "remove1 t (tlists k q) = tlists k q" for q
      using \<open>on_list k t = None\<close> lists_ok_mem[OF lo, of t q] by (auto intro: remove1_idem)
    ultimately show ?thesis using True sched_ok_but_mono[OF kernel_okD(1)[OF ok]] by (intro exI[of _ k]) auto
  next
    case False
    have "p = thread_prio k t \<and> prio_ok (threads k t)" if "on_list k t = Some (ReadyQ p)" for p
      using tk that thread_ok_ready_list(2,3) by metis
    from remove_thread_ok[OF sched_ok_but_mono[OF kernel_okD(1)[OF ok]] thread_mask_ok[OF tk] this]
    obtain k1 where "rt_schedule_remove_thread t k = Some k1" "sched_ok_but {t} k1" "on_list k1 t = None"
      and fr: "k1 = k\<lparr>tlists := tlists k1, on_list := (on_list k)(t := None),
                  rt_thread_ready_priority_group := rt_thread_ready_priority_group k1\<rparr>"
      and "\<forall>q. tlists k1 q = remove1 t (tlists k q)" by blast
    moreover have on: "on_list k1 = (on_list k)(t := None)" by (subst fr) simp
    moreover note fr[folded on]
    ultimately show ?thesis using False by (intro exI[of _ k1]) simp
  qed
  then obtain k1 where k1: "(if thread_stat k t \<noteq> RT_THREAD_INIT then rt_schedule_remove_thread t k else Some k) = Some k1"
     "sched_ok_but {t} k1" "on_list k1 t = None"
     and fr: "k1 = k\<lparr>tlists := tlists k1, on_list := on_list k1,
                  rt_thread_ready_priority_group := rt_thread_ready_priority_group k1\<rparr>"
     and tl: "\<forall>q. tlists k1 q = remove1 t (tlists k q)" by blast
  have same: "threads k1 = threads k" "timers k1 = timers k" "objs k1 = objs k" "rt_tick k1 = rt_tick k"
    "rt_timer_list k1 = rt_timer_list k" "rt_soft_timer_list k1 = rt_soft_timer_list k"
    by (subst fr, simp)+
  let ?th = "(threads k t)\<lparr>th_stat := RT_THREAD_CLOSE\<rparr>"
  define k2 where "k2 = rt_timer_detach (ThreadTimer t) k1"
  have tb: "timers_base k1" using kernel_okD(3)[OF ok] by (subst timers_base_cong[of k1 k]) (simp_all add: same)
  have to: "timer_order (rt_tick k) 0x7ffffffe k1"
    using kernel_okD(2)[OF ok] by (subst timer_order_cong[of k1 k]) (simp_all add: same timers_ok_def)
  note k2f = timer_detach_ok[OF tb, where i = "ThreadTimer t", folded k2_def]
  have e2: "threads k2 = threads k" "on_list k2 = on_list k1" "tlists k2 = tlists k1" "rt_tick k2 = rt_tick k"
    "rt_thread_ready_priority_group k2 = rt_thread_ready_priority_group k1"
    by (simp_all add: k2_def rt_timer_detach_def rt_object_detach_def timer_remove_def same)
  let ?k3 = "k2\<lparr>threads := (threads k2)(t := ?th)\<rparr>"
  have "sched_ok_but {t} k2" using k1(2) by (simp add: k2_def rt_timer_detach_def)
  then have "sched_ok ?k3" using k1(3) thread_mask_ok[OF tk]
    by (auto simp: sched_ok_but_def lists_ok_def group_ok_def e2 thread_ok_def)
  moreover have "timers_base ?k3" using k2f(1,2) by (intro timers_base_stat) (auto simp: timer_linked_def)
  ultimately have "kernel_ok ?k3" using k2f(3)[OF to] by (simp add: kernel_ok_def timers_ok_def timer_order_def e2)
  moreover have "set_stat t RT_THREAD_CLOSE k2 = ?k3" by (simp add: upd_thread_def e2)
  moreover have "rt_timer_detach (ThreadTimer t) (set_stat t RT_THREAD_CLOSE k1) = ?k3"
    by (simp add: upd_thread_def k2_def rt_timer_detach_def rt_object_detach_def timer_remove_def same)
  moreover have "\<not> timer_linked ?k3 (ThreadTimer t)" using k2f(2) by (simp add: timer_linked_def)
  ultimately show ?thesis using k1(1,3) tl
    by (intro exI[of _ k1] exI[of _ ?k3]) (simp add: k2_def[symmetric] e2)
qed

lemma object_detach_kernel_ok [simp]: "kernel_ok (rt_object_detach ob k) = kernel_ok k"
proof -
  have "timers_ok (rt_object_detach ob k) = timers_ok k"
    by (rule timers_ok_cong) (simp_all add: rt_object_detach_def)
  then show ?thesis by (simp add: kernel_ok_def)
qed

lemma closed_defunct_ok:
  assumes "kernel_ok k" and "threads k t = th\<lparr>th_stat := RT_THREAD_CLOSE\<rparr>" and "on_list k t = None"
  shows "\<exists>k'. tlist_insert_after DefunctQ t k = Some k' \<and> kernel_ok k' \<and> threads k' = threads k \<and>
     k' = link_head DefunctQ t k"
proof -
  have "kernel_ok (link_at DefunctQ [] t (tlists k DefunctQ) k)"
    using kernel_okD(5)[OF assms(1), of t] assms by (intro link_ok) (auto simp: thread_ok_def)
  with assms(3) show ?thesis by (simp add: tlist_insert_after_def link_head_at) (simp add: link_at_def)
qed

lemma thread_delete_ok:
  assumes "kernel_ok k" and "thread_stat k t = RT_THREAD_INIT \<Longrightarrow> on_list k t = None"
  shows "\<exists>k'. rt_thread_delete t k = Some k' \<and> kernel_ok k' \<and> thread_stat k' t = RT_THREAD_CLOSE \<and>
     on_list k' t = Some DefunctQ \<and> \<not> timer_linked k' (ThreadTimer t)"
proof -
  from close_ok[OF assms] obtain k1 k2 where
    k1: "(if thread_stat k t \<noteq> RT_THREAD_INIT then rt_schedule_remove_thread t k else Some k) = Some k1"
    and k2: "k2 = set_stat t RT_THREAD_CLOSE (rt_timer_detach (ThreadTimer t) k1)" "kernel_ok k2" "on_list k2 t = None"
      "\<not> timer_linked k2 (ThreadTimer t)" "threads k2 = (threads k)(t := (threads k t)\<lparr>th_stat := RT_THREAD_CLOSE\<rparr>)"
    by blast
  have th: "threads k2 t = (threads k t)\<lparr>th_stat := RT_THREAD_CLOSE\<rparr>" by (simp add: k2(5))
  from closed_defunct_ok[OF k2(2) th k2(3)] obtain k' where
    k': "tlist_insert_after DefunctQ t k2 = Some k'" "kernel_ok k'" "threads k' = threads k2" "k' = link_head DefunctQ t k2"
    by blast
  have "rt_thread_delete t k = Some k'"
    unfolding rt_thread_delete_def k1 Let_def using k'(1) by (simp add: k2(1)[symmetric])
  with k' k2(4) th show ?thesis by (intro exI[of _ k']) (simp add: link_head_def timer_linked_def)
qed

lemma thread_exit_ok:
  assumes ok: "kernel_ok k" and cur: "rt_current_thread k = Some t" and st: "thread_stat k t = RT_THREAD_READY"
    and idle: "thread_stat k i = RT_THREAD_READY" "i \<noteq> t"
  shows "\<exists>k'. rt_thread_exit k = Some k' \<and> kernel_ok k' \<and> thread_stat k' t = RT_THREAD_CLOSE \<and>
     \<not> timer_linked k' (ThreadTimer t) \<and>
     (rt_object_is_systemobject (ObjThread t) k \<and> \<not> th_cleanup (threads k t) \<longrightarrow> on_list k' t = None) \<and>
     (\<not> (rt_object_is_systemobject (ObjThread t) k \<and> \<not> th_cleanup (threads k t)) \<longrightarrow> on_list k' t = Some DefunctQ) \<and>
     (rt_scheduler_lock_nest k = 0 \<longrightarrow> rt_current_thread k' \<noteq> Some t)"
proof -
  from close_ok[OF ok, of t] st obtain k1 k2 where
    k1: "rt_schedule_remove_thread t k = Some k1"
    and k2: "k2 = rt_timer_detach (ThreadTimer t) (set_stat t RT_THREAD_CLOSE k1)" "kernel_ok k2" "on_list k2 t = None"
      "\<not> timer_linked k2 (ThreadTimer t)" "threads k2 = (threads k)(t := (threads k t)\<lparr>th_stat := RT_THREAD_CLOSE\<rparr>)"
    by auto
  have th: "threads k2 t = (threads k t)\<lparr>th_stat := RT_THREAD_CLOSE\<rparr>" by (simp add: k2(5))
  from closed_defunct_ok[OF k2(2) th k2(3)] obtain kd where
    kd: "tlist_insert_after DefunctQ t k2 = Some kd" "kernel_ok kd" "threads kd = threads k2" "kd = link_head DefunctQ t k2"
    by blast
  let ?c = "rt_object_is_systemobject (ObjThread t) k \<and> \<not> th_cleanup (threads k t)"
  define k3 where "k3 = (if ?c then rt_object_detach (ObjThread t) k2 else kd)"
  have lk: "objs k1 = objs k" "rt_scheduler_lock_nest k1 = rt_scheduler_lock_nest k"
    using k1 by (auto simp: rt_schedule_remove_thread_def tlist_remove_def unlink_thread_def Let_def
        split: if_splits option.splits)
  have obj: "rt_object_is_systemobject (ObjThread t) k2 = rt_object_is_systemobject (ObjThread t) k"
    "rt_scheduler_lock_nest k2 = rt_scheduler_lock_nest k"
    using lk by (simp_all add: k2(1) rt_object_is_systemobject_def rt_timer_detach_def rt_object_detach_def timer_remove_def
        upd_thread_def)
  have k3: "kernel_ok k3" "threads k3 = threads k2" "rt_scheduler_lock_nest k3 = rt_scheduler_lock_nest k"
    "on_list k3 t = (if ?c then None else Some DefunctQ)" "\<not> timer_linked k3 (ThreadTimer t)"
    using k2(2,3,4) kd obj object_detach_kernel_ok[of "ObjThread t" k2]
    by (simp_all add: k3_def timer_linked_def split: if_split) (simp_all add: rt_object_detach_def link_head_def)
  have ri: "thread_stat k3 i = RT_THREAD_READY" using idle by (simp add: k3(2) k2(5))
  note so = kernel_okD(1)[OF k3(1)]
  note sr = ready_listed(2)[OF so ri]
  from schedule_defined[OF so sr] obtain k' where k': "rt_schedule k3 = Some k'" ..
  have "(if rt_object_is_systemobject (ObjThread t) k2 \<and> \<not> th_cleanup (threads k2 t)
               then Some (rt_object_detach (ObjThread t) k2)
               else tlist_insert_after DefunctQ t k2) = Some k3"
    using kd(1) by (simp add: k3_def obj th)
  then have "rt_thread_exit k = Some k'"
    unfolding rt_thread_exit_def Let_def cur bind.bind_lunit k1 k2(1)[symmetric] using k' by simp
  moreover have "rt_current_thread k' \<noteq> Some t" if "rt_scheduler_lock_nest k = 0"
    using schedule_total[OF so sr] that k' k3 th by (auto simp: th)
  ultimately show ?thesis using k3 k' th schedule_kernel_ok[OF k']
    by (intro exI[of _ k']) (simp add: schedule_sel[OF k'] timer_linked_def)
qed

lemma change_priority_ok:
  assumes ok: "kernel_ok k" and st: "thread_stat k t = RT_THREAD_READY" and p: "unat p < RT_THREAD_PRIORITY_MAX"
  shows "\<exists>k'. rt_thread_control t (RT_THREAD_CTRL_CHANGE_PRIORITY p) k = Some k' \<and> kernel_ok k' \<and>
     thread_frame k k' \<and> timers k' = timers k \<and> objs k' = objs k \<and>
     thread_stat k' t = RT_THREAD_READY \<and>
     threads k' = (threads k)(t := threads k' t) \<and> th_current_priority (threads k' t) = p \<and>
     th_error (threads k' t) = th_error (threads k t) \<and>
     tlists k' = (\<lambda>q. remove1 t (tlists k q))(ReadyQ (unat p) := remove1 t (tlists k (ReadyQ (unat p))) @ [t])"
proof -
  have tok: "prio_ok (threads k t)" "on_list k t = Some (ReadyQ (thread_prio k t))"
    using kernel_okD(5)[OF ok, of t] st by (simp_all add: thread_ok_def)
  from remove_thread_ok[OF sched_ok_but_mono[OF kernel_okD(1)[OF ok]] prio_mask_ok[OF tok(1)]] tok
  obtain k1 where k1: "rt_schedule_remove_thread t k = Some k1" "sched_ok_but {t} k1" "on_list k1 t = None"
    and fr: "k1 = k\<lparr>tlists := tlists k1, on_list := (on_list k)(t := None),
                  rt_thread_ready_priority_group := rt_thread_ready_priority_group k1\<rparr>"
    and tl: "\<forall>q. tlists k1 q = remove1 t (tlists k q)" by auto
  have same1: "threads k1 = threads k" "timers k1 = timers k" "objs k1 = objs k" "rt_tick k1 = rt_tick k"
    "rt_timer_list k1 = rt_timer_list k" "rt_soft_timer_list k1 = rt_soft_timer_list k"
    by (subst fr, simp)+
  define th where "th = (threads k t)\<lparr>th_current_priority := p, th_number_mask := push_bit (unat p) 1\<rparr>"
  define k2 where "k2 = k1\<lparr>threads := (threads k)(t := th)\<rparr>"
  have s2: "sched_ok_but {t} k2"
    using k1(2) by (auto simp: k2_def sched_ok_but_def lists_ok_def group_ok_def same1)
  have p2: "prio_ok (threads k2 t)" using tok(1) p
    by (simp add: k2_def th_def prio_ok_def rt_scheduler_stack_check_def)
  have d2: "on_list k2 t = None" using k1(3) by (simp add: k2_def)
  from insert_thread_ok[OF s2 d2 p2] obtain k' where k': "rt_schedule_insert_thread t k2 = Some k'" "sched_ok k'"
    "thread_stat k' t = RT_THREAD_READY"
    and fr2: "k' = k2\<lparr>threads := (threads k2)(t := threads k' t), tlists := tlists k', on_list := on_list k',
                  rt_thread_ready_priority_group := rt_thread_ready_priority_group k'\<rparr>"
    and th': "threads k' t = (threads k2 t)\<lparr>th_stat := RT_THREAD_READY OR (th_stat (threads k2 t) AND NOT RT_THREAD_STAT_MASK)\<rparr>"
    and tl': "tlists k' = (tlists k2)(ReadyQ (thread_prio k2 t) := tlists k2 (ReadyQ (thread_prio k2 t)) @ [t])"
    by blast
  have "rt_thread_control t (RT_THREAD_CTRL_CHANGE_PRIORITY p) k = Some k'"
    using st p k1(1) k'(1) by (simp add: rt_thread_control_def upd_thread_def k2_def th_def same1)
  moreover have same: "timers k' = timers k" "objs k' = objs k" "rt_tick k' = rt_tick k"
    "rt_timer_list k' = rt_timer_list k" "rt_soft_timer_list k' = rt_soft_timer_list k"
    by (subst fr2, simp add: k2_def same1)+
  moreover have thr: "threads k' u = (if u = t then threads k' t else threads k u)" for u
    by (subst fr2) (simp add: k2_def)
  moreover have "timers_ok k'"
  proof -
    have "thread_stat k' u = thread_stat k u" for u using thr[of u] st k'(3) by (cases "u = t") auto
    then show ?thesis using kernel_okD(2)[OF ok] by (subst timers_ok_cong[of k' k]) (simp_all add: same)
  qed
  moreover have "thread_frame k k'"
  proof (rule thread_frame_trans)
    show "thread_frame k k1" by (subst fr) (simp add: thread_frame_def)
    show "thread_frame k1 k'" by (subst fr2) (simp add: thread_frame_def k2_def)
  qed
  moreover have "threads k' = (threads k)(t := threads k' t)" by (rule ext) (subst thr, simp)
  moreover have "th_current_priority (threads k' t) = p" "th_error (threads k' t) = th_error (threads k t)"
    by (simp_all add: th' k2_def th_def)
  moreover have "tlists k' = (\<lambda>q. remove1 t (tlists k q))(ReadyQ (unat p) := remove1 t (tlists k (ReadyQ (unat p))) @ [t])"
    using tl by (auto simp: tl' k2_def th_def)
  ultimately show ?thesis using k'(2,3) unfolding kernel_ok_def by blast
qed

text \<open>Changing the priority of a thread that is ready or waits: its wait list stays as it is.\<close>

lemma control_priority_ok:
  assumes ok: "kernel_ok k" and st: "thread_stat k t = RT_THREAD_READY \<or> thread_stat k t = RT_THREAD_SUSPEND"
    and p: "unat p < RT_THREAD_PRIORITY_MAX"
  shows "\<exists>k'. rt_thread_control t (RT_THREAD_CTRL_CHANGE_PRIORITY p) k = Some k' \<and> kernel_ok k' \<and> thread_frame k k' \<and>
     thread_stat k' t = thread_stat k t \<and> th_current_priority (threads k' t) = p \<and>
     th_error (threads k' t) = th_error (threads k t) \<and>
     (\<forall>u. u \<noteq> t \<longrightarrow> threads k' u = threads k u) \<and> (\<forall>q. wait_list (Some q) \<longrightarrow> tlists k' q = tlists k q)"
proof (cases "thread_stat k t = RT_THREAD_READY")
  case True
  from change_priority_ok[OF ok True p] obtain k' where
    k': "rt_thread_control t (RT_THREAD_CTRL_CHANGE_PRIORITY p) k = Some k'" "kernel_ok k'" "thread_frame k k'"
     "thread_stat k' t = RT_THREAD_READY" and th: "threads k' = (threads k)(t := threads k' t)"
     and pe: "th_current_priority (threads k' t) = p" "th_error (threads k' t) = th_error (threads k t)"
     and tl: "tlists k' = (\<lambda>q. remove1 t (tlists k q))(ReadyQ (unat p) := remove1 t (tlists k (ReadyQ (unat p))) @ [t])"
    by blast
  have on: "on_list k t = Some (ReadyQ (thread_prio k t))"
    using kernel_okD(5)[OF ok, of t] True by (simp add: thread_ok_def)
  have "tlists k' q = tlists k q" if "wait_list (Some q)" for q
  proof -
    have "q \<noteq> ReadyQ r" for r using that by auto
    moreover from this have "t \<notin> set (tlists k q)" using lists_ok_mem[OF kernel_okD(4)[OF ok], of t q] on by auto
    ultimately show ?thesis by (simp add: tl remove1_idem)
  qed
  moreover have "threads k' u = threads k u" if "u \<noteq> t" for u using that by (subst th) simp
  ultimately show ?thesis using k' pe True by metis
next
  case False
  with st have sus: "thread_stat k t = RT_THREAD_SUSPEND" by simp
  define th where "th = (threads k t)\<lparr>th_current_priority := p, th_number_mask := push_bit (unat p) 1\<rparr>"
  define k' where "k' = k\<lparr>threads := (threads k)(t := th)\<rparr>"
  have tok: "prio_ok (threads k t)" "wait_list (on_list k t)"
    using kernel_okD(5)[OF ok, of t] sus by (simp_all add: thread_ok_def)
  then have "thread_ok th (on_list k t)"
    using sus p by (simp add: thread_ok_def th_def prio_ok_def rt_scheduler_stack_check_def)
  then have "sched_ok k'"
    using kernel_okD(1)[OF ok] by (auto simp: k'_def sched_ok_but_def lists_ok_def group_ok_def)
  moreover have "timers_ok k'"
    using kernel_okD(2)[OF ok] by (subst timers_ok_cong[of k' k]) (simp_all add: k'_def th_def)
  moreover have "rt_thread_control t (RT_THREAD_CTRL_CHANGE_PRIORITY p) k = Some k'"
    using False p by (simp add: rt_thread_control_def upd_thread_def k'_def th_def)
  moreover have "thread_frame k k'" by (simp add: k'_def thread_frame_def)
  ultimately show ?thesis by (intro exI[of _ k']) (simp add: kernel_ok_def k'_def th_def)
qed

section \<open>Initialising a thread\<close>

lemma object_init_kernel_ok:
  assumes "rt_object_init ob name k = Some k'"
  shows "kernel_ok k' = kernel_ok k"
proof -
  note fr = object_init_frame[OF assms]
  have same: "rt_timer_list k' = rt_timer_list k" "rt_soft_timer_list k' = rt_soft_timer_list k" "timers k' = timers k"
    "threads k' = threads k" "rt_tick k' = rt_tick k"
    by (subst fr, simp)+
  have fl: "timer_flag k' i = timer_flag k i" for i
    using assms by (auto simp: rt_object_init_def upd_obj_def Let_def split: if_splits)
  have "timers_ok k' = timers_ok k" by (rule timers_ok_cong) (simp_all add: same fl)
  moreover have "sched_ok k' = sched_ok k" by (subst fr) simp
  ultimately show ?thesis by (simp add: kernel_ok_def)
qed

text \<open>A stack of at least 72 bytes holds the initial frame and leaves the mark below it.\<close>

lemma stack_init_bounds:
  fixes entry param texit :: u32
  assumes "unat start + unat sz < 2 ^ 32" and "72 \<le> unat sz"
    and sp_def: "sp = fst (rt_hw_stack_init entry param (start + sz - 4) texit)"
  shows "start < sp" and "sp \<le> start + sz"
proof -
  let ?top = "RT_ALIGN_DOWN (start + sz) 8"
  have sp: "sp = ?top - 64" by (simp add: sp_def rt_hw_stack_init_def Let_def)
  have ss: "unat (start + sz) = unat start + unat sz" using assms(1) by (subst unat_add_lem[THEN iffD1]) simp_all
  have t: "unat ?top = unat start + unat sz - (unat start + unat sz) mod 8"
    using align_down_unat[of 8 3 "start + sz"] ss by simp
  have "(64 :: u32) \<le> ?top" using t assms(2) by (simp add: word_le_nat_alt)
  then have u: "unat sp = unat ?top - 64" unfolding sp by (simp add: unat_sub)
  have "(unat start + unat sz) mod 8 < 8" by simp
  then show "start < sp" "sp \<le> start + sz"
    using u t assms(2) ss by (auto simp: word_less_nat_alt word_le_nat_alt)
qed

lemma thread_init_core_ok:
  assumes ok: "kernel_ok k" and d: "on_list k t = None" and nl: "\<not> timer_linked k (ThreadTimer t)"
    and stk: "unat stack_start + unat stack_size < 2 ^ 32" "72 \<le> unat stack_size"
    and p: "unat priority < RT_THREAD_PRIORITY_MAX"
    and fresh: "ObjTimer (ThreadTimer t) \<notin> set (object_list k RT_Object_Class_Timer)"
  shows "\<exists>k'. thread_init_core t entry parameter stack_start stack_size priority tick texit k = Some k' \<and>
     kernel_ok k' \<and> startable k' t \<and> th_init_priority (threads k' t) = priority \<and>
     (\<forall>u. u \<noteq> t \<longrightarrow> threads k' u = threads k u) \<and> tlists k' = tlists k"
proof -
  obtain sp frame where fr: "rt_hw_stack_init entry parameter (stack_start + stack_size - 4) texit = (sp, frame)"
    by (cases "rt_hw_stack_init entry parameter (stack_start + stack_size - 4) texit")
  have b: "stack_start < sp" "sp \<le> stack_start + stack_size"
    using stack_init_bounds[OF stk, of sp entry parameter texit] fr by simp_all
  let ?th = "\<lparr>th_sp = sp, th_entry = entry, th_parameter = parameter,
                      th_stack_addr = stack_start, th_stack_size = stack_size,
                      th_stack_mark = (if sp = stack_start then ucast (hd frame) else 0x23),
                      th_error = RT_EOK, th_stat = RT_THREAD_INIT,
                      th_current_priority = priority, th_init_priority = priority, th_number_mask = 0,
                      th_event_set = th_event_set (threads k t), th_event_info = th_event_info (threads k t),
                      th_init_tick = tick, th_remaining_tick = tick,
                      th_cleanup = False, th_user_data = 0\<rparr>"
  define k1 where "k1 = k\<lparr>threads := (threads k)(t := ?th)\<rparr>"
  have tok: "thread_ok ?th None" using p by (simp add: thread_ok_def mask_ok_def)
  have k1: "kernel_ok k1" unfolding k1_def by (rule set_detached_thread_ok[OF ok d tok nl]) simp
  have "ObjTimer (ThreadTimer t) \<notin> set (object_list k1 (class_of (ObjTimer (ThreadTimer t))))"
    using fresh by (simp add: k1_def)
  from object_init_eq[OF this] obtain k2 where
    k2: "rt_object_init (ObjTimer (ThreadTimer t)) (ob_name (objs k1 (ObjThread t))) k1 = Some k2" by blast
  note fr2 = object_init_frame[OF k2]
  have same2: "rt_timer_list k2 = rt_timer_list k" "rt_soft_timer_list k2 = rt_soft_timer_list k" "timers k2 = timers k"
    "threads k2 = threads k1" "on_list k2 = on_list k" "tlists k2 = tlists k" "rt_tick k2 = rt_tick k"
    by (subst fr2, simp add: k1_def)+
  have ok2: "kernel_ok k2" using object_init_kernel_ok[OF k2] k1 by simp
  have nl2: "\<not> timer_linked k2 (ThreadTimer t)" using nl by (simp add: timer_linked_def same2)
  define k3 where "k3 = upd_timer (ThreadTimer t) (\<lambda>_. \<lparr>tm_timeout_func = Thread_timeout t, tm_init_tick = 0, tm_timeout_tick = 0\<rparr>)
             (set_timer_flag (ThreadTimer t) (\<lambda>_. RT_TIMER_FLAG_ONE_SHOT AND NOT RT_TIMER_FLAG_ACTIVATED) k2)"
  have k3s: "rt_timer_list k3 = rt_timer_list k2" "rt_soft_timer_list k3 = rt_soft_timer_list k2" "threads k3 = threads k2"
    "on_list k3 = on_list k2" "tlists k3 = tlists k2" "rt_tick k3 = rt_tick k2"
    "\<And>i. i \<noteq> ThreadTimer t \<Longrightarrow> timers k3 i = timers k2 i"
    "\<And>i. i \<noteq> ThreadTimer t \<Longrightarrow> timer_flag k3 i = timer_flag k2 i"
    by (simp_all add: k3_def upd_timer_def upd_obj_def)
  have t3: "thread_timer_ok k3 t"
    by (simp add: thread_timer_ok_def timer_soft_def timer_periodic_def k3_def upd_timer_def upd_obj_def)
  have fl: "timer_active k3 i = timer_active k2 i" "timer_soft k3 i = timer_soft k2 i"
    "timer_periodic k3 i = timer_periodic k2 i" if "i \<noteq> ThreadTimer t" for i
    using k3s(8)[OF that] by (simp_all add: timer_active_def timer_soft_def timer_periodic_def)
  have ntl: "i \<noteq> ThreadTimer t" if "i \<in> set (rt_timer_list k2) \<or> i \<in> set (rt_soft_timer_list k2)" for i
    using that nl2 by (auto simp: timer_linked_def)
  have "timers_base k3"
    using kernel_okD(3)[OF ok2] t3 nl2
    unfolding timers_base_def thread_timer_ok_def k3s(1-3)
    by (auto simp: fl k3s(7) timer_linked_def)
       (metis fl k3s(7) timer_id.inject(1))+
  moreover have "timer_order (rt_tick k3) 0x7ffffffe k3"
  proof -
    have "tm_timeout_tick (timers k3 i) = tm_timeout_tick (timers k2 i)" if "i \<in> set (rt_timer_list k2)" for i
      using that ntl k3s(7) by simp
    then show ?thesis
      using kernel_okD(2)[OF ok2] unfolding timers_ok_def timer_order_def firing_order_def k3s(1,6)
      by (simp cong: map_cong)
  qed
  moreover have "sched_ok k3" using kernel_okD(1)[OF ok2] by (simp add: k3_def)
  ultimately have ok3: "kernel_ok k3" by (simp add: kernel_ok_def timers_ok_def)
  have "startable k3 t"
    using t3 nl2 d p b by (auto simp add: startable_def timer_linked_def k3s same2 k1_def rt_scheduler_stack_check_def)
  moreover have "thread_init_core t entry parameter stack_start stack_size priority tick texit k = Some k3"
    using d p b nl2 k2
    by (simp add: thread_init_core_def fr upd_thread_def k1_def[symmetric] rt_timer_init_def timer_init_core_def k3_def Let_def)
  ultimately show ?thesis using ok3 by (intro exI[of _ k3]) (simp add: k3s same2 k1_def)
qed

end
