(* ===== verification/Example_System.thy ===== *)
theory Example_System
  imports Thread
begin

text \<open>
  A small running system on which the theorems of the development are instantiated: the idle
  thread and two threads of priority 10 are ready, one of which runs; the timer thread is
  suspended; threads 3, 4, 6 and 7 wait for a semaphore (with a time limit), a mutex owned by
  the running thread, an event and a mail.
\<close>

definition ex_thread :: "u8 \<Rightarrow> u8 \<Rightarrow> rt_thread" where
  "ex_thread stat prio =
     \<lparr>th_sp = 0x1100, th_entry = 0x8000, th_parameter = 0, th_stack_addr = 0x1000, th_stack_size = 0x200,
      th_stack_mark = 0x23, th_error = RT_EOK, th_stat = stat, th_current_priority = prio, th_init_priority = prio,
      th_number_mask = push_bit (unat prio) 1, th_event_set = 0, th_event_info = 0, th_init_tick = 5,
      th_remaining_tick = 1, th_cleanup = False, th_user_data = 0\<rparr>"

definition ex_blank :: rt_thread where
  "ex_blank = (ex_thread RT_THREAD_INIT 0)\<lparr>th_number_mask := 0\<rparr>"

definition ex_kernel :: kernel where
  "ex_kernel =
     \<lparr>rt_tick = 100,
      threads = (\<lambda>_. ex_blank)
        (0 := ex_thread RT_THREAD_READY 31, 1 := ex_thread RT_THREAD_SUSPEND 4,
         2 := ex_thread RT_THREAD_READY 10, 3 := ex_thread RT_THREAD_SUSPEND 5,
         4 := ex_thread RT_THREAD_SUSPEND 12, 5 := ex_thread RT_THREAD_READY 10,
         6 := (ex_thread RT_THREAD_SUSPEND 8)\<lparr>th_event_set := 3, th_event_info := RT_EVENT_FLAG_AND OR RT_EVENT_FLAG_CLEAR\<rparr>,
         7 := ex_thread RT_THREAD_SUSPEND 9),
      timers = (\<lambda>i. case i of
          ThreadTimer t \<Rightarrow> \<lparr>tm_timeout_func = Thread_timeout t, tm_init_tick = 1, tm_timeout_tick = 101\<rparr>
        | UserTimer u \<Rightarrow> \<lparr>tm_timeout_func = User_func u, tm_init_tick = 10, tm_timeout_tick = 110\<rparr>),
      objs = (\<lambda>ob. \<lparr>ob_name = [], ob_type = 0x80, ob_flag = 0\<rparr>)
        (ObjTimer (ThreadTimer 3) := \<lparr>ob_name = [], ob_type = 0x89, ob_flag = RT_TIMER_FLAG_ACTIVATED\<rparr>,
         ObjTimer (UserTimer 0) := \<lparr>ob_name = [], ob_type = 0x89, ob_flag = RT_TIMER_FLAG_ACTIVATED\<rparr>),
      object_list = (\<lambda>_. []),
      tlists = (\<lambda>_. [])(ReadyQ 31 := [0], ReadyQ 10 := [2, 5], SemQ 0 := [3], MutexQ 0 := [4], EventQ 0 := [6], MbQ 0 := [7]),
      on_list = (\<lambda>_. None)(0 := Some (ReadyQ 31), 2 := Some (ReadyQ 10), 5 := Some (ReadyQ 10), 3 := Some (SemQ 0),
        4 := Some (MutexQ 0), 6 := Some (EventQ 0), 7 := Some (MbQ 0)),
      rt_timer_list = [ThreadTimer 3, UserTimer 0],
      rt_soft_timer_list = [],
      random_nr = 0,
      rt_thread_ready_priority_group = push_bit 31 1 OR push_bit 10 1,
      rt_current_thread = Some 2,
      rt_current_priority = 10,
      rt_scheduler_lock_nest = 0,
      rt_interrupt_nest = 0,
      kernel_errno = RT_EOK,
      sems = (\<lambda>_. \<lparr>sem_value = 0\<rparr>)(2 := \<lparr>sem_value = 3\<rparr>),
      mutexes = (\<lambda>_. \<lparr>mx_value = 1, mx_original_priority = 0xff, mx_hold = 0, mx_owner = None\<rparr>)
        (0 := \<lparr>mx_value = 0, mx_original_priority = 10, mx_hold = 1, mx_owner = Some 2\<rparr>,
         1 := \<lparr>mx_value = 0, mx_original_priority = 10, mx_hold = 1, mx_owner = Some 5\<rparr>),
      events = (\<lambda>_. \<lparr>ev_set = 1\<rparr>),
      mailboxes = (\<lambda>_. \<lparr>mb_msg_pool = [0, 0], mb_size = 2, mb_entry = 0, mb_in_offset = 0, mb_out_offset = 0\<rparr>)
        (1 := \<lparr>mb_msg_pool = [7, 8], mb_size = 2, mb_entry = 2, mb_in_offset = 1, mb_out_offset = 1\<rparr>),
      mqueues = (\<lambda>_. \<lparr>mq_msg_size = 4, mq_max_msgs = 2, mq_entry = 0, mq_next = (\<lambda>_. None)(0 := Some 1),
        mq_data = (\<lambda>_. [0, 0, 0, 0]), mq_queue_head = None, mq_queue_tail = None, mq_queue_free = Some 0\<rparr>)\<rparr>"

lemma ex_lists_ok: "lists_ok ex_kernel"
  by (auto simp: lists_ok_def ex_kernel_def)

lemma ex_thread_ok:
  "unat p < 32 \<Longrightarrow> thread_ok (ex_thread RT_THREAD_READY p) (Some (ReadyQ (unat p)))"
  "unat p < 32 \<Longrightarrow> wait_list l \<Longrightarrow> thread_ok (ex_thread RT_THREAD_SUSPEND p) l"
  "thread_ok ex_blank None"
  by (simp_all add: thread_ok_def ex_thread_def ex_blank_def prio_ok_def mask_ok_def rt_scheduler_stack_check_def)

lemma ex_sched_ok: "sched_ok ex_kernel"
proof -
  have "(0x80000400 :: u32) = push_bit 31 1 OR push_bit 10 1" by simp
  then have "bit (0x80000400 :: u32) p \<longleftrightarrow> p = 31 \<or> p = 10" if "p < 32" for p
    using that by (auto simp only: bit_or_iff bit_push_bit_iff bit_1_iff possible_bit_word) simp_all
  then have "group_ok ex_kernel" by (auto simp: group_ok_def ex_kernel_def)
  moreover have "thread_ok (threads ex_kernel t) (on_list ex_kernel t)" for t
    using ex_thread_ok(1)[of 31] ex_thread_ok(1)[of 10]
    by (simp add: ex_kernel_def ex_thread_ok)
  ultimately show ?thesis using ex_lists_ok by (simp add: sched_ok_but_def)
qed

lemma ex_timer_flags:
  "timer_active ex_kernel i \<longleftrightarrow> i = ThreadTimer 3 \<or> i = UserTimer 0"
  "\<not> timer_soft ex_kernel i" "\<not> timer_periodic ex_kernel i"
  by (auto simp: timer_active_def timer_soft_def timer_periodic_def ex_kernel_def)

lemma ex_timers_ok: "timers_ok ex_kernel"
proof -
  have "timers_base ex_kernel"
    by (simp add: timers_base_def thread_timer_ok_def ex_timer_flags)
       (simp add: ex_kernel_def ex_thread_def ex_blank_def)
  moreover have "timer_order (rt_tick ex_kernel) 0x7ffffffe ex_kernel"
    by (simp add: timer_order_def firing_order_def tick_off_def ex_kernel_def)
  ultimately show ?thesis by (simp add: timers_ok_def)
qed

lemma ex_kernel_ok: "kernel_ok ex_kernel"
  using ex_sched_ok ex_timers_ok by (simp add: kernel_ok_def)

text \<open>The fields of the example.\<close>

lemma ex_sel [simp]:
  "rt_current_thread ex_kernel = Some 2" "rt_interrupt_nest ex_kernel = 0" "rt_scheduler_lock_nest ex_kernel = 0"
  "rt_tick ex_kernel = 100" "rt_timer_list ex_kernel = [ThreadTimer 3, UserTimer 0]"
  "thread_stat ex_kernel 0 = RT_THREAD_READY" "thread_stat ex_kernel 2 = RT_THREAD_READY"
  "thread_stat ex_kernel 3 = RT_THREAD_SUSPEND" "thread_stat ex_kernel 5 = RT_THREAD_READY"
  "tlists ex_kernel (ReadyQ 10) = [2, 5]" "tlists ex_kernel (ReadyQ 31) = [0]" "tlists ex_kernel (SemQ 0) = [3]"
  "tlists ex_kernel (MutexQ 0) = [4]" "tlists ex_kernel (EventQ 0) = [6]" "tlists ex_kernel (MbQ 0) = [7]"
  by (simp_all add: ex_kernel_def ex_thread_def)

end
