(* ===== verification/Clock.thy ===== *)
theory Clock
  imports Example_System
begin

text \<open>
  rt-thread/src/clock.c and the timer interrupt of timer.c.  The timeout functions of user
  timers are code outside the kernel: a parameter \<open>cb\<close> that maps the number of the function to
  its effect on the kernel.  The loop of rt_timer_check ends only when no timer is due, so it
  is a partial function: None when it does not return.
\<close>

section \<open>Operations\<close>

definition rt_tick_get :: "kernel \<Rightarrow> u32" where
  "rt_tick_get k = rt_tick k"

definition rt_tick_set :: "u32 \<Rightarrow> kernel \<Rightarrow> kernel" where
  "rt_tick_set tick k = k\<lparr>rt_tick := tick\<rparr>"

text \<open>The argument and the result are C ints; a product outside their range is undefined.\<close>

abbreviation RT_WAITING_FOREVER :: int where "RT_WAITING_FOREVER \<equiv> -1"

definition rt_tick_from_millisecond :: "int \<Rightarrow> int option" where
  "rt_tick_from_millisecond ms =
     (if ms < 0 then Some RT_WAITING_FOREVER
      else if 1000 * ms + 999 < 2 ^ 31 then Some ((1000 * ms + 999) div 1000)
      else None)"

type_synonym callbacks = "nat \<Rightarrow> kernel \<Rightarrow> kernel option"

definition timeout_call :: "callbacks \<Rightarrow> timeout_func \<Rightarrow> kernel \<Rightarrow> kernel option" where
  "timeout_call cb f k = (case f of Thread_timeout t \<Rightarrow> rt_thread_timeout t k | User_func n \<Rightarrow> cb n k)"

text \<open>What happens to a timer after its timeout function has run.\<close>

definition timer_rearm :: "timer_id \<Rightarrow> kernel \<Rightarrow> kernel option" where
  "timer_rearm i k =
     (if timer_periodic k i \<and> timer_active k i then rt_timer_start i (timer_deactivate i k)
      else Some (timer_deactivate i k))"

partial_function (option) timer_check_loop :: "callbacks \<Rightarrow> u32 \<Rightarrow> kernel \<Rightarrow> kernel option" where
  "timer_check_loop cb current_tick k =
     (case rt_timer_list k of
        [] \<Rightarrow> Some k
      | i # _ \<Rightarrow>
          if current_tick - tm_timeout_tick (timers k i) < TICK_HALF
          then do { k \<leftarrow> timeout_call cb (tm_timeout_func (timers k i)) (timer_remove i k);
                    k' \<leftarrow> timer_rearm i k;
                    timer_check_loop cb (rt_tick_get k) k' }
          else Some k)"

definition rt_timer_check :: "callbacks \<Rightarrow> kernel \<Rightarrow> kernel option" where
  "rt_timer_check cb k = timer_check_loop cb (rt_tick_get k) k"

text \<open>The time slice of the running thread, in rt_tick_increase.\<close>

definition time_slice :: "tid \<Rightarrow> kernel \<Rightarrow> kernel option" where
  "time_slice t k =
     (let k = upd_thread t (\<lambda>th. th\<lparr>th_remaining_tick := th_remaining_tick th - 1\<rparr>) k
      in if th_remaining_tick (threads k t) = 0
         then rt_thread_yield (upd_thread t (\<lambda>th. th\<lparr>th_remaining_tick := th_init_tick th\<rparr>) k)
         else Some k)"

definition rt_tick_increase :: "callbacks \<Rightarrow> kernel \<Rightarrow> kernel option" where
  "rt_tick_increase cb k =
     do { let k = k\<lparr>rt_tick := rt_tick k + 1\<rparr>;
          t \<leftarrow> rt_thread_self k;
          k \<leftarrow> time_slice t k;
          rt_timer_check cb k }"

definition rt_thread_mdelay :: "int \<Rightarrow> kernel \<Rightarrow> kernel option" where
  "rt_thread_mdelay ms k = do { tick \<leftarrow> rt_tick_from_millisecond ms; rt_thread_sleep (of_int tick) k }"

section \<open>The timer interrupt\<close>

text \<open>The base b is the tick before the one being handled.  A timer is due at distance 0 or 1
  from it: at distance 0 only a timer that was started with no delay.\<close>

definition due :: "u32 \<Rightarrow> kernel \<Rightarrow> timer_id set" where
  "due b k = {i \<in> set (rt_timer_list k). tick_off b (tm_timeout_tick (timers k i)) \<le> 1}"

definition periodic_ok :: "kernel \<Rightarrow> bool" where
  "periodic_ok k \<longleftrightarrow> (\<forall>i. timer_periodic k i \<longrightarrow>
     0 < tm_init_tick (timers k i) \<and> tm_init_tick (timers k i) < TICK_HALF)"

definition check_inv :: "u32 \<Rightarrow> kernel \<Rightarrow> bool" where
  "check_inv b k \<longleftrightarrow> sched_ok k \<and> timers_base k \<and> timer_order b 0x7fffffff k \<and> periodic_ok k \<and> rt_tick k = b + 1"

definition awake :: "u32 \<Rightarrow> kernel \<Rightarrow> tid \<Rightarrow> bool" where
  "awake b k t \<longleftrightarrow> thread_stat k t = RT_THREAD_READY \<or> ThreadTimer t \<in> due b k"

text \<open>What the interrupt relies on of the user timeout functions: they return, keep the
  invariant, make no further timer due, do not start the timer that is being handled, and
  put no thread to sleep.\<close>

definition callbacks_ok :: "u32 \<Rightarrow> callbacks \<Rightarrow> bool" where
  "callbacks_ok b cb \<longleftrightarrow>
     (\<forall>n k i. check_inv b k \<and> \<not> timer_linked k i \<longrightarrow>
        (\<exists>k'. cb n k = Some k' \<and> check_inv b k' \<and> due b k' \<subseteq> due b k \<and> \<not> timer_linked k' i \<and>
              timer_soft k' i = timer_soft k i \<and> (\<forall>t. awake b k t \<longrightarrow> awake b k' t)))"

lemma due_cmp:
  assumes "tick_off b x \<le> 0x7fffffff"
  shows "(b + 1) - x < TICK_HALF \<longleftrightarrow> tick_off b x \<le> 1"
proof -
  have b1: "tick_off b (b + 1) = 1" by (simp add: tick_off_def)
  show ?thesis
    using assms tick_diff(2)[of b x "b + 1"] tick_diff(3)[of b "b + 1" x] b1
    by (cases "tick_off b x \<le> 1") (auto simp: word_less_nat_alt)
qed

lemma check_inv_remove:
  assumes "check_inv b k"
  shows "check_inv b (timer_remove i k)" and "due b (timer_remove i k) = due b k - {i}"
    and "\<not> timer_linked (timer_remove i k) i"
proof -
  have d: "distinct (rt_timer_list k)" using assms by (simp add: check_inv_def timers_base_def)
  show "check_inv b (timer_remove i k)"
    using assms by (simp add: check_inv_def timers_base_remove timer_order_remove periodic_ok_def)
  show "due b (timer_remove i k) = due b k - {i}" using d by (auto simp: due_def)
  show "\<not> timer_linked (timer_remove i k) i" using assms by (simp add: check_inv_def)
qed

lemma check_inv_deactivate:
  assumes "check_inv b k" and "\<not> timer_linked k i"
  shows "check_inv b (timer_deactivate i k)" and "due b (timer_deactivate i k) = due b k"
  using assms timers_base_deactivate[of k i]
  by (auto simp: check_inv_def due_def timer_order_def periodic_ok_def)


lemma tick_off_next:
  assumes "unat x < 0x7fffffff"
  shows "tick_off b (b + 1 + x) = Suc (unat x)"
proof -
  have "unat (1 + x) = unat (1 :: u32) + unat x" using assms by (subst unat_add_lem[symmetric]) simp
  then show ?thesis by (simp add: tick_off_def algebra_simps)
qed

text \<open>Restarting a periodic timer puts it at least one tick ahead.\<close>

lemma restart_ok:
  assumes inv: "check_inv b k" and nl: "\<not> timer_linked k i" and p: "timer_periodic k i"
    and ns: "\<not> timer_soft k i" and ut: "\<And>t. i \<noteq> ThreadTimer t"
  shows "\<exists>k'. rt_timer_start i k = Some k' \<and> check_inv b k' \<and> due b k' \<subseteq> due b k \<and> threads k' = threads k \<and>
     due b k - {i} \<subseteq> due b k'"
proof -
  let ?x = "tm_init_tick (timers k i)"
  have x: "0 < ?x" "?x < TICK_HALF" using inv p by (auto simp: check_inv_def periodic_ok_def)
  then have off: "tick_off b (rt_tick k + ?x) = Suc (unat ?x)"
    using inv tick_off_next[of ?x b] by (simp add: check_inv_def word_less_nat_alt)
  have tb: "timers_base k" and o: "timer_order b 0x7fffffff k" using inv by (simp_all add: check_inv_def)
  from timer_start_core_ok[OF tb x(2)] ut obtain k' where k': "timer_start_core i k = Some k'" "timers_base k'"
    and ord: "\<forall>b m. timer_order b m k \<longrightarrow> m \<le> 0x7ffffffe + tick_off b (rt_tick k + ?x) \<longrightarrow>
        tick_off b (rt_tick k + ?x) \<le> 2 ^ 31 \<longrightarrow> timer_order b (max m (tick_off b (rt_tick k + ?x))) k'"
    by blast
  from timer_start_core_eq[OF x(2)] k'(1) ns
  have e: "timers k' = (timers k)(i := (timers k i)\<lparr>tm_timeout_tick := rt_tick k + ?x\<rparr>)"
    "rt_timer_list k' = timer_insert (\<lambda>j. tm_timeout_tick (timers k' j)) i (remove1 i (rt_timer_list k))"
    "\<forall>j. timer_soft k' j = timer_soft k j" "\<forall>j. timer_periodic k' j = timer_periodic k j"
    by auto
  note fr = timer_start_core_frame[OF k'(1)]
  have same: "threads k' = threads k" "tlists k' = tlists k" "on_list k' = on_list k" "rt_tick k' = rt_tick k"
    "rt_thread_ready_priority_group k' = rt_thread_ready_priority_group k"
    by (subst fr, simp)+
  have "sched_ok k'" using inv by (subst sched_ok_cong[of _ _ k]) (simp_all add: same check_inv_def)
  moreover have "timer_order b 0x7fffffff k'"
  proof -
    have "max 0x7fffffff (Suc (unat ?x)) = 0x7fffffff" using x(2) by (simp add: word_less_nat_alt)
    then show ?thesis using ord[rule_format, OF o] off x(2) by (simp add: word_less_nat_alt)
  qed
  moreover have "periodic_ok k'" using inv e(4) by (auto simp: check_inv_def periodic_ok_def e(1))
  ultimately have "check_inv b k'" using k'(2) inv by (simp add: check_inv_def same)
  moreover have "set (rt_timer_list k') = insert i (set (rt_timer_list k))"
    using nl tb by (simp add: e(2) timer_linked_def remove1_idem)
  then have "due b k' \<subseteq> due b k" "due b k - {i} \<subseteq> due b k'"
    using off x(1) by (auto simp: due_def e(1) word_less_nat_alt)
  moreover have "rt_timer_start i k = Some k'" using k'(1) ns e(3) by (simp add: rt_timer_start_def)
  ultimately show ?thesis using same by blast
qed


text \<open>One round of the loop: the timer at the front is due, runs, and is due no longer.\<close>

lemma check_round:
  assumes inv: "check_inv b k" and cb: "callbacks_ok b cb" and i: "rt_timer_list k = i # r" "i \<in> due b k"
  shows "\<exists>k1 k2. timeout_call cb (tm_timeout_func (timers k i)) (timer_remove i k) = Some k1 \<and>
     timer_rearm i k1 = Some k2 \<and> rt_tick k1 = b + 1 \<and> check_inv b k1 \<and> check_inv b k2 \<and> due b k2 \<subseteq> due b k - {i} \<and>
     (\<forall>t. awake b k t \<longrightarrow> awake b k2 t)"
proof -
  let ?k = "timer_remove i k"
  note r = check_inv_remove[OF inv, of i]
  have tb: "timers_base k" using inv by (simp add: check_inv_def)
  show ?thesis
  proof (cases i)
    case (ThreadTimer t)
    have st: "thread_stat k t = RT_THREAD_SUSPEND" using tb i(1) ThreadTimer by (auto simp: timers_base_def)
    then have tt: "thread_timer_ok k t" using tb by (simp add: timers_base_def)
    have so: "sched_ok ?k" "timers_base ?k" using r(1) by (simp_all add: check_inv_def)
    from timeout_ok[OF so, of t] st r(3) ThreadTimer obtain k1 where
      k1: "rt_thread_timeout t ?k = Some k1" "sched_ok k1" "timers_base k1"
        "\<forall>b m. timer_order b m k1 = timer_order b m ?k" "rt_tick k1 = rt_tick ?k"
        "timers k1 = timers ?k" "objs k1 = objs ?k" "rt_timer_list k1 = rt_timer_list ?k"
        and th: "threads k1 = (threads ?k)(t := threads k1 t)" and rd: "thread_stat k1 t = RT_THREAD_READY"
      by auto
    have fl: "timer_periodic k1 = timer_periodic k" "timer_soft k1 = timer_soft k"
      by (rule timer_flag_frame; simp add: k1(7))+
    have inv1: "check_inv b k1" using r(1) k1 fl by (simp add: check_inv_def periodic_ok_def)
    have nl1: "\<not> timer_linked k1 i"
      using r(3) k1(3) ThreadTimer by (auto simp: timer_linked_def k1(8) timers_base_def)
    have d1: "due b k1 = due b k - {i}" using r(2) by (simp add: due_def k1(6,8))
    have p: "\<not> timer_periodic k1 i" using tt ThreadTimer by (simp add: fl thread_timer_ok_def)
    let ?k2 = "timer_deactivate i k1"
    have "awake b ?k2 u" if "awake b k u" for u
    proof (cases "u = t")
      case True
      with rd show ?thesis by (simp add: awake_def)
    next
      case False
      then have "threads k1 u = threads k u" by (subst th) simp
      with False that show ?thesis using d1 check_inv_deactivate(2)[OF inv1 nl1] ThreadTimer
        by (auto simp: awake_def)
    qed
    moreover have "timer_rearm i k1 = Some ?k2" using p by (simp add: timer_rearm_def)
    moreover have "rt_tick k1 = b + 1" using inv1 by (simp add: check_inv_def)
    moreover have "timeout_call cb (tm_timeout_func (timers k i)) ?k = Some k1"
      using tt k1(1) ThreadTimer by (simp add: timeout_call_def thread_timer_ok_def)
    ultimately show ?thesis using check_inv_deactivate[OF inv1 nl1] d1 inv1 by blast
  next
    case (UserTimer u)
    then obtain n where n: "tm_timeout_func (timers k i) = User_func n"
      using tb by (cases "tm_timeout_func (timers k i)") (auto simp: timers_base_def)
    have ns: "\<not> timer_soft k i" using tb i(1) by (auto simp: timers_base_def)
    from cb r(1,3) obtain k1 where k1: "cb n ?k = Some k1" "check_inv b k1" "due b k1 \<subseteq> due b ?k"
      "\<not> timer_linked k1 i" "timer_soft k1 i = timer_soft ?k i" "\<forall>t. awake b ?k t \<longrightarrow> awake b k1 t"
      unfolding callbacks_ok_def by blast
    have aw: "awake b ?k t = awake b k t" for t using r(2) UserTimer by (auto simp: awake_def)
    note d = check_inv_deactivate[OF k1(2,4)]
    have nl: "\<not> timer_linked (timer_deactivate i k1) i" using k1(4) by (simp add: timer_linked_def)
    have "\<exists>k2. timer_rearm i k1 = Some k2 \<and> check_inv b k2 \<and> due b k2 \<subseteq> due b k1 \<and> threads k2 = threads k1 \<and>
        due b k1 - {i} \<subseteq> due b k2"
    proof (cases "timer_periodic k1 i \<and> timer_active k1 i")
      case True
      then have "\<exists>k2. rt_timer_start i (timer_deactivate i k1) = Some k2 \<and> check_inv b k2 \<and>
          due b k2 \<subseteq> due b (timer_deactivate i k1) \<and> threads k2 = threads (timer_deactivate i k1) \<and>
          due b (timer_deactivate i k1) - {i} \<subseteq> due b k2"
        using ns k1(5) UserTimer by (intro restart_ok[OF d(1) nl]) auto
      with True d(2) show ?thesis by (simp add: timer_rearm_def)
    next
      case False
      with d show ?thesis by (auto simp: timer_rearm_def)
    qed
    then obtain k2 where k2: "timer_rearm i k1 = Some k2" "check_inv b k2" "due b k2 \<subseteq> due b k1"
      "threads k2 = threads k1" "due b k1 - {i} \<subseteq> due b k2" by blast
    have "awake b k2 t" if "awake b k t" for t
      using that k1(6) aw k2(4,5) UserTimer by (fastforce simp: awake_def)
    moreover have "rt_tick k1 = b + 1" using k1(2) by (simp add: check_inv_def)
    moreover have "timeout_call cb (tm_timeout_func (timers k i)) ?k = Some k1" by (simp add: timeout_call_def n k1(1))
    ultimately show ?thesis using k1(2,3) k2(1-3) r(2) by blast
  qed
qed

text \<open>The loop ends, and what every round keeps holds at its end.\<close>

lemma timer_check_loop_ok:
  assumes "check_inv b k" and "callbacks_ok b cb" and "Q k"
    and step: "\<And>k i k1 k2. check_inv b k \<Longrightarrow> Q k \<Longrightarrow> i \<in> due b k \<Longrightarrow>
        timeout_call cb (tm_timeout_func (timers k i)) (timer_remove i k) = Some k1 \<Longrightarrow> check_inv b k1 \<Longrightarrow>
        timer_rearm i k1 = Some k2 \<Longrightarrow> check_inv b k2 \<Longrightarrow> Q k2"
  shows "\<exists>k'. timer_check_loop cb (b + 1) k = Some k' \<and> check_inv b k' \<and> due b k' = {} \<and> Q k' \<and>
     (\<forall>t. awake b k t \<longrightarrow> awake b k' t)"
  using assms(1,3)
proof (induction "card (due b k)" arbitrary: k rule: less_induct)
  case less
  note inv = less.prems(1)
  have fin: "finite (due b k)" by (simp add: due_def)
  have ord: "timer_order b 0x7fffffff k" using inv by (simp add: check_inv_def)
  show ?case
  proof (cases "rt_timer_list k")
    case Nil
    then have "timer_check_loop cb (b + 1) k = Some k" by (subst timer_check_loop.simps) simp
    with Nil less.prems show ?thesis by (auto simp: due_def)
  next
    case (Cons i r)
    let ?o = "\<lambda>j. tick_off b (tm_timeout_tick (timers k j))"
    have cmp: "(b + 1) - tm_timeout_tick (timers k i) < TICK_HALF \<longleftrightarrow> ?o i \<le> 1"
      using ord Cons by (intro due_cmp) (auto simp: timer_order_def)
    show ?thesis
    proof (cases "?o i \<le> 1")
      case True
      then have i: "i \<in> due b k" using Cons by (simp add: due_def)
      from check_round[OF inv assms(2) Cons i] obtain k1 k2 where
        k12: "timeout_call cb (tm_timeout_func (timers k i)) (timer_remove i k) = Some k1"
         "timer_rearm i k1 = Some k2" "rt_tick k1 = b + 1" "check_inv b k2" "due b k2 \<subseteq> due b k - {i}"
         "\<forall>t. awake b k t \<longrightarrow> awake b k2 t" "check_inv b k1" by blast
      have q: "Q k2" by (rule step[OF less.prems i k12(1,7,2,4)])
      have "card (due b k2) < card (due b k)"
        using k12(5) i fin by (intro psubset_card_mono) auto
      from less.hyps[OF this k12(4) q] obtain k' where
        k': "timer_check_loop cb (b + 1) k2 = Some k'" "check_inv b k'" "due b k' = {}" "Q k'"
          "\<forall>t. awake b k2 t \<longrightarrow> awake b k' t" by blast
      have "timer_check_loop cb (b + 1) k = Some k'"
        by (subst timer_check_loop.simps) (use Cons True cmp k12 k' in \<open>simp add: rt_tick_get_def\<close>)
      with k' k12(6) show ?thesis by blast
    next
      case False
      then have "timer_check_loop cb (b + 1) k = Some k"
        by (subst timer_check_loop.simps) (use Cons cmp in simp)
      moreover have "due b k = {}"
        using False ord Cons by (auto simp: due_def timer_order_def firing_order_def)
      ultimately show ?thesis using less.prems by blast
    qed
  qed
qed


text \<open>The slice of the running thread.\<close>

lemma time_slice_ok:
  assumes so: "sched_ok k" and cur: "rt_current_thread k = Some t"
  shows "\<exists>k'. time_slice t k = Some k' \<and> sched_ok k' \<and>
     (\<forall>u. thread_stat k' u = thread_stat k u) \<and> timers k' = timers k \<and> objs k' = objs k \<and>
     rt_timer_list k' = rt_timer_list k \<and> rt_soft_timer_list k' = rt_soft_timer_list k \<and> rt_tick k' = rt_tick k"
proof -
  define k1 where "k1 = upd_thread t (\<lambda>th. th\<lparr>th_remaining_tick := th_remaining_tick th - 1\<rparr>) k"
  define k2 where "k2 = upd_thread t (\<lambda>th. th\<lparr>th_remaining_tick := th_init_tick th\<rparr>) k1"
  have s1: "sched_ok k1" using so unfolding k1_def by (subst sched_ok_upd_thread) simp_all
  then have s2: "sched_ok k2" unfolding k2_def by (subst sched_ok_upd_thread) simp_all
  have e: "\<And>u. thread_stat k1 u = thread_stat k u" "\<And>u. thread_stat k2 u = thread_stat k u"
    "timers k2 = timers k" "objs k2 = objs k" "rt_timer_list k2 = rt_timer_list k" "rt_tick k2 = rt_tick k"
    "rt_soft_timer_list k2 = rt_soft_timer_list k" "rt_current_thread k2 = Some t"
    "timers k1 = timers k" "objs k1 = objs k" "rt_timer_list k1 = rt_timer_list k" "rt_tick k1 = rt_tick k"
    "rt_soft_timer_list k1 = rt_soft_timer_list k"
    using cur by (simp_all add: k1_def k2_def upd_thread_def)
  show ?thesis
  proof (cases "th_remaining_tick (threads k1 t) = 0")
    case False
    then show ?thesis using s1 e by (intro exI[of _ k1]) (simp add: time_slice_def k1_def[symmetric])
  next
    case True
    have "\<exists>k'. rt_thread_yield k2 = Some k' \<and> sched_ok k' \<and> threads k' = threads k2 \<and> timers k' = timers k2 \<and>
      objs k' = objs k2 \<and> rt_timer_list k' = rt_timer_list k2 \<and> rt_tick k' = rt_tick k2 \<and>
      rt_soft_timer_list k' = rt_soft_timer_list k2"
    proof (cases "thread_stat k2 t = RT_THREAD_READY")
      case True
      from yield_ok[OF s2 e(8) True] show ?thesis by blast
    next
      case False
      then have "rt_thread_yield k2 = Some k2" by (simp add: rt_thread_yield_def e(8))
      with s2 show ?thesis by simp
    qed
    then obtain k' where "rt_thread_yield k2 = Some k'" "sched_ok k'" "threads k' = threads k2" "timers k' = timers k2"
      "objs k' = objs k2" "rt_timer_list k' = rt_timer_list k2" "rt_tick k' = rt_tick k2"
      "rt_soft_timer_list k' = rt_soft_timer_list k2" by blast
    with True e show ?thesis by (intro exI[of _ k']) (simp add: time_slice_def k1_def[symmetric] k2_def[symmetric])
  qed
qed

lemma check_done:
  assumes "check_inv b k" and "due b k = {}"
  shows "kernel_ok k"
proof -
  have o: "timer_order b 0x7fffffff k" and t: "rt_tick k = b + 1" using assms(1) by (simp_all add: check_inv_def)
  let ?tt = "\<lambda>i. tm_timeout_tick (timers k i)"
  have off: "Suc (tick_off (b + 1) (?tt i)) = tick_off b (?tt i) \<and> 2 \<le> tick_off b (?tt i)"
    if "i \<in> set (rt_timer_list k)" for i
  proof -
    have "2 \<le> tick_off b (?tt i)" using that assms(2) by (auto simp: due_def not_less_eq_eq numeral_2_eq_2)
    moreover have "tick_off b (b + 1) = 1" by (simp add: tick_off_def)
    ultimately show ?thesis using tick_diff(2)[of b "b + 1" "?tt i"] by (simp add: tick_off_def)
  qed
  have "firing_order (b + 1) ?tt (rt_timer_list k)"
  proof -
    have "sorted (map (\<lambda>i. Suc (tick_off (b + 1) (?tt i))) (rt_timer_list k))"
      using o off by (simp add: timer_order_def firing_order_def cong: map_cong)
    then show ?thesis unfolding firing_order_def by (simp add: sorted_map)
  qed
  moreover have "tick_off (b + 1) (?tt i) \<le> 0x7ffffffe" if "i \<in> set (rt_timer_list k)" for i
    using off[OF that] o that by (auto simp: timer_order_def)
  ultimately have "timer_order (b + 1) 0x7ffffffe k" by (simp add: timer_order_def)
  then show ?thesis using assms(1) t by (simp add: kernel_ok_def timers_ok_def check_inv_def)
qed

lemma tick_increase_inv:
  assumes ok: "kernel_ok k" and p: "periodic_ok k" and cur: "rt_current_thread k = Some t"
    and cb: "callbacks_ok (rt_tick k) cb"
    and start: "\<And>k1. time_slice t (k\<lparr>rt_tick := rt_tick k + 1\<rparr>) = Some k1 \<Longrightarrow> sched_ok k1 \<Longrightarrow> Q k1"
    and step: "\<And>m i k1 k2. check_inv (rt_tick k) m \<Longrightarrow> Q m \<Longrightarrow> i \<in> due (rt_tick k) m \<Longrightarrow>
        timeout_call cb (tm_timeout_func (timers m i)) (timer_remove i m) = Some k1 \<Longrightarrow> check_inv (rt_tick k) k1 \<Longrightarrow>
        timer_rearm i k1 = Some k2 \<Longrightarrow> check_inv (rt_tick k) k2 \<Longrightarrow> Q k2"
  shows "\<exists>k'. rt_tick_increase cb k = Some k' \<and> kernel_ok k' \<and> periodic_ok k' \<and> rt_tick k' = rt_tick k + 1 \<and> Q k' \<and>
     (\<forall>u. thread_stat k u = RT_THREAD_READY \<or>
          ThreadTimer u \<in> set (rt_timer_list k) \<and>
            tick_off (rt_tick k) (tm_timeout_tick (timers k (ThreadTimer u))) \<le> 1 \<longrightarrow>
          thread_stat k' u = RT_THREAD_READY)"
proof -
  let ?k0 = "k\<lparr>rt_tick := rt_tick k + 1\<rparr>" and ?b = "rt_tick k"
  have "sched_ok ?k0" "rt_current_thread ?k0 = Some t" using kernel_okD(1)[OF ok] cur by simp_all
  from time_slice_ok[OF this] obtain k1 where
    k1: "time_slice t ?k0 = Some k1" "sched_ok k1"
    and e: "\<And>u. thread_stat k1 u = thread_stat k u" "timers k1 = timers k" "objs k1 = objs k"
     "rt_timer_list k1 = rt_timer_list k" "rt_soft_timer_list k1 = rt_soft_timer_list k" "rt_tick k1 = ?b + 1"
    by auto
  have "timers_base k1" using kernel_okD(3)[OF ok] by (subst timers_base_cong[of k1 k]) (simp_all add: e)
  moreover have "timer_order ?b 0x7fffffff k1"
    using kernel_okD(2)[OF ok] by (fastforce simp: timers_ok_def timer_order_def e)
  moreover have "periodic_ok k1" using p timer_flag_frame(3)[of k1 k] by (simp add: periodic_ok_def e)
  ultimately have inv: "check_inv ?b k1" using k1(2) e(6) by (simp add: check_inv_def)
  have "\<exists>k'. timer_check_loop cb (?b + 1) k1 = Some k' \<and> check_inv ?b k' \<and> due ?b k' = {} \<and> Q k' \<and>
      (\<forall>t. awake ?b k1 t \<longrightarrow> awake ?b k' t)"
    by (rule timer_check_loop_ok[where Q = Q, OF inv cb start[OF k1]]) (rule step)
  then obtain k' where
    k': "timer_check_loop cb (?b + 1) k1 = Some k'" "check_inv ?b k'" "due ?b k' = {}" "Q k'"
      "\<forall>t. awake ?b k1 t \<longrightarrow> awake ?b k' t" by blast
  have "rt_tick_increase cb k = Some k'"
    using k1(1) k'(1) cur e(6) 
    by (simp add: rt_tick_increase_def rt_thread_self_def rt_timer_check_def rt_tick_get_def Let_def)
  moreover have "thread_stat k' u = RT_THREAD_READY" if "thread_stat k u = RT_THREAD_READY \<or>
          ThreadTimer u \<in> set (rt_timer_list k) \<and>
            tick_off (rt_tick k) (tm_timeout_tick (timers k (ThreadTimer u))) \<le> 1" for u
    using that k'(3,5) by (auto simp: awake_def due_def e)
  ultimately show ?thesis using check_done[OF k'(2,3)] k'(2,4) by (auto simp: check_inv_def)
qed

lemma tick_increase_ok:
  assumes "kernel_ok k" and "periodic_ok k" and "rt_current_thread k = Some t" and "callbacks_ok (rt_tick k) cb"
  shows "\<exists>k'. rt_tick_increase cb k = Some k' \<and> kernel_ok k' \<and> periodic_ok k' \<and> rt_tick k' = rt_tick k + 1 \<and>
     (\<forall>u. thread_stat k u = RT_THREAD_READY \<or>
          ThreadTimer u \<in> set (rt_timer_list k) \<and>
            tick_off (rt_tick k) (tm_timeout_tick (timers k (ThreadTimer u))) \<le> 1 \<longrightarrow>
          thread_stat k' u = RT_THREAD_READY)"
  using tick_increase_inv[OF assms, where Q = "\<lambda>_. True"] by blast

end
