(* ===== verification/Scheduling.thy ===== *)
theory Scheduling
  imports Clock
begin

text \<open>
  The properties of scheduler.c, thread.c, timer.c, clock.c and object.c, stated on the
  definitions of the component theories and instantiated on the example system.
\<close>

section \<open>Scheduling\<close>

text \<open>C3: With the scheduler unlocked and some thread ready, rt_schedule returns and the running
  thread is then the one at the front of the most urgent non-empty ready queue; no ready
  thread has a more urgent priority.\<close>

theorem schedule_most_urgent:
  assumes "sched_ok k" and "thread_stat k u = RT_THREAD_READY" and "rt_scheduler_lock_nest k = 0"
  shows "\<exists>k' t ts. rt_schedule k = Some k' \<and> sched_ok k' \<and> rt_current_thread k' = Some t \<and>
     tlists k (ReadyQ (thread_prio k t)) = t # ts \<and> thread_stat k t = RT_THREAD_READY \<and>
     (\<forall>v. thread_stat k v = RT_THREAD_READY \<longrightarrow> thread_prio k t \<le> thread_prio k v)"
proof -
  from schedule_total[OF assms(1) ready_listed(2)[OF assms(1,2)] assms(3)] obtain k' t ts p where
    s: "rt_schedule k = Some k'" "rt_current_thread k' = Some t" "tlists k (ReadyQ p) = t # ts"
      "\<forall>j < p. tlists k (ReadyQ j) = []" "thread_stat k t = RT_THREAD_READY" "thread_prio k t = p"
    by blast
  have "p \<le> thread_prio k v" if "thread_stat k v = RT_THREAD_READY" for v
    using ready_listed(1)[OF assms(1) that] s(4) by (metis empty_iff list.set(1) not_less)
  with s schedule_ok[OF s(1) assms(1)] show ?thesis by blast
qed

theorem schedule_most_urgent_witness:
  "\<exists>k' t ts. rt_schedule ex_kernel = Some k' \<and> rt_current_thread k' = Some t \<and>
     (\<forall>v. thread_stat ex_kernel v = RT_THREAD_READY \<longrightarrow> thread_prio ex_kernel t \<le> thread_prio ex_kernel v)"
  using schedule_most_urgent[OF ex_sched_ok ex_sel(6,3)] by blast

text \<open>C12: Round robin: when the running thread yields and another thread of its priority is ready
  and none is more urgent, that thread runs next and the yielding thread goes to the end of
  their queue.\<close>

theorem yield_round_robin:
  assumes "sched_ok k" and "rt_current_thread k = Some t" and "rt_scheduler_lock_nest k = 0"
    and "tlists k (ReadyQ (thread_prio k t)) = t # u # us"
    and "\<forall>p < thread_prio k t. tlists k (ReadyQ p) = []"
  shows "\<exists>k'. rt_thread_yield k = Some k' \<and> sched_ok k' \<and> rt_current_thread k' = Some u \<and>
     tlists k' (ReadyQ (thread_prio k t)) = u # us @ [t] \<and> threads k' = threads k"
proof -
  let ?p = "thread_prio k t"
  have "on_list k t = Some (ReadyQ ?p)"
    using lists_ok_mem[OF sched_okD(1)[OF assms(1)], of t "ReadyQ ?p"] assms(4) by simp
  then have st: "thread_stat k t = RT_THREAD_READY"
    using sched_okD(3)[OF assms(1), of t] thread_ok_ready_list(1)[of "threads k t" ?p] by simp
  from yield_ok[OF assms(1,2) st] assms(4) obtain k' k2 where
    k': "rt_thread_yield k = Some k'" "sched_ok k'" "threads k' = threads k"
     and tl: "tlists k' = (tlists k)(ReadyQ ?p := remove1 t (tlists k (ReadyQ ?p)) @ [t])"
     and k2: "rt_schedule k2 = Some k'" "sched_ok k2" "tlists k2 = tlists k'" "threads k2 = threads k"
       "rt_scheduler_lock_nest k2 = rt_scheduler_lock_nest k"
    by auto
  have q: "tlists k' (ReadyQ ?p) = u # us @ [t]" using assms(4) by (simp add: tl)
  then have "tlists k2 (ReadyQ ?p) \<noteq> []" using k2(3) by simp
  then have sr: "someone_ready k2" unfolding someone_ready_def by blast
  from schedule_total[OF k2(2) sr] k2(1,5) assms(3) obtain v vs r where
    v: "rt_current_thread k' = Some v" "tlists k2 (ReadyQ r) = v # vs" "\<forall>j < r. tlists k2 (ReadyQ j) = []"
    by auto
  have "r = ?p"
  proof (rule antisym)
    show "r \<le> ?p" using v(3) q k2(3) by (metis list.distinct(1) not_less)
    show "?p \<le> r"
    proof (rule ccontr)
      assume "\<not> ?p \<le> r"
      then have "r < ?p" by simp
      then have "tlists k (ReadyQ r) = []" "r \<noteq> ?p" using assms(5) by auto
      then have "tlists k' (ReadyQ r) = []" unfolding tl by simp
      with v(2) k2(3) show False by simp
    qed
  qed
  then have "v = u" using v(2) q k2(3) by simp
  with k' q v(1) show ?thesis by blast
qed

theorem yield_round_robin_witness:
  "\<exists>k'. rt_thread_yield ex_kernel = Some k' \<and> rt_current_thread k' = Some 5 \<and> tlists k' (ReadyQ 10) = [5, 2]"
proof -
  have p: "thread_prio ex_kernel 2 = 10" by (simp add: ex_kernel_def ex_thread_def)
  have "\<forall>p < thread_prio ex_kernel 2. tlists ex_kernel (ReadyQ p) = []"
    unfolding p by (auto simp: ex_kernel_def)
  from yield_round_robin[OF ex_sched_ok ex_sel(1,3) _ this, of 5 "[]"] show ?thesis by (auto simp add: p)
qed

text \<open>Inside a critical section rt_schedule does nothing; leaving the section restores the
  nesting level, and leaving the outermost one switches as rt_schedule would have.\<close>

theorem critical_section_defers:
  assumes "0 \<le> sint (rt_scheduler_lock_nest k)" and "sint (rt_scheduler_lock_nest k) < 2 ^ 15 - 1"
  shows "rt_schedule (rt_enter_critical k) = Some (rt_enter_critical k) \<and>
     rt_exit_critical (rt_enter_critical k) = (if rt_scheduler_lock_nest k = 0 then rt_schedule k else Some k)"
proof -
  let ?n = "rt_scheduler_lock_nest k"
  have "?n + 1 \<noteq> 0"
  proof
    assume "?n + 1 = 0"
    then have "?n = - 1" by (simp add: eq_neg_iff_add_eq_0)
    then have "sint ?n = - 1" by simp
    with assms(1) show False by simp
  qed
  then have "rt_schedule (rt_enter_critical k) = Some (rt_enter_critical k)"
    by (simp add: rt_schedule_def[of "rt_enter_critical k"]) (simp add: rt_enter_critical_def)
  moreover have x: "rt_exit_critical (rt_enter_critical k) =
      (if sint ?n \<le> 0 then rt_schedule (k\<lparr>rt_scheduler_lock_nest := 0\<rparr>) else Some k)"
    by (simp add: rt_enter_critical_def rt_exit_critical_def Let_def)
  moreover have "sint ?n \<le> 0 \<longleftrightarrow> ?n = 0"
    using assms(1) by (metis order_antisym order_refl signed_eq_0_iff)
  moreover have "k\<lparr>rt_scheduler_lock_nest := 0\<rparr> = k" if "?n = 0" using that by (cases k) simp
  ultimately show ?thesis by (metis (no_types, lifting))
qed

theorem critical_section_defers_witness:
  "rt_schedule (rt_enter_critical ex_kernel) = Some (rt_enter_critical ex_kernel) \<and>
   rt_exit_critical (rt_enter_critical ex_kernel) = rt_schedule ex_kernel"
  using critical_section_defers[of ex_kernel] by simp

section \<open>Threads\<close>

text \<open>A thread that sleeps is suspended with its timer armed for the given number of ticks
  from now, and another thread runs.\<close>

theorem sleep_suspends:
  assumes "kernel_ok k" and "rt_current_thread k = Some t" and "thread_stat k t = RT_THREAD_READY"
    and "thread_stat k i = RT_THREAD_READY" and "i \<noteq> t" and "tick < TICK_HALF" and "rt_scheduler_lock_nest k = 0"
  shows "\<exists>k'. rt_thread_sleep tick k = Some k' \<and> kernel_ok k' \<and> thread_stat k' t = RT_THREAD_SUSPEND \<and>
     ThreadTimer t \<in> set (rt_timer_list k') \<and> tm_timeout_tick (timers k' (ThreadTimer t)) = rt_tick k + tick \<and>
     rt_current_thread k' \<noteq> Some t"
  using sleep_ok[OF assms(1-6)] assms(7) by blast

theorem sleep_suspends_witness:
  "\<exists>k'. rt_thread_sleep 7 ex_kernel = Some k' \<and> kernel_ok k' \<and> thread_stat k' 2 = RT_THREAD_SUSPEND \<and>
     tm_timeout_tick (timers k' (ThreadTimer 2)) = 107 \<and> rt_current_thread k' \<noteq> Some 2"
  using sleep_suspends[OF ex_kernel_ok ex_sel(1,7,6), of 7] by auto

text \<open>A thread that was initialised with a valid priority and a stack of at least 72 bytes can
  be started: rt_thread_init leaves the kernel invariant intact and the thread startable, and
  rt_thread_startup makes it ready at the end of the queue of its priority.\<close>

theorem thread_init_startup:
  assumes "kernel_ok k" and "on_list k t = None" and "\<not> timer_linked k (ThreadTimer t)"
    and "unat stack_start + unat stack_size < 2 ^ 32" and "72 \<le> unat stack_size" and "stack_start \<noteq> 0"
    and "unat priority < RT_THREAD_PRIORITY_MAX"
    and "ObjThread t \<notin> set (object_list k RT_Object_Class_Thread)"
    and "ObjTimer (ThreadTimer t) \<notin> set (object_list k RT_Object_Class_Timer)"
  shows "\<exists>k1 k2. rt_thread_init t name entry parameter stack_start stack_size priority tick texit k = Some k1 \<and>
     kernel_ok k1 \<and> thread_stat k1 t = RT_THREAD_INIT \<and>
     rt_thread_startup t k1 = Some k2 \<and> kernel_ok k2 \<and> thread_stat k2 t = RT_THREAD_READY \<and>
     tlists k2 (ReadyQ (unat priority)) = tlists k (ReadyQ (unat priority)) @ [t] \<and>
     th_current_priority (threads k2 t) = priority"
proof -
  have "ObjThread t \<notin> set (object_list k (class_of (ObjThread t)))" using assms(8) by simp
  note oi = object_init_eq[OF this, of name]
  then obtain k0 where k0: "rt_object_init (ObjThread t) name k = Some k0" by (rule that)
  note fr = object_init_frame[OF k0]
  have ok0: "kernel_ok k0" using object_init_kernel_ok[OF k0] assms(1) by simp
  have e0: "on_list k0 = on_list k" "rt_timer_list k0 = rt_timer_list k" "rt_soft_timer_list k0 = rt_soft_timer_list k"
    "tlists k0 = tlists k" by (subst fr, simp)+
  have "object_list k0 RT_Object_Class_Timer = object_list k RT_Object_Class_Timer"
    using oi k0 by (auto simp: upd_obj_def)
  then have fresh: "ObjTimer (ThreadTimer t) \<notin> set (object_list k0 RT_Object_Class_Timer)" using assms(9) by simp
  have d0: "on_list k0 t = None" "\<not> timer_linked k0 (ThreadTimer t)"
    using assms(2,3) by (simp_all add: e0 timer_linked_def)
  from thread_init_core_ok[OF ok0 d0 assms(4,5,7) fresh] obtain k1 where
    k1: "thread_init_core t entry parameter stack_start stack_size priority tick texit k0 = Some k1" "kernel_ok k1"
      "startable k1 t" "th_init_priority (threads k1 t) = priority" "tlists k1 = tlists k0"
    by blast
  from startup_ok[OF k1(2,3)] obtain k2 where
    k2: "rt_thread_startup t k1 = Some k2" "kernel_ok k2" "thread_stat k2 t = RT_THREAD_READY"
      "tlists k2 (ReadyQ (unat (th_init_priority (threads k1 t)))) =
         tlists k1 (ReadyQ (unat (th_init_priority (threads k1 t)))) @ [t]"
      "th_current_priority (threads k2 t) = th_init_priority (threads k1 t)"
    by blast
  have "rt_thread_init t name entry parameter stack_start stack_size priority tick texit k = Some k1"
    using assms(6) k0 k1(1) by (simp add: rt_thread_init_def)
  moreover have "thread_stat k1 t = RT_THREAD_INIT" using k1(3) by (simp only: startable_def)
  ultimately show ?thesis using k1(2) k2 unfolding k1(4,5) e0 by blast
qed

theorem thread_init_startup_witness:
  "\<exists>k1 k2. rt_thread_init 9 [] 0x8000 0 0x2000 0x100 20 5 0x9000 ex_kernel = Some k1 \<and> rt_thread_startup 9 k1 = Some k2 \<and>
     kernel_ok k2 \<and> thread_stat k2 9 = RT_THREAD_READY \<and> tlists k2 (ReadyQ 20) = [9]"
proof -
  have f: "on_list ex_kernel 9 = None" "\<not> timer_linked ex_kernel (ThreadTimer 9)"
    "ObjThread 9 \<notin> set (object_list ex_kernel RT_Object_Class_Thread)"
    "ObjTimer (ThreadTimer 9) \<notin> set (object_list ex_kernel RT_Object_Class_Timer)" "tlists ex_kernel (ReadyQ 20) = []"
    by (simp_all add: ex_kernel_def timer_linked_def)
  from thread_init_startup[OF ex_kernel_ok f(1,2) _ _ _ _ f(3,4), where stack_start = "0x2000" and stack_size = "0x100"
      and priority = 20 and name = "[]" and entry = "0x8000" and parameter = 0 and tick = 5 and texit = "0x9000"]
  show ?thesis by (auto simp: f(5))
qed

text \<open>A thread that exits is closed and never scheduled again: it is on no ready or wait list,
  its timer is not linked, another thread runs, and it is left to the idle thread for cleanup
  unless it is a static thread without a cleanup function.\<close>

theorem thread_exit_closes:
  assumes "kernel_ok k" and "rt_current_thread k = Some t" and "thread_stat k t = RT_THREAD_READY"
    and "thread_stat k i = RT_THREAD_READY" and "i \<noteq> t" and "rt_scheduler_lock_nest k = 0"
  shows "\<exists>k'. rt_thread_exit k = Some k' \<and> kernel_ok k' \<and> thread_stat k' t = RT_THREAD_CLOSE \<and>
     \<not> timer_linked k' (ThreadTimer t) \<and> rt_current_thread k' \<noteq> Some t \<and>
     on_list k' t = (if rt_object_is_systemobject (ObjThread t) k \<and> \<not> th_cleanup (threads k t) then None else Some DefunctQ)"
proof -
  from thread_exit_ok[OF assms(1-5)] obtain k' where
    k': "rt_thread_exit k = Some k'" "kernel_ok k'" "thread_stat k' t = RT_THREAD_CLOSE" "\<not> timer_linked k' (ThreadTimer t)"
     "rt_object_is_systemobject (ObjThread t) k \<and> \<not> th_cleanup (threads k t) \<longrightarrow> on_list k' t = None"
     "\<not> (rt_object_is_systemobject (ObjThread t) k \<and> \<not> th_cleanup (threads k t)) \<longrightarrow> on_list k' t = Some DefunctQ"
     "rt_scheduler_lock_nest k = 0 \<longrightarrow> rt_current_thread k' \<noteq> Some t"
    by blast
  moreover have "on_list k' t = (if rt_object_is_systemobject (ObjThread t) k \<and> \<not> th_cleanup (threads k t) then None else Some DefunctQ)"
    using k'(5,6) by simp
  ultimately show ?thesis using assms(6) by blast
qed

theorem thread_exit_closes_witness:
  "\<exists>k'. rt_thread_exit ex_kernel = Some k' \<and> kernel_ok k' \<and> thread_stat k' 2 = RT_THREAD_CLOSE \<and> on_list k' 2 = None"
proof -
  have "rt_object_is_systemobject (ObjThread 2) ex_kernel" "\<not> th_cleanup (threads ex_kernel 2)"
    by (simp_all add: rt_object_is_systemobject_def ex_kernel_def ex_thread_def)
  then show ?thesis using thread_exit_closes[OF ex_kernel_ok ex_sel(1,7,6) _ ex_sel(3)] by auto
qed

section \<open>Time\<close>





text \<open>A one-shot timer that its own timeout function has started again stays in the timer list
  when the interrupt finishes with it, but without the activation flag: rt_timer_stop then
  reports an error and leaves it linked.\<close>

theorem restarted_oneshot_unstoppable:
  assumes "timer_linked k i" and "\<not> timer_periodic k i"
  shows "\<exists>k'. timer_rearm i k = Some k' \<and> timer_linked k' i \<and> rt_timer_stop i k' = (RT_ERROR, k')"
  using assms by (simp add: timer_rearm_def rt_timer_stop_def timer_linked_def)

theorem restarted_oneshot_unstoppable_witness:
  "\<exists>k'. timer_rearm (UserTimer 0) ex_kernel = Some k' \<and> timer_linked k' (UserTimer 0) \<and>
     rt_timer_stop (UserTimer 0) k' = (RT_ERROR, k')"
  by (rule restarted_oneshot_unstoppable) (simp_all add: timer_linked_def ex_timer_flags)

text \<open>Milliseconds are converted to ticks without loss at 1000 ticks per second up to 2147482
  ms, a negative time means waiting for ever, and every larger time overflows the int
  product although the interface allows times up to 0x7fffffff.\<close>

theorem tick_from_millisecond_range:
  "rt_tick_from_millisecond ms =
     (if ms < 0 then Some RT_WAITING_FOREVER else if ms \<le> 2147482 then Some ms else None)"
proof -
  have d: "(1000 * ms + 999) div 1000 = ms" for ms :: int by simp
  show ?thesis by (cases "ms < 0"; cases "ms \<le> 2147482") (simp_all add: rt_tick_from_millisecond_def d)
qed

section \<open>Objects\<close>

text \<open>An object that was just registered is found under the name it was registered with (at
  most RT_NAME_MAX bytes of which are kept and compared), and the search changes nothing but
  for the switch that leaving its critical section makes.\<close>

theorem object_find_after_init:
  assumes "ob \<notin> set (object_list k (class_of ob))" and "0 \<notin> set name"
    and "rt_interrupt_nest k = 0" and "rt_schedule k1 = Some k2" and "rt_scheduler_lock_nest k = 0"
    and "rt_object_init ob name k = Some k1"
  shows "rt_object_find (Some name) (class_value (class_of ob)) k1 = Some (Some ob, k2)"
proof -
  have k1: "k1 = (upd_obj ob (\<lambda>x. x\<lparr>ob_type := class_value (class_of ob) OR RT_Object_Class_Static,
            ob_name := rt_strncpy name RT_NAME_MAX\<rparr>) k)
          \<lparr>object_list := (object_list k)(class_of ob := ob # object_list k (class_of ob))\<rparr>"
    using object_init_eq[OF assms(1), of name] assms(6) by simp
  have nest: "rt_scheduler_lock_nest k1 = 0" "rt_interrupt_nest k1 = 0" using assms(3,5) by (simp_all add: k1 upd_obj_def)
  have cv: "\<not> class_value (class_of ob) > class_value RT_Object_Class_Unknown" by (cases ob) simp_all
  have nm: "rt_strncmp (ob_name (objs k1 ob)) name RT_NAME_MAX = 0"
    using strncmp_strncpy[OF assms(2,2)] by (simp add: k1 upd_obj_def)
  have hd: "object_list k1 (class_of ob) = ob # object_list k (class_of ob)" by (simp add: k1)
  have e: "objs (rt_enter_critical k1) = objs k1" "object_list (rt_enter_critical k1) = object_list k1"
    by (simp_all add: rt_enter_critical_def)
  have "rt_exit_critical (rt_enter_critical k1) = rt_schedule k1" by (rule critical_pair[OF nest(1)])
  then show ?thesis
    using cv nm nest(2) assms(4)
    by (simp add: rt_object_find_def RT_DEBUG_NOT_IN_INTERRUPT_def rt_interrupt_get_nest_def e hd)
qed

theorem object_find_after_init_witness:
  "\<exists>k1 k2. rt_object_init (ObjThread 9) [0x74, 0x39] ex_kernel = Some k1 \<and> rt_schedule k1 = Some k2 \<and>
     rt_object_find (Some [0x74, 0x39]) (class_value RT_Object_Class_Thread) k1 = Some (Some (ObjThread 9), k2)"
proof -
  have f: "ObjThread 9 \<notin> set (object_list ex_kernel (class_of (ObjThread 9)))" by (simp add: ex_kernel_def)
  then obtain k1 where k1: "rt_object_init (ObjThread 9) [0x74, 0x39] ex_kernel = Some k1"
    using object_init_eq by blast
  note fr = object_init_frame[OF k1]
  have "kernel_ok k1" using object_init_kernel_ok[OF k1] ex_kernel_ok by simp
  then have ok: "sched_ok k1" by (simp add: kernel_ok_def)
  have e: "thread_stat k1 0 = RT_THREAD_READY" "rt_scheduler_lock_nest k1 = 0" by (subst fr, simp)+
  obtain k2 where k2: "rt_schedule k1 = Some k2" using schedule_total[OF ok ready_listed(2)[OF ok e(1)] e(2)] by blast
  from object_find_after_init[OF f _ ex_sel(2) k2 ex_sel(3) k1] k1 k2 show ?thesis by simp
qed

section \<open>The data structures below\<close>

text \<open>C10: The circular doubly linked lists of rtservice.h implement the thread lists of the kernel:
  on every store that represents them, linking a free thread at the tail or at the head,
  unlinking a thread and testing for emptiness compute what the list operations say.\<close>

theorem linked_lists_refine_thread_lists:
  assumes "lists_ok k" and "rep s (tlists k)" and "on_list k t = None"
  shows "rep (rt_list_insert_before (Head q) (Node t) s) (tlists (link_tail q t k)) \<and>
     rep (rt_list_insert_after (Head q) (Node t) s) (tlists (link_head q t k)) \<and>
     rep (rt_list_remove (Node u) s) (tlists (unlink_thread u k)) \<and>
     (rt_list_isempty (Head q) s \<longleftrightarrow> tlist_isempty q k)"
  using pointer_lists_simulate[OF assms(1,2)] assms(3) by blast

theorem linked_lists_refine_thread_lists_witness:
  "\<exists>s. rep s (tlists (ex_kernel\<lparr>tlists := \<lambda>_. [], on_list := \<lambda>_. None\<rparr>)) \<and>
     rep (rt_list_insert_before (Head (SemQ 0)) (Node 5) s)
       (tlists (link_tail (SemQ 0) 5 (ex_kernel\<lparr>tlists := \<lambda>_. [], on_list := \<lambda>_. None\<rparr>)))"
proof -
  let ?k = "ex_kernel\<lparr>tlists := \<lambda>_. [], on_list := \<lambda>_. None\<rparr>"
  let ?s = "\<lparr>lnext = \<lambda>n. n, lprev = \<lambda>n. n\<rparr>"
  have "lists_ok ?k" by (simp add: lists_ok_def)
  moreover have "rep ?s (tlists ?k)" by (simp add: rep_def ring_def)
  moreover have "on_list ?k 5 = None" by simp
  ultimately show ?thesis using linked_lists_refine_thread_lists[of ?k ?s 5 "SemQ 0" 5] by blast
qed

text \<open>C15: The table-driven search of the scheduler for the most urgent ready priority is right on
  every 32-bit group: it returns 0 for no bit set and otherwise one more than the position of
  the lowest set bit.\<close>

theorem ffs_lowest_set_bit:
  "rt_ffs v = (if v = 0 then 0 else Suc (LEAST i. bit v i))"
proof (cases "v = 0")
  case False
  from ffs_spec[OF this] obtain i where i: "rt_ffs v = Suc i" "bit v i" "\<forall>j < i. \<not> bit v j" by blast
  have "(LEAST i. bit v i) = i" using i(2,3) by (intro Least_equality) (auto simp: not_less[symmetric])
  with i(1) False show ?thesis by simp
qed (simp add: rt_ffs_def)

end
