(* ===== verification/Fifo.thy ===== *)
theory Fifo
  imports Prelude
begin

text \<open>
  The contract of a bounded first-in first-out queue, shared by the mailbox, the message queue
  and the ring buffer, and the facts on circular arrays with which the array-based ones discharge it; the
  data queue uses these facts too.
\<close>

section \<open>The contract\<close>

locale bounded_fifo =
  fixes ok :: "'s \<Rightarrow> bool" and valid :: "'s \<Rightarrow> 'a \<Rightarrow> bool" and contents :: "'s \<Rightarrow> 'a list"
    and capacity :: "'s \<Rightarrow> nat" and put :: "'a \<Rightarrow> 's \<Rightarrow> 's" and get :: "'s \<Rightarrow> 'a \<times> 's"
  assumes put: "ok s \<Longrightarrow> valid s x \<Longrightarrow> length (contents s) < capacity s \<Longrightarrow>
      ok (put x s) \<and> contents (put x s) = contents s @ [x] \<and> capacity (put x s) = capacity s \<and>
      valid (put x s) = valid s"
    and get: "ok s \<Longrightarrow> contents s = x # xs \<Longrightarrow>
      ok (snd (get s)) \<and> fst (get s) = x \<and> contents (snd (get s)) = xs \<and> capacity (snd (get s)) = capacity s"
    and bounded: "ok s \<Longrightarrow> length (contents s) \<le> capacity s"
begin

primrec gets :: "nat \<Rightarrow> 's \<Rightarrow> 'a list \<times> 's" where
  "gets 0 s = ([], s)"
| "gets (Suc n) s = (let (x, s) = get s; (xs, s) = gets n s in (x # xs, s))"

lemma puts:
  assumes "ok s" and "\<forall>x \<in> set xs. valid s x" and "length (contents s) + length xs \<le> capacity s"
  shows "ok (fold put xs s) \<and> contents (fold put xs s) = contents s @ xs \<and> capacity (fold put xs s) = capacity s"
  using assms
proof (induction xs arbitrary: s)
  case (Cons x xs)
  then show ?case using put[of s x] Cons.IH[of "put x s"] by auto
qed simp

lemma gets:
  assumes "ok s" and "n \<le> length (contents s)"
  shows "ok (snd (gets n s)) \<and> fst (gets n s) = take n (contents s) \<and>
    contents (snd (gets n s)) = drop n (contents s) \<and> capacity (snd (gets n s)) = capacity s"
  using assms
proof (induction n arbitrary: s)
  case (Suc n)
  from Suc.prems obtain x xs where c: "contents s = x # xs" by (cases "contents s") auto
  show ?case
    using get[OF Suc.prems(1) c] Suc.IH[of "snd (get s)"] Suc.prems(2) c
    by (auto simp: split_beta)
qed simp

text \<open>Elements come out in the order in which they went in, behind those that were there.\<close>

lemma first_in_first_out:
  assumes "ok s" and "\<forall>x \<in> set xs. valid s x" and "length (contents s) + length xs \<le> capacity s"
  shows "fst (gets (length (contents s) + length xs) (fold put xs s)) = contents s @ xs"
  using puts[OF assms] gets[of "fold put xs s" "length (contents s) + length xs"] by auto

end

section \<open>Circular arrays\<close>

definition circ :: "'a list \<Rightarrow> nat \<Rightarrow> nat \<Rightarrow> 'a list" where
  "circ pool out n = map (\<lambda>j. pool ! ((out + j) mod length pool)) [0..<n]"

lemma length_circ [simp]: "length (circ pool out n) = n"
  by (simp add: circ_def)

lemma circ_nth: "j < n \<Longrightarrow> circ pool out n ! j = pool ! ((out + j) mod length pool)"
  by (simp add: circ_def)

lemma circ_distinct_slots:
  fixes a b m n :: nat
  assumes "a < m" "b < m" "a \<noteq> b"
  shows "(n + a) mod m \<noteq> (n + b) mod m"
proof
  have aux: False if "(n + c) mod m = (n + d) mod m" "c < d" "d < m" for c d
  proof -
    have "m dvd n + d - (n + c)" using that(1,2) mod_eq_dvd_iff_nat[of "n + c" "n + d" m] by simp
    then have "m dvd d - c" by simp
    then have "m \<le> d - c" using that(2) by (intro dvd_imp_le) simp_all
    with that(3) show False by simp
  qed
  assume "(n + a) mod m = (n + b) mod m"
  with aux[of a b] aux[of b a] assms show False by (metis linorder_neqE_nat)
qed

lemma circ_put:
  assumes "n < length pool"
  shows "circ (pool[(out + n) mod length pool := x]) out (Suc n) = circ pool out n @ [x]"
proof (rule nth_equalityI)
  fix j assume "j < length (circ (pool[(out + n) mod length pool := x]) out (Suc n))"
  then have j: "j < Suc n" by simp
  have l: "(out + n) mod length pool < length pool" by (rule mod_less_divisor) (rule le_less_trans[OF le0 assms])
  show "circ (pool[(out + n) mod length pool := x]) out (Suc n) ! j = (circ pool out n @ [x]) ! j"
  proof (cases "j = n")
    case True
    then show ?thesis using l by (simp add: circ_nth nth_append)
  next
    case False
    with j have "j < n" by simp
    then have "(out + j) mod length pool \<noteq> (out + n) mod length pool"
      using circ_distinct_slots[of j "length pool" n out] assms by simp
    then show ?thesis using \<open>j < n\<close> by (simp add: circ_nth nth_append)
  qed
qed simp

lemma circ_mod: "circ pool (out mod length pool) n = circ pool out n"
  by (simp add: circ_def mod_simps)

lemma circ_get:
  assumes "0 < n"
  shows "circ pool out n = pool ! (out mod length pool) # circ pool (Suc out) (n - 1)"
proof (rule nth_equalityI)
  fix j assume "j < length (circ pool out n)"
  with assms show "circ pool out n ! j = (pool ! (out mod length pool) # circ pool (Suc out) (n - 1)) ! j"
    by (cases j) (auto simp: circ_nth)
qed (use assms in simp)

lemma mod_once: "s \<le> x \<Longrightarrow> x < s + s \<Longrightarrow> x mod s = x - (s :: nat)"
  by (simp add: mod_if)

text \<open>A block written behind the last element of a circular array, over its first e elements.\<close>

lemma circ_block:
  assumes len: "length pool' = length pool" and e: "e \<le> n" "n + m - e \<le> length pool" "n \<le> length pool" "m \<le> length xs"
    and hit: "\<forall>j < m. pool' ! ((out + n + j) mod length pool) = xs ! j"
    and miss: "\<forall>i < length pool. (\<forall>j < m. i \<noteq> (out + n + j) mod length pool) \<longrightarrow> pool' ! i = pool ! i"
  shows "circ pool' (out + e) (n + m - e) = drop e (circ pool out n @ take m xs)"
proof (rule nth_equalityI)
  show "length (circ pool' (out + e) (n + m - e)) = length (drop e (circ pool out n @ take m xs))"
    using e by simp
  fix j assume "j < length (circ pool' (out + e) (n + m - e))"
  then have j: "j < n + m - e" by simp
  have l: "circ pool' (out + e) (n + m - e) ! j = pool' ! ((out + e + j) mod length pool)"
    using j by (simp add: circ_nth len)
  show "circ pool' (out + e) (n + m - e) ! j = drop e (circ pool out n @ take m xs) ! j"
  proof (cases "e + j < n")
    case True
    have "(out + e + j) mod length pool \<noteq> (out + n + i) mod length pool" if "i < m" for i
    proof -
      have "(out + e + j) mod length pool \<noteq> (out + e + (n + i - e)) mod length pool"
        using True that e j by (intro circ_distinct_slots) linarith+
      moreover have "out + e + (n + i - e) = out + n + i" using e(1) by simp
      ultimately show ?thesis by simp
    qed
    moreover have "(out + e + j) mod length pool < length pool" using j e(2) by (intro mod_less_divisor) linarith
    ultimately have "pool' ! ((out + e + j) mod length pool) = pool ! ((out + e + j) mod length pool)"
      using miss by blast
    moreover have "drop e (circ pool out n @ take m xs) ! j = (circ pool out n @ take m xs) ! (e + j)"
      using e(1) by (subst nth_drop) simp_all
    ultimately show ?thesis using True l by (simp add: nth_append circ_nth add.assoc)
  next
    case False
    define i where "i = e + j - n"
    have i: "i < m" "out + e + j = out + n + i" "e + j = n + i" using False j by (simp_all add: i_def)
    have "drop e (circ pool out n @ take m xs) ! j = (circ pool out n @ take m xs) ! (e + j)"
      using e(1) by (subst nth_drop) simp_all
    also have "\<dots> = xs ! i" unfolding i(3) using i(1) by (simp add: nth_append)
    finally show ?thesis using l hit i(1) unfolding i(2) by simp
  qed
qed

end
