(* ===== verification/Ipc.thy ===== *)
theory Ipc
  imports Clock Fifo
begin

text \<open>
  The part of rt-thread/src/ipc.c that every kind of IPC object uses: suspending a thread on
  the wait list of an object in FIFO or priority order, resuming the first waiter, resuming
  them all, and the sequence suspend, arm the timer, switch with which every blocking call
  ends.
\<close>

section \<open>Operations\<close>

text \<open>What a call does: it returns a value, or it has suspended its thread and goes on in the
  function with the suffix _resumed when the thread runs again.\<close>

datatype 'a outcome = Return 'a | Blocked

text \<open>Initialising the head of a list with waiters would leave them linked to each other:
  None.\<close>

definition rt_ipc_object_init :: "list_id \<Rightarrow> kernel \<Rightarrow> kernel option" where
  "rt_ipc_object_init q k = (if tlist_isempty q k then Some k else None)"

text \<open>A flag that is neither FIFO nor PRIO links the thread nowhere.\<close>

definition rt_ipc_list_suspend :: "list_id \<Rightarrow> tid \<Rightarrow> u8 \<Rightarrow> kernel \<Rightarrow> kernel option" where
  "rt_ipc_list_suspend q t flag k =
     do { (_, k) \<leftarrow> rt_thread_suspend t k;
          if flag = RT_IPC_FLAG_FIFO then tlist_insert_before q t k
          else if flag = RT_IPC_FLAG_PRIO
          then (case List.find (\<lambda>s. th_current_priority (threads k t) < th_current_priority (threads k s)) (tlists k q) of
                  Some s \<Rightarrow> tlist_insert_before_thread q s t k
                | None \<Rightarrow> tlist_insert_before q t k)
          else Some k }"

text \<open>On an empty list the code takes the list head for a thread: None.\<close>

definition rt_ipc_list_resume :: "list_id \<Rightarrow> kernel \<Rightarrow> kernel option" where
  "rt_ipc_list_resume q k =
     (case tlists k q of
        [] \<Rightarrow> None
      | t # _ \<Rightarrow> map_option snd (rt_thread_resume t k))"

partial_function (option) rt_ipc_list_resume_all :: "list_id \<Rightarrow> kernel \<Rightarrow> kernel option" where
  "rt_ipc_list_resume_all q k =
     (case tlists k q of
        [] \<Rightarrow> Some k
      | t # _ \<Rightarrow>
          do { (_, k) \<leftarrow> rt_thread_resume t (upd_thread t (\<lambda>th. th\<lparr>th_error := RT_ERROR\<rparr>) k);
               rt_ipc_list_resume_all q k })"

text \<open>\<open>if (time > 0) { rt_timer_control(...); rt_timer_start(...); }\<close>, time being signed.\<close>

definition start_thread_timer :: "tid \<Rightarrow> u32 \<Rightarrow> kernel \<Rightarrow> kernel option" where
  "start_thread_timer t time k =
     (if 0 < sint time
      then rt_timer_start (ThreadTimer t)
             (snd (rt_timer_control (ThreadTimer t) (RT_TIMER_CTRL_SET_TIME time) k))
      else Some k)"

definition ipc_block :: "list_id \<Rightarrow> tid \<Rightarrow> u8 \<Rightarrow> u32 \<Rightarrow> kernel \<Rightarrow> kernel option" where
  "ipc_block q t flag time k =
     do { k \<leftarrow> rt_ipc_list_suspend q t flag k;
          k \<leftarrow> start_thread_timer t time k;
          rt_schedule k }"

text \<open>Wake the first waiter, if there is one, and switch if it is more urgent.\<close>

definition wake_first :: "list_id \<Rightarrow> kernel \<Rightarrow> kernel option" where
  "wake_first q k =
     (if \<not> tlist_isempty q k then do { k \<leftarrow> rt_ipc_list_resume q k; rt_schedule k } else Some k)"

lemmas context_defs =
  RT_DEBUG_IN_THREAD_CONTEXT_def RT_DEBUG_NOT_IN_INTERRUPT_def rt_interrupt_get_nest_def rt_thread_self_def

section \<open>The order of the waiters\<close>

definition ipc_insert :: "u8 \<Rightarrow> (tid \<Rightarrow> u8) \<Rightarrow> tid \<Rightarrow> tid list \<Rightarrow> tid list" where
  "ipc_insert flag prio t ts =
     (if flag = RT_IPC_FLAG_PRIO
      then takeWhile (\<lambda>s. prio s \<le> prio t) ts @ t # dropWhile (\<lambda>s. prio s \<le> prio t) ts
      else ts @ [t])"

lemma find_takeWhile:
  "List.find P xs = Some s \<Longrightarrow>
     takeWhile (\<lambda>x. x \<noteq> s) xs = takeWhile (\<lambda>x. \<not> P x) xs \<and> dropWhile (\<lambda>x. x \<noteq> s) xs = dropWhile (\<lambda>x. \<not> P x) xs"
  by (induction xs) (auto split: if_splits simp: find_Some_iff)

lemma find_None_takeWhile:
  "List.find P xs = None \<Longrightarrow> takeWhile (\<lambda>x. \<not> P x) xs = xs \<and> dropWhile (\<lambda>x. \<not> P x) xs = []"
  by (induction xs) (auto split: if_splits)

text \<open>In priority order the list stays sorted, and a new waiter goes behind its equals.\<close>

lemma ipc_insert_sorted:
  assumes "sorted (map (\<lambda>s. unat (prio s)) ts)"
  shows "sorted (map (\<lambda>s. unat (prio s)) (ipc_insert RT_IPC_FLAG_PRIO prio t ts))"
  using sorted_stable_insert[OF assms, of t] by (simp add: ipc_insert_def word_le_nat_alt)

lemma set_ipc_insert [simp]: "set (ipc_insert flag prio t ts) = insert t (set ts)"
proof -
  have "set (takeWhile P ts) \<union> set (dropWhile P ts) = set ts" for P
    by (metis set_append takeWhile_dropWhile_id)
  then show ?thesis by (auto simp: ipc_insert_def)
qed

section \<open>Blocking\<close>

lemma list_suspend_ok:
  assumes ok: "kernel_ok k" and st: "thread_stat k t = RT_THREAD_READY"
    and q: "wait_list (Some q)" and flag: "flag = RT_IPC_FLAG_FIFO \<or> flag = RT_IPC_FLAG_PRIO"
  shows "\<exists>k'. rt_ipc_list_suspend q t flag k = Some k' \<and> kernel_ok k' \<and> thread_frame k k' \<and>
     threads k' = (threads k)(t := (threads k t)\<lparr>th_stat := RT_THREAD_SUSPEND OR (th_stat (threads k t) AND NOT RT_THREAD_STAT_MASK)\<rparr>) \<and>
     thread_stat k' t = RT_THREAD_SUSPEND \<and> on_list k' = (on_list k)(t := Some q) \<and>
     tlists k' = (\<lambda>r. remove1 t (tlists k r))(q := ipc_insert flag (\<lambda>s. th_current_priority (threads k s)) t (tlists k q))"
proof -
  from suspend_ok[OF ok st] obtain k1 where
    k1: "rt_thread_suspend t k = Some (RT_EOK, k1)" "kernel_ok k1" "thread_frame k k1" "thread_stat k1 t = RT_THREAD_SUSPEND"
      "on_list k1 = (on_list k)(t := None)" "\<forall>q. tlists k1 q = remove1 t (tlists k q)"
      "threads k1 = (threads k)(t := (threads k t)\<lparr>th_stat := RT_THREAD_SUSPEND OR (th_stat (threads k t) AND NOT RT_THREAD_STAT_MASK)\<rparr>)"
    by blast
  have "on_list k t = Some (ReadyQ (thread_prio k t))" using kernel_okD(5)[OF ok, of t] st by (simp add: thread_ok_def)
  then have "t \<notin> set (tlists k q)" using q lists_ok_mem[OF kernel_okD(4)[OF ok], of t q] by auto
  then have qe: "tlists k1 q = tlists k q" using k1(6) by (simp add: remove1_idem)
  have pr: "th_current_priority (threads k1 s) = th_current_priority (threads k s)" for s by (simp add: k1(7))
  let ?P = "\<lambda>s. th_current_priority (threads k t) < th_current_priority (threads k s)"
  define us vs where "us = (if flag = RT_IPC_FLAG_PRIO then takeWhile (\<lambda>s. \<not> ?P s) (tlists k q) else tlists k q)"
    and "vs = (if flag = RT_IPC_FLAG_PRIO then dropWhile (\<lambda>s. \<not> ?P s) (tlists k q) else [])"
  define k' where "k' = link_at q us t vs k1"
  have split: "tlists k1 q = us @ vs" by (simp add: us_def vs_def qe)
  have eq: "rt_ipc_list_suspend q t flag k = Some k'"
  proof (cases "flag = RT_IPC_FLAG_FIFO")
    case True
    then show ?thesis using k1(1,5)
      by (simp add: rt_ipc_list_suspend_def tlist_insert_before_def link_tail_at k'_def us_def vs_def qe)
  next
    case False
    with flag have "flag = RT_IPC_FLAG_PRIO" by simp
    note defs = rt_ipc_list_suspend_def k1(1) this k1(5) qe pr k'_def us_def vs_def
    show ?thesis
    proof (cases "List.find ?P (tlists k q)")
      case None
      then have "us = tlists k q" "vs = []"
        using find_None_takeWhile[OF None] by (simp_all only: us_def vs_def if_True simp_thms split: if_split)
      with None show ?thesis
        by (simp add: rt_ipc_list_suspend_def k1(1) \<open>flag = _\<close> k1(5) qe pr k'_def tlist_insert_before_def link_tail_at)
    next
      case (Some s)
      then show ?thesis using find_takeWhile[OF Some] by (simp add: defs tlist_insert_before_thread_def)
    qed
  qed
  have ok': "kernel_ok k'" unfolding k'_def using k1 q split by (intro wait_link_ok) auto
  have fr: "thread_frame k k'" unfolding k'_def by (rule thread_frame_trans[OF k1(3)]) simp
  have ins: "us @ t # vs = ipc_insert flag (\<lambda>s. th_current_priority (threads k s)) t (tlists k q)"
    using flag by (auto simp: us_def vs_def ipc_insert_def not_less)
  have e': "threads k' = threads k1" "on_list k' = (on_list k)(t := Some q)"
    by (simp_all add: k'_def link_at_def k1(5))
  have "tlists k' = (tlists k1)(q := us @ t # vs)" by (simp add: k'_def link_at_def)
  also have "tlists k1 = (\<lambda>r. remove1 t (tlists k r))" using k1(6) by blast
  finally have tl': "tlists k' = (\<lambda>r. remove1 t (tlists k r))(q := us @ t # vs)" .
  have "thread_stat k' t = RT_THREAD_SUSPEND" using k1(4) by (simp only: e')
  then show ?thesis using eq ok' fr e' tl' k1(7) unfolding ins by metis
qed

lemma start_thread_timer_ok:
  assumes ok: "kernel_ok k" and st: "thread_stat k t = RT_THREAD_SUSPEND" and time: "time \<noteq> 0x7fffffff"
  shows "\<exists>k'. start_thread_timer t time k = Some k' \<and> kernel_ok k' \<and> thread_frame k k' \<and>
     threads k' = threads k \<and> tlists k' = tlists k \<and> on_list k' = on_list k \<and>
     (0 < sint time \<longrightarrow> ThreadTimer t \<in> set (rt_timer_list k') \<and>
        tm_timeout_tick (timers k' (ThreadTimer t)) = rt_tick k + time)"
proof (cases "0 < sint time")
  case False
  then show ?thesis using ok by (simp add: start_thread_timer_def)
next
  case True
  define k1 where "k1 = upd_timer (ThreadTimer t) (\<lambda>tm. tm\<lparr>tm_init_tick := time\<rparr>) k"
  have fr: "thread_frame k k1" by (simp add: k1_def upd_timer_def thread_frame_def)
  have e: "threads k1 = threads k" "tlists k1 = tlists k" "on_list k1 = on_list k" "rt_tick k1 = rt_tick k"
    "tm_init_tick (timers k1 (ThreadTimer t)) = time" by (simp_all add: k1_def upd_timer_def)
  have lt: "time < TICK_HALF" using sint_pos_tick[OF True time] .
  have ok1: "kernel_ok k1" unfolding k1_def by (rule set_time_ok[OF ok])
  from thread_timer_start_ok[OF ok1, of t] st lt obtain k' where
    "rt_timer_start (ThreadTimer t) k1 = Some k'" "kernel_ok k'" "thread_frame k1 k'" "threads k' = threads k"
    "tlists k' = tlists k" "on_list k' = on_list k" "ThreadTimer t \<in> set (rt_timer_list k')"
    "tm_timeout_tick (timers k' (ThreadTimer t)) = rt_tick k + time"
    by (auto simp: e)
  then show ?thesis using True thread_frame_trans[OF fr]
    by (intro exI[of _ k']) (simp add: start_thread_timer_def rt_timer_control_def k1_def)
qed


lemma ipc_block_ok:
  assumes ok: "kernel_ok k" and st: "thread_stat k t = RT_THREAD_READY"
    and other: "thread_stat k i = RT_THREAD_READY" "i \<noteq> t"
    and q: "wait_list (Some q)" and flag: "flag = RT_IPC_FLAG_FIFO \<or> flag = RT_IPC_FLAG_PRIO"
    and time: "time \<noteq> 0x7fffffff"
  shows "\<exists>k1 k'. ipc_block q t flag time k = Some k' \<and> rt_schedule k1 = Some k' \<and> thread_frame k k1 \<and>
     kernel_ok k' \<and> thread_stat k' t = RT_THREAD_SUSPEND \<and>
     threads k' = (threads k)(t := (threads k t)\<lparr>th_stat := RT_THREAD_SUSPEND OR (th_stat (threads k t) AND NOT RT_THREAD_STAT_MASK)\<rparr>) \<and>
     tlists k' = (\<lambda>r. remove1 t (tlists k r))(q := ipc_insert flag (\<lambda>s. th_current_priority (threads k s)) t (tlists k q)) \<and>
     (0 < sint time \<longrightarrow> ThreadTimer t \<in> set (rt_timer_list k') \<and>
        tm_timeout_tick (timers k' (ThreadTimer t)) = rt_tick k + time) \<and>
     (rt_scheduler_lock_nest k = 0 \<longrightarrow> rt_current_thread k' \<noteq> Some t)"
proof -
  let ?th = "(threads k t)\<lparr>th_stat := RT_THREAD_SUSPEND OR (th_stat (threads k t) AND NOT RT_THREAD_STAT_MASK)\<rparr>"
  from list_suspend_ok[OF ok st q flag] obtain k1 where
    k1: "rt_ipc_list_suspend q t flag k = Some k1" "kernel_ok k1" "thread_frame k k1"
      "threads k1 = (threads k)(t := ?th)" "thread_stat k1 t = RT_THREAD_SUSPEND"
      "tlists k1 = (\<lambda>r. remove1 t (tlists k r))(q := ipc_insert flag (\<lambda>s. th_current_priority (threads k s)) t (tlists k q))"
    by blast
  from start_thread_timer_ok[OF k1(2,5) time] obtain k2 where
    k2: "start_thread_timer t time k1 = Some k2" "kernel_ok k2" "thread_frame k1 k2" "threads k2 = threads k1"
      "tlists k2 = tlists k1"
      "0 < sint time \<longrightarrow> ThreadTimer t \<in> set (rt_timer_list k2) \<and>
        tm_timeout_tick (timers k2 (ThreadTimer t)) = rt_tick k1 + time"
    by blast
  note fr = thread_frame_trans[OF k1(3) k2(3)]
  note so = kernel_okD(1)[OF k2(2)]
  have ri: "thread_stat k2 i = RT_THREAD_READY" using other by (simp add: k2(4) k1(4))
  note sr = ready_listed(2)[OF so ri]
  from schedule_defined[OF so sr] obtain k' where k': "rt_schedule k2 = Some k'" ..
  have st2: "thread_stat k2 t = RT_THREAD_SUSPEND" using k1(5) by (simp only: k2(4))
  have "rt_current_thread k' \<noteq> Some t" if "rt_scheduler_lock_nest k = 0"
    using schedule_total[OF so sr] that k' st2 thread_frameD(5)[OF fr] by auto
  moreover have "ipc_block q t flag time k = Some k'" by (simp add: ipc_block_def k1(1) k2(1) k')
  moreover have "kernel_ok k'" using schedule_kernel_ok[OF k'] k2(2) by simp
  moreover have "threads k' = (threads k)(t := ?th)" by (simp only: schedule_sel[OF k'] k2(4) k1(4))
  moreover have "thread_stat k' t = RT_THREAD_SUSPEND" using st2 by (simp only: schedule_sel[OF k'])
  moreover have "tlists k' = (\<lambda>r. remove1 t (tlists k r))(q := ipc_insert flag (\<lambda>s. th_current_priority (threads k s)) t (tlists k q))"
    by (simp only: schedule_sel[OF k'] k2(5) k1(6))
  moreover have "0 < sint time \<longrightarrow> ThreadTimer t \<in> set (rt_timer_list k') \<and>
        tm_timeout_tick (timers k' (ThreadTimer t)) = rt_tick k + time"
    using k2(6) by (simp only: schedule_sel[OF k'] thread_frameD(1)[OF k1(3)])
  ultimately show ?thesis using k' fr by blast
qed

section \<open>Waking\<close>

lemma waiter_suspended:
  assumes "kernel_ok k" and "t \<in> set (tlists k q)" and "wait_list (Some q)"
  shows "thread_stat k t = RT_THREAD_SUSPEND"
proof -
  have "on_list k t = Some q" using assms(1,2) lists_ok_mem[OF kernel_okD(4)[OF assms(1)]] by simp
  with kernel_okD(5)[OF assms(1), of t] assms(3) show ?thesis
    by (cases q) (auto simp: thread_ok_def Let_def split: if_splits)
qed

lemma list_resume_ok:
  assumes ok: "kernel_ok k" and q: "wait_list (Some q)" and hd: "tlists k q = t # ts"
  shows "\<exists>k'. rt_ipc_list_resume q k = Some k' \<and> kernel_ok k' \<and> thread_frame k k' \<and>
     thread_stat k' t = RT_THREAD_READY \<and> timers k' = timers k \<and>
     threads k' = (threads k)(t := (threads k t)\<lparr>th_stat := RT_THREAD_READY OR (th_stat (threads k t) AND NOT RT_THREAD_STAT_MASK)\<rparr>) \<and>
     tlists k' q = ts \<and> (\<forall>r. wait_list (Some r) \<longrightarrow> r \<noteq> q \<longrightarrow> tlists k' r = tlists k r)"
proof -
  have st: "thread_stat k t = RT_THREAD_SUSPEND" using waiter_suspended[OF ok _ q, of t] hd by simp
  from resume_ok[OF ok st] obtain k' where
    k': "rt_thread_resume t k = Some (RT_EOK, k')" "kernel_ok k'" "thread_frame k k'" "thread_stat k' t = RT_THREAD_READY"
     "timers k' = timers k"
     "threads k' = (threads k)(t := (threads k t)\<lparr>th_stat := RT_THREAD_READY OR (th_stat (threads k t) AND NOT RT_THREAD_STAT_MASK)\<rparr>)"
     "tlists k' = (\<lambda>q. remove1 t (tlists k q))(ReadyQ (thread_prio k t) := tlists k (ReadyQ (thread_prio k t)) @ [t])"
    by blast
  have nr: "r \<noteq> ReadyQ p" if "wait_list (Some r)" for r p using that by auto
  have "tlists k' q = ts" using nr[OF q] hd by (simp add: k'(7))
  moreover have "tlists k' r = tlists k r" if "wait_list (Some r)" "r \<noteq> q" for r
  proof -
    have "t \<notin> set (tlists k r)" using lists_ok_mem[OF kernel_okD(4)[OF ok], of t] hd that(2)
      by (metis list.set_intros(1) option.inject)
    then show ?thesis using nr[OF that(1)] by (simp add: k'(7) remove1_idem)
  qed
  moreover have "rt_ipc_list_resume q k = Some k'" by (simp add: rt_ipc_list_resume_def hd k'(1))
  ultimately show ?thesis using k' by blast
qed

lemma set_error_ok:
  assumes "kernel_ok k"
  shows "kernel_ok (upd_thread t (\<lambda>th. th\<lparr>th_error := e\<rparr>) k)"
proof -
  have "sched_ok (upd_thread t (\<lambda>th. th\<lparr>th_error := e\<rparr>) k)"
    using kernel_okD(1)[OF assms] by (subst sched_ok_upd_thread) simp_all
  moreover have "timers_ok (upd_thread t (\<lambda>th. th\<lparr>th_error := e\<rparr>) k)"
    using kernel_okD(2)[OF assms] by (subst timers_ok_cong[of _ k]) (simp_all add: upd_thread_def)
  ultimately show ?thesis by (simp add: kernel_ok_def)
qed

text \<open>Resuming all waiters ends, empties the list and makes every waiter ready with an error.\<close>

lemma resume_all_ok:
  assumes "kernel_ok k" and q: "wait_list (Some q)"
  shows "\<exists>k'. rt_ipc_list_resume_all q k = Some k' \<and> kernel_ok k' \<and> thread_frame k k' \<and> tlists k' q = [] \<and>
     (\<forall>t \<in> set (tlists k q). thread_stat k' t = RT_THREAD_READY \<and> th_error (threads k' t) = RT_ERROR) \<and>
     (\<forall>t. t \<notin> set (tlists k q) \<longrightarrow> threads k' t = threads k t) \<and>
     (\<forall>r. wait_list (Some r) \<longrightarrow> r \<noteq> q \<longrightarrow> tlists k' r = tlists k r)"
  using assms(1)
proof (induction "tlists k q" arbitrary: k)
  case Nil
  then show ?case by (intro exI[of _ k]) (subst rt_ipc_list_resume_all.simps, simp)
next
  case (Cons t ts)
  define k1 where "k1 = upd_thread t (\<lambda>th. th\<lparr>th_error := RT_ERROR\<rparr>) k"
  have ok1: "kernel_ok k1" unfolding k1_def by (rule set_error_ok[OF Cons.prems])
  have fr1: "thread_frame k k1" by (simp add: k1_def)
  have tl1: "tlists k1 = tlists k" by (simp add: k1_def upd_thread_def)
  have hd: "tlists k1 q = t # ts" using Cons.hyps(2) tl1 by simp
  from list_resume_ok[OF ok1 q hd] obtain k2 where
    k2: "rt_ipc_list_resume q k1 = Some k2" "kernel_ok k2" "thread_frame k1 k2" "thread_stat k2 t = RT_THREAD_READY"
     "threads k2 = (threads k1)(t := (threads k1 t)\<lparr>th_stat := RT_THREAD_READY OR (th_stat (threads k1 t) AND NOT RT_THREAD_STAT_MASK)\<rparr>)"
     "tlists k2 q = ts" "\<forall>r. wait_list (Some r) \<longrightarrow> r \<noteq> q \<longrightarrow> tlists k2 r = tlists k1 r" by blast
  from k2(1) hd obtain e where e: "rt_thread_resume t k1 = Some (e, k2)" by (auto simp: rt_ipc_list_resume_def)
  have nt: "t \<notin> set ts" using lists_ok_distinct[OF kernel_okD(4)[OF Cons.prems], of q] Cons.hyps(2)
    by (metis distinct.simps(2))
  from Cons.hyps(1)[of k2] k2(2,6) obtain k' where
    k': "rt_ipc_list_resume_all q k2 = Some k'" "kernel_ok k'" "thread_frame k2 k'" "tlists k' q = []"
     "\<forall>t \<in> set ts. thread_stat k' t = RT_THREAD_READY \<and> th_error (threads k' t) = RT_ERROR"
     "\<forall>t. t \<notin> set ts \<longrightarrow> threads k' t = threads k2 t"
     "\<forall>r. wait_list (Some r) \<longrightarrow> r \<noteq> q \<longrightarrow> tlists k' r = tlists k2 r" by auto
  have "rt_ipc_list_resume_all q k = Some k'"
    by (subst rt_ipc_list_resume_all.simps) (simp add: Cons.hyps(2)[symmetric] k1_def[symmetric] e k'(1))
  moreover have "thread_frame k k'" using thread_frame_trans[OF thread_frame_trans[OF fr1 k2(3)] k'(3)] .
  moreover have "thread_stat k' t = RT_THREAD_READY \<and> th_error (threads k' t) = RT_ERROR"
  proof -
    have "threads k' t = threads k2 t" using k'(6) nt by simp
    moreover have "th_error (threads k2 t) = RT_ERROR" by (simp add: k2(5) k1_def upd_thread_def)
    ultimately show ?thesis using k2(4) by simp
  qed
  moreover have "threads k' u = threads k u" if "u \<noteq> t" "u \<notin> set ts" for u
    using k'(6) that by (simp add: k2(5) k1_def upd_thread_def)
  ultimately show ?case using k'(2,4,5,7) k2(7) tl1 Cons.hyps(2)[symmetric]
    by (intro exI[of _ k']) auto
qed

text \<open>Waking the first waiter keeps the invariant and everything but the threads.\<close>

lemma wake_first_ok:
  assumes ok: "kernel_ok k" and q: "wait_list (Some q)"
  shows "\<exists>k'. wake_first q k = Some k' \<and> kernel_ok k' \<and> mailboxes k' = mailboxes k \<and> mqueues k' = mqueues k \<and>
     tlists k' q = tl (tlists k q) \<and> (\<forall>r. wait_list (Some r) \<longrightarrow> r \<noteq> q \<longrightarrow> tlists k' r = tlists k r) \<and>
     (\<forall>ob. (\<forall>i. ob \<noteq> ObjTimer i) \<longrightarrow> objs k' ob = objs k ob) \<and>
     (\<forall>t ts. tlists k q = t # ts \<longrightarrow> thread_stat k' t = RT_THREAD_READY \<and> th_error (threads k' t) = th_error (threads k t))"
proof (cases "tlists k q")
  case Nil
  with ok show ?thesis by (simp add: wake_first_def tlist_isempty_def)
next
  case (Cons t ts)
  from list_resume_ok[OF ok q Cons] obtain k1 where
    k1: "rt_ipc_list_resume q k = Some k1" "kernel_ok k1" "thread_frame k k1" "thread_stat k1 t = RT_THREAD_READY"
     "threads k1 = (threads k)(t := (threads k t)\<lparr>th_stat := RT_THREAD_READY OR (th_stat (threads k t) AND NOT RT_THREAD_STAT_MASK)\<rparr>)"
     "tlists k1 q = ts" "\<forall>r. wait_list (Some r) \<longrightarrow> r \<noteq> q \<longrightarrow> tlists k1 r = tlists k r"
    by blast
  note so = kernel_okD(1)[OF k1(2)]
  from schedule_defined[OF so ready_listed(2)[OF so k1(4)]] obtain k' where k': "rt_schedule k1 = Some k'" ..
  have rd: "thread_stat k' t = RT_THREAD_READY" using k1(4) by (simp only: schedule_sel[OF k'])
  have er: "th_error (threads k' t) = th_error (threads k t)" by (simp add: schedule_sel[OF k'] k1(5))
  have "wake_first q k = Some k'" by (simp add: wake_first_def tlist_isempty_def Cons k1(1) k')
  moreover have "kernel_ok k'" using schedule_kernel_ok[OF k'] k1(2) by simp
  moreover have "\<forall>ob. (\<forall>i. ob \<noteq> ObjTimer i) \<longrightarrow> objs k' ob = objs k ob"
    using thread_frameD(13)[OF k1(3)] by (simp add: schedule_sel[OF k'])
  ultimately show ?thesis using k1(6,7) rd er Cons thread_frameD(11,12)[OF k1(3)]
    by (intro exI[of _ k']) (simp add: schedule_sel[OF k'])
qed

text \<open>The running thread blocks, after its error code has been reset.\<close>

lemma block_self_ok:
  assumes ok: "kernel_ok k" and st: "thread_stat k t = RT_THREAD_READY"
    and other: "thread_stat k j = RT_THREAD_READY" "j \<noteq> t"
    and q: "wait_list (Some q)" and flag: "flag = RT_IPC_FLAG_FIFO \<or> flag = RT_IPC_FLAG_PRIO"
    and time: "time \<noteq> 0x7fffffff"
  shows "\<exists>k'. ipc_block q t flag time (upd_thread t (\<lambda>th. th\<lparr>th_error := RT_EOK\<rparr>) k) = Some k' \<and> kernel_ok k' \<and>
     thread_stat k' t = RT_THREAD_SUSPEND \<and> th_error (threads k' t) = RT_EOK \<and>
     tlists k' q = ipc_insert flag (\<lambda>s. th_current_priority (threads k s)) t (tlists k q) \<and>
     (\<forall>r. wait_list (Some r) \<longrightarrow> r \<noteq> q \<longrightarrow> tlists k' r = tlists k r) \<and>
     (0 < sint time \<longrightarrow> ThreadTimer t \<in> set (rt_timer_list k') \<and>
        tm_timeout_tick (timers k' (ThreadTimer t)) = rt_tick k + time) \<and>
     (rt_scheduler_lock_nest k = 0 \<longrightarrow> rt_current_thread k' \<noteq> Some t)"
proof -
  define k1 where "k1 = upd_thread t (\<lambda>th. th\<lparr>th_error := RT_EOK\<rparr>) k"
  have ok1: "kernel_ok k1" unfolding k1_def by (rule set_error_ok[OF ok])
  have e1: "thread_stat k1 t = RT_THREAD_READY" "thread_stat k1 j = RT_THREAD_READY" "tlists k1 = tlists k"
    "rt_tick k1 = rt_tick k" "rt_scheduler_lock_nest k1 = rt_scheduler_lock_nest k"
    "\<And>s. th_current_priority (threads k1 s) = th_current_priority (threads k s)" "th_error (threads k1 t) = RT_EOK"
    using st other by (simp_all add: k1_def upd_thread_def)
  have on: "on_list k t = Some (ReadyQ (thread_prio k t))" using kernel_okD(5)[OF ok, of t] st by (simp add: thread_ok_def)
  have nr: "remove1 t (tlists k r) = tlists k r" if "wait_list (Some r)" for r
    using lists_ok_mem[OF kernel_okD(4)[OF ok], of t r] on that by (auto intro: remove1_idem)
  from ipc_block_ok[OF ok1 e1(1,2) other(2) q flag time] show ?thesis
    unfolding k1_def[symmetric] using nr by (auto simp: e1)
qed

text \<open>Leaving the outermost critical section with a thread ready.\<close>

lemma leave_critical:
  assumes so: "sched_ok k" and rd: "thread_stat k u = RT_THREAD_READY" and nest: "rt_scheduler_lock_nest k = 1"
  shows "\<exists>p c. rt_exit_critical k = Some (k\<lparr>rt_scheduler_lock_nest := 0, rt_current_priority := p, rt_current_thread := c\<rparr>)"
proof -
  let ?k = "k\<lparr>rt_scheduler_lock_nest := 0\<rparr>"
  have so': "sched_ok ?k" using so by simp
  have "thread_stat ?k u = RT_THREAD_READY" using rd by simp
  from schedule_defined[OF so' ready_listed(2)[OF so' this]] obtain k' where k': "rt_schedule ?k = Some k'" ..
  have x: "rt_exit_critical k = rt_schedule ?k" by (simp add: rt_exit_critical_def nest)
  show ?thesis unfolding x k' by (subst schedule_frame[OF k']) auto
qed

end
