(* ===== verification/Semaphore.thy ===== *)
theory Semaphore
  imports Ipc
begin

text \<open>Semaphores of rt-thread/src/ipc.c.\<close>

section \<open>Operations\<close>

abbreviation sem_flag :: "kernel \<Rightarrow> nat \<Rightarrow> u8" where
  "sem_flag k i \<equiv> ob_flag (objs k (ObjSem i))"

definition rt_sem_init :: "nat \<Rightarrow> u8 list \<Rightarrow> u32 \<Rightarrow> u8 \<Rightarrow> kernel \<Rightarrow> kernel option" where
  "rt_sem_init i name value flag k =
     do { k \<leftarrow> rt_object_init (ObjSem i) name k;
          k \<leftarrow> rt_ipc_object_init (SemQ i) k;
          let k = upd_sem i (\<lambda>s. s\<lparr>sem_value := ucast value\<rparr>) k;
          Some (upd_obj (ObjSem i) (\<lambda>x. x\<lparr>ob_flag := flag\<rparr>) k) }"

definition rt_sem_detach :: "nat \<Rightarrow> kernel \<Rightarrow> kernel option" where
  "rt_sem_detach i k =
     do { k \<leftarrow> rt_ipc_list_resume_all (SemQ i) k;
          Some (rt_object_detach (ObjSem i) k) }"

definition rt_sem_create :: "nat option \<Rightarrow> u8 list \<Rightarrow> u32 \<Rightarrow> u8 \<Rightarrow> kernel \<Rightarrow> (nat option \<times> kernel) option" where
  "rt_sem_create mem name value flag k =
     (if \<not> RT_DEBUG_NOT_IN_INTERRUPT k then None
      else do { (_, k) \<leftarrow> rt_object_allocate (map_option ObjSem mem) RT_Object_Class_Semaphore name k;
                case mem of
                  None \<Rightarrow> Some (None, k)
                | Some i \<Rightarrow>
                    do { k \<leftarrow> rt_ipc_object_init (SemQ i) k;
                         let k = upd_sem i (\<lambda>s. s\<lparr>sem_value := ucast value\<rparr>) k;
                         Some (Some i, upd_obj (ObjSem i) (\<lambda>x. x\<lparr>ob_flag := flag\<rparr>) k) } })"

definition rt_sem_delete :: "nat \<Rightarrow> kernel \<Rightarrow> kernel option" where
  "rt_sem_delete i k =
     (if \<not> RT_DEBUG_NOT_IN_INTERRUPT k then None
      else do { k \<leftarrow> rt_ipc_list_resume_all (SemQ i) k;
                rt_object_delete (ObjSem i) k })"

definition rt_sem_take :: "nat \<Rightarrow> u32 \<Rightarrow> kernel \<Rightarrow> (rt_err outcome \<times> kernel) option" where
  "rt_sem_take i time k =
     (if sem_value (sems k i) > 0
      then Some (Return RT_EOK, upd_sem i (\<lambda>s. s\<lparr>sem_value := sem_value s - 1\<rparr>) k)
      else if time = 0 then Some (Return RT_ETIMEOUT, k)
      else if \<not> RT_DEBUG_IN_THREAD_CONTEXT k then None
      else do { t \<leftarrow> rt_thread_self k;
                let k = upd_thread t (\<lambda>th. th\<lparr>th_error := RT_EOK\<rparr>) k;
                k \<leftarrow> ipc_block (SemQ i) t (sem_flag k i) time k;
                Some (Blocked, k) })"

definition rt_sem_take_resumed :: "tid \<Rightarrow> kernel \<Rightarrow> rt_err" where
  "rt_sem_take_resumed t k = (if th_error (threads k t) \<noteq> RT_EOK then th_error (threads k t) else RT_EOK)"

definition rt_sem_trytake :: "nat \<Rightarrow> kernel \<Rightarrow> (rt_err outcome \<times> kernel) option" where
  "rt_sem_trytake i k = rt_sem_take i 0 k"

definition rt_sem_release :: "nat \<Rightarrow> kernel \<Rightarrow> kernel option" where
  "rt_sem_release i k =
     (if \<not> tlist_isempty (SemQ i) k
      then do { k \<leftarrow> rt_ipc_list_resume (SemQ i) k; rt_schedule k }
      else Some (upd_sem i (\<lambda>s. s\<lparr>sem_value := sem_value s + 1\<rparr>) k))"

datatype ipc_cmd = RT_IPC_CMD_RESET u32 | RT_IPC_CMD_OTHER

definition rt_sem_control :: "nat \<Rightarrow> ipc_cmd \<Rightarrow> kernel \<Rightarrow> (rt_err \<times> kernel) option" where
  "rt_sem_control i cmd k =
     (case cmd of
        RT_IPC_CMD_RESET value \<Rightarrow>
          do { k \<leftarrow> rt_ipc_list_resume_all (SemQ i) k;
               let k = upd_sem i (\<lambda>s. s\<lparr>sem_value := ucast value\<rparr>) k;
               k \<leftarrow> rt_schedule k;
               Some (RT_EOK, k) }
      | RT_IPC_CMD_OTHER \<Rightarrow> Some (RT_ERROR, k))"

section \<open>Specification\<close>

text \<open>A semaphore is a count and a queue of waiting threads; the count is positive only when
  nobody waits.\<close>

definition sem_ok :: "kernel \<Rightarrow> nat \<Rightarrow> bool" where
  "sem_ok k i \<longleftrightarrow> (sem_value (sems k i) > 0 \<longrightarrow> tlists k (SemQ i) = []) \<and>
     (sem_flag k i = RT_IPC_FLAG_FIFO \<or> sem_flag k i = RT_IPC_FLAG_PRIO)"

lemma upd_sem_kernel_ok [simp]: "kernel_ok (upd_sem i f k) = kernel_ok k"
proof -
  have "timers_ok (upd_sem i f k) = timers_ok k" by (rule timers_ok_cong) (simp_all add: upd_sem_def)
  then show ?thesis by (simp add: kernel_ok_def)
qed

lemma sem_take_blocks:
  assumes ok: "kernel_ok k" and s: "sem_ok k i" and v: "sem_value (sems k i) = 0" and tm: "time \<noteq> 0" "time \<noteq> 0x7fffffff"
    and cur: "rt_current_thread k = Some t" "rt_interrupt_nest k = 0" and st: "thread_stat k t = RT_THREAD_READY"
    and other: "thread_stat k j = RT_THREAD_READY" "j \<noteq> t"
  shows "\<exists>k'. rt_sem_take i time k = Some (Blocked, k') \<and> kernel_ok k' \<and> sem_ok k' i \<and> sems k' = sems k \<and>
     thread_stat k' t = RT_THREAD_SUSPEND \<and>
     tlists k' (SemQ i) = ipc_insert (sem_flag k i) (\<lambda>s. th_current_priority (threads k s)) t (tlists k (SemQ i)) \<and>
     (0 < sint time \<longrightarrow> ThreadTimer t \<in> set (rt_timer_list k') \<and>
        tm_timeout_tick (timers k' (ThreadTimer t)) = rt_tick k + time) \<and>
     (rt_scheduler_lock_nest k = 0 \<longrightarrow> rt_current_thread k' \<noteq> Some t)"
proof -
  define k1 where "k1 = upd_thread t (\<lambda>th. th\<lparr>th_error := RT_EOK\<rparr>) k"
  have ok1: "kernel_ok k1" unfolding k1_def by (rule set_error_ok[OF ok])
  have e1: "thread_stat k1 t = RT_THREAD_READY" "thread_stat k1 j = RT_THREAD_READY" "sem_flag k1 i = sem_flag k i"
    "tlists k1 = tlists k" "sems k1 = sems k" "rt_tick k1 = rt_tick k" "rt_scheduler_lock_nest k1 = rt_scheduler_lock_nest k"
    "\<And>s. th_current_priority (threads k1 s) = th_current_priority (threads k s)"
    using st other by (simp_all add: k1_def upd_thread_def)
  have flag: "sem_flag k1 i = RT_IPC_FLAG_FIFO \<or> sem_flag k1 i = RT_IPC_FLAG_PRIO"
    using s by (simp add: sem_ok_def e1)
  have wl: "wait_list (Some (SemQ i))" by simp
  from ipc_block_ok[OF ok1 e1(1,2) other(2) wl flag tm(2)] obtain k2 k' where
    k': "ipc_block (SemQ i) t (sem_flag k1 i) time k1 = Some k'" "rt_schedule k2 = Some k'" "thread_frame k1 k2"
      "kernel_ok k'" "thread_stat k' t = RT_THREAD_SUSPEND"
     "tlists k' = (\<lambda>r. remove1 t (tlists k1 r))(SemQ i := ipc_insert (sem_flag k1 i) (\<lambda>s. th_current_priority (threads k1 s)) t (tlists k1 (SemQ i)))"
     "(0 < sint time \<longrightarrow> ThreadTimer t \<in> set (rt_timer_list k') \<and>
        tm_timeout_tick (timers k' (ThreadTimer t)) = rt_tick k1 + time)"
     "(rt_scheduler_lock_nest k1 = 0 \<longrightarrow> rt_current_thread k' \<noteq> Some t)"
    by blast
  have sems: "sems k' = sems k" using thread_frameD(8)[OF k'(3)] by (simp add: schedule_sel[OF k'(2)] e1)
  have fl: "sem_flag k' i = sem_flag k i"
    using thread_frameD(13)[OF k'(3), of "ObjSem i"] by (simp add: schedule_sel[OF k'(2)] e1)
  have "sem_ok k' i" using s v by (simp add: sem_ok_def sems fl)
  moreover have "rt_sem_take i time k = Some (Blocked, k')"
    using v tm cur k'(1) by (simp add: rt_sem_take_def context_defs k1_def)
  ultimately show ?thesis using k'(4,5,6,7,8) sems by (simp add: e1)
qed

lemma sem_take_resumed_eq: "rt_sem_take_resumed t k = th_error (threads k t)"
  by (simp add: rt_sem_take_resumed_def)

lemma sem_release_wakes:
  assumes ok: "kernel_ok k" and s: "sem_ok k i" and hd: "tlists k (SemQ i) = t # ts"
  shows "\<exists>k'. rt_sem_release i k = Some k' \<and> kernel_ok k' \<and> sem_ok k' i \<and> sems k' = sems k \<and>
     thread_stat k' t = RT_THREAD_READY \<and> th_error (threads k' t) = th_error (threads k t) \<and>
     tlists k' (SemQ i) = ts \<and> \<not> timer_linked k' (ThreadTimer t)"
proof -
  have wl: "wait_list (Some (SemQ i))" by simp
  from list_resume_ok[OF ok wl hd] obtain k1 where
    k1: "rt_ipc_list_resume (SemQ i) k = Some k1" "kernel_ok k1" "thread_frame k k1" "thread_stat k1 t = RT_THREAD_READY"
     "threads k1 = (threads k)(t := (threads k t)\<lparr>th_stat := RT_THREAD_READY OR (th_stat (threads k t) AND NOT RT_THREAD_STAT_MASK)\<rparr>)"
     "tlists k1 (SemQ i) = ts"
    by blast
  note so = kernel_okD(1)[OF k1(2)]
  from schedule_defined[OF so ready_listed(2)[OF so k1(4)]] obtain k' where k': "rt_schedule k1 = Some k'" ..
  have ok': "kernel_ok k'" using schedule_kernel_ok[OF k'] k1(2) by simp
  have sems: "sems k' = sems k" using thread_frameD(8)[OF k1(3)] by (simp add: schedule_sel[OF k'])
  have fl: "sem_flag k' i = sem_flag k i"
    using thread_frameD(13)[OF k1(3), of "ObjSem i"] by (simp add: schedule_sel[OF k'])
  have rd: "thread_stat k' t = RT_THREAD_READY" using k1(4) by (simp only: schedule_sel[OF k'])
  have "\<not> timer_linked k' (ThreadTimer t)"
    using kernel_okD(3)[OF ok'] rd by (auto simp: timers_base_def timer_linked_def)
  moreover have "sem_ok k' i" using s hd by (simp add: sem_ok_def sems fl)
  moreover have "rt_sem_release i k = Some k'" by (simp add: rt_sem_release_def tlist_isempty_def hd k1(1) k')
  ultimately show ?thesis using ok' sems rd k1(6) by (simp add: schedule_sel[OF k'] k1(5))
qed

section \<open>Properties\<close>

text \<open>Taking an unavailable semaphore with a time limit suspends the running thread on the
  semaphore's wait list, in FIFO or priority order as its flag says, arms the thread's timer
  for a positive time, switches to another thread, and keeps the kernel invariant and the
  semaphore's own.\<close>

theorem sem_take_suspends:
  assumes "kernel_ok k" and "sem_ok k i" and "sem_value (sems k i) = 0" and "time \<noteq> 0" and "time \<noteq> 0x7fffffff"
    and "rt_current_thread k = Some t" and "rt_interrupt_nest k = 0" and "thread_stat k t = RT_THREAD_READY"
    and "thread_stat k j = RT_THREAD_READY" and "j \<noteq> t" and "rt_scheduler_lock_nest k = 0"
  shows "\<exists>k'. rt_sem_take i time k = Some (Blocked, k') \<and> kernel_ok k' \<and> sem_ok k' i \<and> sems k' = sems k \<and>
     thread_stat k' t = RT_THREAD_SUSPEND \<and> rt_current_thread k' \<noteq> Some t \<and>
     tlists k' (SemQ i) = ipc_insert (sem_flag k i) (\<lambda>s. th_current_priority (threads k s)) t (tlists k (SemQ i)) \<and>
     (0 < sint time \<longrightarrow> ThreadTimer t \<in> set (rt_timer_list k') \<and>
        tm_timeout_tick (timers k' (ThreadTimer t)) = rt_tick k + time)"
  using sem_take_blocks[OF assms(1-10)] assms(11) by blast

theorem sem_take_suspends_witness:
  "\<exists>k'. rt_sem_take 0 50 ex_kernel = Some (Blocked, k') \<and> kernel_ok k' \<and> sem_ok k' 0 \<and> sems k' = sems ex_kernel \<and>
     thread_stat k' 2 = RT_THREAD_SUSPEND \<and> rt_current_thread k' \<noteq> Some 2 \<and>
     tlists k' (SemQ 0) = [3, 2] \<and> ThreadTimer 2 \<in> set (rt_timer_list k') \<and>
     tm_timeout_tick (timers k' (ThreadTimer 2)) = 150"
proof -
  have s: "sem_ok ex_kernel 0" "sem_flag ex_kernel 0 = RT_IPC_FLAG_FIFO" "sem_value (sems ex_kernel 0) = 0"
    by (simp_all add: sem_ok_def ex_kernel_def)
  show ?thesis
    using sem_take_suspends[OF ex_kernel_ok s(1,3), of 50 2 0] s by (simp add: ipc_insert_def)
qed

text \<open>C6: Releasing a semaphore on which threads wait makes the first waiter ready, with its
  timer stopped and its error code as it was, and leaves the count alone.\<close>

theorem sem_release_resumes_first:
  assumes "kernel_ok k" and "sem_ok k i" and "tlists k (SemQ i) = t # ts"
  shows "\<exists>k'. rt_sem_release i k = Some k' \<and> kernel_ok k' \<and> sem_ok k' i \<and> sems k' = sems k \<and>
     thread_stat k' t = RT_THREAD_READY \<and> rt_sem_take_resumed t k' = th_error (threads k t) \<and>
     tlists k' (SemQ i) = ts \<and> \<not> timer_linked k' (ThreadTimer t)"
  using sem_release_wakes[OF assms] unfolding sem_take_resumed_eq by blast

theorem sem_release_resumes_first_witness:
  "\<exists>k'. rt_sem_release 0 ex_kernel = Some k' \<and> kernel_ok k' \<and> thread_stat k' 3 = RT_THREAD_READY \<and>
     rt_sem_take_resumed 3 k' = RT_EOK \<and> tlists k' (SemQ 0) = []"
proof -
  have s: "sem_ok ex_kernel 0" "th_error (threads ex_kernel 3) = RT_EOK"
    by (simp_all add: sem_ok_def ex_kernel_def ex_thread_def)
  show ?thesis using sem_release_resumes_first[OF ex_kernel_ok s(1) ex_sel(12)] unfolding s(2) by blast
qed

text \<open>With no waiter, a release followed by a try-take is the identity, unless the 16-bit
  count was at its maximum: then the release wraps it to zero and the try-take fails.\<close>

theorem sem_release_trytake:
  assumes "tlists k (SemQ i) = []"
  shows "\<exists>k'. rt_sem_release i k = Some k' \<and>
     (sem_value (sems k i) \<noteq> 0xffff \<longrightarrow> rt_sem_trytake i k' = Some (Return RT_EOK, k)) \<and>
     (sem_value (sems k i) = 0xffff \<longrightarrow> rt_sem_trytake i k' = Some (Return RT_ETIMEOUT, k'))"
proof -
  let ?k' = "upd_sem i (\<lambda>s. s\<lparr>sem_value := sem_value s + 1\<rparr>) k"
  have nz: "sem_value (sems k i) + 1 = 0 \<longleftrightarrow> sem_value (sems k i) = 0xffff"
  proof
    assume "sem_value (sems k i) + 1 = 0"
    then have "sem_value (sems k i) = - 1" by (simp add: eq_neg_iff_add_eq_0)
    then show "sem_value (sems k i) = 0xffff" by simp
  qed simp
  have "rt_sem_release i k = Some ?k'" using assms by (simp add: rt_sem_release_def tlist_isempty_def)
  moreover have "rt_sem_trytake i ?k' = Some (Return RT_EOK, k)" if "sem_value (sems k i) \<noteq> 0xffff"
    using that nz by (simp add: rt_sem_trytake_def rt_sem_take_def upd_sem_def word_gt_0)
  moreover have "rt_sem_trytake i ?k' = Some (Return RT_ETIMEOUT, ?k')" if "sem_value (sems k i) = 0xffff"
    using that by (simp add: rt_sem_trytake_def rt_sem_take_def upd_sem_def)
  ultimately show ?thesis by blast
qed

theorem sem_release_trytake_witness:
  "\<exists>k'. rt_sem_release 2 ex_kernel = Some k' \<and> rt_sem_trytake 2 k' = Some (Return RT_EOK, ex_kernel)"
  using sem_release_trytake[of ex_kernel 2] by (auto simp: ex_kernel_def)

end
