(* ===== verification/Mutex.thy ===== *)
theory Mutex
  imports Semaphore
begin

text \<open>
  Mutexes of rt-thread/src/ipc.c: ownership, recursive locking and priority inheritance.
\<close>

section \<open>Operations\<close>

abbreviation mutex_flag :: "kernel \<Rightarrow> nat \<Rightarrow> u8" where
  "mutex_flag k i \<equiv> ob_flag (objs k (ObjMutex i))"

definition mutex_free :: rt_mutex where
  "mutex_free = \<lparr>mx_value = 1, mx_original_priority = 0xff, mx_hold = 0, mx_owner = None\<rparr>"

definition rt_mutex_init :: "nat \<Rightarrow> u8 list \<Rightarrow> u8 \<Rightarrow> kernel \<Rightarrow> kernel option" where
  "rt_mutex_init i name flag k =
     do { k \<leftarrow> rt_object_init (ObjMutex i) name k;
          k \<leftarrow> rt_ipc_object_init (MutexQ i) k;
          let k = upd_mutex i (\<lambda>_. mutex_free) k;
          Some (upd_obj (ObjMutex i) (\<lambda>x. x\<lparr>ob_flag := flag\<rparr>) k) }"

definition rt_mutex_detach :: "nat \<Rightarrow> kernel \<Rightarrow> kernel option" where
  "rt_mutex_detach i k =
     do { k \<leftarrow> rt_ipc_list_resume_all (MutexQ i) k;
          Some (rt_object_detach (ObjMutex i) k) }"

definition rt_mutex_create :: "nat option \<Rightarrow> u8 list \<Rightarrow> u8 \<Rightarrow> kernel \<Rightarrow> (nat option \<times> kernel) option" where
  "rt_mutex_create mem name flag k =
     (if \<not> RT_DEBUG_NOT_IN_INTERRUPT k then None
      else do { (_, k) \<leftarrow> rt_object_allocate (map_option ObjMutex mem) RT_Object_Class_Mutex name k;
                case mem of
                  None \<Rightarrow> Some (None, k)
                | Some i \<Rightarrow>
                    do { k \<leftarrow> rt_ipc_object_init (MutexQ i) k;
                         let k = upd_mutex i (\<lambda>_. mutex_free) k;
                         Some (Some i, upd_obj (ObjMutex i) (\<lambda>x. x\<lparr>ob_flag := flag\<rparr>) k) } })"

definition rt_mutex_delete :: "nat \<Rightarrow> kernel \<Rightarrow> kernel option" where
  "rt_mutex_delete i k =
     (if \<not> RT_DEBUG_NOT_IN_INTERRUPT k then None
      else do { k \<leftarrow> rt_ipc_list_resume_all (MutexQ i) k;
                rt_object_delete (ObjMutex i) k })"

text \<open>The code from the label \<open>__again\<close> on.\<close>

definition mutex_take_again :: "nat \<Rightarrow> tid \<Rightarrow> u32 \<Rightarrow> kernel \<Rightarrow> (rt_err outcome \<times> kernel) option" where
  "mutex_take_again i t time k =
     (if mx_value (mutexes k i) > 0
      then Some (Return RT_EOK,
             upd_mutex i (\<lambda>m. m\<lparr>mx_value := mx_value m - 1, mx_owner := Some t,
               mx_original_priority := th_current_priority (threads k t), mx_hold := mx_hold m + 1\<rparr>) k)
      else if time = 0
      then Some (Return RT_ETIMEOUT, upd_thread t (\<lambda>th. th\<lparr>th_error := RT_ETIMEOUT\<rparr>) k)
      else do { owner \<leftarrow> mx_owner (mutexes k i);
                k \<leftarrow> (if th_current_priority (threads k t) < th_current_priority (threads k owner)
                     then rt_thread_control owner (RT_THREAD_CTRL_CHANGE_PRIORITY (th_current_priority (threads k t))) k
                     else Some k);
                k \<leftarrow> ipc_block (MutexQ i) t (mutex_flag k i) time k;
                Some (Blocked, k) })"

definition rt_mutex_take :: "nat \<Rightarrow> u32 \<Rightarrow> kernel \<Rightarrow> (rt_err outcome \<times> kernel) option" where
  "rt_mutex_take i time k =
     (if \<not> RT_DEBUG_IN_THREAD_CONTEXT k then None
      else do { t \<leftarrow> rt_thread_self k;
                let k = upd_thread t (\<lambda>th. th\<lparr>th_error := RT_EOK\<rparr>) k;
                if mx_owner (mutexes k i) = Some t
                then Some (Return RT_EOK, upd_mutex i (\<lambda>m. m\<lparr>mx_hold := mx_hold m + 1\<rparr>) k)
                else mutex_take_again i t time k })"

definition rt_mutex_take_resumed :: "nat \<Rightarrow> tid \<Rightarrow> u32 \<Rightarrow> kernel \<Rightarrow> (rt_err outcome \<times> kernel) option" where
  "rt_mutex_take_resumed i t time k =
     (let e = th_error (threads k t)
      in if e \<noteq> RT_EOK then if e = RT_EINTR then mutex_take_again i t time k else Some (Return e, k)
         else Some (Return RT_EOK, k))"

definition rt_mutex_release :: "nat \<Rightarrow> kernel \<Rightarrow> (rt_err \<times> kernel) option" where
  "rt_mutex_release i k =
     (if \<not> RT_DEBUG_IN_THREAD_CONTEXT k then None
      else do { t \<leftarrow> rt_thread_self k;
                if mx_owner (mutexes k i) \<noteq> Some t
                then Some (RT_ERROR, upd_thread t (\<lambda>th. th\<lparr>th_error := RT_ERROR\<rparr>) k)
                else do { let k = upd_mutex i (\<lambda>m. m\<lparr>mx_hold := mx_hold m - 1\<rparr>) k;
                  if mx_hold (mutexes k i) = 0
                  then do {
                    k \<leftarrow> (if mx_original_priority (mutexes k i) \<noteq> th_current_priority (threads k t)
                         then rt_thread_control t (RT_THREAD_CTRL_CHANGE_PRIORITY (mx_original_priority (mutexes k i))) k
                         else Some k);
                    case tlists k (MutexQ i) of
                      u # _ \<Rightarrow>
                        do { let k = upd_mutex i (\<lambda>m. m\<lparr>mx_owner := Some u,
                                       mx_original_priority := th_current_priority (threads k u),
                                       mx_hold := mx_hold m + 1\<rparr>) k;
                             k \<leftarrow> rt_ipc_list_resume (MutexQ i) k;
                             k \<leftarrow> rt_schedule k;
                             Some (RT_EOK, k) }
                    | [] \<Rightarrow>
                        Some (RT_EOK, upd_mutex i (\<lambda>m. m\<lparr>mx_value := mx_value m + 1, mx_owner := None,
                                        mx_original_priority := 0xff\<rparr>) k) }
                  else Some (RT_EOK, k) } })"

definition rt_mutex_control :: "nat \<Rightarrow> ipc_cmd \<Rightarrow> kernel \<Rightarrow> rt_err \<times> kernel" where
  "rt_mutex_control i cmd k = (RT_ERROR, k)"

section \<open>The mutex invariant\<close>

text \<open>A mutex is free and unclaimed, or it has one owner, which does not wait for it.\<close>

definition mutex_ok :: "kernel \<Rightarrow> nat \<Rightarrow> bool" where
  "mutex_ok k i \<longleftrightarrow>
     (mutex_flag k i = RT_IPC_FLAG_FIFO \<or> mutex_flag k i = RT_IPC_FLAG_PRIO) \<and>
     (let m = mutexes k i in
      case mx_owner m of
        None \<Rightarrow> mx_value m = 1 \<and> mx_hold m = 0 \<and> tlists k (MutexQ i) = []
      | Some t \<Rightarrow> mx_value m = 0 \<and> mx_hold m \<noteq> 0 \<and> unat (mx_original_priority m) < RT_THREAD_PRIORITY_MAX \<and>
                  (thread_stat k t = RT_THREAD_READY \<or> thread_stat k t = RT_THREAD_SUSPEND) \<and>
                  t \<notin> set (tlists k (MutexQ i)))"

lemma upd_mutex_kernel_ok [simp]: "kernel_ok (upd_mutex i f k) = kernel_ok k"
proof -
  have "timers_ok (upd_mutex i f k) = timers_ok k" by (rule timers_ok_cong) (simp_all add: upd_mutex_def)
  then show ?thesis by (simp add: kernel_ok_def)
qed

lemma prio_lt_32: "kernel_ok k \<Longrightarrow> unat (th_current_priority (threads k t)) < 32"
  using kernel_okD(5)[of k t] thread_mask_ok by (auto simp: mask_ok_def)

lemma mutex_waiter_neq:
  assumes "mutex_ok k i" and "mx_owner (mutexes k i) = Some t"
  shows "mx_value (mutexes k i) = 0" and "mx_hold (mutexes k i) \<noteq> 0"
    and "unat (mx_original_priority (mutexes k i)) < 32"
    and "thread_stat k t = RT_THREAD_READY \<or> thread_stat k t = RT_THREAD_SUSPEND"
    and "t \<notin> set (tlists k (MutexQ i))"
    and "mutex_flag k i = RT_IPC_FLAG_FIFO \<or> mutex_flag k i = RT_IPC_FLAG_PRIO"
  using assms by (auto simp: mutex_ok_def Let_def)

lemma mutex_eqs:
  "m\<lparr>mx_hold := h, mx_value := v, mx_owner := w, mx_original_priority := p\<rparr> =
     \<lparr>mx_value = v, mx_original_priority = p, mx_hold = h, mx_owner = w\<rparr>"
  "m\<lparr>mx_owner := w, mx_original_priority := p, mx_hold := h\<rparr> =
     \<lparr>mx_value = mx_value m, mx_original_priority = p, mx_hold = h, mx_owner = w\<rparr>"
  by (cases m, simp)+

lemma mutex_take_blocks:
  assumes ok: "kernel_ok k" and mx: "mutex_ok k i" and own: "mx_owner (mutexes k i) = Some u" "u \<noteq> t"
    and tm: "time \<noteq> 0" "time \<noteq> 0x7fffffff"
    and cur: "rt_current_thread k = Some t" "rt_interrupt_nest k = 0" and st: "thread_stat k t = RT_THREAD_READY"
    and other: "thread_stat k j = RT_THREAD_READY" "j \<noteq> t"
  shows "\<exists>k'. rt_mutex_take i time k = Some (Blocked, k') \<and> kernel_ok k' \<and> mutex_ok k' i \<and> mutexes k' = mutexes k \<and>
     thread_stat k' t = RT_THREAD_SUSPEND \<and> thread_stat k' u = thread_stat k u \<and>
     th_current_priority (threads k' u) = min (th_current_priority (threads k u)) (th_current_priority (threads k t)) \<and>
     set (tlists k' (MutexQ i)) = insert t (set (tlists k (MutexQ i))) \<and>
     (rt_scheduler_lock_nest k = 0 \<longrightarrow> rt_current_thread k' \<noteq> Some t)"
proof -
  define k1 where "k1 = upd_thread t (\<lambda>th. th\<lparr>th_error := RT_EOK\<rparr>) k"
  note m = mutex_waiter_neq[OF mx own(1)]
  have ok1: "kernel_ok k1" unfolding k1_def by (rule set_error_ok[OF ok])
  have e1: "\<And>s. thread_stat k1 s = thread_stat k s" "\<And>s. th_current_priority (threads k1 s) = th_current_priority (threads k s)"
    "mutexes k1 = mutexes k" "tlists k1 = tlists k" "objs k1 = objs k"
    "rt_scheduler_lock_nest k1 = rt_scheduler_lock_nest k"
    by (simp_all add: k1_def upd_thread_def)
  have fr1: "thread_frame k k1" by (simp add: k1_def)
  let ?p = "th_current_priority (threads k t)"
  have "\<exists>k2. (if ?p < th_current_priority (threads k u)
        then rt_thread_control u (RT_THREAD_CTRL_CHANGE_PRIORITY ?p) k1 else Some k1) = Some k2 \<and>
      kernel_ok k2 \<and> thread_frame k1 k2 \<and> thread_stat k2 u = thread_stat k u \<and>
      th_current_priority (threads k2 u) = min (th_current_priority (threads k u)) ?p \<and>
      (\<forall>s. s \<noteq> u \<longrightarrow> threads k2 s = threads k1 s) \<and> tlists k2 (MutexQ i) = tlists k (MutexQ i)"
  proof (cases "?p < th_current_priority (threads k u)")
    case True
    have "thread_stat k1 u = RT_THREAD_READY \<or> thread_stat k1 u = RT_THREAD_SUSPEND" using m(4) by (simp add: e1)
    from control_priority_ok[OF ok1 this, of ?p] prio_lt_32[OF ok, of t] obtain k2 where
      "rt_thread_control u (RT_THREAD_CTRL_CHANGE_PRIORITY ?p) k1 = Some k2" "kernel_ok k2" "thread_frame k1 k2"
      "thread_stat k2 u = thread_stat k1 u" "th_current_priority (threads k2 u) = ?p"
      "\<forall>s. s \<noteq> u \<longrightarrow> threads k2 s = threads k1 s" "\<forall>q. wait_list (Some q) \<longrightarrow> tlists k2 q = tlists k1 q"
      by blast
    with True show ?thesis by (intro exI[of _ k2]) (simp add: e1 min_absorb2 less_imp_le)
  next
    case False
    with ok1 show ?thesis by (intro exI[of _ k1]) (simp add: e1 min_absorb1 not_less leD)
  qed
  then obtain k2 where
    k2: "(if ?p < th_current_priority (threads k u)
        then rt_thread_control u (RT_THREAD_CTRL_CHANGE_PRIORITY ?p) k1 else Some k1) = Some k2"
      "kernel_ok k2" "thread_frame k1 k2" "thread_stat k2 u = thread_stat k u"
      "th_current_priority (threads k2 u) = min (th_current_priority (threads k u)) ?p"
      "\<forall>s. s \<noteq> u \<longrightarrow> threads k2 s = threads k1 s" "tlists k2 (MutexQ i) = tlists k (MutexQ i)"
    by blast
  have st2: "thread_stat k2 t = RT_THREAD_READY" using k2(6) own(2) st by (simp add: e1)
  have oth2: "thread_stat k2 j = RT_THREAD_READY"
    using k2(4,6) other by (cases "j = u") (simp_all add: e1)
  note fr2 = thread_frame_trans[OF fr1 k2(3)]
  have fl: "mutex_flag k2 i = mutex_flag k i" using thread_frameD(13)[OF fr2, of "ObjMutex i"] by simp
  then have flag: "mutex_flag k2 i = RT_IPC_FLAG_FIFO \<or> mutex_flag k2 i = RT_IPC_FLAG_PRIO" using m(6) by simp
  have wl: "wait_list (Some (MutexQ i))" by simp
  from ipc_block_ok[OF k2(2) st2 oth2 other(2) wl flag tm(2)] obtain k3 k' where
    k': "ipc_block (MutexQ i) t (mutex_flag k2 i) time k2 = Some k'" "rt_schedule k3 = Some k'" "thread_frame k2 k3"
      "kernel_ok k'" "thread_stat k' t = RT_THREAD_SUSPEND"
     and th': "threads k' = (threads k2)(t := (threads k2 t)\<lparr>th_stat := RT_THREAD_SUSPEND OR (th_stat (threads k2 t) AND NOT RT_THREAD_STAT_MASK)\<rparr>)"
     and tl': "tlists k' = (\<lambda>r. remove1 t (tlists k2 r))(MutexQ i := ipc_insert (mutex_flag k2 i) (\<lambda>s. th_current_priority (threads k2 s)) t (tlists k2 (MutexQ i)))"
     and cur': "(rt_scheduler_lock_nest k2 = 0 \<longrightarrow> rt_current_thread k' \<noteq> Some t)"
    by blast
  note fr3 = thread_frame_trans[OF fr2 k'(3)]
  have mxs: "mutexes k' = mutexes k" using thread_frameD(9)[OF fr3] by (simp add: schedule_sel[OF k'(2)])
  have fl': "mutex_flag k' i = mutex_flag k i"
    using thread_frameD(13)[OF fr3, of "ObjMutex i"] by (simp add: schedule_sel[OF k'(2)])
  have u': "threads k' u = threads k2 u" using own(2) by (simp add: th')
  have q': "set (tlists k' (MutexQ i)) = insert t (set (tlists k (MutexQ i)))" by (simp add: tl' k2(7))
  have "mutex_ok k' i" using mx own m(4,5) k2(4) by (simp add: mutex_ok_def mxs fl' u' q')
  moreover have "rt_mutex_take i time k = Some (Blocked, k')"
    using cur own tm m(1) k2(1) k'(1)
    by (simp add: rt_mutex_take_def mutex_take_again_def context_defs k1_def[symmetric] e1 split del: if_split cong: if_cong)
  moreover have "rt_scheduler_lock_nest k2 = rt_scheduler_lock_nest k" using thread_frameD(5)[OF fr2] .
  ultimately show ?thesis using k'(4,5) mxs q' cur' k2(4,5) by (intro exI[of _ k']) (simp add: u')
qed


text \<open>The last release: the owner gets its priority back.\<close>

lemma restore_priority_ok:
  assumes ok: "kernel_ok k" and st: "thread_stat k t = RT_THREAD_READY" and p: "unat p < 32"
  shows "\<exists>k'. (if p \<noteq> th_current_priority (threads k t)
       then rt_thread_control t (RT_THREAD_CTRL_CHANGE_PRIORITY p) k else Some k) = Some k' \<and>
     kernel_ok k' \<and> thread_frame k k' \<and> thread_stat k' t = RT_THREAD_READY \<and> th_current_priority (threads k' t) = p \<and>
     (\<forall>u. u \<noteq> t \<longrightarrow> threads k' u = threads k u) \<and> (\<forall>q. wait_list (Some q) \<longrightarrow> tlists k' q = tlists k q)"
proof (cases "p = th_current_priority (threads k t)")
  case True
  with ok st show ?thesis by (intro exI[of _ k]) simp
next
  case False
  from control_priority_ok[OF ok, of t p] st p obtain k' where
    "rt_thread_control t (RT_THREAD_CTRL_CHANGE_PRIORITY p) k = Some k'" "kernel_ok k'" "thread_frame k k'"
     "thread_stat k' t = thread_stat k t" "th_current_priority (threads k' t) = p"
     "\<forall>u. u \<noteq> t \<longrightarrow> threads k' u = threads k u" "\<forall>q. wait_list (Some q) \<longrightarrow> tlists k' q = tlists k q"
    by blast
  with False st show ?thesis by (intro exI[of _ k']) simp
qed

lemma mutex_release_frees:
  assumes ok: "kernel_ok k" and mx: "mutex_ok k i" and own: "mx_owner (mutexes k i) = Some t"
    and hold: "mx_hold (mutexes k i) = 1" and nw: "tlists k (MutexQ i) = []"
    and cur: "rt_current_thread k = Some t" "rt_interrupt_nest k = 0" and st: "thread_stat k t = RT_THREAD_READY"
  shows "\<exists>k'. rt_mutex_release i k = Some (RT_EOK, k') \<and> kernel_ok k' \<and> mutex_ok k' i \<and>
     mutexes k' = (mutexes k)(i := mutex_free) \<and>
     thread_stat k' t = RT_THREAD_READY \<and> rt_current_thread k' = Some t \<and> rt_interrupt_nest k' = 0 \<and>
     th_current_priority (threads k' t) = mx_original_priority (mutexes k i) \<and>
     (\<forall>q. wait_list (Some q) \<longrightarrow> tlists k' q = tlists k q) \<and> (\<forall>j. mutex_flag k' j = mutex_flag k j)"
proof -
  note m = mutex_waiter_neq[OF mx own]
  let ?p = "mx_original_priority (mutexes k i)"
  define k1 where "k1 = upd_mutex i (\<lambda>m. m\<lparr>mx_hold := mx_hold m - 1\<rparr>) k"
  have ok1: "kernel_ok k1" using ok by (simp add: k1_def)
  have e1: "threads k1 = threads k" "tlists k1 = tlists k" "mx_original_priority (mutexes k1 i) = ?p"
    "mx_hold (mutexes k1 i) = 0" "mutexes k1 = (mutexes k)(i := (mutexes k i)\<lparr>mx_hold := 0\<rparr>)"
    "rt_current_thread k1 = rt_current_thread k" "rt_interrupt_nest k1 = rt_interrupt_nest k" "objs k1 = objs k"
    using hold by (simp_all add: k1_def upd_mutex_def)
  from restore_priority_ok[OF ok1, of t ?p] st m(3) obtain k2 where
    k2: "(if ?p \<noteq> th_current_priority (threads k t)
       then rt_thread_control t (RT_THREAD_CTRL_CHANGE_PRIORITY ?p) k1 else Some k1) = Some k2"
     "kernel_ok k2" "thread_frame k1 k2" "thread_stat k2 t = RT_THREAD_READY" "th_current_priority (threads k2 t) = ?p"
     "\<forall>q. wait_list (Some q) \<longrightarrow> tlists k2 q = tlists k1 q"
    unfolding e1 by blast
  have mx2: "mutexes k2 = mutexes k1" "rt_current_thread k2 = Some t" "rt_interrupt_nest k2 = 0"
    using thread_frameD(3,6,9)[OF k2(3)] cur by (simp_all add: e1)
  have fl2: "mutex_flag k2 j = mutex_flag k j" for j using thread_frameD(13)[OF k2(3), of "ObjMutex j"] by (simp add: e1)
  have q2: "tlists k2 (MutexQ i) = []" using k2(6) nw by (simp add: e1)
  define k' where "k' = upd_mutex i (\<lambda>m. m\<lparr>mx_value := mx_value m + 1, mx_owner := None, mx_original_priority := 0xff\<rparr>) k2"
  have e': "mutexes k' = (mutexes k)(i := mutex_free)" "threads k' = threads k2" "tlists k' = tlists k2" "objs k' = objs k2"
    using m(1) by (simp_all add: k'_def upd_mutex_def mx2 e1(5) mutex_free_def mutex_eqs)
  have "rt_mutex_release i k = Some (RT_EOK, k')"
    using cur own k2(1) q2
    by (simp add: rt_mutex_release_def context_defs k1_def[symmetric] e1 k'_def split del: if_split cong: if_cong)
  moreover have "mutex_ok k' i" using m(6) q2 by (simp add: mutex_ok_def Let_def e' fl2 mutex_free_def)
  moreover have "kernel_ok k'" using k2(2) by (simp add: k'_def)
  moreover have "rt_current_thread k' = Some t" "rt_interrupt_nest k' = 0" using mx2 by (simp_all add: k'_def upd_mutex_def)
  ultimately show ?thesis using k2(4-6) fl2 by (intro exI[of _ k']) (simp add: e' e1)
qed

lemma mutex_release_hands_over:
  assumes ok: "kernel_ok k" and mx: "mutex_ok k i" and own: "mx_owner (mutexes k i) = Some t"
    and hold: "mx_hold (mutexes k i) = 1" and q: "tlists k (MutexQ i) = u # us"
    and cur: "rt_current_thread k = Some t" "rt_interrupt_nest k = 0" and st: "thread_stat k t = RT_THREAD_READY"
  shows "\<exists>k'. rt_mutex_release i k = Some (RT_EOK, k') \<and> kernel_ok k' \<and> mutex_ok k' i \<and>
     mutexes k' = (mutexes k)(i := \<lparr>mx_value = 0, mx_original_priority = th_current_priority (threads k u),
                                    mx_hold = 1, mx_owner = Some u\<rparr>) \<and>
     thread_stat k' t = RT_THREAD_READY \<and> thread_stat k' u = RT_THREAD_READY \<and> tlists k' (MutexQ i) = us \<and>
     th_error (threads k' u) = th_error (threads k u) \<and>
     th_current_priority (threads k' t) = mx_original_priority (mutexes k i)"
proof -
  note m = mutex_waiter_neq[OF mx own]
  let ?p = "mx_original_priority (mutexes k i)"
  have wl: "wait_list (Some (MutexQ i))" by simp
  have ut: "u \<noteq> t" using m(5) q by auto
  have uus: "u \<notin> set us" using lists_ok_distinct[OF kernel_okD(4)[OF ok], of "MutexQ i"] q by simp
  define k1 where "k1 = upd_mutex i (\<lambda>m. m\<lparr>mx_hold := mx_hold m - 1\<rparr>) k"
  have ok1: "kernel_ok k1" using ok by (simp add: k1_def)
  have e1: "threads k1 = threads k" "tlists k1 = tlists k" "mx_original_priority (mutexes k1 i) = ?p"
    "mx_hold (mutexes k1 i) = 0" "mutexes k1 = (mutexes k)(i := (mutexes k i)\<lparr>mx_hold := 0\<rparr>)" "objs k1 = objs k"
    using hold by (simp_all add: k1_def upd_mutex_def)
  from restore_priority_ok[OF ok1, of t ?p] st m(3) obtain k2 where
    k2: "(if ?p \<noteq> th_current_priority (threads k t)
       then rt_thread_control t (RT_THREAD_CTRL_CHANGE_PRIORITY ?p) k1 else Some k1) = Some k2"
     "kernel_ok k2" "thread_frame k1 k2" "thread_stat k2 t = RT_THREAD_READY" "th_current_priority (threads k2 t) = ?p"
     "\<forall>u. u \<noteq> t \<longrightarrow> threads k2 u = threads k u" "\<forall>q. wait_list (Some q) \<longrightarrow> tlists k2 q = tlists k1 q"
    unfolding e1 by blast
  define k3 where "k3 = upd_mutex i (\<lambda>m. m\<lparr>mx_owner := Some u, mx_original_priority := th_current_priority (threads k2 u),
    mx_hold := mx_hold m + 1\<rparr>) k2"
  have ok3: "kernel_ok k3" using k2(2) by (simp add: k3_def)
  have q3: "tlists k3 (MutexQ i) = u # us" using k2(7) q by (simp add: k3_def upd_mutex_def e1)
  from list_resume_ok[OF ok3 wl q3] obtain k4 where
    k4: "rt_ipc_list_resume (MutexQ i) k3 = Some k4" "kernel_ok k4" "thread_frame k3 k4" "thread_stat k4 u = RT_THREAD_READY"
      "threads k4 = (threads k3)(u := (threads k3 u)\<lparr>th_stat := RT_THREAD_READY OR (th_stat (threads k3 u) AND NOT RT_THREAD_STAT_MASK)\<rparr>)"
      "tlists k4 (MutexQ i) = us"
    by blast
  note so = kernel_okD(1)[OF k4(2)]
  from schedule_defined[OF so ready_listed(2)[OF so k4(4)]] obtain k' where k': "rt_schedule k4 = Some k'" ..
  have mxs: "mutexes k' = (mutexes k)(i := \<lparr>mx_value = 0, mx_original_priority = th_current_priority (threads k u),
      mx_hold = 1, mx_owner = Some u\<rparr>)"
    using thread_frameD(9)[OF k2(3)] thread_frameD(9)[OF k4(3)] m(1) k2(6) ut
    by (simp add: schedule_sel[OF k'] k3_def upd_mutex_def e1(5) mutex_eqs)
  have fl: "mutex_flag k4 i = mutex_flag k i"
    using thread_frameD(13)[OF k2(3), of "ObjMutex i"] thread_frameD(13)[OF k4(3), of "ObjMutex i"]
    by (simp add: k3_def upd_mutex_def e1)
  have u': "thread_stat k' u = RT_THREAD_READY" using k4(4) by (simp only: schedule_sel[OF k'])
  have t3: "threads k3 = threads k2" by (simp add: k3_def upd_mutex_def)
  have t': "threads k' t = threads k2 t" using ut by (simp add: schedule_sel[OF k'] k4(5) t3)
  have err: "th_error (threads k' u) = th_error (threads k u)"
    using k2(6) ut by (simp add: schedule_sel[OF k'] k4(5) t3)
  have "mutex_ok k' i"
    using m(6) u' uus prio_lt_32[OF ok, of u] by (simp add: mutex_ok_def Let_def mxs fl schedule_sel[OF k'] k4(6))
  moreover have "rt_mutex_release i k = Some (RT_EOK, k')"
    using cur own k2(1,7) q k4(1) k'
    by (simp add: rt_mutex_release_def context_defs k1_def[symmetric] e1 k3_def split del: if_split cong: if_cong)
  moreover have "kernel_ok k'" using schedule_kernel_ok[OF k'] k4(2) by simp
  ultimately show ?thesis using mxs u' t' err k2(4,5) k4(6)
    by (intro exI[of _ k']) (simp add: schedule_sel[OF k'])
qed

section \<open>Properties\<close>

text \<open>C4: A thread that has to wait for a mutex lends its priority to the owner: the owner runs
  at the more urgent of the two priorities while the mutex, its owner and its hold count stay
  as they are, the taker is suspended on the mutex and another thread runs.\<close>

theorem mutex_take_inherits:
  assumes "kernel_ok k" and "mutex_ok k i" and "mx_owner (mutexes k i) = Some u" and "u \<noteq> t"
    and "time \<noteq> 0" and "time \<noteq> 0x7fffffff"
    and "rt_current_thread k = Some t" and "rt_interrupt_nest k = 0" and "thread_stat k t = RT_THREAD_READY"
    and "thread_stat k j = RT_THREAD_READY" and "j \<noteq> t" and "rt_scheduler_lock_nest k = 0"
  shows "\<exists>k'. rt_mutex_take i time k = Some (Blocked, k') \<and> kernel_ok k' \<and> mutex_ok k' i \<and> mutexes k' = mutexes k \<and>
     thread_stat k' t = RT_THREAD_SUSPEND \<and> thread_stat k' u = thread_stat k u \<and>
     th_current_priority (threads k' u) = min (th_current_priority (threads k u)) (th_current_priority (threads k t)) \<and>
     set (tlists k' (MutexQ i)) = insert t (set (tlists k (MutexQ i))) \<and> rt_current_thread k' \<noteq> Some t"
  using mutex_take_blocks[OF assms(1-11)] assms(12) by blast

theorem mutex_take_inherits_witness:
  "\<exists>k'. rt_mutex_take 1 20 ex_kernel = Some (Blocked, k') \<and> kernel_ok k' \<and> mutex_ok k' 1 \<and>
     th_current_priority (threads k' 5) = 10 \<and> set (tlists k' (MutexQ 1)) = {2}"
proof -
  have m: "mutex_ok ex_kernel 1" "mx_owner (mutexes ex_kernel 1) = Some 5" "tlists ex_kernel (MutexQ 1) = []"
    "th_current_priority (threads ex_kernel 5) = 10" "th_current_priority (threads ex_kernel 2) = 10"
    by (simp_all add: mutex_ok_def ex_kernel_def ex_thread_def)
  show ?thesis using mutex_take_inherits[OF ex_kernel_ok m(1,2), of 2 20 0] m by auto
qed

text \<open>C5: The last release of a mutex with waiters restores the owner's priority and hands the
  mutex to the first waiter, which becomes its only holder and ready: the mutex is never free
  in between.\<close>

theorem mutex_release_hand_over:
  assumes "kernel_ok k" and "mutex_ok k i" and "mx_owner (mutexes k i) = Some t"
    and "mx_hold (mutexes k i) = 1" and "tlists k (MutexQ i) = u # us"
    and "rt_current_thread k = Some t" and "rt_interrupt_nest k = 0" and "thread_stat k t = RT_THREAD_READY"
  shows "\<exists>k'. rt_mutex_release i k = Some (RT_EOK, k') \<and> kernel_ok k' \<and> mutex_ok k' i \<and>
     mutexes k' = (mutexes k)(i := \<lparr>mx_value = 0, mx_original_priority = th_current_priority (threads k u),
                                    mx_hold = 1, mx_owner = Some u\<rparr>) \<and>
     thread_stat k' t = RT_THREAD_READY \<and> thread_stat k' u = RT_THREAD_READY \<and> tlists k' (MutexQ i) = us \<and>
     th_error (threads k' u) = th_error (threads k u) \<and>
     th_current_priority (threads k' t) = mx_original_priority (mutexes k i)"
  using mutex_release_hands_over[OF assms] by blast

theorem mutex_release_hand_over_witness:
  "\<exists>k'. rt_mutex_release 0 ex_kernel = Some (RT_EOK, k') \<and> kernel_ok k' \<and> mx_owner (mutexes k' 0) = Some 4 \<and>
     thread_stat k' 4 = RT_THREAD_READY \<and> tlists k' (MutexQ 0) = []"
proof -
  have m: "mutex_ok ex_kernel 0" "mx_owner (mutexes ex_kernel 0) = Some 2" "mx_hold (mutexes ex_kernel 0) = 1"
    by (simp_all add: mutex_ok_def ex_kernel_def ex_thread_def)
  from mutex_release_hand_over[OF ex_kernel_ok m ex_sel(13) ex_sel(1,2,7)] obtain k' where
    k': "rt_mutex_release 0 ex_kernel = Some (RT_EOK, k')" "kernel_ok k'" "thread_stat k' 4 = RT_THREAD_READY"
      "tlists k' (MutexQ 0) = []"
    and mx: "mutexes k' = (mutexes ex_kernel)(0 := \<lparr>mx_value = 0, mx_original_priority = th_current_priority (threads ex_kernel 4),
       mx_hold = 1, mx_owner = Some 4\<rparr>)" by blast
  have "mx_owner (mutexes k' 0) = Some 4" by (simp add: mx)
  with k' show ?thesis by blast
qed

text \<open>Taking a free mutex makes the running thread its owner with a hold count of one, and
  releasing it again restores the mutex and leaves the thread at its priority.\<close>

theorem mutex_take_release:
  assumes "kernel_ok k" and "mutex_ok k i" and "mutexes k i = mutex_free"
    and "rt_current_thread k = Some t" and "rt_interrupt_nest k = 0" and "thread_stat k t = RT_THREAD_READY"
  shows "\<exists>k1 k2. rt_mutex_take i time k = Some (Return RT_EOK, k1) \<and> kernel_ok k1 \<and> mutex_ok k1 i \<and>
     mx_owner (mutexes k1 i) = Some t \<and> mx_hold (mutexes k1 i) = 1 \<and>
     rt_mutex_release i k1 = Some (RT_EOK, k2) \<and> kernel_ok k2 \<and> mutex_ok k2 i \<and> mutexes k2 = mutexes k \<and>
     th_current_priority (threads k2 t) = th_current_priority (threads k t)"
proof -
  let ?p = "th_current_priority (threads k t)"
  define k0 where "k0 = upd_thread t (\<lambda>th. th\<lparr>th_error := RT_EOK\<rparr>) k"
  define k1 where "k1 = upd_mutex i (\<lambda>m. m\<lparr>mx_value := mx_value m - 1, mx_owner := Some t,
               mx_original_priority := th_current_priority (threads k0 t), mx_hold := mx_hold m + 1\<rparr>) k0"
  have e1: "mutexes k1 = (mutexes k)(i := \<lparr>mx_value = 0, mx_original_priority = ?p, mx_hold = 1, mx_owner = Some t\<rparr>)"
    "tlists k1 = tlists k" "objs k1 = objs k" "rt_current_thread k1 = rt_current_thread k"
    "rt_interrupt_nest k1 = rt_interrupt_nest k" "\<And>s. thread_stat k1 s = thread_stat k s"
    using assms(3) by (simp_all add: k1_def k0_def upd_mutex_def upd_thread_def mutex_free_def)
  have nw: "tlists k (MutexQ i) = []" using assms(2,3) by (simp add: mutex_ok_def mutex_free_def)
  have ok1: "kernel_ok k1" using set_error_ok[OF assms(1)] by (simp add: k1_def k0_def)
  have mx1: "mutex_ok k1 i"
    using assms(2,6) nw prio_lt_32[OF assms(1), of t] by (simp add: mutex_ok_def Let_def e1)
  have take: "rt_mutex_take i time k = Some (Return RT_EOK, k1)"
  proof -
    have "mutexes k0 = mutexes k" by (simp add: k0_def upd_thread_def)
    with assms(3-5) show ?thesis
      by (simp add: rt_mutex_take_def mutex_take_again_def context_defs k0_def[symmetric] k1_def mutex_free_def)
  qed
  have m1: "mutexes k1 i = \<lparr>mx_value = 0, mx_original_priority = ?p, mx_hold = 1, mx_owner = Some t\<rparr>" by (simp add: e1)
  have f1: "mx_owner (mutexes k1 i) = Some t" "mx_hold (mutexes k1 i) = 1" "tlists k1 (MutexQ i) = []"
    "rt_current_thread k1 = Some t" "rt_interrupt_nest k1 = 0" "thread_stat k1 t = RT_THREAD_READY"
    using assms(4-6) nw by (simp_all add: m1 e1)
  from mutex_release_frees[OF ok1 mx1 f1] obtain k2 where
    k2: "rt_mutex_release i k1 = Some (RT_EOK, k2)" "kernel_ok k2" "mutex_ok k2 i" "mutexes k2 = (mutexes k1)(i := mutex_free)"
      "th_current_priority (threads k2 t) = mx_original_priority (mutexes k1 i)"
    by blast
  have "mutexes k2 = mutexes k" using assms(3) by (simp add: k2(4) e1 fun_upd_idem)
  with take ok1 mx1 k2 m1 show ?thesis by (intro exI[of _ k1] exI[of _ k2]) simp
qed

theorem mutex_take_release_witness:
  "\<exists>k1 k2. rt_mutex_take 2 0 ex_kernel = Some (Return RT_EOK, k1) \<and>
     rt_mutex_release 2 k1 = Some (RT_EOK, k2) \<and> mutexes k2 = mutexes ex_kernel"
proof -
  have m: "mutex_ok ex_kernel 2" "mutexes ex_kernel 2 = mutex_free"
    by (simp_all add: mutex_ok_def ex_kernel_def mutex_free_def)
  show ?thesis using mutex_take_release[OF ex_kernel_ok m ex_sel(1,2,7)] by blast
qed




end
