(* ===== verification/Event.thy ===== *)
theory Event
  imports Semaphore
begin

text \<open>Event sets of rt-thread/src/ipc.c.\<close>

section \<open>Operations\<close>

abbreviation event_flag :: "kernel \<Rightarrow> nat \<Rightarrow> u8" where
  "event_flag k i \<equiv> ob_flag (objs k (ObjEvent i))"

definition rt_event_init :: "nat \<Rightarrow> u8 list \<Rightarrow> u8 \<Rightarrow> kernel \<Rightarrow> kernel option" where
  "rt_event_init i name flag k =
     do { k \<leftarrow> rt_object_init (ObjEvent i) name k;
          let k = upd_obj (ObjEvent i) (\<lambda>x. x\<lparr>ob_flag := flag\<rparr>) k;
          k \<leftarrow> rt_ipc_object_init (EventQ i) k;
          Some (upd_event i (\<lambda>e. e\<lparr>ev_set := 0\<rparr>) k) }"

definition rt_event_detach :: "nat \<Rightarrow> kernel \<Rightarrow> kernel option" where
  "rt_event_detach i k =
     do { k \<leftarrow> rt_ipc_list_resume_all (EventQ i) k;
          Some (rt_object_detach (ObjEvent i) k) }"

definition rt_event_create :: "nat option \<Rightarrow> u8 list \<Rightarrow> u8 \<Rightarrow> kernel \<Rightarrow> (nat option \<times> kernel) option" where
  "rt_event_create mem name flag k =
     (if \<not> RT_DEBUG_NOT_IN_INTERRUPT k then None
      else do { (_, k) \<leftarrow> rt_object_allocate (map_option ObjEvent mem) RT_Object_Class_Event name k;
                case mem of
                  None \<Rightarrow> Some (None, k)
                | Some i \<Rightarrow>
                    do { let k = upd_obj (ObjEvent i) (\<lambda>x. x\<lparr>ob_flag := flag\<rparr>) k;
                         k \<leftarrow> rt_ipc_object_init (EventQ i) k;
                         Some (Some i, upd_event i (\<lambda>e. e\<lparr>ev_set := 0\<rparr>) k) } })"

definition rt_event_delete :: "nat \<Rightarrow> kernel \<Rightarrow> kernel option" where
  "rt_event_delete i k =
     (if \<not> RT_DEBUG_NOT_IN_INTERRUPT k then None
      else do { k \<leftarrow> rt_ipc_list_resume_all (EventQ i) k;
                rt_object_delete (ObjEvent i) k })"

text \<open>Whether the event set s satisfies a wait for the events m with the given options.\<close>

definition event_matches :: "u8 \<Rightarrow> u32 \<Rightarrow> u32 \<Rightarrow> bool" where
  "event_matches info m s \<longleftrightarrow>
     (if info AND RT_EVENT_FLAG_AND \<noteq> 0 then m AND s = m
      else if info AND RT_EVENT_FLAG_OR \<noteq> 0 then m AND s \<noteq> 0
      else False)"



text \<open>The result carries what is written to recved, if anything.\<close>

definition rt_event_recv :: "nat \<Rightarrow> u32 \<Rightarrow> u8 \<Rightarrow> u32 \<Rightarrow> kernel \<Rightarrow> ((rt_err \<times> u32 option) outcome \<times> kernel) option" where
  "rt_event_recv i evs opt timeout k =
     (if \<not> RT_DEBUG_IN_THREAD_CONTEXT k then None
      else if evs = 0 then Some (Return (RT_ERROR, None), k)
      else do { t \<leftarrow> rt_thread_self k;
                let k = upd_thread t (\<lambda>th. th\<lparr>th_error := RT_EOK\<rparr>) k;
                let s = ev_set (events k i);
                if opt AND RT_EVENT_FLAG_AND = 0 \<and> opt AND RT_EVENT_FLAG_OR = 0 then None
                else if event_matches opt evs s
                then Some (Return (RT_EOK, Some (s AND evs)),
                       if opt AND RT_EVENT_FLAG_CLEAR \<noteq> 0
                       then upd_event i (\<lambda>e. e\<lparr>ev_set := ev_set e AND NOT evs\<rparr>) k else k)
                else if timeout = 0
                then Some (Return (RT_ETIMEOUT, None), upd_thread t (\<lambda>th. th\<lparr>th_error := RT_ETIMEOUT\<rparr>) k)
                else do { let k = upd_thread t (\<lambda>th. th\<lparr>th_event_set := evs, th_event_info := opt\<rparr>) k;
                          k \<leftarrow> ipc_block (EventQ i) t (event_flag k i) timeout k;
                          Some (Blocked, k) } })"

definition rt_event_recv_resumed :: "tid \<Rightarrow> kernel \<Rightarrow> rt_err \<times> u32 option" where
  "rt_event_recv_resumed t k =
     (let th = threads k t
      in if th_error th \<noteq> RT_EOK then (th_error th, None) else (th_error th, Some (th_event_set th)))"

definition rt_event_control :: "nat \<Rightarrow> ipc_cmd \<Rightarrow> kernel \<Rightarrow> (rt_err \<times> kernel) option" where
  "rt_event_control i cmd k =
     (case cmd of
        RT_IPC_CMD_RESET _ \<Rightarrow>
          do { k \<leftarrow> rt_ipc_list_resume_all (EventQ i) k;
               let k = upd_event i (\<lambda>e. e\<lparr>ev_set := 0\<rparr>) k;
               k \<leftarrow> rt_schedule k;
               Some (RT_EOK, k) }
      | RT_IPC_CMD_OTHER \<Rightarrow> Some (RT_ERROR, k))"

section \<open>The event invariant\<close>


definition subset_bits :: "u32 \<Rightarrow> u32 \<Rightarrow> bool" where
  "subset_bits a b \<longleftrightarrow> a AND b = a"

lemma subset_bits_bit: "subset_bits a b \<longleftrightarrow> (\<forall>n. bit a n \<longrightarrow> bit b n)"
proof
  assume "subset_bits a b"
  then show "\<forall>n. bit a n \<longrightarrow> bit b n" unfolding subset_bits_def by (metis bit_and_iff)
next
  assume "\<forall>n. bit a n \<longrightarrow> bit b n"
  then have "a AND b = a" by (intro bit_eqI) (auto simp: bit_and_iff)
  then show "subset_bits a b" by (simp add: subset_bits_def)
qed

lemma subset_bits_refl [simp]: "subset_bits a a" by (simp add: subset_bits_def)
lemma subset_bits_and [simp]: "subset_bits (a AND b) a" "subset_bits (a AND b) b"
  by (simp_all add: subset_bits_bit bit_and_iff)


lemma upd_event_kernel_ok [simp]: "kernel_ok (upd_event i f k) = kernel_ok k"
proof -
  have "timers_ok (upd_event i f k) = timers_ok k" by (rule timers_ok_cong) (simp_all add: upd_event_def)
  then show ?thesis by (simp add: kernel_ok_def)
qed






section \<open>Properties\<close>



text \<open>Receiving events that are there returns them at once, clears them only when asked to,
  and touches no thread but for the error code of the caller.\<close>

theorem event_recv_immediate:
  assumes "rt_current_thread k = Some t" and "rt_interrupt_nest k = 0" and "evs \<noteq> 0"
    and "event_matches opt evs (ev_set (events k i))"
  shows "\<exists>k'. rt_event_recv i evs opt timeout k = Some (Return (RT_EOK, Some (ev_set (events k i) AND evs)), k') \<and>
     ev_set (events k' i) = (if opt AND RT_EVENT_FLAG_CLEAR \<noteq> 0 then ev_set (events k i) AND NOT evs
                             else ev_set (events k i)) \<and>
     tlists k' = tlists k \<and> threads k' = (threads k)(t := (threads k t)\<lparr>th_error := RT_EOK\<rparr>)"
proof -
  have "\<not> (opt AND RT_EVENT_FLAG_AND = 0 \<and> opt AND RT_EVENT_FLAG_OR = 0)"
    using assms(4) by (auto simp: event_matches_def)
  with assms show ?thesis
    by (simp add: rt_event_recv_def context_defs upd_thread_def upd_event_def Let_def)
qed

theorem event_recv_immediate_witness:
  "\<exists>k'. rt_event_recv 0 3 (RT_EVENT_FLAG_OR OR RT_EVENT_FLAG_CLEAR) 0 ex_kernel = Some (Return (RT_EOK, Some 1), k') \<and>
     ev_set (events k' 0) = 0"
proof -
  have e: "event_matches (RT_EVENT_FLAG_OR OR RT_EVENT_FLAG_CLEAR) 3 (ev_set (events ex_kernel 0))"
    "ev_set (events ex_kernel 0) = 1"
    by (simp_all add: event_matches_def ex_kernel_def)
  show ?thesis using event_recv_immediate[OF ex_sel(1,2) _ e(1), of 0] e(2) by auto
qed

end
