(* ===== verification/Mailbox.thy ===== *)
theory Mailbox
  imports Semaphore
begin

text \<open>
  Mailboxes of rt-thread/src/ipc.c: a circular array of words with a wait list for receivers
  and one for senders.
\<close>

section \<open>Operations\<close>

abbreviation mb_flag :: "kernel \<Rightarrow> nat \<Rightarrow> u8" where
  "mb_flag k i \<equiv> ob_flag (objs k (ObjMb i))"

text \<open>The pool that msgpool points to is given as a list of words.\<close>

definition rt_mb_init :: "nat \<Rightarrow> u8 list \<Rightarrow> u32 list \<Rightarrow> u32 \<Rightarrow> u8 \<Rightarrow> kernel \<Rightarrow> kernel option" where
  "rt_mb_init i name msgpool sz flag k =
     do { k \<leftarrow> rt_object_init (ObjMb i) name k;
          let k = upd_obj (ObjMb i) (\<lambda>x. x\<lparr>ob_flag := flag\<rparr>) k;
          k \<leftarrow> rt_ipc_object_init (MbQ i) k;
          let k = upd_mb i (\<lambda>_. \<lparr>mb_msg_pool = msgpool, mb_size = ucast sz, mb_entry = 0,
                                 mb_in_offset = 0, mb_out_offset = 0\<rparr>) k;
          rt_ipc_object_init (MbSendQ i) k }"

definition rt_mb_detach :: "nat \<Rightarrow> kernel \<Rightarrow> kernel option" where
  "rt_mb_detach i k =
     do { k \<leftarrow> rt_ipc_list_resume_all (MbQ i) k;
          k \<leftarrow> rt_ipc_list_resume_all (MbSendQ i) k;
          Some (rt_object_detach (ObjMb i) k) }"

text \<open>mem and pool are what the two allocations return.\<close>

definition rt_mb_create ::
  "nat option \<Rightarrow> u32 list option \<Rightarrow> u8 list \<Rightarrow> u32 \<Rightarrow> u8 \<Rightarrow> kernel \<Rightarrow> (nat option \<times> kernel) option" where
  "rt_mb_create mem pool name sz flag k =
     (if \<not> RT_DEBUG_NOT_IN_INTERRUPT k then None
      else do { (_, k) \<leftarrow> rt_object_allocate (map_option ObjMb mem) RT_Object_Class_MailBox name k;
                case mem of
                  None \<Rightarrow> Some (None, k)
                | Some i \<Rightarrow>
                    do { let k = upd_obj (ObjMb i) (\<lambda>x. x\<lparr>ob_flag := flag\<rparr>) k;
                         k \<leftarrow> rt_ipc_object_init (MbQ i) k;
                         case pool of
                           None \<Rightarrow> do { k \<leftarrow> rt_object_delete (ObjMb i) (upd_mb i (\<lambda>m. m\<lparr>mb_size := ucast sz\<rparr>) k);
                                        Some (None, k) }
                         | Some msg_pool \<Rightarrow>
                             do { let k = upd_mb i (\<lambda>_. \<lparr>mb_msg_pool = msg_pool, mb_size = ucast sz, mb_entry = 0,
                                                   mb_in_offset = 0, mb_out_offset = 0\<rparr>) k;
                                  k \<leftarrow> rt_ipc_object_init (MbSendQ i) k;
                                  Some (Some i, k) } } })"

definition rt_mb_delete :: "nat \<Rightarrow> kernel \<Rightarrow> kernel option" where
  "rt_mb_delete i k =
     (if \<not> RT_DEBUG_NOT_IN_INTERRUPT k then None
      else do { k \<leftarrow> rt_ipc_list_resume_all (MbQ i) k;
                k \<leftarrow> rt_ipc_list_resume_all (MbSendQ i) k;
                rt_object_delete (ObjMb i) k })"

text \<open>The array operations.  An offset outside the pool is outside the array: None.\<close>

definition mb_put :: "u32 \<Rightarrow> rt_mailbox \<Rightarrow> rt_mailbox" where
  "mb_put value mb =
     (let n = mb_in_offset mb + 1
      in mb\<lparr>mb_msg_pool := (mb_msg_pool mb)[unat (mb_in_offset mb) := value],
            mb_in_offset := (if n \<ge> mb_size mb then 0 else n),
            mb_entry := mb_entry mb + 1\<rparr>)"

definition mb_get :: "rt_mailbox \<Rightarrow> u32 \<times> rt_mailbox" where
  "mb_get mb =
     (let n = mb_out_offset mb + 1
      in (mb_msg_pool mb ! unat (mb_out_offset mb),
          mb\<lparr>mb_out_offset := (if n \<ge> mb_size mb then 0 else n), mb_entry := mb_entry mb - 1\<rparr>))"

text \<open>The while loop of rt_mb_send_wait and what follows it; the thread is the one that was
  running when the call was made.\<close>

definition mb_send_loop :: "nat \<Rightarrow> u32 \<Rightarrow> u32 \<Rightarrow> tid option \<Rightarrow> kernel \<Rightarrow> (rt_err outcome \<times> kernel) option" where
  "mb_send_loop i value timeout thread k =
     (if mb_entry (mailboxes k i) = mb_size (mailboxes k i)
      then do { t \<leftarrow> thread;
                let k = upd_thread t (\<lambda>th. th\<lparr>th_error := RT_EOK\<rparr>) k;
                if timeout = 0 then Some (Return RT_EFULL, k)
                else if \<not> RT_DEBUG_IN_THREAD_CONTEXT k then None
                else do { k \<leftarrow> ipc_block (MbSendQ i) t (mb_flag k i) timeout k;
                          Some (Blocked, k) } }
      else if unat (mb_in_offset (mailboxes k i)) < length (mb_msg_pool (mailboxes k i))
      then do { k \<leftarrow> wake_first (MbQ i) (upd_mb i (mb_put value) k);
                Some (Return RT_EOK, k) }
      else None)"

definition rt_mb_send_wait :: "nat \<Rightarrow> u32 \<Rightarrow> u32 \<Rightarrow> kernel \<Rightarrow> (rt_err outcome \<times> kernel) option" where
  "rt_mb_send_wait i value timeout k =
     (if mb_entry (mailboxes k i) = mb_size (mailboxes k i) \<and> timeout = 0
      then Some (Return RT_EFULL, k)
      else mb_send_loop i value timeout (rt_thread_self k) k)"

text \<open>The time left after a wait that began at the tick start.\<close>

definition time_left :: "u32 \<Rightarrow> u32 \<Rightarrow> u32 \<Rightarrow> u32" where
  "time_left timeout start now =
     (if 0 < sint timeout
      then let timeout = timeout - (now - start) in if sint timeout < 0 then 0 else timeout
      else timeout)"

definition rt_mb_send_wait_resumed ::
  "nat \<Rightarrow> u32 \<Rightarrow> u32 \<Rightarrow> u32 \<Rightarrow> tid \<Rightarrow> kernel \<Rightarrow> (rt_err outcome \<times> kernel) option" where
  "rt_mb_send_wait_resumed i value timeout start t k =
     (if th_error (threads k t) \<noteq> RT_EOK then Some (Return (th_error (threads k t)), k)
      else mb_send_loop i value (time_left timeout start (rt_tick_get k)) (Some t) k)"

definition rt_mb_send :: "nat \<Rightarrow> u32 \<Rightarrow> kernel \<Rightarrow> (rt_err outcome \<times> kernel) option" where
  "rt_mb_send i value k = rt_mb_send_wait i value 0 k"

text \<open>The result carries the mail that is stored through the pointer, if any.\<close>

definition mb_recv_loop ::
  "nat \<Rightarrow> u32 \<Rightarrow> tid option \<Rightarrow> kernel \<Rightarrow> ((rt_err \<times> u32 option) outcome \<times> kernel) option" where
  "mb_recv_loop i timeout thread k =
     (if mb_entry (mailboxes k i) = 0
      then do { t \<leftarrow> thread;
                let k = upd_thread t (\<lambda>th. th\<lparr>th_error := RT_EOK\<rparr>) k;
                if timeout = 0
                then Some (Return (RT_ETIMEOUT, None), upd_thread t (\<lambda>th. th\<lparr>th_error := RT_ETIMEOUT\<rparr>) k)
                else if \<not> RT_DEBUG_IN_THREAD_CONTEXT k then None
                else do { k \<leftarrow> ipc_block (MbQ i) t (mb_flag k i) timeout k;
                          Some (Blocked, k) } }
      else if unat (mb_out_offset (mailboxes k i)) < length (mb_msg_pool (mailboxes k i))
      then let (value, mb) = mb_get (mailboxes k i)
           in do { k \<leftarrow> wake_first (MbSendQ i) (upd_mb i (\<lambda>_. mb) k);
                   Some (Return (RT_EOK, Some value), k) }
      else None)"

definition rt_mb_recv :: "nat \<Rightarrow> u32 \<Rightarrow> kernel \<Rightarrow> ((rt_err \<times> u32 option) outcome \<times> kernel) option" where
  "rt_mb_recv i timeout k =
     (if mb_entry (mailboxes k i) = 0 \<and> timeout = 0 then Some (Return (RT_ETIMEOUT, None), k)
      else mb_recv_loop i timeout (rt_thread_self k) k)"

definition rt_mb_recv_resumed ::
  "nat \<Rightarrow> u32 \<Rightarrow> u32 \<Rightarrow> tid \<Rightarrow> kernel \<Rightarrow> ((rt_err \<times> u32 option) outcome \<times> kernel) option" where
  "rt_mb_recv_resumed i timeout start t k =
     (if th_error (threads k t) \<noteq> RT_EOK then Some (Return (th_error (threads k t), None), k)
      else mb_recv_loop i (time_left timeout start (rt_tick_get k)) (Some t) k)"

definition rt_mb_control :: "nat \<Rightarrow> ipc_cmd \<Rightarrow> kernel \<Rightarrow> (rt_err \<times> kernel) option" where
  "rt_mb_control i cmd k =
     (case cmd of
        RT_IPC_CMD_RESET _ \<Rightarrow>
          do { k \<leftarrow> rt_ipc_list_resume_all (MbQ i) k;
               k \<leftarrow> rt_ipc_list_resume_all (MbSendQ i) k;
               let k = upd_mb i (\<lambda>m. m\<lparr>mb_entry := 0, mb_in_offset := 0, mb_out_offset := 0\<rparr>) k;
               k \<leftarrow> rt_schedule k;
               Some (RT_EOK, k) }
      | RT_IPC_CMD_OTHER \<Rightarrow> Some (RT_ERROR, k))"

section \<open>The mailbox as a queue\<close>

definition mb_ok :: "rt_mailbox \<Rightarrow> bool" where
  "mb_ok mb \<longleftrightarrow> length (mb_msg_pool mb) = unat (mb_size mb) \<and> mb_size mb \<noteq> 0 \<and>
     mb_entry mb \<le> mb_size mb \<and> mb_out_offset mb < mb_size mb \<and>
     unat (mb_in_offset mb) = (unat (mb_out_offset mb) + unat (mb_entry mb)) mod unat (mb_size mb)"

definition mb_contents :: "rt_mailbox \<Rightarrow> u32 list" where
  "mb_contents mb = circ (mb_msg_pool mb) (unat (mb_out_offset mb)) (unat (mb_entry mb))"

abbreviation mb_capacity :: "rt_mailbox \<Rightarrow> nat" where
  "mb_capacity mb \<equiv> unat (mb_size mb)"

lemma next_offset:
  fixes n sz :: u16
  assumes "n < sz"
  shows "unat (if n + 1 \<ge> sz then 0 else n + 1) = Suc (unat n) mod unat sz"
proof -
  have "unat n < unat sz" using assms by (simp add: word_less_nat_alt)
  moreover have "unat sz < 65536" using unsigned_less[of sz, where ?'a = nat] by simp
  ultimately have "unat (n + 1) = Suc (unat n)" by (simp add: unat_word_ariths)
  then show ?thesis using \<open>unat n < unat sz\<close>
    by (cases "Suc (unat n) = unat sz") (auto simp: word_le_nat_alt)
qed

lemma mb_put_ok:
  assumes "mb_ok mb" and "unat (mb_entry mb) < unat (mb_size mb)"
  shows "mb_ok (mb_put x mb)" and "mb_contents (mb_put x mb) = mb_contents mb @ [x]"
    and "mb_capacity (mb_put x mb) = mb_capacity mb"
proof -
  let ?n = "unat (mb_size mb)" and ?o = "unat (mb_out_offset mb)" and ?e = "unat (mb_entry mb)"
  have m: "length (mb_msg_pool mb) = ?n" "?o < ?n" "unat (mb_in_offset mb) = (?o + ?e) mod ?n" "0 < ?n"
    using assms by (auto simp: mb_ok_def word_less_nat_alt)
  have "?n < 65536" using unsigned_less[of "mb_size mb", where ?'a = nat] by simp
  then have e: "unat (mb_entry mb + 1) = Suc ?e" using assms(2) by (simp add: unat_word_ariths)
  have i: "mb_in_offset mb < mb_size mb" using m by (simp add: word_less_nat_alt)
  have io: "unat (mb_in_offset (mb_put x mb)) = (?o + Suc ?e) mod ?n"
    using next_offset[OF i] m(3) by (simp add: mb_put_def Let_def mod_Suc_eq)
  show "mb_ok (mb_put x mb)"
    using assms e io m unfolding mb_ok_def by (simp add: mb_put_def Let_def word_le_nat_alt)
  show "mb_contents (mb_put x mb) = mb_contents mb @ [x]"
    using circ_put[of ?e "mb_msg_pool mb" ?o x] assms(2) m e by (simp add: mb_contents_def mb_put_def Let_def)
  show "mb_capacity (mb_put x mb) = mb_capacity mb" by (simp add: mb_put_def Let_def)
qed

lemma mb_get_ok:
  assumes "mb_ok mb" and "mb_contents mb = x # xs"
  shows "mb_ok (snd (mb_get mb))" and "fst (mb_get mb) = x" and "mb_contents (snd (mb_get mb)) = xs"
    and "mb_capacity (snd (mb_get mb)) = mb_capacity mb"
proof -
  let ?n = "unat (mb_size mb)" and ?o = "unat (mb_out_offset mb)" and ?e = "unat (mb_entry mb)"
  have pos: "0 < ?e" using assms(2) by (cases ?e) (auto simp: mb_contents_def circ_def)
  have m: "length (mb_msg_pool mb) = ?n" "?o < ?n" "?e \<le> ?n" "unat (mb_in_offset mb) = (?o + ?e) mod ?n"
    using assms(1) by (auto simp: mb_ok_def word_less_nat_alt word_le_nat_alt)
  have e: "unat (mb_entry mb - 1) = ?e - 1" using pos by (simp add: unat_sub word_le_nat_alt)
  have oo: "unat (mb_out_offset (snd (mb_get mb))) = Suc ?o mod ?n"
    using next_offset[of "mb_out_offset mb" "mb_size mb"] m(2) by (simp add: mb_get_def Let_def word_less_nat_alt)
  have c: "mb_contents mb = mb_msg_pool mb ! ?o # circ (mb_msg_pool mb) (Suc ?o) (?e - 1)"
    using circ_get[OF pos, of "mb_msg_pool mb" ?o] m by (simp add: mb_contents_def)
  show "fst (mb_get mb) = x" using c assms(2) by (simp add: mb_get_def Let_def)
  have "mb_contents (snd (mb_get mb)) = circ (mb_msg_pool mb) (Suc ?o mod length (mb_msg_pool mb)) (?e - 1)"
    using oo m(1) e by (simp add: mb_contents_def) (simp add: mb_get_def Let_def)
  then show "mb_contents (snd (mb_get mb)) = xs" using c assms(2) by (simp add: circ_mod)
  have "(Suc ?o mod ?n + (?e - 1)) mod ?n = (?o + ?e) mod ?n"
    using pos by (simp only: mod_add_left_eq) simp
  then show "mb_ok (snd (mb_get mb))"
    using assms(1) oo e m unfolding mb_ok_def by (simp add: word_less_nat_alt word_le_nat_alt) (simp add: mb_get_def Let_def)
  show "mb_capacity (snd (mb_get mb)) = mb_capacity mb" by (simp add: mb_get_def Let_def)
qed

interpretation mail: bounded_fifo mb_ok "\<lambda>_ _. True" mb_contents mb_capacity mb_put mb_get
proof unfold_locales
  fix s x and xs :: "u32 list"
  show "mb_ok s \<Longrightarrow> length (mb_contents s) < mb_capacity s \<Longrightarrow>
      mb_ok (mb_put x s) \<and> mb_contents (mb_put x s) = mb_contents s @ [x] \<and> mb_capacity (mb_put x s) = mb_capacity s \<and>
      (\<lambda>_. True) = (\<lambda>_. True)"
    using mb_put_ok[of s x] by (simp add: mb_contents_def)
  show "mb_ok s \<Longrightarrow> mb_contents s = x # xs \<Longrightarrow>
      mb_ok (snd (mb_get s)) \<and> fst (mb_get s) = x \<and> mb_contents (snd (mb_get s)) = xs \<and>
      mb_capacity (snd (mb_get s)) = mb_capacity s"
    using mb_get_ok[of s x xs] by simp
  show "mb_ok s \<Longrightarrow> length (mb_contents s) \<le> mb_capacity s"
    by (simp add: mb_contents_def mb_ok_def word_le_nat_alt)
qed

section \<open>Sending and receiving\<close>

lemma upd_mb_kernel_ok [simp]: "kernel_ok (upd_mb i f k) = kernel_ok k"
proof -
  have "timers_ok (upd_mb i f k) = timers_ok k" by (rule timers_ok_cong) (simp_all add: upd_mb_def)
  then show ?thesis by (simp add: kernel_ok_def)
qed

text \<open>C13: The mailbox is a bounded FIFO queue: after any mails that fit have been put in, taking
  everything out gives the mails that were there followed by the new ones in order.\<close>

theorem mailbox_fifo:
  assumes "mb_ok mb" and "length (mb_contents mb) + length xs \<le> mb_capacity mb"
  shows "fst (mail.gets (length (mb_contents mb) + length xs) (fold mb_put xs mb)) = mb_contents mb @ xs"
  using mail.first_in_first_out[OF assms(1) _ assms(2)] by simp

theorem mailbox_fifo_witness:
  "fst (mail.gets 3 (fold mb_put [5, 6]
     \<lparr>mb_msg_pool = [9, 0, 0], mb_size = 3, mb_entry = 1, mb_in_offset = 1, mb_out_offset = 0\<rparr>)) = [9, 5, 6]"
proof -
  let ?mb = "\<lparr>mb_msg_pool = [9, 0, 0 :: u32], mb_size = 3, mb_entry = 1, mb_in_offset = 1, mb_out_offset = 0\<rparr>"
  have m: "mb_ok ?mb" "mb_contents ?mb = [9]" by (simp_all add: mb_ok_def mb_contents_def circ_def)
  then have l: "length (mb_contents ?mb) + length [5, 6 :: u32] = 3" "3 \<le> mb_capacity ?mb" by simp_all
  from mailbox_fifo[OF m(1), of "[5, 6]", unfolded l(1), OF l(2)] show ?thesis by (simp only: m(2) append.simps)
qed

text \<open>Sending to a mailbox that is not full succeeds at once: the mail is appended and the
  first waiting receiver, if any, becomes ready.\<close>

theorem mb_send_appends:
  assumes "kernel_ok k" and "mb_ok (mailboxes k i)" and "mb_entry (mailboxes k i) \<noteq> mb_size (mailboxes k i)"
  shows "\<exists>k'. rt_mb_send_wait i x timeout k = Some (Return RT_EOK, k') \<and> kernel_ok k' \<and> mb_ok (mailboxes k' i) \<and>
     mb_contents (mailboxes k' i) = mb_contents (mailboxes k i) @ [x] \<and>
     (\<forall>j. j \<noteq> i \<longrightarrow> mailboxes k' j = mailboxes k j) \<and>
     tlists k' (MbQ i) = tl (tlists k (MbQ i)) \<and> tlists k' (MbSendQ i) = tlists k (MbSendQ i) \<and>
     (\<forall>t ts. tlists k (MbQ i) = t # ts \<longrightarrow> thread_stat k' t = RT_THREAD_READY \<and> th_error (threads k' t) = th_error (threads k t))"
proof -
  let ?mb = "mailboxes k i"
  have lt: "unat (mb_entry ?mb) < unat (mb_size ?mb)"
    using assms(2,3) by (simp add: mb_ok_def word_le_less_eq word_less_nat_alt)
  have io: "unat (mb_in_offset ?mb) < length (mb_msg_pool ?mb)"
    using assms(2) lt by (simp add: mb_ok_def)
  define k1 where "k1 = upd_mb i (mb_put x) k"
  have ok1: "kernel_ok k1" using assms(1) by (simp add: k1_def)
  have e1: "tlists k1 = tlists k" "threads k1 = threads k" "mailboxes k1 = (mailboxes k)(i := mb_put x ?mb)"
    by (simp_all add: k1_def upd_mb_def)
  have wl: "wait_list (Some (MbQ i))" by simp
  from wake_first_ok[OF ok1 wl] obtain k' where
    k': "wake_first (MbQ i) k1 = Some k'" "kernel_ok k'" "mailboxes k' = mailboxes k1" "tlists k' (MbQ i) = tl (tlists k1 (MbQ i))"
      "\<forall>r. wait_list (Some r) \<longrightarrow> r \<noteq> MbQ i \<longrightarrow> tlists k' r = tlists k1 r"
      "\<forall>t ts. tlists k1 (MbQ i) = t # ts \<longrightarrow> thread_stat k' t = RT_THREAD_READY \<and> th_error (threads k' t) = th_error (threads k1 t)"
    by blast
  have "rt_mb_send_wait i x timeout k = Some (Return RT_EOK, k')"
    using assms(3) io k'(1) by (simp add: rt_mb_send_wait_def mb_send_loop_def k1_def)
  then show ?thesis using k'(2,4,5,6) mb_put_ok[OF assms(2) lt, of x]
    by (intro exI[of _ k']) (simp add: k'(3) e1)
qed

theorem mb_send_appends_witness:
  "\<exists>k'. rt_mb_send_wait 0 42 0 ex_kernel = Some (Return RT_EOK, k') \<and> kernel_ok k' \<and> mb_contents (mailboxes k' 0) = [42] \<and>
     tlists k' (MbQ 0) = [] \<and> thread_stat k' 7 = RT_THREAD_READY"
proof -
  have m: "mb_ok (mailboxes ex_kernel 0)" "mb_contents (mailboxes ex_kernel 0) = []"
    "mb_entry (mailboxes ex_kernel 0) \<noteq> mb_size (mailboxes ex_kernel 0)"
    by (simp_all add: mb_ok_def mb_contents_def circ_def ex_kernel_def)
  from mb_send_appends[OF ex_kernel_ok m(1,3), of 42 0] show ?thesis unfolding m(2) ex_sel by auto
qed

text \<open>Receiving from a mailbox that is not empty returns its oldest mail at once and lets the
  first waiting sender run; a full mailbox refuses a send without waiting and an empty one a
  receive, with nothing changed.\<close>

theorem mb_recv_takes_oldest:
  assumes "kernel_ok k" and "mb_ok (mailboxes k i)" and "mb_contents (mailboxes k i) = x # xs"
  shows "\<exists>k'. rt_mb_recv i timeout k = Some (Return (RT_EOK, Some x), k') \<and> kernel_ok k' \<and> mb_ok (mailboxes k' i) \<and>
     mb_contents (mailboxes k' i) = xs \<and> (\<forall>j. j \<noteq> i \<longrightarrow> mailboxes k' j = mailboxes k j) \<and>
     tlists k' (MbSendQ i) = tl (tlists k (MbSendQ i)) \<and> tlists k' (MbQ i) = tlists k (MbQ i) \<and>
     (\<forall>t ts. tlists k (MbSendQ i) = t # ts \<longrightarrow> thread_stat k' t = RT_THREAD_READY \<and> th_error (threads k' t) = th_error (threads k t))"
proof -
  let ?mb = "mailboxes k i"
  have ne: "mb_entry ?mb \<noteq> 0" using assms(3) by (auto simp: mb_contents_def circ_def)
  have oo: "unat (mb_out_offset ?mb) < length (mb_msg_pool ?mb)"
    using assms(2) by (simp add: mb_ok_def word_less_nat_alt)
  define k1 where "k1 = upd_mb i (\<lambda>_. snd (mb_get ?mb)) k"
  have ok1: "kernel_ok k1" using assms(1) by (simp add: k1_def)
  have e1: "tlists k1 = tlists k" "threads k1 = threads k" "mailboxes k1 = (mailboxes k)(i := snd (mb_get ?mb))"
    by (simp_all add: k1_def upd_mb_def)
  have wl: "wait_list (Some (MbSendQ i))" by simp
  from wake_first_ok[OF ok1 wl] obtain k' where
    k': "wake_first (MbSendQ i) k1 = Some k'" "kernel_ok k'" "mailboxes k' = mailboxes k1"
      "tlists k' (MbSendQ i) = tl (tlists k1 (MbSendQ i))"
      "\<forall>r. wait_list (Some r) \<longrightarrow> r \<noteq> MbSendQ i \<longrightarrow> tlists k' r = tlists k1 r"
      "\<forall>t ts. tlists k1 (MbSendQ i) = t # ts \<longrightarrow> thread_stat k' t = RT_THREAD_READY \<and> th_error (threads k' t) = th_error (threads k1 t)"
    by blast
  have "rt_mb_recv i timeout k = Some (Return (RT_EOK, Some x), k')"
    using ne oo k'(1) mb_get_ok(2)[OF assms(2,3)] by (simp add: rt_mb_recv_def mb_recv_loop_def split_beta k1_def)
  then show ?thesis using k'(2,4,5,6) mb_get_ok[OF assms(2,3)]
    by (intro exI[of _ k']) (simp add: k'(3) e1)
qed

theorem mb_recv_takes_oldest_witness:
  "\<exists>k'. rt_mb_recv 1 0 ex_kernel = Some (Return (RT_EOK, Some 8), k') \<and> kernel_ok k' \<and> mb_contents (mailboxes k' 1) = [7]"
proof -
  have m: "mb_ok (mailboxes ex_kernel 1)" "mb_contents (mailboxes ex_kernel 1) = [8, 7]"
    by (simp_all add: mb_ok_def mb_contents_def circ_def ex_kernel_def upt_rec)
  from mb_recv_takes_oldest[OF ex_kernel_ok m, of 0] show ?thesis by blast
qed

end
