(* ===== verification/Messagequeue.thy ===== *)
theory Messagequeue
  imports Mailbox
begin

text \<open>
  Message queues of rt-thread/src/ipc.c.  The pool is an array of slots; a slot is the next
  pointer of struct rt_mq_message and the bytes behind it, and a pointer to a message is the
  number of its slot.  rt_mq_send, rt_mq_urgent and rt_mq_recv enable interrupts while a slot
  is in their hands, so each of them is a sequence of steps on the queue, and the invariant
  speaks of the slots that are queued, free or held by a caller.
\<close>

section \<open>Operations\<close>

abbreviation mq_flag :: "kernel \<Rightarrow> nat \<Rightarrow> u8" where
  "mq_flag k i \<equiv> ob_flag (objs k (ObjMq i))"

subsection \<open>Steps on the queue\<close>

definition mq_take_slot :: "rt_messagequeue \<Rightarrow> (nat \<times> rt_messagequeue) option" where
  "mq_take_slot mq =
     (case mq_queue_free mq of
        None \<Rightarrow> None
      | Some s \<Rightarrow> Some (s, mq\<lparr>mq_queue_free := mq_next mq s\<rparr>))"

definition mq_copy_in :: "nat \<Rightarrow> u8 list \<Rightarrow> rt_messagequeue \<Rightarrow> rt_messagequeue" where
  "mq_copy_in s buffer mq = mq\<lparr>mq_data := (mq_data mq)(s := buffer @ drop (length buffer) (mq_data mq s))\<rparr>"

definition mq_clear_next :: "nat \<Rightarrow> rt_messagequeue \<Rightarrow> rt_messagequeue" where
  "mq_clear_next s mq = mq\<lparr>mq_next := (mq_next mq)(s := None)\<rparr>"

definition mq_link_tail :: "nat \<Rightarrow> rt_messagequeue \<Rightarrow> rt_messagequeue" where
  "mq_link_tail s mq =
     (let mq = (case mq_queue_tail mq of None \<Rightarrow> mq | Some t \<Rightarrow> mq\<lparr>mq_next := (mq_next mq)(t := Some s)\<rparr>);
          mq = mq\<lparr>mq_queue_tail := Some s\<rparr>;
          mq = (if mq_queue_head mq = None then mq\<lparr>mq_queue_head := Some s\<rparr> else mq)
      in mq\<lparr>mq_entry := mq_entry mq + 1\<rparr>)"

definition mq_link_head :: "nat \<Rightarrow> rt_messagequeue \<Rightarrow> rt_messagequeue" where
  "mq_link_head s mq =
     (let mq = mq\<lparr>mq_next := (mq_next mq)(s := mq_queue_head mq)\<rparr>;
          mq = mq\<lparr>mq_queue_head := Some s\<rparr>;
          mq = (if mq_queue_tail mq = None then mq\<lparr>mq_queue_tail := Some s\<rparr> else mq)
      in mq\<lparr>mq_entry := mq_entry mq + 1\<rparr>)"

text \<open>Taking the head of an empty queue follows a null pointer: None.\<close>

definition mq_unlink_head :: "rt_messagequeue \<Rightarrow> (nat \<times> rt_messagequeue) option" where
  "mq_unlink_head mq =
     (case mq_queue_head mq of
        None \<Rightarrow> None
      | Some s \<Rightarrow>
          let mq = mq\<lparr>mq_queue_head := mq_next mq s\<rparr>;
              mq = (if mq_queue_tail mq = Some s then mq\<lparr>mq_queue_tail := None\<rparr> else mq)
          in Some (s, mq\<lparr>mq_entry := mq_entry mq - 1\<rparr>))"

definition mq_free_slot :: "nat \<Rightarrow> rt_messagequeue \<Rightarrow> rt_messagequeue" where
  "mq_free_slot s mq = mq\<lparr>mq_next := (mq_next mq)(s := mq_queue_free mq), mq_queue_free := Some s\<rparr>"

subsection \<open>The interface\<close>

text \<open>The loop that chains all slots into the free list.\<close>

fun mq_free_all :: "nat \<Rightarrow> rt_messagequeue \<Rightarrow> rt_messagequeue" where
  "mq_free_all 0 mq = mq"
| "mq_free_all (Suc n) mq = mq_free_slot n (mq_free_all n mq)"

definition mq_blank :: "u16 \<Rightarrow> u16 \<Rightarrow> (nat \<Rightarrow> u8 list) \<Rightarrow> rt_messagequeue" where
  "mq_blank msg_size max_msgs pool =
     mq_free_all (unat max_msgs)
       \<lparr>mq_msg_size = msg_size, mq_max_msgs = max_msgs, mq_entry = 0, mq_next = (\<lambda>_. None), mq_data = pool,
        mq_queue_head = None, mq_queue_tail = None, mq_queue_free = None\<rparr>"

definition rt_mq_init :: "nat \<Rightarrow> u8 list \<Rightarrow> (nat \<Rightarrow> u8 list) \<Rightarrow> u32 \<Rightarrow> u32 \<Rightarrow> u8 \<Rightarrow> kernel \<Rightarrow> kernel option" where
  "rt_mq_init i name msgpool msg_size pool_size flag k =
     do { k \<leftarrow> rt_object_init (ObjMq i) name k;
          let k = upd_obj (ObjMq i) (\<lambda>x. x\<lparr>ob_flag := flag\<rparr>) k;
          k \<leftarrow> rt_ipc_object_init (MqQ i) k;
          let sz = (ucast (RT_ALIGN msg_size RT_ALIGN_SIZE) :: u16);
          let max_msgs = (ucast (pool_size div (ucast sz + 4)) :: u16);
          Some (upd_mq i (\<lambda>_. mq_blank sz max_msgs msgpool) k) }"

definition rt_mq_detach :: "nat \<Rightarrow> kernel \<Rightarrow> kernel option" where
  "rt_mq_detach i k =
     do { k \<leftarrow> rt_ipc_list_resume_all (MqQ i) k;
          Some (rt_object_detach (ObjMq i) k) }"

definition rt_mq_delete :: "nat \<Rightarrow> kernel \<Rightarrow> kernel option" where
  "rt_mq_delete i k =
     (if \<not> RT_DEBUG_NOT_IN_INTERRUPT k then None
      else do { k \<leftarrow> rt_ipc_list_resume_all (MqQ i) k;
                rt_object_delete (ObjMq i) k })"

definition rt_mq_create ::
  "nat option \<Rightarrow> (nat \<Rightarrow> u8 list) option \<Rightarrow> u8 list \<Rightarrow> u32 \<Rightarrow> u32 \<Rightarrow> u8 \<Rightarrow> kernel \<Rightarrow> (nat option \<times> kernel) option" where
  "rt_mq_create mem pool name msg_size max_msgs flag k =
     (if \<not> RT_DEBUG_NOT_IN_INTERRUPT k then None
      else do { (_, k) \<leftarrow> rt_object_allocate (map_option ObjMq mem) RT_Object_Class_MessageQueue name k;
                case mem of
                  None \<Rightarrow> Some (None, k)
                | Some i \<Rightarrow>
                    do { let k = upd_obj (ObjMq i) (\<lambda>x. x\<lparr>ob_flag := flag\<rparr>) k;
                         k \<leftarrow> rt_ipc_object_init (MqQ i) k;
                         let sz = (ucast (RT_ALIGN msg_size RT_ALIGN_SIZE) :: u16);
                         case pool of
                           None \<Rightarrow> do { k \<leftarrow> rt_mq_delete i (upd_mq i (\<lambda>m. m\<lparr>mq_msg_size := sz, mq_max_msgs := ucast max_msgs\<rparr>) k);
                                        Some (None, k) }
                         | Some msgpool \<Rightarrow> Some (Some i, upd_mq i (\<lambda>_. mq_blank sz (ucast max_msgs) msgpool) k) } })"

text \<open>The buffer has at least size bytes; the first size of them are copied.\<close>

definition rt_mq_send :: "nat \<Rightarrow> u8 list \<Rightarrow> u32 \<Rightarrow> kernel \<Rightarrow> (rt_err \<times> kernel) option" where
  "rt_mq_send i buffer sz k =
     (if sz = 0 then None
      else if sz > ucast (mq_msg_size (mqueues k i)) then Some (RT_ERROR, k)
      else case mq_take_slot (mqueues k i) of
             None \<Rightarrow> Some (RT_EFULL, k)
           | Some (s, mq) \<Rightarrow>
               do { let mq = mq_clear_next s mq;
                    let mq = mq_copy_in s (take (unat sz) buffer) mq;
                    let mq = mq_link_tail s mq;
                    k \<leftarrow> wake_first (MqQ i) (upd_mq i (\<lambda>_. mq) k);
                    Some (RT_EOK, k) })"

definition rt_mq_urgent :: "nat \<Rightarrow> u8 list \<Rightarrow> u32 \<Rightarrow> kernel \<Rightarrow> (rt_err \<times> kernel) option" where
  "rt_mq_urgent i buffer sz k =
     (if sz = 0 then None
      else if sz > ucast (mq_msg_size (mqueues k i)) then Some (RT_ERROR, k)
      else case mq_take_slot (mqueues k i) of
             None \<Rightarrow> Some (RT_EFULL, k)
           | Some (s, mq) \<Rightarrow>
               do { let mq = mq_copy_in s (take (unat sz) buffer) mq;
                    let mq = mq_link_head s mq;
                    k \<leftarrow> wake_first (MqQ i) (upd_mq i (\<lambda>_. mq) k);
                    Some (RT_EOK, k) })"

text \<open>The result carries the bytes that are copied to the buffer.\<close>

definition mq_recv_loop ::
  "nat \<Rightarrow> u32 \<Rightarrow> u32 \<Rightarrow> tid option \<Rightarrow> kernel \<Rightarrow> ((rt_err \<times> u8 list) outcome \<times> kernel) option" where
  "mq_recv_loop i sz timeout thread k =
     (if mq_entry (mqueues k i) = 0
      then if \<not> RT_DEBUG_IN_THREAD_CONTEXT k then None
           else do { t \<leftarrow> thread;
                let k = upd_thread t (\<lambda>th. th\<lparr>th_error := RT_EOK\<rparr>) k;
                if timeout = 0
                then Some (Return (RT_ETIMEOUT, []), upd_thread t (\<lambda>th. th\<lparr>th_error := RT_ETIMEOUT\<rparr>) k)
                else do { k \<leftarrow> ipc_block (MqQ i) t (mq_flag k i) timeout k;
                          Some (Blocked, k) } }
      else do { (s, mq) \<leftarrow> mq_unlink_head (mqueues k i);
                let n = (if sz > ucast (mq_msg_size mq) then unat (mq_msg_size mq) else unat sz);
                let bytes = take n (mq_data mq s);
                let mq = mq_free_slot s mq;
                Some (Return (RT_EOK, bytes), upd_mq i (\<lambda>_. mq) k) })"

definition rt_mq_recv :: "nat \<Rightarrow> u32 \<Rightarrow> u32 \<Rightarrow> kernel \<Rightarrow> ((rt_err \<times> u8 list) outcome \<times> kernel) option" where
  "rt_mq_recv i sz timeout k =
     (if sz = 0 then None
      else if mq_entry (mqueues k i) = 0 \<and> timeout = 0 then Some (Return (RT_ETIMEOUT, []), k)
      else mq_recv_loop i sz timeout (rt_thread_self k) k)"

definition rt_mq_recv_resumed ::
  "nat \<Rightarrow> u32 \<Rightarrow> u32 \<Rightarrow> u32 \<Rightarrow> tid \<Rightarrow> kernel \<Rightarrow> ((rt_err \<times> u8 list) outcome \<times> kernel) option" where
  "rt_mq_recv_resumed i sz timeout start t k =
     (if th_error (threads k t) \<noteq> RT_EOK then Some (Return (th_error (threads k t), []), k)
      else mq_recv_loop i sz (time_left timeout start (rt_tick_get k)) (Some t) k)"

text \<open>The release loop of rt_mq_control; the entry counter is reset after it, so it does not
  count down here.\<close>

partial_function (option) mq_release_all :: "rt_messagequeue \<Rightarrow> rt_messagequeue option" where
  "mq_release_all mq =
     (case mq_queue_head mq of
        None \<Rightarrow> Some mq
      | Some s \<Rightarrow>
          let mq = mq\<lparr>mq_queue_head := mq_next mq s\<rparr>;
              mq = (if mq_queue_tail mq = Some s then mq\<lparr>mq_queue_tail := None\<rparr> else mq)
          in mq_release_all (mq_free_slot s mq))"

definition rt_mq_control :: "nat \<Rightarrow> ipc_cmd \<Rightarrow> kernel \<Rightarrow> (rt_err \<times> kernel) option" where
  "rt_mq_control i cmd k =
     (case cmd of
        RT_IPC_CMD_RESET _ \<Rightarrow>
          do { k \<leftarrow> rt_ipc_list_resume_all (MqQ i) k;
               mq \<leftarrow> mq_release_all (mqueues k i);
               let k = upd_mq i (\<lambda>_. mq\<lparr>mq_entry := 0\<rparr>) k;
               k \<leftarrow> rt_schedule k;
               Some (RT_EOK, k) }
      | RT_IPC_CMD_OTHER \<Rightarrow> Some (RT_ERROR, k))"

section \<open>The queue and free chains\<close>

fun chain :: "(nat \<Rightarrow> nat option) \<Rightarrow> nat option \<Rightarrow> nat list \<Rightarrow> bool" where
  "chain next p [] \<longleftrightarrow> p = None"
| "chain next p (s # ss) \<longleftrightarrow> p = Some s \<and> chain next (next s) ss"

lemma chain_upd [simp]: "s \<notin> set ss \<Longrightarrow> chain (next(s := v)) p ss = chain next p ss"
  by (induction ss arbitrary: p) auto

lemma chain_snoc:
  assumes "chain next p (ss @ [t])" and "distinct (ss @ [t])" and "s \<notin> set (ss @ [t])" and "next s = None"
  shows "chain (next(t := Some s)) p (ss @ [t, s])"
  using assms by (induction ss arbitrary: p) auto

text \<open>qs are the queued slots in order, fs the free ones, hs those that callers hold.\<close>

definition mq_rep :: "nat list \<Rightarrow> nat list \<Rightarrow> nat set \<Rightarrow> rt_messagequeue \<Rightarrow> bool" where
  "mq_rep qs fs hs mq \<longleftrightarrow>
     chain (mq_next mq) (mq_queue_head mq) qs \<and> chain (mq_next mq) (mq_queue_free mq) fs \<and>
     distinct (qs @ fs) \<and> hs \<inter> set (qs @ fs) = {} \<and> set (qs @ fs) \<union> hs = {..<unat (mq_max_msgs mq)} \<and>
     mq_queue_tail mq = (if qs = [] then None else Some (last qs)) \<and>
     unat (mq_entry mq) = length qs \<and>
     (\<forall>s < unat (mq_max_msgs mq). length (mq_data mq s) = unat (mq_msg_size mq))"

lemma mq_rep_count:
  assumes "mq_rep qs fs hs mq"
  shows "length qs + length fs + card hs = unat (mq_max_msgs mq)"
proof -
  have d: "distinct (qs @ fs)" "hs \<inter> set (qs @ fs) = {}" "set (qs @ fs) \<union> hs = {..<unat (mq_max_msgs mq)}"
    using assms by (simp_all add: mq_rep_def)
  have "finite hs" using d(3) by (metis finite_Un finite_lessThan)
  then have "card (set (qs @ fs) \<union> hs) = length (qs @ fs) + card hs"
    using d(1,2) by (subst card_Un_disjoint) (auto simp only: distinct_card finite_set Int_commute)
  then show ?thesis using d(3) by simp
qed

lemma mq_take_slot_rep:
  assumes "mq_rep qs (s # fs) hs mq"
  shows "\<exists>mq'. mq_take_slot mq = Some (s, mq') \<and> mq_rep qs fs (insert s hs) mq' \<and> mq_data mq' = mq_data mq \<and>
    mq_msg_size mq' = mq_msg_size mq \<and> mq_max_msgs mq' = mq_max_msgs mq"
  using assms by (auto simp: mq_rep_def mq_take_slot_def)

lemma mq_copy_in_rep:
  assumes "mq_rep qs fs hs mq" and "s \<in> hs" and "length b \<le> unat (mq_msg_size mq)"
  shows "mq_rep qs fs hs (mq_copy_in s b mq)"
  using assms by (auto simp: mq_rep_def mq_copy_in_def)

lemma mq_clear_next_rep:
  assumes "mq_rep qs fs hs mq" and "s \<in> hs"
  shows "mq_rep qs fs hs (mq_clear_next s mq)"
proof -
  have "s \<notin> set qs" "s \<notin> set fs" using assms by (auto simp: mq_rep_def)
  with assms(1) show ?thesis by (simp add: mq_rep_def mq_clear_next_def)
qed

lemma mq_entry_lt:
  assumes "mq_rep qs fs hs mq" and "s \<in> hs"
  shows "unat (mq_entry mq + 1) = Suc (length qs)"
proof -
  have "set (qs @ fs) \<union> hs = {..<unat (mq_max_msgs mq)}" using assms(1) by (simp add: mq_rep_def)
  then have "finite hs" by (metis finite_Un finite_lessThan)
  then have "card hs \<noteq> 0" using assms(2) by (auto simp: card_eq_0_iff)
  then have "length qs < unat (mq_max_msgs mq)" using mq_rep_count[OF assms(1)] by simp
  moreover have "unat (mq_max_msgs mq) < 65536" using unsigned_less[of "mq_max_msgs mq", where ?'a = nat] by simp
  moreover have "unat (mq_entry mq) = length qs" using assms(1) by (simp add: mq_rep_def)
  ultimately show ?thesis by (simp add: unat_word_ariths)
qed

lemma mq_link_tail_rep:
  assumes r: "mq_rep qs fs hs mq" and s: "s \<in> hs" "mq_next mq s = None"
  shows "mq_rep (qs @ [s]) fs (hs - {s}) (mq_link_tail s mq)"
proof -
  have nm: "s \<notin> set qs" "s \<notin> set fs" using r s by (auto simp: mq_rep_def)
  note e = mq_entry_lt[OF r s(1)]
  show ?thesis
  proof (cases qs rule: rev_cases)
    case Nil
    with r s nm e show ?thesis by (auto simp: mq_rep_def mq_link_tail_def)
  next
    case (snoc ss t)
    then have tfs: "t \<notin> set fs" using r by (auto simp: mq_rep_def)
    have hd: "mq_queue_head mq \<noteq> None" using r snoc by (cases ss) (auto simp: mq_rep_def)
    have "chain ((mq_next mq)(t := Some s)) (mq_queue_head mq) (ss @ [t, s])"
      using r snoc nm s(2) by (intro chain_snoc) (auto simp: mq_rep_def)
    with r s nm e tfs hd snoc show ?thesis by (auto simp: mq_rep_def mq_link_tail_def)
  qed
qed

lemma mq_link_head_rep:
  assumes r: "mq_rep qs fs hs mq" and s: "s \<in> hs"
  shows "mq_rep (s # qs) fs (hs - {s}) (mq_link_head s mq)"
proof -
  have nm: "s \<notin> set qs" "s \<notin> set fs" using r s by (auto simp: mq_rep_def)
  note e = mq_entry_lt[OF r s]
  show ?thesis using r s nm e by (cases qs) (auto simp: mq_rep_def mq_link_head_def)
qed

lemma mq_unlink_head_rep:
  assumes r: "mq_rep (s # qs) fs hs mq"
  shows "\<exists>mq'. mq_unlink_head mq = Some (s, mq') \<and> mq_rep qs fs (insert s hs) mq' \<and> mq_data mq' = mq_data mq \<and>
    mq_msg_size mq' = mq_msg_size mq \<and> mq_max_msgs mq' = mq_max_msgs mq"
proof -
  have u: "unat (mq_entry mq) = Suc (length qs)" using r by (simp add: mq_rep_def)
  then have "unat (mq_entry mq - 1) = length qs" by (simp add: unat_sub word_le_nat_alt)
  moreover have "last qs \<noteq> s" if "qs \<noteq> []" using r that last_in_set[OF that] by (auto simp: mq_rep_def)
  ultimately show ?thesis using r by (auto simp: mq_rep_def mq_unlink_head_def Let_def)
qed

lemma mq_free_slot_rep:
  assumes r: "mq_rep qs fs hs mq" and s: "s \<in> hs"
  shows "mq_rep qs (s # fs) (hs - {s}) (mq_free_slot s mq)"
proof -
  have nm: "s \<notin> set qs" "s \<notin> set fs" using r s by (auto simp: mq_rep_def)
  show ?thesis using r s nm by (auto simp: mq_rep_def mq_free_slot_def)
qed

section \<open>The message queue as a queue\<close>

text \<open>The slots that can be reached from the head, at most as many as there are.\<close>

fun walk :: "nat \<Rightarrow> (nat \<Rightarrow> nat option) \<Rightarrow> nat option \<Rightarrow> nat list" where
  "walk 0 next p = []"
| "walk (Suc n) next None = []"
| "walk (Suc n) next (Some s) = s # walk n next (next s)"

lemma walk_chain: "chain nx p ss \<Longrightarrow> length ss \<le> n \<Longrightarrow> walk n nx p = ss"
  by (induction n nx p arbitrary: ss rule: walk.induct) (case_tac ss; simp)+

definition mq_slots :: "rt_messagequeue \<Rightarrow> nat list" where
  "mq_slots mq = walk (unat (mq_max_msgs mq)) (mq_next mq) (mq_queue_head mq)"

definition mq_contents :: "rt_messagequeue \<Rightarrow> u8 list list" where
  "mq_contents mq = map (mq_data mq) (mq_slots mq)"

definition mq_ok :: "rt_messagequeue \<Rightarrow> bool" where
  "mq_ok mq \<longleftrightarrow> (\<exists>qs fs. mq_rep qs fs {} mq)"

abbreviation mq_capacity :: "rt_messagequeue \<Rightarrow> nat" where
  "mq_capacity mq \<equiv> unat (mq_max_msgs mq)"

definition mq_put :: "u8 list \<Rightarrow> rt_messagequeue \<Rightarrow> rt_messagequeue" where
  "mq_put buffer mq =
     (case mq_take_slot mq of
        None \<Rightarrow> mq
      | Some (s, mq) \<Rightarrow> mq_link_tail s (mq_copy_in s buffer (mq_clear_next s mq)))"

definition mq_push :: "u8 list \<Rightarrow> rt_messagequeue \<Rightarrow> rt_messagequeue" where
  "mq_push buffer mq =
     (case mq_take_slot mq of None \<Rightarrow> mq | Some (s, mq) \<Rightarrow> mq_link_head s (mq_copy_in s buffer mq))"

definition mq_get :: "rt_messagequeue \<Rightarrow> u8 list \<times> rt_messagequeue" where
  "mq_get mq =
     (case mq_unlink_head mq of None \<Rightarrow> ([], mq) | Some (s, mq) \<Rightarrow> (mq_data mq s, mq_free_slot s mq))"

lemma mq_slots_rep: "mq_rep qs fs hs mq \<Longrightarrow> mq_slots mq = qs"
  using mq_rep_count[of qs fs hs mq] by (auto simp: mq_slots_def mq_rep_def intro: walk_chain)

lemma mq_step_sel [simp]:
  "mq_data (mq_link_tail s mq) = mq_data mq" "mq_data (mq_link_head s mq) = mq_data mq"
  "mq_data (mq_free_slot s mq) = mq_data mq" "mq_data (mq_clear_next s mq) = mq_data mq"
  "mq_msg_size (mq_link_tail s mq) = mq_msg_size mq" "mq_msg_size (mq_link_head s mq) = mq_msg_size mq"
  "mq_msg_size (mq_free_slot s mq) = mq_msg_size mq" "mq_msg_size (mq_clear_next s mq) = mq_msg_size mq"
  "mq_msg_size (mq_copy_in s b mq) = mq_msg_size mq"
  "mq_max_msgs (mq_link_tail s mq) = mq_max_msgs mq" "mq_max_msgs (mq_link_head s mq) = mq_max_msgs mq"
  "mq_max_msgs (mq_free_slot s mq) = mq_max_msgs mq" "mq_max_msgs (mq_clear_next s mq) = mq_max_msgs mq"
  "mq_max_msgs (mq_copy_in s b mq) = mq_max_msgs mq"
  "mq_next (mq_copy_in s b mq) = mq_next mq" "mq_next (mq_clear_next s mq) s = None"
  by (simp_all add: mq_link_tail_def mq_link_head_def mq_free_slot_def mq_clear_next_def mq_copy_in_def Let_def
      split: option.split)

text \<open>Putting a message into a free slot, at the tail or at the head.\<close>

lemma mq_put_rep:
  assumes r: "mq_rep qs (s # fs) hs mq" and b: "length b \<le> unat (mq_msg_size mq)"
  shows "mq_rep (qs @ [s]) fs hs (mq_put b mq)" and "mq_rep (s # qs) fs hs (mq_push b mq)"
    and "mq_data (mq_put b mq) = (mq_data mq)(s := b @ drop (length b) (mq_data mq s))"
    and "mq_data (mq_push b mq) = (mq_data mq)(s := b @ drop (length b) (mq_data mq s))"
    and "mq_msg_size (mq_put b mq) = mq_msg_size mq" "mq_max_msgs (mq_put b mq) = mq_max_msgs mq"
    and "mq_msg_size (mq_push b mq) = mq_msg_size mq" "mq_max_msgs (mq_push b mq) = mq_max_msgs mq"
proof -
  from mq_take_slot_rep[OF r] obtain mq' where m: "mq_take_slot mq = Some (s, mq')" "mq_rep qs fs (insert s hs) mq'"
    "mq_data mq' = mq_data mq" "mq_msg_size mq' = mq_msg_size mq" "mq_max_msgs mq' = mq_max_msgs mq" by blast
  have hs: "insert s hs - {s} = hs" using r by (auto simp: mq_rep_def)
  have "mq_rep (qs @ [s]) fs (insert s hs - {s}) (mq_link_tail s (mq_copy_in s b (mq_clear_next s mq')))"
    using m b by (intro mq_link_tail_rep mq_copy_in_rep mq_clear_next_rep) simp_all
  then show "mq_rep (qs @ [s]) fs hs (mq_put b mq)" by (simp add: mq_put_def m(1) hs)
  have "mq_rep (s # qs) fs (insert s hs - {s}) (mq_link_head s (mq_copy_in s b mq'))"
    using m b by (intro mq_link_head_rep mq_copy_in_rep) simp_all
  then show "mq_rep (s # qs) fs hs (mq_push b mq)" by (simp add: mq_push_def m(1) hs)
  show "mq_data (mq_put b mq) = (mq_data mq)(s := b @ drop (length b) (mq_data mq s))"
    "mq_data (mq_push b mq) = (mq_data mq)(s := b @ drop (length b) (mq_data mq s))"
    "mq_msg_size (mq_put b mq) = mq_msg_size mq" "mq_max_msgs (mq_put b mq) = mq_max_msgs mq"
    "mq_msg_size (mq_push b mq) = mq_msg_size mq" "mq_max_msgs (mq_push b mq) = mq_max_msgs mq"
    by (simp_all add: mq_put_def mq_push_def m) (simp_all add: mq_copy_in_def m)
qed

lemma mq_get_rep:
  assumes r: "mq_rep (s # qs) fs hs mq"
  shows "mq_rep qs (s # fs) hs (snd (mq_get mq))" and "fst (mq_get mq) = mq_data mq s"
    and "mq_data (snd (mq_get mq)) = mq_data mq" and "mq_msg_size (snd (mq_get mq)) = mq_msg_size mq"
    and "mq_max_msgs (snd (mq_get mq)) = mq_max_msgs mq"
proof -
  from mq_unlink_head_rep[OF r] obtain mq' where m: "mq_unlink_head mq = Some (s, mq')" "mq_rep qs fs (insert s hs) mq'"
    "mq_data mq' = mq_data mq" "mq_msg_size mq' = mq_msg_size mq" "mq_max_msgs mq' = mq_max_msgs mq" by blast
  have hs: "insert s hs - {s} = hs" using r by (auto simp: mq_rep_def)
  from mq_free_slot_rep[OF m(2), of s] show "mq_rep qs (s # fs) hs (snd (mq_get mq))"
    by (simp add: mq_get_def m(1) hs)
  show "fst (mq_get mq) = mq_data mq s" "mq_data (snd (mq_get mq)) = mq_data mq"
    "mq_msg_size (snd (mq_get mq)) = mq_msg_size mq" "mq_max_msgs (snd (mq_get mq)) = mq_max_msgs mq"
    by (simp_all add: mq_get_def m)
qed

lemma mq_rep_data_length: "mq_rep qs fs hs mq \<Longrightarrow> s \<in> set qs \<union> set fs \<Longrightarrow> length (mq_data mq s) = unat (mq_msg_size mq)"
  by (auto simp: mq_rep_def)

interpretation msgq: bounded_fifo mq_ok "\<lambda>mq x. length x = unat (mq_msg_size mq)" mq_contents mq_capacity mq_put mq_get
proof unfold_locales
  fix s x and xs :: "u8 list list"
  assume "mq_ok s"
  then obtain qs fs where r: "mq_rep qs fs {} s" by (auto simp: mq_ok_def)
  have sl: "mq_slots s = qs" using r by (rule mq_slots_rep)
  note c = mq_rep_count[OF r]
  show "length (mq_contents s) \<le> mq_capacity s" using c sl by (simp add: mq_contents_def)
  show "mq_ok (mq_put x s) \<and> mq_contents (mq_put x s) = mq_contents s @ [x] \<and> mq_capacity (mq_put x s) = mq_capacity s \<and>
      (\<lambda>y. length y = unat (mq_msg_size (mq_put x s))) = (\<lambda>y. length y = unat (mq_msg_size s))"
    if x: "length x = unat (mq_msg_size s)" and room: "length (mq_contents s) < mq_capacity s"
  proof -
    from room c sl obtain f fs' where fs: "fs = f # fs'" by (cases fs) (auto simp: mq_contents_def)
    have r': "mq_rep qs (f # fs') {} s" using r fs by simp
    have "f \<notin> set qs" using r' by (auto simp: mq_rep_def)
    moreover have "length (mq_data s f) = unat (mq_msg_size s)" using r' by (rule mq_rep_data_length) simp
    ultimately show ?thesis
      using mq_put_rep[OF r', of x] x mq_slots_rep[OF mq_put_rep(1)[OF r', of x]] sl
      by (auto simp: mq_ok_def mq_contents_def)
  qed
  show "mq_ok (snd (mq_get s)) \<and> fst (mq_get s) = x \<and> mq_contents (snd (mq_get s)) = xs \<and>
      mq_capacity (snd (mq_get s)) = mq_capacity s" if "mq_contents s = x # xs"
  proof -
    from that sl obtain f qs' where qs: "qs = f # qs'" and x: "x = mq_data s f" "xs = map (mq_data s) qs'"
      by (cases qs) (auto simp: mq_contents_def)
    have r': "mq_rep (f # qs') fs {} s" using r qs by simp
    show ?thesis using mq_get_rep[OF r'] mq_slots_rep[OF mq_get_rep(1)[OF r']] x
      by (auto simp: mq_ok_def mq_contents_def)
  qed
qed

section \<open>Properties\<close>

lemma upd_mq_kernel_ok [simp]: "kernel_ok (upd_mq i f k) = kernel_ok k"
proof -
  have "timers_ok (upd_mq i f k) = timers_ok k" by (rule timers_ok_cong) (simp_all add: upd_mq_def)
  then show ?thesis by (simp add: kernel_ok_def)
qed

lemma lessThan_2: "{..<2 :: nat} = {0, 1}"
  by auto

text \<open>C9: The message queue is a bounded FIFO queue: messages of the queue's size that fit come out
  in the order in which they were put in, behind those that were there.\<close>

theorem message_queue_fifo:
  assumes "mq_ok mq" and "\<forall>x \<in> set xs. length x = unat (mq_msg_size mq)"
    and "length (mq_contents mq) + length xs \<le> mq_capacity mq"
  shows "fst (msgq.gets (length (mq_contents mq) + length xs) (fold mq_put xs mq)) = mq_contents mq @ xs"
  using assms by (rule msgq.first_in_first_out)

theorem message_queue_fifo_witness:
  "fst (msgq.gets (length (mq_contents (mq_blank 1 2 (\<lambda>_. [0]))) + length [[5], [6 :: u8]])
     (fold mq_put [[5], [6]] (mq_blank 1 2 (\<lambda>_. [0])))) = mq_contents (mq_blank 1 2 (\<lambda>_. [0])) @ [[5], [6]]"
proof -
  let ?mq = "mq_blank 1 2 (\<lambda>_. [0])"
  have b: "mq_free_all 2 m = mq_free_slot 1 (mq_free_slot 0 m)" for m by (simp add: numeral_2_eq_2)
  have r: "mq_rep [] [1, 0] {} ?mq"
    by (auto simp: mq_rep_def mq_blank_def b mq_free_slot_def lessThan_2)
  have "mq_ok ?mq" using r by (auto simp: mq_ok_def)
  moreover have "mq_contents ?mq = []" using mq_slots_rep[OF r] by (simp add: mq_contents_def)
  ultimately show ?thesis
    by (intro message_queue_fifo) (simp_all add: mq_blank_def b mq_free_slot_def)
qed

lemma unat_ucast_u16: "unat (ucast (w :: u16) :: u32) = unat w"
  using unsigned_less[of w, where ?'a = nat] by (simp add: unsigned_ucast_eq take_bit_nat_eq_self)

text \<open>The send functions in terms of the queue operations.\<close>

lemma mq_send_eq:
  assumes "mq_rep qs (s # fs) hs (mqueues k i)" and "sz \<noteq> 0" and "sz \<le> ucast (mq_msg_size (mqueues k i))"
  shows "rt_mq_send i buffer sz k = do { k \<leftarrow> wake_first (MqQ i) (upd_mq i (\<lambda>_. mq_put (take (unat sz) buffer) (mqueues k i)) k);
      Some (RT_EOK, k) }"
    and "rt_mq_urgent i buffer sz k = do { k \<leftarrow> wake_first (MqQ i) (upd_mq i (\<lambda>_. mq_push (take (unat sz) buffer) (mqueues k i)) k);
      Some (RT_EOK, k) }"
  using mq_take_slot_rep[OF assms(1)] assms(2,3)
  by (auto simp: rt_mq_send_def rt_mq_urgent_def mq_put_def mq_push_def not_less[symmetric])

lemma mq_put_wake:
  assumes "kernel_ok k"
  shows "\<exists>k'. do { k \<leftarrow> wake_first (MqQ i) (upd_mq i (\<lambda>_. mq) k); Some (RT_EOK, k) } = Some (RT_EOK, k') \<and> kernel_ok k' \<and>
     mqueues k' = (mqueues k)(i := mq) \<and> tlists k' (MqQ i) = tl (tlists k (MqQ i)) \<and>
     (\<forall>t ts. tlists k (MqQ i) = t # ts \<longrightarrow> thread_stat k' t = RT_THREAD_READY \<and> th_error (threads k' t) = th_error (threads k t))"
proof -
  define k1 where "k1 = upd_mq i (\<lambda>_. mq) k"
  have ok1: "kernel_ok k1" using assms by (simp add: k1_def)
  have e1: "tlists k1 = tlists k" "threads k1 = threads k" "mqueues k1 = (mqueues k)(i := mq)"
    by (simp_all add: k1_def upd_mq_def)
  have wl: "wait_list (Some (MqQ i))" by simp
  from wake_first_ok[OF ok1 wl] obtain k' where
    "wake_first (MqQ i) k1 = Some k'" "kernel_ok k'" "mqueues k' = mqueues k1" "tlists k' (MqQ i) = tl (tlists k1 (MqQ i))"
    "\<forall>t ts. tlists k1 (MqQ i) = t # ts \<longrightarrow> thread_stat k' t = RT_THREAD_READY \<and> th_error (threads k' t) = th_error (threads k1 t)"
    by blast
  then show ?thesis by (intro exI[of _ k']) (simp add: k1_def[symmetric] e1)
qed

text \<open>Sending a message that fits takes exactly one free slot and appends it to the queue (at
  the front for an urgent message); the slot holds the sent bytes over its old contents, no
  other slot changes, and the first waiting receiver becomes ready.\<close>

theorem mq_send_places:
  assumes "kernel_ok k" and "mq_rep qs (s # fs) hs (mqueues k i)" and "sz \<noteq> 0"
    and "sz \<le> ucast (mq_msg_size (mqueues k i))" and "unat sz \<le> length buffer"
  shows "\<exists>k1 k2. rt_mq_send i buffer sz k = Some (RT_EOK, k1) \<and> rt_mq_urgent i buffer sz k = Some (RT_EOK, k2) \<and>
     kernel_ok k1 \<and> kernel_ok k2 \<and> mq_rep (qs @ [s]) fs hs (mqueues k1 i) \<and> mq_rep (s # qs) fs hs (mqueues k2 i) \<and>
     mq_data (mqueues k1 i) = (mq_data (mqueues k i))(s := take (unat sz) buffer @ drop (unat sz) (mq_data (mqueues k i) s)) \<and>
     mq_data (mqueues k2 i) = mq_data (mqueues k1 i) \<and>
     (\<forall>t ts. tlists k (MqQ i) = t # ts \<longrightarrow> thread_stat k1 t = RT_THREAD_READY \<and> thread_stat k2 t = RT_THREAD_READY)"
proof -
  let ?b = "take (unat sz) buffer" and ?mq = "mqueues k i"
  have l: "length ?b = unat sz" using assms(5) by simp
  have "unat (ucast (mq_msg_size ?mq) :: u32) = unat (mq_msg_size ?mq)"
    by (rule unat_ucast_u16)
  then have le: "length ?b \<le> unat (mq_msg_size ?mq)" using assms(4) l by (simp add: word_le_nat_alt)
  note p = mq_put_rep[OF assms(2) le]
  from mq_put_wake[OF assms(1), of i "mq_put ?b ?mq"] mq_send_eq(1)[OF assms(2-4), of buffer] obtain k1 where
    k1: "rt_mq_send i buffer sz k = Some (RT_EOK, k1)" "kernel_ok k1" "mqueues k1 = (mqueues k)(i := mq_put ?b ?mq)"
     "\<forall>t ts. tlists k (MqQ i) = t # ts \<longrightarrow> thread_stat k1 t = RT_THREAD_READY \<and> th_error (threads k1 t) = th_error (threads k t)"
    by metis
  from mq_put_wake[OF assms(1), of i "mq_push ?b ?mq"] mq_send_eq(2)[OF assms(2-4), of buffer] obtain k2 where
    k2: "rt_mq_urgent i buffer sz k = Some (RT_EOK, k2)" "kernel_ok k2" "mqueues k2 = (mqueues k)(i := mq_push ?b ?mq)"
     "\<forall>t ts. tlists k (MqQ i) = t # ts \<longrightarrow> thread_stat k2 t = RT_THREAD_READY \<and> th_error (threads k2 t) = th_error (threads k t)"
    by metis
  have "mqueues k1 i = mq_put ?b ?mq" "mqueues k2 i = mq_push ?b ?mq" by (simp_all add: k1(3) k2(3))
  with k1(1,2,4) k2(1,2,4) p l show ?thesis by (intro exI[of _ k1] exI[of _ k2]) simp
qed

lemma ex_mq_rep: "mq_rep [] [0, 1] {} (mqueues ex_kernel 0)"
  by (auto simp: mq_rep_def ex_kernel_def lessThan_2)

theorem mq_send_places_witness:
  "\<exists>k1 k2. rt_mq_send 0 [9, 8] 2 ex_kernel = Some (RT_EOK, k1) \<and> rt_mq_urgent 0 [9, 8] 2 ex_kernel = Some (RT_EOK, k2) \<and>
     kernel_ok k1 \<and> mq_rep [0] [1] {} (mqueues k1 0) \<and> mq_data (mqueues k1 0) 0 = [9, 8, 0, 0]"
proof -
  have sz: "(2 :: u32) \<le> ucast (mq_msg_size (mqueues ex_kernel 0))" "mq_data (mqueues ex_kernel 0) 0 = [0, 0, 0, 0]"
    by (simp_all add: ex_kernel_def)
  from mq_send_places[OF ex_kernel_ok ex_mq_rep _ sz(1), of "[9, 8]"] obtain k1 k2 where
    "rt_mq_send 0 [9, 8] 2 ex_kernel = Some (RT_EOK, k1)" "rt_mq_urgent 0 [9, 8] 2 ex_kernel = Some (RT_EOK, k2)"
    "kernel_ok k1" "mq_rep ([] @ [0]) [1] {} (mqueues k1 0)"
    "mq_data (mqueues k1 0) = (mq_data (mqueues ex_kernel 0))(0 := take (unat (2 :: u32)) [9, 8] @ drop (unat (2 :: u32)) (mq_data (mqueues ex_kernel 0) 0))"
    by auto
  then show ?thesis by (intro exI[of _ k1] exI[of _ k2]) (simp add: sz(2))
qed

text \<open>Receiving takes the message at the head, returns as many of its bytes as fit the buffer
  and gives its slot back to the free list; sending to a queue without a free slot fails and
  changes nothing.\<close>

theorem mq_recv_returns_slot:
  assumes "mq_rep (s # qs) fs hs (mqueues k i)" and "sz \<noteq> 0"
  shows "\<exists>k'. rt_mq_recv i sz timeout k = Some (Return (RT_EOK, take (unat sz) (mq_data (mqueues k i) s)), k') \<and>
     mq_rep qs (s # fs) hs (mqueues k' i) \<and> mq_data (mqueues k' i) = mq_data (mqueues k i) \<and>
     k' = k\<lparr>mqueues := (mqueues k)(i := mqueues k' i)\<rparr>"
proof -
  let ?mq = "mqueues k i"
  note g = mq_get_rep[OF assms(1)]
  from mq_unlink_head_rep[OF assms(1)] obtain mq' where m: "mq_unlink_head ?mq = Some (s, mq')" "mq_data mq' = mq_data ?mq"
    "mq_msg_size mq' = mq_msg_size ?mq" by blast
  have get: "snd (mq_get ?mq) = mq_free_slot s mq'" by (simp add: mq_get_def m(1))
  have ne: "mq_entry ?mq \<noteq> 0" using assms(1) by (auto simp: mq_rep_def)
  have len: "length (mq_data ?mq s) = unat (mq_msg_size ?mq)" using assms(1) by (rule mq_rep_data_length) simp
  have u: "unat (ucast (mq_msg_size ?mq) :: u32) = unat (mq_msg_size ?mq)"
    by (rule unat_ucast_u16)
  have bytes: "take (if sz > ucast (mq_msg_size ?mq) then unat (mq_msg_size ?mq) else unat sz) (mq_data ?mq s) =
      take (unat sz) (mq_data ?mq s)"
    using len u by (simp add: word_less_nat_alt)
  let ?k' = "upd_mq i (\<lambda>_. mq_free_slot s mq') k"
  have "rt_mq_recv i sz timeout k = Some (Return (RT_EOK, take (unat sz) (mq_data ?mq s)), ?k')"
    unfolding rt_mq_recv_def mq_recv_loop_def using assms(2) ne m bytes
    by (simp add: Let_def split: if_splits)
  moreover have "mqueues ?k' i = snd (mq_get ?mq)" by (simp add: upd_mq_def get)
  ultimately show ?thesis using g(1,3) by (intro exI[of _ ?k']) (simp add: upd_mq_def)
qed

definition ex_mq_kernel :: kernel where
  "ex_mq_kernel = upd_mq 0 (mq_put [9, 8]) ex_kernel"

theorem mq_recv_returns_slot_witness:
  "\<exists>k'. rt_mq_recv 0 4 0 ex_mq_kernel = Some (Return (RT_EOK, [9, 8, 0, 0]), k') \<and> mq_rep [] [0, 1] {} (mqueues k' 0)"
proof -
  have l: "length [9, 8 :: u8] \<le> unat (mq_msg_size (mqueues ex_kernel 0))" by (simp add: ex_kernel_def)
  note p = mq_put_rep[OF ex_mq_rep l]
  have m: "mqueues ex_mq_kernel 0 = mq_put [9, 8] (mqueues ex_kernel 0)" by (simp add: ex_mq_kernel_def upd_mq_def)
  have r: "mq_rep [0] [1] {} (mqueues ex_mq_kernel 0)" using p(1) by (simp add: m)
  have d: "mq_data (mqueues ex_mq_kernel 0) 0 = [9, 8, 0, 0]" by (simp add: m p(3)) (simp add: ex_kernel_def)
  from mq_recv_returns_slot[OF r, of 4 0] show ?thesis by (auto simp: d)
qed

end
