(* ===== verification/Ringbuffer.thy ===== *)
theory Ringbuffer
  imports Fifo
begin

text \<open>
  rt-thread/components/drivers/src/ringbuffer.c: a byte ring with 15-bit indices and a mirror
  bit for each of them, which tells a full ring from an empty one.  The invariant \<open>rb_ok\<close>
  relates the mirror bits to the order of the indices, and \<open>rb_contents\<close> is the byte sequence
  the ring holds.
\<close>

section \<open>Operations\<close>

datatype rt_ringbuffer_state = RT_RINGBUFFER_EMPTY | RT_RINGBUFFER_FULL | RT_RINGBUFFER_HALFFULL

record rt_ringbuffer =
  rb_buffer_ptr :: "u8 list"
  rb_read_mirror :: bool
  rb_read_index :: "15 word"
  rb_write_mirror :: bool
  rb_write_index :: "15 word"
  rb_buffer_size :: u16

text \<open>\<open>memcpy(&dst[d], &src[s], n)\<close> with the bytes that are there; a copy outside them is None.\<close>

definition memcpy_at :: "u8 list \<Rightarrow> int \<Rightarrow> u8 list \<Rightarrow> int \<Rightarrow> int \<Rightarrow> u8 list option" where
  "memcpy_at dst d src s n =
     (if 0 \<le> d \<and> 0 \<le> s \<and> 0 \<le> n \<and> d + n \<le> int (length dst) \<and> s + n \<le> int (length src)
      then Some (take (nat d) dst @ take (nat n) (drop (nat s) src) @ drop (nat (d + n)) dst)
      else None)"

text \<open>The fields as C ints: the size is signed, the indices are not.\<close>

abbreviation rb_size :: "rt_ringbuffer \<Rightarrow> int" where
  "rb_size rb \<equiv> sint (rb_buffer_size rb)"

abbreviation rb_read :: "rt_ringbuffer \<Rightarrow> int" where
  "rb_read rb \<equiv> uint (rb_read_index rb)"

abbreviation rb_write :: "rt_ringbuffer \<Rightarrow> int" where
  "rb_write rb \<equiv> uint (rb_write_index rb)"

definition rt_ringbuffer_status :: "rt_ringbuffer \<Rightarrow> rt_ringbuffer_state" where
  "rt_ringbuffer_status rb =
     (if rb_read_index rb = rb_write_index rb
      then if rb_read_mirror rb = rb_write_mirror rb then RT_RINGBUFFER_EMPTY else RT_RINGBUFFER_FULL
      else RT_RINGBUFFER_HALFFULL)"

definition rt_ringbuffer_init :: "u8 list \<Rightarrow> u16 \<Rightarrow> rt_ringbuffer option" where
  "rt_ringbuffer_init pool sz =
     (if 0 < sint sz
      then Some \<lparr>rb_buffer_ptr = pool, rb_read_mirror = False, rb_read_index = 0,
                 rb_write_mirror = False, rb_write_index = 0,
                 rb_buffer_size = ucast (RT_ALIGN_DOWN (scast sz) RT_ALIGN_SIZE)\<rparr>
      else None)"

definition rt_ringbuffer_data_len :: "rt_ringbuffer \<Rightarrow> u32" where
  "rt_ringbuffer_data_len rb =
     (case rt_ringbuffer_status rb of
        RT_RINGBUFFER_EMPTY \<Rightarrow> 0
      | RT_RINGBUFFER_FULL \<Rightarrow> of_int (rb_size rb)
      | RT_RINGBUFFER_HALFFULL \<Rightarrow>
          if rb_write rb > rb_read rb then of_int (rb_write rb - rb_read rb)
          else of_int (rb_size rb - (rb_read rb - rb_write rb)))"

definition rt_ringbuffer_space_len :: "rt_ringbuffer \<Rightarrow> u32" where
  "rt_ringbuffer_space_len rb = of_int (rb_size rb) - rt_ringbuffer_data_len rb"

definition rt_ringbuffer_reset :: "rt_ringbuffer \<Rightarrow> rt_ringbuffer" where
  "rt_ringbuffer_reset rb =
     rb\<lparr>rb_read_mirror := False, rb_read_index := 0, rb_write_mirror := False, rb_write_index := 0\<rparr>"

text \<open>The copy of length bytes at the write index, which rt_ringbuffer_put and
  rt_ringbuffer_put_force share.\<close>

definition rb_copy_in :: "u8 list \<Rightarrow> u16 \<Rightarrow> rt_ringbuffer \<Rightarrow> rt_ringbuffer option" where
  "rb_copy_in ptr len rb =
     (if rb_size rb - rb_write rb > uint len
      then do { buf \<leftarrow> memcpy_at (rb_buffer_ptr rb) (rb_write rb) ptr 0 (uint len);
                Some (rb\<lparr>rb_buffer_ptr := buf, rb_write_index := rb_write_index rb + ucast len\<rparr>) }
      else do { let room = rb_size rb - rb_write rb;
                buf \<leftarrow> memcpy_at (rb_buffer_ptr rb) (rb_write rb) ptr 0 room;
                buf \<leftarrow> memcpy_at buf 0 ptr room (uint len - room);
                Some (rb\<lparr>rb_buffer_ptr := buf, rb_write_mirror := \<not> rb_write_mirror rb,
                         rb_write_index := of_int (uint len - room)\<rparr>) })"

definition rt_ringbuffer_put :: "u8 list \<Rightarrow> u16 \<Rightarrow> rt_ringbuffer \<Rightarrow> (u32 \<times> rt_ringbuffer) option" where
  "rt_ringbuffer_put ptr len rb =
     (let space = ucast (rt_ringbuffer_space_len rb) :: u16
      in if space = 0 then Some (0, rb)
         else do { let len = (if space < len then space else len);
                   rb \<leftarrow> rb_copy_in ptr len rb;
                   Some (ucast len, rb) })"

definition rt_ringbuffer_put_force :: "u8 list \<Rightarrow> u16 \<Rightarrow> rt_ringbuffer \<Rightarrow> (u32 \<times> rt_ringbuffer) option" where
  "rt_ringbuffer_put_force ptr len rb =
     (let space_length = ucast (rt_ringbuffer_space_len rb) :: u16;
          (ptr, len) = (if uint len > rb_size rb then (drop (nat (uint len - rb_size rb)) ptr, rb_buffer_size rb)
                        else (ptr, len));
          wraps = (\<not> rb_size rb - rb_write rb > uint len)
      in do { rb \<leftarrow> rb_copy_in ptr len rb;
              let rb = (if len > space_length
                        then if wraps
                             then rb\<lparr>rb_read_mirror := \<not> rb_read_mirror rb, rb_read_index := rb_write_index rb\<rparr>
                             else rb\<lparr>rb_read_index := rb_write_index rb\<rparr>
                        else rb);
              Some (ucast len, rb) })"

definition rt_ringbuffer_get :: "u8 list \<Rightarrow> u16 \<Rightarrow> rt_ringbuffer \<Rightarrow> (u32 \<times> u8 list \<times> rt_ringbuffer) option" where
  "rt_ringbuffer_get ptr len rb =
     (let data = rt_ringbuffer_data_len rb
      in if data = 0 then Some (0, ptr, rb)
         else let len = (if data < ucast len then ucast data else len)
              in if rb_size rb - rb_read rb > uint len
                 then do { ptr \<leftarrow> memcpy_at ptr 0 (rb_buffer_ptr rb) (rb_read rb) (uint len);
                           Some (ucast len, ptr, rb\<lparr>rb_read_index := rb_read_index rb + ucast len\<rparr>) }
                 else do { let room = rb_size rb - rb_read rb;
                           ptr \<leftarrow> memcpy_at ptr 0 (rb_buffer_ptr rb) (rb_read rb) room;
                           ptr \<leftarrow> memcpy_at ptr room (rb_buffer_ptr rb) 0 (uint len - room);
                           Some (ucast len, ptr, rb\<lparr>rb_read_mirror := \<not> rb_read_mirror rb,
                                                    rb_read_index := of_int (uint len - room)\<rparr>) })"

text \<open>\<open>rb->buffer_ptr[rb->write_index] = ch\<close>; a store outside the pool is None.\<close>

definition rb_store :: "u8 \<Rightarrow> rt_ringbuffer \<Rightarrow> rt_ringbuffer option" where
  "rb_store ch rb =
     (if unat (rb_write_index rb) < length (rb_buffer_ptr rb)
      then Some (rb\<lparr>rb_buffer_ptr := (rb_buffer_ptr rb)[unat (rb_write_index rb) := ch]\<rparr>)
      else None)"

definition rt_ringbuffer_putchar :: "u8 \<Rightarrow> rt_ringbuffer \<Rightarrow> (u32 \<times> rt_ringbuffer) option" where
  "rt_ringbuffer_putchar ch rb =
     (if rt_ringbuffer_space_len rb = 0 then Some (0, rb)
      else do { rb \<leftarrow> rb_store ch rb;
                Some (1, if rb_write rb = rb_size rb - 1
                         then rb\<lparr>rb_write_mirror := \<not> rb_write_mirror rb, rb_write_index := 0\<rparr>
                         else rb\<lparr>rb_write_index := rb_write_index rb + 1\<rparr>) })"

definition rt_ringbuffer_putchar_force :: "u8 \<Rightarrow> rt_ringbuffer \<Rightarrow> (u32 \<times> rt_ringbuffer) option" where
  "rt_ringbuffer_putchar_force ch rb =
     (let full = (rt_ringbuffer_status rb = RT_RINGBUFFER_FULL)
      in do { rb \<leftarrow> rb_store ch rb;
              Some (1, if rb_write rb = rb_size rb - 1
                       then let rb = rb\<lparr>rb_write_mirror := \<not> rb_write_mirror rb, rb_write_index := 0\<rparr>
                            in if full
                               then rb\<lparr>rb_read_mirror := \<not> rb_read_mirror rb, rb_read_index := rb_write_index rb\<rparr>
                               else rb
                       else let rb = rb\<lparr>rb_write_index := rb_write_index rb + 1\<rparr>
                            in if full then rb\<lparr>rb_read_index := rb_write_index rb\<rparr> else rb) })"

text \<open>The byte that is stored through the pointer, if any.\<close>

definition rt_ringbuffer_getchar :: "rt_ringbuffer \<Rightarrow> (u8 option \<times> rt_ringbuffer) option" where
  "rt_ringbuffer_getchar rb =
     (if rt_ringbuffer_data_len rb = 0 then Some (None, rb)
      else if unat (rb_read_index rb) < length (rb_buffer_ptr rb)
      then Some (Some (rb_buffer_ptr rb ! unat (rb_read_index rb)),
                 if rb_read rb = rb_size rb - 1
                 then rb\<lparr>rb_read_mirror := \<not> rb_read_mirror rb, rb_read_index := 0\<rparr>
                 else rb\<lparr>rb_read_index := rb_read_index rb + 1\<rparr>)
      else None)"

text \<open>What rt_ringbuffer_create hands out when the allocator gives it the control block or not and
  the pool or not: a pointer to a ring, no pointer, or a pointer to a block it has freed.\<close>

datatype rb_created = Rb_null | Rb_freed | Rb_created rt_ringbuffer

definition rt_ringbuffer_create :: "bool \<Rightarrow> u8 list option \<Rightarrow> u16 \<Rightarrow> rb_created option" where
  "rt_ringbuffer_create rb_allocated pool sz =
     (if 0 < sz
      then let sz = ucast (RT_ALIGN_DOWN (ucast sz) RT_ALIGN_SIZE) :: u16
           in if \<not> rb_allocated then Some Rb_null
              else case pool of
                     None \<Rightarrow> Some Rb_freed
                   | Some pool \<Rightarrow> map_option Rb_created (rt_ringbuffer_init pool sz)
      else None)"

section \<open>The ring as a byte sequence\<close>

abbreviation rb_cap :: "rt_ringbuffer \<Rightarrow> nat" where
  "rb_cap rb \<equiv> nat (rb_size rb)"

definition rb_count :: "rt_ringbuffer \<Rightarrow> nat" where
  "rb_count rb =
     (if rb_read_mirror rb = rb_write_mirror rb then unat (rb_write_index rb) - unat (rb_read_index rb)
      else rb_cap rb - (unat (rb_read_index rb) - unat (rb_write_index rb)))"

definition rb_ok :: "rt_ringbuffer \<Rightarrow> bool" where
  "rb_ok rb \<longleftrightarrow> 0 < rb_size rb \<and> rb_cap rb \<le> length (rb_buffer_ptr rb) \<and>
     unat (rb_read_index rb) < rb_cap rb \<and> unat (rb_write_index rb) < rb_cap rb \<and>
     (if rb_read_mirror rb = rb_write_mirror rb
      then unat (rb_read_index rb) \<le> unat (rb_write_index rb)
      else unat (rb_write_index rb) \<le> unat (rb_read_index rb))"

definition rb_contents :: "rt_ringbuffer \<Rightarrow> u8 list" where
  "rb_contents rb = circ (take (rb_cap rb) (rb_buffer_ptr rb)) (unat (rb_read_index rb)) (rb_count rb)"


text \<open>The invariant in terms of natural numbers.\<close>

lemma rb_okD:
  assumes "rb_ok rb"
  shows "0 < rb_cap rb" "rb_cap rb < 2 ^ 15" "rb_size rb = int (rb_cap rb)"
    "unat (rb_read_index rb) < rb_cap rb" "unat (rb_write_index rb) < rb_cap rb"
    "rb_cap rb \<le> length (rb_buffer_ptr rb)" "rb_count rb \<le> rb_cap rb"
    "(unat (rb_read_index rb) + rb_count rb) mod rb_cap rb = unat (rb_write_index rb)"
proof -
  have "sint (rb_buffer_size rb) < 2 ^ 15" using sint_lt[of "rb_buffer_size rb"] by simp
  then show "rb_cap rb < 2 ^ 15" using assms by (simp add: rb_ok_def)
  show b: "0 < rb_cap rb" "unat (rb_read_index rb) < rb_cap rb" "unat (rb_write_index rb) < rb_cap rb"
    "rb_cap rb \<le> length (rb_buffer_ptr rb)" "rb_size rb = int (rb_cap rb)"
    using assms by (auto simp: rb_ok_def)
  show "rb_count rb \<le> rb_cap rb" using b by (auto simp: rb_count_def)
  show "(unat (rb_read_index rb) + rb_count rb) mod rb_cap rb = unat (rb_write_index rb)"
    using assms b by (auto simp: rb_ok_def rb_count_def)
qed

lemma rb_lens:
  assumes "rb_ok rb"
  shows "unat (rt_ringbuffer_data_len rb) = rb_count rb"
    and "unat (rt_ringbuffer_space_len rb) = rb_cap rb - rb_count rb"
    and "unat (ucast (rt_ringbuffer_space_len rb) :: u16) = rb_cap rb - rb_count rb"
proof -
  note d = rb_okD[OF assms]
  let ?r = "unat (rb_read_index rb)" and ?w = "unat (rb_write_index rb)"
  have "rt_ringbuffer_data_len rb = of_int (int (rb_count rb))"
  proof (cases "rb_read_mirror rb = rb_write_mirror rb")
    case True
    then have le: "?r \<le> ?w" using assms by (simp add: rb_ok_def)
    then have "int (?w - ?r) = rb_write rb - rb_read rb" by (simp add: of_nat_diff)
    moreover have "rb_read_index rb \<noteq> rb_write_index rb \<Longrightarrow> rb_read rb < rb_write rb"
      using le by (metis order_le_less word_le_nat_alt word_less_def)
    ultimately show ?thesis using True
      by (simp add: rt_ringbuffer_data_len_def rt_ringbuffer_status_def rb_count_def)
  next
    case False
    then have le: "?w \<le> ?r" using assms by (simp add: rb_ok_def)
    then have "\<not> rb_write rb > rb_read rb" by (metis not_le word_le_def word_le_nat_alt)
    moreover have "int (rb_cap rb - (?r - ?w)) = rb_size rb - (rb_read rb - rb_write rb)"
      using le d(3,4) by (simp add: of_nat_diff)
    ultimately show ?thesis using False
      by (simp add: rt_ringbuffer_data_len_def rt_ringbuffer_status_def rb_count_def)
  qed
  then have dl: "rt_ringbuffer_data_len rb = of_nat (rb_count rb)" by simp
  then show "unat (rt_ringbuffer_data_len rb) = rb_count rb"
    using d(2,7) by (simp add: unat_of_nat)
  have sl: "rt_ringbuffer_space_len rb = of_nat (rb_cap rb - rb_count rb)"
  proof -
    have "of_int (rb_size rb) = (of_nat (rb_cap rb) :: u32)" by (metis d(3) of_int_of_nat_eq)
    then show ?thesis unfolding rt_ringbuffer_space_len_def dl using d(7) by (simp only: of_nat_diff)
  qed
  then show u: "unat (rt_ringbuffer_space_len rb) = rb_cap rb - rb_count rb"
    using d(2) by (simp add: unat_of_nat)
  show "unat (ucast (rt_ringbuffer_space_len rb) :: u16) = rb_cap rb - rb_count rb"
    using u d(2) by (simp add: unsigned_ucast_eq take_bit_word_eq_self take_bit_nat_eq_self)
qed

text \<open>Writing a block at the write position, cut in two where the array ends.\<close>

lemma memcpy_at_length: "memcpy_at dst d src s n = Some buf \<Longrightarrow> length buf = length dst"
  by (auto simp: memcpy_at_def split: if_splits)

lemma memcpy_at_Some:
  assumes "d + n \<le> length dst" and "s + n \<le> length src"
  shows "\<exists>buf. memcpy_at dst (int d) src (int s) (int n) = Some buf"
  using assms by (simp add: memcpy_at_def)

lemma memcpy_at_nth:
  assumes "memcpy_at dst (int d) src (int s) (int n) = Some buf" and "i < length dst"
  shows "buf ! i = (if d \<le> i \<and> i < d + n then src ! (s + (i - d)) else dst ! i)"
proof -
  from assms(1) have le: "d + n \<le> length dst" "s + n \<le> length src"
    and e: "buf = take d dst @ take n (drop s src) @ drop (d + n) dst"
    by (simp_all add: memcpy_at_def nat_int_add split: if_splits)
  consider "i < d" | "d \<le> i" "i - d < n" "i < d + n" | "d + n \<le> i" "\<not> i - d < n" by arith
  then show ?thesis using le assms(2) by cases (simp_all add: e nth_append)
qed

lemma unat_15:
  assumes "n < 2 ^ 15"
  shows "unat (of_nat n :: 15 word) = n"
  using assms by (simp add: unat_of_nat take_bit_nat_eq_self)

lemma rb_copy_in_ok:
  assumes ok: "rb_ok rb" and L: "unat len \<le> rb_cap rb" "unat len \<le> length ptr"
  shows "\<exists>buf. rb_copy_in ptr len rb =
      Some (rb\<lparr>rb_buffer_ptr := buf,
               rb_write_mirror := (if unat (rb_write_index rb) + unat len < rb_cap rb then rb_write_mirror rb
                                   else \<not> rb_write_mirror rb),
               rb_write_index := of_nat ((unat (rb_write_index rb) + unat len) mod rb_cap rb)\<rparr>) \<and>
     length buf = length (rb_buffer_ptr rb) \<and>
     (\<forall>j < unat len. buf ! ((unat (rb_write_index rb) + j) mod rb_cap rb) = ptr ! j) \<and>
     (\<forall>i < rb_cap rb. (\<forall>j < unat len. i \<noteq> (unat (rb_write_index rb) + j) mod rb_cap rb) \<longrightarrow> buf ! i = rb_buffer_ptr rb ! i)"
proof -
  note d = rb_okD[OF ok]
  define w L s where "w = unat (rb_write_index rb)" and "L = unat len" and "s = rb_cap rb"
  have i: "rb_write rb = int w" "uint len = int L" "rb_size rb = int s" using d(3) by (simp_all add: w_def L_def s_def)
  have b: "w < s" "L \<le> s" "L \<le> length ptr" "s \<le> length (rb_buffer_ptr rb)" "s < 2 ^ 15"
    using d L by (simp_all add: w_def L_def s_def)
  have wi: "rb_write_index rb = of_nat w" by (simp add: w_def)
  show ?thesis unfolding w_def[symmetric] L_def[symmetric] s_def[symmetric]
  proof (cases "w + L < s")
    case True
    then have c: "rb_size rb - rb_write rb > uint len" unfolding i by simp
    obtain buf where buf: "memcpy_at (rb_buffer_ptr rb) (rb_write rb) ptr 0 (uint len) = Some buf"
      unfolding i using True b memcpy_at_Some[of w L "rb_buffer_ptr rb" 0 ptr] by auto
    from buf have "memcpy_at (rb_buffer_ptr rb) (int w) ptr (int 0) (int L) = Some buf" unfolding i by simp
    note nth = memcpy_at_nth[OF this]
    have m: "(w + j) mod s = w + j" if "j < L" for j using True that by simp
    have "length buf = length (rb_buffer_ptr rb)" by (rule memcpy_at_length[OF buf])
    moreover have "buf ! ((w + j) mod s) = ptr ! j" if "j < L" for j
      unfolding m[OF that] using nth[of "w + j"] that True b by simp
    moreover have "buf ! i = rb_buffer_ptr rb ! i" if "i < s" "\<forall>j < L. i \<noteq> (w + j) mod s" for i
    proof -
      have "\<not> (w \<le> i \<and> i < w + L)" using that(2) m by (metis add_diff_inverse_nat add_less_cancel_left not_less)
      then show ?thesis using nth[of i] that(1) b by auto
    qed
    moreover have "rb_write_index rb + ucast len = of_nat (w + L)" by (simp add: wi L_def unsigned_ucast_eq of_nat_unat)
    ultimately show "\<exists>buf. rb_copy_in ptr len rb =
      Some (rb\<lparr>rb_buffer_ptr := buf, rb_write_mirror := (if w + L < s then rb_write_mirror rb else \<not> rb_write_mirror rb),
               rb_write_index := of_nat ((w + L) mod s)\<rparr>) \<and> length buf = length (rb_buffer_ptr rb) \<and>
       (\<forall>j < L. buf ! ((w + j) mod s) = ptr ! j) \<and>
       (\<forall>i < s. (\<forall>j < L. i \<noteq> (w + j) mod s) \<longrightarrow> buf ! i = rb_buffer_ptr rb ! i)"
      using True buf c by (intro exI[of _ buf]) (simp add: rb_copy_in_def)
  next
    case False
    define m where "m = s - w"
    have mm: "rb_size rb - rb_write rb = int m" "uint len - int m = int (L - m)" "m \<le> L" "0 < m"
      unfolding i using False b by (simp_all add: m_def of_nat_diff)
    have c: "\<not> rb_size rb - rb_write rb > uint len" unfolding i(2) mm(1) using mm(3) by simp
    obtain buf1 where buf1: "memcpy_at (rb_buffer_ptr rb) (rb_write rb) ptr 0 (int m) = Some buf1"
      unfolding i using mm(3) b memcpy_at_Some[of w m "rb_buffer_ptr rb" 0 ptr] by (auto simp: m_def)
    from buf1 have "memcpy_at (rb_buffer_ptr rb) (int w) ptr (int 0) (int m) = Some buf1" unfolding i by simp
    note nth1 = memcpy_at_nth[OF this]
    have l1: "length buf1 = length (rb_buffer_ptr rb)" by (rule memcpy_at_length[OF buf1])
    have "L - m \<le> length (rb_buffer_ptr rb)" using b by linarith
    then obtain buf where buf: "memcpy_at buf1 0 ptr (int m) (uint len - int m) = Some buf"
      unfolding mm(2) using mm(3) b l1 memcpy_at_Some[of 0 "L - m" buf1 m ptr] by auto
    from buf have "memcpy_at buf1 (int 0) ptr (int m) (int (L - m)) = Some buf" unfolding mm(2) by simp
    note nth2 = memcpy_at_nth[OF this]
    have l2: "length buf = length (rb_buffer_ptr rb)" using memcpy_at_length[OF buf] l1 by simp
    have hit: "buf ! ((w + j) mod s) = ptr ! j" if "j < L" for j
    proof (cases "w + j < s")
      case True
      then have "\<not> w + j < L - m" using b(2) by (simp add: m_def)
      then show ?thesis using True nth2[of "w + j"] nth1[of "w + j"] l1 b by (simp add: m_def)
    next
      case False
      then have "(w + j) mod s = j - m" "m \<le> j" using b that mod_once[of s "w + j"] by (simp_all add: m_def)
      moreover from this have "j - m < L - m" "j - m < length buf1" using that b l1 by linarith+
      ultimately show ?thesis using nth2[of "j - m"] by simp
    qed
    have miss: "buf ! i = rb_buffer_ptr rb ! i" if "i < s" "\<forall>j < L. i \<noteq> (w + j) mod s" for i
    proof -
      have "i < w"
      proof (rule ccontr)
        assume "\<not> i < w"
        then have "i - w < L" "(w + (i - w)) mod s = i" using that(1) mm(3) by (simp_all add: m_def)
        with that(2) show False by metis
      qed
      moreover have "\<not> i < L - m"
      proof
        assume "i < L - m"
        moreover have "(w + (m + i)) mod s = i" using b that(1) by (simp add: m_def)
        moreover from \<open>i < L - m\<close> have "m + i < L" by arith
        ultimately show False using that(2) by metis
      qed
      ultimately show ?thesis using nth2[of i] nth1[of i] l1 b that(1) by simp
    qed
    have "(w + L) mod s = L - m" using False b mod_once[of s "w + L"] by (simp add: m_def)
    then have "of_nat ((w + L) mod s) = (of_int (uint len - int m) :: 15 word)" unfolding mm(2) by simp
    then show "\<exists>buf. rb_copy_in ptr len rb =
      Some (rb\<lparr>rb_buffer_ptr := buf, rb_write_mirror := (if w + L < s then rb_write_mirror rb else \<not> rb_write_mirror rb),
               rb_write_index := of_nat ((w + L) mod s)\<rparr>) \<and> length buf = length (rb_buffer_ptr rb) \<and>
       (\<forall>j < L. buf ! ((w + j) mod s) = ptr ! j) \<and>
       (\<forall>i < s. (\<forall>j < L. i \<noteq> (w + j) mod s) \<longrightarrow> buf ! i = rb_buffer_ptr rb ! i)"
      using False buf buf1 c l2 hit miss by (intro exI[of _ buf]) (simp add: rb_copy_in_def mm(1))
  qed
qed

text \<open>What a copy of the right length leaves behind.\<close>

lemma rb_copy_in_contents:
  assumes ok: "rb_ok rb" and L: "unat len \<le> rb_cap rb" "unat len \<le> length ptr" and e: "e \<le> rb_count rb"
      "rb_count rb + unat len - e \<le> rb_cap rb" and c: "rb_copy_in ptr len rb = Some rb'"
  shows "circ (take (rb_cap rb) (rb_buffer_ptr rb')) (unat (rb_read_index rb) + e) (rb_count rb + unat len - e) =
     drop e (rb_contents rb @ take (unat len) ptr)"
proof -
  note d = rb_okD[OF ok]
  from rb_copy_in_ok[OF ok L] c obtain buf where
    buf: "rb_buffer_ptr rb' = buf" "length buf = length (rb_buffer_ptr rb)"
     "\<forall>j < unat len. buf ! ((unat (rb_write_index rb) + j) mod rb_cap rb) = ptr ! j"
     "\<forall>i < rb_cap rb. (\<forall>j < unat len. i \<noteq> (unat (rb_write_index rb) + j) mod rb_cap rb) \<longrightarrow> buf ! i = rb_buffer_ptr rb ! i"
    by auto
  have len: "length (take (rb_cap rb) buf) = rb_cap rb" "length (take (rb_cap rb) (rb_buffer_ptr rb)) = rb_cap rb"
    using d(6) buf(2) by simp_all
  have w: "(unat (rb_write_index rb) + j) mod rb_cap rb = (unat (rb_read_index rb) + rb_count rb + j) mod rb_cap rb" for j
    unfolding d(8)[symmetric] by (simp add: mod_add_left_eq)
  have lt: "x mod rb_cap rb < rb_cap rb" for x using d(1) by (rule mod_less_divisor)
  have hit: "\<forall>j < unat len. take (rb_cap rb) buf ! ((unat (rb_read_index rb) + rb_count rb + j) mod rb_cap rb) = ptr ! j"
    using buf(3) lt unfolding w by simp
  have miss: "\<forall>i < rb_cap rb. (\<forall>j < unat len. i \<noteq> (unat (rb_read_index rb) + rb_count rb + j) mod rb_cap rb) \<longrightarrow>
      take (rb_cap rb) buf ! i = take (rb_cap rb) (rb_buffer_ptr rb) ! i"
    using buf(4) unfolding w by simp
  from circ_block[of "take (rb_cap rb) buf" "take (rb_cap rb) (rb_buffer_ptr rb)" e "rb_count rb" "unat len" ptr
      "unat (rb_read_index rb)", unfolded len, OF refl e d(7) L(2) hit miss]
  show ?thesis unfolding rb_contents_def buf(1) .
qed

lemma rb_copy_in_count:
  assumes ok: "rb_ok rb" and L: "rb_count rb + unat len \<le> rb_cap rb" "unat len \<le> length ptr"
    and c: "rb_copy_in ptr len rb = Some rb'"
  shows "rb_ok rb' \<and> rb_count rb' = rb_count rb + unat len \<and> rb_cap rb' = rb_cap rb \<and> rb_read_index rb' = rb_read_index rb"
proof -
  note d = rb_okD[OF ok]
  define w r L s where "w = unat (rb_write_index rb)" and "r = unat (rb_read_index rb)" and "L = unat len" and "s = rb_cap rb"
  have le: "unat len \<le> rb_cap rb" using L(1) by simp
  from rb_copy_in_ok[OF ok le L(2)] c obtain buf where
    rb': "rb' = rb\<lparr>rb_buffer_ptr := buf, rb_write_mirror := (if w + L < s then rb_write_mirror rb else \<not> rb_write_mirror rb),
               rb_write_index := of_nat ((w + L) mod s)\<rparr>" "length buf = length (rb_buffer_ptr rb)"
    by (auto simp: w_def L_def s_def)
  have b: "0 < s" "s < 2 ^ 15" "r < s" "w < s" "s \<le> length (rb_buffer_ptr rb)" using d by (simp_all add: w_def r_def s_def)
  have wi: "unat (rb_write_index rb') = (if w + L < s then w + L else w + L - s)"
  proof -
    have "(w + L) mod s < 2 ^ 15" using b by (meson less_trans mod_less_divisor)
    then have "unat (rb_write_index rb') = (w + L) mod s" by (simp add: rb'(1) unat_15)
    moreover have "L \<le> s" using le by (simp add: L_def s_def)
    ultimately show ?thesis using b(4) mod_once[of s "w + L"] by auto
  qed
  have L': "rb_count rb + L \<le> s" using L(1) by (simp add: L_def s_def)
  have e: "rb_read_index rb' = rb_read_index rb" "rb_cap rb' = s" "rb_read_mirror rb' = rb_read_mirror rb"
    "rb_write_mirror rb' = (if w + L < s then rb_write_mirror rb else \<not> rb_write_mirror rb)"
    "rb_size rb' = rb_size rb" "length (rb_buffer_ptr rb') = length (rb_buffer_ptr rb)" by (simp_all add: rb' s_def)
  show ?thesis
  proof (cases "rb_read_mirror rb = rb_write_mirror rb")
    case True
    then have "r \<le> w" "rb_count rb = w - r" using ok by (simp_all add: rb_ok_def rb_count_def r_def w_def)
    then show ?thesis using True b L' d(3) unfolding rb_ok_def rb_count_def wi e r_def[symmetric] L_def[symmetric] s_def[symmetric]
      by auto
  next
    case False
    then have "w \<le> r" "rb_count rb = s - (r - w)" using ok by (simp_all add: rb_ok_def rb_count_def r_def w_def s_def)
    then show ?thesis using False b L' d(3) unfolding rb_ok_def rb_count_def wi e r_def[symmetric] L_def[symmetric] s_def[symmetric]
      by auto
  qed
qed

lemma length_rb_contents [simp]: "length (rb_contents rb) = rb_count rb"
  by (simp add: rb_contents_def)

lemma rb_put_ok:
  assumes ok: "rb_ok rb" and L: "unat len \<le> length ptr"
  shows "\<exists>rb'. rt_ringbuffer_put ptr len rb = Some (of_nat (min (unat len) (rb_cap rb - rb_count rb)), rb') \<and> rb_ok rb' \<and>
     rb_cap rb' = rb_cap rb \<and> rb_contents rb' = rb_contents rb @ take (min (unat len) (rb_cap rb - rb_count rb)) ptr"
proof -
  define space where "space = (ucast (rt_ringbuffer_space_len rb) :: u16)"
  define m where "m = (if space < len then space else len)"
  have sp: "unat space = rb_cap rb - rb_count rb" unfolding space_def by (rule rb_lens(3)[OF ok])
  have m: "unat m = min (unat len) (rb_cap rb - rb_count rb)" by (auto simp: m_def sp[symmetric] word_less_nat_alt min_def)
  show ?thesis
  proof (cases "space = 0")
    case True
    then have "rb_cap rb - rb_count rb = 0" using sp by simp
    then show ?thesis using True ok by (simp add: rt_ringbuffer_put_def space_def)
  next
    case False
    have le: "rb_count rb + unat m \<le> rb_cap rb" "unat m \<le> length ptr" "unat m \<le> rb_cap rb"
      using m L rb_okD(7)[OF ok] by simp_all
    from rb_copy_in_ok[OF ok le(3,2)] obtain rb' where c: "rb_copy_in ptr m rb = Some rb'" by blast
    note n = rb_copy_in_count[OF ok le(1,2) c]
    from rb_copy_in_contents[OF ok le(3,2) _ _ c, of 0] le(1) n have "rb_contents rb' = rb_contents rb @ take (unat m) ptr"
      by (simp add: rb_contents_def)
    moreover have "rt_ringbuffer_put ptr len rb = Some (ucast m, rb')"
      using False by (simp add: rt_ringbuffer_put_def space_def[symmetric] m_def[symmetric] c Let_def)
    moreover have "ucast m = (of_nat (unat m) :: u32)" by simp
    ultimately show ?thesis using n unfolding m by auto
  qed
qed

text \<open>Reading a block from the front, cut in two where the array ends.\<close>

lemma rb_get_copies:
  assumes ok: "rb_ok rb" and L: "unat len \<le> rb_count rb" "unat len \<le> length ptr"
  shows "take (unat len) (rb_contents rb) =
     (let r = unat (rb_read_index rb)
      in if r + unat len < rb_cap rb then take (unat len) (drop r (rb_buffer_ptr rb))
         else take (rb_cap rb - r) (drop r (rb_buffer_ptr rb)) @ take (unat len - (rb_cap rb - r)) (rb_buffer_ptr rb))"
proof -
  note d = rb_okD[OF ok]
  define r L s where "r = unat (rb_read_index rb)" and "L = unat len" and "s = rb_cap rb"
  have b: "r < s" "L \<le> rb_count rb" "L \<le> s" "s \<le> length (rb_buffer_ptr rb)"
    using d L by (simp_all add: r_def L_def s_def)
  have c: "rb_contents rb ! j = rb_buffer_ptr rb ! ((r + j) mod s)" if "j < L" for j
    using that b d(1) by (simp add: rb_contents_def circ_nth r_def s_def)
  show ?thesis unfolding Let_def r_def[symmetric] L_def[symmetric] s_def[symmetric]
  proof (rule nth_equalityI)
    fix j assume "j < length (take L (rb_contents rb))"
    then have j: "j < L" "j < rb_count rb" by simp_all
    show "take L (rb_contents rb) ! j = (if r + L < s then take L (drop r (rb_buffer_ptr rb))
         else take (s - r) (drop r (rb_buffer_ptr rb)) @ take (L - (s - r)) (rb_buffer_ptr rb)) ! j"
    proof (cases "r + j < s")
      case True
      then have "j < s - r" by simp
      then show ?thesis using True b j by (simp add: c nth_append)
    next
      case False
      then have "(r + j) mod s = j - (s - r)" using b j mod_once[of s "r + j"] by simp
      moreover have "\<not> j < s - r" "\<not> r + L < s" "j - (s - r) < L - (s - r)" using False b j by simp_all
      ultimately show ?thesis using b j by (simp add: c nth_append)
    qed
  qed (use b in auto)
qed

lemma rb_advance_read:
  assumes ok: "rb_ok rb" and L: "L \<le> rb_count rb"
    and rb': "rb' = rb\<lparr>rb_read_mirror := (if unat (rb_read_index rb) + L < rb_cap rb then rb_read_mirror rb else \<not> rb_read_mirror rb),
               rb_read_index := of_nat ((unat (rb_read_index rb) + L) mod rb_cap rb)\<rparr>"
  shows "rb_ok rb' \<and> rb_cap rb' = rb_cap rb \<and> rb_contents rb' = drop L (rb_contents rb)"
proof -
  note d = rb_okD[OF ok]
  define r w s where "r = unat (rb_read_index rb)" and "w = unat (rb_write_index rb)" and "s = rb_cap rb"
  have b: "0 < s" "s < 2 ^ 15" "r < s" "w < s" "L \<le> s" using d L by (simp_all add: w_def r_def s_def)
  have lt: "(r + L) mod s < 2 ^ 15" using b by (meson less_trans mod_less_divisor)
  then have rm: "unat (rb_read_index rb') = (r + L) mod s" by (simp add: rb' unat_15 r_def s_def)
  then have ri: "unat (rb_read_index rb') = (if r + L < s then r + L else r + L - s)"
    using b mod_once[of s "r + L"] by auto
  have e: "rb_cap rb' = s" "rb_write_index rb' = rb_write_index rb" "rb_write_mirror rb' = rb_write_mirror rb"
    "rb_read_mirror rb' = (if r + L < s then rb_read_mirror rb else \<not> rb_read_mirror rb)"
    "rb_size rb' = rb_size rb" "rb_buffer_ptr rb' = rb_buffer_ptr rb" by (simp_all add: rb' s_def r_def)
  have n: "rb_ok rb' \<and> rb_count rb' = rb_count rb - L"
  proof (cases "rb_read_mirror rb = rb_write_mirror rb")
    case True
    then have "r \<le> w" "rb_count rb = w - r" using ok by (simp_all add: rb_ok_def rb_count_def r_def w_def)
    then show ?thesis using True b L d(3,6) unfolding rb_ok_def rb_count_def ri e w_def[symmetric] s_def[symmetric]
      by auto
  next
    case False
    then have "w \<le> r" "rb_count rb = s - (r - w)" using ok by (simp_all add: rb_ok_def rb_count_def r_def w_def s_def)
    then show ?thesis using False b L d(3,6) unfolding rb_ok_def rb_count_def ri e w_def[symmetric] s_def[symmetric]
      by auto
  qed
  let ?p = "take s (rb_buffer_ptr rb)"
  have "rb_contents rb' = circ ?p ((r + L) mod s) (rb_count rb - L)" using n by (simp add: rb_contents_def rm e(1,6))
  also have "\<dots> = circ ?p (r + L) (rb_count rb - L)"
    using circ_mod[of ?p "r + L"] d(6) by (simp add: s_def)
  also have "\<dots> = drop L (circ ?p r (rb_count rb))"
    using L by (intro nth_equalityI) (simp_all add: circ_nth add.assoc)
  finally show ?thesis using n e(1) by (simp add: rb_contents_def r_def s_def)
qed

lemma memcpy_at_eq:
  assumes "d + n \<le> length dst" and "s + n \<le> length src"
  shows "memcpy_at dst (int d) src (int s) (int n) = Some (take d dst @ take n (drop s src) @ drop (d + n) dst)"
  using assms by (simp add: memcpy_at_def nat_int_add)

lemma rb_get_ok:
  assumes ok: "rb_ok rb" and L: "unat len \<le> length ptr"
  shows "\<exists>rb'. rt_ringbuffer_get ptr len rb =
       Some (of_nat (min (unat len) (rb_count rb)),
             take (min (unat len) (rb_count rb)) (rb_contents rb) @ drop (min (unat len) (rb_count rb)) ptr, rb') \<and>
     rb_ok rb' \<and> rb_cap rb' = rb_cap rb \<and> rb_contents rb' = drop (min (unat len) (rb_count rb)) (rb_contents rb)"
proof -
  note d = rb_okD[OF ok]
  define dl where "dl = rt_ringbuffer_data_len rb"
  define m where "m = (if dl < ucast len then ucast dl else len :: u16)"
  define M r s where "M = unat m" and "r = unat (rb_read_index rb)" and "s = rb_cap rb"
  have dl: "unat dl = rb_count rb" unfolding dl_def by (rule rb_lens(1)[OF ok])
  have cnt: "rb_count rb < 2 ^ 15" using d(2,7) by simp
  have ul: "unat (ucast len :: u32) = unat len"
    using unsigned_less[of len, where ?'a = nat] by (simp add: unsigned_ucast_eq take_bit_nat_eq_self)
  have ud: "unat (ucast dl :: u16) = rb_count rb"
    using dl cnt by (simp add: unsigned_ucast_eq take_bit_nat_eq_self)
  have m: "M = min (unat len) (rb_count rb)"
    unfolding M_def by (auto simp: m_def ud dl word_less_nat_alt ul)
  show ?thesis unfolding m[symmetric]
  proof (cases "dl = 0")
    case True
    then have "M = 0" using dl m by simp
    then show "\<exists>rb'. rt_ringbuffer_get ptr len rb = Some (of_nat M, take M (rb_contents rb) @ drop M ptr, rb') \<and>
       rb_ok rb' \<and> rb_cap rb' = rb_cap rb \<and> rb_contents rb' = drop M (rb_contents rb)"
      using True ok by (simp add: rt_ringbuffer_get_def dl_def)
  next
    case False
    have i: "rb_read rb = int r" "uint m = int M" "rb_size rb = int s" using d(3) by (simp_all add: r_def M_def s_def)
    have b: "r < s" "M \<le> s" "M \<le> length ptr" "s \<le> length (rb_buffer_ptr rb)" "M \<le> rb_count rb"
      using d L by (simp_all add: m r_def s_def)
    define rb' where "rb' = rb\<lparr>rb_read_mirror := (if r + M < s then rb_read_mirror rb else \<not> rb_read_mirror rb),
               rb_read_index := of_nat ((r + M) mod s)\<rparr>"
    have adv: "rb_ok rb' \<and> rb_cap rb' = rb_cap rb \<and> rb_contents rb' = drop M (rb_contents rb)"
      by (rule rb_advance_read[OF ok b(5)]) (simp add: rb'_def r_def s_def)
    have "unat m \<le> rb_count rb" "unat m \<le> length ptr" using b(3,5) by (simp_all add: M_def)
    note cp = rb_get_copies[OF ok this, folded M_def r_def s_def, unfolded Let_def]
    have ri: "rb_read_index rb = of_nat r" by (simp add: r_def)
    have ret: "ucast m = (of_nat M :: u32)" by (simp add: M_def)
    have "rt_ringbuffer_get ptr len rb = Some (of_nat M, take M (rb_contents rb) @ drop M ptr, rb')"
    proof (cases "r + M < s")
      case True
      then have c: "rb_size rb - rb_read rb > uint m" unfolding i by simp
      have "memcpy_at ptr (int 0) (rb_buffer_ptr rb) (int r) (int M) =
          Some (take M (drop r (rb_buffer_ptr rb)) @ drop M ptr)"
        using True b by (subst memcpy_at_eq) simp_all
      then have cp1: "memcpy_at ptr 0 (rb_buffer_ptr rb) (rb_read rb) (uint m) = Some (take M (rb_contents rb) @ drop M ptr)"
        unfolding i cp using True by simp
      have "rb_read_index rb + ucast m = of_nat (r + M)" by (simp add: ri M_def of_nat_unat)
      then have "rb\<lparr>rb_read_index := rb_read_index rb + ucast m\<rparr> = rb'" using True by (simp add: rb'_def)
      then show ?thesis using False c cp1
        by (simp add: rt_ringbuffer_get_def dl_def[symmetric] m_def[symmetric] ret)
    next
      case wrap: False
      define n where "n = s - r"
      have n: "rb_size rb - rb_read rb = int n" "uint m - int n = int (M - n)" "n \<le> M" "0 < n"
        unfolding i using wrap b by (simp_all add: n_def of_nat_diff)
      have c: "\<not> rb_size rb - rb_read rb > uint m" unfolding i(2) n(1) using n(3) by simp
      have "memcpy_at ptr (int 0) (rb_buffer_ptr rb) (int r) (int n) =
          Some (take n (drop r (rb_buffer_ptr rb)) @ drop n ptr)"
        using n(3) b by (subst memcpy_at_eq) (simp_all add: n_def)
      then have cp1: "memcpy_at ptr 0 (rb_buffer_ptr rb) (rb_read rb) (int n) =
          Some (take n (drop r (rb_buffer_ptr rb)) @ drop n ptr)" unfolding i by simp
      have ln: "length (take n (drop r (rb_buffer_ptr rb))) = n" using b by (simp add: n_def)
      have le: "M - n \<le> length (rb_buffer_ptr rb)" "n + (M - n) \<le> length (take n (drop r (rb_buffer_ptr rb)) @ drop n ptr)"
        using ln b n(3) by simp_all
      have "memcpy_at (take n (drop r (rb_buffer_ptr rb)) @ drop n ptr) (int n) (rb_buffer_ptr rb) (int 0) (int (M - n)) =
          Some (take n (drop r (rb_buffer_ptr rb)) @ take (M - n) (rb_buffer_ptr rb) @ drop M ptr)"
        using le ln n(3) b by (subst memcpy_at_eq) simp_all
      then have cp2: "memcpy_at (take n (drop r (rb_buffer_ptr rb)) @ drop n ptr) (int n) (rb_buffer_ptr rb) 0 (uint m - int n) =
          Some (take M (rb_contents rb) @ drop M ptr)" unfolding n(2) cp using wrap by (simp add: n_def)
      have "(r + M) mod s = M - n" using wrap b mod_once[of s "r + M"] by (simp add: n_def)
      then have "rb\<lparr>rb_read_mirror := \<not> rb_read_mirror rb, rb_read_index := of_int (uint m - int n)\<rparr> = rb'"
        unfolding n(2) rb'_def using wrap by simp
      then show ?thesis using False c cp1 cp2
        by (simp add: rt_ringbuffer_get_def dl_def[symmetric] m_def[symmetric] ret n(1))
    qed
    with adv show "\<exists>rb'. rt_ringbuffer_get ptr len rb = Some (of_nat M, take M (rb_contents rb) @ drop M ptr, rb') \<and>
       rb_ok rb' \<and> rb_cap rb' = rb_cap rb \<and> rb_contents rb' = drop M (rb_contents rb)" by blast
  qed
qed

text \<open>The forced put, on every branch.\<close>

lemma rb_put_force_short:
  assumes ok: "rb_ok rb" and L: "unat len \<le> rb_cap rb" "unat len \<le> length ptr"
  shows "\<exists>rb'. rt_ringbuffer_put_force ptr len rb = Some (ucast len, rb') \<and> rb_ok rb' \<and> rb_cap rb' = rb_cap rb \<and>
     rb_contents rb' =
       (if unat len \<le> rb_cap rb - rb_count rb then rb_contents rb @ take (unat len) ptr
        else if rb_read_mirror rb = rb_write_mirror rb then []
        else drop (rb_count rb + unat len - rb_cap rb) (rb_contents rb @ take (unat len) ptr))"
proof -
  note d = rb_okD[OF ok]
  define w r M s where "w = unat (rb_write_index rb)" and "r = unat (rb_read_index rb)" and "M = unat len" and "s = rb_cap rb"
  have b: "0 < s" "s < 2 ^ 15" "r < s" "w < s" "s \<le> length (rb_buffer_ptr rb)" "M \<le> s"
    using d L by (simp_all add: w_def r_def s_def M_def)
  define space where "space = (ucast (rt_ringbuffer_space_len rb) :: u16)"
  have sp: "unat space = s - rb_count rb" unfolding space_def s_def by (rule rb_lens(3)[OF ok])
  have i: "rb_size rb = int s" "rb_write rb = int w" "uint len = int M" using d(3) by (simp_all add: s_def w_def M_def)
  have short: "\<not> rb_size rb < uint len" unfolding i using b(6) by simp
  have wr: "(\<not> rb_size rb - rb_write rb > uint len) \<longleftrightarrow> \<not> w + M < s" unfolding i by linarith
  from rb_copy_in_ok[OF ok L] obtain buf where
    c: "rb_copy_in ptr len rb =
      Some (rb\<lparr>rb_buffer_ptr := buf, rb_write_mirror := (if w + M < s then rb_write_mirror rb else \<not> rb_write_mirror rb),
               rb_write_index := of_nat ((w + M) mod s)\<rparr>)" and lb: "length buf = length (rb_buffer_ptr rb)"
    unfolding w_def M_def s_def by blast
  let ?rb = "rb\<lparr>rb_buffer_ptr := buf, rb_write_mirror := (if w + M < s then rb_write_mirror rb else \<not> rb_write_mirror rb),
               rb_write_index := of_nat ((w + M) mod s)\<rparr>"
  have ov: "len > space \<longleftrightarrow> \<not> M \<le> s - rb_count rb" by (simp add: word_less_nat_alt sp M_def not_le)
  have eq: "rt_ringbuffer_put_force ptr len rb = Some (ucast len,
      if \<not> M \<le> s - rb_count rb
      then if \<not> w + M < s then ?rb\<lparr>rb_read_mirror := \<not> rb_read_mirror rb, rb_read_index := of_nat ((w + M) mod s)\<rparr>
           else ?rb\<lparr>rb_read_index := of_nat ((w + M) mod s)\<rparr>
      else ?rb)"
    using short by (simp add: rt_ringbuffer_put_force_def space_def[symmetric] ov c Let_def wr[simplified])
  show ?thesis
  proof (cases "M \<le> s - rb_count rb")
    case True
    then have le: "rb_count rb + unat len \<le> rb_cap rb" using d(7) by (simp add: M_def s_def)
    note n = rb_copy_in_count[OF ok le L(2) c]
    from rb_copy_in_contents[OF ok L _ _ c, of 0] le n have "rb_contents ?rb = rb_contents rb @ take (unat len) ptr"
      by (simp add: rb_contents_def)
    then show ?thesis using True eq n by (simp add: M_def s_def)
  next
    case over: False
    define e where "e = rb_count rb + M - s"
    have "rb_count rb \<le> s" using d(7) by (simp add: s_def)
    then have en: "e \<le> rb_count rb" "rb_count rb + M - e = s" using over b unfolding e_def by linarith+
    have wm: "(w + M) mod s = (r + e) mod s"
    proof -
      have "(w + M) mod s = (r + rb_count rb + M) mod s"
        using d(8) by (metis mod_add_left_eq r_def s_def w_def)
      also have "r + rb_count rb + M = r + e + s" using en(2) over by (simp add: e_def)
      finally show ?thesis by simp
    qed
    have lt: "(w + M) mod s < s" "(w + M) mod s < 2 ^ 15" using b by (simp_all add: less_trans[OF mod_less_divisor])
    then have u: "unat (of_nat ((w + M) mod s) :: 15 word) = (w + M) mod s" by (simp add: unat_15)
    have cont: "circ (take s buf) ((w + M) mod s) s = drop e (rb_contents rb @ take (unat len) ptr)"
    proof -
      have "circ (take s buf) (r + e) s = drop e (rb_contents rb @ take (unat len) ptr)"
        using rb_copy_in_contents[OF ok L _ _ c, of e] en by (simp add: s_def r_def M_def)
      moreover have "length (take s buf) = s" using lb b by simp
      ultimately show ?thesis unfolding wm by (metis circ_mod)
    qed
    define rb' where "rb' = (if \<not> w + M < s
        then ?rb\<lparr>rb_read_mirror := \<not> rb_read_mirror rb, rb_read_index := of_nat ((w + M) mod s)\<rparr>
        else ?rb\<lparr>rb_read_index := of_nat ((w + M) mod s)\<rparr>)"
    have f: "rb_cap rb' = s" "rb_size rb' = int s" "rb_buffer_ptr rb' = buf"
      "rb_read_index rb' = of_nat ((w + M) mod s)" "rb_write_index rb' = of_nat ((w + M) mod s)"
      using i(1) by (simp_all add: rb'_def)
    have mir: "(rb_read_mirror rb' = rb_write_mirror rb') = (rb_read_mirror rb = rb_write_mirror rb)"
      by (simp add: rb'_def)
    have ok': "rb_ok rb'" using b lt lb unfolding rb_ok_def f u by simp
    have "rb_contents rb' = (if rb_read_mirror rb = rb_write_mirror rb then [] else drop e (rb_contents rb @ take (unat len) ptr))"
      unfolding rb_contents_def[of rb'] rb_count_def[of rb'] mir f u by (simp add: cont) (simp add: circ_def)
    moreover have "rt_ringbuffer_put_force ptr len rb = Some (ucast len, rb')"
      unfolding eq rb'_def using over by (simp only: if_True not_False_eq_True)
    ultimately show ?thesis using over ok' f(1) unfolding e_def M_def s_def by (intro exI[of _ rb']) simp
  qed
qed

lemma rb_put_force_ok:
  assumes ok: "rb_ok rb" and L: "unat len \<le> length ptr"
  shows "\<exists>rb'. rt_ringbuffer_put_force ptr len rb = Some (of_nat (min (unat len) (rb_cap rb)), rb') \<and> rb_ok rb' \<and>
     rb_cap rb' = rb_cap rb \<and>
     rb_contents rb' =
       (if rb_cap rb < rb_count rb + unat len \<and> 0 < rb_count rb \<and> rb_read_mirror rb = rb_write_mirror rb then []
        else drop (rb_count rb + unat len - rb_cap rb) (rb_contents rb @ take (unat len) ptr))"
proof (cases "unat len \<le> rb_cap rb")
  case True
  have "ucast len = (of_nat (unat len) :: u32)" by simp
  then show ?thesis using rb_put_force_short[OF ok True L] True rb_okD(7)[OF ok] by auto
next
  case False
  define s where "s = rb_cap rb"
  have i: "rb_size rb = int s" "uint len = int (unat len)" using rb_okD(3)[OF ok] by (simp_all add: s_def)
  have us: "unat (rb_buffer_size rb) = s"
    unfolding s_def using rb_okD(1)[OF ok] sint_pos_u16[of "rb_buffer_size rb"] by simp
  have n: "\<not> rb_size rb < uint (rb_buffer_size rb)" using i(1) us by (metis less_irrefl of_nat_unat)
  let ?ptr = "drop (unat len - s) ptr"
  have "s < unat len" using False by (simp add: s_def)
  then have "uint len > rb_size rb" "nat (uint len - rb_size rb) = unat len - s"
    unfolding i by (linarith, simp only: nat_minus_as_int of_nat_diff nat_int_comparison(2) less_imp_le)
  then have eq: "rt_ringbuffer_put_force ptr len rb = rt_ringbuffer_put_force ?ptr (rb_buffer_size rb) rb"
    using n by (simp add: rt_ringbuffer_put_force_def)
  have le: "unat (rb_buffer_size rb) \<le> rb_cap rb" "unat (rb_buffer_size rb) \<le> length ?ptr"
    using L False by (simp_all add: us s_def)
  have t: "take s ?ptr = drop (unat len - s) (take (unat len) ptr)" using False by (simp add: drop_take s_def)
  have m: "min (unat len) s = s" using False by (simp add: s_def)
  have rt: "ucast (rb_buffer_size rb) = (of_nat s :: u32)" by (simp add: us[symmetric])
  have b: "rb_count rb \<le> s" "s < unat len" using rb_okD(7)[OF ok] False by (simp_all add: s_def)
  have dr: "drop (rb_count rb + unat len - s) (rb_contents rb @ take (unat len) ptr) = take s ?ptr"
    unfolding t using b(2) by simp
  have cs: "(if s \<le> s - rb_count rb then rb_contents rb @ take s ?ptr
        else if rb_read_mirror rb = rb_write_mirror rb then []
        else drop (rb_count rb + s - s) (rb_contents rb @ take s ?ptr)) =
      (if s < rb_count rb + unat len \<and> 0 < rb_count rb \<and> rb_read_mirror rb = rb_write_mirror rb then [] else take s ?ptr)"
  proof (cases "rb_count rb = 0")
    case True
    then have "rb_contents rb = []" by (metis length_0_conv length_rb_contents)
    then show ?thesis using True by simp
  next
    case False
    then have "\<not> s \<le> s - rb_count rb" "s < rb_count rb + unat len" using b by linarith+
    then show ?thesis using False by simp
  qed
  show ?thesis
    using rb_put_force_short[OF ok le] unfolding eq us rt s_def[symmetric] m dr cs .
qed

text \<open>The character operations are the block operations on one byte.\<close>

lemma rb_copy_in_char:
  assumes ok: "rb_ok rb"
  shows "rb_store ch rb = Some (rb\<lparr>rb_buffer_ptr := (rb_buffer_ptr rb)[unat (rb_write_index rb) := ch]\<rparr>)"
    and "rb_copy_in [ch] 1 rb = Some (if rb_write rb = rb_size rb - 1
      then rb\<lparr>rb_buffer_ptr := (rb_buffer_ptr rb)[unat (rb_write_index rb) := ch], rb_write_mirror := \<not> rb_write_mirror rb,
              rb_write_index := 0\<rparr>
      else rb\<lparr>rb_buffer_ptr := (rb_buffer_ptr rb)[unat (rb_write_index rb) := ch],
              rb_write_index := rb_write_index rb + 1\<rparr>)"
    and "(rb_size rb - rb_write rb > 1) \<longleftrightarrow> rb_write rb \<noteq> rb_size rb - 1"
proof -
  note d = rb_okD[OF ok]
  define w s where "w = unat (rb_write_index rb)" and "s = rb_cap rb"
  have b: "w < s" "s \<le> length (rb_buffer_ptr rb)" using d by (simp_all add: w_def s_def)
  have i: "rb_size rb = int s" "rb_write rb = int w" "uint (1 :: u16) = 1" using d(3) by (simp_all add: s_def w_def)
  show "rb_store ch rb = Some (rb\<lparr>rb_buffer_ptr := (rb_buffer_ptr rb)[unat (rb_write_index rb) := ch]\<rparr>)"
    using b by (simp add: rb_store_def w_def)
  show "(rb_size rb - rb_write rb > 1) \<longleftrightarrow> rb_write rb \<noteq> rb_size rb - 1" unfolding i using b by linarith
  have mc: "memcpy_at (rb_buffer_ptr rb) (int w) [ch] 0 1 = Some ((rb_buffer_ptr rb)[w := ch])"
    using b memcpy_at_eq[of w 1 "rb_buffer_ptr rb" 0 "[ch]"] by (simp add: upd_conv_take_nth_drop)
  have m0: "memcpy_at ((rb_buffer_ptr rb)[w := ch]) 0 [ch] 1 0 = Some ((rb_buffer_ptr rb)[w := ch])"
    by (simp add: memcpy_at_def)
  show "rb_copy_in [ch] 1 rb = Some (if rb_write rb = rb_size rb - 1
      then rb\<lparr>rb_buffer_ptr := (rb_buffer_ptr rb)[unat (rb_write_index rb) := ch], rb_write_mirror := \<not> rb_write_mirror rb,
              rb_write_index := 0\<rparr>
      else rb\<lparr>rb_buffer_ptr := (rb_buffer_ptr rb)[unat (rb_write_index rb) := ch],
              rb_write_index := rb_write_index rb + 1\<rparr>)" unfolding w_def[symmetric]
  proof (cases "Suc w = s")
    case True
    then have "rb_size rb - rb_write rb = 1" "rb_write rb = rb_size rb - 1" unfolding i by simp_all
    then show "rb_copy_in [ch] 1 rb = Some (if rb_write rb = rb_size rb - 1
      then rb\<lparr>rb_buffer_ptr := (rb_buffer_ptr rb)[w := ch], rb_write_mirror := \<not> rb_write_mirror rb, rb_write_index := 0\<rparr>
      else rb\<lparr>rb_buffer_ptr := (rb_buffer_ptr rb)[w := ch], rb_write_index := rb_write_index rb + 1\<rparr>)"
      using mc m0 by (simp add: rb_copy_in_def i(2))
  next
    case False
    then have "rb_size rb - rb_write rb > uint (1 :: u16)" "rb_write rb \<noteq> rb_size rb - 1" unfolding i using b by simp_all
    then show "rb_copy_in [ch] 1 rb = Some (if rb_write rb = rb_size rb - 1
      then rb\<lparr>rb_buffer_ptr := (rb_buffer_ptr rb)[w := ch], rb_write_mirror := \<not> rb_write_mirror rb, rb_write_index := 0\<rparr>
      else rb\<lparr>rb_buffer_ptr := (rb_buffer_ptr rb)[w := ch], rb_write_index := rb_write_index rb + 1\<rparr>)"
      using mc by (simp add: rb_copy_in_def i(2))
  qed
qed

lemma putchar_eq_put:
  assumes ok: "rb_ok rb"
  shows "rt_ringbuffer_putchar ch rb = rt_ringbuffer_put [ch] 1 rb"
proof -
  define space where "space = (ucast (rt_ringbuffer_space_len rb) :: u16)"
  have z: "rt_ringbuffer_space_len rb = 0 \<longleftrightarrow> space = 0"
    using rb_lens(2,3)[OF ok] by (metis space_def unat_eq_0)
  have one: "(if space < 1 then space else 1) = 1" if "space \<noteq> 0" using that by (simp add: word_less_nat_alt unat_eq_0)
  show ?thesis using rb_copy_in_char(1,2)[OF ok, of ch] rb_copy_in_char(3)[OF ok]
    by (simp add: rt_ringbuffer_putchar_def rt_ringbuffer_put_def z space_def[symmetric] one)
qed

lemma rb_full_iff:
  assumes ok: "rb_ok rb"
  shows "rt_ringbuffer_status rb = RT_RINGBUFFER_FULL \<longleftrightarrow> rb_count rb = rb_cap rb"
  using ok rb_okD[OF ok]
  by (auto simp: rt_ringbuffer_status_def rb_count_def rb_ok_def word_unat_eq_iff split: if_splits)

lemma putchar_force_eq_put_force:
  assumes ok: "rb_ok rb"
  shows "rt_ringbuffer_putchar_force ch rb = rt_ringbuffer_put_force [ch] 1 rb"
proof -
  note d = rb_okD[OF ok]
  define space where "space = (ucast (rt_ringbuffer_space_len rb) :: u16)"
  have full: "(rt_ringbuffer_status rb = RT_RINGBUFFER_FULL) \<longleftrightarrow> 1 > space"
    using rb_full_iff[OF ok] rb_lens(3)[OF ok] d(7) by (simp add: word_less_nat_alt space_def) linarith
  have sh: "\<not> rb_size rb < 1" using d(1,3) by simp
  show ?thesis using rb_copy_in_char(1,2)[OF ok, of ch] rb_copy_in_char(3)[OF ok] sh
    by (simp add: rt_ringbuffer_putchar_force_def rt_ringbuffer_put_force_def full space_def[symmetric] Let_def)
qed

lemma getchar_ok:
  assumes ok: "rb_ok rb"
  shows "rb_contents rb = [] \<Longrightarrow> rt_ringbuffer_getchar rb = Some (None, rb)"
    and "rb_contents rb = x # xs \<Longrightarrow> \<exists>rb'. rt_ringbuffer_getchar rb = Some (Some x, rb') \<and> rb_ok rb' \<and>
       rb_cap rb' = rb_cap rb \<and> rb_contents rb' = xs"
proof -
  note d = rb_okD[OF ok]
  show "rt_ringbuffer_getchar rb = Some (None, rb)" if "rb_contents rb = []"
  proof -
    have "rb_count rb = 0" using that by (metis length_0_conv length_rb_contents)
    then show ?thesis using rb_lens(1)[OF ok] by (simp add: rt_ringbuffer_getchar_def unat_eq_0)
  qed
  show "\<exists>rb'. rt_ringbuffer_getchar rb = Some (Some x, rb') \<and> rb_ok rb' \<and> rb_cap rb' = rb_cap rb \<and> rb_contents rb' = xs"
    if c: "rb_contents rb = x # xs"
  proof -
    define r s where "r = unat (rb_read_index rb)" and "s = rb_cap rb"
    have b: "r < s" "s \<le> length (rb_buffer_ptr rb)" "s < 2 ^ 15" using d by (simp_all add: r_def s_def)
    have i: "rb_size rb = int s" "rb_read rb = int r" using d(3) by (simp_all add: s_def r_def)
    have n: "1 \<le> rb_count rb" using c by (metis One_nat_def Suc_leI length_greater_0_conv length_rb_contents list.distinct(1))
    have "x = rb_contents rb ! 0" by (simp add: c)
    also have "\<dots> = rb_buffer_ptr rb ! r" using n b d(6) by (simp add: rb_contents_def circ_nth r_def s_def)
    finally have x: "x = rb_buffer_ptr rb ! r" .
    define rb' where "rb' = rb\<lparr>rb_read_mirror := (if r + 1 < s then rb_read_mirror rb else \<not> rb_read_mirror rb),
               rb_read_index := of_nat ((r + 1) mod s)\<rparr>"
    have adv: "rb_ok rb' \<and> rb_cap rb' = rb_cap rb \<and> rb_contents rb' = drop 1 (rb_contents rb)"
      by (rule rb_advance_read[OF ok n]) (simp add: rb'_def r_def s_def)
    have dl: "rt_ringbuffer_data_len rb \<noteq> 0" using rb_lens(1)[OF ok] n by auto
    have last: "rb_read rb = rb_size rb - 1 \<longleftrightarrow> Suc r = s" unfolding i by linarith
    have "rb_read_index rb + 1 = of_nat (r + 1)" by (simp add: r_def)
    then have "rb' = (if rb_read rb = rb_size rb - 1 then rb\<lparr>rb_read_mirror := \<not> rb_read_mirror rb, rb_read_index := 0\<rparr>
        else rb\<lparr>rb_read_index := rb_read_index rb + 1\<rparr>)"
      unfolding last rb'_def using b(1) by (cases "Suc r = s") (simp_all add: mod_if)
    then have "rt_ringbuffer_getchar rb = Some (Some x, rb')"
      using dl b x by (simp add: rt_ringbuffer_getchar_def r_def)
    with adv c show ?thesis by auto
  qed
qed

text \<open>A fresh ring is empty and holds the size rounded down to whole words.\<close>

lemma rb_init_ok:
  assumes "4 \<le> sint sz" and "nat (sint sz) \<le> length pool"
  shows "\<exists>rb. rt_ringbuffer_init pool sz = Some rb \<and> rb_ok rb \<and> rb_contents rb = [] \<and> rb_cap rb = nat (sint sz) div 4 * 4"
proof -
  define z where "z = nat (sint sz)"
  have z: "4 \<le> z" "z < 2 ^ 15" "sint sz = int z" "z \<le> length pool" using assms sint_lt[of sz] by (simp_all add: z_def)
  define n where "n = z div 4 * 4"
  have n: "n \<le> z" "4 \<le> n" "n < 2 ^ 15" using z(1,2) unfolding n_def by (simp_all add: div_le_mono le_less_trans[OF div_times_less_eq_dividend] div_greater_zero_iff Suc_le_eq)
  have sc: "unat (scast sz :: u32) = z"
  proof -
    have "(scast sz :: u32) = of_int (sint sz)" by simp
    then show ?thesis unfolding z(3) using z(2) by (simp add: unat_of_nat take_bit_nat_eq_self)
  qed
  have "unat (RT_ALIGN_DOWN (scast sz) RT_ALIGN_SIZE) = n"
    using align_down_unat[of RT_ALIGN_SIZE 2 "scast sz"] sc by (simp add: n_def minus_mod_eq_div_mult)
  then have u: "unat (ucast (RT_ALIGN_DOWN (scast sz) RT_ALIGN_SIZE) :: u16) = n"
    using n by (simp add: unsigned_ucast_eq take_bit_nat_eq_self)
  have s: "sint (ucast (RT_ALIGN_DOWN (scast sz) RT_ALIGN_SIZE) :: u16) = int n"
  proof -
    have "ucast (RT_ALIGN_DOWN (scast sz) RT_ALIGN_SIZE) = (of_int (int n) :: u16)" using u n(3) by (simp add: word_unat_eq_iff unat_of_nat take_bit_nat_eq_self)
    then show ?thesis using n by (simp only: signed_of_int) (simp add: signed_take_bit_int_eq_self)
  qed
  show ?thesis using z n unfolding z_def[symmetric] n_def[symmetric]
    by (simp add: rt_ringbuffer_init_def rb_ok_def rb_contents_def rb_count_def circ_def s)
qed

section \<open>The ring as a bounded queue of bytes\<close>

text \<open>One byte in, if there is room, and one byte out.\<close>

definition rb_put1 :: "u8 \<Rightarrow> rt_ringbuffer \<Rightarrow> rt_ringbuffer" where
  "rb_put1 ch rb = (case rt_ringbuffer_putchar ch rb of Some (_, rb') \<Rightarrow> rb' | None \<Rightarrow> rb)"

definition rb_get1 :: "rt_ringbuffer \<Rightarrow> u8 \<times> rt_ringbuffer" where
  "rb_get1 rb = (case rt_ringbuffer_getchar rb of Some (Some ch, rb') \<Rightarrow> (ch, rb') | _ \<Rightarrow> (0, rb))"

interpretation ring: bounded_fifo rb_ok "\<lambda>_ _. True" rb_contents rb_cap rb_put1 rb_get1
proof
  fix s :: rt_ringbuffer and x
  assume a: "rb_ok s" "length (rb_contents s) < rb_cap s"
  then have m: "min (unat (1 :: u16)) (rb_cap s - rb_count s) = 1" by simp
  from rb_put_ok[OF a(1), of 1 "[x]"] obtain rb' where
    "rt_ringbuffer_put [x] 1 s = Some (1, rb')" "rb_ok rb'" "rb_cap rb' = rb_cap s" "rb_contents rb' = rb_contents s @ [x]"
    unfolding m by auto
  then show "rb_ok (rb_put1 x s) \<and> rb_contents (rb_put1 x s) = rb_contents s @ [x] \<and>
      rb_cap (rb_put1 x s) = rb_cap s \<and> (\<lambda>_. True) = (\<lambda>_. True)"
    by (simp add: rb_put1_def putchar_eq_put[OF a(1)])
next
  fix s :: rt_ringbuffer and x xs
  assume "rb_ok s" "rb_contents s = x # xs"
  from getchar_ok(2)[OF this] show "rb_ok (snd (rb_get1 s)) \<and> fst (rb_get1 s) = x \<and>
      rb_contents (snd (rb_get1 s)) = xs \<and> rb_cap (snd (rb_get1 s)) = rb_cap s"
    by (auto simp: rb_get1_def)
next
  fix s :: rt_ringbuffer
  assume "rb_ok s"
  then show "length (rb_contents s) \<le> rb_cap s" using rb_okD(7) by simp
qed

section \<open>Properties\<close>

definition ex_rb :: rt_ringbuffer where
  "ex_rb = \<lparr>rb_buffer_ptr = [10, 11, 12, 13], rb_read_mirror = False, rb_read_index = 3,
            rb_write_mirror = True, rb_write_index = 1, rb_buffer_size = 4\<rparr>"

definition ex_rb_half :: rt_ringbuffer where
  "ex_rb_half = \<lparr>rb_buffer_ptr = [10, 11, 12, 13], rb_read_mirror = False, rb_read_index = 0,
            rb_write_mirror = False, rb_write_index = 2, rb_buffer_size = 4\<rparr>"

lemma ex_rb_ok: "rb_ok ex_rb" "rb_count ex_rb = 2" "rb_cap ex_rb = 4" "rb_contents ex_rb = [13, 10]"
  by (simp_all add: ex_rb_def rb_ok_def rb_count_def rb_contents_def circ_def upt_rec)

lemma ex_rb_half_ok: "rb_ok ex_rb_half" "rb_count ex_rb_half = 2" "rb_cap ex_rb_half = 4" "rb_contents ex_rb_half = [10, 11]"
  by (simp_all add: ex_rb_half_def rb_ok_def rb_count_def rb_contents_def circ_def upt_rec)

text \<open>C38: The ring buffer is a byte stream of bounded size: putting a block appends as much of it
  as there is room for and reports how much, and getting a block takes as many bytes from
  the front as there are and leaves the rest of the caller's buffer alone.\<close>

theorem ringbuffer_stream:
  assumes "rb_ok rb" and "unat len \<le> length ptr"
  shows "(\<exists>rb'. rt_ringbuffer_put ptr len rb = Some (of_nat (min (unat len) (rb_cap rb - rb_count rb)), rb') \<and> rb_ok rb' \<and>
       rb_cap rb' = rb_cap rb \<and> rb_contents rb' = rb_contents rb @ take (min (unat len) (rb_cap rb - rb_count rb)) ptr) \<and>
     (\<exists>rb'. rt_ringbuffer_get ptr len rb =
         Some (of_nat (min (unat len) (rb_count rb)),
               take (min (unat len) (rb_count rb)) (rb_contents rb) @ drop (min (unat len) (rb_count rb)) ptr, rb') \<and>
       rb_ok rb' \<and> rb_cap rb' = rb_cap rb \<and> rb_contents rb' = drop (min (unat len) (rb_count rb)) (rb_contents rb))"
  using rb_put_ok[OF assms] rb_get_ok[OF assms] by blast

theorem ringbuffer_stream_witness:
  "(\<exists>rb'. rt_ringbuffer_put [1, 2, 3] 3 ex_rb = Some (2, rb') \<and> rb_contents rb' = [13, 10, 1, 2]) \<and>
   (\<exists>rb'. rt_ringbuffer_get [1, 2, 3] 3 ex_rb = Some (2, [13, 10, 3], rb') \<and> rb_contents rb' = [])"
  using ringbuffer_stream[OF ex_rb_ok(1), of 3 "[1, 2, 3]"] by (auto simp: ex_rb_ok)

text \<open>A forced put that overruns the ring keeps the newest bytes, as many as the ring holds,
  except when the ring is partly filled and its data does not wrap around the end of the
  array: then both mirror bits flip and the ring is left empty, with the new bytes lost.\<close>

theorem ringbuffer_put_force:
  assumes "rb_ok rb" and "unat len \<le> length ptr"
  shows "\<exists>rb'. rt_ringbuffer_put_force ptr len rb = Some (of_nat (min (unat len) (rb_cap rb)), rb') \<and> rb_ok rb' \<and>
     rb_cap rb' = rb_cap rb \<and>
     rb_contents rb' =
       (if rb_cap rb < rb_count rb + unat len \<and> 0 < rb_count rb \<and> rb_read_mirror rb = rb_write_mirror rb then []
        else drop (rb_count rb + unat len - rb_cap rb) (rb_contents rb @ take (unat len) ptr))"
  by (rule rb_put_force_ok[OF assms])

theorem ringbuffer_put_force_witness:
  "(\<exists>rb'. rt_ringbuffer_put_force [1, 2, 3] 3 ex_rb = Some (3, rb') \<and> rb_contents rb' = [10, 1, 2, 3]) \<and>
   (\<exists>rb'. rt_ringbuffer_put_force [1, 2, 3] 3 ex_rb_half = Some (3, rb') \<and> rb_contents rb' = [])"
proof -
  have m: "rb_read_mirror ex_rb \<noteq> rb_write_mirror ex_rb" "rb_read_mirror ex_rb_half = rb_write_mirror ex_rb_half"
    by (simp_all add: ex_rb_def ex_rb_half_def)
  show ?thesis
    using ringbuffer_put_force[OF ex_rb_ok(1), of 3 "[1, 2, 3]"] ringbuffer_put_force[OF ex_rb_half_ok(1), of 3 "[1, 2, 3]"] m
    by (auto simp: ex_rb_ok ex_rb_half_ok)
qed

text \<open>The single-character operations agree with the block operations on one byte, and a
  stream of characters comes out in the order in which it went in.\<close>

theorem ringbuffer_characters:
  assumes "rb_ok rb" and "rb_count rb + length cs \<le> rb_cap rb"
  shows "rt_ringbuffer_putchar ch rb = rt_ringbuffer_put [ch] 1 rb \<and>
     rt_ringbuffer_putchar_force ch rb = rt_ringbuffer_put_force [ch] 1 rb \<and>
     fst (ring.gets (rb_count rb + length cs) (fold rb_put1 cs rb)) = rb_contents rb @ cs"
  using putchar_eq_put[OF assms(1)] putchar_force_eq_put_force[OF assms(1)]
    ring.first_in_first_out[OF assms(1), of cs] assms(2) by simp

theorem ringbuffer_characters_witness:
  "rt_ringbuffer_putchar 7 ex_rb = rt_ringbuffer_put [7] 1 ex_rb \<and>
   fst (ring.gets 4 (fold rb_put1 [7, 8] ex_rb)) = [13, 10, 7, 8]"
  using ringbuffer_characters[OF ex_rb_ok(1), of "[7, 8]" 7] by (simp add: ex_rb_ok)

end
