(* ===== verification/Mempool.thy ===== *)
theory Mempool
  imports Mailbox
begin

text \<open>
  rt-thread/src/mempool.c: pools of blocks of one size.  Every block has a header word in
  front of it, which links the free blocks and points to the pool while the block is in use.
  The control block of a pool and the header words are the record \<open>rt_mempool\<close>, addresses are
  32-bit words, and the threads that wait for a block are the list \<open>MpQ\<close> of the kernel.
\<close>

section \<open>Operations\<close>

record rt_mempool =
  mp_address :: u32
  mp_start_address :: u32
  mp_size :: u32
  mp_block_size :: u32
  mp_block_list :: u32
  mp_block_total_count :: u32
  mp_block_free_count :: u32
  mp_suspend_thread_count :: u32
  mp_mem :: "u32 \<Rightarrow> u32"

text \<open>The loop that links all blocks, and the null pointer in the last one.  With no block at all
  the code stores that pointer in front of the pool: None.\<close>

fun mp_link_loop :: "u32 \<Rightarrow> u32 \<Rightarrow> nat \<Rightarrow> (u32 \<Rightarrow> u32) \<Rightarrow> u32 \<Rightarrow> u32" where
  "mp_link_loop start stride 0 mem = mem"
| "mp_link_loop start stride (Suc n) mem =
     (mp_link_loop start stride n mem)(start + of_nat n * stride := start + (of_nat n + 1) * stride)"

definition mp_link_blocks :: "rt_mempool \<Rightarrow> rt_mempool option" where
  "mp_link_blocks mp =
     (let stride = mp_block_size mp + 4; total = mp_block_total_count mp
      in if total = 0 then None
         else Some (mp\<lparr>mp_mem := (mp_link_loop (mp_start_address mp) stride (unat total) (mp_mem mp))
                                  (mp_start_address mp + (total - 1) * stride := 0),
                       mp_block_list := mp_start_address mp\<rparr>))"

text \<open>The record is the control block before the call: its address and the memory it will use.\<close>

definition rt_mp_init ::
  "nat \<Rightarrow> u8 list \<Rightarrow> u32 \<Rightarrow> u32 \<Rightarrow> u32 \<Rightarrow> rt_mempool \<Rightarrow> kernel \<Rightarrow> (rt_mempool \<times> kernel) option" where
  "rt_mp_init i name start sz block_size mp k =
     do { k \<leftarrow> rt_object_init (ObjMemPool i) name k;
          let sz = RT_ALIGN_DOWN sz RT_ALIGN_SIZE;
          let block_size = RT_ALIGN block_size RT_ALIGN_SIZE;
          let total = sz div (block_size + 4);
          k \<leftarrow> rt_ipc_object_init (MpQ i) k;
          mp \<leftarrow> mp_link_blocks (mp\<lparr>mp_start_address := start, mp_size := sz, mp_block_size := block_size,
                  mp_block_total_count := total, mp_block_free_count := total, mp_suspend_thread_count := 0\<rparr>);
          Some (mp, k) }"

text \<open>The loop that wakes all waiting threads with an error.\<close>

partial_function (option) mp_resume_all :: "nat \<Rightarrow> rt_mempool \<Rightarrow> kernel \<Rightarrow> (rt_mempool \<times> kernel) option" where
  "mp_resume_all i mp k =
     (case tlists k (MpQ i) of
        [] \<Rightarrow> Some (mp, k)
      | t # _ \<Rightarrow>
          do { (_, k) \<leftarrow> rt_thread_resume t (upd_thread t (\<lambda>th. th\<lparr>th_error := RT_ERROR\<rparr>) k);
               mp_resume_all i (mp\<lparr>mp_suspend_thread_count := mp_suspend_thread_count mp - 1\<rparr>) k })"

definition rt_mp_detach :: "nat \<Rightarrow> rt_mempool \<Rightarrow> kernel \<Rightarrow> (rt_mempool \<times> kernel) option" where
  "rt_mp_detach i mp k =
     do { (mp, k) \<leftarrow> mp_resume_all i mp k;
          Some (mp, rt_object_detach (ObjMemPool i) k) }"

text \<open>The control block and the memory come from the heap, either of which may have no room.\<close>

definition rt_mp_create ::
  "(nat \<times> rt_mempool) option \<Rightarrow> u32 option \<Rightarrow> u8 list \<Rightarrow> u32 \<Rightarrow> u32 \<Rightarrow> kernel \<Rightarrow>
   (rt_mempool option \<times> kernel) option" where
  "rt_mp_create obj mem name block_count block_size k =
     (if \<not> RT_DEBUG_NOT_IN_INTERRUPT k then None
      else do { (_, k) \<leftarrow> rt_object_allocate (map_option (ObjMemPool \<circ> fst) obj) RT_Object_Class_MemPool name k;
                case obj of
                  None \<Rightarrow> Some (None, k)
                | Some (i, mp) \<Rightarrow>
                    do { let block_size = RT_ALIGN block_size RT_ALIGN_SIZE;
                         let mp = mp\<lparr>mp_block_size := block_size, mp_size := (block_size + 4) * block_count\<rparr>;
                         case mem of
                           None \<Rightarrow> do { k \<leftarrow> rt_object_delete (ObjMemPool i) k; Some (None, k) }
                         | Some start \<Rightarrow>
                             do { k \<leftarrow> rt_ipc_object_init (MpQ i) k;
                                  mp \<leftarrow> mp_link_blocks (mp\<lparr>mp_start_address := start, mp_block_total_count := block_count,
                                          mp_block_free_count := block_count, mp_suspend_thread_count := 0\<rparr>);
                                  Some (Some mp, k) } } })"

definition rt_mp_delete :: "nat \<Rightarrow> rt_mempool \<Rightarrow> kernel \<Rightarrow> kernel option" where
  "rt_mp_delete i mp k =
     (if \<not> RT_DEBUG_NOT_IN_INTERRUPT k then None
      else do { (mp, k) \<leftarrow> mp_resume_all i mp k;
                rt_object_delete (ObjMemPool i) k })"

text \<open>Taking the first free block and putting a block back at the front.\<close>

definition mp_take :: "rt_mempool \<Rightarrow> (u32 \<times> rt_mempool) option" where
  "mp_take mp =
     (let block_ptr = mp_block_list mp
      in if block_ptr = 0 then None
         else Some (block_ptr + 4,
                    mp\<lparr>mp_block_free_count := mp_block_free_count mp - 1, mp_block_list := mp_mem mp block_ptr,
                       mp_mem := (mp_mem mp)(block_ptr := mp_address mp)\<rparr>))"

definition mp_return :: "u32 \<Rightarrow> rt_mempool \<Rightarrow> rt_mempool" where
  "mp_return block_ptr mp =
     mp\<lparr>mp_block_free_count := mp_block_free_count mp + 1, mp_block_list := block_ptr,
        mp_mem := (mp_mem mp)(block_ptr := mp_block_list mp)\<rparr>"

text \<open>The while loop of rt_mp_alloc and what follows it; the thread is the one that was running
  when the call was made.\<close>

definition mp_alloc_loop ::
  "nat \<Rightarrow> u32 \<Rightarrow> tid option \<Rightarrow> rt_mempool \<Rightarrow> kernel \<Rightarrow> (u32 option outcome \<times> rt_mempool \<times> kernel) option" where
  "mp_alloc_loop i time thread mp k =
     (if mp_block_free_count mp = 0
      then if time = 0 then Some (Return None, mp, rt_set_errno RT_ETIMEOUT k)
           else if \<not> RT_DEBUG_NOT_IN_INTERRUPT k then None
           else do { t \<leftarrow> thread;
                     let k = upd_thread t (\<lambda>th. th\<lparr>th_error := RT_EOK\<rparr>) k;
                     (_, k) \<leftarrow> rt_thread_suspend t k;
                     k \<leftarrow> tlist_insert_after (MpQ i) t k;
                     let mp = mp\<lparr>mp_suspend_thread_count := mp_suspend_thread_count mp + 1\<rparr>;
                     k \<leftarrow> start_thread_timer t time k;
                     k \<leftarrow> rt_schedule k;
                     Some (Blocked, mp, k) }
      else do { (block, mp) \<leftarrow> mp_take mp;
                Some (Return (Some block), mp, k) })"

definition rt_mp_alloc ::
  "nat \<Rightarrow> u32 \<Rightarrow> rt_mempool \<Rightarrow> kernel \<Rightarrow> (u32 option outcome \<times> rt_mempool \<times> kernel) option" where
  "rt_mp_alloc i time mp k = mp_alloc_loop i time (rt_thread_self k) mp k"

definition rt_mp_alloc_resumed ::
  "nat \<Rightarrow> u32 \<Rightarrow> u32 \<Rightarrow> tid \<Rightarrow> rt_mempool \<Rightarrow> kernel \<Rightarrow> (u32 option outcome \<times> rt_mempool \<times> kernel) option" where
  "rt_mp_alloc_resumed i time before_sleep t mp k =
     (if th_error (threads k t) \<noteq> RT_EOK then Some (Return None, mp, k)
      else mp_alloc_loop i (time_left time before_sleep (rt_tick_get k)) (Some t) mp k)"

text \<open>The header tells which pool the block belongs to; a block of another pool is not freed to
  this one.  With a positive count and nobody on the list the code takes the list head for a
  thread: None.\<close>

definition rt_mp_free :: "nat \<Rightarrow> u32 \<Rightarrow> rt_mempool \<Rightarrow> kernel \<Rightarrow> (rt_mempool \<times> kernel) option" where
  "rt_mp_free i block mp k =
     (let block_ptr = block - 4
      in if mp_mem mp block_ptr \<noteq> mp_address mp then None
         else let mp = mp_return block_ptr mp
              in if mp_suspend_thread_count mp > 0
                 then case tlists k (MpQ i) of
                        [] \<Rightarrow> None
                      | t # _ \<Rightarrow>
                          do { (_, k) \<leftarrow> rt_thread_resume t (upd_thread t (\<lambda>th. th\<lparr>th_error := RT_EOK\<rparr>) k);
                               let mp = mp\<lparr>mp_suspend_thread_count := mp_suspend_thread_count mp - 1\<rparr>;
                               k \<leftarrow> rt_schedule k;
                               Some (mp, k) }
                 else Some (mp, k))"

section \<open>The blocks of a pool\<close>

text \<open>The headers of the blocks, in the order of their addresses.\<close>

definition mp_block :: "rt_mempool \<Rightarrow> nat \<Rightarrow> u32" where
  "mp_block mp j = mp_start_address mp + of_nat j * (mp_block_size mp + 4)"

fun wchain :: "(u32 \<Rightarrow> u32) \<Rightarrow> u32 \<Rightarrow> u32 list \<Rightarrow> bool" where
  "wchain mem p [] \<longleftrightarrow> p = 0"
| "wchain mem p (b # bs) \<longleftrightarrow> p = b \<and> b \<noteq> 0 \<and> wchain mem (mem b) bs"

text \<open>The pool lies in memory as a whole; the free blocks fs are linked, the others point to the
  pool.\<close>

definition mp_rep :: "u32 list \<Rightarrow> rt_mempool \<Rightarrow> bool" where
  "mp_rep fs mp \<longleftrightarrow>
     mp_start_address mp \<noteq> 0 \<and> unat (mp_block_size mp) + 4 < 2 ^ 32 \<and>
     unat (mp_start_address mp) + unat (mp_block_total_count mp) * (unat (mp_block_size mp) + 4) < 2 ^ 32 \<and>
     wchain (mp_mem mp) (mp_block_list mp) fs \<and> distinct fs \<and>
     set fs \<subseteq> mp_block mp ` {..<unat (mp_block_total_count mp)} \<and>
     (\<forall>b \<in> mp_block mp ` {..<unat (mp_block_total_count mp)} - set fs. mp_mem mp b = mp_address mp) \<and>
     unat (mp_block_free_count mp) = length fs"

abbreviation mp_total :: "rt_mempool \<Rightarrow> nat" where
  "mp_total mp \<equiv> unat (mp_block_total_count mp)"

abbreviation mp_stride :: "rt_mempool \<Rightarrow> nat" where
  "mp_stride mp \<equiv> unat (mp_block_size mp) + 4"

definition mp_layout :: "rt_mempool \<Rightarrow> bool" where
  "mp_layout mp \<longleftrightarrow> mp_start_address mp \<noteq> 0 \<and> mp_stride mp < 2 ^ 32 \<and>
     unat (mp_start_address mp) + mp_total mp * mp_stride mp < 2 ^ 32"

lemma mp_block_unat:
  assumes "mp_layout mp" and "j \<le> mp_total mp"
  shows "unat (mp_block mp j) = unat (mp_start_address mp) + j * mp_stride mp"
proof -
  have "j * mp_stride mp \<le> mp_total mp * mp_stride mp" using assms(2) by (rule mult_le_mono1)
  then have lt: "unat (mp_start_address mp) + j * mp_stride mp < 2 ^ 32"
    using assms(1) unfolding mp_layout_def by linarith
  have "mp_block mp j = of_nat (unat (mp_start_address mp) + j * mp_stride mp)" by (simp add: mp_block_def)
  then show ?thesis using lt by (simp only: unat_of_nat take_bit_nat_eq_self_iff) (simp add: take_bit_nat_eq_self)
qed

text \<open>Blocks do not overlap.\<close>

lemma mp_blocks_apart:
  assumes "mp_layout mp" and "a \<in> mp_block mp ` {..<mp_total mp}" and "b \<in> mp_block mp ` {..<mp_total mp}" and "a \<noteq> b"
  shows "unat a + mp_stride mp \<le> unat b \<or> unat b + mp_stride mp \<le> unat a"
proof -
  from assms(2,3) obtain i j where ij: "a = mp_block mp i" "b = mp_block mp j" "i < mp_total mp" "j < mp_total mp" by auto
  have u: "unat a = unat (mp_start_address mp) + i * mp_stride mp" "unat b = unat (mp_start_address mp) + j * mp_stride mp"
    using ij mp_block_unat[OF assms(1)] by simp_all
  have step: "Suc m * mp_stride mp \<le> n * mp_stride mp" if "m < n" for m n using that by (intro mult_le_mono1) simp
  have "i \<noteq> j" using ij(1,2) assms(4) by auto
  then show ?thesis using step[of i j] step[of j i] unfolding u by (cases "i < j") auto
qed

lemma mp_block_inside:
  assumes "mp_layout mp" and "b \<in> mp_block mp ` {..<mp_total mp}"
  shows "b \<noteq> 0" and "unat (mp_start_address mp) \<le> unat b"
    and "unat b + mp_stride mp \<le> unat (mp_start_address mp) + mp_total mp * mp_stride mp"
    and "unat (b + 4) = unat b + 4"
proof -
  from assms(2) obtain j where j: "b = mp_block mp j" "j < mp_total mp" by auto
  then have u: "unat b = unat (mp_start_address mp) + j * mp_stride mp" using mp_block_unat[OF assms(1)] by simp
  have st: "unat (mp_start_address mp) \<noteq> 0" using assms(1) by (simp add: mp_layout_def unat_eq_0)
  then show "b \<noteq> 0" using u by auto
  show "unat (mp_start_address mp) \<le> unat b" using u by simp
  have "Suc j * mp_stride mp \<le> mp_total mp * mp_stride mp" using j(2) by (intro mult_le_mono1) simp
  then show e: "unat b + mp_stride mp \<le> unat (mp_start_address mp) + mp_total mp * mp_stride mp" unfolding u by simp
  then have "unat b + 4 < 2 ^ 32" using assms(1) by (simp add: mp_layout_def)
  then show "unat (b + 4) = unat b + 4" by (subst unat_add_lem[THEN iffD1]) simp_all
qed

lemma wchain_upd [simp]: "b \<notin> set bs \<Longrightarrow> wchain (mem(b := v)) p bs = wchain mem p bs"
  by (induction bs arbitrary: p) auto

lemma mp_repD:
  assumes "mp_rep fs mp"
  shows "mp_layout mp" "wchain (mp_mem mp) (mp_block_list mp) fs" "distinct fs" "set fs \<subseteq> mp_block mp ` {..<mp_total mp}"
    "\<And>b. b \<in> mp_block mp ` {..<mp_total mp} \<Longrightarrow> b \<notin> set fs \<Longrightarrow> mp_mem mp b = mp_address mp"
    "unat (mp_block_free_count mp) = length fs"
  using assms unfolding mp_rep_def mp_layout_def by auto

lemma mp_take_ok:
  assumes "mp_rep (b # fs) mp"
  shows "\<exists>mp'. mp_take mp = Some (b + 4, mp') \<and> mp_rep fs mp' \<and> mp_mem mp' b = mp_address mp' \<and>
     mp' = mp\<lparr>mp_block_free_count := mp_block_free_count mp - 1, mp_block_list := mp_block_list mp', mp_mem := mp_mem mp'\<rparr>"
proof -
  note d = mp_repD[OF assms]
  have b: "mp_block_list mp = b" "b \<noteq> 0" "wchain (mp_mem mp) (mp_mem mp b) fs" "b \<notin> set fs" using d(2,3) by auto
  let ?mp = "mp\<lparr>mp_block_free_count := mp_block_free_count mp - 1, mp_block_list := mp_mem mp b,
                 mp_mem := (mp_mem mp)(b := mp_address mp)\<rparr>"
  have "mp_block_free_count mp \<noteq> 0" using d(6) by auto
  then have "unat (mp_block_free_count mp - 1) = length fs" using d(6) by (simp add: unat_minus_one)
  moreover have "mp_block ?mp = mp_block mp" by (rule ext) (simp add: mp_block_def)
  ultimately have "mp_rep fs ?mp" using d b unfolding mp_rep_def mp_layout_def by auto
  then show ?thesis using b by (intro exI[of _ ?mp]) (simp add: mp_take_def)
qed

lemma mp_return_ok:
  assumes "mp_rep fs mp" and "b \<in> mp_block mp ` {..<mp_total mp}" and "b \<notin> set fs"
  shows "mp_rep (b # fs) (mp_return b mp)"
proof -
  note d = mp_repD[OF assms(1)]
  have "card (set (b # fs)) \<le> card (mp_block mp ` {..<mp_total mp})" using d(4) assms(2) by (intro card_mono) auto
  also have "\<dots> \<le> mp_total mp" using card_image_le[of "{..<mp_total mp}" "mp_block mp"] by simp
  finally have "Suc (length fs) \<le> mp_total mp" using d(3) assms(3) by (simp add: distinct_card)
  also have "\<dots> < 2 ^ 32" using unsigned_less[of "mp_block_total_count mp", where ?'a = nat] by simp
  finally have "unat (mp_block_free_count mp + 1) = Suc (length fs)"
    using d(6) by (subst unat_add_lem[THEN iffD1]) simp_all
  moreover have "mp_block (mp_return b mp) = mp_block mp" by (rule ext) (simp add: mp_block_def mp_return_def)
  ultimately show ?thesis using d assms(2,3) mp_block_inside(1)[OF d(1) assms(2)]
    unfolding mp_rep_def mp_layout_def by (auto simp: mp_return_def)
qed

text \<open>A pool starts with all its blocks free, in the order of their addresses.\<close>

lemma mp_block_inj: "mp_layout mp \<Longrightarrow> inj_on (mp_block mp) {..<mp_total mp}"
proof (rule inj_onI)
  fix i j assume a: "mp_layout mp" "i \<in> {..<mp_total mp}" "j \<in> {..<mp_total mp}" "mp_block mp i = mp_block mp j"
  have "i \<le> mp_total mp" "j \<le> mp_total mp" using a(2,3) by simp_all
  then have "unat (mp_start_address mp) + i * mp_stride mp = unat (mp_start_address mp) + j * mp_stride mp"
    unfolding mp_block_unat[OF a(1), symmetric] using a(4) by (simp only: mp_block_unat[OF a(1), symmetric])
  then have "i * mp_stride mp = j * mp_stride mp" by (rule add_left_imp_eq)
  then show "i = j" unfolding mult_cancel2 by linarith
qed

lemma mp_link_loop_nth:
  assumes "inj_on (\<lambda>j. start + of_nat j * stride) {..<n}" and "j < n"
  shows "mp_link_loop start stride n mem (start + of_nat j * stride) = start + of_nat (Suc j) * stride"
  using assms
proof (induction n)
  case (Suc n)
  show ?case
  proof (cases "j = n")
    case False
    then have "start + of_nat j * stride \<noteq> start + of_nat n * stride"
      using Suc.prems by (auto dest: inj_onD[where x = j and y = n])
    moreover have "inj_on (\<lambda>j. start + of_nat j * stride) {..<n}" using Suc.prems(1) by (auto intro: inj_on_subset)
    ultimately show ?thesis using Suc.IH Suc.prems(2) False by simp
  qed (simp add: algebra_simps)
qed simp

lemma mp_link_blocks_ok:
  assumes lay: "mp_layout mp" and tot: "mp_block_total_count mp \<noteq> 0" and fr: "mp_block_free_count mp = mp_block_total_count mp"
  shows "\<exists>mp'. mp_link_blocks mp = Some mp' \<and> mp_rep (map (mp_block mp) [0..<mp_total mp]) mp' \<and>
     mp' = mp\<lparr>mp_block_list := mp_block_list mp', mp_mem := mp_mem mp'\<rparr>"
proof -
  let ?n = "mp_total mp" and ?st = "mp_block_size mp + 4"
  define mem where "mem = (mp_link_loop (mp_start_address mp) ?st ?n (mp_mem mp))(mp_start_address mp + (mp_block_total_count mp - 1) * ?st := 0)"
  let ?mp = "mp\<lparr>mp_mem := mem, mp_block_list := mp_start_address mp\<rparr>"
  have n: "0 < ?n" using tot by (simp add: unat_gt_0)
  have last: "mp_start_address mp + (mp_block_total_count mp - 1) * ?st = mp_block mp (?n - 1)"
    using n by (simp add: mp_block_def of_nat_diff)
  have inj: "inj_on (\<lambda>j. mp_start_address mp + of_nat j * ?st) {..<?n}" using mp_block_inj[OF lay] by (simp add: mp_block_def[abs_def])
  have nx: "mem (mp_block mp j) = (if Suc j = ?n then 0 else mp_block mp (Suc j))" if "j < ?n" for j
  proof -
    have "mp_block mp j \<noteq> mp_block mp (?n - 1)" if "Suc j \<noteq> ?n"
      using that \<open>j < ?n\<close> n inj_onD[OF mp_block_inj[OF lay], of j "?n - 1"] by auto
    moreover have "Suc j = ?n \<Longrightarrow> mp_block mp j = mp_block mp (?n - 1)" by (metis diff_Suc_1)
    moreover have "mp_link_loop (mp_start_address mp) ?st ?n (mp_mem mp) (mp_block mp j) = mp_block mp (Suc j)"
      using mp_link_loop_nth[OF inj that, of "mp_mem mp"] by (simp only: mp_block_def)
    ultimately show ?thesis unfolding mem_def last fun_upd_apply by (simp only: if_True if_False split: if_split) blast
  qed
  have nz: "mp_block mp j \<noteq> 0" if "j < ?n" for j using mp_block_inside(1)[OF lay] that by blast
  have ch: "wchain mem (if i = ?n then 0 else mp_block mp i) (map (mp_block mp) [i..<?n])" if "i \<le> ?n" for i
    using that
  proof (induction rule: inc_induct)
    case base
    then show ?case by simp
  next
    case (step i)
    then have "[i..<?n] = i # [Suc i..<?n]" by (simp add: upt_rec)
    then show ?case using step nx[of i] nz[of i] by (auto split: if_splits)
  qed
  have "mp_block ?mp = mp_block mp" by (rule ext) (simp add: mp_block_def)
  moreover have "mp_start_address mp = mp_block mp 0" by (simp add: mp_block_def)
  moreover have "distinct (map (mp_block mp) [0..<?n])"
    using mp_block_inj[OF lay] by (simp add: distinct_map atLeast0LessThan)
  ultimately have "mp_rep (map (mp_block mp) [0..<?n]) ?mp"
    using lay fr ch[of 0] n unfolding mp_rep_def mp_layout_def by (auto simp: atLeast0LessThan)
  then show ?thesis using tot by (intro exI[of _ ?mp]) (simp add: mp_link_blocks_def Let_def mem_def)
qed

lemma mp_init_ok:
  assumes "rt_mp_init i name start sz block_size mp k = Some (mp', k')" and "start \<noteq> 0"
    and "unat start + unat sz < 2 ^ 32" and "unat block_size + 8 \<le> 2 ^ 32"
  shows "mp_rep (map (mp_block mp') [0..<mp_total mp']) mp'"
proof -
  define sz' bs where "sz' = RT_ALIGN_DOWN sz RT_ALIGN_SIZE" and "bs = RT_ALIGN block_size RT_ALIGN_SIZE"
  define m where "m = mp\<lparr>mp_start_address := start, mp_size := sz', mp_block_size := bs, mp_block_total_count := sz' div (bs + 4),
                   mp_block_free_count := sz' div (bs + 4), mp_suspend_thread_count := 0\<rparr>"
  from assms(1) have l: "mp_link_blocks m = Some mp'"
    by (auto simp: rt_mp_init_def m_def sz'_def bs_def Let_def split: bind_splits)
  have szle: "unat sz' \<le> unat sz" using align_down_unat[of RT_ALIGN_SIZE 2 sz] by (simp add: sz'_def)
  have "unat bs \<le> unat block_size + 3" using align_up_unat[of RT_ALIGN_SIZE 2 block_size] assms(4) by (simp add: bs_def)
  then have b: "unat bs + 4 < 2 ^ 32" using assms(4) by simp
  then have st: "unat (bs + 4) = unat bs + 4" by (subst unat_add_lem[THEN iffD1]) simp_all
  have tot: "unat (sz' div (bs + 4)) * (unat bs + 4) \<le> unat sz'"
    unfolding unat_div st by (rule div_times_less_eq_dividend)
  have "mp_layout m" using assms(2,3) b tot szle by (simp add: mp_layout_def m_def)
  moreover have "mp_block_total_count m \<noteq> 0" using l by (auto simp: mp_link_blocks_def Let_def split: if_splits)
  moreover have "mp_block_free_count m = mp_block_total_count m" by (simp add: m_def)
  ultimately obtain mp'' where e: "mp_link_blocks m = Some mp''" "mp_rep (map (mp_block m) [0..<mp_total m]) mp''"
    "mp'' = m\<lparr>mp_block_list := mp_block_list mp'', mp_mem := mp_mem mp''\<rparr>" using mp_link_blocks_ok by blast
  have "mp_block mp'' = mp_block m" "mp_total mp'' = mp_total m" by (subst e(3), simp add: mp_block_def[abs_def])+
  with e(1,2) l show ?thesis by simp
qed

section \<open>Waiting for a block\<close>

lemma mp_alloc_blocks:
  assumes ok: "kernel_ok k" and none: "mp_block_free_count mp = 0" and tm: "time \<noteq> 0" "time \<noteq> 0x7fffffff"
    and cur: "rt_current_thread k = Some t" "rt_interrupt_nest k = 0" and st: "thread_stat k t = RT_THREAD_READY"
    and other: "thread_stat k j = RT_THREAD_READY" "j \<noteq> t"
  shows "\<exists>k'. rt_mp_alloc i time mp k =
       Some (Blocked, mp\<lparr>mp_suspend_thread_count := mp_suspend_thread_count mp + 1\<rparr>, k') \<and> kernel_ok k' \<and>
     thread_stat k' t = RT_THREAD_SUSPEND \<and> tlists k' (MpQ i) = t # tlists k (MpQ i) \<and>
     (0 < sint time \<longrightarrow> ThreadTimer t \<in> set (rt_timer_list k') \<and>
        tm_timeout_tick (timers k' (ThreadTimer t)) = rt_tick k + time)"
proof -
  define k1 where "k1 = upd_thread t (\<lambda>th. th\<lparr>th_error := RT_EOK\<rparr>) k"
  have ok1: "kernel_ok k1" unfolding k1_def by (rule set_error_ok[OF ok])
  have e1: "thread_stat k1 t = RT_THREAD_READY" "thread_stat k1 j = RT_THREAD_READY" "tlists k1 = tlists k"
    "rt_tick k1 = rt_tick k" "on_list k1 = on_list k" using st other by (simp_all add: k1_def upd_thread_def)
  from suspend_ok[OF ok1 e1(1)] obtain k2 where
    k2: "rt_thread_suspend t k1 = Some (RT_EOK, k2)" "kernel_ok k2" "thread_frame k1 k2" "thread_stat k2 t = RT_THREAD_SUSPEND"
      "on_list k2 = (on_list k1)(t := None)" "\<forall>q. tlists k2 q = remove1 t (tlists k1 q)"
      "threads k2 = (threads k1)(t := (threads k1 t)\<lparr>th_stat := RT_THREAD_SUSPEND OR (th_stat (threads k1 t) AND NOT RT_THREAD_STAT_MASK)\<rparr>)"
    by blast
  have "on_list k t = Some (ReadyQ (thread_prio k t))" using kernel_okD(5)[OF ok, of t] st by (simp add: thread_ok_def)
  then have "t \<notin> set (tlists k (MpQ i))" using lists_ok_mem[OF kernel_okD(4)[OF ok], of t "MpQ i"] by auto
  then have q2: "tlists k2 (MpQ i) = tlists k (MpQ i)" using k2(6) by (simp add: e1 remove1_idem)
  define k3 where "k3 = link_at (MpQ i) [] t (tlists k2 (MpQ i)) k2"
  have ins: "tlist_insert_after (MpQ i) t k2 = Some k3"
    using k2(5) by (simp add: tlist_insert_after_def k3_def link_head_def link_at_def)
  have ok3: "kernel_ok k3" unfolding k3_def using k2 by (intro wait_link_ok) auto
  have e3: "threads k3 = threads k2" "tlists k3 (MpQ i) = t # tlists k (MpQ i)" "rt_tick k3 = rt_tick k2"
    by (simp_all add: k3_def link_at_def q2)
  have st3: "thread_stat k3 t = RT_THREAD_SUSPEND" using k2(4) by (simp only: e3)
  from start_thread_timer_ok[OF ok3 st3 tm(2)] obtain k4 where
    k4: "start_thread_timer t time k3 = Some k4" "kernel_ok k4" "threads k4 = threads k3" "tlists k4 = tlists k3"
      "0 < sint time \<longrightarrow> ThreadTimer t \<in> set (rt_timer_list k4) \<and>
        tm_timeout_tick (timers k4 (ThreadTimer t)) = rt_tick k3 + time"
    by blast
  have rj: "thread_stat k4 j = RT_THREAD_READY" using e1(2) other(2) by (simp add: k4(3) e3 k2(7))
  note so = kernel_okD(1)[OF k4(2)]
  from schedule_defined[OF so ready_listed(2)[OF so rj]] obtain k' where k': "rt_schedule k4 = Some k'" ..
  have "rt_mp_alloc i time mp k = Some (Blocked, mp\<lparr>mp_suspend_thread_count := mp_suspend_thread_count mp + 1\<rparr>, k')"
    using none tm cur k2(1) ins k4(1) k'
    by (simp add: rt_mp_alloc_def mp_alloc_loop_def context_defs k1_def[symmetric] Let_def)
  moreover have "kernel_ok k'" using schedule_kernel_ok[OF k'] k4(2) by simp
  moreover have "thread_stat k' t = RT_THREAD_SUSPEND" using st3 by (simp only: schedule_sel[OF k'] k4(3))
  moreover have "tlists k' (MpQ i) = t # tlists k (MpQ i)" by (simp only: schedule_sel[OF k'] k4(4) e3)
  moreover have "0 < sint time \<longrightarrow> ThreadTimer t \<in> set (rt_timer_list k') \<and>
        tm_timeout_tick (timers k' (ThreadTimer t)) = rt_tick k + time"
    using k4(5) by (simp only: schedule_sel[OF k'] e3(3) thread_frameD(1)[OF k2(3)] e1(4))
  ultimately show ?thesis by blast
qed

lemma timeout_tlists:
  assumes "rt_thread_timeout t k = Some k'" and "lists_ok k" and "\<And>p. q \<noteq> ReadyQ p"
  shows "tlists k' q = remove1 t (tlists k q)"
proof -
  define k1 where "k1 = upd_thread t (\<lambda>th. th\<lparr>th_error := RT_ETIMEOUT\<rparr>) k"
  have l1: "lists_ok k1" "tlists k1 = tlists k" using assms(2) by (simp_all add: k1_def upd_thread_def lists_ok_def)
  from assms(1) obtain k2 where k2: "rt_schedule_insert_thread t (unlink_thread t k1) = Some k2" "rt_schedule k2 = Some k'"
    by (auto simp: rt_thread_timeout_def tlist_remove_def k1_def Let_def split: if_splits bind_splits)
  have "tlists k2 q = tlists (unlink_thread t k1) q"
    using k2(1) assms(3)
    by (auto simp: rt_schedule_insert_thread_def tlist_insert_before_def link_tail_def upd_thread_def Let_def split: if_splits)
  then show ?thesis using unlink_tlists[OF l1(1)] l1(2) by (simp add: schedule_sel[OF k2(2)])
qed

lemma mp_free_ok:
  assumes rep: "mp_rep fs mp" "b \<in> mp_block mp ` {..<mp_total mp}" "b \<notin> set fs" and ok: "kernel_ok k"
    and cnt: "unat (mp_suspend_thread_count mp) = length (tlists k (MpQ i))"
  shows "\<exists>mp' k'. rt_mp_free i (b + 4) mp k = Some (mp', k') \<and> mp_rep (b # fs) mp' \<and> kernel_ok k' \<and>
     unat (mp_suspend_thread_count mp') = length (tlists k' (MpQ i)) \<and>
     (case tlists k (MpQ i) of
        [] \<Rightarrow> k' = k
      | t # ts \<Rightarrow> tlists k' (MpQ i) = ts \<and> thread_stat k' t = RT_THREAD_READY \<and> th_error (threads k' t) = RT_EOK)"
proof -
  note r = mp_return_ok[OF rep]
  have hd: "mp_mem mp b = mp_address mp" using mp_repD(5)[OF rep(1)] rep(2,3) .
  have c: "mp_suspend_thread_count (mp_return b mp) = mp_suspend_thread_count mp" by (simp add: mp_return_def)
  show ?thesis
  proof (cases "tlists k (MpQ i)")
    case Nil
    then have "mp_suspend_thread_count mp = 0" using cnt by (simp add: unat_eq_0)
    then show ?thesis using Nil hd r ok cnt by (simp add: rt_mp_free_def c)
  next
    case (Cons t ts)
    define k1 where "k1 = upd_thread t (\<lambda>th. th\<lparr>th_error := RT_EOK\<rparr>) k"
    have ok1: "kernel_ok k1" unfolding k1_def by (rule set_error_ok[OF ok])
    have tl1: "tlists k1 (MpQ i) = t # ts" using Cons by (simp add: k1_def upd_thread_def)
    have wl: "wait_list (Some (MpQ i))" by simp
    from list_resume_ok[OF ok1 wl tl1] obtain k2 where
      k2: "rt_ipc_list_resume (MpQ i) k1 = Some k2" "kernel_ok k2" "thread_stat k2 t = RT_THREAD_READY"
       "threads k2 = (threads k1)(t := (threads k1 t)\<lparr>th_stat := RT_THREAD_READY OR (th_stat (threads k1 t) AND NOT RT_THREAD_STAT_MASK)\<rparr>)"
       "tlists k2 (MpQ i) = ts" by blast
    from k2(1) tl1 obtain e where e: "rt_thread_resume t k1 = Some (e, k2)" by (auto simp: rt_ipc_list_resume_def)
    note so = kernel_okD(1)[OF k2(2)]
    from schedule_defined[OF so ready_listed(2)[OF so k2(3)]] obtain k' where k': "rt_schedule k2 = Some k'" ..
    let ?mp = "(mp_return b mp)\<lparr>mp_suspend_thread_count := mp_suspend_thread_count mp - 1\<rparr>"
    have nz: "mp_suspend_thread_count mp \<noteq> 0" using cnt Cons by auto
    have "rt_mp_free i (b + 4) mp k = Some (?mp, k')"
      using hd nz Cons e k' by (simp add: rt_mp_free_def c k1_def[symmetric] word_gt_0)
    moreover have "mp_rep (b # fs) ?mp" using r by (simp add: mp_rep_def mp_block_def[abs_def])
    moreover have "kernel_ok k'" using schedule_kernel_ok[OF k'] k2(2) by simp
    moreover have "unat (mp_suspend_thread_count ?mp) = length (tlists k' (MpQ i))"
      using cnt Cons nz by (simp add: schedule_sel[OF k'] k2(5) unat_minus_one)
    moreover have "thread_stat k' t = RT_THREAD_READY" using k2(3) by (simp only: schedule_sel[OF k'])
    moreover have "tlists k' (MpQ i) = ts" "th_error (threads k' t) = RT_EOK"
      by (simp_all add: schedule_sel[OF k'] k2(4,5) k1_def upd_thread_def)
    ultimately show ?thesis using Cons by simp
  qed
qed

text \<open>Detaching a pool wakes every waiter.\<close>

lemma mp_resume_all_eq:
  "rt_ipc_list_resume_all (MpQ i) k = Some k' \<Longrightarrow> kernel_ok k \<Longrightarrow>
   mp_resume_all i mp k =
     Some (mp\<lparr>mp_suspend_thread_count := mp_suspend_thread_count mp - of_nat (length (tlists k (MpQ i)))\<rparr>, k')"
proof (induction "tlists k (MpQ i)" arbitrary: k mp)
  case Nil
  then show ?case by (subst mp_resume_all.simps) (simp add: rt_ipc_list_resume_all.simps[of "MpQ i" k])
next
  case (Cons t ts)
  define k1 where "k1 = upd_thread t (\<lambda>th. th\<lparr>th_error := RT_ERROR\<rparr>) k"
  have ok1: "kernel_ok k1" unfolding k1_def by (rule set_error_ok[OF Cons.prems(2)])
  have tl1: "tlists k1 (MpQ i) = t # ts" using Cons.hyps(2) by (simp add: k1_def upd_thread_def)
  have wl: "wait_list (Some (MpQ i))" by simp
  from list_resume_ok[OF ok1 wl tl1] obtain k2 where
    k2: "rt_ipc_list_resume (MpQ i) k1 = Some k2" "kernel_ok k2" "tlists k2 (MpQ i) = ts" by blast
  from k2(1) tl1 obtain e where e: "rt_thread_resume t k1 = Some (e, k2)" by (auto simp: rt_ipc_list_resume_def)
  have tl: "tlists k (MpQ i) = t # ts" using Cons.hyps(2) by simp
  have "rt_ipc_list_resume_all (MpQ i) k2 = Some k'"
    using Cons.prems(1) by (simp add: rt_ipc_list_resume_all.simps[of "MpQ i" k] tl k1_def[symmetric] e)
  from Cons.hyps(1)[OF _ this k2(2)] k2(3)
  have "mp_resume_all i (mp\<lparr>mp_suspend_thread_count := mp_suspend_thread_count mp - 1\<rparr>) k2 =
      Some (mp\<lparr>mp_suspend_thread_count := mp_suspend_thread_count mp - 1 - of_nat (length ts)\<rparr>, k')" by simp
  then show ?case by (subst mp_resume_all.simps) (simp add: tl k1_def[symmetric] e algebra_simps)
qed

lemma mp_detach_ok:
  assumes "kernel_ok k" and "unat (mp_suspend_thread_count mp) = length (tlists k (MpQ i))"
  shows "\<exists>mp' k'. rt_mp_detach i mp k = Some (mp', k') \<and> mp_suspend_thread_count mp' = 0 \<and>
     tlists k' (MpQ i) = [] \<and> (\<forall>t \<in> set (tlists k (MpQ i)). thread_stat k' t = RT_THREAD_READY \<and> th_error (threads k' t) = RT_ERROR)"
proof -
  have wl: "wait_list (Some (MpQ i))" by simp
  from resume_all_ok[OF assms(1) wl] obtain k1 where
    k1: "rt_ipc_list_resume_all (MpQ i) k = Some k1" "tlists k1 (MpQ i) = []"
      "\<forall>t \<in> set (tlists k (MpQ i)). thread_stat k1 t = RT_THREAD_READY \<and> th_error (threads k1 t) = RT_ERROR" by blast
  have "mp_suspend_thread_count mp = of_nat (length (tlists k (MpQ i)))" by (simp flip: assms(2))
  with mp_resume_all_eq[OF k1(1) assms(1), of mp] k1(2,3) show ?thesis by (simp add: rt_mp_detach_def rt_object_detach_def)
qed

section \<open>Properties\<close>

text \<open>Two blocks of 12 bytes; the first one is in use in the second pool.\<close>

definition ex_mp :: rt_mempool where
  "ex_mp = \<lparr>mp_address = 0x900, mp_start_address = 0x1000, mp_size = 32, mp_block_size = 12, mp_block_list = 0x1000,
     mp_block_total_count = 2, mp_block_free_count = 2, mp_suspend_thread_count = 0,
     mp_mem = (\<lambda>_. 0)(0x1000 := 0x1010)\<rparr>"

definition ex_mp_used :: rt_mempool where
  "ex_mp_used = ex_mp\<lparr>mp_block_list := 0x1010, mp_block_free_count := 1, mp_suspend_thread_count := 1,
     mp_mem := (\<lambda>_. 0)(0x1000 := 0x900)\<rparr>"

definition ex_mp_kernel :: kernel where
  "ex_mp_kernel = link_at (MpQ 0) [] 1 [] ex_kernel"

lemma ex_mp_block: "mp_block ex_mp ` {..<mp_total ex_mp} = {0x1000, 0x1010}"
    "mp_block ex_mp_used ` {..<mp_total ex_mp_used} = {0x1000, 0x1010}"
proof -
  have "{..<2 :: nat} = {0, 1}" by auto
  then show "mp_block ex_mp ` {..<mp_total ex_mp} = {0x1000, 0x1010}"
    "mp_block ex_mp_used ` {..<mp_total ex_mp_used} = {0x1000, 0x1010}"
    by (auto simp: mp_block_def ex_mp_def ex_mp_used_def)
qed

lemma ex_mp_rep: "mp_rep [0x1000, 0x1010] ex_mp" "mp_rep [0x1010] ex_mp_used"
  unfolding mp_rep_def ex_mp_block by (auto simp: ex_mp_def ex_mp_used_def)

lemma ex_mp_kernel_ok: "kernel_ok ex_mp_kernel" "tlists ex_mp_kernel (MpQ 0) = [1]"
  "thread_stat ex_mp_kernel 1 = RT_THREAD_SUSPEND" "\<not> timer_linked ex_mp_kernel (ThreadTimer 1)"
proof -
  have "thread_stat ex_kernel 1 = RT_THREAD_SUSPEND" "on_list ex_kernel 1 = None" "tlists ex_kernel (MpQ 0) = []"
    by (simp_all add: ex_kernel_def ex_thread_def)
  note e = this
  show "kernel_ok ex_mp_kernel"
    unfolding ex_mp_kernel_def by (rule wait_link_ok[OF ex_kernel_ok e(1,2)]) (simp_all add: e(3))
  show "thread_stat ex_mp_kernel 1 = RT_THREAD_SUSPEND" by (simp add: ex_mp_kernel_def link_at_def ex_kernel_def ex_thread_def)
  show "tlists ex_mp_kernel (MpQ 0) = [1]" "\<not> timer_linked ex_mp_kernel (ThreadTimer 1)"
    by (simp_all add: ex_mp_kernel_def link_at_def timer_linked_def ex_kernel_def)
qed

text \<open>C37: While a block is free an allocation returns at once with the first of them: it lies
  inside the pool, overlaps no block in use, and is marked with its pool; the other blocks
  stay as they were.\<close>

theorem mp_alloc_fresh_block:
  assumes "mp_rep (b # fs) mp"
  shows "\<exists>mp'. rt_mp_alloc i time mp k = Some (Return (Some (b + 4)), mp', k) \<and> mp_rep fs mp' \<and>
     mp_mem mp' b = mp_address mp' \<and>
     unat (mp_start_address mp) \<le> unat b \<and>
     unat b + mp_stride mp \<le> unat (mp_start_address mp) + mp_total mp * mp_stride mp \<and>
     (\<forall>a \<in> mp_block mp ` {..<mp_total mp} - set (b # fs).
        unat a + mp_stride mp \<le> unat b \<or> unat b + mp_stride mp \<le> unat a)"
proof -
  note d = mp_repD[OF assms]
  have b: "b \<in> mp_block mp ` {..<mp_total mp}" using d(4) by simp
  from mp_take_ok[OF assms] obtain mp' where
    mp': "mp_take mp = Some (b + 4, mp')" "mp_rep fs mp'" "mp_mem mp' b = mp_address mp'" by blast
  have "mp_block_free_count mp \<noteq> 0" using d(6) by auto
  then have "rt_mp_alloc i time mp k = Some (Return (Some (b + 4)), mp', k)"
    by (simp add: rt_mp_alloc_def mp_alloc_loop_def mp'(1))
  moreover have "\<forall>a \<in> mp_block mp ` {..<mp_total mp} - set (b # fs).
        unat a + mp_stride mp \<le> unat b \<or> unat b + mp_stride mp \<le> unat a"
    using mp_blocks_apart[OF d(1) _ b] by auto
  ultimately show ?thesis using mp'(2,3) mp_block_inside[OF d(1) b] by blast
qed

theorem mp_alloc_fresh_block_witness:
  "\<exists>mp'. rt_mp_alloc 0 0 ex_mp ex_kernel = Some (Return (Some 0x1004), mp', ex_kernel) \<and> mp_rep [0x1010] mp'"
  using mp_alloc_fresh_block[OF ex_mp_rep(1), of 0 0 ex_kernel] by auto

text \<open>Freeing a block puts it back at the front of the free list and wakes the first waiting
  thread without an error, provided the pool counts its waiters right.\<close>

theorem mp_free_wakes_waiter:
  assumes "mp_rep fs mp" and "b \<in> mp_block mp ` {..<mp_total mp}" and "b \<notin> set fs" and "kernel_ok k"
    and "unat (mp_suspend_thread_count mp) = length (tlists k (MpQ i))"
  shows "\<exists>mp' k'. rt_mp_free i (b + 4) mp k = Some (mp', k') \<and> mp_rep (b # fs) mp' \<and> kernel_ok k' \<and>
     unat (mp_suspend_thread_count mp') = length (tlists k' (MpQ i)) \<and>
     (case tlists k (MpQ i) of
        [] \<Rightarrow> k' = k
      | t # ts \<Rightarrow> tlists k' (MpQ i) = ts \<and> thread_stat k' t = RT_THREAD_READY \<and> th_error (threads k' t) = RT_EOK)"
  by (rule mp_free_ok[OF assms])

theorem mp_free_wakes_waiter_witness:
  "\<exists>mp' k'. rt_mp_free 0 0x1004 ex_mp_used ex_mp_kernel = Some (mp', k') \<and> mp_rep [0x1000, 0x1010] mp' \<and>
     tlists k' (MpQ 0) = [] \<and> thread_stat k' 1 = RT_THREAD_READY"
proof -
  have "0x1000 \<in> mp_block ex_mp_used ` {..<mp_total ex_mp_used}" "0x1000 \<notin> set [0x1010 :: u32]" unfolding ex_mp_block by simp_all
  moreover have "unat (mp_suspend_thread_count ex_mp_used) = length (tlists ex_mp_kernel (MpQ 0))"
    by (simp add: ex_mp_kernel_ok(2)) (simp add: ex_mp_used_def)
  ultimately show ?thesis
    using mp_free_wakes_waiter[OF ex_mp_rep(2) _ _ ex_mp_kernel_ok(1), where b = "0x1000" and i = 0] by (auto simp: ex_mp_kernel_ok(2))
qed

text \<open>A thread that gives up waiting for a block after its time limit leaves the wait list but
  not the count of waiters: the next free of any block then takes the empty list for a
  waiting thread.\<close>

theorem mp_timeout_leaves_count:
  assumes "kernel_ok k" and "tlists k (MpQ i) = [t]" and "\<not> timer_linked k (ThreadTimer t)"
    and "mp_suspend_thread_count mp = 1" and "mp_mem mp b = mp_address mp"
  shows "\<exists>k'. rt_thread_timeout t k = Some k' \<and> tlists k' (MpQ i) = [] \<and>
     rt_mp_alloc_resumed i time before t mp k' = Some (Return None, mp, k') \<and>
     rt_mp_free i (b + 4) mp k' = None"
proof -
  have wl: "wait_list (Some (MpQ i))" by simp
  have st: "thread_stat k t = RT_THREAD_SUSPEND" using waiter_suspended[OF assms(1) _ wl, of t] assms(2) by simp
  from timeout_ok[OF kernel_okD(1,3)[OF assms(1)] st assms(3)] obtain k' where
    k': "rt_thread_timeout t k = Some k'" "th_error (threads k' t) = RT_ETIMEOUT" by blast
  have "tlists k' (MpQ i) = []" using timeout_tlists[OF k'(1) kernel_okD(4)[OF assms(1)], of "MpQ i"] assms(2) by simp
  then show ?thesis using k' assms(4,5) by (simp add: rt_mp_free_def mp_return_def rt_mp_alloc_resumed_def)
qed

theorem mp_timeout_leaves_count_witness:
  "\<exists>k'. rt_thread_timeout 1 ex_mp_kernel = Some k' \<and> rt_mp_free 0 0x1004 ex_mp_used k' = None"
proof -
  have "mp_suspend_thread_count ex_mp_used = 1" "mp_mem ex_mp_used 0x1000 = mp_address ex_mp_used"
    by (simp_all add: ex_mp_used_def ex_mp_def)
  from mp_timeout_leaves_count[OF ex_mp_kernel_ok(1,2,4) this, of 5 0] show ?thesis by auto
qed

end
