(* ===== verification/Memheap.thy ===== *)
theory Memheap
  imports Mempool
begin

text \<open>
  rt-thread/src/memheap.c: the heap behind rt_malloc and the tightly coupled memory heap of
  drivers/board.c.  The pool is cut into blocks, each with a header; all headers are linked in
  the order of their addresses and the free ones also in a free list.  The headers are records
  in a memory indexed by 32-bit addresses, so every pointer assignment of the code is one update
  of one field.  The lock of a heap is a semaphore of the kernel.
\<close>

section \<open>Operations\<close>

record rt_memheap_item =
  it_magic :: u32
  it_pool_ptr :: u32
  it_next :: u32
  it_prev :: u32
  it_next_free :: u32
  it_prev_free :: u32

text \<open>\<open>mh_address\<close> and \<open>mh_free_header\<close> are the addresses of the control block and of the free list
  header in it; \<open>mh_data\<close> are the bytes of the blocks.\<close>

record rt_memheap =
  mh_address :: u32
  mh_free_header :: u32
  mh_start_addr :: u32
  mh_pool_size :: u32
  mh_available_size :: u32
  mh_max_used_size :: u32
  mh_block_list :: u32
  mh_free_list :: u32
  mh_items :: "u32 \<Rightarrow> rt_memheap_item"
  mh_data :: "u32 \<Rightarrow> u8"

abbreviation RT_MEMHEAP_MAGIC :: u32 where "RT_MEMHEAP_MAGIC \<equiv> 0x1ea01ea0"
abbreviation RT_MEMHEAP_MASK :: u32 where "RT_MEMHEAP_MASK \<equiv> 0xfffffffe"
abbreviation RT_MEMHEAP_USED :: u32 where "RT_MEMHEAP_USED \<equiv> 0x01"
abbreviation RT_MEMHEAP_MINIALLOC :: u32 where "RT_MEMHEAP_MINIALLOC \<equiv> 12"

text \<open>The size of a header: six words.\<close>

abbreviation RT_MEMHEAP_SIZE :: u32 where "RT_MEMHEAP_SIZE \<equiv> 24"

definition RT_MEMHEAP_IS_USED :: "u32 \<Rightarrow> rt_memheap \<Rightarrow> bool" where
  "RT_MEMHEAP_IS_USED p h \<longleftrightarrow> it_magic (mh_items h p) AND RT_MEMHEAP_USED \<noteq> 0"

definition MEMITEM_SIZE :: "u32 \<Rightarrow> rt_memheap \<Rightarrow> u32" where
  "MEMITEM_SIZE p h = it_next (mh_items h p) - p - RT_MEMHEAP_SIZE"

definition upd_item :: "u32 \<Rightarrow> (rt_memheap_item \<Rightarrow> rt_memheap_item) \<Rightarrow> rt_memheap \<Rightarrow> rt_memheap" where
  "upd_item p f h = h\<lparr>mh_items := (mh_items h)(p := f (mh_items h p))\<rparr>"

subsection \<open>The pointer sequences\<close>

text \<open>\<open>p->next_free->prev_free = p->prev_free; p->prev_free->next_free = p->next_free\<close>.\<close>

definition mh_free_unlink :: "u32 \<Rightarrow> rt_memheap \<Rightarrow> rt_memheap" where
  "mh_free_unlink p h =
     (let h = upd_item (it_next_free (mh_items h p)) (\<lambda>x. x\<lparr>it_prev_free := it_prev_free (mh_items h p)\<rparr>) h
      in upd_item (it_prev_free (mh_items h p)) (\<lambda>x. x\<lparr>it_next_free := it_next_free (mh_items h p)\<rparr>) h)"

text \<open>\<open>p->next_free = p->prev_free = RT_NULL\<close>.\<close>

definition mh_free_clear :: "u32 \<Rightarrow> rt_memheap \<Rightarrow> rt_memheap" where
  "mh_free_clear p h = upd_item p (\<lambda>x. x\<lparr>it_next_free := 0, it_prev_free := 0\<rparr>) h"

text \<open>The four assignments that put p at the front of the free list.\<close>

definition mh_free_insert :: "u32 \<Rightarrow> rt_memheap \<Rightarrow> rt_memheap" where
  "mh_free_insert p h =
     (let h = upd_item p (\<lambda>x. x\<lparr>it_next_free := it_next_free (mh_items h (mh_free_list h))\<rparr>) h;
          h = upd_item p (\<lambda>x. x\<lparr>it_prev_free := mh_free_list h\<rparr>) h;
          h = upd_item (it_next_free (mh_items h (mh_free_list h))) (\<lambda>x. x\<lparr>it_prev_free := p\<rparr>) h
      in upd_item (mh_free_list h) (\<lambda>x. x\<lparr>it_next_free := p\<rparr>) h)"

text \<open>A new free block with its header at n behind the block p.\<close>

definition mh_split :: "u32 \<Rightarrow> u32 \<Rightarrow> rt_memheap \<Rightarrow> rt_memheap" where
  "mh_split p n h =
     (let h = upd_item n (\<lambda>x. x\<lparr>it_magic := RT_MEMHEAP_MAGIC\<rparr>) h;
          h = upd_item n (\<lambda>x. x\<lparr>it_pool_ptr := mh_address h\<rparr>) h;
          h = upd_item n (\<lambda>x. x\<lparr>it_prev := p\<rparr>) h;
          h = upd_item n (\<lambda>x. x\<lparr>it_next := it_next (mh_items h p)\<rparr>) h;
          h = upd_item (it_next (mh_items h p)) (\<lambda>x. x\<lparr>it_prev := n\<rparr>) h
      in upd_item p (\<lambda>x. x\<lparr>it_next := n\<rparr>) h)"

text \<open>The block n is absorbed by the block p in front of it.\<close>

definition mh_join :: "u32 \<Rightarrow> u32 \<Rightarrow> rt_memheap \<Rightarrow> rt_memheap" where
  "mh_join p n h =
     (let q = it_next (mh_items h n);
          h = upd_item p (\<lambda>x. x\<lparr>it_next := q\<rparr>) h
      in upd_item q (\<lambda>x. x\<lparr>it_prev := p\<rparr>) h)"

text \<open>\<open>if (heap->pool_size - heap->available_size > heap->max_used_size) ...\<close>\<close>

definition mh_account :: "u32 \<Rightarrow> rt_memheap \<Rightarrow> rt_memheap" where
  "mh_account available h =
     (let h = h\<lparr>mh_available_size := available\<rparr>
      in if mh_pool_size h - mh_available_size h > mh_max_used_size h
         then h\<lparr>mh_max_used_size := mh_pool_size h - mh_available_size h\<rparr> else h)"

subsection \<open>Initialisation\<close>

definition mh_blank_item :: "u32 \<Rightarrow> u32 \<Rightarrow> rt_memheap_item" where
  "mh_blank_item heap p =
     \<lparr>it_magic = RT_MEMHEAP_MAGIC, it_pool_ptr = heap, it_next = 0, it_prev = 0, it_next_free = p, it_prev_free = p\<rparr>"

definition mh_setup :: "u32 \<Rightarrow> u32 \<Rightarrow> rt_memheap \<Rightarrow> rt_memheap" where
  "mh_setup start_addr sz h =
     (let pool = RT_ALIGN_DOWN sz RT_ALIGN_SIZE;
          avail = pool - 2 * RT_MEMHEAP_SIZE;
          h = h\<lparr>mh_start_addr := start_addr, mh_pool_size := pool, mh_available_size := avail,
                mh_max_used_size := pool - avail\<rparr>;
          h = upd_item (mh_free_header h) (\<lambda>_. mh_blank_item (mh_address h) (mh_free_header h)) h;
          h = h\<lparr>mh_free_list := mh_free_header h\<rparr>;
          h = upd_item start_addr (\<lambda>_. mh_blank_item (mh_address h) start_addr) h;
          tail = start_addr + mh_available_size h + RT_MEMHEAP_SIZE;
          h = upd_item start_addr (\<lambda>x. x\<lparr>it_next := tail, it_prev := tail\<rparr>) h;
          h = h\<lparr>mh_block_list := start_addr\<rparr>;
          h = mh_free_insert start_addr h
      in upd_item tail (\<lambda>_. \<lparr>it_magic = RT_MEMHEAP_MAGIC OR RT_MEMHEAP_USED, it_pool_ptr = mh_address h,
                             it_next = start_addr, it_prev = start_addr, it_next_free = 0, it_prev_free = 0\<rparr>) h)"

text \<open>lock is the semaphore of the heap.\<close>

definition rt_memheap_init ::
  "nat \<Rightarrow> nat \<Rightarrow> u8 list \<Rightarrow> u32 \<Rightarrow> u32 \<Rightarrow> rt_memheap \<Rightarrow> kernel \<Rightarrow> (rt_memheap \<times> kernel) option" where
  "rt_memheap_init i lock name start_addr sz h k =
     do { k \<leftarrow> rt_object_init (ObjMemHeap i) name k;
          let h = mh_setup start_addr sz h;
          k \<leftarrow> rt_sem_init lock name 1 RT_IPC_FLAG_FIFO k;
          Some (h, k) }"

definition rt_memheap_detach :: "nat \<Rightarrow> nat \<Rightarrow> kernel \<Rightarrow> kernel" where
  "rt_memheap_detach i lock k = rt_object_detach (ObjMemHeap i) (rt_object_detach (ObjSem lock) k)"

subsection \<open>Allocation\<close>

text \<open>The loop over the free list: the size of the last block it looked at and where it stopped.\<close>

partial_function (option) mh_search :: "u32 \<Rightarrow> u32 \<Rightarrow> u32 \<Rightarrow> rt_memheap \<Rightarrow> (u32 \<times> u32) option" where
  "mh_search sz free_size p h =
     (if p \<noteq> mh_free_list h \<and> free_size < sz
      then let free_size = MEMITEM_SIZE p h
           in mh_search sz free_size (if free_size < sz then it_next_free (mh_items h p) else p) h
      else Some (free_size, p))"

definition mh_request :: "u32 \<Rightarrow> u32" where
  "mh_request sz = (let sz = RT_ALIGN sz RT_ALIGN_SIZE in if sz < RT_MEMHEAP_MINIALLOC then RT_MEMHEAP_MINIALLOC else sz)"

definition mh_take :: "u32 \<Rightarrow> u32 \<Rightarrow> u32 \<Rightarrow> rt_memheap \<Rightarrow> rt_memheap" where
  "mh_take sz free_size p h =
     (let h = (if free_size \<ge> sz + RT_MEMHEAP_SIZE + RT_MEMHEAP_MINIALLOC
               then let n = p + sz + RT_MEMHEAP_SIZE;
                        h = mh_split p n h;
                        h = mh_free_clear p (mh_free_unlink p h);
                        h = mh_free_insert n h
                    in mh_account (mh_available_size h - sz - RT_MEMHEAP_SIZE) h
               else let h = mh_account (mh_available_size h - free_size) h
                    in mh_free_clear p (mh_free_unlink p h))
      in upd_item p (\<lambda>x. x\<lparr>it_magic := it_magic x OR RT_MEMHEAP_USED\<rparr>) h)"

text \<open>What is done under the lock.\<close>

definition mh_alloc_locked :: "u32 \<Rightarrow> rt_memheap \<Rightarrow> (u32 option \<times> rt_memheap) option" where
  "mh_alloc_locked sz h =
     do { (free_size, p) \<leftarrow> mh_search sz 0 (it_next_free (mh_items h (mh_free_list h))) h;
          if free_size \<ge> sz then Some (Some (p + RT_MEMHEAP_SIZE), mh_take sz free_size p h)
          else Some (None, h) }"

abbreviation FOREVER :: u32 where "FOREVER \<equiv> 0xffffffff"

text \<open>The end of rt_memheap_alloc, once the lock was taken or not.\<close>

definition mh_alloc_taken :: "nat \<Rightarrow> rt_err \<Rightarrow> u32 \<Rightarrow> rt_memheap \<Rightarrow> kernel \<Rightarrow> (u32 option outcome \<times> rt_memheap \<times> kernel) option" where
  "mh_alloc_taken lock result sz h k =
     (if result \<noteq> RT_EOK then Some (Return None, h, rt_set_errno result k)
      else do { (p, h) \<leftarrow> mh_alloc_locked sz h;
                k \<leftarrow> rt_sem_release lock k;
                Some (Return p, h, k) })"

definition rt_memheap_alloc :: "nat \<Rightarrow> u32 \<Rightarrow> rt_memheap \<Rightarrow> kernel \<Rightarrow> (u32 option outcome \<times> rt_memheap \<times> kernel) option" where
  "rt_memheap_alloc lock sz h k =
     (let sz = mh_request sz
      in if sz < mh_available_size h
         then do { (r, k) \<leftarrow> rt_sem_take lock FOREVER k;
                   case r of Blocked \<Rightarrow> Some (Blocked, h, k) | Return e \<Rightarrow> mh_alloc_taken lock e sz h k }
         else Some (Return None, h, k))"

definition rt_memheap_alloc_resumed ::
  "nat \<Rightarrow> tid \<Rightarrow> u32 \<Rightarrow> rt_memheap \<Rightarrow> kernel \<Rightarrow> (u32 option outcome \<times> rt_memheap \<times> kernel) option" where
  "rt_memheap_alloc_resumed lock t sz h k = mh_alloc_taken lock (rt_sem_take_resumed t k) (mh_request sz) h k"

subsection \<open>Freeing\<close>

text \<open>What is done under the lock with the header of the block.\<close>

definition mh_free_locked :: "u32 \<Rightarrow> rt_memheap \<Rightarrow> rt_memheap" where
  "mh_free_locked header_ptr h =
     (let h = upd_item header_ptr (\<lambda>x. x\<lparr>it_magic := it_magic x AND NOT RT_MEMHEAP_USED\<rparr>) h;
          h = h\<lparr>mh_available_size := mh_available_size h + MEMITEM_SIZE header_ptr h\<rparr>;
          prev = it_prev (mh_items h header_ptr);
          merge_left = \<not> RT_MEMHEAP_IS_USED prev h;
          h = (if merge_left
               then mh_join prev header_ptr (h\<lparr>mh_available_size := mh_available_size h + RT_MEMHEAP_SIZE\<rparr>)
               else h);
          header_ptr = (if merge_left then prev else header_ptr);
          new_ptr = it_next (mh_items h header_ptr);
          h = (if \<not> RT_MEMHEAP_IS_USED new_ptr h
               then mh_free_unlink new_ptr
                      (mh_join header_ptr new_ptr (h\<lparr>mh_available_size := mh_available_size h + RT_MEMHEAP_SIZE\<rparr>))
               else h)
      in if merge_left then h else mh_free_insert header_ptr h)"

definition mh_free_taken :: "nat \<Rightarrow> rt_err \<Rightarrow> u32 \<Rightarrow> rt_memheap \<Rightarrow> kernel \<Rightarrow> (unit outcome \<times> rt_memheap \<times> kernel) option" where
  "mh_free_taken lock result header_ptr h k =
     (if result \<noteq> RT_EOK then Some (Return (), h, rt_set_errno result k)
      else do { k \<leftarrow> rt_sem_release lock k;
                Some (Return (), mh_free_locked header_ptr h, k) })"

text \<open>A block of another heap is not freed here.\<close>

definition rt_memheap_free :: "nat \<Rightarrow> u32 \<Rightarrow> rt_memheap \<Rightarrow> kernel \<Rightarrow> (unit outcome \<times> rt_memheap \<times> kernel) option" where
  "rt_memheap_free lock ptr h k =
     (if ptr = 0 then Some (Return (), h, k)
      else let header_ptr = ptr - RT_MEMHEAP_SIZE
           in if it_magic (mh_items h header_ptr) AND RT_MEMHEAP_MASK = RT_MEMHEAP_MAGIC \<and>
                 it_magic (mh_items h header_ptr) AND RT_MEMHEAP_USED \<noteq> 0 \<and>
                 it_magic (mh_items h (it_next (mh_items h header_ptr))) AND RT_MEMHEAP_MASK = RT_MEMHEAP_MAGIC \<and>
                 it_pool_ptr (mh_items h header_ptr) = mh_address h
              then do { (r, k) \<leftarrow> rt_sem_take lock FOREVER k;
                        case r of Blocked \<Rightarrow> Some (Blocked, h, k) | Return e \<Rightarrow> mh_free_taken lock e header_ptr h k }
              else None)"

subsection \<open>Resizing\<close>

text \<open>\<open>rt_memcpy(dst, src, n)\<close> on the bytes of the blocks.\<close>

definition mh_copy :: "u32 \<Rightarrow> u32 \<Rightarrow> u32 \<Rightarrow> rt_memheap \<Rightarrow> rt_memheap" where
  "mh_copy dst src n h =
     h\<lparr>mh_data := (\<lambda>a. if a - dst < n then mh_data h (src + (a - dst)) else mh_data h a)\<rparr>"

text \<open>Growing into the free block behind: whether it could be done.\<close>

definition mh_grow_locked :: "u32 \<Rightarrow> u32 \<Rightarrow> u32 \<Rightarrow> rt_memheap \<Rightarrow> (bool \<times> rt_memheap) option" where
  "mh_grow_locked ptr newsize oldsize h =
     (let header_ptr = ptr - RT_MEMHEAP_SIZE; next_ptr = it_next (mh_items h header_ptr)
      in if \<not> next_ptr > header_ptr then None
         else if \<not> RT_MEMHEAP_IS_USED next_ptr h \<and>
                 MEMITEM_SIZE next_ptr h + oldsize > newsize + RT_MEMHEAP_MINIALLOC
         then let h = mh_account (mh_available_size h - (newsize - oldsize)) h;
                  h = mh_free_unlink next_ptr h;
                  h = mh_join (it_prev (mh_items h next_ptr)) next_ptr h;
                  new_ptr = ptr + newsize;
                  h = mh_split header_ptr new_ptr h
              in Some (True, mh_free_insert new_ptr h)
         else Some (False, h))"

text \<open>Giving the end of a block back.\<close>

definition mh_shrink_locked :: "u32 \<Rightarrow> u32 \<Rightarrow> rt_memheap \<Rightarrow> rt_memheap" where
  "mh_shrink_locked ptr newsize h =
     (let header_ptr = ptr - RT_MEMHEAP_SIZE;
          new_ptr = header_ptr + newsize + RT_MEMHEAP_SIZE;
          h = mh_split header_ptr new_ptr h;
          free_ptr = it_next (mh_items h new_ptr);
          h = (if \<not> RT_MEMHEAP_IS_USED free_ptr h
               then mh_free_unlink free_ptr
                      (mh_join new_ptr free_ptr (h\<lparr>mh_available_size := mh_available_size h - MEMITEM_SIZE free_ptr h\<rparr>))
               else h);
          h = mh_free_insert new_ptr h
      in h\<lparr>mh_available_size := mh_available_size h + MEMITEM_SIZE new_ptr h\<rparr>)"

definition mh_realloc_move ::
  "nat \<Rightarrow> u32 option \<Rightarrow> u32 \<Rightarrow> u32 \<Rightarrow> u32 \<Rightarrow> rt_memheap \<Rightarrow> kernel \<Rightarrow> (u32 option outcome \<times> rt_memheap \<times> kernel) option" where
  "mh_realloc_move lock new_ptr ptr newsize oldsize h k =
     (case new_ptr of
        None \<Rightarrow> Some (Return None, h, k)
      | Some n \<Rightarrow>
          do { (r, h, k) \<leftarrow> rt_memheap_free lock ptr (mh_copy n ptr (if oldsize < newsize then oldsize else newsize) h) k;
               Some (case r of Blocked \<Rightarrow> Blocked | Return _ \<Rightarrow> Return (Some n), h, k) })"

definition mh_realloc_grow ::
  "nat \<Rightarrow> rt_err \<Rightarrow> u32 \<Rightarrow> u32 \<Rightarrow> u32 \<Rightarrow> rt_memheap \<Rightarrow> kernel \<Rightarrow> (u32 option outcome \<times> rt_memheap \<times> kernel) option" where
  "mh_realloc_grow lock result ptr newsize oldsize h k =
     (if result \<noteq> RT_EOK then Some (Return None, h, rt_set_errno result k)
      else do { (grown, h) \<leftarrow> mh_grow_locked ptr newsize oldsize h;
                k \<leftarrow> rt_sem_release lock k;
                if grown then Some (Return (Some ptr), h, k)
                else do { (r, h, k) \<leftarrow> rt_memheap_alloc lock newsize h k;
                          case r of
                            Blocked \<Rightarrow> Some (Blocked, h, k)
                          | Return p \<Rightarrow> mh_realloc_move lock p ptr newsize oldsize h k } })"

definition mh_realloc_shrink ::
  "nat \<Rightarrow> rt_err \<Rightarrow> u32 \<Rightarrow> u32 \<Rightarrow> rt_memheap \<Rightarrow> kernel \<Rightarrow> (u32 option outcome \<times> rt_memheap \<times> kernel) option" where
  "mh_realloc_shrink lock result ptr newsize h k =
     (if result \<noteq> RT_EOK then Some (Return None, h, rt_set_errno result k)
      else do { k \<leftarrow> rt_sem_release lock k;
                Some (Return (Some ptr), mh_shrink_locked ptr newsize h, k) })"

definition rt_memheap_realloc ::
  "nat \<Rightarrow> u32 \<Rightarrow> u32 \<Rightarrow> rt_memheap \<Rightarrow> kernel \<Rightarrow> (u32 option outcome \<times> rt_memheap \<times> kernel) option" where
  "rt_memheap_realloc lock ptr newsize h k =
     (if newsize = 0
      then do { (r, h, k) \<leftarrow> rt_memheap_free lock ptr h k;
                Some (case r of Blocked \<Rightarrow> Blocked | Return _ \<Rightarrow> Return None, h, k) }
      else let newsize = mh_request newsize; oldsize = MEMITEM_SIZE (ptr - RT_MEMHEAP_SIZE) h
           in if ptr = 0 then rt_memheap_alloc lock newsize h k
              else if newsize > oldsize
              then do { (r, k) \<leftarrow> rt_sem_take lock FOREVER k;
                        case r of
                          Blocked \<Rightarrow> Some (Blocked, h, k)
                        | Return e \<Rightarrow> mh_realloc_grow lock e ptr newsize oldsize h k }
              else if newsize + RT_MEMHEAP_SIZE + RT_MEMHEAP_MINIALLOC \<ge> oldsize then Some (Return (Some ptr), h, k)
              else do { (r, k) \<leftarrow> rt_sem_take lock FOREVER k;
                        case r of
                          Blocked \<Rightarrow> Some (Blocked, h, k)
                        | Return e \<Rightarrow> mh_realloc_shrink lock e ptr newsize h k })"

section \<open>The shape of a heap\<close>

definition blk :: "rt_memheap \<Rightarrow> u32 lstore" where
  "blk h = \<lparr>lnext = \<lambda>a. it_next (mh_items h a), lprev = \<lambda>a. it_prev (mh_items h a)\<rparr>"

definition fre :: "rt_memheap \<Rightarrow> u32 lstore" where
  "fre h = \<lparr>lnext = \<lambda>a. it_next_free (mh_items h a), lprev = \<lambda>a. it_prev_free (mh_items h a)\<rparr>"

abbreviation apart :: "u32 \<Rightarrow> u32 \<Rightarrow> bool" where
  "apart a b \<equiv> unat a + 24 \<le> unat b"

text \<open>The blocks from the first one b to the tail, in the order of their addresses.\<close>

definition mh_blocks :: "u32 \<Rightarrow> u32 list \<Rightarrow> rt_memheap \<Rightarrow> bool" where
  "mh_blocks b bs h \<longleftrightarrow>
     ring (blk h) b bs \<and> bs \<noteq> [] \<and> sorted_wrt apart (b # bs) \<and> RT_MEMHEAP_IS_USED (last bs) h \<and>
     (\<forall>a \<in> set (b # bs). it_magic (mh_items h a) AND RT_MEMHEAP_MASK = RT_MEMHEAP_MAGIC \<and>
        it_pool_ptr (mh_items h a) = mh_address h)"

definition mh_free_set :: "u32 \<Rightarrow> u32 list \<Rightarrow> rt_memheap \<Rightarrow> u32 set" where
  "mh_free_set b bs h = {a \<in> set (b # bs). \<not> RT_MEMHEAP_IS_USED a h}"

definition mh_used_set :: "u32 \<Rightarrow> u32 list \<Rightarrow> rt_memheap \<Rightarrow> u32 set" where
  "mh_used_set b bs h = {a \<in> set (b # bs). RT_MEMHEAP_IS_USED a h}"

definition mh_frees :: "u32 \<Rightarrow> u32 list \<Rightarrow> u32 list \<Rightarrow> rt_memheap \<Rightarrow> bool" where
  "mh_frees b bs fs h \<longleftrightarrow>
     ring (fre h) (mh_free_header h) fs \<and> mh_free_list h = mh_free_header h \<and>
     (unat (mh_free_header h) < unat b \<or> unat (last bs) < unat (mh_free_header h))"

definition mh_avail :: "u32 \<Rightarrow> u32 list \<Rightarrow> rt_memheap \<Rightarrow> nat" where
  "mh_avail b bs h = (\<Sum>a \<in> mh_free_set b bs h. unat (MEMITEM_SIZE a h))"

text \<open>The invariant: the free list holds exactly the free blocks, no two free blocks are
  neighbours, and the available size is the sum of the sizes of the free blocks.\<close>

definition mh_rep :: "u32 \<Rightarrow> u32 list \<Rightarrow> u32 list \<Rightarrow> rt_memheap \<Rightarrow> bool" where
  "mh_rep b bs fs h \<longleftrightarrow>
     mh_blocks b bs h \<and> mh_frees b bs fs h \<and> set fs = mh_free_set b bs h \<and>
     (\<forall>a \<in> set (b # bs). RT_MEMHEAP_IS_USED a h \<or> RT_MEMHEAP_IS_USED (it_next (mh_items h a)) h) \<and>
     unat (mh_available_size h) = mh_avail b bs h"

subsection \<open>Rings\<close>

lemma ring_splice_in:
  assumes "ring s h (us @ vs)" and "n \<notin> set (h # us @ vs)"
  shows "ring (splice_in (last (h # us)) n (hd (vs @ [h])) s) h (us @ n # vs)"
  using assms links_splice[of s h us vs h n] by (auto simp: ring_def)

lemma ring_splice_out:
  assumes "ring s h (us @ n # vs)"
  shows "ring (splice_out (last (h # us)) n (hd (vs @ [h])) s) h (us @ vs)"
  using assms links_unsplice[of s h us n vs h] by (auto simp: ring_def)

lemma ring_neighbours:
  assumes "ring s h (us @ vs)"
  shows "lnext s (last (h # us)) = hd (vs @ [h])" and "lprev s (hd (vs @ [h])) = last (h # us)"
proof -
  have l: "links s h (us @ vs) h" using assms by (simp add: ring_def)
  have "lnext s (last (h # us)) = hd (vs @ [h]) \<and> lprev s (hd (vs @ [h])) = last (h # us)"
  proof (cases us rule: rev_cases)
    case Nil
    then show ?thesis using l by (cases vs) auto
  next
    case (snoc us' u)
    then show ?thesis using l by (cases vs) auto
  qed
  then show "lnext s (last (h # us)) = hd (vs @ [h])" and "lprev s (hd (vs @ [h])) = last (h # us)" by auto
qed

lemma ring_distinct: "ring s h xs \<Longrightarrow> distinct (h # xs)"
  by (simp add: ring_def)

subsection \<open>Blocks in order\<close>

lemma last_split:
  assumes "a \<in> set (b # bs)" and "a \<noteq> last bs" and "bs \<noteq> []"
  shows "\<exists>us vs. bs = us @ vs \<and> vs \<noteq> [] \<and> a = last (b # us)"
proof (cases "a = b")
  case True
  then show ?thesis using assms(3) by (intro exI[of _ "[]"] exI[of _ bs]) simp
next
  case False
  then obtain xs ys where "bs = xs @ a # ys" using assms(1) split_list by force
  then show ?thesis using assms(2) by (intro exI[of _ "xs @ [a]"] exI[of _ ys]) auto
qed

lemma mh_blocksD:
  assumes "mh_blocks b (us @ vs) h" and "vs \<noteq> []"
  shows "it_next (mh_items h (last (b # us))) = hd vs" "it_prev (mh_items h (hd vs)) = last (b # us)"
    "apart (last (b # us)) (hd vs)"
    "unat (MEMITEM_SIZE (last (b # us)) h) = unat (hd vs) - unat (last (b # us)) - 24"
    "last (b # us) \<noteq> hd vs" "last (b # us) \<in> set (b # us)" "hd vs \<in> set vs"
proof -
  let ?p = "last (b # us)" and ?q = "hd vs"
  have r: "ring (blk h) b (us @ vs)" using assms(1) by (simp add: mh_blocks_def)
  show n: "it_next (mh_items h ?p) = ?q" "it_prev (mh_items h ?q) = ?p"
    using ring_neighbours[OF r] assms(2) by (simp_all add: blk_def hd_append)
  show in1: "?p \<in> set (b # us)" by (rule last_in_set) simp
  show in2: "?q \<in> set vs" using assms(2) by simp
  have "sorted_wrt apart ((b # us) @ vs)" using assms(1) by (simp add: mh_blocks_def)
  then have "\<forall>x \<in> set (b # us). \<forall>y \<in> set vs. apart x y" unfolding sorted_wrt_append by blast
  then show a: "apart ?p ?q" using in1 in2 by blast
  then show "?p \<noteq> ?q" by auto
  have u1: "unat (?q - ?p) = unat ?q - unat ?p" by (rule unat_sub) (use a in \<open>simp add: word_le_nat_alt\<close>)
  have "(24 :: u32) \<le> ?q - ?p" unfolding word_le_nat_alt u1 using a by simp
  then have "unat (?q - ?p - 24) = unat (?q - ?p) - 24" by (subst unat_sub) simp_all
  then show "unat (MEMITEM_SIZE ?p h) = unat ?q - unat ?p - 24" unfolding u1 by (simp only: MEMITEM_SIZE_def n(1))
qed

lemma mh_blocks_at:
  assumes "mh_blocks b bs h" and "a \<in> set (b # bs)" and "a \<noteq> last bs"
  shows "\<exists>us vs. bs = us @ vs \<and> vs \<noteq> [] \<and> a = last (b # us)"
  using last_split[OF assms(2,3)] assms(1) unfolding mh_blocks_def by blast

lemma mh_blocks_range:
  assumes "mh_blocks b bs h" and "a \<in> set (b # bs)"
  shows "unat b \<le> unat a" and "unat a \<le> unat (last bs)"
proof -
  have ne: "bs \<noteq> []" and so: "sorted_wrt apart (b # bs)" using assms(1) by (simp_all add: mh_blocks_def)
  then show "unat b \<le> unat a" using assms(2) by fastforce
  have "b # bs = (b # butlast bs) @ [last bs]" using ne by simp
  then have "sorted_wrt apart ((b # butlast bs) @ [last bs])" "a \<in> set ((b # butlast bs) @ [last bs])"
    using so assms(2) by metis+
  then show "unat a \<le> unat (last bs)" unfolding sorted_wrt_append by fastforce
qed

lemma mh_split_sel [simp]:
  "mh_address (mh_split p n h) = mh_address h" "mh_free_header (mh_split p n h) = mh_free_header h"
  "mh_free_list (mh_split p n h) = mh_free_list h" "mh_available_size (mh_split p n h) = mh_available_size h"
  "mh_pool_size (mh_split p n h) = mh_pool_size h" "fre (mh_split p n h) = fre h" "mh_data (mh_split p n h) = mh_data h"
  by (simp_all add: mh_split_def upd_item_def Let_def fre_def fun_eq_iff)

lemma mh_split_items:
  assumes "n \<noteq> p" and "n \<noteq> it_next (mh_items h p)"
  shows "blk (mh_split p n h) = splice_in p n (it_next (mh_items h p)) (blk h)"
    and "it_magic (mh_items (mh_split p n h) a) = (if a = n then RT_MEMHEAP_MAGIC else it_magic (mh_items h a))"
    and "it_pool_ptr (mh_items (mh_split p n h) a) = (if a = n then mh_address h else it_pool_ptr (mh_items h a))"
  using assms by (auto simp: mh_split_def upd_item_def Let_def blk_def splice_in_def fun_eq_iff)

lemma mh_blocks_split:
  assumes ok: "mh_blocks b (us @ vs) h" and vs: "vs \<noteq> []" and p: "p = last (b # us)" and n: "apart p n" "apart n (hd vs)"
  shows "mh_blocks b (us @ n # vs) (mh_split p n h) \<and> n \<notin> set (b # us @ vs)"
proof -
  let ?q = "hd vs"
  note d = mh_blocksD[OF ok vs, folded p]
  have srt: "sorted_wrt apart ((b # us) @ vs)" using ok by (simp add: mh_blocks_def)
  then have s: "sorted_wrt apart (b # us)" "sorted_wrt apart vs" "\<forall>x \<in> set (b # us). \<forall>y \<in> set vs. apart x y"
    unfolding sorted_wrt_append by blast+
  have lo: "apart x n" if "x \<in> set (b # us)" for x
  proof (cases "x = p")
    case False
    have e: "b # us = butlast (b # us) @ [p]" by (simp add: p)
    then have "x \<in> set (butlast (b # us))" using that False by (metis UnE empty_iff empty_set insertE list.set(2) set_append)
    then have "apart x p" using s(1) e by (metis sorted_wrt_append list.set_intros(1))
    then show ?thesis using n(1) by simp
  qed (use n(1) in simp)
  have hi: "apart n y" if "y \<in> set vs" for y
  proof (cases "y = ?q")
    case False
    then have "y \<in> set (tl vs)" using that vs by (cases vs) auto
    then have "apart ?q y" using s(2) vs by (cases vs) auto
    then show ?thesis using n(2) by simp
  qed (use n(2) in simp)
  have fresh: "n \<notin> set (b # us @ vs)" using lo[of n] hi[of n] by auto
  then have np: "n \<noteq> p" "n \<noteq> ?q" using d(6,7) by auto
  note it = mh_split_items[of n p h, unfolded d(1), OF np]
  have "hd (vs @ [b]) = ?q" using vs by (simp add: hd_append)
  with ring_splice_in[of "blk h" b us vs n, folded p] ok fresh have "ring (blk (mh_split p n h)) b (us @ n # vs)"
    by (simp add: it(1) mh_blocks_def)
  moreover have "sorted_wrt apart ((b # us) @ n # vs)" unfolding sorted_wrt_append using s lo hi by auto
  moreover have "last vs \<noteq> n" using fresh vs by auto
  then have "RT_MEMHEAP_IS_USED (last (us @ n # vs)) (mh_split p n h)"
    using ok vs by (simp add: mh_blocks_def RT_MEMHEAP_IS_USED_def it(2))
  ultimately show ?thesis using ok fresh by (auto simp: mh_blocks_def it(2,3))
qed

lemma mh_join_sel [simp]:
  "mh_address (mh_join p n h) = mh_address h" "mh_free_header (mh_join p n h) = mh_free_header h"
  "mh_free_list (mh_join p n h) = mh_free_list h" "mh_available_size (mh_join p n h) = mh_available_size h"
  "mh_pool_size (mh_join p n h) = mh_pool_size h" "fre (mh_join p n h) = fre h" "mh_data (mh_join p n h) = mh_data h"
  "it_magic (mh_items (mh_join p n h) a) = it_magic (mh_items h a)"
  "it_pool_ptr (mh_items (mh_join p n h) a) = it_pool_ptr (mh_items h a)"
  "it_next (mh_items (mh_join p n h) a) = (if a = p then it_next (mh_items h n) else it_next (mh_items h a))"
  "it_prev (mh_items (mh_join p n h) a) = (if a = it_next (mh_items h n) then p else it_prev (mh_items h a))"
  by (simp_all add: mh_join_def upd_item_def Let_def fre_def fun_eq_iff)

lemma mh_blocks_join:
  assumes ok: "mh_blocks b (us @ n # vs) h" and vs: "vs \<noteq> []" and p: "p = last (b # us)"
  shows "mh_blocks b (us @ vs) (mh_join p n h)"
proof -
  have nv: "n # vs \<noteq> []" by simp
  note d = mh_blocksD[OF ok nv, folded p]
  have "mh_blocks b ((us @ [n]) @ vs) h" using ok by simp
  from mh_blocksD(1)[OF this vs] have q: "it_next (mh_items h n) = hd vs" by simp
  have r: "ring (blk h) b (us @ n # vs)" using ok by (simp add: mh_blocks_def)
  have dist: "n \<notin> set (b # us @ vs)" using ring_distinct[OF r] by auto
  have "hd (vs @ [b]) = hd vs" using vs by (simp add: hd_append)
  with ring_splice_out[OF r, folded p] have r': "ring (splice_out p n (hd vs) (blk h)) b (us @ vs)" by simp
  have "ring (blk (mh_join p n h)) b (us @ vs)"
    using r' by (subst ring_cong[where s = "splice_out p n (hd vs) (blk h)"]) (use dist in \<open>auto simp: blk_def splice_out_def q\<close>)
  moreover have "sorted_wrt apart ((b # us) @ n # vs)" using ok by (simp add: mh_blocks_def)
  then have "sorted_wrt apart ((b # us) @ vs)" unfolding sorted_wrt_append by auto
  ultimately show ?thesis using ok vs by (simp add: mh_blocks_def RT_MEMHEAP_IS_USED_def)
qed

subsection \<open>The free list\<close>

lemma mh_free_ops_sel [simp]:
  "mh_address (mh_free_unlink p h) = mh_address h" "mh_free_header (mh_free_unlink p h) = mh_free_header h"
  "mh_free_list (mh_free_unlink p h) = mh_free_list h" "mh_available_size (mh_free_unlink p h) = mh_available_size h"
  "mh_pool_size (mh_free_unlink p h) = mh_pool_size h" "mh_data (mh_free_unlink p h) = mh_data h"
  "it_magic (mh_items (mh_free_unlink p h) a) = it_magic (mh_items h a)"
  "it_pool_ptr (mh_items (mh_free_unlink p h) a) = it_pool_ptr (mh_items h a)"
  "it_next (mh_items (mh_free_unlink p h) a) = it_next (mh_items h a)"
  "it_prev (mh_items (mh_free_unlink p h) a) = it_prev (mh_items h a)"
  "mh_address (mh_free_clear p h) = mh_address h" "mh_free_header (mh_free_clear p h) = mh_free_header h"
  "mh_free_list (mh_free_clear p h) = mh_free_list h" "mh_available_size (mh_free_clear p h) = mh_available_size h"
  "mh_pool_size (mh_free_clear p h) = mh_pool_size h" "mh_data (mh_free_clear p h) = mh_data h"
  "it_magic (mh_items (mh_free_clear p h) a) = it_magic (mh_items h a)"
  "it_pool_ptr (mh_items (mh_free_clear p h) a) = it_pool_ptr (mh_items h a)"
  "it_next (mh_items (mh_free_clear p h) a) = it_next (mh_items h a)"
  "it_prev (mh_items (mh_free_clear p h) a) = it_prev (mh_items h a)"
  "mh_address (mh_free_insert p h) = mh_address h" "mh_free_header (mh_free_insert p h) = mh_free_header h"
  "mh_free_list (mh_free_insert p h) = mh_free_list h" "mh_available_size (mh_free_insert p h) = mh_available_size h"
  "mh_pool_size (mh_free_insert p h) = mh_pool_size h" "mh_data (mh_free_insert p h) = mh_data h"
  "it_magic (mh_items (mh_free_insert p h) a) = it_magic (mh_items h a)"
  "it_pool_ptr (mh_items (mh_free_insert p h) a) = it_pool_ptr (mh_items h a)"
  "it_next (mh_items (mh_free_insert p h) a) = it_next (mh_items h a)"
  "it_prev (mh_items (mh_free_insert p h) a) = it_prev (mh_items h a)"
  by (simp_all add: mh_free_unlink_def mh_free_clear_def mh_free_insert_def upd_item_def Let_def)

lemma mh_free_unlink_ring:
  assumes r: "ring (fre h) hdr (us @ p # vs)"
  shows "ring (fre (mh_free_unlink p h)) hdr (us @ vs)"
proof -
  have dist: "p \<notin> set (hdr # us @ vs)" using ring_distinct[OF r] by auto
  have nb: "it_prev_free (mh_items h p) = last (hdr # us)" "it_next_free (mh_items h p) = hd (vs @ [hdr])"
    using ring_neighbours(2)[OF r] ring_neighbours(1)[of "fre h" hdr "us @ [p]" vs] r by (simp_all add: fre_def)
  have ne: "hd (vs @ [hdr]) \<noteq> p" "last (hdr # us) \<noteq> p" proof -
    show "hd (vs @ [hdr]) \<noteq> p" using dist by (cases vs) auto
    show "last (hdr # us) \<noteq> p" using dist last_in_set[of "hdr # us"] by (metis UnCI list.distinct(1) set_append append_Cons)
  qed
  define x y where "x = last (hdr # us)" and "y = hd (vs @ [hdr])"
  have f: "lnext (fre (mh_free_unlink p h)) m = lnext (splice_out x p y (fre h)) m \<and>
      lprev (fre (mh_free_unlink p h)) m = lprev (splice_out x p y (fre h)) m" if "m \<noteq> p" for m
    using that ne unfolding x_def[symmetric] y_def[symmetric]
    by (simp add: fre_def splice_out_def mh_free_unlink_def upd_item_def Let_def nb[folded x_def y_def])
  have "ring (fre (mh_free_unlink p h)) hdr (us @ vs) = ring (splice_out x p y (fre h)) hdr (us @ vs)"
    by (rule ring_cong) (use dist f in metis)
  then show ?thesis using ring_splice_out[OF r] by (simp only: x_def y_def)
qed

lemma mh_free_clear_ring: "p \<notin> set (hdr # fs) \<Longrightarrow> ring (fre (mh_free_clear p h)) hdr fs = ring (fre h) hdr fs"
  by (rule ring_cong) (auto simp: fre_def mh_free_clear_def upd_item_def)

lemma mh_free_insert_ring:
  assumes r: "ring (fre h) hdr fs" and "mh_free_list h = hdr" and n: "n \<notin> set (hdr # fs)"
  shows "ring (fre (mh_free_insert n h)) hdr (n # fs)"
proof -
  have nx: "it_next_free (mh_items h hdr) = hd (fs @ [hdr])" using ring_neighbours(1)[of "fre h" hdr "[]" fs] r by (simp add: fre_def)
  have "hd (fs @ [hdr]) \<noteq> n" using n by (cases fs) auto
  then have "fre (mh_free_insert n h) = splice_in hdr n (hd (fs @ [hdr])) (fre h)"
    using n assms(2) by (auto simp: fre_def mh_free_insert_def upd_item_def Let_def splice_in_def nx fun_eq_iff)
  then show ?thesis using ring_splice_in[of "fre h" hdr "[]" fs n] r n by simp
qed

text \<open>Only the chosen fields matter for what a block is.\<close>

lemma mh_cong:
  assumes "\<And>a. it_next (mh_items h' a) = it_next (mh_items h a)" "\<And>a. it_prev (mh_items h' a) = it_prev (mh_items h a)"
    "\<And>a. it_magic (mh_items h' a) = it_magic (mh_items h a)" "\<And>a. it_pool_ptr (mh_items h' a) = it_pool_ptr (mh_items h a)"
    "mh_address h' = mh_address h"
  shows "mh_blocks b bs h' = mh_blocks b bs h" "RT_MEMHEAP_IS_USED a h' = RT_MEMHEAP_IS_USED a h"
    "MEMITEM_SIZE a h' = MEMITEM_SIZE a h" "mh_free_set b bs h' = mh_free_set b bs h" "mh_avail b bs h' = mh_avail b bs h"
proof -
  have "blk h' = blk h" by (simp add: blk_def assms fun_eq_iff)
  then show "mh_blocks b bs h' = mh_blocks b bs h" "RT_MEMHEAP_IS_USED a h' = RT_MEMHEAP_IS_USED a h"
    "MEMITEM_SIZE a h' = MEMITEM_SIZE a h" "mh_free_set b bs h' = mh_free_set b bs h" "mh_avail b bs h' = mh_avail b bs h"
    by (simp_all add: mh_blocks_def RT_MEMHEAP_IS_USED_def MEMITEM_SIZE_def mh_free_set_def mh_avail_def assms)
qed

subsection \<open>Allocation\<close>

text \<open>The search ends, at the first block that is large enough or at the header.\<close>

lemma mh_search_ok:
  assumes "ring (fre h) (mh_free_list h) (ys @ xs)" and "free_size < sz"
  shows "\<exists>fsz p. mh_search sz free_size (hd (xs @ [mh_free_list h])) h = Some (fsz, p) \<and>
     (sz \<le> fsz \<longrightarrow> p \<in> set xs \<and> fsz = MEMITEM_SIZE p h) \<and> (fsz < sz \<longrightarrow> (\<forall>a \<in> set xs. MEMITEM_SIZE a h < sz))"
  using assms
proof (induction xs arbitrary: ys free_size)
  case Nil
  then show ?case by (subst mh_search.simps) (simp add: not_le)
next
  case (Cons x xs)
  have x: "x \<noteq> mh_free_list h" using ring_distinct[OF Cons.prems(1)] by auto
  have nx: "it_next_free (mh_items h x) = hd (xs @ [mh_free_list h])"
    using ring_neighbours(1)[of "fre h" "mh_free_list h" "ys @ [x]" xs] Cons.prems(1) by (simp add: fre_def)
  show ?case
  proof (cases "MEMITEM_SIZE x h < sz")
    case True
    have "ring (fre h) (mh_free_list h) ((ys @ [x]) @ xs)" using Cons.prems(1) by simp
    from Cons.IH[OF this True] show ?thesis using True x Cons.prems(2) nx
      by (subst mh_search.simps) (auto simp: Let_def)
  next
    case False
    then have "mh_search sz (MEMITEM_SIZE x h) x h = Some (MEMITEM_SIZE x h, x)" by (subst mh_search.simps) simp
    then show ?thesis using False x Cons.prems(2) by (subst mh_search.simps) (auto simp: Let_def)
  qed
qed

lemma mh_account_sel [simp]:
  "mh_items (mh_account v h) = mh_items h" "mh_available_size (mh_account v h) = v" "mh_address (mh_account v h) = mh_address h"
  "mh_free_header (mh_account v h) = mh_free_header h" "mh_free_list (mh_account v h) = mh_free_list h"
  "mh_data (mh_account v h) = mh_data h" "fre (mh_account v h) = fre h"
  by (simp_all add: mh_account_def Let_def fre_def)

lemma finite_free_set [simp]: "finite (mh_free_set b bs h)"
  by (simp add: mh_free_set_def)

lemma used_or_bit: "(m OR RT_MEMHEAP_USED) AND RT_MEMHEAP_USED = RT_MEMHEAP_USED" for m :: u32
  by (rule bit_eqI) (auto simp: bit_simps)

lemma used_or_mask: "(m OR RT_MEMHEAP_USED) AND RT_MEMHEAP_MASK = m AND RT_MEMHEAP_MASK" for m :: u32
proof -
  have "RT_MEMHEAP_MASK = NOT RT_MEMHEAP_USED" by simp
  then show ?thesis by (simp only:) (rule bit_eqI, auto simp: bit_simps)
qed

lemma used_clear: "(m AND NOT RT_MEMHEAP_USED) AND RT_MEMHEAP_USED = 0" "(m AND NOT RT_MEMHEAP_USED) AND RT_MEMHEAP_MASK = m AND RT_MEMHEAP_MASK" for m :: u32
proof -
  have "RT_MEMHEAP_MASK = NOT RT_MEMHEAP_USED" by simp
  then show "(m AND NOT RT_MEMHEAP_USED) AND RT_MEMHEAP_MASK = m AND RT_MEMHEAP_MASK"
    by (simp only:) (rule bit_eqI, auto simp: bit_simps)
  show "(m AND NOT RT_MEMHEAP_USED) AND RT_MEMHEAP_USED = 0" by (rule bit_eqI) (auto simp: bit_simps)
qed

lemma mh_blocks_mark:
  assumes ok: "mh_blocks b bs h" and eq: "\<And>a. it_next (mh_items h' a) = it_next (mh_items h a)"
      "\<And>a. it_prev (mh_items h' a) = it_prev (mh_items h a)" "\<And>a. it_pool_ptr (mh_items h' a) = it_pool_ptr (mh_items h a)"
      "mh_address h' = mh_address h"
    and m: "\<And>a. it_magic (mh_items h' a) = (if a = p then it_magic (mh_items h a) OR RT_MEMHEAP_USED else it_magic (mh_items h a))"
  shows "mh_blocks b bs h'" and "RT_MEMHEAP_IS_USED a h' \<longleftrightarrow> a = p \<or> RT_MEMHEAP_IS_USED a h"
    and "MEMITEM_SIZE a h' = MEMITEM_SIZE a h"
proof -
  have "blk h' = blk h" by (simp add: blk_def eq fun_eq_iff)
  moreover show u: "RT_MEMHEAP_IS_USED a h' \<longleftrightarrow> a = p \<or> RT_MEMHEAP_IS_USED a h" for a
    by (simp add: RT_MEMHEAP_IS_USED_def m used_or_bit)
  ultimately show "mh_blocks b bs h'" using ok unfolding mh_blocks_def u by (auto simp: eq m used_or_mask)
  show "MEMITEM_SIZE a h' = MEMITEM_SIZE a h" by (simp add: MEMITEM_SIZE_def eq)
qed

lemma mh_repI:
  assumes "mh_blocks b bs h" and "ring (fre h) (mh_free_header h) fs" and "mh_free_list h = mh_free_header h"
    and "unat (mh_free_header h) < unat b \<or> unat (last bs) < unat (mh_free_header h)" and "set fs = mh_free_set b bs h"
    and "\<And>a. a \<in> set (b # bs) \<Longrightarrow> \<not> RT_MEMHEAP_IS_USED a h \<Longrightarrow> RT_MEMHEAP_IS_USED (it_next (mh_items h a)) h"
    and "unat (mh_available_size h) = mh_avail b bs h"
  shows "mh_rep b bs fs h"
  using assms unfolding mh_rep_def mh_frees_def by blast

lemma mh_repD:
  assumes "mh_rep b bs fs h"
  shows "mh_blocks b bs h" "ring (fre h) (mh_free_header h) fs" "mh_free_list h = mh_free_header h"
    "mh_free_header h \<notin> set (b # bs)" "set fs = mh_free_set b bs h"
    "\<And>a. a \<in> set (b # bs) \<Longrightarrow> \<not> RT_MEMHEAP_IS_USED a h \<Longrightarrow> RT_MEMHEAP_IS_USED (it_next (mh_items h a)) h"
    "unat (mh_available_size h) = mh_avail b bs h" "distinct (mh_free_header h # fs)"
    "unat (mh_free_header h) < unat b \<or> unat (last bs) < unat (mh_free_header h)"
proof -
  have bl: "mh_blocks b bs h" and out: "unat (mh_free_header h) < unat b \<or> unat (last bs) < unat (mh_free_header h)"
    using assms unfolding mh_rep_def mh_frees_def by blast+
  show "mh_free_header h \<notin> set (b # bs)" using mh_blocks_range[OF bl] out by fastforce
  show r: "ring (fre h) (mh_free_header h) fs" using assms unfolding mh_rep_def mh_frees_def by (elim conjE)
  then show "distinct (mh_free_header h # fs)" by (rule ring_distinct)
qed (insert assms[unfolded mh_rep_def mh_frees_def], blast+)

lemma mh_take_whole:
  assumes rep: "mh_rep b bs fs h" and p: "p \<in> set fs" and small: "\<not> fsz \<ge> sz + RT_MEMHEAP_SIZE + RT_MEMHEAP_MINIALLOC"
    and fsz: "fsz = MEMITEM_SIZE p h" and h': "h' = mh_take sz fsz p h"
  shows "mh_rep b bs (remove1 p fs) h' \<and> (\<forall>a. RT_MEMHEAP_IS_USED a h' \<longleftrightarrow> a = p \<or> RT_MEMHEAP_IS_USED a h) \<and>
     (\<forall>a. MEMITEM_SIZE a h' = MEMITEM_SIZE a h) \<and> mh_data h' = mh_data h"
proof -
  let ?h1 = "mh_account (mh_available_size h - fsz) h"
  let ?h2 = "mh_free_clear p (mh_free_unlink p ?h1)"
  have e: "h' = upd_item p (\<lambda>x. x\<lparr>it_magic := it_magic x OR RT_MEMHEAP_USED\<rparr>) ?h2"
    using small by (simp add: h' mh_take_def Let_def)
  have sel: "it_next (mh_items h' a) = it_next (mh_items h a)" "it_prev (mh_items h' a) = it_prev (mh_items h a)"
    "it_pool_ptr (mh_items h' a) = it_pool_ptr (mh_items h a)" "mh_address h' = mh_address h"
    "it_magic (mh_items h' a) = (if a = p then it_magic (mh_items h a) OR RT_MEMHEAP_USED else it_magic (mh_items h a))" for a
    by (auto simp: e upd_item_def)
  have other: "mh_free_header h' = mh_free_header h" "mh_free_list h' = mh_free_list h" "mh_data h' = mh_data h"
    "mh_available_size h' = mh_available_size h - fsz" "fre h' = fre ?h2"
    by (simp_all add: e upd_item_def fre_def fun_eq_iff)
  have blocks: "mh_blocks b bs h" using rep by (simp add: mh_rep_def)
  note mk = mh_blocks_mark[OF blocks sel(1,2,3,4,5)]
  have fs: "ring (fre h) (mh_free_header h) fs" "set fs = mh_free_set b bs h" using rep by (simp_all add: mh_rep_def mh_frees_def)
  obtain us vs where uv: "fs = us @ p # vs" using split_list[OF p] by blast
  have d: "distinct (mh_free_header h # fs)" by (rule ring_distinct[OF fs(1)])
  then have rem: "remove1 p fs = us @ vs" "p \<notin> set (mh_free_header h # us @ vs)" by (auto simp: uv remove1_append)
  have "ring (fre (mh_free_unlink p ?h1)) (mh_free_header h) (us @ vs)"
    using mh_free_unlink_ring[of ?h1 "mh_free_header h" us p vs] fs(1) uv by simp
  then have ring': "ring (fre h') (mh_free_header h) (remove1 p fs)" unfolding other(5) rem(1) using rem(2) by (subst mh_free_clear_ring)
  have fset: "mh_free_set b bs h' = mh_free_set b bs h - {p}" by (auto simp: mh_free_set_def mk(2))
  have "set (remove1 p fs) = mh_free_set b bs h'" using d fs(2) fset by (simp add: set_remove1_eq)
  moreover have "unat (mh_available_size h') = mh_avail b bs h'"
  proof -
    have pin: "p \<in> mh_free_set b bs h" using p fs(2) by simp
    have "mh_avail b bs h = unat fsz + (\<Sum>a \<in> mh_free_set b bs h - {p}. unat (MEMITEM_SIZE a h))"
      unfolding mh_avail_def fsz using pin by (subst sum.remove[of _ p]) simp_all
    moreover have "mh_avail b bs h' = (\<Sum>a \<in> mh_free_set b bs h - {p}. unat (MEMITEM_SIZE a h))"
      by (simp add: mh_avail_def fset mk(3))
    moreover have "unat (mh_available_size h) = mh_avail b bs h" using rep by (simp add: mh_rep_def)
    ultimately show ?thesis unfolding other(4) by (subst unat_sub) (simp_all add: word_le_nat_alt)
  qed
  ultimately have "mh_rep b bs (remove1 p fs) h'"
    using ring' other mh_repD(3,6,9)[OF rep] by (intro mh_repI mk(1)) (auto simp: mk(2) sel(1))
  then show ?thesis using mk(2,3) other(3) by blast
qed

lemma mh_split_next:
  assumes "n \<noteq> p" and "n \<noteq> it_next (mh_items h p)"
  shows "it_next (mh_items (mh_split p n h) a) =
     (if a = p then n else if a = n then it_next (mh_items h p) else it_next (mh_items h a))"
  using assms by (auto simp: mh_split_def upd_item_def Let_def)

text \<open>Sums over the free blocks when one of them is replaced.\<close>

lemma mh_avail_change:
  assumes "mh_free_set b' bs' h' = insert n (mh_free_set b bs h - {p})" and "n \<notin> mh_free_set b bs h - {p}"
    and "p \<in> mh_free_set b bs h" and "\<And>a. a \<in> mh_free_set b bs h - {p} \<Longrightarrow> MEMITEM_SIZE a h' = MEMITEM_SIZE a h"
  shows "mh_avail b' bs' h' + unat (MEMITEM_SIZE p h) = mh_avail b bs h + unat (MEMITEM_SIZE n h')"
proof -
  have "mh_avail b bs h = unat (MEMITEM_SIZE p h) + (\<Sum>a \<in> mh_free_set b bs h - {p}. unat (MEMITEM_SIZE a h))"
    unfolding mh_avail_def using assms(3) by (subst sum.remove[of _ p]) simp_all
  moreover have "mh_avail b' bs' h' = unat (MEMITEM_SIZE n h') + (\<Sum>a \<in> mh_free_set b bs h - {p}. unat (MEMITEM_SIZE a h'))"
    unfolding mh_avail_def assms(1) using assms(2) by (subst sum.insert) simp_all
  moreover have "(\<Sum>a \<in> mh_free_set b bs h - {p}. unat (MEMITEM_SIZE a h')) = (\<Sum>a \<in> mh_free_set b bs h - {p}. unat (MEMITEM_SIZE a h))"
    by (rule sum.cong) (simp_all add: assms(4))
  ultimately show ?thesis by simp
qed

lemma mh_take_part:
  assumes rep: "mh_rep b (us @ vs) fs h" and vs: "vs \<noteq> []" and pl: "p = last (b # us)" and p: "p \<in> set fs"
    and big: "unat sz + 36 \<le> unat fsz" and fsz: "fsz = MEMITEM_SIZE p h"
    and n: "n = p + sz + RT_MEMHEAP_SIZE" and h': "h' = mh_take sz fsz p h"
  shows "mh_rep b (us @ n # vs) (n # remove1 p fs) h' \<and> (\<forall>a. RT_MEMHEAP_IS_USED a h' \<longleftrightarrow> a = p \<or> a \<noteq> n \<and> RT_MEMHEAP_IS_USED a h) \<and>
     (\<forall>a. a \<noteq> p \<longrightarrow> a \<noteq> n \<longrightarrow> MEMITEM_SIZE a h' = MEMITEM_SIZE a h) \<and> unat (MEMITEM_SIZE p h') = unat sz \<and>
     n \<notin> set (b # us @ vs) \<and> mh_data h' = mh_data h"
proof -
  note r = mh_repD[OF rep]
  note d = mh_blocksD[OF r(1) vs, folded pl]
  let ?q = "hd vs"
  have sq: "unat fsz = unat ?q - unat p - 24" using d(4) by (simp add: fsz)
  have lq: "unat ?q < 2 ^ 32" using unsigned_less[of ?q, where ?'a = nat] by simp
  have b1: "sz + RT_MEMHEAP_SIZE + RT_MEMHEAP_MINIALLOC = of_nat (unat sz + 36)" by simp
  have "unat (sz + RT_MEMHEAP_SIZE + RT_MEMHEAP_MINIALLOC) = unat sz + 36"
    unfolding b1 using big sq lq by (subst unat_of_nat) (simp add: take_bit_nat_eq_self)
  then have le: "fsz \<ge> sz + RT_MEMHEAP_SIZE + RT_MEMHEAP_MINIALLOC" using big by (simp add: word_le_nat_alt)
  have "n = of_nat (unat p + unat sz + 24)" by (simp add: n)
  then have un: "unat n = unat p + unat sz + 24"
    using big sq lq by (simp only: unat_of_nat) (simp add: take_bit_nat_eq_self)
  have an: "apart p n" "apart n ?q" using un big sq by simp_all
  note sp = mh_blocks_split[OF r(1) vs pl an]
  have fresh: "n \<notin> set (b # us @ vs)" using sp by simp
  have np: "n \<noteq> p" "n \<noteq> ?q" using an by auto
  note it = mh_split_items[of n p h, unfolded d(1), OF np]
  note nx = mh_split_next[of n p h, unfolded d(1), OF np]
  define h1 where "h1 = mh_split p n h"
  define h2 where "h2 = mh_free_clear p (mh_free_unlink p h1)"
  define h3 where "h3 = mh_free_insert n h2"
  define h4 where "h4 = mh_account (mh_available_size h3 - sz - RT_MEMHEAP_SIZE) h3"
  have e: "h' = upd_item p (\<lambda>x. x\<lparr>it_magic := it_magic x OR RT_MEMHEAP_USED\<rparr>) h4"
    using le by (simp add: h' mh_take_def Let_def h1_def h2_def h3_def h4_def n)
  have sel: "it_next (mh_items h' a) = it_next (mh_items h1 a)" "it_prev (mh_items h' a) = it_prev (mh_items h1 a)"
    "it_pool_ptr (mh_items h' a) = it_pool_ptr (mh_items h1 a)" "mh_address h' = mh_address h1"
    "it_magic (mh_items h' a) = (if a = p then it_magic (mh_items h1 a) OR RT_MEMHEAP_USED else it_magic (mh_items h1 a))" for a
    by (auto simp: e h4_def h3_def h2_def upd_item_def)
  have other: "mh_free_header h' = mh_free_header h" "mh_free_list h' = mh_free_list h" "mh_data h' = mh_data h"
    "mh_available_size h' = mh_available_size h - sz - RT_MEMHEAP_SIZE" "fre h' = fre h3"
    by (simp_all add: e h4_def h3_def h2_def h1_def upd_item_def fre_def fun_eq_iff)
  have blocks1: "mh_blocks b (us @ n # vs) h1" using sp by (simp add: h1_def)
  note mk = mh_blocks_mark[OF blocks1 sel(1,2,3,4,5)]
  have u1: "RT_MEMHEAP_IS_USED a h1 \<longleftrightarrow> a \<noteq> n \<and> RT_MEMHEAP_IS_USED a h" for a
    by (simp add: RT_MEMHEAP_IS_USED_def h1_def it(2))
  have used: "RT_MEMHEAP_IS_USED a h' \<longleftrightarrow> a = p \<or> a \<noteq> n \<and> RT_MEMHEAP_IS_USED a h" for a by (simp add: mk(2) u1)
  have nxt: "it_next (mh_items h' a) = (if a = p then n else if a = n then ?q else it_next (mh_items h a))" for a
    by (simp add: sel(1) h1_def nx)
  have size: "MEMITEM_SIZE a h' = MEMITEM_SIZE a h" if "a \<noteq> p" "a \<noteq> n" for a using that by (simp add: MEMITEM_SIZE_def nxt)
  have szp: "unat (MEMITEM_SIZE p h') = unat sz" by (simp add: MEMITEM_SIZE_def nxt n)
  have "mh_blocks b ((us @ [n]) @ vs) h'" using mk(1) by simp
  from mh_blocksD(4)[OF this vs] have szn: "unat (MEMITEM_SIZE n h') = unat ?q - unat n - 24" by simp
  obtain xs ys where xy: "fs = xs @ p # ys" using split_list[OF p] by blast
  have rem: "remove1 p fs = xs @ ys" "p \<notin> set (mh_free_header h # xs @ ys)" using r(8) by (auto simp: xy remove1_append)
  have "ring (fre (mh_free_unlink p h1)) (mh_free_header h) (xs @ ys)"
    using mh_free_unlink_ring[of h1 "mh_free_header h" xs p ys] r(2) xy by (simp add: h1_def)
  then have ring2: "ring (fre h2) (mh_free_header h) (remove1 p fs)" unfolding h2_def rem(1) using rem(2) by (subst mh_free_clear_ring)
  have pin: "p \<in> mh_free_set b (us @ vs) h" using p r(5) by simp
  have "unat b \<le> unat p" using mh_blocks_range(1)[OF r(1), of p] pin by (simp add: mh_free_set_def)
  moreover have "unat ?q \<le> unat (last (us @ vs))" using mh_blocks_range(2)[OF r(1), of ?q] vs by simp
  ultimately have hn: "mh_free_header h \<noteq> n" using r(9) an by auto
  have nfs: "n \<notin> set (mh_free_header h # remove1 p fs)"
    using fresh hn r(5) by (auto simp: mh_free_set_def dest: notin_set_remove1)
  have "mh_free_list h2 = mh_free_header h" using r(3) by (simp add: h2_def h1_def)
  from mh_free_insert_ring[OF ring2 this nfs] have ring': "ring (fre h') (mh_free_header h) (n # remove1 p fs)"
    unfolding other(5) h3_def .
  have pfree: "\<not> RT_MEMHEAP_IS_USED p h" using pin by (simp add: mh_free_set_def)
  have fset: "mh_free_set b (us @ n # vs) h' = insert n (mh_free_set b (us @ vs) h - {p})"
    using fresh np(1) by (auto simp: mh_free_set_def used)
  have sfs: "set (n # remove1 p fs) = mh_free_set b (us @ n # vs) h'" using r(5,8) by (simp add: fset set_remove1_eq)
  have av: "unat (mh_available_size h') = mh_avail b (us @ n # vs) h'"
  proof -
    have nn: "n \<notin> mh_free_set b (us @ vs) h - {p}" using fresh by (auto simp: mh_free_set_def)
    have "mh_avail b (us @ n # vs) h' + unat (MEMITEM_SIZE p h) = mh_avail b (us @ vs) h + unat (MEMITEM_SIZE n h')"
      by (rule mh_avail_change[OF fset nn pin]) (use nn size in blast)
    moreover have "unat (MEMITEM_SIZE p h) \<le> mh_avail b (us @ vs) h"
      unfolding mh_avail_def using pin by (intro member_le_sum) simp_all
    ultimately have "mh_avail b (us @ n # vs) h' = unat (mh_available_size h) - (unat sz + 24)" "unat sz + 24 \<le> unat (mh_available_size h)"
      using szn un sq big r(7) by (simp_all add: fsz)
    then show ?thesis unfolding other(4) by (simp add: unat_sub_if' word_le_nat_alt)
  qed
  have adj: "RT_MEMHEAP_IS_USED (it_next (mh_items h' a)) h'" if a: "a \<in> set (b # us @ n # vs)" "\<not> RT_MEMHEAP_IS_USED a h'" for a
  proof (cases "a = n")
    case True
    have "RT_MEMHEAP_IS_USED ?q h" using r(6)[of p] pin pfree d(1) by (simp add: mh_free_set_def)
    then show ?thesis using True np by (simp add: nxt used)
  next
    case False
    then have a': "a \<in> set (b # us @ vs)" "\<not> RT_MEMHEAP_IS_USED a h" "a \<noteq> p" using a used by auto
    then have u: "RT_MEMHEAP_IS_USED (it_next (mh_items h a)) h" using r(6) by blast
    have "a \<noteq> last (us @ vs)" using a'(2) r(1) by (auto simp: mh_blocks_def)
    with mh_blocks_at[OF r(1) a'(1)] obtain us' vs' where s: "us @ vs = us' @ vs'" "vs' \<noteq> []" "a = last (b # us')" by blast
    have "it_next (mh_items h a) \<in> set vs'" using mh_blocksD(1,7)[of b us' vs' h] r(1) s by metis
    then have "it_next (mh_items h a) \<noteq> n" using fresh s(1) by (metis Un_iff list.set_intros(2) set_append)
    then show ?thesis using u a'(3) False by (simp add: nxt used)
  qed
  have "mh_rep b (us @ n # vs) (n # remove1 p fs) h'"
    by (rule mh_repI[OF mk(1) _ _ _ sfs adj av]) (use ring' other(1,2) r(3,9) vs in simp_all)
  then show ?thesis using used size szp fresh other(3) by blast
qed

text \<open>The blocks do not overlap.\<close>

lemma mh_blocks_apart:
  assumes ok: "mh_blocks b bs h" and a: "a \<in> set (b # bs)" and c: "c \<in> set (b # bs)" and ac: "unat a < unat c"
  shows "unat a + 24 + unat (MEMITEM_SIZE a h) \<le> unat c"
proof -
  have "a \<noteq> last bs" using mh_blocks_range(2)[OF ok c] ac by auto
  with mh_blocks_at[OF ok a] obtain us vs where s: "bs = us @ vs" "vs \<noteq> []" "a = last (b # us)" by blast
  note d = mh_blocksD[OF ok[unfolded s(1)] s(2), folded s(3)]
  have so: "sorted_wrt apart ((b # us) @ vs)" using ok s(1) by (simp add: mh_blocks_def)
  have e: "b # us = butlast (b # us) @ [a]" using s(3) by simp
  have "c \<notin> set (b # us)"
  proof
    assume "c \<in> set (b # us)"
    then have "c \<in> set (butlast (b # us)) \<or> c = a" using e by (metis Un_iff empty_iff empty_set insertE list.set(2) set_append)
    moreover have "sorted_wrt apart (butlast (b # us) @ [a])" using so e sorted_wrt_append by metis
    ultimately show False using ac unfolding sorted_wrt_append by fastforce
  qed
  then have "c \<in> set vs" using c s(1) by auto
  then have "c = hd vs \<or> c \<in> set (tl vs)" using s(2) by (cases vs) auto
  moreover have "sorted_wrt apart vs" using so sorted_wrt_append by blast
  then have "\<forall>y \<in> set (tl vs). apart (hd vs) y" using s(2) by (cases vs) auto
  ultimately have "unat (hd vs) \<le> unat c" by auto
  then show ?thesis using d(3,4) by simp
qed

lemma mh_blocks_disjoint:
  assumes ok: "mh_blocks b bs h" and a: "a \<in> set (b # bs)" and c: "c \<in> set (b # bs)" and ac: "a \<noteq> c"
  shows "unat a + 24 + unat (MEMITEM_SIZE a h) \<le> unat c \<or> unat c + 24 + unat (MEMITEM_SIZE c h) \<le> unat a"
  using mh_blocks_apart[OF ok a c] mh_blocks_apart[OF ok c a] ac by (metis linorder_neqE_nat unsigned_word_eqI)

text \<open>The free bytes fit into the pool, so the counter of the available bytes does not wrap.\<close>

lemma mh_avail_bound:
  assumes ok: "mh_blocks b bs h"
  shows "mh_avail b bs h \<le> unat (last bs) - unat b - 24"
proof -
  let ?F = "mh_free_set b bs h"
  let ?I = "\<lambda>a. {unat a + 24 ..< unat a + 24 + unat (MEMITEM_SIZE a h)}"
  have F: "a \<in> set (b # bs)" "a \<noteq> last bs" if "a \<in> ?F" for a using that ok by (auto simp: mh_free_set_def mh_blocks_def)
  have l: "last bs \<in> set (b # bs)" using ok by (simp add: mh_blocks_def)
  have dis: "?I a \<inter> ?I c = {}" if "a \<in> ?F" "c \<in> ?F" "a \<noteq> c" for a c
    using mh_blocks_disjoint[OF ok F(1)[OF that(1)] F(1)[OF that(2)] that(3)] by fastforce
  have "mh_avail b bs h = (\<Sum>a \<in> ?F. card (?I a))" by (simp add: mh_avail_def)
  also have "\<dots> = card (\<Union> (?I ` ?F))" by (rule card_UN_disjoint[symmetric]) (use dis in simp_all)
  also have "\<dots> \<le> card {unat b + 24 ..< unat (last bs)}"
  proof (intro card_mono UN_least)
    fix a assume a: "a \<in> ?F"
    have "unat a < unat (last bs)" using mh_blocks_range(2)[OF ok F(1)[OF a]] F(2)[OF a] by (metis le_neq_implies_less unsigned_word_eqI)
    then show "?I a \<subseteq> {unat b + 24 ..< unat (last bs)}"
      using mh_blocks_apart[OF ok F(1)[OF a] l] mh_blocks_range(1)[OF ok F(1)[OF a]] by fastforce
  qed simp
  finally show ?thesis by simp
qed

lemma mh_avail_word:
  assumes "mh_blocks b bs h" and "mh_available_size h = of_nat (mh_avail b bs h)"
  shows "unat (mh_available_size h) = mh_avail b bs h"
proof -
  have "mh_avail b bs h < 2 ^ 32" using mh_avail_bound[OF assms(1)] unsigned_less[of "last bs", where ?'a = nat] by simp
  then show ?thesis unfolding assms(2) by (simp add: unat_of_nat take_bit_nat_eq_self)
qed

lemma mh_alloc_locked_ok:
  assumes rep: "mh_rep b bs fs h" and pos: "0 < sz" and lim: "unat sz + 36 < 2 ^ 32"
  shows "mh_alloc_locked sz h = Some (None, h) \<and> (\<forall>a \<in> mh_free_set b bs h. MEMITEM_SIZE a h < sz) \<or>
     (\<exists>p bs' fs' h'. mh_alloc_locked sz h = Some (Some (p + RT_MEMHEAP_SIZE), h') \<and> p \<in> mh_free_set b bs h \<and>
        mh_rep b bs' fs' h' \<and> mh_used_set b bs' h' = insert p (mh_used_set b bs h) \<and> sz \<le> MEMITEM_SIZE p h' \<and>
        (\<forall>a \<in> mh_used_set b bs h. MEMITEM_SIZE a h' = MEMITEM_SIZE a h) \<and> mh_data h' = mh_data h)"
proof -
  note r = mh_repD[OF rep]
  have fre: "ring (fre h) (mh_free_list h) ([] @ fs)" using r(2,3) by simp
  have start: "it_next_free (mh_items h (mh_free_list h)) = hd (fs @ [mh_free_list h])"
    using ring_neighbours(1)[OF fre] by (simp add: fre_def)
  from mh_search_ok[OF fre pos] obtain fsz p where
    s: "mh_search sz 0 (it_next_free (mh_items h (mh_free_list h))) h = Some (fsz, p)"
       "sz \<le> fsz \<longrightarrow> p \<in> set fs \<and> fsz = MEMITEM_SIZE p h" "fsz < sz \<longrightarrow> (\<forall>a \<in> set fs. MEMITEM_SIZE a h < sz)"
    unfolding start by blast
  show ?thesis
  proof (cases "sz \<le> fsz")
    case False
    then show ?thesis using s r(5) by (simp add: mh_alloc_locked_def)
  next
    case True
    then have p: "p \<in> set fs" "fsz = MEMITEM_SIZE p h" using s(2) by auto
    have pin: "p \<in> mh_free_set b bs h" using p(1) r(5) by simp
    then have pb: "p \<in> set (b # bs)" "\<not> RT_MEMHEAP_IS_USED p h" by (simp_all add: mh_free_set_def)
    define h' where "h' = mh_take sz fsz p h"
    have run: "mh_alloc_locked sz h = Some (Some (p + RT_MEMHEAP_SIZE), h')" using s(1) True by (simp add: mh_alloc_locked_def h'_def)
    have "sz + RT_MEMHEAP_SIZE + RT_MEMHEAP_MINIALLOC = of_nat (unat sz + 36)" by simp
    then have w: "unat (sz + RT_MEMHEAP_SIZE + RT_MEMHEAP_MINIALLOC) = unat sz + 36"
      using lim by (simp only: unat_of_nat) (simp add: take_bit_nat_eq_self)
    show ?thesis
    proof (cases "unat sz + 36 \<le> unat fsz")
      case False
      then have "\<not> fsz \<ge> sz + RT_MEMHEAP_SIZE + RT_MEMHEAP_MINIALLOC" by (simp only: word_le_nat_alt w) simp
      note t = mh_take_whole[OF rep p(1) this p(2) h'_def]
      have "mh_used_set b bs h' = insert p (mh_used_set b bs h)" using t pb by (auto simp: mh_used_set_def)
      moreover have "sz \<le> MEMITEM_SIZE p h'" using t True p(2) by simp
      ultimately show ?thesis using run pin t by blast
    next
      case big: True
      have "p \<noteq> last bs" using pb r(1) by (auto simp: mh_blocks_def)
      with mh_blocks_at[OF r(1) pb(1)] obtain us vs where uv: "bs = us @ vs" "vs \<noteq> []" "p = last (b # us)" by blast
      note t = mh_take_part[OF rep[unfolded uv(1)] uv(2,3) p(1) big p(2) refl h'_def, folded uv(1)]
      let ?n = "p + sz + RT_MEMHEAP_SIZE"
      have n: "?n \<notin> set (b # bs)" using t by blast
      have used: "RT_MEMHEAP_IS_USED a h' \<longleftrightarrow> a = p \<or> a \<noteq> ?n \<and> RT_MEMHEAP_IS_USED a h" for a using t by blast
      have "mh_used_set b (us @ ?n # vs) h' = insert p (mh_used_set b bs h)"
        using n pb by (auto simp: mh_used_set_def used uv(1))
      moreover have "sz \<le> MEMITEM_SIZE p h'" using t by (simp add: word_le_nat_alt)
      moreover have "MEMITEM_SIZE a h' = MEMITEM_SIZE a h" if "a \<in> mh_used_set b bs h" for a
      proof -
        have "a \<noteq> p" "a \<noteq> ?n" using that pb(2) n by (auto simp: mh_used_set_def)
        then show ?thesis using t by blast
      qed
      ultimately show ?thesis using run pin t by blast
    qed
  qed
qed

section \<open>Freeing\<close>

text \<open>The states between the pointer updates: the free blocks in \<open>ex\<close> are not in the free list
  yet, and a free block with a free block behind it is in \<open>A\<close>.\<close>

definition mh_part :: "u32 \<Rightarrow> u32 list \<Rightarrow> u32 list \<Rightarrow> u32 set \<Rightarrow> u32 set \<Rightarrow> rt_memheap \<Rightarrow> bool" where
  "mh_part b bs fs ex A h \<longleftrightarrow>
     mh_blocks b bs h \<and> mh_frees b bs fs h \<and> set fs \<union> ex = mh_free_set b bs h \<and> set fs \<inter> ex = {} \<and>
     (\<forall>a \<in> set (b # bs). \<not> RT_MEMHEAP_IS_USED a h \<longrightarrow> \<not> RT_MEMHEAP_IS_USED (it_next (mh_items h a)) h \<longrightarrow> a \<in> A) \<and>
     unat (mh_available_size h) = mh_avail b bs h"

lemma mh_part_rep: "mh_part b bs fs {} {} h = mh_rep b bs fs h"
  unfolding mh_part_def mh_rep_def by auto

lemma mh_part_drop:
  assumes "mh_part b bs fs ex (insert a A) h" and "RT_MEMHEAP_IS_USED a h \<or> RT_MEMHEAP_IS_USED (it_next (mh_items h a)) h"
  shows "mh_part b bs fs ex A h"
  using assms unfolding mh_part_def by blast

lemma mh_blocks_back:
  assumes "mh_blocks b bs h" and "a \<in> set (b # bs)"
  shows "it_prev (mh_items h (it_next (mh_items h a))) = a"
proof -
  have r: "ring (blk h) b bs" using assms(1) by (simp add: mh_blocks_def)
  obtain us vs where "bs = us @ vs" "a = last (b # us)"
  proof (cases "a = b")
    case True
    then show ?thesis using that[of "[]" bs] by simp
  next
    case False
    then obtain xs ys where "bs = xs @ a # ys" using assms(2) split_list by force
    then show ?thesis using that[of "xs @ [a]" ys] by simp
  qed
  then show ?thesis using ring_neighbours[of "blk h" b us vs] r by (simp add: blk_def)
qed

lemma mh_mark_free:
  assumes rep: "mh_rep b bs fs h" and x: "x \<in> mh_used_set b bs h" "x \<noteq> last bs"
    and h1: "h1 = upd_item x (\<lambda>i. i\<lparr>it_magic := it_magic i AND NOT RT_MEMHEAP_USED\<rparr>) h"
    and h2: "h2 = h1\<lparr>mh_available_size := mh_available_size h1 + MEMITEM_SIZE x h1\<rparr>"
  shows "mh_part b bs fs {x} {it_prev (mh_items h x), x} h2"
proof -
  note r = mh_repD[OF rep]
  have xb: "x \<in> set (b # bs)" "RT_MEMHEAP_IS_USED x h" using x(1) by (simp_all add: mh_used_set_def)
  have sel: "it_next (mh_items h2 a) = it_next (mh_items h a)" "it_prev (mh_items h2 a) = it_prev (mh_items h a)"
    "it_pool_ptr (mh_items h2 a) = it_pool_ptr (mh_items h a)" "mh_address h2 = mh_address h"
    "it_magic (mh_items h2 a) = (if a = x then it_magic (mh_items h a) AND NOT RT_MEMHEAP_USED else it_magic (mh_items h a))"
    "mh_free_header h2 = mh_free_header h" "mh_free_list h2 = mh_free_list h" "fre h2 = fre h" for a
    by (auto simp: h2 h1 upd_item_def fre_def fun_eq_iff)
  have used: "RT_MEMHEAP_IS_USED a h2 \<longleftrightarrow> a \<noteq> x \<and> RT_MEMHEAP_IS_USED a h" for a
    unfolding RT_MEMHEAP_IS_USED_def sel(5) by (cases "a = x") (simp_all only: used_clear(1) if_True if_False simp_thms)
  have size: "MEMITEM_SIZE a h2 = MEMITEM_SIZE a h" for a by (simp add: MEMITEM_SIZE_def sel)
  have "blk h2 = blk h" by (simp add: blk_def sel fun_eq_iff)
  then have blocks: "mh_blocks b bs h2"
    using r(1) x(2) unfolding mh_blocks_def used sel(3,4,5) using used_clear(2) by auto
  have fset: "mh_free_set b bs h2 = insert x (mh_free_set b bs h)" using xb by (auto simp: mh_free_set_def used)
  have nx: "x \<notin> mh_free_set b bs h" using xb by (simp add: mh_free_set_def)
  have av: "mh_available_size h2 = of_nat (mh_avail b bs h2)"
  proof -
    have "mh_available_size h2 = mh_available_size h + MEMITEM_SIZE x h" by (simp add: h2 h1 upd_item_def MEMITEM_SIZE_def)
    also have "\<dots> = of_nat (mh_avail b bs h + unat (MEMITEM_SIZE x h))" using r(7) by (metis of_nat_add of_nat_unat ucast_id)
    also have "mh_avail b bs h + unat (MEMITEM_SIZE x h) = mh_avail b bs h2" unfolding mh_avail_def fset size using nx by simp
    finally show ?thesis .
  qed
  have "a = it_prev (mh_items h x) \<or> a = x"
    if a: "a \<in> set (b # bs)" "\<not> RT_MEMHEAP_IS_USED a h2" "\<not> RT_MEMHEAP_IS_USED (it_next (mh_items h2 a)) h2" for a
  proof (rule ccontr)
    assume n: "\<not> ?thesis"
    then have "\<not> RT_MEMHEAP_IS_USED a h" using a(2) by (simp add: used)
    from r(6)[OF a(1) this] have "it_next (mh_items h a) = x" using a(3) by (simp add: used sel(1))
    then show False using mh_blocks_back[OF r(1) a(1)] n by simp
  qed
  then have adj: "\<forall>a \<in> set (b # bs). \<not> RT_MEMHEAP_IS_USED a h2 \<longrightarrow> \<not> RT_MEMHEAP_IS_USED (it_next (mh_items h2 a)) h2 \<longrightarrow>
      a \<in> {it_prev (mh_items h x), x}" by blast
  have fr: "mh_frees b bs fs h2" using r(2,3,9) by (simp add: mh_frees_def sel)
  have "set fs \<union> {x} = mh_free_set b bs h2" "set fs \<inter> {x} = {}" using fset r(5) nx by auto
  then show ?thesis unfolding mh_part_def using blocks fr adj mh_avail_word[OF blocks av] by blast
qed

lemma fre_avail [simp]: "fre (h\<lparr>mh_available_size := v\<rparr>) = fre h"
  by (simp add: fre_def)

lemma mh_merge:
  assumes part: "mh_part b (us @ n # vs) fs ex A h" and vs: "vs \<noteq> []" and p: "p = last (b # us)"
    and free: "\<not> RT_MEMHEAP_IS_USED p h" "\<not> RT_MEMHEAP_IS_USED n h"
    and sel: "\<And>a. it_next (mh_items h' a) = it_next (mh_items (mh_join p n h) a)" "\<And>a. it_prev (mh_items h' a) = it_prev (mh_items (mh_join p n h) a)"
      "\<And>a. it_magic (mh_items h' a) = it_magic (mh_items (mh_join p n h) a)" "\<And>a. it_pool_ptr (mh_items h' a) = it_pool_ptr (mh_items (mh_join p n h) a)"
      "mh_address h' = mh_address (mh_join p n h)" "mh_free_header h' = mh_free_header h" "mh_free_list h' = mh_free_list h"
      "mh_available_size h' = mh_available_size h + RT_MEMHEAP_SIZE"
    and fs': "ring (fre h') (mh_free_header h) fs'" "set fs' \<union> ex' = set fs \<union> ex - {n}" "set fs' \<inter> ex' = {}"
    and A': "A - {p, n} \<subseteq> A'" "n \<in> A \<Longrightarrow> p \<in> A'"
  shows "mh_part b (us @ vs) fs' ex' A' h'"
proof -
  have ok: "mh_blocks b (us @ n # vs) h" and frees: "mh_frees b (us @ n # vs) fs h" and ss: "set fs \<union> ex = mh_free_set b (us @ n # vs) h"
    and adj: "\<And>a. a \<in> set (b # us @ n # vs) \<Longrightarrow> \<not> RT_MEMHEAP_IS_USED a h \<Longrightarrow> \<not> RT_MEMHEAP_IS_USED (it_next (mh_items h a)) h \<Longrightarrow> a \<in> A"
    and av: "unat (mh_available_size h) = mh_avail b (us @ n # vs) h"
    using part unfolding mh_part_def by blast+
  have nv: "n # vs \<noteq> []" by simp
  note dp = mh_blocksD[OF ok nv, folded p, simplified]
  have "mh_blocks b ((us @ [n]) @ vs) h" using ok by simp
  note dn = mh_blocksD[OF this vs, simplified]
  have dist: "n \<notin> set (b # us @ vs)" using ok ring_distinct[of "blk h" b "us @ n # vs"] by (auto simp: mh_blocks_def)
  note c = mh_cong[of h' "mh_join p n h", OF sel(1-5)]
  have blocks: "mh_blocks b (us @ vs) h'" unfolding c(1) by (rule mh_blocks_join[OF ok vs p])
  have used: "RT_MEMHEAP_IS_USED a h' = RT_MEMHEAP_IS_USED a h" for a by (simp add: RT_MEMHEAP_IS_USED_def sel)
  have nxt: "it_next (mh_items h' a) = (if a = p then hd vs else it_next (mh_items h a))" for a by (simp add: sel(1) dn(1))
  have size: "MEMITEM_SIZE a h' = MEMITEM_SIZE a h" if "a \<noteq> p" for a using that by (simp add: MEMITEM_SIZE_def nxt)
  have pin: "p \<in> mh_free_set b (us @ vs) h'" using dp(6) free(1) by (auto simp: mh_free_set_def used)
  have fset: "mh_free_set b (us @ vs) h' = mh_free_set b (us @ n # vs) h - {n}" using dist by (auto simp: mh_free_set_def used)
  have nin: "n \<in> mh_free_set b (us @ n # vs) h" using free(2) by (simp add: mh_free_set_def)
  have av': "mh_available_size h' = of_nat (mh_avail b (us @ vs) h')"
  proof -
    let ?F = "mh_free_set b (us @ vs) h'"
    have "mh_avail b (us @ vs) h' = unat (MEMITEM_SIZE p h') + (\<Sum>a \<in> ?F - {p}. unat (MEMITEM_SIZE a h))"
      unfolding mh_avail_def using pin size by (subst sum.remove[of _ p]) simp_all
    moreover have "mh_avail b (us @ n # vs) h = unat (MEMITEM_SIZE n h) + unat (MEMITEM_SIZE p h) + (\<Sum>a \<in> ?F - {p}. unat (MEMITEM_SIZE a h))"
      unfolding mh_avail_def fset using nin pin[unfolded fset] by (subst sum.remove[of _ n], simp, simp, subst sum.remove[of _ p]) simp_all
    moreover have "unat (MEMITEM_SIZE p h') = unat (MEMITEM_SIZE p h) + 24 + unat (MEMITEM_SIZE n h)"
      using mh_blocksD(4)[OF blocks vs, folded p] dp(3,4) dn(3,4) by simp
    ultimately have "mh_avail b (us @ vs) h' = unat (mh_available_size h) + 24" using av by simp
    then show ?thesis using sel(8) by simp
  qed
  have "a \<in> A'" if a: "a \<in> set (b # us @ vs)" "\<not> RT_MEMHEAP_IS_USED a h'" "\<not> RT_MEMHEAP_IS_USED (it_next (mh_items h' a)) h'" for a
  proof (cases "a = p")
    case True
    then have "n \<in> A" using a(3) adj[of n] free(2) dn(1) by (simp add: used nxt)
    then show ?thesis using A'(2) True by simp
  next
    case False
    then have "a \<in> A" "a \<noteq> n" using a adj[of a] dist by (auto simp: used nxt)
    then show ?thesis using A'(1) False by blast
  qed
  then have adj': "\<forall>a \<in> set (b # us @ vs). \<not> RT_MEMHEAP_IS_USED a h' \<longrightarrow> \<not> RT_MEMHEAP_IS_USED (it_next (mh_items h' a)) h' \<longrightarrow> a \<in> A'" by blast
  have fr: "mh_frees b (us @ vs) fs' h'" using frees fs'(1) vs sel(6,7) by (simp add: mh_frees_def)
  have "set fs' \<union> ex' = mh_free_set b (us @ vs) h'" using fs'(2) ss fset by simp
  then show ?thesis unfolding mh_part_def using blocks fr fs'(3) adj' mh_avail_word[OF blocks av'] by blast
qed

lemma mh_merge_right:
  assumes part: "mh_part b (us @ vs) fs ex {y} h" and vs: "vs \<noteq> []" and y: "y = last (b # us)" "\<not> RT_MEMHEAP_IS_USED y h" "ex \<subseteq> {y}"
    and n: "n = it_next (mh_items h y)"
    and h': "h' = (if \<not> RT_MEMHEAP_IS_USED n h
       then mh_free_unlink n (mh_join y n (h\<lparr>mh_available_size := mh_available_size h + RT_MEMHEAP_SIZE\<rparr>)) else h)"
  shows "\<exists>bs' fs'. mh_part b bs' fs' ex {} h' \<and> mh_used_set b bs' h' = mh_used_set b (us @ vs) h \<and>
     (\<forall>a. a \<noteq> y \<longrightarrow> it_next (mh_items h' a) = it_next (mh_items h a)) \<and> mh_data h' = mh_data h"
proof (cases "RT_MEMHEAP_IS_USED n h")
  case True
  then have "mh_part b (us @ vs) fs ex {} h'" using mh_part_drop[OF part] n h' by simp
  then show ?thesis using True h' by fastforce
next
  case False
  have ok: "mh_blocks b (us @ vs) h" and ss: "set fs \<union> ex = mh_free_set b (us @ vs) h" "set fs \<inter> ex = {}" "ring (fre h) (mh_free_header h) fs"
    using part by (simp_all add: mh_part_def mh_frees_def)
  note d = mh_blocksD[OF ok vs, folded y(1) n]
  have "n \<noteq> last vs" using False ok vs by (auto simp: mh_blocks_def)
  then obtain ws where ws: "vs = n # ws" "ws \<noteq> []" using vs d(1) n by (cases vs) (auto split: if_splits)
  have "n \<in> mh_free_set b (us @ vs) h" "n \<noteq> y" using False ws d(5) by (auto simp: mh_free_set_def)
  then have nf: "n \<in> set fs" using ss(1) y(3) by blast
  obtain xs zs where xz: "fs = xs @ n # zs" using split_list[OF nf] by blast
  have nd: "n \<notin> set (xs @ zs)" using ring_distinct[OF ss(3)] xz by auto
  have e: "h' = mh_free_unlink n (mh_join y n (h\<lparr>mh_available_size := mh_available_size h + RT_MEMHEAP_SIZE\<rparr>))" using h' False by simp
  let ?j = "mh_join y n (h\<lparr>mh_available_size := mh_available_size h + RT_MEMHEAP_SIZE\<rparr>)"
  have "ring (fre ?j) (mh_free_header h) (xs @ n # zs)" using ss(3) xz by simp
  from mh_free_unlink_ring[OF this] have ring': "ring (fre h') (mh_free_header h) (xs @ zs)" by (simp only: e)
  have "mh_part b (us @ ws) (xs @ zs) ex {} h'"
  proof (rule mh_merge[OF part[unfolded ws(1)] ws(2) y(1,2) False _ _ _ _ _ _ _ _ ring'])
    show "set (xs @ zs) \<union> ex = set fs \<union> ex - {n}" using nd xz y(3) \<open>n \<noteq> y\<close> by auto
    show "set (xs @ zs) \<inter> ex = {}" using ss(2) xz by auto
  qed (use \<open>n \<noteq> y\<close> in \<open>simp_all add: e\<close>)
  moreover have "mh_used_set b (us @ ws) h' = mh_used_set b (us @ vs) h"
    using False by (auto simp: mh_used_set_def ws(1) RT_MEMHEAP_IS_USED_def e)
  moreover have "\<forall>a. a \<noteq> y \<longrightarrow> it_next (mh_items h' a) = it_next (mh_items h a)" "mh_data h' = mh_data h" by (simp_all add: e)
  ultimately show ?thesis by blast
qed

lemma mh_merge_left:
  assumes part: "mh_part b bs fs {x} {pr, x} h" and x: "x \<in> set (b # bs)" "x \<noteq> last bs" "\<not> RT_MEMHEAP_IS_USED x h"
    and pr: "pr = it_prev (mh_items h x)" and left: "left = (\<not> RT_MEMHEAP_IS_USED pr h)" and y: "y = (if left then pr else x)"
    and h': "h' = (if left then mh_join pr x (h\<lparr>mh_available_size := mh_available_size h + RT_MEMHEAP_SIZE\<rparr>) else h)"
  shows "\<exists>us vs. vs \<noteq> [] \<and> y = last (b # us) \<and> mh_part b (us @ vs) fs (if left then {} else {x}) {y} h' \<and> \<not> RT_MEMHEAP_IS_USED y h' \<and>
     mh_used_set b (us @ vs) h' = mh_used_set b bs h \<and> (\<forall>a. a \<noteq> y \<longrightarrow> it_next (mh_items h' a) = it_next (mh_items h a)) \<and>
     mh_data h' = mh_data h"
proof (cases left)
  case False
  then have "mh_part b bs fs {x} {x} h" using mh_part_drop[OF part] by (simp add: left)
  moreover have "mh_blocks b bs h" using part by (simp add: mh_part_def)
  from mh_blocks_at[OF this x(1,2)] obtain us vs where "bs = us @ vs" "vs \<noteq> []" "x = last (b # us)" by blast
  ultimately show ?thesis using False x(3) y h' by (intro exI[of _ us] exI[of _ vs]) simp
next
  case True
  have ok: "mh_blocks b bs h" and ss: "set fs \<inter> {x} = {}" "ring (fre h) (mh_free_header h) fs"
    using part by (simp_all add: mh_part_def mh_frees_def)
  have "x \<noteq> b"
  proof
    assume "x = b"
    then have "pr = last bs" using ring_neighbours(2)[of "blk h" b bs "[]"] ok by (simp add: mh_blocks_def pr blk_def)
    then show False using True ok by (simp add: left mh_blocks_def)
  qed
  then obtain us vs where uv: "bs = us @ x # vs" using x(1) split_list by force
  have vs: "vs \<noteq> []" using x(2) uv by auto
  have p: "pr = last (b # us)" "pr \<noteq> x" using mh_blocksD(2,5)[of b us "x # vs" h] ok uv by (simp_all add: pr)
  have "mh_part b (us @ vs) fs {} {pr} h'"
    by (rule mh_merge[OF part[unfolded uv] vs p(1)]) (use True p(2) ss x(3) in \<open>simp_all add: left h'\<close>)
  moreover have "mh_used_set b (us @ vs) h' = mh_used_set b bs h"
    using True x(3) by (auto simp: mh_used_set_def uv RT_MEMHEAP_IS_USED_def h')
  moreover have "\<not> RT_MEMHEAP_IS_USED pr h'" using True by (simp add: left h' RT_MEMHEAP_IS_USED_def)
  ultimately show ?thesis using True vs p y by (intro exI[of _ us] exI[of _ vs]) (simp add: h')
qed

lemma mh_part_insert:
  assumes part: "mh_part b bs fs {y} {} h"
  shows "mh_rep b bs (y # fs) (mh_free_insert y h)" "mh_used_set b bs (mh_free_insert y h) = mh_used_set b bs h"
proof -
  have p: "mh_blocks b bs h" "ring (fre h) (mh_free_header h) fs" "mh_free_list h = mh_free_header h"
    "unat (mh_free_header h) < unat b \<or> unat (last bs) < unat (mh_free_header h)"
    "set fs \<union> {y} = mh_free_set b bs h" "set fs \<inter> {y} = {}" "unat (mh_available_size h) = mh_avail b bs h"
    "\<And>a. a \<in> set (b # bs) \<Longrightarrow> \<not> RT_MEMHEAP_IS_USED a h \<Longrightarrow> RT_MEMHEAP_IS_USED (it_next (mh_items h a)) h"
    using part unfolding mh_part_def mh_frees_def by blast+
  note c = mh_cong[of "mh_free_insert y h" h, simplified]
  have "y \<in> set (b # bs)" using p(5) by (auto simp: mh_free_set_def)
  then have "y \<noteq> mh_free_header h" using mh_blocks_range[OF p(1), of y] p(4) by auto
  then have r: "ring (fre (mh_free_insert y h)) (mh_free_header h) (y # fs)" using mh_free_insert_ring[OF p(2,3)] p(6) by simp
  show "mh_rep b bs (y # fs) (mh_free_insert y h)"
    by (rule mh_repI) (use p c r in auto)
  show "mh_used_set b bs (mh_free_insert y h) = mh_used_set b bs h" by (simp add: mh_used_set_def c)
qed

lemma mh_free_locked_ok:
  assumes rep: "mh_rep b bs fs h" and x: "x \<in> mh_used_set b bs h" "x \<noteq> last bs" and h': "h' = mh_free_locked x h"
  shows "\<exists>bs' fs'. mh_rep b bs' fs' h' \<and> mh_used_set b bs' h' = mh_used_set b bs h - {x} \<and>
     (\<forall>a \<in> mh_used_set b bs h - {x}. MEMITEM_SIZE a h' = MEMITEM_SIZE a h) \<and> mh_data h' = mh_data h"
proof -
  note r = mh_repD[OF rep]
  have xb: "x \<in> set (b # bs)" "RT_MEMHEAP_IS_USED x h" using x(1) by (simp_all add: mh_used_set_def)
  define g where "g = upd_item x (\<lambda>i. i\<lparr>it_magic := it_magic i AND NOT RT_MEMHEAP_USED\<rparr>) h"
  define h1 where "h1 = g\<lparr>mh_available_size := mh_available_size g + MEMITEM_SIZE x g\<rparr>"
  define pr where "pr = it_prev (mh_items h x)"
  have p1: "mh_part b bs fs {x} {pr, x} h1" unfolding pr_def by (rule mh_mark_free[OF rep x g_def h1_def])
  have sel1: "it_next (mh_items h1 a) = it_next (mh_items h a)" "it_prev (mh_items h1 a) = it_prev (mh_items h a)" "mh_data h1 = mh_data h" for a
    by (auto simp: h1_def g_def upd_item_def)
  have used1: "RT_MEMHEAP_IS_USED a h1 \<longleftrightarrow> a \<noteq> x \<and> RT_MEMHEAP_IS_USED a h" for a
    unfolding RT_MEMHEAP_IS_USED_def h1_def g_def upd_item_def using used_clear(1) by simp
  have us1: "mh_used_set b bs h1 = mh_used_set b bs h - {x}" by (auto simp: mh_used_set_def used1)
  define left where "left = (\<not> RT_MEMHEAP_IS_USED pr h1)"
  define h2 where "h2 = (if left then mh_join pr x (h1\<lparr>mh_available_size := mh_available_size h1 + RT_MEMHEAP_SIZE\<rparr>) else h1)"
  define y where "y = (if left then pr else x)"
  define n where "n = it_next (mh_items h2 y)"
  define h3 where "h3 = (if \<not> RT_MEMHEAP_IS_USED n h2
       then mh_free_unlink n (mh_join y n (h2\<lparr>mh_available_size := mh_available_size h2 + RT_MEMHEAP_SIZE\<rparr>)) else h2)"
  have e: "h' = (if left then h3 else mh_free_insert y h3)"
    by (simp add: h' mh_free_locked_def Let_def h3_def n_def y_def h2_def left_def pr_def h1_def g_def upd_item_def)
  let ?ex = "if left then {} else {x}"
  have x1: "\<not> RT_MEMHEAP_IS_USED x h1" by (simp add: used1)
  have pr1: "pr = it_prev (mh_items h1 x)" by (simp add: pr_def sel1)
  from mh_merge_left[OF p1 xb(1) x(2) x1 pr1 left_def y_def h2_def]
  obtain us vs where s: "vs \<noteq> []" "y = last (b # us)" "mh_part b (us @ vs) fs ?ex {y} h2" "\<not> RT_MEMHEAP_IS_USED y h2"
    "mh_used_set b (us @ vs) h2 = mh_used_set b bs h - {x}" "\<forall>a. a \<noteq> y \<longrightarrow> it_next (mh_items h2 a) = it_next (mh_items h a)"
    "mh_data h2 = mh_data h" using sel1 us1 by auto
  have "?ex \<subseteq> {y}" by (simp add: y_def)
  from mh_merge_right[OF s(3,1,2,4) this n_def h3_def] obtain bs' fs' where
    t: "mh_part b bs' fs' ?ex {} h3" "mh_used_set b bs' h3 = mh_used_set b bs h - {x}"
       "\<forall>a. a \<noteq> y \<longrightarrow> it_next (mh_items h3 a) = it_next (mh_items h a)" "mh_data h3 = mh_data h" using s(5,6,7) by auto
  have "\<exists>fs''. mh_rep b bs' fs'' h' \<and> mh_used_set b bs' h' = mh_used_set b bs h - {x}"
  proof (cases left)
    case True
    then show ?thesis using t(1,2) e by (auto simp: mh_part_rep)
  next
    case False
    then have "mh_part b bs' fs' {y} {} h3" using t(1) by (simp add: y_def)
    from mh_part_insert[OF this] show ?thesis using False t(2) e by auto
  qed
  moreover have "MEMITEM_SIZE a h' = MEMITEM_SIZE a h" if a: "a \<in> mh_used_set b bs h - {x}" for a
  proof -
    have "a \<noteq> y" using a used1 by (auto simp: y_def left_def mh_used_set_def split: if_splits)
    then show ?thesis using t(3) by (simp add: MEMITEM_SIZE_def e)
  qed
  moreover have "mh_data h' = mh_data h" using t(4) by (simp add: e)
  ultimately show ?thesis by blast
qed

end
