(* ===== verification/Memheap_Resize.thy ===== *)
theory Memheap_Resize
  imports Memheap
begin

text \<open>
  The resizing and the initialisation of a heap keep its shape, and what the three entry points
  rt_memheap_alloc, rt_memheap_free and rt_memheap_realloc promise their callers.
\<close>

section \<open>Resizing\<close>

lemma mh_next_in:
  assumes "mh_blocks b bs h" and "a \<in> set (b # bs)" and "a \<noteq> last bs"
  shows "it_next (mh_items h a) \<in> set bs"
proof -
  from mh_blocks_at[OF assms] obtain us vs where s: "bs = us @ vs" "vs \<noteq> []" "a = last (b # us)" by blast
  then show ?thesis using mh_blocksD(1,7)[of b us vs h] assms(1) by simp
qed

text \<open>Cutting a new free block n off the end of a used block x.\<close>

lemma mh_cut:
  assumes rep: "mh_rep b (us @ vs) fs h" and vs: "vs \<noteq> []" and x: "x = last (b # us)" "RT_MEMHEAP_IS_USED x h"
    and n: "apart x n" "apart n (hd vs)" and h1: "h1 = mh_split x n h"
    and h': "h' = h1\<lparr>mh_available_size := mh_available_size h + MEMITEM_SIZE n h1\<rparr>"
  shows "mh_part b (us @ n # vs) fs {n} {n} h'" "mh_used_set b (us @ n # vs) h' = mh_used_set b (us @ vs) h"
    "\<And>a. a \<noteq> x \<Longrightarrow> a \<noteq> n \<Longrightarrow> it_next (mh_items h' a) = it_next (mh_items h a)" "it_next (mh_items h' x) = n"
    "it_next (mh_items h' n) = hd vs" "n \<notin> set (b # us @ vs)" "mh_data h' = mh_data h" "\<not> RT_MEMHEAP_IS_USED n h'"
proof -
  note r = mh_repD[OF rep]
  note d = mh_blocksD[OF r(1) vs, folded x(1)]
  note sp = mh_blocks_split[OF r(1) vs x(1) n]
  show fresh: "n \<notin> set (b # us @ vs)" using sp by simp
  have np: "n \<noteq> x" "n \<noteq> hd vs" using n by auto
  note it = mh_split_items[of n x h, unfolded d(1), OF np]
  note nx = mh_split_next[of n x h, unfolded d(1), OF np]
  have items: "mh_items h' = mh_items h1" and sel: "mh_address h' = mh_address h1" "fre h' = fre h"
    "mh_free_header h' = mh_free_header h" "mh_free_list h' = mh_free_list h"
    by (simp_all add: h' h1)
  show "mh_data h' = mh_data h" by (simp add: h' h1)
  have blocks: "mh_blocks b (us @ n # vs) h'" using sp mh_cong(1)[of h' h1] items sel by (simp add: h1)
  have used: "RT_MEMHEAP_IS_USED a h' \<longleftrightarrow> a \<noteq> n \<and> RT_MEMHEAP_IS_USED a h" for a
    by (simp add: RT_MEMHEAP_IS_USED_def items h1 it(2))
  show "\<not> RT_MEMHEAP_IS_USED n h'" by (simp add: used)
  have nxt: "it_next (mh_items h' a) = (if a = x then n else if a = n then hd vs else it_next (mh_items h a))" for a
    by (simp add: items h1 nx)
  then show "it_next (mh_items h' x) = n" "it_next (mh_items h' n) = hd vs"
    "\<And>a. a \<noteq> x \<Longrightarrow> a \<noteq> n \<Longrightarrow> it_next (mh_items h' a) = it_next (mh_items h a)" using np by auto
  show "mh_used_set b (us @ n # vs) h' = mh_used_set b (us @ vs) h" using fresh by (auto simp: mh_used_set_def used)
  have fset: "mh_free_set b (us @ n # vs) h' = insert n (mh_free_set b (us @ vs) h)" using fresh by (auto simp: mh_free_set_def used)
  have nn: "n \<notin> mh_free_set b (us @ vs) h" using fresh by (simp add: mh_free_set_def)
  have size: "MEMITEM_SIZE a h' = MEMITEM_SIZE a h" if "a \<in> mh_free_set b (us @ vs) h" for a
    using that x(2) nn by (auto simp: mh_free_set_def MEMITEM_SIZE_def nxt)
  have "mh_avail b (us @ n # vs) h' = unat (MEMITEM_SIZE n h') + mh_avail b (us @ vs) h"
    unfolding mh_avail_def fset using nn size by simp
  moreover have "MEMITEM_SIZE n h1 = MEMITEM_SIZE n h'" by (simp add: MEMITEM_SIZE_def items)
  then have "mh_available_size h' = mh_available_size h + MEMITEM_SIZE n h'" by (simp add: h' h1)
  ultimately have av: "mh_available_size h' = of_nat (mh_avail b (us @ n # vs) h')"
    unfolding r(7)[symmetric] by simp
  have adj: "a = n" if a: "a \<in> set (b # us @ n # vs)" "\<not> RT_MEMHEAP_IS_USED a h'" "\<not> RT_MEMHEAP_IS_USED (it_next (mh_items h' a)) h'" for a
  proof (rule ccontr)
    assume an: "a \<noteq> n"
    then have a': "a \<in> set (b # us @ vs)" "\<not> RT_MEMHEAP_IS_USED a h" "a \<noteq> x" using a x(2) by (auto simp: used)
    then have "it_next (mh_items h a) = n" using a(3) an r(6)[OF a'(1,2)] by (simp add: nxt used)
    then have "n \<in> set (us @ vs)" using mh_next_in[OF r(1) a'(1)] a'(2) r(1) by (auto simp: mh_blocks_def)
    then show False using fresh by simp
  qed
  have fr: "mh_frees b (us @ n # vs) fs h'" using r(2,3,9) vs by (simp add: mh_frees_def sel)
  show "mh_part b (us @ n # vs) fs {n} {n} h'"
    unfolding mh_part_def using blocks fr fset r(5) nn adj mh_avail_word[OF blocks av] by blast
qed

text \<open>A used block x takes the free block n behind it in.\<close>

lemma mh_absorb:
  assumes rep: "mh_rep b (us @ n # vs) fs h" and vs: "vs \<noteq> []" and x: "x = last (b # us)" "RT_MEMHEAP_IS_USED x h"
    and n: "\<not> RT_MEMHEAP_IS_USED n h"
    and h': "h' = (mh_join x n (mh_free_unlink n h))\<lparr>mh_available_size := mh_available_size h - MEMITEM_SIZE n h\<rparr>"
  shows "\<exists>fs'. mh_rep b (us @ vs) fs' h'" "mh_used_set b (us @ vs) h' = mh_used_set b (us @ n # vs) h"
    "\<And>a. it_next (mh_items h' a) = (if a = x then hd vs else it_next (mh_items h a))"
    "\<And>a. RT_MEMHEAP_IS_USED a h' = RT_MEMHEAP_IS_USED a h" "RT_MEMHEAP_IS_USED (hd vs) h'" "mh_data h' = mh_data h"
proof -
  note r = mh_repD[OF rep]
  have "mh_blocks b ((us @ [n]) @ vs) h" using r(1) by simp
  note dn = mh_blocksD[OF this vs, simplified]
  have dist: "n \<notin> set (b # us @ vs)" using r(1) ring_distinct[of "blk h" b "us @ n # vs"] by (auto simp: mh_blocks_def)
  have nin: "n \<in> mh_free_set b (us @ n # vs) h" using n by (simp add: mh_free_set_def)
  then obtain ys zs where yz: "fs = ys @ n # zs" using r(5) split_list by metis
  have nd: "n \<notin> set (ys @ zs)" using r(8) yz by auto
  have "ring (fre (mh_free_unlink n h)) (mh_free_header h) (ys @ zs)" using mh_free_unlink_ring r(2) yz by simp
  then have ring': "ring (fre h') (mh_free_header h) (ys @ zs)" by (simp add: h')
  have sel: "it_magic (mh_items h' a) = it_magic (mh_items h a)" "mh_free_header h' = mh_free_header h"
    "mh_free_list h' = mh_free_list h" for a by (simp_all add: h')
  show nxt: "it_next (mh_items h' a) = (if a = x then hd vs else it_next (mh_items h a))" for a by (simp add: h' dn(1))
  show used: "RT_MEMHEAP_IS_USED a h' = RT_MEMHEAP_IS_USED a h" for a by (simp add: RT_MEMHEAP_IS_USED_def sel)
  show "RT_MEMHEAP_IS_USED (hd vs) h'" using r(6)[of n] n dn(1) by (simp add: used)
  show "mh_data h' = mh_data h" by (simp add: h')
  show "mh_used_set b (us @ vs) h' = mh_used_set b (us @ n # vs) h" using n by (auto simp: mh_used_set_def used)
  have "mh_blocks b (us @ vs) (mh_join x n h)" by (rule mh_blocks_join[OF r(1) vs x(1)])
  then have blocks: "mh_blocks b (us @ vs) h'" by (subst mh_cong(1)[of h' "mh_join x n h"]) (simp_all add: h')
  have fset: "mh_free_set b (us @ vs) h' = mh_free_set b (us @ n # vs) h - {n}" using dist by (auto simp: mh_free_set_def used)
  have size: "MEMITEM_SIZE a h' = MEMITEM_SIZE a h" if "a \<in> mh_free_set b (us @ n # vs) h" for a
    using that x(2) by (auto simp: mh_free_set_def MEMITEM_SIZE_def nxt)
  have "mh_avail b (us @ n # vs) h = unat (MEMITEM_SIZE n h) + mh_avail b (us @ vs) h'"
    unfolding mh_avail_def fset using nin size by (subst sum.remove[of _ n]) simp_all
  then have "mh_available_size h = MEMITEM_SIZE n h + of_nat (mh_avail b (us @ vs) h')"
    unfolding r(7)[symmetric] by (metis of_nat_add of_nat_unat ucast_id)
  moreover have "mh_available_size h' = mh_available_size h - MEMITEM_SIZE n h" by (simp add: h')
  ultimately have av: "mh_available_size h' = of_nat (mh_avail b (us @ vs) h')" by (metis add_diff_cancel_left')
  have adj: "RT_MEMHEAP_IS_USED (it_next (mh_items h' a)) h'" if "a \<in> set (b # us @ vs)" "\<not> RT_MEMHEAP_IS_USED a h'" for a
    using r(6)[of a] that x(2) by (auto simp: used nxt)
  have "set (ys @ zs) = mh_free_set b (us @ vs) h'" using fset r(5) yz nd by auto
  then have "mh_rep b (us @ vs) (ys @ zs) h'"
    by (intro mh_repI blocks) (use ring' r(3,9) vs adj mh_avail_word[OF blocks av] in \<open>simp_all add: sel\<close>)
  then show "\<exists>fs'. mh_rep b (us @ vs) fs' h'" by blast
qed

text \<open>The pointer updates and the counters are independent.\<close>

definition mh_counted :: "u32 \<Rightarrow> u32 \<Rightarrow> rt_memheap \<Rightarrow> rt_memheap" where
  "mh_counted v m h = h\<lparr>mh_available_size := v, mh_max_used_size := m\<rparr>"

lemma mh_counted_ops:
  "mh_free_unlink p (mh_counted v m h) = mh_counted v m (mh_free_unlink p h)"
  "mh_free_insert p (mh_counted v m h) = mh_counted v m (mh_free_insert p h)"
  "mh_join p n (mh_counted v m h) = mh_counted v m (mh_join p n h)"
  "mh_split p n (mh_counted v m h) = mh_counted v m (mh_split p n h)"
  "mh_items (mh_counted v m h) = mh_items h" "MEMITEM_SIZE p (mh_counted v m h) = MEMITEM_SIZE p h"
  "RT_MEMHEAP_IS_USED p (mh_counted v m h) = RT_MEMHEAP_IS_USED p h" "mh_counted v m (mh_counted v' m' h) = mh_counted v m h"
  "mh_available_size (mh_counted v m h) = v" "mh_max_used_size (mh_counted v m h) = m" "mh_data (mh_counted v m h) = mh_data h"
  "mh_free_header (mh_counted v m h) = mh_free_header h" "mh_free_list (mh_counted v m h) = mh_free_list h"
  "mh_max_used_size (mh_free_insert p h) = mh_max_used_size h"
  "h\<lparr>mh_available_size := v\<rparr> = mh_counted v (mh_max_used_size h) h"
  by (simp_all add: mh_counted_def mh_free_unlink_def mh_free_insert_def mh_join_def mh_split_def upd_item_def Let_def
      MEMITEM_SIZE_def RT_MEMHEAP_IS_USED_def)

lemma mh_account_counted: "\<exists>m. mh_account v h = mh_counted v m h"
proof -
  have "mh_account v h = mh_counted v (if mh_pool_size h - v > mh_max_used_size h then mh_pool_size h - v else mh_max_used_size h) h"
    by (simp add: mh_account_def mh_counted_def Let_def)
  then show ?thesis by blast
qed

lemma mh_rep_max: "mh_rep b bs fs (mh_counted v m h) = mh_rep b bs fs (mh_counted v m' h)"
  by (simp add: mh_rep_def mh_frees_def mh_blocks_def mh_free_set_def mh_avail_def MEMITEM_SIZE_def RT_MEMHEAP_IS_USED_def
      blk_def fre_def mh_counted_def)

lemma mh_new_header:
  assumes ok: "mh_blocks b (us @ vs) h" and vs: "vs \<noteq> []" and x: "x = last (b # us)"
    and room: "unat newsize + 24 \<le> unat (MEMITEM_SIZE x h)" and n: "n = x + newsize + RT_MEMHEAP_SIZE"
  shows "apart x n" "apart n (hd vs)" "unat n = unat x + unat newsize + 24"
proof -
  note d = mh_blocksD[OF ok vs, folded x]
  have "unat (hd vs) < 2 ^ 32" using unsigned_less[of "hd vs", where ?'a = nat] by simp
  moreover have "n = of_nat (unat x + unat newsize + 24)" by (simp add: n)
  ultimately show u: "unat n = unat x + unat newsize + 24"
    using d(3,4) room by (simp only: unat_of_nat) (simp add: take_bit_nat_eq_self)
  show "apart x n" "apart n (hd vs)" using u d(3,4) room by simp_all
qed

lemma mh_shrink_eq:
  assumes h1: "h1 = mh_split x n h" and n: "n = x + newsize + RT_MEMHEAP_SIZE" and q: "q = it_next (mh_items h1 n)"
    and h2: "h2 = h1\<lparr>mh_available_size := mh_available_size h + MEMITEM_SIZE n h1\<rparr>"
  shows "mh_shrink_locked (x + RT_MEMHEAP_SIZE) newsize h = mh_free_insert n
     (if \<not> RT_MEMHEAP_IS_USED q h2
      then mh_free_unlink q (mh_join n q (h2\<lparr>mh_available_size := mh_available_size h2 + RT_MEMHEAP_SIZE\<rparr>)) else h2)"
proof -
  have p: "x + RT_MEMHEAP_SIZE - RT_MEMHEAP_SIZE = x" by simp
  have e: "mh_shrink_locked (x + RT_MEMHEAP_SIZE) newsize h =
      (let g = mh_free_insert n (if \<not> RT_MEMHEAP_IS_USED q h1
         then mh_free_unlink q (mh_join n q (h1\<lparr>mh_available_size := mh_available_size h1 - MEMITEM_SIZE q h1\<rparr>)) else h1)
       in g\<lparr>mh_available_size := mh_available_size g + MEMITEM_SIZE n g\<rparr>)"
    by (simp only: mh_shrink_locked_def Let_def p q h1 n[symmetric])
  have sz: "MEMITEM_SIZE n (mh_free_insert n (mh_free_unlink q (mh_join n q h1))) = it_next (mh_items h1 q) - n - RT_MEMHEAP_SIZE"
    by (simp add: MEMITEM_SIZE_def)
  have sz': "MEMITEM_SIZE n (mh_free_insert n h1) = MEMITEM_SIZE n h1" by (simp add: MEMITEM_SIZE_def)
  have a: "mh_available_size h1 = mh_available_size h" by (simp add: h1)
  show ?thesis
    unfolding e Let_def h2 mh_counted_ops if_distrib[of "mh_free_insert n"]
    by (simp only: if_distrib[of mh_available_size] if_distrib[of "MEMITEM_SIZE n"] mh_counted_ops sz sz' a mh_free_ops_sel mh_join_sel split: if_split)
       (simp add: MEMITEM_SIZE_def q)
qed

lemma mh_shrink_ok:
  assumes rep: "mh_rep b bs fs h" and x: "x \<in> mh_used_set b bs h" "x \<noteq> last bs"
    and room: "unat newsize + 24 \<le> unat (MEMITEM_SIZE x h)" and h': "h' = mh_shrink_locked (x + RT_MEMHEAP_SIZE) newsize h"
  shows "\<exists>bs' fs'. mh_rep b bs' fs' h' \<and> mh_used_set b bs' h' = mh_used_set b bs h \<and> MEMITEM_SIZE x h' = newsize \<and>
     (\<forall>a \<in> mh_used_set b bs h - {x}. MEMITEM_SIZE a h' = MEMITEM_SIZE a h) \<and> mh_data h' = mh_data h"
proof -
  note r = mh_repD[OF rep]
  have xb: "x \<in> set (b # bs)" "RT_MEMHEAP_IS_USED x h" using x(1) by (simp_all add: mh_used_set_def)
  from mh_blocks_at[OF r(1) xb(1) x(2)] obtain us vs where uv: "bs = us @ vs" "vs \<noteq> []" "x = last (b # us)" by blast
  define n where "n = x + newsize + RT_MEMHEAP_SIZE"
  note nh = mh_new_header[OF r(1)[unfolded uv(1)] uv(2,3) room n_def]
  have xn: "x \<noteq> n" using nh(1) by auto
  define h1 where "h1 = mh_split x n h"
  define h2 where "h2 = h1\<lparr>mh_available_size := mh_available_size h + MEMITEM_SIZE n h1\<rparr>"
  note c = mh_cut[OF rep[unfolded uv(1)] uv(2,3) xb(2) nh(1,2) h1_def h2_def]
  define q where "q = hd vs"
  define h3 where "h3 = (if \<not> RT_MEMHEAP_IS_USED q h2
       then mh_free_unlink q (mh_join n q (h2\<lparr>mh_available_size := mh_available_size h2 + RT_MEMHEAP_SIZE\<rparr>)) else h2)"
  have "mh_part b ((us @ [n]) @ vs) fs {n} {n} h2" "n = last (b # us @ [n])" "q = it_next (mh_items h2 n)" using c(1,5) by (simp_all add: q_def)
  from mh_merge_right[OF this(1) uv(2) this(2) c(8) _ this(3) h3_def] obtain bs' fs' where
    t: "mh_part b bs' fs' {n} {} h3" "mh_used_set b bs' h3 = mh_used_set b bs h"
       "\<forall>a. a \<noteq> n \<longrightarrow> it_next (mh_items h3 a) = it_next (mh_items h2 a)" "mh_data h3 = mh_data h" using c(2,7) uv(1) by auto
  have "q = it_next (mh_items h1 n)" using c(5) by (simp add: h2_def q_def)
  from mh_shrink_eq[OF h1_def n_def this h2_def] have e: "h' = mh_free_insert n h3" unfolding h' h3_def .
  have nxt: "it_next (mh_items h' a) = (if a = x then n else it_next (mh_items h a))" if "a \<noteq> n" for a
    using that t(3) c(3,4) by (simp add: e)
  have "MEMITEM_SIZE x h' = newsize" using nxt[of x] xn by (simp add: MEMITEM_SIZE_def n_def)
  moreover have "MEMITEM_SIZE a h' = MEMITEM_SIZE a h" if "a \<in> mh_used_set b bs h - {x}" for a
    using that nxt[of a] c(6) by (auto simp: MEMITEM_SIZE_def mh_used_set_def uv(1))
  ultimately show ?thesis using mh_part_insert[OF t(1)] t(2,4) unfolding e by (metis mh_free_ops_sel(26))
qed

lemma mh_grow_run:
  assumes n: "n = it_next (mh_items h x)" and free: "\<not> RT_MEMHEAP_IS_USED n h" and prv: "it_prev (mh_items h n) = x" and up: "x < n"
    and cond: "MEMITEM_SIZE n h + MEMITEM_SIZE x h > newsize + RT_MEMHEAP_MINIALLOC"
    and n': "n' = x + newsize + RT_MEMHEAP_SIZE"
    and hA: "hA = (mh_join x n (mh_free_unlink n h))\<lparr>mh_available_size := mh_available_size h - MEMITEM_SIZE n h\<rparr>"
    and h1: "h1 = mh_split x n' hA" and h2: "h2 = h1\<lparr>mh_available_size := mh_available_size hA + MEMITEM_SIZE n' h1\<rparr>"
    and nx: "it_next (mh_items h1 n') = it_next (mh_items h n)"
  shows "\<exists>m. mh_grow_locked (x + RT_MEMHEAP_SIZE) newsize (MEMITEM_SIZE x h) h =
     Some (True, mh_counted (mh_available_size h2) m (mh_free_insert n' h2))"
proof -
  have p: "x + RT_MEMHEAP_SIZE - RT_MEMHEAP_SIZE = x" "x + RT_MEMHEAP_SIZE + newsize = n'" by (simp_all add: n')
  let ?v = "mh_available_size h - (newsize - MEMITEM_SIZE x h)"
  obtain m where m: "mh_account ?v h = mh_counted ?v m h" using mh_account_counted by blast
  have "mh_grow_locked (x + RT_MEMHEAP_SIZE) newsize (MEMITEM_SIZE x h) h =
      Some (True, mh_free_insert n' (mh_split x n' (mh_join x n (mh_free_unlink n (mh_counted ?v m h)))))"
    unfolding mh_grow_locked_def Let_def p n[symmetric] m using free up cond prv by (simp add: mh_counted_ops)
  also have "mh_free_insert n' (mh_split x n' (mh_join x n (mh_free_unlink n (mh_counted ?v m h)))) = mh_counted ?v m (mh_free_insert n' h2)"
    unfolding h2 h1 hA mh_counted_ops ..
  also have "?v = mh_available_size h2"
  proof -
    have "mh_available_size h2 = mh_available_size h - MEMITEM_SIZE n h + MEMITEM_SIZE n' h1" by (simp add: h2 hA)
    then show ?thesis unfolding MEMITEM_SIZE_def nx n[symmetric] by (simp add: n')
  qed
  finally show ?thesis by blast
qed

lemma mh_grow_ok:
  assumes rep: "mh_rep b bs fs h" and x: "x \<in> mh_used_set b bs h" "x \<noteq> last bs"
    and lim: "unat newsize + 12 < 2 ^ 32"
  shows "mh_grow_locked (x + RT_MEMHEAP_SIZE) newsize (MEMITEM_SIZE x h) h = Some (False, h) \<or>
     (\<exists>bs' fs' h'. mh_grow_locked (x + RT_MEMHEAP_SIZE) newsize (MEMITEM_SIZE x h) h = Some (True, h') \<and>
        mh_rep b bs' fs' h' \<and> mh_used_set b bs' h' = mh_used_set b bs h \<and> MEMITEM_SIZE x h' = newsize \<and>
        (\<forall>a \<in> mh_used_set b bs h - {x}. MEMITEM_SIZE a h' = MEMITEM_SIZE a h) \<and> mh_data h' = mh_data h)"
proof -
  note r = mh_repD[OF rep]
  have xb: "x \<in> set (b # bs)" "RT_MEMHEAP_IS_USED x h" using x(1) by (simp_all add: mh_used_set_def)
  from mh_blocks_at[OF r(1) xb(1) x(2)] obtain us vs where uv: "bs = us @ vs" "vs \<noteq> []" "x = last (b # us)" by blast
  note d = mh_blocksD[OF r(1)[unfolded uv(1)] uv(2), folded uv(3)]
  define n where "n = it_next (mh_items h x)"
  have nv: "n = hd vs" "x < n" using d(1,3) by (simp_all add: n_def word_less_nat_alt)
  show ?thesis
  proof (cases "\<not> RT_MEMHEAP_IS_USED n h \<and> MEMITEM_SIZE n h + MEMITEM_SIZE x h > newsize + RT_MEMHEAP_MINIALLOC")
    case False
    then show ?thesis using nv(2) unfolding mh_grow_locked_def Let_def n_def by auto
  next
    case True
    have "n \<noteq> last vs" using True r(1) uv(1,2) by (auto simp: mh_blocks_def)
    then obtain ws where ws: "vs = n # ws" "ws \<noteq> []" using uv(2) nv(1) by (cases vs) (auto split: if_splits)
    have uw: "bs = us @ n # ws" using uv(1) ws(1) by simp
    have "mh_blocks b ((us @ [n]) @ ws) h" using r(1) uw by simp
    note dn = mh_blocksD[OF this ws(2), simplified]
    define n' where "n' = x + newsize + RT_MEMHEAP_SIZE"
    define hA where "hA = (mh_join x n (mh_free_unlink n h))\<lparr>mh_available_size := mh_available_size h - MEMITEM_SIZE n h\<rparr>"
    note ab = mh_absorb[OF rep[unfolded uw] ws(2) uv(3) xb(2) _ hA_def]
    obtain fs' where rA: "mh_rep b (us @ ws) fs' hA" using ab(1) True by blast
    have sA: "unat (MEMITEM_SIZE x hA) = unat (MEMITEM_SIZE x h) + 24 + unat (MEMITEM_SIZE n h)"
      using mh_blocksD(4)[OF mh_repD(1)[OF rA] ws(2), folded uv(3)] d(3,4) dn(3,4) nv(1) by simp
    have "unat (newsize + RT_MEMHEAP_MINIALLOC) = unat newsize + 12" using lim by (simp add: unat_word_ariths)
    moreover have "unat (MEMITEM_SIZE n h + MEMITEM_SIZE x h) \<le> unat (MEMITEM_SIZE n h) + unat (MEMITEM_SIZE x h)"
      by (simp add: unat_word_ariths)
    ultimately have "unat newsize + 12 < unat (MEMITEM_SIZE n h) + unat (MEMITEM_SIZE x h)"
      using True by (simp only: word_less_nat_alt) linarith
    then have room: "unat newsize + 24 \<le> unat (MEMITEM_SIZE x hA)" using sA by simp
    note nh = mh_new_header[OF mh_repD(1)[OF rA] ws(2) uv(3) room n'_def]
    define h1 where "h1 = mh_split x n' hA"
    define h2 where "h2 = h1\<lparr>mh_available_size := mh_available_size hA + MEMITEM_SIZE n' h1\<rparr>"
    have xA: "RT_MEMHEAP_IS_USED x hA" using ab(4) True xb(2) by blast
    note c = mh_cut[OF rA ws(2) uv(3) xA nh(1,2) h1_def h2_def]
    have hw: "hd ws \<in> set (us @ ws)" "hd ws \<noteq> n'" using ws(2) c(6) by auto
    have "hd ws \<in> mh_used_set b (us @ ws) hA" using ab(5) True hw by (simp add: mh_used_set_def)
    then have "RT_MEMHEAP_IS_USED (hd ws) h2" using c(2) by (auto simp: mh_used_set_def)
    then have part: "mh_part b (us @ n' # ws) fs' {n'} {} h2" using mh_part_drop[OF c(1)] c(5) by simp
    have "it_prev (mh_items h n) = x" using d(2) nv(1) by simp
    moreover have "it_next (mh_items h1 n') = it_next (mh_items h n)" using c(5) dn(1) by (simp add: h2_def)
    ultimately obtain m where run: "mh_grow_locked (x + RT_MEMHEAP_SIZE) newsize (MEMITEM_SIZE x h) h =
        Some (True, mh_counted (mh_available_size h2) m (mh_free_insert n' h2))"
      using mh_grow_run[OF n_def _ _ nv(2) _ n'_def hA_def h1_def h2_def] True by blast
    let ?h = "mh_free_insert n' h2"
    define h' where "h' = mh_counted (mh_available_size h2) m ?h"
    have "mh_counted (mh_available_size h2) (mh_max_used_size ?h) ?h = ?h" by (simp add: mh_counted_def)
    then have rep': "mh_rep b (us @ n' # ws) (n' # fs') h'"
      using mh_part_insert(1)[OF part] mh_rep_max[of b _ _ "mh_available_size h2" m ?h "mh_max_used_size ?h"] by (simp add: h'_def)
    have "mh_used_set b (us @ n' # ws) h' = mh_used_set b (us @ n' # ws) h2"
      using mh_part_insert(2)[OF part] by (simp add: h'_def mh_used_set_def mh_counted_ops)
    then have used': "mh_used_set b (us @ n' # ws) h' = mh_used_set b bs h" using c(2) ab(2) True uw by simp
    have nxt: "it_next (mh_items h' a) = (if a = x then n' else it_next (mh_items h a))" if "a \<noteq> n'" for a
      using that c(3,4) ab(3) True by (simp add: h'_def mh_counted_ops)
    have xn: "x \<noteq> n'" using nh(1) by auto
    have "MEMITEM_SIZE x h' = newsize" using nxt[OF xn] by (simp add: MEMITEM_SIZE_def n'_def)
    moreover have "MEMITEM_SIZE a h' = MEMITEM_SIZE a h" if a: "a \<in> mh_used_set b bs h - {x}" for a
    proof -
      have "a \<in> mh_used_set b (us @ ws) hA" using a ab(2) True uw by blast
      then have "a \<noteq> n'" using c(6) by (auto simp: mh_used_set_def)
      then show ?thesis using a nxt by (simp add: MEMITEM_SIZE_def)
    qed
    moreover have "mh_data h' = mh_data h" using c(7) ab(6) True by (simp add: h'_def mh_counted_ops)
    ultimately show ?thesis using run rep' used' unfolding h'_def by blast
  qed
qed

section \<open>Initialisation\<close>

lemma mh_setup_eq:
  assumes "pool = RT_ALIGN_DOWN sz RT_ALIGN_SIZE" and "p = mh_free_header h" and "p \<noteq> a" and "t = a + pool - RT_MEMHEAP_SIZE"
  shows "mh_setup a sz h = upd_item t (\<lambda>_. \<lparr>it_magic = RT_MEMHEAP_MAGIC OR RT_MEMHEAP_USED, it_pool_ptr = mh_address h,
       it_next = a, it_prev = a, it_next_free = 0, it_prev_free = 0\<rparr>)
    (mh_free_insert a (h\<lparr>mh_start_addr := a, mh_pool_size := pool, mh_available_size := pool - 2 * RT_MEMHEAP_SIZE, mh_max_used_size := 48,
     mh_free_list := p,
     mh_items := (mh_items h)(p := mh_blank_item (mh_address h) p,
       a := (mh_blank_item (mh_address h) a)\<lparr>it_next := t, it_prev := t\<rparr>), mh_block_list := a\<rparr>))"
  using assms(3) unfolding mh_setup_def assms(1)[symmetric]
  by (simp add: upd_item_def assms(2)[symmetric], simp only: Let_def assms(4))

lemma mh_setup_ok:
  assumes pool: "pool = RT_ALIGN_DOWN sz RT_ALIGN_SIZE" "48 \<le> unat pool" "unat a + unat pool < 2 ^ 32"
    and hdr: "unat (mh_free_header h) < unat a \<or> unat a + unat pool \<le> unat (mh_free_header h)"
    and t: "t = a + pool - RT_MEMHEAP_SIZE" and h': "h' = mh_setup a sz h"
  shows "mh_rep a [t] [a] h'" "mh_available_size h' = pool - 48" "mh_used_set a [t] h' = {t}"
proof -
  define p where "p = mh_free_header h"
  have "t = of_nat (unat a + (unat pool - 24))" using pool(2) by (simp add: t of_nat_diff)
  then have ut: "unat t = unat a + (unat pool - 24)"
    using pool(2,3) by (simp only: unat_of_nat) (simp add: take_bit_nat_eq_self)
  have ne: "a \<noteq> t" "p \<noteq> a" "p \<noteq> t" using ut pool(2) hdr by (auto simp: p_def)
  define g where "g = mh_free_insert a (h\<lparr>mh_start_addr := a, mh_pool_size := pool, mh_available_size := pool - 2 * RT_MEMHEAP_SIZE, mh_max_used_size := 48,
     mh_free_list := p,
     mh_items := (mh_items h)(p := mh_blank_item (mh_address h) p,
       a := (mh_blank_item (mh_address h) a)\<lparr>it_next := t, it_prev := t\<rparr>), mh_block_list := a\<rparr>)"
  have g: "mh_items g = (mh_items h)(p := \<lparr>it_magic = RT_MEMHEAP_MAGIC, it_pool_ptr = mh_address h, it_next = 0, it_prev = 0, it_next_free = a, it_prev_free = a\<rparr>,
       a := \<lparr>it_magic = RT_MEMHEAP_MAGIC, it_pool_ptr = mh_address h, it_next = t, it_prev = t, it_next_free = p, it_prev_free = p\<rparr>)"
    "mh_address g = mh_address h" "mh_free_header g = p" "mh_free_list g = p" "mh_available_size g = pool - 48"
    using ne(2) by (simp_all add: g_def mh_free_insert_def upd_item_def mh_blank_item_def Let_def fun_eq_iff p_def)
  have e: "h' = g\<lparr>mh_items := (mh_items g)(t := \<lparr>it_magic = RT_MEMHEAP_MAGIC OR RT_MEMHEAP_USED, it_pool_ptr = mh_address h,
       it_next = a, it_prev = a, it_next_free = 0, it_prev_free = 0\<rparr>)\<rparr>"
    unfolding h' mh_setup_eq[OF pool(1) p_def ne(2) t] g_def[symmetric] by (simp add: upd_item_def)
  note [simp] = ne ne[symmetric] g(2-5)
  have it: "mh_items h' a = \<lparr>it_magic = RT_MEMHEAP_MAGIC, it_pool_ptr = mh_address h, it_next = t, it_prev = t, it_next_free = p, it_prev_free = p\<rparr>"
    "mh_items h' t = \<lparr>it_magic = RT_MEMHEAP_MAGIC OR RT_MEMHEAP_USED, it_pool_ptr = mh_address h, it_next = a, it_prev = a, it_next_free = 0, it_prev_free = 0\<rparr>"
    "mh_items h' p = \<lparr>it_magic = RT_MEMHEAP_MAGIC, it_pool_ptr = mh_address h, it_next = 0, it_prev = 0, it_next_free = a, it_prev_free = a\<rparr>"
    by (simp_all add: e g(1))
  have sel: "mh_free_header h' = p" "mh_free_list h' = p" "mh_address h' = mh_address h" by (simp_all add: e)
  show av: "mh_available_size h' = pool - 48" by (simp add: e)
  have used: "RT_MEMHEAP_IS_USED a h' = False" "RT_MEMHEAP_IS_USED t h' = True" by (simp_all add: RT_MEMHEAP_IS_USED_def it)
  then show "mh_used_set a [t] h' = {t}" by (auto simp: mh_used_set_def)
  have blocks: "mh_blocks a [t] h'" using ut pool(2) by (simp add: mh_blocks_def used ring_def blk_def it sel)
  have fset: "mh_free_set a [t] h' = {a}" using used by (auto simp: mh_free_set_def)
  have "MEMITEM_SIZE a h' = pool - 48" by (simp add: MEMITEM_SIZE_def it t)
  then have "unat (mh_available_size h') = mh_avail a [t] h'" by (simp add: mh_avail_def fset av)
  moreover have "ring (fre h') (mh_free_header h') [a]" by (simp add: ring_def fre_def it sel)
  moreover have "unat (mh_free_header h') < unat a \<or> unat (last [t]) < unat (mh_free_header h')"
    using hdr ut pool(2) by (auto simp: sel p_def)
  ultimately show "mh_rep a [t] [a] h'" using blocks used by (intro mh_repI) (auto simp: fset sel it split: if_splits)
qed

section \<open>The entry points\<close>

lemma mh_lock_free:
  assumes "sem_ok k lock" and "0 < sem_value (sems k lock)"
  shows "\<exists>k1. rt_sem_take lock FOREVER k = Some (Return RT_EOK, k1) \<and> rt_sem_release lock k1 = Some k"
  using assms by (auto simp: rt_sem_take_def rt_sem_release_def tlist_isempty_def sem_ok_def upd_sem_def)

lemma mh_request_min: "12 \<le> unat (mh_request sz)"
  by (auto simp: mh_request_def Let_def word_less_nat_alt)

text \<open>What is promised of a new block p of at least sz bytes.\<close>

definition mh_new_block :: "u32 \<Rightarrow> u32 list \<Rightarrow> u32 \<Rightarrow> rt_memheap \<Rightarrow> u32 \<Rightarrow> rt_memheap \<Rightarrow> bool" where
  "mh_new_block b bs sz h p h' \<longleftrightarrow>
     p \<in> mh_free_set b bs h \<and>
     (\<exists>bs' fs'. mh_rep b bs' fs' h' \<and> mh_used_set b bs' h' = insert p (mh_used_set b bs h)) \<and>
     sz \<le> MEMITEM_SIZE p h' \<and>
     (\<forall>a \<in> mh_used_set b bs h. MEMITEM_SIZE a h' = MEMITEM_SIZE a h \<and>
        (unat a + 24 + unat (MEMITEM_SIZE a h) \<le> unat p \<or> unat p + 24 + unat (MEMITEM_SIZE p h') \<le> unat a)) \<and>
     mh_data h' = mh_data h"

lemma mh_alloc_ok:
  assumes rep: "mh_rep b bs fs h" and b: "12 \<le> unat b" and lk: "sem_ok k lock" "0 < sem_value (sems k lock)"
  shows "\<exists>r h'. rt_memheap_alloc lock sz h k = Some (Return r, h', k) \<and>
     (case r of None \<Rightarrow> h' = h \<and> (mh_available_size h \<le> mh_request sz \<or> (\<forall>a \<in> mh_free_set b bs h. MEMITEM_SIZE a h < mh_request sz))
      | Some ptr \<Rightarrow> \<exists>p. ptr = p + RT_MEMHEAP_SIZE \<and> mh_new_block b bs (mh_request sz) h p h')"
proof (cases "mh_request sz < mh_available_size h")
  case False
  then show ?thesis by (auto simp: rt_memheap_alloc_def Let_def not_less)
next
  case True
  note r = mh_repD[OF rep]
  let ?s = "mh_request sz"
  obtain k1 where k1: "rt_sem_take lock FOREVER k = Some (Return RT_EOK, k1)" "rt_sem_release lock k1 = Some k"
    using mh_lock_free[OF lk] by blast
  have run: "rt_memheap_alloc lock sz h k = mh_alloc_taken lock RT_EOK ?s h k1" using True k1(1) by (simp add: rt_memheap_alloc_def)
  have "unat ?s < mh_avail b bs h" using True r(7) by (simp add: word_less_nat_alt)
  moreover have "unat (last bs) < 2 ^ 32" using unsigned_less[of "last bs", where ?'a = nat] by simp
  ultimately have lim: "unat ?s + 36 < 2 ^ 32" using mh_avail_bound[OF r(1)] b by linarith
  have pos: "0 < ?s" using mh_request_min[of sz] by (auto simp: word_gt_0)
  from mh_alloc_locked_ok[OF rep pos lim] show ?thesis
  proof (elim disjE exE conjE)
    assume "mh_alloc_locked ?s h = Some (None, h)" "\<forall>a \<in> mh_free_set b bs h. MEMITEM_SIZE a h < ?s"
    then show ?thesis using run k1(2) by (simp add: mh_alloc_taken_def)
  next
    fix p bs' fs' h'
    assume a: "mh_alloc_locked ?s h = Some (Some (p + RT_MEMHEAP_SIZE), h')" "p \<in> mh_free_set b bs h" "mh_rep b bs' fs' h'"
      "mh_used_set b bs' h' = insert p (mh_used_set b bs h)" "?s \<le> MEMITEM_SIZE p h'"
      "\<forall>a \<in> mh_used_set b bs h. MEMITEM_SIZE a h' = MEMITEM_SIZE a h" "mh_data h' = mh_data h"
    have "unat c + 24 + unat (MEMITEM_SIZE c h) \<le> unat p \<or> unat p + 24 + unat (MEMITEM_SIZE p h') \<le> unat c"
      if c: "c \<in> mh_used_set b bs h" for c
    proof -
      have "c \<in> set (b # bs')" "p \<in> set (b # bs')" using a(4) c by (auto simp: mh_used_set_def)
      moreover have "c \<noteq> p" using c a(2) by (auto simp: mh_used_set_def mh_free_set_def)
      ultimately show ?thesis using mh_blocks_disjoint[OF mh_repD(1)[OF a(3)], of c p] a(6) c by simp
    qed
    then have "mh_new_block b bs ?s h p h'" using a unfolding mh_new_block_def by blast
    then show ?thesis using run k1(2) a(1) by (auto simp: mh_alloc_taken_def)
  qed
qed

lemma mh_block_end:
  assumes ok: "mh_blocks b bs h" and x: "x \<in> set (b # bs)" "x \<noteq> last bs"
  shows "unat x + 24 + unat (MEMITEM_SIZE x h) \<le> unat (last bs)" "unat (last bs) < 2 ^ 32"
proof -
  have "unat x < unat (last bs)" using mh_blocks_range(2)[OF ok x(1)] x(2) by (metis le_neq_implies_less unsigned_word_eqI)
  then show "unat x + 24 + unat (MEMITEM_SIZE x h) \<le> unat (last bs)" using mh_blocks_apart[OF ok x(1), of "last bs"] ok by (simp add: mh_blocks_def)
  show "unat (last bs) < 2 ^ 32" using unsigned_less[of "last bs", where ?'a = nat] by simp
qed

lemma mh_pointer_nonnull:
  assumes "mh_blocks b bs h" and "x \<in> set (b # bs)" "x \<noteq> last bs"
  shows "x + RT_MEMHEAP_SIZE \<noteq> 0"
proof -
  have "unat (x + RT_MEMHEAP_SIZE) = unat x + 24" using mh_block_end[OF assms] by (simp add: unat_word_ariths)
  then show ?thesis by (metis add_is_0 numeral_neq_zero unat_0)
qed

lemma mh_free_ok:
  assumes rep: "mh_rep b bs fs h" and x: "x \<in> mh_used_set b bs h" "x \<noteq> last bs" and lk: "sem_ok k lock" "0 < sem_value (sems k lock)"
  shows "rt_memheap_free lock (x + RT_MEMHEAP_SIZE) h k = Some (Return (), mh_free_locked x h, k)"
proof -
  note r = mh_repD[OF rep]
  obtain k1 where k1: "rt_sem_take lock FOREVER k = Some (Return RT_EOK, k1)" "rt_sem_release lock k1 = Some k"
    using mh_lock_free[OF lk] by blast
  have xb: "x \<in> set (b # bs)" "RT_MEMHEAP_IS_USED x h" using x(1) by (simp_all add: mh_used_set_def)
  have nz: "x + RT_MEMHEAP_SIZE \<noteq> 0" by (rule mh_pointer_nonnull[OF r(1) xb(1) x(2)])
  have "it_next (mh_items h x) \<in> set (b # bs)" using mh_next_in[OF r(1) xb(1) x(2)] by simp
  moreover have "it_magic (mh_items h a) AND RT_MEMHEAP_MASK = RT_MEMHEAP_MAGIC \<and> it_pool_ptr (mh_items h a) = mh_address h"
    if "a \<in> set (b # bs)" for a using r(1) that unfolding mh_blocks_def by blast
  ultimately have m: "it_magic (mh_items h x) AND RT_MEMHEAP_MASK = RT_MEMHEAP_MAGIC" "it_pool_ptr (mh_items h x) = mh_address h"
    "it_magic (mh_items h (it_next (mh_items h x))) AND RT_MEMHEAP_MASK = RT_MEMHEAP_MAGIC" using xb(1) by blast+
  have p: "x + RT_MEMHEAP_SIZE - RT_MEMHEAP_SIZE = x" by simp
  show ?thesis unfolding rt_memheap_free_def Let_def p using nz m xb(2) k1 by (simp add: RT_MEMHEAP_IS_USED_def mh_free_taken_def)
qed

lemma mh_request_again:
  assumes "unat (mh_request sz) + 4 \<le> 2 ^ 32"
  shows "mh_request (mh_request sz) = mh_request sz"
proof -
  let ?m = "mh_request sz"
  have "unat ?m mod 2 ^ 2 = 0"
  proof (cases "RT_ALIGN sz RT_ALIGN_SIZE < RT_MEMHEAP_MINIALLOC")
    case False
    then have "unat ?m = unat (RT_ALIGN_DOWN (sz + RT_ALIGN_SIZE - 1) RT_ALIGN_SIZE)" by (simp add: mh_request_def RT_ALIGN_def RT_ALIGN_DOWN_def)
    also have "\<dots> = unat (sz + RT_ALIGN_SIZE - 1) - unat (sz + RT_ALIGN_SIZE - 1) mod 2 ^ 2" by (rule align_down_unat) simp
    also have "\<dots> mod 2 ^ 2 = 0" by (simp add: minus_mod_eq_mult_div)
    finally show ?thesis .
  qed (simp add: mh_request_def)
  then have "unat (RT_ALIGN ?m RT_ALIGN_SIZE) = unat ?m"
    using align_up_unat[of RT_ALIGN_SIZE 2 ?m] assms by (simp add: mod_add_left_eq[symmetric])
  then have "RT_ALIGN ?m RT_ALIGN_SIZE = ?m" by (rule unsigned_word_eqI)
  then show ?thesis unfolding mh_request_def[of ?m] Let_def using mh_request_min[of sz] by (simp add: word_less_nat_alt)
qed

lemma mh_copy_in: "i < n \<Longrightarrow> mh_data (mh_copy dst src n h) (dst + i) = mh_data h (src + i)"
  by (simp add: mh_copy_def)

lemma mh_copy_out:
  assumes "unat dst + unat n \<le> 2 ^ 32" and "unat z < unat dst \<or> unat dst + unat n \<le> unat z"
  shows "mh_data (mh_copy dst src n h) z = mh_data h z"
proof -
  have z: "unat z < 2 ^ 32" using unsigned_less[of z, where ?'a = nat] by simp
  have "\<not> z - dst < n"
  proof (cases "unat z < unat dst")
    case True
    then have "unat (z - dst) = 2 ^ 32 + unat z - unat dst" by (simp add: unat_sub_if' word_le_nat_alt)
    then show ?thesis using assms(1) by (simp add: word_less_nat_alt)
  next
    case False
    then have "unat (z - dst) = unat z - unat dst" by (subst unat_sub) (simp_all add: word_le_nat_alt)
    then show ?thesis using assms False by (simp add: word_less_nat_alt)
  qed
  then show ?thesis by (simp add: mh_copy_def)
qed

lemma mh_copy_rep:
  "mh_rep b bs fs (mh_copy dst src n h) = mh_rep b bs fs h" "mh_used_set b bs (mh_copy dst src n h) = mh_used_set b bs h"
  "MEMITEM_SIZE a (mh_copy dst src n h) = MEMITEM_SIZE a h"
  by (simp_all add: mh_rep_def mh_frees_def mh_blocks_def mh_free_set_def mh_used_set_def mh_avail_def MEMITEM_SIZE_def RT_MEMHEAP_IS_USED_def
      blk_def fre_def mh_copy_def)

text \<open>What is promised when the block x was resized to sz bytes and now is the block y: the other
  blocks in use keep their sizes and bytes, and y starts with the bytes of x.\<close>

definition mh_resized :: "u32 \<Rightarrow> u32 list \<Rightarrow> u32 \<Rightarrow> u32 \<Rightarrow> rt_memheap \<Rightarrow> u32 \<Rightarrow> rt_memheap \<Rightarrow> bool" where
  "mh_resized b bs x sz h y h' \<longleftrightarrow>
     (\<exists>bs' fs'. mh_rep b bs' fs' h' \<and> mh_used_set b bs' h' = insert y (mh_used_set b bs h - {x})) \<and>
     sz \<le> MEMITEM_SIZE y h' \<and>
     (\<forall>a \<in> mh_used_set b bs h - {x, last bs}. MEMITEM_SIZE a h' = MEMITEM_SIZE a h \<and>
        (\<forall>i < MEMITEM_SIZE a h. mh_data h' (a + RT_MEMHEAP_SIZE + i) = mh_data h (a + RT_MEMHEAP_SIZE + i))) \<and>
     (\<forall>i < MEMITEM_SIZE x h. i < sz \<longrightarrow> mh_data h' (y + RT_MEMHEAP_SIZE + i) = mh_data h (x + RT_MEMHEAP_SIZE + i))"

lemma mh_resized_in_place:
  assumes "mh_rep b bs' fs' h'" and "mh_used_set b bs' h' = mh_used_set b bs h" and "x \<in> mh_used_set b bs h" and "sz \<le> MEMITEM_SIZE x h'"
    and "\<forall>a \<in> mh_used_set b bs h - {x}. MEMITEM_SIZE a h' = MEMITEM_SIZE a h" and "mh_data h' = mh_data h"
  shows "mh_resized b bs x sz h x h'"
proof -
  have "mh_used_set b bs' h' = insert x (mh_used_set b bs h - {x})" using assms(2,3) by blast
  then show ?thesis using assms(1,4,5,6) unfolding mh_resized_def by auto
qed

text \<open>A byte of a block in use lies outside the other blocks.\<close>

lemma mh_byte_outside:
  assumes ok: "mh_blocks b bs h" and a: "a \<in> set (b # bs)" "a \<noteq> last bs" and y: "y \<in> set (b # bs)" "y \<noteq> last bs" "a \<noteq> y"
    and i: "i < MEMITEM_SIZE a h" and n: "n \<le> MEMITEM_SIZE y h" and z: "z = a + RT_MEMHEAP_SIZE + i" and dst: "dst = y + RT_MEMHEAP_SIZE"
  shows "unat dst + unat n \<le> 2 ^ 32" "unat z < unat dst \<or> unat dst + unat n \<le> unat z"
proof -
  note ends = mh_block_end[OF ok]
  note l = ends(2)[OF a]
  have "dst = of_nat (unat y + 24)" by (simp add: dst)
  then have ud: "unat dst = unat y + 24"
    using ends(1)[OF y(1,2)] l by (simp only: unat_of_nat) (simp add: take_bit_nat_eq_self)
  have iu: "unat i < unat (MEMITEM_SIZE a h)" "unat n \<le> unat (MEMITEM_SIZE y h)" using i n by (simp_all add: word_less_nat_alt word_le_nat_alt)
  have "z = of_nat (unat a + 24 + unat i)" by (simp add: z)
  then have uz: "unat z = unat a + 24 + unat i"
    using ends(1)[OF a] l iu by (simp only: unat_of_nat) (simp add: take_bit_nat_eq_self)
  show "unat dst + unat n \<le> 2 ^ 32" using ends(1)[OF y(1,2)] l iu ud by simp
  show "unat z < unat dst \<or> unat dst + unat n \<le> unat z" using mh_blocks_disjoint[OF ok a(1) y(1,3)] iu ud uz by linarith
qed

lemma mh_not_last:
  assumes "mh_blocks b bs h" "mh_blocks b bs1 h1" and "last bs \<in> set (b # bs1)" and "a \<in> set (b # bs)" "a \<noteq> last bs"
  shows "a \<noteq> last bs1"
  using mh_blocks_range(2)[OF assms(1,4)] mh_blocks_range(2)[OF assms(2,3)] assms(5) by (metis le_antisym unsigned_word_eqI)

lemma mh_move_ok:
  assumes rep: "mh_rep b bs fs h" and x: "x \<in> mh_used_set b bs h" "x \<noteq> last bs" and lk: "sem_ok k lock" "0 < sem_value (sems k lock)"
    and y: "mh_new_block b bs sz h y h1" and old: "oldsize = MEMITEM_SIZE x h" "oldsize < sz"
  shows "\<exists>h'. mh_realloc_move lock (Some (y + RT_MEMHEAP_SIZE)) (x + RT_MEMHEAP_SIZE) sz oldsize h1 k = Some (Return (Some (y + RT_MEMHEAP_SIZE)), h', k) \<and>
     mh_resized b bs x sz h y h'"
proof -
  from y obtain bs1 fs1 where y': "y \<in> mh_free_set b bs h" "mh_rep b bs1 fs1 h1" "mh_used_set b bs1 h1 = insert y (mh_used_set b bs h)" "sz \<le> MEMITEM_SIZE y h1"
    "\<forall>a \<in> mh_used_set b bs h. MEMITEM_SIZE a h1 = MEMITEM_SIZE a h" "mh_data h1 = mh_data h" unfolding mh_new_block_def by blast
  let ?dst = "y + RT_MEMHEAP_SIZE" and ?src = "x + RT_MEMHEAP_SIZE"
  define h2 where "h2 = mh_copy ?dst ?src oldsize h1"
  define h3 where "h3 = mh_free_locked x h2"
  note r1 = mh_repD[OF y'(2)]
  have l: "last bs \<in> mh_used_set b bs h" using mh_repD(1)[OF rep] by (simp add: mh_blocks_def mh_used_set_def)
  then have l1: "last bs \<in> set (b # bs1)" using y'(3) by (auto simp: mh_used_set_def)
  note nl = mh_not_last[OF mh_repD(1)[OF rep] r1(1) l1]
  have in1: "a \<in> set (b # bs1)" if "a \<in> insert y (mh_used_set b bs h)" for a using that unfolding y'(3)[symmetric] by (simp add: mh_used_set_def)
  have xy: "x \<noteq> y" using x(1) y'(1) by (auto simp: mh_used_set_def mh_free_set_def)
  have xl: "x \<noteq> last bs1" using nl[of x] x by (simp add: mh_used_set_def)
  have "y \<in> set (b # bs)" "y \<noteq> last bs" using y'(1) l by (auto simp: mh_used_set_def mh_free_set_def)
  then have yl: "y \<noteq> last bs1" by (rule nl)
  have rep2: "mh_rep b bs1 fs1 h2" "mh_used_set b bs1 h2 = insert y (mh_used_set b bs h)" using y'(2,3) by (simp_all add: h2_def mh_copy_rep)
  have x2: "x \<in> mh_used_set b bs1 h2" using rep2(2) x(1) by simp
  from mh_free_locked_ok[OF rep2(1) x2 xl h3_def] obtain bs3 fs3 where
    f: "mh_rep b bs3 fs3 h3" "mh_used_set b bs3 h3 = insert y (mh_used_set b bs h - {x})"
       "\<forall>a \<in> insert y (mh_used_set b bs h) - {x}. MEMITEM_SIZE a h3 = MEMITEM_SIZE a h2" "mh_data h3 = mh_data h2"
    using rep2(2) xy by auto
  have run: "mh_realloc_move lock (Some ?dst) ?src sz oldsize h1 k = Some (Return (Some ?dst), h3, k)"
    using mh_free_ok[OF rep2(1) x2 xl lk] old(2) by (simp add: mh_realloc_move_def h2_def h3_def)
  have le: "oldsize \<le> MEMITEM_SIZE y h1" using old(2) y'(4) by simp
  have "MEMITEM_SIZE a h3 = MEMITEM_SIZE a h \<and> (\<forall>i < MEMITEM_SIZE a h. mh_data h3 (a + RT_MEMHEAP_SIZE + i) = mh_data h (a + RT_MEMHEAP_SIZE + i))"
    if a: "a \<in> mh_used_set b bs h - {x, last bs}" for a
  proof -
    have sz: "MEMITEM_SIZE a h1 = MEMITEM_SIZE a h" using y'(5) a by simp
    then have "MEMITEM_SIZE a h3 = MEMITEM_SIZE a h" using f(3) a by (simp add: h2_def mh_copy_rep)
    moreover have "mh_data h3 (a + RT_MEMHEAP_SIZE + i) = mh_data h (a + RT_MEMHEAP_SIZE + i)" if i: "i < MEMITEM_SIZE a h" for i
    proof -
      have al: "a \<noteq> last bs1" "a \<noteq> y" using nl[of a] a y'(1) by (auto simp: mh_used_set_def mh_free_set_def)
      have "i < MEMITEM_SIZE a h1" using i sz by simp
      from mh_byte_outside[OF r1(1) _ al(1) _ yl al(2) this le refl refl] show ?thesis
        using in1 a unfolding f(4) y'(6)[symmetric] h2_def by (intro mh_copy_out) blast+
    qed
    ultimately show ?thesis by blast
  qed
  moreover have "mh_data h3 (?dst + i) = mh_data h (?src + i)" if "i < MEMITEM_SIZE x h" for i
    using that mh_copy_in[of i oldsize ?dst ?src h1] y'(6) by (simp add: f(4) h2_def old(1))
  moreover have "sz \<le> MEMITEM_SIZE y h3" using f(3) xy y'(4) by (simp add: h2_def mh_copy_rep)
  ultimately have "mh_resized b bs x sz h y h3" using f(1,2) unfolding mh_resized_def by blast
  then show ?thesis using run by blast
qed

lemma mh_realloc_ok:
  assumes rep: "mh_rep b bs fs h" and b: "12 \<le> unat b" and x: "x \<in> mh_used_set b bs h" "x \<noteq> last bs"
    and lk: "sem_ok k lock" "0 < sem_value (sems k lock)" and nz: "newsize \<noteq> 0" and lim: "unat (mh_request newsize) + 12 < 2 ^ 32"
  shows "\<exists>r h'. rt_memheap_realloc lock (x + RT_MEMHEAP_SIZE) newsize h k = Some (Return r, h', k) \<and>
     (case r of None \<Rightarrow> h' = h | Some ptr \<Rightarrow> \<exists>y. ptr = y + RT_MEMHEAP_SIZE \<and> mh_resized b bs x (mh_request newsize) h y h')"
proof -
  let ?s = "mh_request newsize" and ?p = "x + RT_MEMHEAP_SIZE" and ?o = "MEMITEM_SIZE x h"
  have p: "?p - RT_MEMHEAP_SIZE = x" by simp
  have xb: "x \<in> set (b # bs)" using x(1) by (simp add: mh_used_set_def)
  have pz: "?p \<noteq> 0" by (rule mh_pointer_nonnull[OF mh_repD(1)[OF rep] xb x(2)])
  obtain k1 where k1: "rt_sem_take lock FOREVER k = Some (Return RT_EOK, k1)" "rt_sem_release lock k1 = Some k"
    using mh_lock_free[OF lk] by blast
  consider (grow) "?o < ?s" | (same) "\<not> ?o < ?s" "?s + RT_MEMHEAP_SIZE + RT_MEMHEAP_MINIALLOC \<ge> ?o" | (shrink) "\<not> ?o < ?s" "\<not> ?s + RT_MEMHEAP_SIZE + RT_MEMHEAP_MINIALLOC \<ge> ?o"
    by blast
  then show ?thesis
  proof cases
    case same
    then have "rt_memheap_realloc lock ?p newsize h k = Some (Return (Some ?p), h, k)"
      unfolding rt_memheap_realloc_def Let_def p using nz pz by simp
    moreover have "mh_resized b bs x ?s h x h" by (rule mh_resized_in_place[OF rep refl x(1)]) (use same in auto)
    ultimately show ?thesis by auto
  next
    case shrink
    have "unat ?o + 36 < 2 ^ 32" using mh_block_end[OF mh_repD(1)[OF rep] xb x(2)] mh_blocks_range(1)[OF mh_repD(1)[OF rep] xb] b by linarith
    moreover have "unat ?s \<le> unat ?o" using shrink(1) by (simp add: word_less_nat_alt)
    moreover have "?s + RT_MEMHEAP_SIZE + RT_MEMHEAP_MINIALLOC = of_nat (unat ?s + 36)" by simp
    ultimately have "unat (?s + RT_MEMHEAP_SIZE + RT_MEMHEAP_MINIALLOC) = unat ?s + 36"
      by (simp only: unat_of_nat) (simp add: take_bit_nat_eq_self)
    then have room: "unat ?s + 24 \<le> unat ?o" using shrink(2) by (simp only: word_le_nat_alt)
    define h' where "h' = mh_shrink_locked ?p ?s h"
    have run: "rt_memheap_realloc lock ?p newsize h k = Some (Return (Some ?p), h', k)"
      unfolding rt_memheap_realloc_def Let_def p using nz pz shrink k1 by (simp add: mh_realloc_shrink_def h'_def)
    from mh_shrink_ok[OF rep x room h'_def] obtain bs' fs' where
      "mh_rep b bs' fs' h'" "mh_used_set b bs' h' = mh_used_set b bs h" "MEMITEM_SIZE x h' = ?s"
      "\<forall>a \<in> mh_used_set b bs h - {x}. MEMITEM_SIZE a h' = MEMITEM_SIZE a h" "mh_data h' = mh_data h" by blast
    then have "mh_resized b bs x ?s h x h'" by (intro mh_resized_in_place[OF _ _ x(1)]) auto
    then show ?thesis using run by auto
  next
    case grow
    have start: "rt_memheap_realloc lock ?p newsize h k = mh_realloc_grow lock RT_EOK ?p ?s ?o h k1"
      unfolding rt_memheap_realloc_def Let_def p using nz pz grow k1 by simp
    have lim4: "unat ?s + 4 \<le> 2 ^ 32" using lim by simp
    from mh_grow_ok[OF rep x lim] show ?thesis
    proof (elim disjE exE conjE)
      assume "mh_grow_locked ?p ?s ?o h = Some (False, h)"
      then have run: "rt_memheap_realloc lock ?p newsize h k =
          do { (r, h, k) \<leftarrow> rt_memheap_alloc lock ?s h k;
               case r of Blocked \<Rightarrow> Some (Blocked, h, k) | Return q \<Rightarrow> mh_realloc_move lock q ?p ?s ?o h k }"
        using start k1(2) by (simp add: mh_realloc_grow_def)
      from mh_alloc_ok[OF rep b lk, of ?s, unfolded mh_request_again[OF lim4]]
      obtain r h1 where al: "rt_memheap_alloc lock ?s h k = Some (Return r, h1, k)"
        "r = None \<longrightarrow> h1 = h" "\<And>ptr. r = Some ptr \<Longrightarrow> \<exists>y. ptr = y + RT_MEMHEAP_SIZE \<and> mh_new_block b bs ?s h y h1" by force
      show ?thesis
      proof (cases r)
        case None
        then show ?thesis using run al by (simp add: mh_realloc_move_def)
      next
        case (Some ptr)
        then obtain y where y: "ptr = y + RT_MEMHEAP_SIZE" "mh_new_block b bs ?s h y h1" using al(3) by blast
        from mh_move_ok[OF rep x lk y(2) refl grow] show ?thesis using run al(1) Some y(1) by force
      qed
    next
      fix bs' fs' h'
      assume g: "mh_grow_locked ?p ?s ?o h = Some (True, h')" "mh_rep b bs' fs' h'" "mh_used_set b bs' h' = mh_used_set b bs h"
        "MEMITEM_SIZE x h' = ?s" "\<forall>a \<in> mh_used_set b bs h - {x}. MEMITEM_SIZE a h' = MEMITEM_SIZE a h" "mh_data h' = mh_data h"
      have "mh_resized b bs x ?s h x h'" by (rule mh_resized_in_place[OF g(2,3) x(1)]) (use g(4,5,6) in auto)
      then show ?thesis using start g(1) k1(2) by (auto simp: mh_realloc_grow_def)
    qed
  qed
qed

text \<open>A heap without blocks in use is one free block.\<close>

lemma mh_one_block:
  assumes rep: "mh_rep b bs fs h" and one: "mh_used_set b bs h = {t}"
  shows "bs = [t] \<and> fs = [b] \<and> mh_available_size h = MEMITEM_SIZE b h"
proof -
  note r = mh_repD[OF rep]
  have ne: "bs \<noteq> []" using r(1) by (simp add: mh_blocks_def)
  have l: "last bs = t" using r(1) one by (auto simp: mh_blocks_def mh_used_set_def)
  have "b \<noteq> t" using ring_distinct[of "blk h" b bs] r(1) l ne by (auto simp: mh_blocks_def)
  then have bf: "\<not> RT_MEMHEAP_IS_USED b h" using one by (auto simp: mh_used_set_def)
  have nb: "it_next (mh_items h b) = hd bs" using mh_blocksD(1)[of b "[]" bs h] r(1) ne by simp
  then have "RT_MEMHEAP_IS_USED (hd bs) h" using r(6)[of b] bf by simp
  then have "hd bs \<in> mh_used_set b bs h" using ne by (simp add: mh_used_set_def)
  then have "hd bs = last bs" unfolding one l by simp
  moreover have "distinct bs" using ring_distinct[of "blk h" b bs] r(1) by (simp add: mh_blocks_def)
  ultimately have bs: "bs = [t]" using ne l by (cases bs) (auto split: if_splits)
  have fset: "mh_free_set b bs h = {b}" using bf one bs by (auto simp: mh_free_set_def mh_used_set_def)
  moreover have "distinct fs" using r(8) by simp
  ultimately have "fs = [b]" using r(5) by (cases fs) (auto simp: subset_singleton_iff)
  moreover have "mh_available_size h = MEMITEM_SIZE b h" by (rule unsigned_word_eqI) (use r(7) in \<open>simp add: mh_avail_def fset\<close>)
  ultimately show ?thesis using bs by blast
qed

lemma mh_request_wraps:
  assumes "0xfffffffc < sz"
  shows "mh_request sz = mh_request 12"
proof -
  have l: "unat sz < 2 ^ 32" using unsigned_less[of sz, where ?'a = nat] by simp
  have "sz = of_nat (unat sz)" by simp
  moreover have "unat sz = 0xfffffffd \<or> unat sz = 0xfffffffe \<or> unat sz = 0xffffffff" using assms l by (simp add: word_less_nat_alt) linarith
  ultimately have "sz = 0xfffffffd \<or> sz = 0xfffffffe \<or> sz = 0xffffffff" by (metis of_nat_numeral)
  moreover have "RT_ALIGN 0xfffffffd RT_ALIGN_SIZE = 0" "RT_ALIGN 0xfffffffe RT_ALIGN_SIZE = 0" "RT_ALIGN 0xffffffff RT_ALIGN_SIZE = 0"
    "RT_ALIGN 12 RT_ALIGN_SIZE = 12" by (simp_all add: RT_ALIGN_def)
  ultimately show ?thesis by (elim disjE) (simp_all add: mh_request_def)
qed

section \<open>Properties\<close>

subsection \<open>An example heap\<close>

definition ex_heap :: rt_memheap where
  "ex_heap = mh_setup 0x1000 0x100
     \<lparr>mh_address = 0x800, mh_free_header = 0x820, mh_start_addr = 0, mh_pool_size = 0, mh_available_size = 0, mh_max_used_size = 0,
      mh_block_list = 0, mh_free_list = 0, mh_items = (\<lambda>_. mh_blank_item 0 0), mh_data = (\<lambda>a. ucast a)\<rparr>"

lemma ex_heap_rep: "mh_rep 0x1000 [0x10e8] [0x1000] ex_heap" "mh_available_size ex_heap = 0xd0" "mh_used_set 0x1000 [0x10e8] ex_heap = {0x10e8}"
proof -
  have "RT_ALIGN_DOWN 0x100 RT_ALIGN_SIZE = 0x100" by (simp add: RT_ALIGN_DOWN_def)
  then show "mh_rep 0x1000 [0x10e8] [0x1000] ex_heap" "mh_available_size ex_heap = 0xd0" "mh_used_set 0x1000 [0x10e8] ex_heap = {0x10e8}"
    using mh_setup_ok[OF _ _ _ _ _ ex_heap_def, of "0x100" "0x10e8"] by simp_all
qed

lemma ex_lock: "sem_ok ex_kernel 2" "0 < sem_value (sems ex_kernel 2)"
  by (simp_all add: sem_ok_def ex_kernel_def)

lemma ex_heap_size: "MEMITEM_SIZE 0x1000 ex_heap = 0xd0"
  using mh_blocksD(1)[of "0x1000" "[]" "[0x10e8]" ex_heap] mh_repD(1)[OF ex_heap_rep(1)] by (simp add: MEMITEM_SIZE_def)

text \<open>The heap of the example with a block of 16 bytes in use at its start.\<close>

definition ex_heap_used :: rt_memheap where
  "ex_heap_used = mh_take 16 0xd0 0x1000 ex_heap"

lemma ex_heap_used_rep:
  "mh_rep 0x1000 [0x1028, 0x10e8] [0x1028] ex_heap_used" "mh_used_set 0x1000 [0x1028, 0x10e8] ex_heap_used = {0x1000, 0x10e8}"
  "MEMITEM_SIZE 0x1000 ex_heap_used = 16"
proof -
  note t = mh_take_part[of "0x1000" "[]" "[0x10e8]" "[0x1000]" ex_heap "0x1000" 16 "0xd0" "0x1028" ex_heap_used, simplified]
  note u = t[OF ex_heap_rep(1) ex_heap_size ex_heap_used_def]
  show "mh_rep 0x1000 [0x1028, 0x10e8] [0x1028] ex_heap_used" using u by simp
  have "0x10e8 \<in> mh_used_set 0x1000 [0x10e8] ex_heap" by (simp add: ex_heap_rep(3))
  then have "RT_MEMHEAP_IS_USED 0x10e8 ex_heap" by (simp add: mh_used_set_def)
  then have "RT_MEMHEAP_IS_USED 0x10e8 ex_heap_used" "RT_MEMHEAP_IS_USED 0x1000 ex_heap_used" "\<not> RT_MEMHEAP_IS_USED 0x1028 ex_heap_used"
    using u by simp_all
  then show "mh_used_set 0x1000 [0x1028, 0x10e8] ex_heap_used = {0x1000, 0x10e8}" by (auto simp: mh_used_set_def)
  have "unat (MEMITEM_SIZE 0x1000 ex_heap_used) = unat (16 :: u32)" using u by simp
  then show "MEMITEM_SIZE 0x1000 ex_heap_used = 16" by (rule unsigned_word_eqI)
qed



text \<open>C35: Freeing a block in use, with the lock at hand, returns and gives a well-formed heap in
  which that block is no longer in use: it is merged with its free neighbours, so no two free
  blocks touch, and the sizes and bytes of the other blocks stay.  When the last block in use
  is freed the heap is one free block again.\<close>

theorem memheap_free_merges:
  assumes "mh_rep b bs fs h" and "x \<in> mh_used_set b bs h" and "x \<noteq> last bs" and "sem_ok k lock" and "0 < sem_value (sems k lock)"
  shows "\<exists>h' bs' fs'. rt_memheap_free lock (x + RT_MEMHEAP_SIZE) h k = Some (Return (), h', k) \<and>
     mh_rep b bs' fs' h' \<and> mh_used_set b bs' h' = mh_used_set b bs h - {x} \<and>
     (\<forall>a \<in> mh_used_set b bs h - {x}. MEMITEM_SIZE a h' = MEMITEM_SIZE a h) \<and> mh_data h' = mh_data h \<and>
     (mh_used_set b bs h = {x, last bs} \<longrightarrow> bs' = [last bs] \<and> fs' = [b] \<and> mh_available_size h' = MEMITEM_SIZE b h')"
proof -
  define h' where "h' = mh_free_locked x h"
  from mh_free_locked_ok[OF assms(1,2,3) h'_def] obtain bs' fs' where
    f: "mh_rep b bs' fs' h'" "mh_used_set b bs' h' = mh_used_set b bs h - {x}"
       "\<forall>a \<in> mh_used_set b bs h - {x}. MEMITEM_SIZE a h' = MEMITEM_SIZE a h" "mh_data h' = mh_data h" by blast
  moreover have "bs' = [last bs] \<and> fs' = [b] \<and> mh_available_size h' = MEMITEM_SIZE b h'" if "mh_used_set b bs h = {x, last bs}"
    by (rule mh_one_block[OF f(1)]) (use f(2) that assms(3) in auto)
  ultimately show ?thesis using mh_free_ok[OF assms] unfolding h'_def by blast
qed

theorem memheap_free_merges_witness:
  "\<exists>h'. rt_memheap_free 2 0x1018 ex_heap_used ex_kernel = Some (Return (), h', ex_kernel) \<and> mh_rep 0x1000 [0x10e8] [0x1000] h'"
proof -
  have "0x1000 \<in> mh_used_set 0x1000 [0x1028, 0x10e8] ex_heap_used" by (simp add: ex_heap_used_rep(2))
  from memheap_free_merges[OF ex_heap_used_rep(1) this _ ex_lock] show ?thesis by (auto simp: ex_heap_used_rep(2))
qed

text \<open>C36: Resizing a block, with the lock at hand and a size that is not within 12 bytes of the end
  of the address range, returns; it fails without a change or returns a block, the same one or
  another, that is large enough and starts with the bytes of the old one as far as both reach,
  while the other blocks in use keep their sizes and their bytes and the heap stays well
  formed.\<close>

theorem memheap_realloc_keeps_bytes:
  assumes "mh_rep b bs fs h" and "12 \<le> unat b" and "x \<in> mh_used_set b bs h" and "x \<noteq> last bs"
    and "sem_ok k lock" and "0 < sem_value (sems k lock)" and "newsize \<noteq> 0" and "unat (mh_request newsize) + 12 < 2 ^ 32"
  shows "\<exists>r h'. rt_memheap_realloc lock (x + RT_MEMHEAP_SIZE) newsize h k = Some (Return r, h', k) \<and>
     (case r of
        None \<Rightarrow> h' = h
      | Some ptr \<Rightarrow> \<exists>y bs' fs'. ptr = y + RT_MEMHEAP_SIZE \<and>
          mh_rep b bs' fs' h' \<and> mh_used_set b bs' h' = insert y (mh_used_set b bs h - {x}) \<and> mh_request newsize \<le> MEMITEM_SIZE y h' \<and>
          (\<forall>a \<in> mh_used_set b bs h - {x, last bs}. MEMITEM_SIZE a h' = MEMITEM_SIZE a h \<and>
             (\<forall>i < MEMITEM_SIZE a h. mh_data h' (a + RT_MEMHEAP_SIZE + i) = mh_data h (a + RT_MEMHEAP_SIZE + i))) \<and>
          (\<forall>i < MEMITEM_SIZE x h. i < mh_request newsize \<longrightarrow>
             mh_data h' (ptr + i) = mh_data h (x + RT_MEMHEAP_SIZE + i)))"
proof -
  from mh_realloc_ok[OF assms] obtain r h' where
    r: "rt_memheap_realloc lock (x + RT_MEMHEAP_SIZE) newsize h k = Some (Return r, h', k)"
       "case r of None \<Rightarrow> h' = h | Some ptr \<Rightarrow> \<exists>y. ptr = y + RT_MEMHEAP_SIZE \<and> mh_resized b bs x (mh_request newsize) h y h'" by blast
  then show ?thesis
  proof (cases r)
    case (Some ptr)
    then obtain y where y: "ptr = y + RT_MEMHEAP_SIZE" "mh_resized b bs x (mh_request newsize) h y h'" using r(2) by auto
    then show ?thesis using r(1) Some unfolding mh_resized_def by (intro exI[of _ r] exI[of _ h']) auto
  qed auto
qed

theorem memheap_realloc_keeps_bytes_witness:
  "\<exists>r h'. rt_memheap_realloc 2 0x1018 40 ex_heap_used ex_kernel = Some (Return r, h', ex_kernel) \<and>
     (\<forall>ptr. r = Some ptr \<longrightarrow> mh_data h' (ptr + 3) = mh_data ex_heap_used 0x101b)"
proof -
  have x: "0x1000 \<in> mh_used_set 0x1000 [0x1028, 0x10e8] ex_heap_used" by (simp add: ex_heap_used_rep(2))
  have m: "mh_request 40 = 40" by (simp add: mh_request_def RT_ALIGN_def)
  from memheap_realloc_keeps_bytes[OF ex_heap_used_rep(1) _ x _ ex_lock, of 40] obtain r h' where
    r: "rt_memheap_realloc 2 (0x1000 + RT_MEMHEAP_SIZE) 40 ex_heap_used ex_kernel = Some (Return r, h', ex_kernel)"
       "\<And>ptr. r = Some ptr \<Longrightarrow> \<forall>i < MEMITEM_SIZE 0x1000 ex_heap_used. i < mh_request 40 \<longrightarrow>
          mh_data h' (ptr + i) = mh_data ex_heap_used (0x1000 + RT_MEMHEAP_SIZE + i)" unfolding m by fastforce
  have "mh_data h' (ptr + 3) = mh_data ex_heap_used 0x101b" if "r = Some ptr" for ptr
    using r(2)[OF that, rule_format, of 3] by (simp add: m ex_heap_used_rep(3))
  then show ?thesis using r(1) by simp
qed

text \<open>Sizes near the end of the address range wrap around: a request of more than 0xfffffffc
  bytes is served as one of 12, and growing a block to 0xfffffff8 bytes is taken to fit into any
  free block of more than a few bytes behind it, returns the block and links the block list to
  a header inside the block's own header.\<close>

theorem memheap_size_wraps:
  assumes "mh_rep b bs fs h" and "x \<in> mh_used_set b bs h" and "x \<noteq> last bs" and "sem_ok k lock" and "0 < sem_value (sems k lock)"
    and "\<not> RT_MEMHEAP_IS_USED (it_next (mh_items h x)) h" and "MEMITEM_SIZE x h < 0xfffffff8"
    and "4 < MEMITEM_SIZE (it_next (mh_items h x)) h + MEMITEM_SIZE x h" and "0xfffffffc < sz"
  shows "rt_memheap_alloc lock sz h k = rt_memheap_alloc lock 12 h k \<and>
     (\<exists>h'. rt_memheap_realloc lock (x + RT_MEMHEAP_SIZE) 0xfffffff8 h k = Some (Return (Some (x + RT_MEMHEAP_SIZE)), h', k) \<and>
        it_next (mh_items h' x) = x + 16)"
proof
  have "mh_request sz = mh_request 12" by (rule mh_request_wraps[OF assms(9)])
  then show "rt_memheap_alloc lock sz h k = rt_memheap_alloc lock 12 h k" by (simp add: rt_memheap_alloc_def)
  note r = mh_repD[OF assms(1)]
  have xb: "x \<in> set (b # bs)" using assms(2) by (simp add: mh_used_set_def)
  have pz: "x + RT_MEMHEAP_SIZE \<noteq> 0" by (rule mh_pointer_nonnull[OF r(1) xb assms(3)])
  obtain k1 where k1: "rt_sem_take lock FOREVER k = Some (Return RT_EOK, k1)" "rt_sem_release lock k1 = Some k"
    using mh_lock_free[OF assms(4,5)] by blast
  from mh_blocks_at[OF r(1) xb assms(3)] obtain us vs where uv: "bs = us @ vs" "vs \<noteq> []" "x = last (b # us)" by blast
  note d = mh_blocksD[OF r(1)[unfolded uv(1)] uv(2), folded uv(3)]
  have up: "it_next (mh_items h x) > x" using d(1,3) by (simp add: word_less_nat_alt)
  have p: "x + RT_MEMHEAP_SIZE - RT_MEMHEAP_SIZE = x" "x + RT_MEMHEAP_SIZE + 0xfffffff8 = x + 16" by simp_all
  have wrap: "(0xfffffff8 + 12 :: u32) = 4" by (rule unsigned_word_eqI) simp
  have m: "mh_request 0xfffffff8 = 0xfffffff8" by (simp add: mh_request_def RT_ALIGN_def)
  have cond: "MEMITEM_SIZE (it_next (mh_items h x)) h + MEMITEM_SIZE x h > 0xfffffff8 + RT_MEMHEAP_MINIALLOC" unfolding wrap by (rule assms(8))
  have "\<exists>g. mh_grow_locked (x + RT_MEMHEAP_SIZE) 0xfffffff8 (MEMITEM_SIZE x h) h = Some (True, mh_free_insert (x + 16) (mh_split x (x + 16) g))"
    unfolding mh_grow_locked_def Let_def p using up assms(6) cond by simp blast
  then obtain g where g: "mh_grow_locked (x + RT_MEMHEAP_SIZE) 0xfffffff8 (MEMITEM_SIZE x h) h = Some (True, mh_free_insert (x + 16) (mh_split x (x + 16) g))" by blast
  have "it_next (mh_items (mh_free_insert (x + 16) (mh_split x (x + 16) g)) x) = x + 16" by (simp add: mh_split_def upd_item_def Let_def)
  moreover have "rt_memheap_realloc lock (x + RT_MEMHEAP_SIZE) 0xfffffff8 h k = mh_realloc_grow lock RT_EOK (x + RT_MEMHEAP_SIZE) 0xfffffff8 (MEMITEM_SIZE x h) h k1"
    unfolding rt_memheap_realloc_def Let_def p m using pz assms(7) k1(1) by simp
  ultimately show "\<exists>h'. rt_memheap_realloc lock (x + RT_MEMHEAP_SIZE) 0xfffffff8 h k = Some (Return (Some (x + RT_MEMHEAP_SIZE)), h', k) \<and>
        it_next (mh_items h' x) = x + 16" using g k1(2) by (simp add: mh_realloc_grow_def)
qed

theorem memheap_size_wraps_witness:
  "rt_memheap_alloc 2 0xfffffffd ex_heap_used ex_kernel = rt_memheap_alloc 2 12 ex_heap_used ex_kernel \<and>
   (\<exists>h'. rt_memheap_realloc 2 0x1018 0xfffffff8 ex_heap_used ex_kernel = Some (Return (Some 0x1018), h', ex_kernel))"
proof -
  have x: "0x1000 \<in> mh_used_set 0x1000 [0x1028, 0x10e8] ex_heap_used" by (simp add: ex_heap_used_rep(2))
  note r = mh_repD(1)[OF ex_heap_used_rep(1)]
  have n: "it_next (mh_items ex_heap_used 0x1000) = 0x1028" "it_next (mh_items ex_heap_used 0x1028) = 0x10e8"
    using mh_blocksD(1)[of _ "[]" "[0x1028, 0x10e8]" ex_heap_used] mh_blocksD(1)[of _ "[0x1028]" "[0x10e8]" ex_heap_used] r by auto
  have "0x1028 \<notin> mh_used_set 0x1000 [0x1028, 0x10e8] ex_heap_used" by (simp add: ex_heap_used_rep(2))
  then have "\<not> RT_MEMHEAP_IS_USED 0x1028 ex_heap_used" by (simp add: mh_used_set_def)
  moreover have "MEMITEM_SIZE 0x1028 ex_heap_used = 0xa8" by (simp add: MEMITEM_SIZE_def n)
  ultimately show ?thesis
    using memheap_size_wraps[OF ex_heap_used_rep(1) x _ ex_lock, of "0xfffffffd"] by (auto simp: n(1) ex_heap_used_rep(3))
qed

end
