(* ===== verification/System_Heap.thy ===== *)
theory System_Heap
  imports Memheap_Resize
begin

text \<open>
  The allocator of the system on top of the memory heaps (the end of rt-thread/src/memheap.c,
  RT_USING_MEMHEAP_AS_HEAP): rt_malloc tries the system heap, heap 0, and then the other
  initialised heaps in the order of the object list.  \<open>hs\<close> are the heaps and \<open>lock i\<close> is the
  semaphore of heap i.  The memory of each heap is a memory of its own, so a pointer is the
  number of a heap and an address; the null pointer is \<open>None\<close>.  A call that has to wait for
  the lock of a heap ends as \<open>Blocked\<close>.
\<close>

section \<open>Operations\<close>

type_synonym heaps = "nat \<Rightarrow> rt_memheap"
type_synonym heap_ptr = "nat \<times> u32"

definition rt_system_heap_init :: "nat \<Rightarrow> u8 list \<Rightarrow> u32 \<Rightarrow> u32 \<Rightarrow> heaps \<Rightarrow> kernel \<Rightarrow> (heaps \<times> kernel) option" where
  "rt_system_heap_init lock name begin_addr end_addr hs k =
     do { (h, k) \<leftarrow> rt_memheap_init 0 lock name begin_addr (end_addr - begin_addr) (hs 0) k;
          Some (hs(0 := h), k) }"

text \<open>The loop over the object list.\<close>

fun malloc_others :: "(nat \<Rightarrow> nat) \<Rightarrow> u32 \<Rightarrow> object_id list \<Rightarrow> heaps \<Rightarrow> kernel \<Rightarrow> (heap_ptr option outcome \<times> heaps \<times> kernel) option" where
  "malloc_others lock sz [] hs k = Some (Return None, hs, k)"
| "malloc_others lock sz (ObjMemHeap i # obs) hs k =
     (if i = 0 then malloc_others lock sz obs hs k
      else do { (r, h, k) \<leftarrow> rt_memheap_alloc (lock i) sz (hs i) k;
                let hs = hs(i := h);
                case r of
                  Return None \<Rightarrow> malloc_others lock sz obs hs k
                | Return (Some p) \<Rightarrow> Some (Return (Some (i, p)), hs, k)
                | Blocked \<Rightarrow> Some (Blocked, hs, k) })"
| "malloc_others lock sz (_ # obs) hs k = None"

definition rt_malloc :: "(nat \<Rightarrow> nat) \<Rightarrow> u32 \<Rightarrow> heaps \<Rightarrow> kernel \<Rightarrow> (heap_ptr option outcome \<times> heaps \<times> kernel) option" where
  "rt_malloc lock sz hs k =
     do { (r, h, k) \<leftarrow> rt_memheap_alloc (lock 0) sz (hs 0) k;
          let hs = hs(0 := h);
          case r of
            Return None \<Rightarrow>
              do { information \<leftarrow> rt_object_get_information (class_value RT_Object_Class_MemHeap);
                   malloc_others lock sz (object_list k information) hs k }
          | Return (Some p) \<Rightarrow> Some (Return (Some (0, p)), hs, k)
          | Blocked \<Rightarrow> Some (Blocked, hs, k) }"

definition rt_free :: "(nat \<Rightarrow> nat) \<Rightarrow> heap_ptr option \<Rightarrow> heaps \<Rightarrow> kernel \<Rightarrow> (unit outcome \<times> heaps \<times> kernel) option" where
  "rt_free lock rmem hs k =
     (case rmem of
        None \<Rightarrow> Some (Return (), hs, k)
      | Some (i, p) \<Rightarrow> do { (r, h, k) \<leftarrow> rt_memheap_free (lock i) p (hs i) k; Some (r, hs(i := h), k) })"

text \<open>\<open>rt_memset(ptr, 0, n)\<close> and \<open>rt_memcpy(dst, src, n)\<close>.\<close>

definition heap_clear :: "heap_ptr \<Rightarrow> u32 \<Rightarrow> heaps \<Rightarrow> heaps" where
  "heap_clear dst n hs = (case dst of (j, d) \<Rightarrow>
     hs(j := (hs j)\<lparr>mh_data := (\<lambda>a. if a - d < n then 0 else mh_data (hs j) a)\<rparr>))"

definition heap_copy :: "heap_ptr \<Rightarrow> heap_ptr \<Rightarrow> u32 \<Rightarrow> heaps \<Rightarrow> heaps" where
  "heap_copy dst src n hs = (case (dst, src) of ((j, d), (i, s)) \<Rightarrow>
     hs(j := (hs j)\<lparr>mh_data := (\<lambda>a. if a - d < n then mh_data (hs i) (s + (a - d)) else mh_data (hs j) a)\<rparr>))"

definition rt_calloc :: "(nat \<Rightarrow> nat) \<Rightarrow> u32 \<Rightarrow> u32 \<Rightarrow> heaps \<Rightarrow> kernel \<Rightarrow> (heap_ptr option outcome \<times> heaps \<times> kernel) option" where
  "rt_calloc lock count sz hs k =
     (let total_size = count * sz
      in do { (r, hs, k) \<leftarrow> rt_malloc lock total_size hs k;
              Some (r, (case r of Return (Some ptr) \<Rightarrow> heap_clear ptr total_size hs | _ \<Rightarrow> hs), k) })"

text \<open>The second half of rt_realloc: another heap.\<close>

definition realloc_elsewhere :: "(nat \<Rightarrow> nat) \<Rightarrow> heap_ptr \<Rightarrow> u32 \<Rightarrow> heaps \<Rightarrow> kernel \<Rightarrow> (heap_ptr option outcome \<times> heaps \<times> kernel) option" where
  "realloc_elsewhere lock rmem newsize hs k =
     do { (r, hs, k) \<leftarrow> rt_malloc lock newsize hs k;
          case r of
            Return (Some new_ptr) \<Rightarrow>
              (let oldsize = MEMITEM_SIZE (snd rmem - RT_MEMHEAP_SIZE) (hs (fst rmem));
                   hs = heap_copy new_ptr rmem (if newsize > oldsize then oldsize else newsize) hs
               in do { (f, hs, k) \<leftarrow> rt_free lock (Some rmem) hs k;
                       Some (case f of Blocked \<Rightarrow> Blocked | Return _ \<Rightarrow> Return (Some new_ptr), hs, k) })
          | _ \<Rightarrow> Some (r, hs, k) }"

text \<open>The block has to belong to the heap it lies in: \<open>header_ptr->pool_ptr\<close> is that heap.\<close>

definition rt_realloc :: "(nat \<Rightarrow> nat) \<Rightarrow> heap_ptr option \<Rightarrow> u32 \<Rightarrow> heaps \<Rightarrow> kernel \<Rightarrow> (heap_ptr option outcome \<times> heaps \<times> kernel) option" where
  "rt_realloc lock rmem newsize hs k =
     (case rmem of
        None \<Rightarrow> rt_malloc lock newsize hs k
      | Some (i, p) \<Rightarrow>
          if newsize = 0
          then do { (f, hs, k) \<leftarrow> rt_free lock rmem hs k;
                    Some (case f of Blocked \<Rightarrow> Blocked | Return _ \<Rightarrow> Return None, hs, k) }
          else if it_pool_ptr (mh_items (hs i) (p - RT_MEMHEAP_SIZE)) \<noteq> mh_address (hs i) then None
          else do { (r, h, k) \<leftarrow> rt_memheap_realloc (lock i) p newsize (hs i) k;
                    let hs = hs(i := h);
                    case r of
                      Return None \<Rightarrow> realloc_elsewhere lock (i, p) newsize hs k
                    | Return (Some q) \<Rightarrow> Some (Return (Some (i, q)), hs, k)
                    | Blocked \<Rightarrow> Some (Blocked, hs, k) })"

section \<open>Allocation over all heaps\<close>

text \<open>The initialised heaps, with their blocks.\<close>

definition heap_numbers :: "kernel \<Rightarrow> nat set" where
  "heap_numbers k = insert 0 {i. ObjMemHeap i \<in> set (object_list k RT_Object_Class_MemHeap)}"

definition heap_ok :: "kernel \<Rightarrow> nat \<Rightarrow> u32 \<Rightarrow> u32 list \<Rightarrow> u32 list \<Rightarrow> rt_memheap \<Rightarrow> bool" where
  "heap_ok k lock b bs fs h \<longleftrightarrow> mh_rep b bs fs h \<and> 12 \<le> unat b \<and> sem_ok k lock \<and> 0 < sem_value (sems k lock)"

text \<open>No block of the heap can serve the request.\<close>

definition heap_full :: "u32 \<Rightarrow> u32 list \<Rightarrow> u32 \<Rightarrow> rt_memheap \<Rightarrow> bool" where
  "heap_full b bs sz h \<longleftrightarrow> mh_available_size h \<le> mh_request sz \<or> (\<forall>a \<in> mh_free_set b bs h. MEMITEM_SIZE a h < mh_request sz)"

lemma heap_alloc_cases:
  assumes "heap_ok k lock b bs fs h"
  obtains "rt_memheap_alloc lock sz h k = Some (Return None, h, k)" "heap_full b bs sz h"
  | p h' where "rt_memheap_alloc lock sz h k = Some (Return (Some (p + RT_MEMHEAP_SIZE)), h', k)" "mh_new_block b bs (mh_request sz) h p h'"
proof -
  from mh_alloc_ok[of b bs fs h k lock sz] assms obtain r h' where
    r: "rt_memheap_alloc lock sz h k = Some (Return r, h', k)"
       "case r of None \<Rightarrow> h' = h \<and> (mh_available_size h \<le> mh_request sz \<or> (\<forall>a \<in> mh_free_set b bs h. MEMITEM_SIZE a h < mh_request sz))
        | Some ptr \<Rightarrow> \<exists>p. ptr = p + RT_MEMHEAP_SIZE \<and> mh_new_block b bs (mh_request sz) h p h'" unfolding heap_ok_def by blast
  show ?thesis
  proof (cases r)
    case None
    then show ?thesis using r that(1) by (simp add: heap_full_def)
  next
    case (Some ptr)
    then obtain p where "ptr = p + RT_MEMHEAP_SIZE" "mh_new_block b bs (mh_request sz) h p h'" using r(2) by auto
    then show ?thesis using r(1) Some that(2) by blast
  qed
qed

lemma malloc_others_ok:
  assumes "\<And>ob. ob \<in> set obs \<Longrightarrow> \<exists>i. ob = ObjMemHeap i \<and> heap_ok k (lock i) (b i) (bs i) (fs i) (hs i)"
  shows "malloc_others lock sz obs hs k = Some (Return None, hs, k) \<and> (\<forall>i. i \<noteq> 0 \<longrightarrow> ObjMemHeap i \<in> set obs \<longrightarrow> heap_full (b i) (bs i) sz (hs i)) \<or>
     (\<exists>i p hs'. malloc_others lock sz obs hs k = Some (Return (Some (i, p + RT_MEMHEAP_SIZE)), hs', k) \<and> ObjMemHeap i \<in> set obs \<and>
        mh_new_block (b i) (bs i) (mh_request sz) (hs i) p (hs' i) \<and> (\<forall>j. j \<noteq> i \<longrightarrow> hs' j = hs j))"
  using assms
proof (induction obs)
  case (Cons ob obs)
  from Cons.prems obtain i where i: "ob = ObjMemHeap i" "heap_ok k (lock i) (b i) (bs i) (fs i) (hs i)" by force
  have IH: "malloc_others lock sz obs hs k = Some (Return None, hs, k) \<and> (\<forall>i. i \<noteq> 0 \<longrightarrow> ObjMemHeap i \<in> set obs \<longrightarrow> heap_full (b i) (bs i) sz (hs i)) \<or>
     (\<exists>i p hs'. malloc_others lock sz obs hs k = Some (Return (Some (i, p + RT_MEMHEAP_SIZE)), hs', k) \<and> ObjMemHeap i \<in> set obs \<and>
        mh_new_block (b i) (bs i) (mh_request sz) (hs i) p (hs' i) \<and> (\<forall>j. j \<noteq> i \<longrightarrow> hs' j = hs j))"
    by (rule Cons.IH) (use Cons.prems in auto)
  show ?case
  proof (cases "i = 0")
    case True
    then show ?thesis using IH i(1) by auto
  next
    case False
    from i(2) show ?thesis
    proof (cases rule: heap_alloc_cases[where sz = sz])
      case 1
      then have "malloc_others lock sz (ob # obs) hs k = malloc_others lock sz obs hs k" using False i(1) by simp
      then show ?thesis using IH 1(2) i(1) by auto
    next
      case (2 p h')
      then show ?thesis using False i(1) by auto
    qed
  qed
qed simp

text \<open>With every heap well formed and its lock at hand, rt_malloc returns and leaves the kernel
  as it was.  It fails only when no heap, the system heap or another one of the object list,
  can serve the request, and then changes no heap; otherwise it returns a new block of one of
  them, large enough and disjoint from the blocks in use, and changes no other heap.\<close>

theorem malloc_searches_heaps:
  assumes "objects_ok k" and "\<And>i. i \<in> heap_numbers k \<Longrightarrow> heap_ok k (lock i) (b i) (bs i) (fs i) (hs i)"
  shows "\<exists>r hs'. rt_malloc lock sz hs k = Some (Return r, hs', k) \<and>
     (case r of
        None \<Rightarrow> hs' = hs \<and> (\<forall>i \<in> heap_numbers k. heap_full (b i) (bs i) sz (hs i))
      | Some (i, ptr) \<Rightarrow> i \<in> heap_numbers k \<and> mh_new_block (b i) (bs i) (mh_request sz) (hs i) (ptr - RT_MEMHEAP_SIZE) (hs' i) \<and>
          (\<forall>j. j \<noteq> i \<longrightarrow> hs' j = hs j))"
proof -
  let ?L = "object_list k RT_Object_Class_MemHeap"
  have h0: "heap_ok k (lock 0) (b 0) (bs 0) (fs 0) (hs 0)" using assms(2) by (simp add: heap_numbers_def)
  have info: "rt_object_get_information (class_value RT_Object_Class_MemHeap) = Some RT_Object_Class_MemHeap"
    by (simp add: rt_object_get_information_def rt_object_container_def)
  from h0 show ?thesis
  proof (cases rule: heap_alloc_cases[where sz = sz])
    case (2 p h')
    then show ?thesis by (auto simp: rt_malloc_def heap_numbers_def)
  next
    case 1
    then have run: "rt_malloc lock sz hs k = malloc_others lock sz ?L hs k" by (simp add: rt_malloc_def info[simplified])
    have all: "\<exists>i. ob = ObjMemHeap i \<and> heap_ok k (lock i) (b i) (bs i) (fs i) (hs i)" if ob: "ob \<in> set ?L" for ob
    proof -
      have "class_of ob = RT_Object_Class_MemHeap" using assms(1) ob by (auto simp: objects_ok_def)
      then obtain i where "ob = ObjMemHeap i" by (cases ob) auto
      then show ?thesis using assms(2)[of i] ob by (auto simp: heap_numbers_def)
    qed
    have "malloc_others lock sz ?L hs k = Some (Return None, hs, k) \<and> (\<forall>i. i \<noteq> 0 \<longrightarrow> ObjMemHeap i \<in> set ?L \<longrightarrow> heap_full (b i) (bs i) sz (hs i)) \<or>
       (\<exists>i p hs'. malloc_others lock sz ?L hs k = Some (Return (Some (i, p + RT_MEMHEAP_SIZE)), hs', k) \<and> ObjMemHeap i \<in> set ?L \<and>
          mh_new_block (b i) (bs i) (mh_request sz) (hs i) p (hs' i) \<and> (\<forall>j. j \<noteq> i \<longrightarrow> hs' j = hs j))"
      by (rule malloc_others_ok[OF all])
    then show ?thesis
    proof (elim disjE exE conjE)
      assume none: "malloc_others lock sz ?L hs k = Some (Return None, hs, k)" "\<forall>i. i \<noteq> 0 \<longrightarrow> ObjMemHeap i \<in> set ?L \<longrightarrow> heap_full (b i) (bs i) sz (hs i)"
      have "heap_full (b i) (bs i) sz (hs i)" if "i \<in> heap_numbers k" for i
        using that none(2) 1(2) by (cases "i = 0") (simp_all add: heap_numbers_def)
      then show ?thesis using run none(1) by simp
    qed (use run in \<open>auto simp: heap_numbers_def\<close>)
  qed
qed

theorem malloc_searches_heaps_witness:
  "\<exists>i ptr hs'. rt_malloc (\<lambda>_. 2) 100 (\<lambda>i. if i = 0 then ex_heap else ex_heap_used) (ex_kernel\<lparr>object_list := (\<lambda>_. [])(RT_Object_Class_MemHeap := [ObjMemHeap 1, ObjMemHeap 0])\<rparr>) =
     Some (Return (Some (i, ptr)), hs', ex_kernel\<lparr>object_list := (\<lambda>_. [])(RT_Object_Class_MemHeap := [ObjMemHeap 1, ObjMemHeap 0])\<rparr>)"
proof -
  let ?k = "ex_kernel\<lparr>object_list := (\<lambda>_. [])(RT_Object_Class_MemHeap := [ObjMemHeap 1, ObjMemHeap 0])\<rparr>"
  let ?hs = "\<lambda>i :: nat. if i = 0 then ex_heap else ex_heap_used"
  have nums: "heap_numbers ?k = {0, 1}" by (auto simp: heap_numbers_def)
  have ok: "objects_ok ?k" by (simp add: objects_ok_def)
  have lk: "sem_ok ?k 2" "0 < sem_value (sems ?k 2)" using ex_lock by (simp_all add: sem_ok_def)
  have hp: "heap_ok ?k 2 0x1000 (if i = 0 then [0x10e8] else [0x1028, 0x10e8]) (if i = 0 then [0x1000] else [0x1028]) (?hs i)" for i :: nat
    using ex_heap_rep(1) ex_heap_used_rep(1) lk by (simp add: heap_ok_def)
  have full: "\<not> heap_full 0x1000 [0x10e8] 100 ex_heap"
  proof -
    have "mh_free_set 0x1000 [0x10e8] ex_heap = {0x1000}" using mh_repD(5)[OF ex_heap_rep(1)] by simp
    moreover have "mh_request 100 = 100" by (simp add: mh_request_def RT_ALIGN_def)
    ultimately show ?thesis by (simp add: heap_full_def ex_heap_size ex_heap_rep(2))
  qed
  from malloc_searches_heaps[where lock = "\<lambda>_. 2" and b = "\<lambda>_. 0x1000" and hs = ?hs and sz = 100, OF ok hp]
  obtain r hs' where r: "rt_malloc (\<lambda>_. 2) 100 ?hs ?k = Some (Return r, hs', ?k)"
    "r = None \<longrightarrow> (\<forall>i \<in> heap_numbers ?k. heap_full 0x1000 (if i = 0 then [0x10e8] else [0x1028, 0x10e8]) 100 (?hs i))" by force
  have "r \<noteq> None" using r(2) full unfolding nums by auto
  then show ?thesis using r(1) by auto
qed

text \<open>The block of rt_calloc is cleared.\<close>

lemma calloc_clears:
  assumes "rt_calloc lock count sz hs k = Some (Return (Some (i, ptr)), hs', k')" and "a < count * sz"
  shows "mh_data (hs' i) (ptr + a) = 0"
proof -
  obtain r hs1 k1 where m: "rt_malloc lock (count * sz) hs k = Some (r, hs1, k1)"
    using assms(1) by (cases "rt_malloc lock (count * sz) hs k") (auto simp: rt_calloc_def Let_def)
  then have "r = Return (Some (i, ptr))" "hs' = heap_clear (i, ptr) (count * sz) hs1"
    using assms(1) by (auto simp: rt_calloc_def Let_def)
  then show ?thesis using assms(2) by (simp add: heap_clear_def)
qed

end
