(* ===== verification/Idle.thy ===== *)
theory Idle
  imports Ipc
begin

text \<open>
  rt-thread/src/idle.c: the idle thread frees the threads that have ended.  The cleanup functions
  of threads are code outside the kernel, a parameter; the memory given back is reported as the
  list of stack addresses.  A round can be preempted at its end; the loop below is the sequence
  of rounds with nothing in between.
\<close>

section \<open>Operations\<close>

type_synonym cleanups = "tid \<Rightarrow> kernel \<Rightarrow> kernel option"

definition has_defunct_thread :: "kernel \<Rightarrow> bool" where
  "has_defunct_thread k \<longleftrightarrow> \<not> tlist_isempty DefunctQ k"

text \<open>The part of a round with interrupts disabled, for the thread at the front of the list: whether
  the function goes on to free it, and the state.\<close>

definition idle_bury :: "cleanups \<Rightarrow> tid \<Rightarrow> kernel \<Rightarrow> (bool \<times> kernel) option" where
  "idle_bury cl t k =
     do { let k = rt_enter_critical (tlist_remove t k);
          k \<leftarrow> (if th_cleanup (threads k t) then cl t k else Some k);
          let dynamic = (\<not> rt_object_is_systemobject (ObjThread t) k);
          k \<leftarrow> rt_exit_critical k;
          Some (dynamic, k) }"

text \<open>The loop also returns the stack addresses it has given to RT_KERNEL_FREE, in order.\<close>

partial_function (option) rt_thread_idle_excute :: "cleanups \<Rightarrow> kernel \<Rightarrow> (u32 list \<times> kernel) option" where
  "rt_thread_idle_excute cl k =
     (if \<not> has_defunct_thread k then Some ([], k)
      else if \<not> RT_DEBUG_NOT_IN_INTERRUPT k then None
      else case tlists k DefunctQ of
             [] \<Rightarrow> Some ([], k)
           | t # _ \<Rightarrow>
               do { r \<leftarrow> idle_bury cl t k;
                    if \<not> fst r then Some ([], snd r)
                    else do { k' \<leftarrow> rt_object_delete (ObjThread t) (snd r);
                              s \<leftarrow> rt_thread_idle_excute cl k';
                              Some (th_stack_addr (threads (snd r) t) # fst s, snd s) } })"

text \<open>One round of the endless loop of the idle thread.\<close>

definition rt_thread_idle_entry :: "(kernel \<Rightarrow> kernel option) option \<Rightarrow> cleanups \<Rightarrow> kernel \<Rightarrow> (u32 list \<times> kernel) option" where
  "rt_thread_idle_entry hook cl k =
     do { k \<leftarrow> (case hook of None \<Rightarrow> Some k | Some h \<Rightarrow> h k);
          rt_thread_idle_excute cl k }"

definition rt_thread_idle_init :: "u32 \<Rightarrow> u32 \<Rightarrow> u32 \<Rightarrow> kernel \<Rightarrow> kernel option" where
  "rt_thread_idle_init entry stack texit k =
     do { k \<leftarrow> rt_thread_init idle_thread [0x74, 0x69, 0x64, 0x6c, 0x65] entry 0 stack 512 31 32 texit k;
          rt_thread_startup idle_thread k }"

definition rt_thread_idle_gethandler :: tid where
  "rt_thread_idle_gethandler = idle_thread"

section \<open>Cleanup\<close>

text \<open>What the idle thread relies on of the cleanup functions: they return, keep the invariant and
  do not touch the defunct threads, the lock or the registration of threads.\<close>

definition same_dead :: "kernel \<Rightarrow> kernel \<Rightarrow> bool" where
  "same_dead k k' \<longleftrightarrow>
     tlists k' DefunctQ = tlists k DefunctQ \<and> (\<forall>u. th_stack_addr (threads k' u) = th_stack_addr (threads k u)) \<and>
     (\<forall>u. ob_type (objs k' (ObjThread u)) = ob_type (objs k (ObjThread u))) \<and>
     object_list k' RT_Object_Class_Thread = object_list k RT_Object_Class_Thread \<and>
     rt_scheduler_lock_nest k' = rt_scheduler_lock_nest k \<and> rt_interrupt_nest k' = rt_interrupt_nest k"

lemma same_dead_refl [simp]: "same_dead k k"
  by (simp add: same_dead_def)

definition cleanups_ok :: "cleanups \<Rightarrow> bool" where
  "cleanups_ok cl \<longleftrightarrow>
     (\<forall>t k. kernel_ok k \<longrightarrow> someone_ready k \<longrightarrow>
        (\<exists>k'. cl t k = Some k' \<and> kernel_ok k' \<and> someone_ready k' \<and> same_dead k k'))"

lemma unlink_closed_ok:
  assumes ok: "kernel_ok k" and t: "on_list k t = Some DefunctQ"
  shows "kernel_ok (unlink_thread t k)" "tlists (unlink_thread t k) (ReadyQ p) = tlists k (ReadyQ p)"
proof -
  note so = kernel_okD(1)[OF ok] and lo = kernel_okD(4)[OF ok]
  have tk: "thread_ok (threads k t) (Some DefunctQ)" using kernel_okD(5)[OF ok, of t] t by simp
  then have tn: "thread_ok (threads k t) None" by (auto simp: thread_ok_def Let_def split: if_splits)
  show rq: "tlists (unlink_thread t k) (ReadyQ p) = tlists k (ReadyQ p)" for p
    using lists_ok_mem[OF lo, of t "ReadyQ p"] t by (auto simp: unlink_tlists[OF lo] intro: remove1_idem)
  then have "group_ok (unlink_thread t k)"
    using sched_okD(2)[OF so] by (auto simp: group_ok_def unlink_thread_def split: option.split)
  moreover have th: "threads (unlink_thread t k) = threads k" by (simp add: unlink_thread_def split: option.split)
  ultimately have "sched_ok (unlink_thread t k)"
    using so tn sched_okD(3)[OF so] by (auto simp: sched_ok_but_def lists_ok_unlink unlink_on_list)
  moreover have "timers_ok (unlink_thread t k)" using kernel_okD(2)[OF ok]
    by (subst timers_ok_cong[of _ k]) (simp_all add: unlink_thread_def split: option.split)
  ultimately show "kernel_ok (unlink_thread t k)" by (simp add: kernel_ok_def)
qed

lemma kernel_ok_nest [simp]: "kernel_ok (k\<lparr>rt_scheduler_lock_nest := v\<rparr>) = kernel_ok k"
  unfolding kernel_ok_def by (intro arg_cong2[where f = "(\<and>)"] sched_ok_cong timers_ok_cong) simp_all

text \<open>The state while threads are buried.\<close>

definition burying :: "kernel \<Rightarrow> bool" where
  "burying k \<longleftrightarrow> kernel_ok k \<and> someone_ready k \<and> rt_scheduler_lock_nest k = 0 \<and> rt_interrupt_nest k = 0"

lemma bury_ok:
  assumes b: "burying k" and cl: "cleanups_ok cl" and t: "tlists k DefunctQ = t # ts"
  shows "\<exists>k'. idle_bury cl t k = Some (\<not> rt_object_is_systemobject (ObjThread t) k, k') \<and> burying k' \<and>
     same_dead (k\<lparr>tlists := (tlists k)(DefunctQ := ts)\<rparr>) k'"
proof -
  have ok: "kernel_ok k" and sr: "someone_ready k" and nest: "rt_scheduler_lock_nest k = 0" "rt_interrupt_nest k = 0"
    using b by (simp_all add: burying_def)
  define k1 where "k1 = rt_enter_critical (unlink_thread t k)"
  have on: "on_list k t = Some DefunctQ" using lists_ok_mem[OF kernel_okD(4)[OF ok], of t DefunctQ] t by simp
  note u = unlink_closed_ok[OF ok on]
  have k1: "kernel_ok k1" "someone_ready k1" "same_dead (k\<lparr>tlists := (tlists k)(DefunctQ := ts), rt_scheduler_lock_nest := 1\<rparr>) k1"
    using u sr nest t unlink_tlists[OF kernel_okD(4)[OF ok], of t DefunctQ]
    by (auto simp: k1_def rt_enter_critical_def someone_ready_def same_dead_def)
       (simp_all add: unlink_thread_def split: option.split)
  have "\<exists>k2. (if th_cleanup (threads k1 t) then cl t k1 else Some k1) = Some k2 \<and> kernel_ok k2 \<and> someone_ready k2 \<and> same_dead k1 k2"
    using k1(1,2) cl by (simp add: cleanups_ok_def)
  then obtain k2 where k2: "(if th_cleanup (threads k1 t) then cl t k1 else Some k1) = Some k2" "kernel_ok k2" "someone_ready k2"
    "same_dead k1 k2" by blast
  have l2: "rt_scheduler_lock_nest k2 = 1" using k1(3) k2(4) by (simp add: same_dead_def)
  let ?k3 = "k2\<lparr>rt_scheduler_lock_nest := 0\<rparr>"
  have k3: "kernel_ok ?k3" "someone_ready ?k3" using k2(2,3) by (simp_all add: someone_ready_def)
  from schedule_defined[OF kernel_okD(1)[OF k3(1)] k3(2)] obtain k' where k': "rt_schedule ?k3 = Some k'" ..
  have f: "object_list k' = object_list k2" "rt_scheduler_lock_nest k' = 0" by (subst schedule_frame[OF k'], simp)+
  have "rt_exit_critical k2 = Some k'" using k' l2 by (simp add: rt_exit_critical_def)
  moreover have "rt_object_is_systemobject (ObjThread t) k2 = rt_object_is_systemobject (ObjThread t) k"
    using k1(3) k2(4) by (simp add: same_dead_def rt_object_is_systemobject_def)
  ultimately have "idle_bury cl t k = Some (\<not> rt_object_is_systemobject (ObjThread t) k, k')"
    using k2(1) by (simp add: idle_bury_def tlist_remove_def k1_def[symmetric])
  moreover have "burying k'" "same_dead (k\<lparr>tlists := (tlists k)(DefunctQ := ts)\<rparr>) k'"
    using k1(3) k2(4) k3 nest schedule_kernel_ok[OF k'] f
    by (auto simp: burying_def someone_ready_def same_dead_def schedule_sel[OF k'])
  ultimately show ?thesis by blast
qed


lemma idle_excute_round:
  assumes t: "tlists k DefunctQ = t # ts" and ni: "rt_interrupt_nest k = 0" and b: "idle_bury cl t k = Some (d, k1)"
  shows "rt_thread_idle_excute cl k =
    (if \<not> d then Some ([], k1)
     else do { k2 \<leftarrow> rt_object_delete (ObjThread t) k1;
               s \<leftarrow> rt_thread_idle_excute cl k2;
               Some (th_stack_addr (threads k1 t) # fst s, snd s) })"
  by (subst rt_thread_idle_excute.simps)
     (simp add: has_defunct_thread_def tlist_isempty_def t b ni context_defs)

text \<open>The threads the loop frees.\<close>

definition buried :: "kernel \<Rightarrow> tid list" where
  "buried k = takeWhile (\<lambda>t. \<not> rt_object_is_systemobject (ObjThread t) k) (tlists k DefunctQ)"

lemma idle_excute_ok:
  assumes "burying k" and "cleanups_ok cl" and "tlists k DefunctQ = ts"
  shows "\<exists>k'. rt_thread_idle_excute cl k = Some (map (\<lambda>t. th_stack_addr (threads k t)) (buried k), k') \<and> burying k' \<and>
     tlists k' DefunctQ = drop (Suc (length (buried k))) ts \<and>
     object_list k' RT_Object_Class_Thread = fold (\<lambda>t. remove1 (ObjThread t)) (buried k) (object_list k RT_Object_Class_Thread)"
  using assms(1,3)
proof (induction ts arbitrary: k)
  case Nil
  then have "rt_thread_idle_excute cl k = Some ([], k)"
    by (subst rt_thread_idle_excute.simps) (simp add: has_defunct_thread_def tlist_isempty_def)
  then show ?case using Nil by (simp add: buried_def)
next
  case (Cons t ts)
  let ?d = "\<not> rt_object_is_systemobject (ObjThread t) k"
  from bury_ok[OF Cons.prems(1) assms(2) Cons.prems(2)] obtain k1 where
    k1: "idle_bury cl t k = Some (?d, k1)" "burying k1" and sd: "same_dead (k\<lparr>tlists := (tlists k)(DefunctQ := ts)\<rparr>) k1" by blast
  have ni: "rt_interrupt_nest k = 0" using Cons.prems(1) by (simp add: burying_def)
  note e = idle_excute_round[OF Cons.prems(2) ni k1(1)]
  show ?case
  proof (cases ?d)
    case False
    then have "buried k = []" by (simp add: buried_def Cons.prems(2))
    then show ?thesis using e k1(2) sd Cons.prems(2) False by (auto simp: same_dead_def)
  next
    case True
    define k2 where "k2 = rt_object_detach (ObjThread t) k1"
    have del: "rt_object_delete (ObjThread t) k1 = Some k2"
      using True sd by (simp add: rt_object_delete_def k2_def same_dead_def rt_object_is_systemobject_def)
    have bk: "burying k2" using k1(2) by (simp add: burying_def k2_def someone_ready_def) (simp add: rt_object_detach_def)
    have s2: "tlists k2 DefunctQ = ts" "\<And>u. th_stack_addr (threads k2 u) = th_stack_addr (threads k u)"
      "\<And>u. rt_object_is_systemobject (ObjThread u) k2 = rt_object_is_systemobject (ObjThread u) k"
      "object_list k2 RT_Object_Class_Thread = remove1 (ObjThread t) (object_list k RT_Object_Class_Thread)"
      using sd by (simp_all add: k2_def rt_object_detach_def same_dead_def rt_object_is_systemobject_def)
    have b: "buried k = t # buried k2" using True by (simp add: buried_def Cons.prems(2) s2)
    from Cons.IH[OF bk s2(1)] show ?thesis using e True del sd by (auto simp: b s2 same_dead_def)
  qed
qed


section \<open>Properties\<close>






text \<open>A static thread with a cleanup function that exits is never taken out of the container of
  threads: rt_thread_exit leaves it to the idle thread, which returns without detaching it.\<close>

lemma exit_leaves_defunct:
  assumes e: "rt_thread_exit k = Some k1" and cur: "rt_current_thread k = Some t"
    and sys: "rt_object_is_systemobject (ObjThread t) k" "th_cleanup (threads k t)"
  shows "\<exists>ts. tlists k1 DefunctQ = t # ts" "object_list k1 RT_Object_Class_Thread = object_list k RT_Object_Class_Thread"
    "rt_object_is_systemobject (ObjThread t) k1" "rt_interrupt_nest k1 = rt_interrupt_nest k"
    "rt_scheduler_lock_nest k1 = rt_scheduler_lock_nest k" "u \<noteq> t \<Longrightarrow> threads k1 u = threads k u"
proof -
  from e cur obtain ka where ka: "rt_schedule_remove_thread t k = Some ka" by (auto simp: rt_thread_exit_def bind_eq_Some_conv)
  define kb where "kb = rt_timer_detach (ThreadTimer t) (set_stat t RT_THREAD_CLOSE ka)"
  have fa: "objs ka = objs k" "threads ka = threads k" "object_list ka = object_list k" "rt_interrupt_nest ka = rt_interrupt_nest k"
    "rt_scheduler_lock_nest ka = rt_scheduler_lock_nest k"
    using ka by (auto simp: rt_schedule_remove_thread_def tlist_remove_def unlink_thread_def Let_def split: if_splits option.splits)
  have fb: "objs kb = objs k" "th_cleanup (threads kb t)" "u \<noteq> t \<Longrightarrow> threads kb u = threads k u"
    "object_list kb RT_Object_Class_Thread = object_list k RT_Object_Class_Thread"
    "rt_interrupt_nest kb = rt_interrupt_nest k" "rt_scheduler_lock_nest kb = rt_scheduler_lock_nest k"
    using sys(2) by (simp_all add: kb_def rt_timer_detach_def rt_object_detach_def timer_remove_def upd_thread_def fa)
  obtain kc where kc: "tlist_insert_after DefunctQ t kb = Some kc" "rt_schedule kc = Some k1"
    using e cur ka sys fb(1,2) by (auto simp: rt_thread_exit_def kb_def[symmetric] rt_object_is_systemobject_def bind_eq_Some_conv)
  have c: "kc = link_head DefunctQ t kb" using kc(1) by (simp add: tlist_insert_after_def split: if_splits)
  have f: "object_list k1 = object_list kc" "rt_scheduler_lock_nest k1 = rt_scheduler_lock_nest kc"
    by (subst schedule_frame[OF kc(2)], simp)+
  show "\<exists>ts. tlists k1 DefunctQ = t # ts" "object_list k1 RT_Object_Class_Thread = object_list k RT_Object_Class_Thread"
    "rt_object_is_systemobject (ObjThread t) k1" "rt_interrupt_nest k1 = rt_interrupt_nest k"
    "rt_scheduler_lock_nest k1 = rt_scheduler_lock_nest k" "u \<noteq> t \<Longrightarrow> threads k1 u = threads k u"
    using sys(1) by (simp_all add: f schedule_sel[OF kc(2)] c rt_object_is_systemobject_def) (simp_all add: link_head_def fb)
qed

lemma static_exit_stays_registered:
  assumes ok: "kernel_ok k" and cur: "rt_current_thread k = Some t" and st: "thread_stat k t = RT_THREAD_READY"
    and idle: "thread_stat k i = RT_THREAD_READY" "i \<noteq> t"
    and sys: "rt_object_is_systemobject (ObjThread t) k" "th_cleanup (threads k t)"
    and reg: "ObjThread t \<in> set (object_list k RT_Object_Class_Thread)" "rt_interrupt_nest k = 0" "rt_scheduler_lock_nest k = 0"
    and cl: "cleanups_ok cl"
  shows "\<exists>k1 k2. rt_thread_exit k = Some k1 \<and> rt_thread_idle_excute cl k1 = Some ([], k2) \<and>
     thread_stat k1 t = RT_THREAD_CLOSE \<and> ObjThread t \<in> set (object_list k2 RT_Object_Class_Thread)"
proof -
  from thread_exit_ok[OF ok cur st idle] obtain k1 where
    k1: "rt_thread_exit k = Some k1" "kernel_ok k1" "thread_stat k1 t = RT_THREAD_CLOSE" by blast
  note e = exit_leaves_defunct[OF k1(1) cur sys]
  have "thread_stat k1 i = RT_THREAD_READY" using e(6)[OF idle(2)] idle(1) by simp
  from ready_listed(2)[OF kernel_okD(1)[OF k1(2)] this] have b: "burying k1"
    using k1(2) e(4,5) reg(2,3) by (simp add: burying_def)
  have bd: "buried k1 = []" using e(1,3) by (auto simp: buried_def)
  from idle_excute_ok[OF b cl refl] show ?thesis using k1(1,3) reg(1) e(2) unfolding bd by auto
qed

end
