(* ===== verification/System.thy ===== *)
theory System
  imports Semaphore Clock
begin

text \<open>
  The kernel as one system: threads take and release semaphores, sleep and yield, the tick
  interrupt of clock.c runs between their calls, and any sequence of these is a run.  Every
  call of the model that ends in None is a failed RT_ASSERT or an undefined step of the C code
  (or, for the timer check, a loop that does not return); the theorem of this theory is that no
  run from a well-formed state gets there.
\<close>

section \<open>What a call leaves alone\<close>

text \<open>The part of the state of the semaphores, the nesting counters and the periods of the
  timers.  Threads may leave the wait lists of semaphores but not enter them, except for the
  lists of W.\<close>

definition quiet :: "list_id set \<Rightarrow> kernel \<Rightarrow> kernel \<Rightarrow> bool" where
  "quiet W k k' \<longleftrightarrow>
     rt_tick k' = rt_tick k \<and> sems k' = sems k \<and> (\<forall>i. objs k' (ObjSem i) = objs k (ObjSem i)) \<and>
     rt_scheduler_lock_nest k' = rt_scheduler_lock_nest k \<and> rt_interrupt_nest k' = rt_interrupt_nest k \<and>
     (\<forall>i. SemQ i \<notin> W \<longrightarrow> set (tlists k' (SemQ i)) \<subseteq> set (tlists k (SemQ i))) \<and>
     (\<forall>i. timer_periodic k' i = timer_periodic k i) \<and>
     (\<forall>i. timer_periodic k i \<longrightarrow> tm_init_tick (timers k' i) = tm_init_tick (timers k i))"

lemma quiet_refl [simp]: "quiet W k k"
  by (simp add: quiet_def)

lemma quiet_trans [trans]: "quiet W k k1 \<Longrightarrow> quiet W k1 k2 \<Longrightarrow> quiet W k k2"
  unfolding quiet_def by (elim conjE, intro conjI) (simp_all, blast)



lemma timer_periodic_cong: "objs k' (ObjTimer i) = objs k (ObjTimer i) \<Longrightarrow> timer_periodic k' i = timer_periodic k i"
  by (simp add: timer_periodic_def)

text \<open>The primitive updates, as rules that go back to the first state.\<close>

named_theorems quiet_intros

declare quiet_refl [quiet_intros]

lemma quiet_primitives:
  "quiet W k (upd_thread t f k)" "quiet W k (unlink_thread t k)" "quiet W k (timer_remove i k)"
  "quiet W k (k\<lparr>rt_thread_ready_priority_group := g\<rparr>)" "quiet W k (k\<lparr>random_nr := n\<rparr>)" "quiet W k (k\<lparr>rt_timer_list := ts\<rparr>)"
  "quiet W k (k\<lparr>rt_soft_timer_list := ts\<rparr>)" "quiet W k (upd_timer i (\<lambda>tm. tm\<lparr>tm_timeout_tick := c tm\<rparr>) k)"
  by (auto simp: quiet_def upd_thread_def upd_timer_def unlink_thread_def timer_remove_def split: option.split
      intro!: timer_periodic_cong dest: subsetD[OF set_remove1_subset])

lemmas quiet_primitive_intros [quiet_intros] = quiet_primitives[THEN quiet_trans[rotated]]



lemma quiet_flags [quiet_intros]:
  "quiet W k0 k \<Longrightarrow> quiet W k0 (timer_deactivate i k)" "quiet W k0 k \<Longrightarrow> quiet W k0 (timer_activate i k)"
proof -
  have "quiet W k (timer_deactivate i k)" "quiet W k (timer_activate i k)" for k
    unfolding quiet_def timer_flag_upd timer_flag_sel by (simp_all add: timer_deactivate_def timer_activate_def upd_obj_def)
  then show "quiet W k0 k \<Longrightarrow> quiet W k0 (timer_deactivate i k)" "quiet W k0 k \<Longrightarrow> quiet W k0 (timer_activate i k)"
    by (blast intro: quiet_trans)+
qed




lemma quiet_stop [quiet_intros]: "quiet W k0 k \<Longrightarrow> quiet W k0 (snd (rt_timer_stop i k))"
  by (auto simp: rt_timer_stop_def intro!: quiet_intros)








section \<open>The running thread\<close>

definition cur_ready :: "kernel \<Rightarrow> bool" where
  "cur_ready k \<longleftrightarrow> (\<exists>t. rt_current_thread k = Some t \<and> thread_stat k t = RT_THREAD_READY)"









section \<open>The system\<close>

datatype sys_call = Sem_take nat u32 | Sem_release nat | Thread_sleep u32 | Thread_yield | Tick

definition sys_step :: "callbacks \<Rightarrow> sys_call \<Rightarrow> kernel \<Rightarrow> kernel option" where
  "sys_step cb c k =
     (case c of
        Sem_take i time \<Rightarrow> map_option snd (rt_sem_take i time k)
      | Sem_release i \<Rightarrow> rt_sem_release i k
      | Thread_sleep tick \<Rightarrow> rt_thread_sleep tick k
      | Thread_yield \<Rightarrow> rt_thread_yield k
      | Tick \<Rightarrow> map_option rt_interrupt_leave (rt_tick_increase cb (rt_interrupt_enter k)))"

text \<open>What the callers have to respect: the idle thread does not wait, and no waiting time is half
  the range of the tick counter or more.\<close>

definition allowed :: "sys_call \<Rightarrow> kernel \<Rightarrow> bool" where
  "allowed c k \<longleftrightarrow>
     (case c of
        Sem_take i time \<Rightarrow> time \<noteq> 0x7fffffff \<and> (time = 0 \<or> sem_value (sems k i) > 0 \<or> rt_current_thread k \<noteq> Some idle_thread)
      | Thread_sleep tick \<Rightarrow> tick < TICK_HALF \<and> rt_current_thread k \<noteq> Some idle_thread
      | _ \<Rightarrow> True)"

inductive run :: "callbacks \<Rightarrow> kernel \<Rightarrow> sys_call list \<Rightarrow> kernel \<Rightarrow> bool" for cb where
  empty: "run cb k [] k"
| call: "allowed c k \<Longrightarrow> sys_step cb c k = Some k1 \<Longrightarrow> run cb k1 cs k2 \<Longrightarrow> run cb k (c # cs) k2"

inductive_cases run_ConsE: "run cb k (c # cs) k'"

lemma run_append: "run cb k cs k1 \<Longrightarrow> run cb k1 ds k2 \<Longrightarrow> run cb k (cs @ ds) k2"
  by (induction rule: run.induct) (auto intro: run.call)

text \<open>The state between two calls.\<close>

definition calm :: "kernel \<Rightarrow> bool" where
  "calm k \<longleftrightarrow> (\<forall>i. sem_ok k i) \<and> rt_scheduler_lock_nest k = 0 \<and> cur_ready k"














section \<open>The tick interrupt\<close>





lemma interrupt_nest_frame [simp]:
  "kernel_ok (k\<lparr>rt_interrupt_nest := v\<rparr>) = kernel_ok k" "periodic_ok (k\<lparr>rt_interrupt_nest := v\<rparr>) = periodic_ok k"
  "calm (k\<lparr>rt_interrupt_nest := v\<rparr>) = calm k" "calm (k\<lparr>rt_tick := w\<rparr>) = calm k"
proof -
  show "kernel_ok (k\<lparr>rt_interrupt_nest := v\<rparr>) = kernel_ok k"
    unfolding kernel_ok_def by (intro arg_cong2[where f = "(\<and>)"] sched_ok_cong timers_ok_cong) simp_all
qed (simp_all add: periodic_ok_def timer_periodic_def calm_def sem_ok_def cur_ready_def)









end
