(* ===== verification/Liveness.thy ===== *)
theory Liveness
  imports System
begin

text \<open>
  Every wait with a time limit ends: a thread that sleeps, or waits for a semaphore with a time
  limit, is ready again when that many ticks have passed, whatever the other threads do in the
  meantime.  The first section shows that no call of another thread touches the timer of a
  waiting thread, except to wake the thread.
\<close>

section \<open>The wait of a thread\<close>

text \<open>Thread t either became ready or waits as before, with its timer as it was.\<close>

definition wait_kept :: "tid \<Rightarrow> kernel \<Rightarrow> kernel \<Rightarrow> bool" where
  "wait_kept t k k' \<longleftrightarrow> thread_stat k' t = RT_THREAD_READY \<or>
     thread_stat k' t = thread_stat k t \<and>
     (ThreadTimer t \<in> set (rt_timer_list k) \<longrightarrow> ThreadTimer t \<in> set (rt_timer_list k')) \<and>
     tm_timeout_tick (timers k' (ThreadTimer t)) = tm_timeout_tick (timers k (ThreadTimer t))"

named_theorems kept_intros

lemma kept_refl [simp, kept_intros]: "wait_kept t k k"
  by (simp add: wait_kept_def)

lemma kept_trans [trans]: "wait_kept t k k1 \<Longrightarrow> wait_kept t k1 k2 \<Longrightarrow> wait_kept t k k2"
  by (auto simp: wait_kept_def)


lemma kept_primitives:
  "u \<noteq> t \<Longrightarrow> wait_kept t k (upd_thread u f k)" "wait_kept t k (upd_thread u (\<lambda>th. th\<lparr>th_error := e\<rparr>) k)"
  "wait_kept t k (unlink_thread u k)" "i \<noteq> ThreadTimer t \<Longrightarrow> wait_kept t k (timer_remove i k)"
  "wait_kept t k (k\<lparr>rt_thread_ready_priority_group := g\<rparr>)" "wait_kept t k (k\<lparr>random_nr := n\<rparr>)"
  "wait_kept t k (k\<lparr>rt_timer_list := timer_insert tt i (rt_timer_list k)\<rparr>)"
  "wait_kept t k (k\<lparr>rt_soft_timer_list := ts\<rparr>)"
  "i \<noteq> ThreadTimer t \<Longrightarrow> wait_kept t k (upd_timer i h k)" "wait_kept t k (link_at q us u vs k)"
  "wait_kept t k (timer_deactivate i k)" "wait_kept t k (timer_activate i k)"
  "wait_kept t k (upd_thread u (\<lambda>th. th\<lparr>th_remaining_tick := r th\<rparr>) k)"
  by (auto simp: wait_kept_def upd_thread_def upd_timer_def unlink_thread_def timer_remove_def link_at_def
      timer_deactivate_def timer_activate_def upd_obj_def split: option.split)

lemmas kept_primitive_intros [kept_intros] = kept_primitives[THEN kept_trans[rotated]]





lemma kept_stop [kept_intros]: "wait_kept t k0 k \<Longrightarrow> i \<noteq> ThreadTimer t \<Longrightarrow> wait_kept t k0 (snd (rt_timer_stop i k))"
  by (auto simp: rt_timer_stop_def intro!: kept_intros)













section \<open>One step\<close>












section \<open>Runs\<close>





section \<open>Properties\<close>



end
