(* ===== verification/Completion.thy ===== *)
theory Completion
  imports Ipc
begin

text \<open>
  rt-thread/components/drivers/src/completion.c: one thread waits until another thread or an
  interrupt reports that an operation is complete.
\<close>

section \<open>Operations\<close>

abbreviation RT_UNCOMPLETED :: u32 where "RT_UNCOMPLETED \<equiv> 0"
abbreviation RT_COMPLETED :: u32 where "RT_COMPLETED \<equiv> 1"

record rt_completion =
  comp_flag :: u32

definition rt_completion_init :: "nat \<Rightarrow> kernel \<Rightarrow> (rt_completion \<times> kernel) option" where
  "rt_completion_init i k =
     do { k \<leftarrow> rt_ipc_object_init (CompQ i) k; Some (\<lparr>comp_flag = RT_UNCOMPLETED\<rparr>, k) }"

definition rt_completion_wait ::
  "nat \<Rightarrow> u32 \<Rightarrow> rt_completion \<Rightarrow> kernel \<Rightarrow> (rt_err outcome \<times> rt_completion \<times> kernel) option" where
  "rt_completion_wait i timeout c k =
     (if comp_flag c \<noteq> RT_COMPLETED
      then if \<not> tlist_isempty (CompQ i) k then None
           else if timeout = 0 then Some (Return RT_ETIMEOUT, c, k)
           else if \<not> RT_DEBUG_NOT_IN_INTERRUPT k then None
           else do { t \<leftarrow> rt_thread_self k;
                     let k = upd_thread t (\<lambda>th. th\<lparr>th_error := RT_EOK\<rparr>) k;
                     k \<leftarrow> ipc_block (CompQ i) t RT_IPC_FLAG_FIFO timeout k;
                     Some (Blocked, c, k) }
      else Some (Return RT_EOK, c\<lparr>comp_flag := RT_UNCOMPLETED\<rparr>, k))"

definition rt_completion_wait_resumed :: "tid \<Rightarrow> rt_completion \<Rightarrow> kernel \<Rightarrow> rt_err \<times> rt_completion" where
  "rt_completion_wait_resumed t c k = (th_error (threads k t), c\<lparr>comp_flag := RT_UNCOMPLETED\<rparr>)"

definition rt_completion_done :: "nat \<Rightarrow> rt_completion \<Rightarrow> kernel \<Rightarrow> (rt_completion \<times> kernel) option" where
  "rt_completion_done i c k =
     (if comp_flag c = RT_COMPLETED then Some (c, k)
      else do { k \<leftarrow> wake_first (CompQ i) k;
                Some (c\<lparr>comp_flag := RT_COMPLETED\<rparr>, k) })"

section \<open>Properties\<close>

text \<open>A completion hands over exactly one signal.  A thread that waits before the operation is
  done is suspended on the completion; done makes it ready, its wait returns RT_EOK and the
  signal is consumed.  If done comes first, the signal is kept and the next wait returns at once
  and consumes it.\<close>

theorem completion_handshake:
  assumes "kernel_ok k" and "rt_current_thread k = Some t" and "thread_stat k t = RT_THREAD_READY"
    and "thread_stat k j = RT_THREAD_READY" and "j \<noteq> t" and "rt_interrupt_nest k = 0"
    and "comp_flag c = RT_UNCOMPLETED" and "tlists k (CompQ i) = []" and "timeout \<noteq> 0" and "timeout \<noteq> 0x7fffffff"
  shows "\<exists>k1 k2 c2. rt_completion_wait i timeout c k = Some (Blocked, c, k1) \<and> kernel_ok k1 \<and>
     thread_stat k1 t = RT_THREAD_SUSPEND \<and> tlists k1 (CompQ i) = [t] \<and>
     rt_completion_done i c k1 = Some (c2, k2) \<and> kernel_ok k2 \<and> thread_stat k2 t = RT_THREAD_READY \<and>
     tlists k2 (CompQ i) = [] \<and> rt_completion_wait_resumed t c2 k2 = (RT_EOK, c) \<and>
     (\<exists>c3. rt_completion_done i c k = Some (c3, k) \<and> rt_completion_wait i timeout c3 k = Some (Return RT_EOK, c, k))"
proof -
  have wl: "wait_list (Some (CompQ i))" by simp
  have c: "c\<lparr>comp_flag := RT_UNCOMPLETED\<rparr> = c" using assms(7) by simp
  from block_self_ok[OF assms(1,3,4,5) wl _ assms(10), of RT_IPC_FLAG_FIFO] obtain k1 where
    k1: "ipc_block (CompQ i) t RT_IPC_FLAG_FIFO timeout (upd_thread t (\<lambda>th. th\<lparr>th_error := RT_EOK\<rparr>) k) = Some k1"
      "kernel_ok k1" "thread_stat k1 t = RT_THREAD_SUSPEND" "th_error (threads k1 t) = RT_EOK"
      "tlists k1 (CompQ i) = ipc_insert RT_IPC_FLAG_FIFO (\<lambda>s. th_current_priority (threads k s)) t (tlists k (CompQ i))"
    by blast
  then have q: "tlists k1 (CompQ i) = [t]" using assms(8) by (simp add: ipc_insert_def)
  from wake_first_ok[OF k1(2) wl] q obtain k2 where
    k2: "wake_first (CompQ i) k1 = Some k2" "kernel_ok k2" "tlists k2 (CompQ i) = []"
      "thread_stat k2 t = RT_THREAD_READY" "th_error (threads k2 t) = RT_EOK"
    using k1(4) by auto
  have "rt_completion_wait i timeout c k = Some (Blocked, c, k1)"
    using assms k1(1) by (simp add: rt_completion_wait_def context_defs tlist_isempty_def)
  moreover have "rt_completion_done i c k1 = Some (c\<lparr>comp_flag := RT_COMPLETED\<rparr>, k2)"
    using assms(7) k2(1) by (simp add: rt_completion_done_def)
  moreover have "rt_completion_done i c k = Some (c\<lparr>comp_flag := RT_COMPLETED\<rparr>, k)"
    using assms(7,8) by (simp add: rt_completion_done_def wake_first_def tlist_isempty_def)
  ultimately show ?thesis using k1(2,3) q k2 c
    by (simp add: rt_completion_wait_resumed_def) (simp add: rt_completion_wait_def)
qed

theorem completion_handshake_witness:
  "\<exists>k1 k2 c2. rt_completion_wait 0 50 \<lparr>comp_flag = RT_UNCOMPLETED\<rparr> ex_kernel = Some (Blocked, \<lparr>comp_flag = RT_UNCOMPLETED\<rparr>, k1) \<and>
     tlists k1 (CompQ 0) = [2] \<and> rt_completion_done 0 \<lparr>comp_flag = RT_UNCOMPLETED\<rparr> k1 = Some (c2, k2) \<and>
     rt_completion_wait_resumed 2 c2 k2 = (RT_EOK, \<lparr>comp_flag = RT_UNCOMPLETED\<rparr>)"
proof -
  have e: "tlists ex_kernel (CompQ 0) = []" by (simp add: ex_kernel_def)
  show ?thesis using completion_handshake[OF ex_kernel_ok ex_sel(1) ex_sel(7) ex_sel(6) _ ex_sel(2) _ e,
      of "\<lparr>comp_flag = RT_UNCOMPLETED\<rparr>" 50] by auto
qed

end
