(* ===== verification/Dataqueue.thy ===== *)
theory Dataqueue
  imports Ipc Fifo
begin

text \<open>
  rt-thread/components/drivers/src/dataqueue.c: a queue of pointers with sizes between two
  threads, with a wait list for each side and a low water mark below which a blocked writer is
  woken.
\<close>

section \<open>Operations\<close>

type_synonym rt_data_item = "u32 \<times> u32"

record rt_data_queue =
  dq_size :: u16
  dq_lwm :: u16
  dq_get_index :: u16
  dq_put_index :: u16
  dq_queue :: "rt_data_item list"

text \<open>The event codes and the function that is told of them, which is code of the user.\<close>

abbreviation RT_DATAQUEUE_EVENT_POP :: u32 where "RT_DATAQUEUE_EVENT_POP \<equiv> 1"
abbreviation RT_DATAQUEUE_EVENT_PUSH :: u32 where "RT_DATAQUEUE_EVENT_PUSH \<equiv> 2"
abbreviation RT_DATAQUEUE_EVENT_LWM :: u32 where "RT_DATAQUEUE_EVENT_LWM \<equiv> 3"

type_synonym evt_notify = "(u32 \<Rightarrow> kernel \<Rightarrow> kernel option) option"

definition dq_notify :: "evt_notify \<Rightarrow> u32 \<Rightarrow> kernel \<Rightarrow> kernel option" where
  "dq_notify evt e k = (case evt of None \<Rightarrow> Some k | Some f \<Rightarrow> f e k)"

text \<open>The difference of the two indices is computed in C's int, where it does not wrap.\<close>

definition RT_DATAQUEUE_SIZE :: "rt_data_queue \<Rightarrow> int" where
  "RT_DATAQUEUE_SIZE q = uint (dq_put_index q) - uint (dq_get_index q)"

text \<open>mem is what rt_malloc returned for the items.\<close>

definition rt_data_queue_init ::
  "nat \<Rightarrow> rt_data_item list option \<Rightarrow> u16 \<Rightarrow> u16 \<Rightarrow> kernel \<Rightarrow> (rt_err \<times> rt_data_queue option \<times> kernel) option" where
  "rt_data_queue_init i mem sz lwm k =
     do { k \<leftarrow> rt_ipc_object_init (DqPushQ i) k;
          k \<leftarrow> rt_ipc_object_init (DqPopQ i) k;
          case mem of
            None \<Rightarrow> Some (RT_ENOMEM, None, k)
          | Some items \<Rightarrow> Some (RT_EOK, Some \<lparr>dq_size = sz, dq_lwm = lwm, dq_get_index = 0, dq_put_index = 0, dq_queue = items\<rparr>, k) }"

definition dq_slot :: "u16 \<Rightarrow> rt_data_queue \<Rightarrow> nat" where
  "dq_slot index q = unat index mod unat (dq_size q)"

definition dq_put :: "rt_data_item \<Rightarrow> rt_data_queue \<Rightarrow> rt_data_queue option" where
  "dq_put x q =
     (if dq_slot (dq_put_index q) q < length (dq_queue q)
      then Some (q\<lparr>dq_queue := (dq_queue q)[dq_slot (dq_put_index q) q := x], dq_put_index := dq_put_index q + 1\<rparr>)
      else None)"

definition dq_peek :: "rt_data_queue \<Rightarrow> rt_data_item option" where
  "dq_peek q =
     (if dq_slot (dq_get_index q) q < length (dq_queue q) then Some (dq_queue q ! dq_slot (dq_get_index q) q) else None)"

text \<open>The while loops and what follows them; t is the thread that made the call.\<close>

definition dq_push_loop ::
  "evt_notify \<Rightarrow> nat \<Rightarrow> tid option \<Rightarrow> rt_data_item \<Rightarrow> u32 \<Rightarrow> rt_data_queue \<Rightarrow> kernel \<Rightarrow> (rt_err outcome \<times> rt_data_queue \<times> kernel) option" where
  "dq_push_loop evt i t x timeout q k =
     (if RT_DATAQUEUE_SIZE q = uint (dq_size q)
      then if timeout = 0 then Some (Return RT_ETIMEOUT, q, k)
           else if \<not> RT_DEBUG_NOT_IN_INTERRUPT k then None
           else do { t \<leftarrow> t;
                     let k = upd_thread t (\<lambda>th. th\<lparr>th_error := RT_EOK\<rparr>) k;
                     k \<leftarrow> ipc_block (DqPushQ i) t RT_IPC_FLAG_FIFO timeout k;
                     Some (Blocked, q, k) }
      else do { q \<leftarrow> dq_put x q;
                if \<not> tlist_isempty (DqPopQ i) k
                then do { k \<leftarrow> wake_first (DqPopQ i) k; Some (Return RT_EOK, q, k) }
                else do { k \<leftarrow> dq_notify evt RT_DATAQUEUE_EVENT_PUSH k; Some (Return RT_EOK, q, k) } })"


definition rt_data_queue_push_resumed ::
  "evt_notify \<Rightarrow> nat \<Rightarrow> tid \<Rightarrow> rt_data_item \<Rightarrow> u32 \<Rightarrow> rt_data_queue \<Rightarrow> kernel \<Rightarrow> (rt_err outcome \<times> rt_data_queue \<times> kernel) option" where
  "rt_data_queue_push_resumed evt i t x timeout q k =
     (if th_error (threads k t) \<noteq> RT_EOK then Some (Return (th_error (threads k t)), q, k)
      else dq_push_loop evt i (Some t) x timeout q k)"

definition dq_pop_loop ::
  "evt_notify \<Rightarrow> nat \<Rightarrow> tid option \<Rightarrow> u32 \<Rightarrow> rt_data_queue \<Rightarrow> kernel \<Rightarrow> ((rt_err \<times> rt_data_item option) outcome \<times> rt_data_queue \<times> kernel) option" where
  "dq_pop_loop evt i t timeout q k =
     (if dq_get_index q = dq_put_index q
      then if timeout = 0 then Some (Return (RT_ETIMEOUT, None), q, k)
           else if \<not> RT_DEBUG_NOT_IN_INTERRUPT k then None
           else do { t \<leftarrow> t;
                     let k = upd_thread t (\<lambda>th. th\<lparr>th_error := RT_EOK\<rparr>) k;
                     k \<leftarrow> ipc_block (DqPopQ i) t RT_IPC_FLAG_FIFO timeout k;
                     Some (Blocked, q, k) }
      else do { x \<leftarrow> dq_peek q;
                let q = q\<lparr>dq_get_index := dq_get_index q + 1\<rparr>;
                if RT_DATAQUEUE_SIZE q \<le> uint (dq_lwm q)
                then do { k \<leftarrow> wake_first (DqPushQ i) k;
                          k \<leftarrow> dq_notify evt RT_DATAQUEUE_EVENT_LWM k;
                          Some (Return (RT_EOK, Some x), q, k) }
                else do { k \<leftarrow> dq_notify evt RT_DATAQUEUE_EVENT_POP k;
                          Some (Return (RT_EOK, Some x), q, k) } })"


definition rt_data_queue_pop_resumed ::
  "evt_notify \<Rightarrow> nat \<Rightarrow> tid \<Rightarrow> u32 \<Rightarrow> rt_data_queue \<Rightarrow> kernel \<Rightarrow> ((rt_err \<times> rt_data_item option) outcome \<times> rt_data_queue \<times> kernel) option" where
  "rt_data_queue_pop_resumed evt i t timeout q k =
     (if th_error (threads k t) \<noteq> RT_EOK then Some (Return (th_error (threads k t), None), q, k)
      else dq_pop_loop evt i (Some t) timeout q k)"

definition rt_data_queue_peak :: "rt_data_queue \<Rightarrow> (rt_err \<times> rt_data_item option) option" where
  "rt_data_queue_peak q =
     (if dq_get_index q = dq_put_index q then Some (RT_EEMPTY, None)
      else do { x \<leftarrow> dq_peek q; Some (RT_EOK, Some x) })"

definition rt_data_queue_reset :: "nat \<Rightarrow> kernel \<Rightarrow> kernel option" where
  "rt_data_queue_reset i k =
     do { let k = rt_enter_critical k;
          k \<leftarrow> rt_ipc_list_resume_all (DqPopQ i) k;
          k \<leftarrow> rt_ipc_list_resume_all (DqPushQ i) k;
          k \<leftarrow> rt_exit_critical k;
          rt_schedule k }"

section \<open>The stream of items\<close>










section \<open>Properties\<close>






end
