(* ===== verification/Device.thy ===== *)
theory Device
  imports Ipc
begin

text \<open>
  rt-thread/src/device.c: the registry of devices and the layer that counts the users of a
  device.  The functions of a driver are code outside the kernel, a parameter.
\<close>

section \<open>Operations\<close>

abbreviation RT_DEVICE_FLAG_STANDALONE :: u16 where "RT_DEVICE_FLAG_STANDALONE \<equiv> 0x008"
abbreviation RT_DEVICE_FLAG_ACTIVATED :: u16 where "RT_DEVICE_FLAG_ACTIVATED \<equiv> 0x010"
abbreviation RT_DEVICE_OFLAG_CLOSE :: u16 where "RT_DEVICE_OFLAG_CLOSE \<equiv> 0x000"
abbreviation RT_DEVICE_OFLAG_OPEN :: u16 where "RT_DEVICE_OFLAG_OPEN \<equiv> 0x008"
abbreviation RT_DEVICE_OFLAG_MASK :: u16 where "RT_DEVICE_OFLAG_MASK \<equiv> 0xf0f"

text \<open>The name of the device is in its kernel object.  The two indications are functions of the
  user, known by a number.\<close>

record rt_device =
  dev_type :: u32
  dev_flag :: u16
  dev_open_flag :: u16
  dev_ref_count :: u8
  dev_rx_indicate :: "nat option"
  dev_tx_complete :: "nat option"

text \<open>A driver: functions on the device, on the hardware and data of the driver ('h) and on the
  kernel, any of which may be missing.\<close>

type_synonym ('h, 'r) driver_fun = "rt_device \<Rightarrow> 'h \<Rightarrow> kernel \<Rightarrow> ('r \<times> rt_device \<times> 'h \<times> kernel) option"

record 'h rt_device_ops =
  op_init :: "('h, rt_err) driver_fun option"
  op_open :: "(u16 \<Rightarrow> ('h, rt_err) driver_fun) option"
  op_close :: "('h, rt_err) driver_fun option"
  op_read :: "(u32 \<Rightarrow> u32 \<Rightarrow> ('h, u32) driver_fun) option"
  op_write :: "(u32 \<Rightarrow> u8 list \<Rightarrow> ('h, u32) driver_fun) option"
  op_control :: "(int \<Rightarrow> u32 \<Rightarrow> ('h, rt_err) driver_fun) option"

definition rt_device_find :: "u8 list \<Rightarrow> kernel \<Rightarrow> (nat option \<times> kernel) option" where
  "rt_device_find name k =
     do { let k = (if rt_thread_self k \<noteq> None then rt_enter_critical k else k);
          c \<leftarrow> rt_object_get_information (class_value RT_Object_Class_Device);
          let found = List.find (\<lambda>ob. rt_strncmp (ob_name (objs k ob)) name RT_NAME_MAX = 0) (object_list k c);
          k \<leftarrow> (if rt_thread_self k \<noteq> None then rt_exit_critical k else Some k);
          Some (case found of Some (ObjDevice d) \<Rightarrow> Some d | _ \<Rightarrow> None, k) }"

definition rt_device_register ::
  "nat option \<Rightarrow> u8 list \<Rightarrow> u16 \<Rightarrow> (nat \<Rightarrow> rt_device) \<Rightarrow> kernel \<Rightarrow> (rt_err \<times> (nat \<Rightarrow> rt_device) \<times> kernel) option" where
  "rt_device_register dev name flags devs k =
     (case dev of
        None \<Rightarrow> Some (RT_ERROR, devs, k)
      | Some d \<Rightarrow>
          do { (found, k) \<leftarrow> rt_device_find name k;
               if found \<noteq> None then Some (RT_ERROR, devs, k)
               else do { k \<leftarrow> rt_object_init (ObjDevice d) name k;
                         Some (RT_EOK, devs(d := (devs d)\<lparr>dev_flag := flags, dev_ref_count := 0, dev_open_flag := 0\<rparr>), k) } })"

definition rt_device_unregister :: "nat \<Rightarrow> kernel \<Rightarrow> rt_err \<times> kernel" where
  "rt_device_unregister d k = (RT_EOK, rt_object_detach (ObjDevice d) k)"

definition rt_device_init_all :: "kernel \<Rightarrow> rt_err \<times> kernel" where
  "rt_device_init_all k = (RT_EOK, k)"

text \<open>The record of a new device; mem tells whether rt_malloc found memory for it.\<close>

definition rt_device_create :: "bool \<Rightarrow> u32 \<Rightarrow> rt_device option" where
  "rt_device_create mem ty =
     (if mem then Some \<lparr>dev_type = ty, dev_flag = 0, dev_open_flag = 0, dev_ref_count = 0,
                        dev_rx_indicate = None, dev_tx_complete = None\<rparr>
      else None)"

definition rt_device_init :: "'h rt_device_ops \<Rightarrow> ('h, rt_err) driver_fun" where
  "rt_device_init ops dev h k =
     (case op_init ops of
        Some init \<Rightarrow>
          if dev_flag dev AND RT_DEVICE_FLAG_ACTIVATED = 0
          then do { (result, dev, h, k) \<leftarrow> init dev h k;
                    Some (result, if result \<noteq> RT_EOK then dev else dev\<lparr>dev_flag := dev_flag dev OR RT_DEVICE_FLAG_ACTIVATED\<rparr>, h, k) }
          else Some (RT_EOK, dev, h, k)
      | None \<Rightarrow> Some (RT_EOK, dev, h, k))"

text \<open>The first part of rt_device_open: initialise the device unless that was done.\<close>

definition device_activate :: "'h rt_device_ops \<Rightarrow> ('h, rt_err) driver_fun" where
  "device_activate ops dev h k =
     (if dev_flag dev AND RT_DEVICE_FLAG_ACTIVATED = 0
      then do { (result, dev, h, k) \<leftarrow> (case op_init ops of Some init \<Rightarrow> init dev h k | None \<Rightarrow> Some (RT_EOK, dev, h, k));
                Some (result, if result \<noteq> RT_EOK then dev else dev\<lparr>dev_flag := dev_flag dev OR RT_DEVICE_FLAG_ACTIVATED\<rparr>, h, k) }
      else Some (RT_EOK, dev, h, k))"

definition rt_device_open :: "'h rt_device_ops \<Rightarrow> u16 \<Rightarrow> ('h, rt_err) driver_fun" where
  "rt_device_open ops oflag dev h k =
     do { (result, dev, h, k) \<leftarrow> device_activate ops dev h k;
          if result \<noteq> RT_EOK then Some (result, dev, h, k)
          else if dev_flag dev AND RT_DEVICE_FLAG_STANDALONE \<noteq> 0 \<and> dev_open_flag dev AND RT_DEVICE_OFLAG_OPEN \<noteq> 0
          then Some (RT_EBUSY, dev, h, k)
          else do { (result, dev, h, k) \<leftarrow>
                      (case op_open ops of
                         Some open_fun \<Rightarrow> open_fun oflag dev h k
                       | None \<Rightarrow> Some (RT_EOK, dev\<lparr>dev_open_flag := oflag AND RT_DEVICE_OFLAG_MASK\<rparr>, h, k));
                    if result = RT_EOK \<or> result = RT_ENOSYS
                    then let dev = dev\<lparr>dev_open_flag := dev_open_flag dev OR RT_DEVICE_OFLAG_OPEN,
                                       dev_ref_count := dev_ref_count dev + 1\<rparr>
                         in if dev_ref_count dev \<noteq> 0 then Some (result, dev, h, k) else None
                    else Some (result, dev, h, k) } }"

definition rt_device_close :: "'h rt_device_ops \<Rightarrow> ('h, rt_err) driver_fun" where
  "rt_device_close ops dev h k =
     (if dev_ref_count dev = 0 then Some (RT_ERROR, dev, h, k)
      else let dev = dev\<lparr>dev_ref_count := dev_ref_count dev - 1\<rparr>
           in if dev_ref_count dev \<noteq> 0 then Some (RT_EOK, dev, h, k)
              else do { (result, dev, h, k) \<leftarrow>
                          (case op_close ops of Some close_fun \<Rightarrow> close_fun dev h k | None \<Rightarrow> Some (RT_EOK, dev, h, k));
                        Some (result, if result = RT_EOK \<or> result = RT_ENOSYS
                                      then dev\<lparr>dev_open_flag := RT_DEVICE_OFLAG_CLOSE\<rparr> else dev, h, k) })"

definition rt_device_read :: "'h rt_device_ops \<Rightarrow> u32 \<Rightarrow> u32 \<Rightarrow> ('h, u32) driver_fun" where
  "rt_device_read ops pos sz dev h k =
     (if dev_ref_count dev = 0 then Some (0, dev, h, rt_set_errno RT_ERROR k)
      else case op_read ops of
             Some read_fun \<Rightarrow> read_fun pos sz dev h k
           | None \<Rightarrow> Some (0, dev, h, rt_set_errno RT_ENOSYS k))"

definition rt_device_write :: "'h rt_device_ops \<Rightarrow> u32 \<Rightarrow> u8 list \<Rightarrow> ('h, u32) driver_fun" where
  "rt_device_write ops pos buffer dev h k =
     (if dev_ref_count dev = 0 then Some (0, dev, h, rt_set_errno RT_ERROR k)
      else case op_write ops of
             Some write_fun \<Rightarrow> write_fun pos buffer dev h k
           | None \<Rightarrow> Some (0, dev, h, rt_set_errno RT_ENOSYS k))"

definition rt_device_control :: "'h rt_device_ops \<Rightarrow> int \<Rightarrow> u32 \<Rightarrow> ('h, rt_err) driver_fun" where
  "rt_device_control ops cmd arg dev h k =
     (case op_control ops of
        Some control_fun \<Rightarrow> control_fun cmd arg dev h k
      | None \<Rightarrow> Some (RT_ENOSYS, dev, h, k))"

definition rt_device_set_rx_indicate :: "nat option \<Rightarrow> rt_device \<Rightarrow> rt_err \<times> rt_device" where
  "rt_device_set_rx_indicate rx_ind dev = (RT_EOK, dev\<lparr>dev_rx_indicate := rx_ind\<rparr>)"

definition rt_device_set_tx_complete :: "nat option \<Rightarrow> rt_device \<Rightarrow> rt_err \<times> rt_device" where
  "rt_device_set_tx_complete tx_done dev = (RT_EOK, dev\<lparr>dev_tx_complete := tx_done\<rparr>)"


section \<open>Opening and closing\<close>

text \<open>What the device layer relies on of a driver: its functions succeed and leave the device record
  to the layer.\<close>

definition plain :: "('h, rt_err) driver_fun option \<Rightarrow> bool" where
  "plain f \<longleftrightarrow> (\<forall>g dev h k. f = Some g \<longrightarrow> (\<exists>h' k'. g dev h k = Some (RT_EOK, dev, h', k')))"

definition driver_plain :: "'h rt_device_ops \<Rightarrow> bool" where
  "driver_plain ops \<longleftrightarrow> plain (op_init ops) \<and> (\<forall>f. plain (map_option (\<lambda>g. g f) (op_open ops))) \<and> plain (op_close ops)"

lemma driver_plainD:
  assumes "driver_plain ops"
  shows "op_init ops = Some f \<Longrightarrow> \<exists>h' k'. f dev h k = Some (RT_EOK, dev, h', k')"
    "op_open ops = Some g \<Longrightarrow> \<exists>h' k'. g oflag dev h k = Some (RT_EOK, dev, h', k')"
    "op_close ops = Some f \<Longrightarrow> \<exists>h' k'. f dev h k = Some (RT_EOK, dev, h', k')"
  using assms by (auto simp: driver_plain_def plain_def)

text \<open>A device that is open n times.\<close>

definition dev_opened :: "nat \<Rightarrow> rt_device \<Rightarrow> bool" where
  "dev_opened n dev \<longleftrightarrow> unat (dev_ref_count dev) = n \<and> (0 < n \<longleftrightarrow> bit (dev_open_flag dev) 3)"

definition dev_standalone :: "rt_device \<Rightarrow> bool" where
  "dev_standalone dev \<longleftrightarrow> bit (dev_flag dev) 3"

lemma dev_flag_bits:
  fixes f :: u16
  shows "f AND RT_DEVICE_FLAG_STANDALONE \<noteq> 0 \<longleftrightarrow> bit f 3" "f AND RT_DEVICE_FLAG_ACTIVATED \<noteq> 0 \<longleftrightarrow> bit f 4"
    "bit (f OR RT_DEVICE_OFLAG_OPEN) 3" "bit (f OR RT_DEVICE_FLAG_ACTIVATED) 3 = bit f 3"
proof -
  have e: "(8 :: u16) = push_bit 3 1" "(16 :: u16) = push_bit 4 1" by simp_all
  show "f AND 8 \<noteq> 0 \<longleftrightarrow> bit f 3" "f AND 16 \<noteq> 0 \<longleftrightarrow> bit f 4"
    unfolding e and_flag_bit by simp_all
  show "bit (f OR 8) 3" "bit (f OR 16) 3 = bit f 3"
    unfolding e by (simp_all only: bit_or_iff bit_push_bit_iff) simp_all
qed


lemma activate_ok:
  assumes "driver_plain ops"
  shows "\<exists>dev' h' k'. device_activate ops dev h k = Some (RT_EOK, dev', h', k') \<and>
     dev_open_flag dev' = dev_open_flag dev \<and> dev_ref_count dev' = dev_ref_count dev \<and> dev_standalone dev' = dev_standalone dev"
proof (cases "dev_flag dev AND RT_DEVICE_FLAG_ACTIVATED = 0")
  case True
  obtain h' k' where "(case op_init ops of Some init \<Rightarrow> init dev h k | None \<Rightarrow> Some (RT_EOK, dev, h, k)) = Some (RT_EOK, dev, h', k')"
    using driver_plainD(1)[OF assms, of _ dev h k] by (cases "op_init ops") fastforce+
  with True show ?thesis by (simp add: device_activate_def dev_standalone_def dev_flag_bits)
qed (simp add: device_activate_def)

lemma open_ok:
  assumes d: "driver_plain ops" and n: "dev_opened n dev"
  shows "\<not> (dev_standalone dev \<and> 0 < n) \<Longrightarrow> n < 255 \<Longrightarrow>
      \<exists>dev' h' k'. rt_device_open ops oflag dev h k = Some (RT_EOK, dev', h', k') \<and> dev_opened (Suc n) dev' \<and> dev_standalone dev' = dev_standalone dev"
    and "\<not> dev_standalone dev \<Longrightarrow> n = 255 \<Longrightarrow> rt_device_open ops oflag dev h k = None"
    and "dev_standalone dev \<Longrightarrow> 0 < n \<Longrightarrow>
      \<exists>dev' h' k'. rt_device_open ops oflag dev h k = Some (RT_EBUSY, dev', h', k') \<and> dev_opened n dev'"
proof -
  from activate_ok[OF d] obtain dev1 h1 k1 where
    a: "device_activate ops dev h k = Some (RT_EOK, dev1, h1, k1)" "dev_open_flag dev1 = dev_open_flag dev"
       "dev_ref_count dev1 = dev_ref_count dev" "dev_standalone dev1 = dev_standalone dev" by blast
  have busy: "dev_flag dev1 AND RT_DEVICE_FLAG_STANDALONE \<noteq> 0 \<and> dev_open_flag dev1 AND RT_DEVICE_OFLAG_OPEN \<noteq> 0 \<longleftrightarrow> dev_standalone dev \<and> 0 < n"
    using a(2,4) n by (simp add: dev_flag_bits dev_standalone_def dev_opened_def)
  obtain dev2 h2 k2 where o: "(case op_open ops of Some open_fun \<Rightarrow> open_fun oflag dev1 h1 k1
      | None \<Rightarrow> Some (RT_EOK, dev1\<lparr>dev_open_flag := oflag AND RT_DEVICE_OFLAG_MASK\<rparr>, h1, k1)) = Some (RT_EOK, dev2, h2, k2)"
    "dev_ref_count dev2 = dev_ref_count dev" "dev_standalone dev2 = dev_standalone dev"
  proof (cases "op_open ops")
    case None
    then show ?thesis using that a(3,4) by (simp add: dev_standalone_def)
  next
    case (Some g)
    then obtain h2 k2 where "g oflag dev1 h1 k1 = Some (RT_EOK, dev1, h2, k2)" using driver_plainD(2)[OF d] by blast
    then show ?thesis using Some that a(3,4) by simp
  qed
  let ?dev = "dev2\<lparr>dev_open_flag := dev_open_flag dev2 OR RT_DEVICE_OFLAG_OPEN, dev_ref_count := dev_ref_count dev2 + 1\<rparr>"
  have eq: "rt_device_open ops oflag dev h k = (if dev_standalone dev \<and> 0 < n then Some (RT_EBUSY, dev1, h1, k1)
      else if dev_ref_count dev + 1 \<noteq> 0 then Some (RT_EOK, ?dev, h2, k2) else None)"
    unfolding rt_device_open_def a(1) using o(1,2) busy by (auto simp: Let_def)
  have un: "unat (dev_ref_count dev) = n" using n by (simp add: dev_opened_def)
  {
    assume "\<not> (dev_standalone dev \<and> 0 < n)" "n < 255"
    moreover have "unat (dev_ref_count dev + 1) = Suc n" using un \<open>n < 255\<close> by (subst unat_add_lem[THEN iffD1]) simp_all
    moreover from this have "dev_ref_count dev + 1 \<noteq> 0" by (metis nat.distinct(1) unat_0)
    ultimately show "\<exists>dev' h' k'. rt_device_open ops oflag dev h k = Some (RT_EOK, dev', h', k') \<and> dev_opened (Suc n) dev' \<and> dev_standalone dev' = dev_standalone dev"
      using eq o(2,3) by (simp add: dev_opened_def dev_flag_bits dev_standalone_def)
  next
    assume "\<not> dev_standalone dev" "n = 255"
    moreover have "dev_ref_count dev = 255" using un \<open>n = 255\<close> by (simp add: word_unat_eq_iff)
    ultimately show "rt_device_open ops oflag dev h k = None" using eq by simp
  next
    assume "dev_standalone dev" "0 < n"
    then show "\<exists>dev' h' k'. rt_device_open ops oflag dev h k = Some (RT_EBUSY, dev', h', k') \<and> dev_opened n dev'"
      using eq n a(2,3) by (simp add: dev_opened_def)
  }
qed

lemma close_device_ok:
  assumes d: "driver_plain ops" and n: "dev_opened n dev"
  shows "n = 0 \<Longrightarrow> rt_device_close ops dev h k = Some (RT_ERROR, dev, h, k)"
    and "1 < n \<Longrightarrow> \<exists>dev'. rt_device_close ops dev h k = Some (RT_EOK, dev', h, k) \<and> dev_opened (n - 1) dev'"
    and "n = 1 \<Longrightarrow> \<exists>dev' h' k'. rt_device_close ops dev h k = Some (RT_EOK, dev', h', k') \<and> dev_opened 0 dev' \<and>
      (case op_close ops of Some f \<Rightarrow> f (dev\<lparr>dev_ref_count := 0\<rparr>) h k = Some (RT_EOK, dev\<lparr>dev_ref_count := 0\<rparr>, h', k')
                          | None \<Rightarrow> h' = h \<and> k' = k)"
proof -
  have un: "unat (dev_ref_count dev) = n" "0 < n \<Longrightarrow> bit (dev_open_flag dev) 3" using n by (simp_all add: dev_opened_def)
  show "n = 0 \<Longrightarrow> rt_device_close ops dev h k = Some (RT_ERROR, dev, h, k)"
    using un(1) by (simp add: rt_device_close_def unat_eq_zero)
  {
    assume "1 < n"
    then have nz: "dev_ref_count dev \<noteq> 0" using un(1) by auto
    then have u: "unat (dev_ref_count dev - 1) = n - 1" using un(1) by (simp add: unat_minus_one)
    then have "dev_ref_count dev - 1 \<noteq> 0" using \<open>1 < n\<close> by (metis unat_0 zero_less_diff less_numeral_extra(3))
    then show "\<exists>dev'. rt_device_close ops dev h k = Some (RT_EOK, dev', h, k) \<and> dev_opened (n - 1) dev'"
      using nz u un(2) \<open>1 < n\<close> by (simp add: rt_device_close_def dev_opened_def)
  next
    assume "n = 1"
    then have one: "dev_ref_count dev = 1" using un(1) by (simp add: word_unat_eq_iff)
    then show "\<exists>dev' h' k'. rt_device_close ops dev h k = Some (RT_EOK, dev', h', k') \<and> dev_opened 0 dev' \<and>
      (case op_close ops of Some f \<Rightarrow> f (dev\<lparr>dev_ref_count := 0\<rparr>) h k = Some (RT_EOK, dev\<lparr>dev_ref_count := 0\<rparr>, h', k')
                          | None \<Rightarrow> h' = h \<and> k' = k)"
    proof (cases "op_close ops")
      case None
      then show ?thesis using one by (simp add: rt_device_close_def dev_opened_def)
    next
      case (Some f)
      then obtain h' k' where "f (dev\<lparr>dev_ref_count := 0\<rparr>) h k = Some (RT_EOK, dev\<lparr>dev_ref_count := 0\<rparr>, h', k')"
        using driver_plainD(3)[OF d] by blast
      then show ?thesis using one Some by (simp add: rt_device_close_def dev_opened_def)
    qed
  }
qed

section \<open>Properties\<close>

text \<open>The device layer counts the users of a device.  With a driver whose functions succeed, an open
  adds a user unless the device is exclusive and in use (RT_EBUSY), a close removes one, only
  the close of the last user reaches the driver, and a device without a user is not closed
  again.  The count has 8 bits: the open of a 256th user fails an assertion.\<close>

theorem device_user_count:
  assumes "driver_plain ops" and "dev_opened n dev"
  shows "(n < 255 \<and> \<not> (dev_standalone dev \<and> 0 < n) \<longrightarrow>
        (\<exists>dev' h' k'. rt_device_open ops oflag dev h k = Some (RT_EOK, dev', h', k') \<and> dev_opened (Suc n) dev')) \<and>
     (n = 255 \<and> \<not> dev_standalone dev \<longrightarrow> rt_device_open ops oflag dev h k = None) \<and>
     (dev_standalone dev \<and> 0 < n \<longrightarrow>
        (\<exists>dev' h' k'. rt_device_open ops oflag dev h k = Some (RT_EBUSY, dev', h', k') \<and> dev_opened n dev')) \<and>
     (n = 0 \<longrightarrow> rt_device_close ops dev h k = Some (RT_ERROR, dev, h, k)) \<and>
     (1 < n \<longrightarrow> (\<exists>dev'. rt_device_close ops dev h k = Some (RT_EOK, dev', h, k) \<and> dev_opened (n - 1) dev')) \<and>
     (n = 1 \<longrightarrow> (\<exists>dev' h' k'. rt_device_close ops dev h k = Some (RT_EOK, dev', h', k') \<and> dev_opened 0 dev' \<and>
        (case op_close ops of Some f \<Rightarrow> f (dev\<lparr>dev_ref_count := 0\<rparr>) h k = Some (RT_EOK, dev\<lparr>dev_ref_count := 0\<rparr>, h', k')
                            | None \<Rightarrow> h' = h \<and> k' = k)))"
proof (intro conjI impI)
  show "\<exists>dev' h' k'. rt_device_open ops oflag dev h k = Some (RT_EOK, dev', h', k') \<and> dev_opened (Suc n) dev'"
    if "n < 255 \<and> \<not> (dev_standalone dev \<and> 0 < n)" using open_ok(1)[OF assms] that by blast
qed (use open_ok(2,3)[OF assms] close_device_ok[OF assms] in blast)+

definition ex_ops :: "nat rt_device_ops" where
  "ex_ops = \<lparr>op_init = Some (\<lambda>dev h k. Some (RT_EOK, dev, h + 1, k)), op_open = None,
     op_close = Some (\<lambda>dev h k. Some (RT_EOK, dev, h + 10, k)), op_read = None, op_write = None, op_control = None\<rparr>"

definition ex_device :: rt_device where
  "ex_device = \<lparr>dev_type = 0, dev_flag = 3, dev_open_flag = 0, dev_ref_count = 0, dev_rx_indicate = None, dev_tx_complete = None\<rparr>"

theorem device_user_count_witness:
  "\<exists>dev' h' k' dev2 h2 k2. rt_device_open ex_ops 3 ex_device 0 ex_kernel = Some (RT_EOK, dev', h', k') \<and> dev_opened 1 dev' \<and>
     rt_device_close ex_ops dev' h' k' = Some (RT_EOK, dev2, h2, k2) \<and> dev_opened 0 dev2 \<and> h2 = h' + 10"
proof -
  have d: "driver_plain ex_ops" by (simp add: driver_plain_def plain_def ex_ops_def)
  have n: "dev_opened 0 ex_device" by (simp add: dev_opened_def ex_device_def)
  from device_user_count[OF d n, of 3 0 ex_kernel] obtain dev' h' k' where
    o: "rt_device_open ex_ops 3 ex_device 0 ex_kernel = Some (RT_EOK, dev', h', k')" "dev_opened 1 dev'" by auto
  from device_user_count[OF d o(2), of 3 h' k'] o show ?thesis by (auto simp: ex_ops_def)
qed

text \<open>When the driver fails to close an exclusive device for its last user, the user is counted out
  but the device stays marked as open: from then on every open is refused as busy and every
  close as an error.\<close>

theorem device_close_failure_locks:
  assumes "op_close ops = Some f" and "f (dev\<lparr>dev_ref_count := 0\<rparr>) h k = Some (e, dev\<lparr>dev_ref_count := 0\<rparr>, h', k')"
    and "e \<noteq> RT_EOK" and "e \<noteq> RT_ENOSYS" and "dev_opened 1 dev" and "dev_standalone dev" and "bit (dev_flag dev) 4"
  shows "\<exists>dev'. rt_device_close ops dev h k = Some (e, dev', h', k') \<and>
     rt_device_open ops oflag dev' h2 k2 = Some (RT_EBUSY, dev', h2, k2) \<and>
     rt_device_close ops dev' h2 k2 = Some (RT_ERROR, dev', h2, k2)"
proof -
  let ?dev = "dev\<lparr>dev_ref_count := 0\<rparr>"
  have one: "dev_ref_count dev = 1" "bit (dev_open_flag dev) 3" using assms(5) by (simp_all add: dev_opened_def word_unat_eq_iff)
  have "rt_device_close ops dev h k = Some (e, ?dev, h', k')" using assms(1-4) one by (simp add: rt_device_close_def)
  moreover have "device_activate ops ?dev h2 k2 = Some (RT_EOK, ?dev, h2, k2)"
    using assms(7) dev_flag_bits(2)[of "dev_flag dev"] by (simp add: device_activate_def)
  then have "rt_device_open ops oflag ?dev h2 k2 = Some (RT_EBUSY, ?dev, h2, k2)"
    using assms(6) one(2) dev_flag_bits(1) by (simp add: rt_device_open_def dev_standalone_def)
  moreover have "rt_device_close ops ?dev h2 k2 = Some (RT_ERROR, ?dev, h2, k2)" by (simp add: rt_device_close_def)
  ultimately show ?thesis by blast
qed


theorem device_close_failure_locks_witness:
  "\<exists>dev'. rt_device_close (ex_ops\<lparr>op_close := Some (\<lambda>dev h k. Some (RT_EIO, dev, h, k))\<rparr>)
       (ex_device\<lparr>dev_flag := 0x18, dev_open_flag := 8, dev_ref_count := 1\<rparr>) 0 ex_kernel = Some (RT_EIO, dev', 0, ex_kernel) \<and>
     rt_device_open (ex_ops\<lparr>op_close := Some (\<lambda>dev h k. Some (RT_EIO, dev, h, k))\<rparr>) 3 dev' 0 ex_kernel = Some (RT_EBUSY, dev', 0, ex_kernel)"
  using device_close_failure_locks[of "ex_ops\<lparr>op_close := Some (\<lambda>dev h k. Some (RT_EIO, dev, h, k))\<rparr>" "\<lambda>dev h k. Some (RT_EIO, dev, h, k)"
      "ex_device\<lparr>dev_flag := 0x18, dev_open_flag := 8, dev_ref_count := 1\<rparr>" 0 ex_kernel RT_EIO 0 ex_kernel 3 0 ex_kernel]
  by (auto simp: dev_opened_def dev_standalone_def)

section \<open>The registry\<close>

lemma device_find_eq:
  assumes "rt_scheduler_lock_nest k = 0" and "rt_current_thread k \<noteq> None"
  shows "rt_device_find name k =
    do { k' \<leftarrow> rt_schedule k;
         Some (case List.find (\<lambda>ob. rt_strncmp (ob_name (objs k ob)) name RT_NAME_MAX = 0) (object_list k RT_Object_Class_Device) of
                 Some (ObjDevice d) \<Rightarrow> Some d | _ \<Rightarrow> None, k') }"
proof -
  have i: "rt_object_get_information (class_value RT_Object_Class_Device) = Some RT_Object_Class_Device"
    using get_information_class[of "ObjDevice 0"] by simp
  note i = i[simplified]
  have e: "objs (rt_enter_critical k) = objs k" "object_list (rt_enter_critical k) = object_list k"
    "rt_current_thread (rt_enter_critical k) = rt_current_thread k" by (simp_all add: rt_enter_critical_def)
  show ?thesis using assms critical_pair[OF assms(1)] by (simp add: rt_device_find_def rt_thread_self_def i e)
qed


text \<open>The kernel is ready for a call of the device layer from a thread.\<close>

definition dev_context :: "kernel \<Rightarrow> bool" where
  "dev_context k \<longleftrightarrow> kernel_ok k \<and> someone_ready k \<and> rt_scheduler_lock_nest k = 0 \<and> rt_current_thread k \<noteq> None"

lemma schedule_dev_context:
  assumes "dev_context k"
  obtains k' where "rt_schedule k = Some k'" "dev_context k'" "objs k' = objs k" "object_list k' = object_list k"
proof -
  have d: "kernel_ok k" "someone_ready k" "rt_scheduler_lock_nest k = 0" using assms by (simp_all add: dev_context_def)
  from schedule_total[OF kernel_okD(1)[OF d(1)] d(2,3)] obtain k' where k': "rt_schedule k = Some k'" "rt_current_thread k' \<noteq> None" by auto
  have f: "object_list k' = object_list k" "rt_scheduler_lock_nest k' = rt_scheduler_lock_nest k"
    by (subst schedule_frame[OF k'(1)], simp)+
  have "dev_context k'" using d k'(2) f(2) schedule_kernel_ok[OF k'(1)] schedule_sel(2)[OF k'(1)]
    by (simp add: dev_context_def someone_ready_def)
  then show ?thesis using that k'(1) schedule_sel(5)[OF k'(1)] f(1) by blast
qed

lemma device_find_hd:
  assumes c: "dev_context k" and l: "object_list k RT_Object_Class_Device = ObjDevice d # obs"
    and n: "rt_strncmp (ob_name (objs k (ObjDevice d))) name RT_NAME_MAX = 0"
  shows "\<exists>k'. rt_device_find name k = Some (Some d, k')"
proof -
  from schedule_dev_context[OF c] obtain k' where "rt_schedule k = Some k'" by blast
  then show ?thesis using device_find_eq[of k name] c l n by (simp add: dev_context_def)
qed

text \<open>Registering a device under a name that no registered device has makes it known by that name, with no
  user; a second device is refused the same name.\<close>

theorem device_register_find:
  assumes "dev_context k" and "ObjDevice d \<notin> set (object_list k RT_Object_Class_Device)" and "0 \<notin> set name"
    and "\<forall>ob \<in> set (object_list k RT_Object_Class_Device). rt_strncmp (ob_name (objs k ob)) name RT_NAME_MAX \<noteq> 0"
  shows "\<exists>devs1 k1 k2 k3. rt_device_register (Some d) name flags devs k = Some (RT_EOK, devs1, k1) \<and> dev_opened 0 (devs1 d) \<and>
     dev_flag (devs1 d) = flags \<and> rt_device_find name k1 = Some (Some d, k2) \<and>
     rt_device_register (Some e) name flags2 devs1 k1 = Some (RT_ERROR, devs1, k3)"
proof -
  from schedule_dev_context[OF assms(1)] obtain k0 where
    k0: "rt_schedule k = Some k0" "dev_context k0" "objs k0 = objs k" "object_list k0 = object_list k" by blast
  have none: "List.find (\<lambda>ob. rt_strncmp (ob_name (objs k ob)) name RT_NAME_MAX = 0) (object_list k RT_Object_Class_Device) = None"
    using assms(4) by (simp add: find_None_iff)
  have f: "rt_device_find name k = Some (None, k0)"
    using device_find_eq[of k name] assms(1) k0(1) by (simp add: dev_context_def none)
  have "ObjDevice d \<notin> set (object_list k0 (class_of (ObjDevice d)))" using assms(2) k0(4) by simp
  note oi = object_init_eq[OF this, of name]
  then obtain k1 where k1: "rt_object_init (ObjDevice d) name k0 = Some k1" by blast
  have c1: "dev_context k1"
  proof -
    note fr = object_init_frame[OF k1]
    have "tlists k1 = tlists k0" "rt_scheduler_lock_nest k1 = rt_scheduler_lock_nest k0" "rt_current_thread k1 = rt_current_thread k0"
      by (subst fr, simp)+
    then show ?thesis using k0(2) object_init_kernel_ok[OF k1] by (simp add: dev_context_def someone_ready_def)
  qed
  have l: "object_list k1 RT_Object_Class_Device = ObjDevice d # object_list k0 RT_Object_Class_Device"
    and n: "rt_strncmp (ob_name (objs k1 (ObjDevice d))) name RT_NAME_MAX = 0"
    using oi k1 strncmp_strncpy[OF assms(3,3)] by (auto simp: upd_obj_def)
  from device_find_hd[OF c1 l n] obtain k2 where k2: "rt_device_find name k1 = Some (Some d, k2)" by blast
  have "rt_device_register (Some d) name flags devs k =
      Some (RT_EOK, devs(d := (devs d)\<lparr>dev_flag := flags, dev_ref_count := 0, dev_open_flag := 0\<rparr>), k1)"
    using f k1 by (simp add: rt_device_register_def)
  moreover have "rt_device_register (Some e) name flags2 devs1 k1 = Some (RT_ERROR, devs1, k2)" for devs1
    using k2 by (simp add: rt_device_register_def)
  ultimately show ?thesis using k2 by (simp add: dev_opened_def)
qed

theorem device_register_find_witness:
  "\<exists>devs1 k1 k2. rt_device_register (Some 3) [0x75, 0x61, 0x72, 0x74] 0x103 (\<lambda>_. ex_device) ex_kernel = Some (RT_EOK, devs1, k1) \<and>
     rt_device_find [0x75, 0x61, 0x72, 0x74] k1 = Some (Some 3, k2)"
proof -
  have c: "dev_context ex_kernel"
    using ex_kernel_ok ready_listed(2)[OF ex_sched_ok ex_sel(6)] by (simp add: dev_context_def)
  have l: "object_list ex_kernel RT_Object_Class_Device = []" by (simp add: ex_kernel_def)
  show ?thesis
    using device_register_find[OF c, of 3 "[0x75, 0x61, 0x72, 0x74]"] by (simp add: l) blast
qed

end
