(* ===== verification/Kmemory.thy ===== *)
theory Kmemory
  imports Kservice
begin

text \<open>
  The memory functions of rt-thread/src/kservice.c on a byte memory with 32-bit addresses. The
  loops that move sixteen, four and one byte at a time are written as the source has them, with
  the address and the count they leave behind. \<open>mem_fill\<close> and \<open>mem_copy\<close> are the references:
  they say for every address which byte it holds afterwards.
\<close>

section \<open>Operations\<close>

type_synonym memory = "u32 \<Rightarrow> u8"

text \<open>Words are stored with the least significant byte first.\<close>

definition load_word :: "u32 \<Rightarrow> memory \<Rightarrow> u32" where
  "load_word a m = ucast (m a) OR push_bit 8 (ucast (m (a + 1))) OR push_bit 16 (ucast (m (a + 2))) OR push_bit 24 (ucast (m (a + 3)))"

definition store_word :: "u32 \<Rightarrow> u32 \<Rightarrow> memory \<Rightarrow> memory" where
  "store_word a w m = m(a := ucast w, a + 1 := ucast (drop_bit 8 w), a + 2 := ucast (drop_bit 16 w), a + 3 := ucast (drop_bit 24 w))"

definition unaligned :: "u32 \<Rightarrow> bool" where
  "unaligned x \<longleftrightarrow> x AND 3 \<noteq> 0"

function memset_quads :: "u32 \<Rightarrow> u32 \<Rightarrow> u32 \<Rightarrow> memory \<Rightarrow> u32 \<times> u32 \<times> memory" where
  "memset_quads buffer p count m =
     (if count \<ge> 16
      then memset_quads buffer (p + 16) (count - 16)
             (store_word (p + 12) buffer (store_word (p + 8) buffer (store_word (p + 4) buffer (store_word p buffer m))))
      else (p, count, m))"
  by pat_completeness auto

function memset_words :: "u32 \<Rightarrow> u32 \<Rightarrow> u32 \<Rightarrow> memory \<Rightarrow> u32 \<times> u32 \<times> memory" where
  "memset_words buffer p count m =
     (if count \<ge> 4 then memset_words buffer (p + 4) (count - 4) (store_word p buffer m) else (p, count, m))"
  by pat_completeness auto

function memset_bytes :: "u8 \<Rightarrow> u32 \<Rightarrow> u32 \<Rightarrow> memory \<Rightarrow> memory" where
  "memset_bytes d p count m = (if count = 0 then m else memset_bytes d (p + 1) (count - 1) (m(p := d)))"
  by pat_completeness auto

text \<open>The loops count down.\<close>

lemma count_down:
  fixes c n :: u32
  shows "n \<le> c \<Longrightarrow> unat (c - n) = unat c - unat n" "n \<le> c \<Longrightarrow> n \<noteq> 0 \<Longrightarrow> unat (c - n) < unat c"
proof -
  assume "n \<le> c"
  then show e: "unat (c - n) = unat c - unat n" by (rule unat_sub)
  assume "n \<noteq> 0"
  then have "0 < unat n" "unat n \<le> unat c" using \<open>n \<le> c\<close> by (simp_all add: word_le_nat_alt unat_gt_0)
  then show "unat (c - n) < unat c" unfolding e by linarith
qed

termination memset_quads
  by (relation "measure (\<lambda>(_, _, c, _). unat c)") (simp_all add: count_down(2))

termination memset_words
  by (relation "measure (\<lambda>(_, _, c, _). unat c)") (simp_all add: count_down(2))

lemma pos_count: "c \<noteq> 0 \<Longrightarrow> unat (c - 1) < unat (c :: u32)" "c \<noteq> 0 \<Longrightarrow> 1 \<le> (c :: u32)"
  using count_down(2)[of 1 c] by (simp_all add: word_less_nat_alt word_le_nat_alt unat_gt_0 Suc_le_eq)

termination memset_bytes
  by (relation "measure (\<lambda>(_, _, c, _). unat c)") (simp_all add: pos_count)

declare memset_quads.simps [simp del] memset_words.simps [simp del] memset_bytes.simps [simp del]

definition rt_memset :: "u32 \<Rightarrow> u32 \<Rightarrow> u32 \<Rightarrow> memory \<Rightarrow> memory" where
  "rt_memset s c count m =
     (let d = c AND 0xff
      in if \<not> count < 4 \<and> \<not> unaligned s
         then let buffer = push_bit 8 d OR d;
                  buffer = buffer OR push_bit 16 buffer;
                  (p, count, m) = memset_quads buffer s count m;
                  (p, count, m) = memset_words buffer p count m
              in memset_bytes (ucast d) p count m
         else memset_bytes (ucast d) s count m)"

function memcpy_quads :: "u32 \<Rightarrow> u32 \<Rightarrow> u32 \<Rightarrow> memory \<Rightarrow> u32 \<times> u32 \<times> u32 \<times> memory" where
  "memcpy_quads d s len m =
     (if len \<ge> 16
      then let m = store_word d (load_word s m) m;
               m = store_word (d + 4) (load_word (s + 4) m) m;
               m = store_word (d + 8) (load_word (s + 8) m) m;
               m = store_word (d + 12) (load_word (s + 12) m) m
           in memcpy_quads (d + 16) (s + 16) (len - 16) m
      else (d, s, len, m))"
  by pat_completeness auto

function memcpy_words :: "u32 \<Rightarrow> u32 \<Rightarrow> u32 \<Rightarrow> memory \<Rightarrow> u32 \<times> u32 \<times> u32 \<times> memory" where
  "memcpy_words d s len m =
     (if len \<ge> 4 then memcpy_words (d + 4) (s + 4) (len - 4) (store_word d (load_word s m) m) else (d, s, len, m))"
  by pat_completeness auto

function copy_bytes :: "u32 \<Rightarrow> u32 \<Rightarrow> u32 \<Rightarrow> memory \<Rightarrow> memory" where
  "copy_bytes d s n m = (if n = 0 then m else copy_bytes (d + 1) (s + 1) (n - 1) (m(d := m s)))"
  by pat_completeness auto

function copy_bytes_down :: "u32 \<Rightarrow> u32 \<Rightarrow> u32 \<Rightarrow> memory \<Rightarrow> memory" where
  "copy_bytes_down d s n m =
     (if n = 0 then m else copy_bytes_down (d - 1) (s - 1) (n - 1) (m(d - 1 := m (s - 1))))"
  by pat_completeness auto

termination memcpy_quads
  by (relation "measure (\<lambda>(_, _, c, _). unat c)") (simp_all add: count_down(2))

termination memcpy_words
  by (relation "measure (\<lambda>(_, _, c, _). unat c)") (simp_all add: count_down(2))

termination copy_bytes
  by (relation "measure (\<lambda>(_, _, c, _). unat c)") (simp_all add: pos_count)

termination copy_bytes_down
  by (relation "measure (\<lambda>(_, _, c, _). unat c)") (simp_all add: pos_count)

declare memcpy_quads.simps [simp del] memcpy_words.simps [simp del] copy_bytes.simps [simp del] copy_bytes_down.simps [simp del]

text \<open>The length is kept in an int; all comparisons of it are made with unsigned numbers.\<close>

definition rt_memcpy :: "u32 \<Rightarrow> u32 \<Rightarrow> u32 \<Rightarrow> memory \<Rightarrow> memory" where
  "rt_memcpy dst src count m =
     (if \<not> count < 16 \<and> \<not> (unaligned src \<or> unaligned dst)
      then let (d, s, len, m) = memcpy_quads dst src count m;
               (d, s, len, m) = memcpy_words d s len m
           in copy_bytes d s len m
      else copy_bytes dst src count m)"

definition rt_memmove :: "u32 \<Rightarrow> u32 \<Rightarrow> u32 \<Rightarrow> memory \<Rightarrow> memory" where
  "rt_memmove dest src n m =
     (if src < dest \<and> dest < src + n then copy_bytes_down (dest + n) (src + n) n m
      else copy_bytes dest src n m)"

function rt_memcmp :: "u32 \<Rightarrow> u32 \<Rightarrow> u32 \<Rightarrow> memory \<Rightarrow> int" where
  "rt_memcmp cs ct count m =
     (if 0 < count
      then let res = uint (m cs) - uint (m ct)
           in if res \<noteq> 0 then res else rt_memcmp (cs + 1) (ct + 1) (count - 1) m
      else 0)"
  by pat_completeness auto

termination rt_memcmp
  by (relation "measure (\<lambda>(_, _, c, _). unat c)") (simp_all add: pos_count word_gt_0)

declare rt_memcmp.simps [simp del]


section \<open>Reference\<close>

definition mem_fill :: "u32 \<Rightarrow> u8 \<Rightarrow> nat \<Rightarrow> memory \<Rightarrow> memory" where
  "mem_fill s d n m = (\<lambda>a. if unat (a - s) < n then d else m a)"

definition mem_copy :: "u32 \<Rightarrow> u32 \<Rightarrow> nat \<Rightarrow> memory \<Rightarrow> memory" where
  "mem_copy dst src n m = (\<lambda>a. if unat (a - dst) < n then m (src + (a - dst)) else m a)"

text \<open>Distances on the circle of addresses.\<close>

lemma unat_minus_shift:
  fixes x :: u32
  assumes "k < 2 ^ 32"
  shows "unat (x - of_nat k) = (if k \<le> unat x then unat x - k else unat x + 2 ^ 32 - k)"
proof -
  have k: "unat (of_nat k :: u32) = k" using assms by (simp add: unat_of_nat take_bit_nat_eq_self)
  show ?thesis
  proof (cases "k \<le> unat x")
    case True
    then have "of_nat k \<le> x" by (simp add: word_le_nat_alt k)
    then show ?thesis using True by (simp add: unat_sub k)
  next
    case False
    then have "x < of_nat k" by (simp add: word_less_nat_alt k)
    then show ?thesis using False k by (simp add: unat_sub_if_size word_size not_le)
  qed
qed

lemma mem_fill_0 [simp]: "mem_fill s d 0 m = m"
  by (simp add: mem_fill_def)

lemma mem_fill_add:
  assumes "k + n \<le> 2 ^ 32"
  shows "mem_fill (s + of_nat k) d n (mem_fill s d k m) = mem_fill s d (k + n) m"
proof
  fix a
  show "mem_fill (s + of_nat k) d n (mem_fill s d k m) a = mem_fill s d (k + n) m a"
  proof (cases "k < 2 ^ 32")
    case True
    have e: "a - (s + of_nat k) = (a - s) - of_nat k" by (rule diff_diff_add[symmetric])
    have "unat (a - (s + of_nat k)) = (if k \<le> unat (a - s) then unat (a - s) - k else unat (a - s) + 2 ^ 32 - k)"
      unfolding e by (rule unat_minus_shift[OF True])
    then show ?thesis using assms True by (auto simp: mem_fill_def split: if_splits)
  next
    case False
    then have "n = 0" using assms by simp
    then show ?thesis by (simp add: mem_fill_def)
  qed
qed

lemma unat_small_iff:
  fixes x :: u32
  shows "unat x < 1 \<longleftrightarrow> x = 0" "unat x < 4 \<longleftrightarrow> x = 0 \<or> x = 1 \<or> x = 2 \<or> x = 3"
proof -
  show "unat x < 1 \<longleftrightarrow> x = 0" by (simp add: unat_eq_zero)
  have "unat x < 4 \<longleftrightarrow> unat x = 0 \<or> unat x = 1 \<or> unat x = 2 \<or> unat x = 3" by auto
  then show "unat x < 4 \<longleftrightarrow> x = 0 \<or> x = 1 \<or> x = 2 \<or> x = 3" by (simp add: word_unat_eq_iff)
qed

lemma addr_minus: "a - s = c \<longleftrightarrow> a = s + (c :: u32)"
  by auto

lemma fill_byte: "m(p := d) = mem_fill p d 1 m"
  unfolding mem_fill_def unat_small_iff by (auto simp: fun_eq_iff)

lemma fill_word:
  assumes "w = push_bit 8 b OR b OR push_bit 16 (push_bit 8 b OR b)" and "b = ucast d"
  shows "store_word p w m = mem_fill p d 4 m"
proof -
  have big: "\<not> bit d (8 + n)" "\<not> bit d (16 + n)" "\<not> bit d (24 + n)" for n by (auto dest: bit_imp_le_length)
  have "ucast (drop_bit j w) = d" if "j \<in> {0, 8, 16, 24}" for j
    using that unfolding assms by (auto intro!: bit_word_eqI simp: bit_simps big)
  then have "ucast w = d" "ucast (drop_bit 8 w) = d" "ucast (drop_bit 16 w) = d" "ucast (drop_bit 24 w) = d" by (metis drop_bit_0 id_apply insertI1 insertI2)+
  then show ?thesis unfolding store_word_def mem_fill_def unat_small_iff addr_minus by (auto simp: fun_eq_iff)
qed


lemma memset_bytes_fill: "memset_bytes d p count m = mem_fill p d (unat count) m"
proof (induction d p count m rule: memset_bytes.induct)
  case (1 d p count m)
  show ?case
  proof (cases "count = 0")
    case True
    then show ?thesis by (simp add: memset_bytes.simps)
  next
    case False
    have u: "unat count = 1 + unat (count - 1)" using False by (simp add: unat_minus_one unat_gt_0)
    have "1 + unat (count - 1) \<le> 2 ^ 32" using u unsigned_less[of count, where ?'a = nat] by simp
    from mem_fill_add[OF this, of p d m] show ?thesis
      using 1[OF False] False u by (subst memset_bytes.simps) (simp add: fill_byte)
  qed
qed

lemma split_count:
  fixes count n :: u32
  assumes "n \<le> count"
  shows "unat count = unat n + unat (count - n)" "unat n + unat (count - n) \<le> 2 ^ 32"
proof -
  show u: "unat count = unat n + unat (count - n)" using assms count_down(1)[OF assms] by (simp add: word_le_nat_alt)
  show "unat n + unat (count - n) \<le> 2 ^ 32" using u unsigned_less[of count, where ?'a = nat] by simp
qed

definition all_bytes :: "u8 \<Rightarrow> u32 \<Rightarrow> bool" where
  "all_bytes d w \<longleftrightarrow> (\<forall>p m. store_word p w m = mem_fill p d 4 m)"

lemma memset_words_fill:
  "memset_words w p count m = (p', count', m') \<Longrightarrow> all_bytes d w \<Longrightarrow>
    memset_bytes d p' count' m' = mem_fill p d (unat count) m"
proof (induction w p count m rule: memset_words.induct)
  case (1 w p count m)
  show ?case
  proof (cases "4 \<le> count")
    case True
    note u = split_count[OF True, simplified]
    from mem_fill_add[of 4 "unat (count - 4)" p d m] show ?thesis
      using 1 True u by (subst (asm) memset_words.simps) (simp add: all_bytes_def)
  next
    case False
    then show ?thesis using 1(2) by (subst (asm) memset_words.simps) (simp add: memset_bytes_fill)
  qed
qed

lemma memset_quads_fill:
  "memset_quads w p count m = (p', count', m') \<Longrightarrow> all_bytes d w \<Longrightarrow>
    mem_fill p' d (unat count') m' = mem_fill p d (unat count) m"
proof (induction w p count m rule: memset_quads.induct)
  case (1 w p count m)
  show ?case
  proof (cases "16 \<le> count")
    case True
    note u = split_count[OF True, simplified]
    have "mem_fill (p + 12) d 4 (mem_fill (p + 8) d 4 (mem_fill (p + 4) d 4 (mem_fill p d 4 m))) = mem_fill p d 16 m"
      using mem_fill_add[of 4 4 p d m] mem_fill_add[of 8 4 p d m] mem_fill_add[of 12 4 p d m] by simp
    with mem_fill_add[of 16 "unat (count - 16)" p d m] show ?thesis
      using 1 True u by (subst (asm) memset_quads.simps) (simp add: all_bytes_def)
  next
    case False
    then show ?thesis using 1(2) by (subst (asm) memset_quads.simps) simp
  qed
qed

lemma memset_reference: "rt_memset s c count m = mem_fill s (ucast c) (unat count) m"
proof -
  let ?d = "c AND 0xff" and ?b = "push_bit 8 (c AND 0xff) OR (c AND 0xff)"
  have d: "ucast ?d = (ucast c :: u8)" "?d = ucast (ucast c :: u8)"
  proof -
    have ff: "(0xff :: u32) = mask 8" by (simp add: mask_eq_exp_minus_1)
    show "ucast ?d = (ucast c :: u8)" "?d = ucast (ucast c :: u8)"
      unfolding ff by (auto intro!: bit_word_eqI simp: bit_simps)
  qed
  have ab: "all_bytes (ucast c) (?b OR push_bit 16 ?b)" unfolding all_bytes_def using fill_word[OF refl d(2)] by (simp add: or.assoc)
  show ?thesis
  proof (cases "\<not> count < 4 \<and> \<not> unaligned s")
    case True
    obtain p1 c1 m1 where q: "memset_quads (?b OR push_bit 16 ?b) s count m = (p1, c1, m1)" by (metis prod_cases3)
    obtain p2 c2 m2 where w: "memset_words (?b OR push_bit 16 ?b) p1 c1 m1 = (p2, c2, m2)" by (metis prod_cases3)
    have "rt_memset s c count m = memset_bytes (ucast c) p2 c2 m2"
      unfolding rt_memset_def Let_def if_P[OF True] q prod.case w d(1) ..
    then show ?thesis using memset_words_fill[OF w ab] memset_quads_fill[OF q ab] by simp
  next
    case False
    show ?thesis unfolding rt_memset_def Let_def if_not_P[OF False] d(1) memset_bytes_fill ..
  qed
qed


text \<open>Copying upwards is right when the destination does not begin inside the source.\<close>

definition copy_up_ok :: "u32 \<Rightarrow> u32 \<Rightarrow> nat \<Rightarrow> bool" where
  "copy_up_ok d s n \<longleftrightarrow> n \<le> 2 ^ 32 \<and> (d = s \<or> n \<le> unat (d - s))"

lemma mem_copy_0 [simp]: "mem_copy d s 0 m = m"
  by (simp add: mem_copy_def)

lemma mem_copy_add:
  assumes ok: "copy_up_ok d s (k + n)" and k: "k < 2 ^ 32"
  shows "mem_copy (d + of_nat k) (s + of_nat k) n (mem_copy d s k m) = mem_copy d s (k + n) m"
proof
  fix a
  let ?x = "unat (a - d)"
  have e: "a - (d + of_nat k) = (a - d) - of_nat k" "s + of_nat k + (a - (d + of_nat k)) = s + (a - d)"
    by (simp_all add: algebra_simps)
  have x: "unat (a - (d + of_nat k)) = (if k \<le> ?x then ?x - k else ?x + 2 ^ 32 - k)"
    unfolding e by (rule unat_minus_shift[OF k])
  have src: "mem_copy d s k m (s + (a - d)) = m (s + (a - d))" if "k \<le> ?x" "?x < k + n"
  proof (cases "d = s")
    case True
    then show ?thesis using that by (simp add: mem_copy_def)
  next
    case False
    then have D: "?x < unat (d - s)" using ok that(2) by (simp add: copy_up_ok_def)
    have dl: "unat (d - s) < 2 ^ 32" using unsigned_less[of "d - s", where ?'a = nat] by simp
    have e: "s + (a - d) - d = (a - d) - of_nat (unat (d - s))" by (simp add: algebra_simps)
    have "unat (s + (a - d) - d) = ?x + 2 ^ 32 - unat (d - s)"
      unfolding e unat_minus_shift[OF dl] using D by simp
    then have "k \<le> unat (s + (a - d) - d)" using that(1) unsigned_less[of "d - s", where ?'a = nat] by simp
    then show ?thesis by (simp add: mem_copy_def)
  qed
  have "k + n \<le> 2 ^ 32" using ok by (simp add: copy_up_ok_def)
  then have kn: "\<not> ?x + 2 ^ 32 - k < n" if "\<not> k \<le> ?x" using that by arith
  show "mem_copy (d + of_nat k) (s + of_nat k) n (mem_copy d s k m) a = mem_copy d s (k + n) m a"
    using src kn x unfolding mem_copy_def[of "d + of_nat k"] e(2) by (auto simp: mem_copy_def)
qed


lemma copy_byte: "m(d := m s) = mem_copy d s 1 m"
  unfolding mem_copy_def unat_small_iff by (auto simp: fun_eq_iff)

lemma byte_of_word:
  fixes b :: "nat \<Rightarrow> u8"
  assumes "w = ucast (b 0) OR push_bit 8 (ucast (b 1)) OR push_bit 16 (ucast (b 2)) OR push_bit 24 (ucast (b 3) :: u32)"
  shows "ucast w = b 0" "ucast (drop_bit 8 w) = b 1" "ucast (drop_bit 16 w) = b 2" "ucast (drop_bit 24 w) = b 3"
proof -
  have big: "\<not> bit (b i) (8 + n)" "\<not> bit (b i) (16 + n)" "\<not> bit (b i) (24 + n)" for i n by (auto dest: bit_imp_le_length)
  show "ucast w = b 0" "ucast (drop_bit 8 w) = b 1" "ucast (drop_bit 16 w) = b 2" "ucast (drop_bit 24 w) = b 3"
    unfolding assms by (auto intro!: bit_word_eqI simp: bit_simps big)
qed

lemma copy_word: "store_word d (load_word s m) m = mem_copy d s 4 m"
proof -
  note b = byte_of_word[of "load_word s m" "\<lambda>i. m (s + of_nat i)", simplified load_word_def[symmetric], simplified]
  show ?thesis unfolding store_word_def mem_copy_def unat_small_iff addr_minus
    by (auto simp: fun_eq_iff b load_word_def)
qed


lemma copy_up_ok_step: "copy_up_ok d s (k + n) \<Longrightarrow> copy_up_ok (d + of_nat k) (s + of_nat k) n"
  by (auto simp: copy_up_ok_def)

lemma copy_bytes_up: "copy_up_ok d s (unat n) \<Longrightarrow> copy_bytes d s n m = mem_copy d s (unat n) m"
proof (induction d s n m rule: copy_bytes.induct)
  case (1 d s n m)
  show ?case
  proof (cases "n = 0")
    case True
    then show ?thesis by (simp add: copy_bytes.simps)
  next
    case False
    note u = split_count(1)[OF pos_count(2)[OF False], simplified]
    have ok: "copy_up_ok d s (1 + unat (n - 1))" using "1.prems" u by simp
    from mem_copy_add[OF ok] copy_up_ok_step[OF ok] "1.IH"[OF False] False u
    show ?thesis by (subst copy_bytes.simps) (simp add: copy_byte)
  qed
qed


lemma memcpy_words_copy:
  "memcpy_words d s n m = (d', s', n', m') \<Longrightarrow> copy_up_ok d s (unat n) \<Longrightarrow>
     copy_bytes d' s' n' m' = mem_copy d s (unat n) m"
proof (induction d s n m rule: memcpy_words.induct)
  case (1 d s n m)
  show ?case
  proof (cases "4 \<le> n")
    case True
    note u = split_count(1)[OF True, simplified]
    have ok: "copy_up_ok d s (4 + unat (n - 4))" using "1.prems" u by simp
    have q: "memcpy_words d s n m = memcpy_words (d + 4) (s + 4) (n - 4) (mem_copy d s 4 m)"
      using True by (subst memcpy_words.simps) (simp add: copy_word)
    from mem_copy_add[OF ok] copy_up_ok_step[OF ok] "1.IH"[OF True] "1.prems"(1) u
    show ?thesis unfolding q by (simp add: copy_word)
  next
    case False
    then show ?thesis using "1.prems" by (subst (asm) memcpy_words.simps) (auto simp: copy_bytes_up)
  qed
qed

lemma memcpy_quads_copy:
  "memcpy_quads d s n m = (d', s', n', m') \<Longrightarrow> copy_up_ok d s (unat n) \<Longrightarrow>
     copy_up_ok d' s' (unat n') \<and> mem_copy d' s' (unat n') m' = mem_copy d s (unat n) m"
proof (induction d s n m rule: memcpy_quads.induct)
  case (1 d s n m)
  show ?case
  proof (cases "16 \<le> n")
    case True
    note u = split_count(1)[OF True, simplified]
    have ok: "copy_up_ok d s (16 + unat (n - 16))" using "1.prems" u by simp
    have sub: "copy_up_ok d s k" if "k \<le> 16" for k using ok that by (auto simp: copy_up_ok_def)
    let ?m1 = "mem_copy d s 4 m"
    let ?m2 = "mem_copy (d + 4) (s + 4) 4 ?m1"
    let ?m3 = "mem_copy (d + 8) (s + 8) 4 ?m2"
    let ?m4 = "mem_copy (d + 12) (s + 12) 4 ?m3"
    have c: "?m4 = mem_copy d s 16 m"
      using mem_copy_add[OF sub, of 4 4 m] mem_copy_add[OF sub, of 8 4 m] mem_copy_add[OF sub, of 12 4 m] by simp
    have q: "memcpy_quads d s n m = memcpy_quads (d + 16) (s + 16) (n - 16) (mem_copy d s 16 m)"
      using True by (subst memcpy_quads.simps) (simp add: copy_word Let_def c)
    from mem_copy_add[OF ok] copy_up_ok_step[OF ok] "1.IH"[OF True refl refl refl refl] "1.prems"(1) u
    show ?thesis unfolding q by (simp add: copy_word c)
  next
    case False
    then show ?thesis using "1.prems" by (subst (asm) memcpy_quads.simps) auto
  qed
qed

lemma memcpy_reference:
  assumes "copy_up_ok dst src (unat count)"
  shows "rt_memcpy dst src count m = mem_copy dst src (unat count) m"
proof (cases "\<not> count < 16 \<and> \<not> (unaligned src \<or> unaligned dst)")
  case True
  obtain d1 s1 n1 m1 where q: "memcpy_quads dst src count m = (d1, s1, n1, m1)" by (metis prod_cases4)
  obtain d2 s2 n2 m2 where w: "memcpy_words d1 s1 n1 m1 = (d2, s2, n2, m2)" by (metis prod_cases4)
  have "rt_memcpy dst src count m = copy_bytes d2 s2 n2 m2"
    unfolding rt_memcpy_def Let_def if_P[OF True] q prod.case w ..
  then show ?thesis using memcpy_quads_copy[OF q assms] memcpy_words_copy[OF w] by simp
next
  case False
  show ?thesis unfolding rt_memcpy_def if_not_P[OF False] by (rule copy_bytes_up[OF assms])
qed

text \<open>Copying downwards is right when the source does not begin inside the destination.\<close>

lemma copy_bytes_down_copy:
  "unat (d - s) + unat n \<le> 2 ^ 32 \<Longrightarrow> copy_bytes_down (d + n) (s + n) n m = mem_copy d s (unat n) m"
proof (induction "unat n" arbitrary: n m)
  case 0
  then have "n = 0" by (simp add: unat_eq_zero)
  then show ?case by (simp add: copy_bytes_down.simps)
next
  case (Suc l)
  have nz: "n \<noteq> 0" using Suc.hyps(2) by auto
  have l: "unat (n - 1) = l" using split_count(1)[OF pos_count(2)[OF nz]] Suc.hyps(2) by simp
  let ?m = "m(d + n - 1 := m (s + n - 1))"
  have "copy_bytes_down (d + n) (s + n) n m = copy_bytes_down (d + (n - 1)) (s + (n - 1)) (n - 1) ?m"
    using nz by (subst copy_bytes_down.simps) (simp add: algebra_simps)
  also have "\<dots> = mem_copy d s l ?m" using Suc.hyps(1)[of "n - 1" ?m] l Suc.prems Suc.hyps(2) by simp
  also have "\<dots> = mem_copy d s (Suc l) m"
  proof
    fix a
    let ?x = "unat (a - d)"
    have lt: "l < 2 ^ 32" using l unsigned_less[of "n - 1", where ?'a = nat] by simp
    have last: "a = d + n - 1 \<longleftrightarrow> ?x = l"
    proof -
      have "?x = l \<longleftrightarrow> a - d = n - 1" using l by (auto simp: word_unat_eq_iff)
      then show ?thesis by (auto simp: algebra_simps)
    qed
    have "s + (a - d) \<noteq> d + n - 1" if "?x < l"
    proof
      assume "s + (a - d) = d + n - 1"
      then have "a - d = (n - 1) + (d - s)" by (simp add: algebra_simps)
      moreover have "unat (n - 1) + unat (d - s) < 2 ^ LENGTH(32)" using Suc.prems Suc.hyps(2) l by simp
      ultimately have "?x = unat (n - 1) + unat (d - s)" by (simp only: unat_add_lem)
      then show False using that l by simp
    qed
    moreover have "s + (a - d) = s + n - 1" if "?x = l"
    proof -
      have "a - d = n - 1" using that l by (simp add: word_unat_eq_iff)
      then show ?thesis by (simp add: algebra_simps)
    qed
    ultimately have s: "?x < l \<Longrightarrow> ?m (s + (a - d)) = m (s + (a - d))" "?x = l \<Longrightarrow> ?m a = m (s + (a - d))"
        "\<not> ?x < Suc l \<Longrightarrow> ?m a = m a"
      using last by (simp_all add: add_diff_eq)
    show "mem_copy d s l ?m a = mem_copy d s (Suc l) m a"
    proof (cases "?x < l")
      case True
      then show ?thesis using s(1) by (simp only: mem_copy_def less_Suc_eq if_True simp_thms)
    next
      case False
      then show ?thesis using s(2,3) by (cases "?x = l") (simp_all only: mem_copy_def less_Suc_eq if_True if_False simp_thms)
    qed
  qed
  finally show ?case using Suc.hyps(2) by simp
qed

lemma memmove_reference:
  assumes "unat src + unat n < 2 ^ 32" and "unat dest + unat n < 2 ^ 32"
  shows "rt_memmove dest src n m = mem_copy dest src (unat n) m"
proof -
  have sn: "unat (src + n) = unat src + unat n" using assms(1) by (subst unat_add_lem[THEN iffD1]) simp_all
  show ?thesis
  proof (cases "src < dest \<and> dest < src + n")
    case True
    then have "unat (dest - src) = unat dest - unat src" using count_down(1)[of src dest] by (simp add: order_less_imp_le)
    then have "unat (dest - src) + unat n \<le> 2 ^ 32" using assms(2) by simp
    then show ?thesis using True by (simp add: rt_memmove_def copy_bytes_down_copy)
  next
    case False
    have "copy_up_ok dest src (unat n)"
    proof (cases "unat src \<le> unat dest")
      case True
      then have "unat (dest - src) = unat dest - unat src" using count_down(1)[of src dest] by (simp add: word_le_nat_alt)
      then show ?thesis using False True sn assms(1) by (auto simp: copy_up_ok_def word_less_nat_alt word_unat_eq_iff)
    next
      case lt: False
      have "unat (dest - src) = unat dest + 2 ^ 32 - unat src"
        using lt by (simp add: unat_sub_if_size word_size word_le_nat_alt)
      moreover have "unat n \<le> unat dest + 2 ^ 32 - unat src" using assms(1) by arith
      ultimately show ?thesis using assms(1) by (simp add: copy_up_ok_def)
    qed
    then show ?thesis unfolding rt_memmove_def if_not_P[OF False] by (rule copy_bytes_up)
  qed
qed

lemma memcmp_reference:
  "rt_memcmp cs ct count m = 0 \<longleftrightarrow> (\<forall>i < unat count. m (cs + of_nat i) = m (ct + of_nat i))"
proof (induction cs ct count m rule: rt_memcmp.induct)
  case (1 cs ct count m)
  show ?case
  proof (cases "count = 0")
    case True
    then show ?thesis by (simp add: rt_memcmp.simps)
  next
    case False
    note u = split_count(1)[OF pos_count(2)[OF False], simplified]
    have q: "rt_memcmp cs ct count m = 0 \<longleftrightarrow> m cs = m ct \<and> rt_memcmp (cs + 1) (ct + 1) (count - 1) m = 0"
      using False by (subst rt_memcmp.simps) (auto simp: Let_def word_gt_0 word_uint_eq_iff)
    have a: "(\<forall>i < Suc k. P i) \<longleftrightarrow> P 0 \<and> (\<forall>i < k. P (Suc i))" for k and P :: "nat \<Rightarrow> bool"
      by (auto simp: less_Suc_eq_0_disj)
    have ih: "m cs = m ct \<Longrightarrow> rt_memcmp (cs + 1) (ct + 1) (count - 1) m = 0 \<longleftrightarrow>
        (\<forall>i < unat (count - 1). m (cs + 1 + of_nat i) = m (ct + 1 + of_nat i))"
      using "1.IH"[OF _ refl] False by (simp add: word_gt_0)
    show ?thesis unfolding q u plus_1_eq_Suc a using ih by (auto simp: add.assoc)
  qed
qed

text \<open>C19: the memory functions do what their byte-by-byte references do. rt_memset, which stores
  words in steps of sixteen and four bytes when the address is aligned, writes the low byte of
  the value at exactly the given addresses. rt_memcpy, with the same word steps, copies the
  original bytes whenever the destination does not begin inside the source. rt_memmove copies
  the original bytes for every overlap of two areas that do not reach past the end of the
  address space. rt_memcmp returns zero exactly for equal areas.
\<close>

theorem memory_functions_reference:
  "rt_memset dst c count m = (\<lambda>a. if unat (a - dst) < unat count then ucast c else m a) \<and>
   (dst = src \<or> unat count \<le> unat (dst - src) \<longrightarrow>
     rt_memcpy dst src count m = (\<lambda>a. if unat (a - dst) < unat count then m (src + (a - dst)) else m a)) \<and>
   (unat src + unat count < 2 ^ 32 \<and> unat dst + unat count < 2 ^ 32 \<longrightarrow>
     rt_memmove dst src count m = (\<lambda>a. if unat (a - dst) < unat count then m (src + (a - dst)) else m a)) \<and>
   (rt_memcmp dst src count m = 0 \<longleftrightarrow> (\<forall>i < unat count. m (dst + of_nat i) = m (src + of_nat i)))"
proof (intro conjI impI)
  show "rt_memset dst c count m = (\<lambda>a. if unat (a - dst) < unat count then ucast c else m a)"
    unfolding memset_reference mem_fill_def ..
  have lt: "unat count < 2 ^ 32" using unsigned_less[of count, where ?'a = nat] by simp
  show "rt_memcpy dst src count m = (\<lambda>a. if unat (a - dst) < unat count then m (src + (a - dst)) else m a)"
    if "dst = src \<or> unat count \<le> unat (dst - src)"
    using memcpy_reference[of dst src count m] that lt by (simp add: copy_up_ok_def mem_copy_def)
  show "rt_memmove dst src count m = (\<lambda>a. if unat (a - dst) < unat count then m (src + (a - dst)) else m a)"
    if "unat src + unat count < 2 ^ 32 \<and> unat dst + unat count < 2 ^ 32"
    using memmove_reference[of src count dst m] that by (simp add: mem_copy_def)
qed (rule memcmp_reference)

theorem memory_functions_reference_witness:
  "rt_memcpy 0x1000 0x2000 18 (\<lambda>a. ucast a) 0x1011 = 0x11 \<and>
   rt_memmove 0x1002 0x1000 5 (\<lambda>a. ucast a) 0x1006 = 4"
  using memory_functions_reference[of "0x1000" _ 18 "\<lambda>a. ucast a" "0x2000"]
    memory_functions_reference[of "0x1002" _ 5 "\<lambda>a. ucast a" "0x1000"]
  by simp

end
