(* ===== verification/Kstring.thy ===== *)
theory Kstring
  imports Kmemory "HOL-Library.List_Lexorder"
begin

text \<open>
  The string functions of rt-thread/src/kservice.c on the byte memory: length, comparison, search
  and copy of null-terminated strings.  A loop that only a null byte ends is a partial function:
  None is a loop that never ends.
\<close>

section \<open>Operations\<close>

partial_function (option) strlen_loop :: "u32 \<Rightarrow> memory \<Rightarrow> u32 option" where
  "strlen_loop sc m = (if m sc \<noteq> 0 then strlen_loop (sc + 1) m else Some sc)"

definition rt_strlen :: "u32 \<Rightarrow> memory \<Rightarrow> u32 option" where
  "rt_strlen s m = do { sc \<leftarrow> strlen_loop s m; Some (sc - s) }"

function strnlen_loop :: "u32 \<Rightarrow> u32 \<Rightarrow> u32 \<Rightarrow> memory \<Rightarrow> u32" where
  "strnlen_loop s sc maxlen m =
     (if m sc \<noteq> 0 \<and> sc - s < maxlen then strnlen_loop s (sc + 1) maxlen m else sc)"
  by pat_completeness auto

lemma suc_no_wrap: "x < n \<Longrightarrow> unat (x + 1) = unat x + 1" for x n :: u32
proof -
  assume "x < n"
  then have "unat x < unat n" by (simp add: word_less_nat_alt)
  then have "unat x + unat (1 :: u32) < 2 ^ LENGTH(32)" using unsigned_less[of n, where ?'a = nat] by simp
  then have "unat (x + 1) = unat x + unat (1 :: u32)" by (simp only: unat_add_lem)
  then show ?thesis by simp
qed

termination strnlen_loop
proof (relation "measure (\<lambda>(s, sc, n, _). unat n - unat (sc - s))")
  fix s sc n m
  assume "(m :: memory) sc \<noteq> 0 \<and> sc - s < n"
  then have "sc - s < n" by simp
  then have "unat (sc - s) < unat n" "unat (sc + 1 - s) = unat (sc - s) + 1"
    using suc_no_wrap[of "sc - s" n] by (simp_all add: word_less_nat_alt add_diff_eq add.commute diff_add_eq)
  then show "((s, sc + 1, n, m), s, sc, n, m) \<in> measure (\<lambda>(s, sc, n, _). unat n - unat (sc - s))"
    by simp
qed simp

declare strnlen_loop.simps [simp del]

definition rt_strnlen :: "u32 \<Rightarrow> u32 \<Rightarrow> memory \<Rightarrow> u32" where
  "rt_strnlen s maxlen m = strnlen_loop s s maxlen m - s"

text \<open>A char is unsigned on this processor.\<close>

partial_function (option) rt_strcmp :: "u32 \<Rightarrow> u32 \<Rightarrow> memory \<Rightarrow> int option" where
  "rt_strcmp cs ct m =
     (if m cs \<noteq> 0 \<and> m cs = m ct then rt_strcmp (cs + 1) (ct + 1) m else Some (uint (m cs) - uint (m ct)))"

definition lower_case :: "u8 \<Rightarrow> int" where
  "lower_case b = (let c = uint b in if c \<ge> 65 \<and> c \<le> 90 then c + (97 - 65) else c)"

partial_function (option) strcasecmp_loop :: "u32 \<Rightarrow> u32 \<Rightarrow> memory \<Rightarrow> int option" where
  "strcasecmp_loop a b m =
     (let ca = lower_case (m a); cb = lower_case (m b)
      in if ca = cb \<and> ca \<noteq> 0 then strcasecmp_loop (a + 1) (b + 1) m else Some (ca - cb))"

definition rt_strcasecmp :: "u32 \<Rightarrow> u32 \<Rightarrow> memory \<Rightarrow> u32 option" where
  "rt_strcasecmp a b m = do { r \<leftarrow> strcasecmp_loop a b m; Some (of_int r) }"

function strstr_loop :: "u32 \<Rightarrow> u32 \<Rightarrow> int \<Rightarrow> int \<Rightarrow> memory \<Rightarrow> u32 option" where
  "strstr_loop s1 s2 l1 l2 m =
     (if l1 \<ge> l2
      then if rt_memcmp s1 s2 (of_int l2) m = 0 then Some s1 else strstr_loop (s1 + 1) s2 (l1 - 1) l2 m
      else None)"
  by pat_completeness auto

termination strstr_loop
  by (relation "measure (\<lambda>(_, _, l1, l2, _). nat (l1 - l2 + 1))") auto

declare strstr_loop.simps [simp del]

text \<open>The outer option is a loop that does not end, the inner one the null pointer.\<close>

definition rt_strstr :: "u32 \<Rightarrow> u32 \<Rightarrow> memory \<Rightarrow> u32 option option" where
  "rt_strstr s1 s2 m =
     do { l2 \<leftarrow> rt_strlen s2 m;
          if l2 = 0 then Some (Some s1)
          else do { l1 \<leftarrow> rt_strlen s1 m;
                    Some (strstr_loop s1 s2 (sint l1) (sint l2) m) } }"

text \<open>The allocator is a parameter: it answers a size with an address or the null pointer.\<close>

definition rt_strdup :: "(u32 \<Rightarrow> u32 option) \<Rightarrow> u32 \<Rightarrow> memory \<Rightarrow> (u32 option \<times> memory) option" where
  "rt_strdup malloc s m =
     do { n \<leftarrow> rt_strlen s m;
          let len = n + 1;
          Some (case malloc len of None \<Rightarrow> (None, m) | Some tmp \<Rightarrow> (Some tmp, rt_memcpy tmp s len m)) }"

section \<open>Strings in memory\<close>

definition cstring :: "u32 \<Rightarrow> u8 list \<Rightarrow> memory \<Rightarrow> bool" where
  "cstring a xs m \<longleftrightarrow> (\<forall>i < length xs. m (a + of_nat i) = xs ! i) \<and> m (a + of_nat (length xs)) = 0 \<and> 0 \<notin> set xs"

lemma cstring_Nil: "cstring a [] m \<longleftrightarrow> m a = 0"
  by (simp add: cstring_def)

lemma cstring_Cons: "cstring a (x # xs) m \<longleftrightarrow> m a = x \<and> x \<noteq> 0 \<and> cstring (a + 1) xs m"
proof -
  have "(\<forall>i < Suc k. P i) \<longleftrightarrow> P 0 \<and> (\<forall>i < k. P (Suc i))" for k and P :: "nat \<Rightarrow> bool" by (auto simp: less_Suc_eq_0_disj)
  from this[of "length xs" "\<lambda>i. m (a + of_nat i) = (x # xs) ! i"] show ?thesis
    by (auto simp: cstring_def add.assoc)
qed

lemma cstring_head: "cstring a xs m \<Longrightarrow> m a = (case xs of [] \<Rightarrow> 0 | x # _ \<Rightarrow> x)"
  by (cases xs) (simp_all add: cstring_Nil cstring_Cons)

lemma strlen_loop_ends: "cstring a xs m \<Longrightarrow> strlen_loop a m = Some (a + of_nat (length xs))"
  by (induction xs arbitrary: a) (simp_all add: strlen_loop.simps[of a for a] cstring_Nil cstring_Cons add.assoc)

lemma strlen_length: "cstring a xs m \<Longrightarrow> rt_strlen a m = Some (of_nat (length xs))"
  by (simp add: rt_strlen_def strlen_loop_ends)

lemma strcmp_order:
  "cstring a xs m \<Longrightarrow> cstring b ys m \<Longrightarrow> \<exists>r. rt_strcmp a b m = Some r \<and> (r = 0 \<longleftrightarrow> xs = ys) \<and> (r < 0 \<longleftrightarrow> xs < ys)"
proof (induction xs arbitrary: a b ys)
  case Nil
  then show ?case
    by (cases ys) (auto simp: rt_strcmp.simps[of a b m] cstring_Nil cstring_Cons word_less_def word_uint_eq_iff order_less_le)
next
  case (Cons x xs)
  show ?case
  proof (cases ys)
    case Nil
    then show ?thesis using Cons.prems by (auto simp: rt_strcmp.simps[of a b m] cstring_Nil cstring_Cons word_uint_eq_iff)
  next
    case ys: (Cons y zs)
    show ?thesis
    proof (cases "x = y")
      case True
      then show ?thesis using Cons.prems ys Cons.IH[of "a + 1" "b + 1" zs]
        by (auto simp: rt_strcmp.simps[of a b m] cstring_Cons)
    next
      case False
      then show ?thesis using Cons.prems ys
        by (auto simp: rt_strcmp.simps[of a b m] cstring_Cons word_less_def word_uint_eq_iff)
    qed
  qed
qed

lemma lower_case_zero: "lower_case x = 0 \<longleftrightarrow> x = 0" "0 \<le> lower_case x" "lower_case x < 256"
  using unsigned_less[of x, where ?'a = int] by (auto simp: lower_case_def Let_def word_uint_eq_iff)

lemma strcasecmp_equal:
  "cstring a xs m \<Longrightarrow> cstring b ys m \<Longrightarrow> \<exists>r. strcasecmp_loop a b m = Some r \<and> - 256 < r \<and> r < 256 \<and>
      (r = 0 \<longleftrightarrow> map lower_case xs = map lower_case ys)"
proof (induction xs arbitrary: a b ys)
  case Nil
  then show ?case using lower_case_zero[of "m b"] lower_case_zero(1)[of 0]
    by (cases ys) (auto simp: strcasecmp_loop.simps[of a b m] cstring_Nil cstring_Cons Let_def)
next
  case (Cons x xs)
  show ?case
  proof (cases "\<exists>y zs. ys = y # zs \<and> lower_case x = lower_case y")
    case True
    then obtain y zs where y: "ys = y # zs" "lower_case x = lower_case y" by blast
    then show ?thesis using Cons.prems Cons.IH[of "a + 1" "b + 1" zs]
      by (auto simp: strcasecmp_loop.simps[of a b m] cstring_Cons lower_case_zero)
  next
    case False
    have "m a = x" "m b = (case ys of [] \<Rightarrow> 0 | y # _ \<Rightarrow> y)" "x \<noteq> 0"
      using cstring_head Cons.prems by (fastforce simp: cstring_Cons)+
    then have "lower_case (m a) \<noteq> lower_case (m b)" using False lower_case_zero(1)[of x] lower_case_zero(1)[of 0]
      by (cases ys) auto
    moreover have "map lower_case (x # xs) \<noteq> map lower_case ys" using False by (cases ys) auto
    ultimately show ?thesis using lower_case_zero(2,3)[of "m a"] lower_case_zero(2,3)[of "m b"]
      by (subst strcasecmp_loop.simps) (simp add: Let_def)
  qed
qed


lemma cstring_bytes: "cstring a xs m \<Longrightarrow> i < length xs \<Longrightarrow> m (a + of_nat i) = xs ! i"
  by (simp add: cstring_def)

lemma memcmp_prefix:
  assumes "cstring a xs m" and "cstring b ys m" and "length ys \<le> length xs" and "length ys < 2 ^ 32"
  shows "rt_memcmp a b (of_nat (length ys)) m = 0 \<longleftrightarrow> (\<exists>v. xs = ys @ v)"
proof -
  have u: "unat (of_nat (length ys) :: u32) = length ys" using assms(4) by (simp add: unat_of_nat take_bit_nat_eq_self)
  have "rt_memcmp a b (of_nat (length ys)) m = 0 \<longleftrightarrow> (\<forall>i < length ys. xs ! i = ys ! i)"
    unfolding memcmp_reference u using cstring_bytes[OF assms(1)] cstring_bytes[OF assms(2)] assms(3) by simp
  also have "\<dots> \<longleftrightarrow> take (length ys) xs = ys" using assms(3) by (auto simp: list_eq_iff_nth_eq)
  also have "\<dots> \<longleftrightarrow> (\<exists>v. xs = ys @ v)" by (metis append_eq_conv_conj append_take_drop_id)
  finally show ?thesis .
qed

text \<open>Where the string ys begins in xs for the first time.\<close>

definition first_at :: "'a list \<Rightarrow> 'a list \<Rightarrow> nat \<Rightarrow> bool" where
  "first_at ys xs n \<longleftrightarrow> (\<exists>u v. xs = u @ ys @ v \<and> length u = n) \<and> (\<forall>u v. xs = u @ ys @ v \<longrightarrow> n \<le> length u)"

lemma occurs_Cons: "\<not> (\<exists>v. x # xs = ys @ v) \<Longrightarrow> (x # xs = u @ ys @ v) \<longleftrightarrow> (\<exists>u'. u = x # u' \<and> xs = u' @ ys @ v)"
  by (cases u) auto

lemma first_at_Cons: "\<not> (\<exists>v. x # xs = ys @ v) \<Longrightarrow> first_at ys xs n \<Longrightarrow> first_at ys (x # xs) (Suc n)"
proof -
  assume n: "\<not> (\<exists>v. x # xs = ys @ v)" and "first_at ys xs n"
  then obtain u v where u: "xs = u @ ys @ v" "length u = n" and l: "\<And>u v. xs = u @ ys @ v \<Longrightarrow> n \<le> length u"
    unfolding first_at_def by blast
  have "x # xs = (x # u) @ ys @ v" "length (x # u) = Suc n" using u by simp_all
  then show ?thesis unfolding first_at_def using l occurs_Cons[OF n] by (metis Suc_le_mono length_Cons)
qed

lemma strstr_loop_first:
  "cstring a xs m \<Longrightarrow> cstring b ys m \<Longrightarrow> ys \<noteq> [] \<Longrightarrow> length ys < 2 ^ 31 \<Longrightarrow>
    case strstr_loop a b (int (length xs)) (int (length ys)) m of
      None \<Rightarrow> (\<forall>u v. xs \<noteq> u @ ys @ v)
    | Some p \<Rightarrow> (\<exists>n. p = a + of_nat n \<and> first_at ys xs n)"
proof (induction xs arbitrary: a)
  case Nil
  then show ?case by (simp add: strstr_loop.simps)
next
  case (Cons x xs)
  show ?case
  proof (cases "length ys \<le> length (x # xs)")
    case False
    then have "x # xs \<noteq> u @ ys @ v" for u v by (metis le_add1 le_add2 length_append order_trans)
    then show ?thesis using False by (subst strstr_loop.simps) simp
  next
    case le: True
    show ?thesis
    proof (cases "\<exists>v. x # xs = ys @ v")
      case True
      then have "first_at ys (x # xs) 0" unfolding first_at_def by (metis append_Nil le0 list.size(3))
      moreover have "strstr_loop a b (int (length (x # xs))) (int (length ys)) m = Some a"
        using memcmp_prefix[OF Cons.prems(1,2) le] True Cons.prems(4) le by (subst strstr_loop.simps) simp
      ultimately show ?thesis by (simp only: option.case) (rule exI[of _ 0], simp)
    next
      case False
      have q: "strstr_loop a b (int (length (x # xs))) (int (length ys)) m = strstr_loop (a + 1) b (int (length xs)) (int (length ys)) m"
        using memcmp_prefix[OF Cons.prems(1,2) le] False Cons.prems(4) le by (subst strstr_loop.simps) simp
      have "cstring (a + 1) xs m" using Cons.prems(1) by (simp add: cstring_Cons)
      note ih = Cons.IH[OF this Cons.prems(2-4)]
      show ?thesis
      proof (cases "strstr_loop (a + 1) b (int (length xs)) (int (length ys)) m")
        case None
        then show ?thesis using ih unfolding q occurs_Cons[OF False] by simp
      next
        case (Some p)
        then obtain n where "p = a + 1 + of_nat n" "first_at ys xs n" using ih by auto
        then have "p = a + of_nat (Suc n) \<and> first_at ys (x # xs) (Suc n)" using first_at_Cons[OF False] by (simp add: add.assoc)
        then show ?thesis unfolding q Some option.case by (rule exI)
      qed
    qed
  qed
qed

lemma strstr_first:
  assumes "cstring a xs m" and "cstring b ys m" and "length xs < 2 ^ 31" and "length ys < 2 ^ 31"
  shows "\<exists>r. rt_strstr a b m = Some r \<and> (case r of None \<Rightarrow> (\<forall>u v. xs \<noteq> u @ ys @ v)
           | Some p \<Rightarrow> (\<exists>n. p = a + of_nat n \<and> first_at ys xs n))"
proof -
  have i: "sint (of_nat n :: u32) = int n" if "n < 2 ^ 31" for n using that by (simp add: signed_of_nat signed_take_bit_int_eq_self)
  have z: "(of_nat n :: u32) = 0 \<longleftrightarrow> n = 0" if "n < 2 ^ 31" for n using i[OF that] by (cases "n = 0") auto
  show ?thesis
  proof (cases "ys = []")
    case True
    then have "first_at ys xs 0" by (auto simp: first_at_def)
    then have "\<exists>n. a = a + of_nat n \<and> first_at ys xs n" by (intro exI[of _ 0]) simp
    moreover have "rt_strstr a b m = Some (Some a)" using True strlen_length[OF assms(2)] by (simp add: rt_strstr_def)
    ultimately show ?thesis by (intro exI[of _ "Some a"]) (simp only: option.case simp_thms)
  next
    case False
    then show ?thesis using strstr_loop_first[OF assms(1,2) False assms(4)] strlen_length[OF assms(1)] strlen_length[OF assms(2)]
      by (simp add: rt_strstr_def z[OF assms(4)] i[OF assms(3)] i[OF assms(4)])
  qed
qed

lemma strnlen_min:
  assumes "cstring a xs m" and "length xs < 2 ^ 32"
  shows "rt_strnlen a n m = of_nat (min (length xs) (unat n))"
proof -
  have "strnlen_loop a (a + of_nat k) n m = a + of_nat (min (length xs) (unat n))" if "k \<le> length xs" "k \<le> unat n" for k
    using that
  proof (induction "length xs - k" arbitrary: k)
    case 0
    then show ?case using assms by (subst strnlen_loop.simps) (simp add: cstring_def)
  next
    case (Suc d)
    have u: "unat (of_nat k :: u32) = k" using Suc assms(2) by (simp add: unat_of_nat take_bit_nat_eq_self)
    have "k < length xs" using Suc.hyps(2) by simp
    then have "xs ! k \<in> set xs" "m (a + of_nat k) = xs ! k" using cstring_bytes[OF assms(1)] by simp_all
    then have "m (a + of_nat k) \<noteq> 0" using assms(1) by (auto simp: cstring_def)
    show ?case
    proof (cases "k < unat n")
      case True
      then have "strnlen_loop a (a + of_nat k) n m = strnlen_loop a (a + of_nat (Suc k)) n m"
        using \<open>m (a + of_nat k) \<noteq> 0\<close> u by (subst strnlen_loop.simps) (simp add: word_less_nat_alt ac_simps)
      also have "\<dots> = a + of_nat (min (length xs) (unat n))" using Suc.hyps(1)[of "Suc k"] Suc.hyps(2) Suc.prems True by simp
      finally show ?thesis .
    next
      case False
      then show ?thesis using u Suc.prems by (subst strnlen_loop.simps) (simp add: word_less_nat_alt min_def)
    qed
  qed
  from this[of 0] show ?thesis by (simp add: rt_strnlen_def)
qed


section \<open>Properties\<close>

text \<open>On null-terminated strings the string functions return.  rt_strlen counts the bytes and
  rt_strnlen cuts the count at its limit; the sign of rt_strcmp is the lexicographic order of the
  two strings, and rt_strcasecmp is zero exactly when the strings are the same but for the case of
  letters; rt_strstr finds the first place where the second string occurs in the first one, or
  none when it does not occur.
\<close>

theorem string_functions:
  assumes "cstring a xs m" and "cstring b ys m" and "length xs < 2 ^ 31" and "length ys < 2 ^ 31"
  shows "rt_strlen a m = Some (of_nat (length xs)) \<and>
    rt_strnlen a n m = of_nat (min (length xs) (unat n)) \<and>
    (\<exists>r. rt_strcmp a b m = Some r \<and> (r = 0 \<longleftrightarrow> xs = ys) \<and> (r < 0 \<longleftrightarrow> xs < ys)) \<and>
    (\<exists>r. rt_strcasecmp a b m = Some r \<and> (r = 0 \<longleftrightarrow> map lower_case xs = map lower_case ys)) \<and>
    (\<exists>r. rt_strstr a b m = Some r \<and>
       (case r of None \<Rightarrow> \<forall>u v. xs \<noteq> u @ ys @ v
        | Some p \<Rightarrow> \<exists>u v. p = a + of_nat (length u) \<and> xs = u @ ys @ v \<and> (\<forall>u' v'. xs = u' @ ys @ v' \<longrightarrow> length u \<le> length u')))"
proof (intro conjI)
  show "rt_strlen a m = Some (of_nat (length xs))" by (rule strlen_length[OF assms(1)])
  show "rt_strnlen a n m = of_nat (min (length xs) (unat n))" using strnlen_min[OF assms(1)] assms(3) by simp
  show "\<exists>r. rt_strcmp a b m = Some r \<and> (r = 0 \<longleftrightarrow> xs = ys) \<and> (r < 0 \<longleftrightarrow> xs < ys)"
    by (rule strcmp_order[OF assms(1,2)])
  obtain r where r: "strcasecmp_loop a b m = Some r" "- 256 < r" "r < 256" "r = 0 \<longleftrightarrow> map lower_case xs = map lower_case ys"
    using strcasecmp_equal[OF assms(1,2)] by blast
  have "(of_int r :: u32) = 0 \<longleftrightarrow> r = 0"
  proof
    assume "(of_int r :: u32) = 0"
    then have "(2 :: int) ^ 32 dvd r" by (simp add: word_of_int_eq_0_iff)
    then show "r = 0" using r(2,3) by (cases "r = 0") (auto dest: zdvd_imp_le simp: dvd_def)
  qed simp
  then show "\<exists>r. rt_strcasecmp a b m = Some r \<and> (r = 0 \<longleftrightarrow> map lower_case xs = map lower_case ys)"
    using r(1,4) by (simp add: rt_strcasecmp_def)
  obtain p where p: "rt_strstr a b m = Some p" "case p of None \<Rightarrow> \<forall>u v. xs \<noteq> u @ ys @ v
           | Some p \<Rightarrow> \<exists>n. p = a + of_nat n \<and> first_at ys xs n"
    using strstr_first[OF assms] by blast
  then show "\<exists>r. rt_strstr a b m = Some r \<and>
       (case r of None \<Rightarrow> \<forall>u v. xs \<noteq> u @ ys @ v
        | Some p \<Rightarrow> \<exists>u v. p = a + of_nat (length u) \<and> xs = u @ ys @ v \<and> (\<forall>u' v'. xs = u' @ ys @ v' \<longrightarrow> length u \<le> length u'))"
    by (cases p) (auto simp: first_at_def)
qed

text \<open>The string abcab at 0x1000 and the string B, in upper case, at 0x2000.\<close>

definition ex_strings :: memory where
  "ex_strings = (\<lambda>_. 0)(0x1000 := 97, 0x1001 := 98, 0x1002 := 99, 0x1003 := 97, 0x1004 := 98, 0x2000 := 66)"

theorem string_functions_witness:
  "rt_strlen 0x1000 ex_strings = Some 5 \<and> rt_strnlen 0x1000 3 ex_strings = 3 \<and>
   (\<exists>r. rt_strcmp 0x1000 0x2000 ex_strings = Some r \<and> r \<noteq> 0)"
proof -
  have a: "cstring 0x1000 [97, 98, 99, 97, 98] ex_strings" "cstring 0x2000 [66] ex_strings"
    by (simp_all add: cstring_Cons cstring_Nil ex_strings_def)
  from string_functions[OF a, of 3] show ?thesis by auto
qed

text \<open>A copy made by rt_strdup outside the original holds the same string.\<close>

lemma strdup_copies:
  assumes "cstring a xs m" and "length xs < 2 ^ 31" and "malloc (of_nat (length xs) + 1) = Some p"
    and "length xs + 1 \<le> unat (p - a)"
  shows "\<exists>m'. rt_strdup malloc a m = Some (Some p, m') \<and> cstring p xs m'"
proof -
  let ?n = "of_nat (length xs) + 1 :: u32"
  have n: "?n = of_nat (Suc (length xs))" by simp
  have "Suc (length xs) < 2 ^ LENGTH(32)" using assms(2) by simp
  then have u: "unat ?n = length xs + 1" unfolding n unat_of_nat by (simp only: mod_less Suc_eq_plus1)
  have c: "rt_memcpy p a ?n m = mem_copy p a (length xs + 1) m"
    using memcpy_reference[of p a ?n m] assms(4) u assms(2) by (simp add: copy_up_ok_def)
  have k: "unat (of_nat i :: u32) = i" if "i \<le> length xs" for i using that assms(2) by (simp add: unat_of_nat take_bit_nat_eq_self)
  have "mem_copy p a (length xs + 1) m (p + of_nat i) = m (a + of_nat i)" if "i \<le> length xs" for i
    using k[OF that] that by (simp add: mem_copy_def)
  then have "cstring p xs (mem_copy p a (length xs + 1) m)" using assms(1) by (auto simp: cstring_def)
  then show ?thesis using strlen_length[OF assms(1)] assms(3) c by (simp add: rt_strdup_def)
qed

end
