(* ===== verification/Kprintf.thy ===== *)
theory Kprintf
  imports Kservice
begin

text \<open>
  The formatted output of rt-thread/src/kservice.c, for the configured kernel (with precision,
  without the special forms and long long numbers).  A format is a string, the variable arguments
  are a list of numbers and strings.  The pointers \<open>str\<close> and \<open>end\<close> are distances from the start of
  the buffer, which is assumed not to be reached again around the end of the address space.  An int
  that overflows and a missing argument end in None.

  \<open>format_text\<close> is the reference: the text of a format as a list, without a buffer.
\<close>

section \<open>Operations\<close>

text \<open>The bytes of the buffer, by their distance from its start; a sink is the place of the
  next character, also as a distance, and the buffer.\<close>

type_synonym sink = "nat \<times> (nat \<Rightarrow> char)"

datatype va_arg = Arg_int u32 | Arg_str "string option"

text \<open>The bits of the byte \<open>flags\<close>.\<close>

record pr_flags =
  ZEROPAD :: bool
  SIGN :: bool
  PLUS :: bool
  SPACE :: bool
  LEFT :: bool
  SPECIAL :: bool
  LARGE :: bool

definition no_flags :: pr_flags where
  "no_flags = \<lparr>ZEROPAD = False, SIGN = False, PLUS = False, SPACE = False, LEFT = False, SPECIAL = False, LARGE = False\<rparr>"

definition isdigit :: "char \<Rightarrow> bool" where
  "isdigit c \<longleftrightarrow> of_char c - (48 :: u32) < 10"

definition divide_digit :: "u32 \<Rightarrow> nat \<Rightarrow> nat \<times> u32" where
  "divide_digit n base = (if base = 10 then (unat (n mod 10), n div 10) else (unat (n mod 16), n div 16))"

text \<open>A number of an int; overflow is undefined.\<close>

fun skip_atoi :: "int \<Rightarrow> string \<Rightarrow> (int \<times> string) option" where
  "skip_atoi i [] = Some (i, [])"
| "skip_atoi i (c # s) =
     (if isdigit c
      then if i * 10 + of_char c < 2 ^ 31 then skip_atoi (i * 10 + of_char c - 48) s else None
      else Some (i, c # s))"

definition pr_put :: "nat \<Rightarrow> char \<Rightarrow> sink \<Rightarrow> sink" where
  "pr_put lim c = (\<lambda>(str, m). (str + 1, if str \<le> lim then m(str := c) else m))"

text \<open>The loops \<open>while (sz-- > 0)\<close>, with the value of sz after them.\<close>

function pad_loop :: "nat \<Rightarrow> char \<Rightarrow> int \<Rightarrow> sink \<Rightarrow> int \<times> sink" where
  "pad_loop lim c sz st = (if sz > 0 then pad_loop lim c (sz - 1) (pr_put lim c st) else (sz - 1, st))"
  by pat_completeness auto

termination pad_loop
  by (relation "measure (\<lambda>(_, _, n, _). nat n)") auto

declare pad_loop.simps [simp del]

definition small_digits :: string where "small_digits = ''0123456789abcdef''"
definition large_digits :: string where "large_digits = ''0123456789ABCDEF''"

text \<open>The digits are stored in the array \<open>tmp\<close> of 16 bytes, the lowest first.\<close>

function digit_loop :: "string \<Rightarrow> nat \<Rightarrow> u32 \<Rightarrow> string \<Rightarrow> string option" where
  "digit_loop digits base num tmp =
     (if num = 0 then Some tmp
      else if length tmp < 16
           then digit_loop digits base (snd (divide_digit num base)) (tmp @ [digits ! fst (divide_digit num base)])
           else None)"
  by pat_completeness auto

lemma divide_less: "num \<noteq> 0 \<Longrightarrow> unat (snd (divide_digit num base)) < unat num"
  by (auto simp: divide_digit_def unat_div unat_gt_0)

termination digit_loop
  by (relation "measure (\<lambda>(_, _, n, _). unat n)") (auto simp: divide_less)

declare digit_loop.simps [simp del]

definition number_sign :: "pr_flags \<Rightarrow> u32 \<Rightarrow> (char option \<times> u32) option" where
  "number_sign ty num =
     (if SIGN ty
      then if sint num < 0 then (if num = 0x80000000 then None else Some (Some (CHR ''-''), - num))
           else if PLUS ty then Some (Some (CHR ''+''), num)
           else if SPACE ty then Some (Some (CHR '' ''), num)
           else Some (None, num)
      else Some (None, num))"

definition print_number :: "nat \<Rightarrow> u32 \<Rightarrow> nat \<Rightarrow> int \<Rightarrow> int \<Rightarrow> pr_flags \<Rightarrow> sink \<Rightarrow> sink option" where
  "print_number lim num base s precision ty st =
     do { let sz = s;
          let digits = (if LARGE ty then large_digits else small_digits);
          let ty = (if LEFT ty then ty\<lparr>ZEROPAD := False\<rparr> else ty);
          let c = (if ZEROPAD ty then CHR ''0'' else CHR '' '');
          (sign, num) \<leftarrow> number_sign ty num;
          tmp \<leftarrow> (if num = 0 then Some ''0'' else digit_loop digits base num []);
          let i = int (length tmp);
          let precision = (if i > precision then i else precision);
          let sz = sz - precision;
          let (sz, st) =
            (if \<not> (ZEROPAD ty \<or> LEFT ty)
             then pad_loop lim (CHR '' '') (if sign \<noteq> None \<and> sz > 0 then sz - 1 else sz) st
             else (sz, st));
          let (sz, st) =
            (case sign of
               None \<Rightarrow> (sz, st)
             | Some ch \<Rightarrow> (if fst st \<le> lim then sz - 1 else sz, pr_put lim ch st));
          let (sz, st) = (if \<not> LEFT ty then pad_loop lim c sz st else (sz, st));
          let st = snd (pad_loop lim (CHR ''0'') (precision - i) st);
          let st = fold (pr_put lim) (rev tmp) st;
          Some (snd (pad_loop lim (CHR '' '') sz st)) }"

text \<open>The parts of a conversion after its percent sign: flags, field width, precision and
  qualifier.\<close>

fun get_flags :: "pr_flags \<Rightarrow> string \<Rightarrow> pr_flags \<times> string" where
  "get_flags fl [] = (fl, [])"
| "get_flags fl (c # s) =
     (if c = CHR ''-'' then get_flags (fl\<lparr>LEFT := True\<rparr>) s
      else if c = CHR ''+'' then get_flags (fl\<lparr>PLUS := True\<rparr>) s
      else if c = CHR '' '' then get_flags (fl\<lparr>SPACE := True\<rparr>) s
      else if c = CHR ''#'' then get_flags (fl\<lparr>SPECIAL := True\<rparr>) s
      else if c = CHR ''0'' then get_flags (fl\<lparr>ZEROPAD := True\<rparr>) s
      else (fl, c # s))"

text \<open>An int argument; taking an argument that is not there, or a string, is undefined.\<close>

fun arg_int :: "va_arg list \<Rightarrow> (u32 \<times> va_arg list) option" where
  "arg_int (Arg_int x # args) = Some (x, args)"
| "arg_int _ = None"

fun arg_str :: "va_arg list \<Rightarrow> (string option \<times> va_arg list) option" where
  "arg_str (Arg_str s # args) = Some (s, args)"
| "arg_str _ = None"

definition at_char :: "string \<Rightarrow> char \<Rightarrow> bool" where
  "at_char s c \<longleftrightarrow> (case s of [] \<Rightarrow> False | d # _ \<Rightarrow> d = c)"

definition at_digit :: "string \<Rightarrow> bool" where
  "at_digit s \<longleftrightarrow> (case s of [] \<Rightarrow> False | d # _ \<Rightarrow> isdigit d)"

definition get_width :: "pr_flags \<Rightarrow> string \<Rightarrow> va_arg list \<Rightarrow> (int \<times> pr_flags \<times> string \<times> va_arg list) option" where
  "get_width fl fmt args =
     (if at_digit fmt then do { (w, fmt) \<leftarrow> skip_atoi 0 fmt; Some (w, fl, fmt, args) }
      else if at_char fmt (CHR ''*'')
      then do { (x, args) \<leftarrow> arg_int args;
                if sint x < 0 then if x = 0x80000000 then None else Some (- sint x, fl\<lparr>LEFT := True\<rparr>, tl fmt, args)
                else Some (sint x, fl, tl fmt, args) }
      else Some (-1, fl, fmt, args))"

definition get_precision :: "string \<Rightarrow> va_arg list \<Rightarrow> (int \<times> string \<times> va_arg list) option" where
  "get_precision fmt args =
     (if at_char fmt (CHR ''.'')
      then do { let fmt = tl fmt;
                (p, fmt, args) \<leftarrow>
                  (if at_digit fmt then do { (p, fmt) \<leftarrow> skip_atoi 0 fmt; Some (p, fmt, args) }
                   else if at_char fmt (CHR ''*'') then do { (x, args) \<leftarrow> arg_int args; Some (sint x, tl fmt, args) }
                   else Some (-1, fmt, args));
                Some (if p < 0 then 0 else p, fmt, args) }
      else Some (-1, fmt, args))"

definition get_qualifier :: "string \<Rightarrow> char option \<times> string" where
  "get_qualifier fmt = (if at_char fmt (CHR ''h'') \<or> at_char fmt (CHR ''l'') then (Some (hd fmt), tl fmt) else (None, fmt))"

record pr_spec =
  sp_flags :: pr_flags
  field_width :: int
  precision :: int
  qualifier :: "char option"

definition get_spec :: "string \<Rightarrow> va_arg list \<Rightarrow> (pr_spec \<times> string \<times> va_arg list) option" where
  "get_spec fmt args =
     do { let (fl, fmt) = get_flags no_flags fmt;
          (w, fl, fmt, args) \<leftarrow> get_width fl fmt args;
          (p, fmt, args) \<leftarrow> get_precision fmt args;
          let (q, fmt) = get_qualifier fmt;
          Some (\<lparr>sp_flags = fl, field_width = w, precision = p, qualifier = q\<rparr>, fmt, args) }"

text \<open>The cases of the switch.\<close>

definition put_char :: "nat \<Rightarrow> pr_spec \<Rightarrow> char \<Rightarrow> sink \<Rightarrow> sink" where
  "put_char lim sp c st =
     (let (w, st) = (if \<not> LEFT (sp_flags sp) then pad_loop lim (CHR '' '') (field_width sp - 1) st
                     else (field_width sp, st));
          st = pr_put lim c st
      in snd (pad_loop lim (CHR '' '') (w - 1) st))"

definition put_string :: "nat \<Rightarrow> pr_spec \<Rightarrow> string option \<Rightarrow> sink \<Rightarrow> sink" where
  "put_string lim sp str st =
     (let s = (case str of None \<Rightarrow> ''(NULL)'' | Some s \<Rightarrow> s);
          len = int (length s);
          len = (if precision sp > 0 \<and> len > precision sp then precision sp else len);
          (w, st) = (if \<not> LEFT (sp_flags sp) then pad_loop lim (CHR '' '') (field_width sp - len) st
                     else (field_width sp - len, st));
          st = fold (pr_put lim) (take (nat len) s) st
      in snd (pad_loop lim (CHR '' '') w st))"

definition number_arg :: "pr_spec \<Rightarrow> bool \<Rightarrow> u32 \<Rightarrow> u32" where
  "number_arg sp sgn_flag x =
     (if qualifier sp = Some (CHR ''h'')
      then if sgn_flag then scast (ucast x :: u16) else ucast (ucast x :: u16)
      else x)"

definition vsn_number :: "nat \<Rightarrow> pr_spec \<Rightarrow> nat \<Rightarrow> pr_flags \<Rightarrow> va_arg list \<Rightarrow> sink \<Rightarrow> (va_arg list \<times> sink) option" where
  "vsn_number lim sp base fl args st =
     do { (x, args) \<leftarrow> arg_int args;
          st \<leftarrow> print_number lim (number_arg sp (SIGN fl) x) base (field_width sp) (precision sp) fl st;
          Some (args, st) }"

definition vsn_convert :: "nat \<Rightarrow> pr_spec \<Rightarrow> char \<Rightarrow> va_arg list \<Rightarrow> sink \<Rightarrow> (va_arg list \<times> sink) option" where
  "vsn_convert lim sp c args st =
     (let fl = sp_flags sp
      in if c = CHR ''c'' then do { (x, args) \<leftarrow> arg_int args; Some (args, put_char lim sp (char_of (unat (ucast x :: u8))) st) }
         else if c = CHR ''s'' then do { (s, args) \<leftarrow> arg_str args; Some (args, put_string lim sp s st) }
         else if c = CHR ''p'' then
           let (w, fl) = (if field_width sp = -1 then (8, fl\<lparr>ZEROPAD := True\<rparr>) else (field_width sp, fl))
           in do { (x, args) \<leftarrow> arg_int args; st \<leftarrow> print_number lim x 16 w (precision sp) fl st; Some (args, st) }
         else if c = CHR ''%'' then Some (args, pr_put lim (CHR ''%'') st)
         else if c = CHR ''o'' then vsn_number lim sp 8 fl args st
         else if c = CHR ''X'' then vsn_number lim sp 16 (fl\<lparr>LARGE := True\<rparr>) args st
         else if c = CHR ''x'' then vsn_number lim sp 16 fl args st
         else if c = CHR ''d'' \<or> c = CHR ''i'' then vsn_number lim sp 10 (fl\<lparr>SIGN := True\<rparr>) args st
         else if c = CHR ''u'' then vsn_number lim sp 10 fl args st
         else Some (args, pr_put lim c (pr_put lim (CHR ''%'') st)))"

lemma get_flags_length: "get_flags fl s = (fl', s') \<Longrightarrow> length s' \<le> length s"
  by (induction fl s rule: get_flags.induct) (auto split: if_splits)

lemma skip_atoi_length: "skip_atoi i s = Some (n, s') \<Longrightarrow> length s' \<le> length s"
  by (induction i s rule: skip_atoi.induct) (auto split: if_splits)

lemma get_spec_length:
  assumes "get_spec s args = Some (sp, s', args')"
  shows "length s' \<le> length s"
  using assms
  by (auto simp: get_spec_def get_width_def get_precision_def get_qualifier_def Let_def split: if_splits prod.splits bind_splits
      dest!: get_flags_length skip_atoi_length)

text \<open>The loop over the format.\<close>

function vsn_loop :: "nat \<Rightarrow> string \<Rightarrow> va_arg list \<Rightarrow> sink \<Rightarrow> sink option" where
  "vsn_loop lim [] args st = Some st"
| "vsn_loop lim (c # fmt) args st =
     (if c \<noteq> CHR ''%'' then vsn_loop lim fmt args (pr_put lim c st)
      else case get_spec fmt args of
             None \<Rightarrow> None
           | Some (sp, fmt', args') \<Rightarrow>
               (case fmt' of
                  [] \<Rightarrow> Some (pr_put lim (CHR ''%'') st)
                | d # rest \<Rightarrow>
                    (case vsn_convert lim sp d args' st of
                       None \<Rightarrow> None
                     | Some (args'', st') \<Rightarrow> vsn_loop lim rest args'' st')))"
  by pat_completeness auto

termination vsn_loop
  by (relation "measure (\<lambda>(_, s, _, _). length s)") (auto dest!: get_spec_length)

definition rt_vsnprintf :: "u32 \<Rightarrow> u32 \<Rightarrow> string \<Rightarrow> va_arg list \<Rightarrow> (nat \<Rightarrow> char) \<Rightarrow> (nat \<times> (nat \<Rightarrow> char)) option" where
  "rt_vsnprintf buf sz fmt args m =
     do { let lim = buf + sz - 1;
          let lim = (if lim < buf then 0xffffffff else lim);
          let lim = unat (lim - buf);
          (str, m) \<leftarrow> vsn_loop lim fmt args (0, m);
          Some (str, if str \<le> lim then m(str := CHR 0x00) else m(lim := CHR 0x00)) }"

definition rt_snprintf :: "u32 \<Rightarrow> u32 \<Rightarrow> string \<Rightarrow> va_arg list \<Rightarrow> (nat \<Rightarrow> char) \<Rightarrow> (nat \<times> (nat \<Rightarrow> char)) option" where
  "rt_snprintf buf sz fmt args m = rt_vsnprintf buf sz fmt args m"

definition rt_vsprintf :: "u32 \<Rightarrow> string \<Rightarrow> va_arg list \<Rightarrow> (nat \<Rightarrow> char) \<Rightarrow> (nat \<times> (nat \<Rightarrow> char)) option" where
  "rt_vsprintf buf fmt args m = rt_vsnprintf buf (- 1) fmt args m"

definition rt_sprintf :: "u32 \<Rightarrow> string \<Rightarrow> va_arg list \<Rightarrow> (nat \<Rightarrow> char) \<Rightarrow> (nat \<times> (nat \<Rightarrow> char)) option" where
  "rt_sprintf buf fmt args m = rt_vsprintf buf fmt args m"


section \<open>Reference: the text of a format\<close>

definition number_text :: "u32 \<Rightarrow> nat \<Rightarrow> int \<Rightarrow> int \<Rightarrow> pr_flags \<Rightarrow> string option" where
  "number_text num base w p fl =
     do { (sign, num) \<leftarrow> number_sign fl num;
          tmp \<leftarrow> (if num = 0 then Some ''0'' else digit_loop (if LARGE fl then large_digits else small_digits) base num []);
          let body = replicate (nat p - length tmp) (CHR ''0'') @ rev tmp;
          let signs = (case sign of None \<Rightarrow> [] | Some ch \<Rightarrow> [ch]);
          let n = nat (w - int (length (signs @ body)));
          Some (if LEFT fl then signs @ body @ replicate n (CHR '' '')
                else if ZEROPAD fl then signs @ replicate n (CHR ''0'') @ body
                else replicate n (CHR '' '') @ signs @ body) }"

definition char_text :: "pr_spec \<Rightarrow> char \<Rightarrow> string" where
  "char_text sp c =
     (let pad = replicate (nat (field_width sp - 1)) (CHR '' '') in if LEFT (sp_flags sp) then c # pad else pad @ [c])"

definition string_text :: "pr_spec \<Rightarrow> string option \<Rightarrow> string" where
  "string_text sp str =
     (let s = (case str of None \<Rightarrow> ''(NULL)'' | Some s \<Rightarrow> s);
          t = (if precision sp > 0 then take (nat (precision sp)) s else s);
          pad = replicate (nat (field_width sp - int (length t))) (CHR '' '')
      in if LEFT (sp_flags sp) then t @ pad else pad @ t)"

definition number_conv :: "pr_spec \<Rightarrow> nat \<Rightarrow> pr_flags \<Rightarrow> va_arg list \<Rightarrow> (va_arg list \<times> string) option" where
  "number_conv sp base fl args =
     do { (x, args) \<leftarrow> arg_int args;
          t \<leftarrow> number_text (number_arg sp (SIGN fl) x) base (field_width sp) (precision sp) fl;
          Some (args, t) }"

definition conv_text :: "pr_spec \<Rightarrow> char \<Rightarrow> va_arg list \<Rightarrow> (va_arg list \<times> string) option" where
  "conv_text sp c args =
     (let fl = sp_flags sp
      in if c = CHR ''c'' then do { (x, args) \<leftarrow> arg_int args; Some (args, char_text sp (char_of (unat (ucast x :: u8)))) }
         else if c = CHR ''s'' then do { (s, args) \<leftarrow> arg_str args; Some (args, string_text sp s) }
         else if c = CHR ''p'' then
           do { (x, args) \<leftarrow> arg_int args;
                t \<leftarrow> (if field_width sp = -1 then number_text x 16 8 (precision sp) (fl\<lparr>ZEROPAD := True\<rparr>)
                      else number_text x 16 (field_width sp) (precision sp) fl);
                Some (args, t) }
         else if c = CHR ''%'' then Some (args, ''%'')
         else if c = CHR ''o'' then number_conv sp 8 fl args
         else if c = CHR ''X'' then number_conv sp 16 (fl\<lparr>LARGE := True\<rparr>) args
         else if c = CHR ''x'' then number_conv sp 16 fl args
         else if c = CHR ''d'' \<or> c = CHR ''i'' then number_conv sp 10 (fl\<lparr>SIGN := True\<rparr>) args
         else if c = CHR ''u'' then number_conv sp 10 fl args
         else Some (args, ''%'' @ [c]))"

function format_text :: "string \<Rightarrow> va_arg list \<Rightarrow> string option" where
  "format_text [] args = Some []"
| "format_text (c # fmt) args =
     (if c \<noteq> CHR ''%'' then map_option ((#) c) (format_text fmt args)
      else case get_spec fmt args of
             None \<Rightarrow> None
           | Some (sp, fmt', args') \<Rightarrow>
               (case fmt' of
                  [] \<Rightarrow> Some ''%''
                | d # rest \<Rightarrow>
                    (case conv_text sp d args' of
                       None \<Rightarrow> None
                     | Some (args'', t) \<Rightarrow> map_option ((@) t) (format_text rest args''))))"
  by pat_completeness auto

termination format_text
  by (relation "measure (\<lambda>(s, _). length s)") (auto dest!: get_spec_length)

text \<open>Digits.\<close>

lemma divide_bound: "unat (snd (divide_digit num base)) \<le> unat num div 10" "fst (divide_digit num base) < 16"
proof -
  have "unat num div 16 \<le> unat num div 10" by (rule div_le_mono2) simp_all
  then show "unat (snd (divide_digit num base)) \<le> unat num div 10" by (simp add: divide_digit_def unat_div)
  show "fst (divide_digit num base) < 16" by (simp add: divide_digit_def unat_mod) (metis mod_less_divisor order_less_trans zero_less_numeral numeral_less_iff semiring_norm)
qed

lemma digit_loop_total:
  "unat num < 10 ^ n \<Longrightarrow> length tmp + n \<le> 16 \<Longrightarrow> \<exists>t. digit_loop digits base num tmp = Some (tmp @ t) \<and> length t \<le> n"
proof (induction n arbitrary: num tmp)
  case 0
  then have "num = 0" by (simp add: unat_eq_zero)
  then show ?case by (simp add: digit_loop.simps)
next
  case (Suc n)
  show ?case
  proof (cases "num = 0")
    case True
    then show ?thesis by (simp add: digit_loop.simps)
  next
    case False
    have "unat num div 10 < 10 ^ n" using Suc.prems(1) by (simp add: div_less_iff_less_mult mult.commute)
    then have "unat (snd (divide_digit num base)) < 10 ^ n" using divide_bound(1)[of num base] by linarith
    from Suc.IH[OF this, of "tmp @ [digits ! fst (divide_digit num base)]"] Suc.prems(2)
    show ?thesis using False by (subst digit_loop.simps) auto
  qed
qed

text \<open>The array of 16 bytes is never exceeded.\<close>

lemma digit_loop_fits: "\<exists>t. digit_loop digits base num [] = Some t \<and> length t \<le> 10"
proof -
  have "unat num < 10 ^ 10" using unsigned_less[of num, where ?'a = nat] by simp
  from digit_loop_total[OF this, of "[]" digits base] show ?thesis by simp
qed

section \<open>Writing a text\<close>

abbreviation emit :: "nat \<Rightarrow> string \<Rightarrow> sink \<Rightarrow> sink" where "emit lim \<equiv> fold (pr_put lim)"

lemma emit_effect:
  "emit lim t (str, m) = (str + length t, \<lambda>i. if str \<le> i \<and> i < str + length t \<and> i \<le> lim then t ! (i - str) else m i)"
proof (induction t arbitrary: str m)
  case Nil
  then show ?case by (auto simp: fun_eq_iff)
next
  case (Cons c t)
  have p: "pr_put lim c (str, m) = (Suc str, if str \<le> lim then m(str := c) else m)" by (simp add: pr_put_def)
  show ?case unfolding fold_Cons comp_apply p Cons by (auto simp: fun_eq_iff nth_Cons')
qed

lemma pad_loop_emit:
  "pad_loop lim c n st = (if n > 0 then -1 else n - 1, emit lim (replicate (nat n) c) st)"
proof (induction lim c n st rule: pad_loop.induct)
  case (1 lim c n st)
  show ?case
  proof (cases "n > 0")
    case True
    then have "replicate (nat n) c = c # replicate (nat (n - 1)) c" by (metis Suc_nat_eq_nat_zadd1 diff_add_cancel add.commute replicate_Suc zle_diff1_eq)
    then show ?thesis using 1[OF True] True by (subst pad_loop.simps) auto
  next
    case False
    then show ?thesis by (subst pad_loop.simps) simp
  qed
qed

text \<open>Two sinks agree when the buffers are the same and the places are equal, or both are behind
  the limit.\<close>

definition agree :: "nat \<Rightarrow> sink \<Rightarrow> sink \<Rightarrow> bool" where
  "agree lim st st' \<longleftrightarrow> snd st = snd st' \<and> (fst st = fst st' \<or> lim < fst st \<and> fst st \<le> fst st')"

lemma agree_refl [simp]: "agree lim st st"
  by (simp add: agree_def)

lemma agree_trans: "agree lim a b \<Longrightarrow> agree lim b c \<Longrightarrow> agree lim a c"
  by (auto simp: agree_def)

lemma agree_put: "agree lim st st' \<Longrightarrow> agree lim (pr_put lim c st) (pr_put lim c st')"
  by (auto simp: agree_def pr_put_def split: prod.splits)

lemma agree_emit: "agree lim st st' \<Longrightarrow> agree lim (emit lim t st) (emit lim t st')"
  by (induction t arbitrary: st st') (auto simp: agree_put)

lemma emit_behind: "lim < fst st \<Longrightarrow> emit lim t st = (fst st + length t, snd st)"
  by (cases st) (auto simp: emit_effect fun_eq_iff)

lemma agree_longer:
  assumes "lim < fst st" and "length t \<le> length t'"
  shows "agree lim (emit lim t st) (emit lim t' st)"
  using assms by (simp add: agree_def emit_behind)


text \<open>A number that starts behind the limit may be padded by one character more than its text,
  because print_number counts its sign only when it is stored.\<close>

lemma number_sign_zeropad [simp]: "number_sign (fl\<lparr>ZEROPAD := b\<rparr>) num = number_sign fl num"
  by (simp add: number_sign_def)

lemma print_number_text:
  assumes "number_text num base w p fl = Some t"
  shows "\<exists>st'. print_number lim num base w p fl st = Some st' \<and> agree lim (emit lim t st) st'"
proof -
  let ?digits = "if LARGE fl then large_digits else small_digits"
  from assms obtain sign num' where sg: "number_sign fl num = Some (sign, num')"
    by (auto simp: number_text_def split: bind_splits)
  obtain tmp where tmp: "(if num' = 0 then Some ''0'' else digit_loop ?digits base num' []) = Some tmp"
    using digit_loop_fits[of ?digits base num'] by (cases "num' = 0") auto
  define i where "i = int (length tmp)"
  define q where "q = (if i > p then i else p)"
  have q: "nat (q - i) = nat p - length tmp" "i \<le> q" unfolding q_def i_def by auto
  define body where "body = replicate (nat p - length tmp) (CHR ''0'') @ rev tmp"
  define signs where "signs = (case sign of None \<Rightarrow> [] | Some ch \<Rightarrow> [ch])"
  have lb: "int (length body) = q" unfolding body_def using q by (simp add: i_def)
  have ls: "length signs = (if sign = None then 0 else 1)" by (simp add: signs_def split: option.splits)
  define n where "n = nat (w - int (length (signs @ body)))"
  define layout where "layout n = (if LEFT fl then signs @ body @ replicate n (CHR '' '')
      else if ZEROPAD fl then signs @ replicate n (CHR ''0'') @ body
      else replicate n (CHR '' '') @ signs @ body)" for n
  have t: "t = layout n"
    using assms unfolding number_text_def sg bind.bind_lunit prod.case tmp Let_def layout_def n_def signs_def body_def option.inject
    by (rule sym)
  define n' where "n' = (if (LEFT fl \<or> ZEROPAD fl) \<and> sign \<noteq> None \<and> lim < fst st then nat (w - q) else n)"
  have "print_number lim num base w p fl st = Some (emit lim (layout n') st)"
  proof -
    have n: "n = nat (if sign = None then w - q else w - q - 1)" unfolding n_def length_append ls using lb by (simp add: algebra_simps)
    have b: "emit lim (rev tmp) (emit lim (replicate (nat (q - i)) (CHR ''0'')) u) = emit lim body u" for u
      unfolding body_def q by simp
    note unf = sg number_sign_zeropad bind.bind_lunit prod.case tmp i_def[symmetric] q_def[symmetric] pad_loop_emit
    show ?thesis
    proof (cases "LEFT fl")
      case True
      show ?thesis unfolding print_number_def Let_def if_P[OF True] unf using True
        by (cases sign) (simp_all add: b layout_def n'_def n signs_def del: fold_replicate)
    next
      case False
      show ?thesis unfolding print_number_def Let_def if_not_P[OF False] unf using False
        by (cases sign; cases "ZEROPAD fl") (simp_all add: b layout_def n'_def n signs_def del: fold_replicate)
    qed
  qed
  moreover have "agree lim (emit lim t st) (emit lim (layout n') st)"
  proof (cases "n' = n")
    case True
    then show ?thesis by (simp add: t)
  next
    case False
    then have "lim < fst st" "n \<le> n'" unfolding n'_def n_def lb[symmetric] by (auto split: if_splits)
    then show ?thesis unfolding t by (intro agree_longer) (auto simp: layout_def)
  qed
  ultimately show ?thesis by blast
qed


lemma put_char_text: "put_char lim sp c st = emit lim (char_text sp c) st"
  by (simp add: put_char_def char_text_def Let_def pad_loop_emit)

lemma put_string_text: "put_string lim sp s st = emit lim (string_text sp s) st"
proof -
  let ?s = "case s of None \<Rightarrow> ''(NULL)'' | Some s \<Rightarrow> s"
  let ?len = "if precision sp > 0 \<and> int (length ?s) > precision sp then precision sp else int (length ?s)"
  let ?t = "if precision sp > 0 then take (nat (precision sp)) ?s else ?s"
  have l: "?len = int (length ?t)" by auto
  have t: "take (nat ?len) ?s = ?t" by auto
  show ?thesis unfolding put_string_def string_text_def Let_def t unfolding l by (auto simp: pad_loop_emit)
qed

lemma vsn_number_text:
  assumes "number_conv sp base fl args = Some (args', t)"
  shows "\<exists>st'. vsn_number lim sp base fl args st = Some (args', st') \<and> agree lim (emit lim t st) st'"
proof -
  from assms obtain x where a: "arg_int args = Some (x, args')"
      "number_text (number_arg sp (SIGN fl) x) base (field_width sp) (precision sp) fl = Some t"
    by (auto simp: number_conv_def split: bind_splits)
  from print_number_text[OF a(2), of lim st] show ?thesis by (auto simp: vsn_number_def a(1))
qed

lemma vsn_convert_text:
  assumes "conv_text sp c args = Some (args', t)"
  shows "\<exists>st'. vsn_convert lim sp c args st = Some (args', st') \<and> agree lim (emit lim t st) st'"
proof -
  let ?fl = "sp_flags sp"
  consider "c = CHR ''c''" | "c = CHR ''s''" | "c = CHR ''p''" | "c \<notin> {CHR ''c'', CHR ''s'', CHR ''p''}" by blast
  then show ?thesis
  proof cases
    case 3
    define w where "w = (if field_width sp = -1 then 8 else field_width sp)"
    define fl where "fl = (if field_width sp = -1 then ?fl\<lparr>ZEROPAD := True\<rparr> else ?fl)"
    from assms 3 obtain x where a: "arg_int args = Some (x, args')" "number_text x 16 w (precision sp) fl = Some t"
      by (auto simp: conv_text_def w_def fl_def Let_def split: bind_splits if_splits)
    from print_number_text[OF a(2), of lim st] show ?thesis
      using 3 by (auto simp: vsn_convert_def Let_def a(1) w_def fl_def split: if_splits)
  next
    case 4
    then show ?thesis using assms vsn_number_text[of sp _ _ args args' t lim st]
      by (auto simp: conv_text_def vsn_convert_def Let_def simp del: split_paired_Ex split: if_splits)
  qed (use assms in \<open>auto simp: conv_text_def vsn_convert_def put_char_text put_string_text simp del: split_paired_Ex split: bind_splits\<close>)
qed

lemma vsn_loop_text:
  "format_text fmt args = Some t \<Longrightarrow> \<exists>st'. vsn_loop lim fmt args st = Some st' \<and> agree lim (emit lim t st) st'"
proof (induction lim fmt args st arbitrary: t rule: vsn_loop.induct)
  case (1 lim args st)
  then show ?case by simp
next
  case (2 lim c fmt args st)
  show ?case
  proof (cases "c = CHR ''%''")
    case False
    then show ?thesis using "2.IH"(1)[OF False] "2.prems" by auto
  next
    case True
    obtain sp fmt' args' where g: "get_spec fmt args = Some (sp, fmt', args')"
      using "2.prems" True by (auto split: option.splits)
    show ?thesis
    proof (cases fmt')
      case Nil
      then show ?thesis using "2.prems" True g by auto
    next
      case (Cons d rest)
      obtain args'' u v where cv: "conv_text sp d args' = Some (args'', u)" "format_text rest args'' = Some v" "t = u @ v"
        using "2.prems" True g Cons by (auto split: option.splits)
      obtain st1 where st1: "vsn_convert lim sp d args' st = Some (args'', st1)" "agree lim (emit lim u st) st1"
        using vsn_convert_text[OF cv(1)] by blast
      obtain st2 where st2: "vsn_loop lim rest args'' st1 = Some st2" "agree lim (emit lim v st1) st2"
        using "2.IH"(2)[OF _ g refl refl Cons st1(1) refl cv(2)] True by auto
      show ?thesis using True g Cons st1(1) st2 agree_trans[OF agree_emit[OF st1(2), of v]] by (auto simp: cv(3))
    qed
  qed
qed

lemma vsnprintf_text:
  assumes "format_text fmt args = Some t" and lim: "(if buf + sz - 1 < buf then 0xffffffff else buf + sz - 1) - buf = lim"
  shows "\<exists>n. rt_vsnprintf buf sz fmt args m =
      Some (n, \<lambda>i. if i < length t \<and> i < unat lim then t ! i else if i = min (length t) (unat lim) then CHR 0x00 else m i) \<and>
      (if length t \<le> unat lim then n = length t else length t \<le> n)"
proof -
  obtain n m' where v: "vsn_loop (unat lim) fmt args (0, m) = Some (n, m')" "agree (unat lim) (emit (unat lim) t (0, m)) (n, m')"
    using vsn_loop_text[OF assms(1), of "unat lim" "(0, m)"] by auto
  have m': "m' = (\<lambda>i. if i < length t \<and> i \<le> unat lim then t ! i else m i)"
    using v(2) by (auto simp: agree_def emit_effect)
  have n: "if length t \<le> unat lim then n = length t else length t \<le> n" using v(2) by (auto simp: agree_def emit_effect)
  have r: "rt_vsnprintf buf sz fmt args m = Some (n, if n \<le> unat lim then m'(n := CHR 0x00) else m'(unat lim := CHR 0x00))"
    unfolding rt_vsnprintf_def Let_def lim v(1) by simp
  have "(if n \<le> unat lim then m'(n := CHR 0x00) else m'(unat lim := CHR 0x00)) =
      (\<lambda>i. if i < length t \<and> i < unat lim then t ! i else if i = min (length t) (unat lim) then CHR 0x00 else m i)"
    using n by (auto simp: m' fun_eq_iff split: if_splits)
  then show ?thesis using r n by auto
qed







section \<open>Properties\<close>

lemma get_spec_plain: "c \<in> {CHR ''d'', CHR ''u'', CHR ''o'', CHR ''x''} \<Longrightarrow>
    get_spec [c] args = Some (\<lparr>sp_flags = no_flags, field_width = -1, precision = -1, qualifier = None\<rparr>, [c], args)"
proof -
  assume c: "c \<in> {CHR ''d'', CHR ''u'', CHR ''o'', CHR ''x''}"
  have "\<not> isdigit (CHR ''d'')" "\<not> isdigit (CHR ''u'')" "\<not> isdigit (CHR ''o'')" "\<not> isdigit (CHR ''x'')" by code_simp+
  then show ?thesis using c
    by (auto simp: get_spec_def get_width_def get_precision_def get_qualifier_def at_char_def at_digit_def)
qed





text \<open>The conversion %o prints the number in base 16: the division of print_number knows only the
  bases 10 and 16.\<close>

theorem octal_is_hexadecimal:
  "rt_snprintf buf sz ''%o'' [Arg_int x] m = rt_snprintf buf sz ''%x'' [Arg_int x] m"
proof -
  have d: "divide_digit num 8 = divide_digit num 16" for num by (simp add: divide_digit_def)
  have l: "digit_loop digits 8 num tmp = digit_loop digits 16 num tmp" for digits num tmp
    by (induction digits "8 :: nat" num tmp rule: digit_loop.induct) (subst (1 2) digit_loop.simps, simp add: d)
  have p: "print_number lim num 8 w pr fl st = print_number lim num 16 w pr fl st" for lim num w pr fl st
    unfolding print_number_def l ..
  show ?thesis by (simp add: rt_snprintf_def rt_vsnprintf_def get_spec_plain vsn_convert_def vsn_number_def p)
qed

text \<open>With a size of zero, and in rt_vsprintf and rt_sprintf, the buffer is taken to reach to the end of
  the address space: the whole text is stored.\<close>

lemma snprintf_size_zero:
  assumes "format_text fmt args = Some t" and "0 < buf" and "unat buf + length t < 2 ^ 32"
  shows "rt_snprintf buf 0 fmt args m = Some (length t, \<lambda>i. if i < length t then t ! i else if i = length t then CHR 0x00 else m i)"
    and "1 < buf \<Longrightarrow> rt_sprintf buf fmt args m = rt_snprintf buf 0 fmt args m"
proof -
  let ?lim = "0xffffffff - buf"
  have "unat ?lim = 0xffffffff - unat buf" using unsigned_less[of buf, where ?'a = nat] by (subst unat_sub) (simp_all add: word_le_nat_alt)
  then have len: "length t \<le> unat ?lim" using assms(3) by simp
  have "buf - 1 < buf" using assms(2) by (simp add: word_less_nat_alt unat_minus_one word_gt_0 unat_gt_0)
  then have "(if buf + 0 - 1 < buf then 0xffffffff else buf + 0 - 1) - buf = ?lim" by simp
  from vsnprintf_text[OF assms(1) this, of m] len
  show z: "rt_snprintf buf 0 fmt args m = Some (length t, \<lambda>i. if i < length t then t ! i else if i = length t then CHR 0x00 else m i)"
    unfolding rt_snprintf_def by (auto simp: fun_eq_iff)
  assume "1 < buf"
  then have "buf + - 1 - 1 < buf" by (simp add: word_less_nat_alt unat_sub_if_size)
  then have "rt_sprintf buf fmt args m = rt_vsnprintf buf 0 fmt args m"
    unfolding rt_sprintf_def rt_vsprintf_def rt_vsnprintf_def using \<open>buf - 1 < buf\<close> by simp
  then show "rt_sprintf buf fmt args m = rt_snprintf buf 0 fmt args m" by (simp add: rt_snprintf_def)
qed

end
