(* ===== verification/Soft_Timer.thy ===== *)
theory Soft_Timer
  imports Ipc
begin

text \<open>
  The rest of rt-thread/src/timer.c: timers in allocated memory, and the timer thread, which waits
  for the next soft timer and checks the soft timer list.  The loop of the check keeps a pointer to
  the next node while a timeout function runs with the scheduler unlocked.  Like the check in the
  tick interrupt it is a partial function.
\<close>

section \<open>Operations\<close>

definition rt_timer_create ::
  "nat option \<Rightarrow> u8 list \<Rightarrow> timeout_func \<Rightarrow> u32 \<Rightarrow> u8 \<Rightarrow> kernel \<Rightarrow> (timer_id option \<times> kernel) option" where
  "rt_timer_create mem name timeout time flag k =
     do { (ob, k) \<leftarrow> rt_object_allocate (map_option (\<lambda>u. ObjTimer (UserTimer u)) mem) RT_Object_Class_Timer name k;
          case mem of
            None \<Rightarrow> Some (None, k)
          | Some u \<Rightarrow> do { k \<leftarrow> timer_init_core (UserTimer u) timeout time flag k; Some (Some (UserTimer u), k) } }"

definition rt_timer_delete :: "timer_id \<Rightarrow> kernel \<Rightarrow> (rt_err \<times> kernel) option" where
  "rt_timer_delete i k = do { k \<leftarrow> rt_object_delete (ObjTimer i) (timer_remove i k); Some (RT_EOK, k) }"

text \<open>The next pointer of the node of a timer: the node behind it in the soft timer list, where
  None is the head of the list.  A node that was removed is linked to itself.\<close>

definition soft_next :: "timer_id \<Rightarrow> kernel \<Rightarrow> timer_id option" where
  "soft_next i k =
     (if i \<in> set (rt_soft_timer_list k)
      then case tl (dropWhile (\<lambda>j. j \<noteq> i) (rt_soft_timer_list k)) of [] \<Rightarrow> None | j # _ \<Rightarrow> Some j
      else Some i)"

definition soft_first :: "kernel \<Rightarrow> timer_id option" where
  "soft_first k = (case rt_soft_timer_list k of [] \<Rightarrow> None | j # _ \<Rightarrow> Some j)"

text \<open>The body of the loop for a timer that is due.  The scheduler is unlocked around the timeout
  function: whatever else runs meanwhile is part of its effect.\<close>

definition soft_timer_round :: "callbacks \<Rightarrow> timer_id \<Rightarrow> kernel \<Rightarrow> (timer_id option \<times> u32 \<times> kernel) option" where
  "soft_timer_round cb t k =
     do { let n = soft_next t k;
          let k = timer_remove t k;
          k \<leftarrow> rt_exit_critical k;
          k \<leftarrow> timeout_call cb (tm_timeout_func (timers k t)) k;
          let current_tick = rt_tick_get k;
          let k = rt_enter_critical k;
          k \<leftarrow> timer_rearm t k;
          Some (n, current_tick, k) }"

partial_function (option) soft_timer_loop :: "callbacks \<Rightarrow> u32 \<Rightarrow> timer_id option \<Rightarrow> kernel \<Rightarrow> kernel option" where
  "soft_timer_loop cb current_tick n k =
     (case n of
        None \<Rightarrow> Some k
      | Some t \<Rightarrow>
          if current_tick - tm_timeout_tick (timers k t) < TICK_HALF
          then do { (n, current_tick, k) \<leftarrow> soft_timer_round cb t k;
                    soft_timer_loop cb current_tick n k }
          else Some k)"

definition rt_soft_timer_check :: "callbacks \<Rightarrow> kernel \<Rightarrow> kernel option" where
  "rt_soft_timer_check cb k =
     do { let current_tick = rt_tick_get k;
          let k = rt_enter_critical k;
          k \<leftarrow> soft_timer_loop cb current_tick (soft_first k) k;
          rt_exit_critical k }"

text \<open>One round of the timer thread: the part before the check, in which the thread may be
  suspended, and the check.\<close>

definition timer_entry_wait :: "kernel \<Rightarrow> (unit outcome \<times> kernel) option" where
  "timer_entry_wait k =
     (let next_timeout = rt_timer_list_next_timeout (rt_soft_timer_list k) k
      in if next_timeout = RT_TICK_MAX
         then do { t \<leftarrow> rt_thread_self k;
                   (_, k) \<leftarrow> rt_thread_suspend t k;
                   k \<leftarrow> rt_schedule k;
                   Some (Blocked, k) }
         else let current_tick = rt_tick_get k
              in if next_timeout - current_tick < TICK_HALF
                 then do { k \<leftarrow> rt_thread_delay (next_timeout - current_tick) k; Some (Blocked, k) }
                 else Some (Return (), k))"

definition rt_thread_timer_entry :: "callbacks \<Rightarrow> kernel \<Rightarrow> (unit outcome \<times> kernel) option" where
  "rt_thread_timer_entry cb k =
     do { (r, k) \<leftarrow> timer_entry_wait k;
          case r of
            Blocked \<Rightarrow> Some (Blocked, k)
          | Return _ \<Rightarrow> do { k \<leftarrow> rt_soft_timer_check cb k; Some (Return (), k) } }"

text \<open>How the round goes on when the thread runs again; delayed tells which wait it was in.\<close>

definition rt_thread_timer_entry_resumed :: "callbacks \<Rightarrow> bool \<Rightarrow> kernel \<Rightarrow> kernel option" where
  "rt_thread_timer_entry_resumed cb delayed k =
     rt_soft_timer_check cb (if delayed then rt_thread_sleep_resumed timer_thread k else k)"

abbreviation RT_TIMER_THREAD_PRIO :: u8 where "RT_TIMER_THREAD_PRIO \<equiv> 4"
abbreviation RT_TIMER_THREAD_STACK_SIZE :: u32 where "RT_TIMER_THREAD_STACK_SIZE \<equiv> 4096"

definition rt_system_timer_thread_init :: "u32 \<Rightarrow> u32 \<Rightarrow> u32 \<Rightarrow> kernel \<Rightarrow> kernel option" where
  "rt_system_timer_thread_init entry stack texit k =
     do { let k = k\<lparr>rt_soft_timer_list := []\<rparr>;
          k \<leftarrow> rt_thread_init timer_thread [0x74, 0x69, 0x6d, 0x65, 0x72] entry 0 stack
                 RT_TIMER_THREAD_STACK_SIZE RT_TIMER_THREAD_PRIO 10 texit k;
          rt_thread_startup timer_thread k }"

section \<open>A check\<close>

type_synonym ipc_objects =
  "(nat \<Rightarrow> rt_semaphore) \<times> (nat \<Rightarrow> rt_mutex) \<times> (nat \<Rightarrow> rt_event) \<times> (nat \<Rightarrow> rt_mailbox) \<times> (nat \<Rightarrow> rt_messagequeue)"

definition ipc_objects :: "kernel \<Rightarrow> ipc_objects" where
  "ipc_objects k = (sems k, mutexes k, events k, mailboxes k, mqueues k)"

definition set_ipc_objects :: "ipc_objects \<Rightarrow> kernel \<Rightarrow> kernel" where
  "set_ipc_objects x k = (case x of (s, m, e, b, q) \<Rightarrow> k\<lparr>sems := s, mutexes := m, events := e, mailboxes := b, mqueues := q\<rparr>)"

text \<open>Timeout functions that change the contents of IPC objects.\<close>

definition data_callbacks :: "(nat \<Rightarrow> ipc_objects \<Rightarrow> ipc_objects) \<Rightarrow> callbacks" where
  "data_callbacks g n k = Some (set_ipc_objects (g n (ipc_objects k)) k)"

definition timer_due :: "u32 \<Rightarrow> kernel \<Rightarrow> timer_id \<Rightarrow> bool" where
  "timer_due tick k i \<longleftrightarrow> tick - tm_timeout_tick (timers k i) < TICK_HALF"

definition user_func :: "kernel \<Rightarrow> timer_id \<Rightarrow> nat" where
  "user_func k i = (case tm_timeout_func (timers k i) of User_func n \<Rightarrow> n | Thread_timeout _ \<Rightarrow> 0)"

text \<open>The state in a check that was begun in k0: the due timers left are ds, and none of the others
  in the list, zs, is due.\<close>

definition soft_inv :: "kernel \<Rightarrow> timer_id list \<Rightarrow> timer_id list \<Rightarrow> kernel \<Rightarrow> bool" where
  "soft_inv k0 ds zs k \<longleftrightarrow>
     sched_ok k \<and> timers_base k \<and> thread_stat k timer_thread = RT_THREAD_READY \<and> rt_scheduler_lock_nest k = 1 \<and>
     rt_tick k = rt_tick k0 \<and> rt_timer_list k = rt_timer_list k0 \<and> rt_soft_timer_list k = ds @ zs \<and>
     (\<forall>z \<in> set zs. \<not> timer_due (rt_tick k0) k z) \<and>
     (\<forall>d \<in> set ds. timers k d = timers k0 d \<and> timer_due (rt_tick k0) k0 d) \<and>
     (\<forall>i. timer_periodic k i = timer_periodic k0 i \<and> timer_soft k i = timer_soft k0 i)"

lemma set_ipc_objects_sel [simp]:
  "ipc_objects (set_ipc_objects x k) = x"
  "timers (set_ipc_objects x k) = timers k" "threads (set_ipc_objects x k) = threads k" "objs (set_ipc_objects x k) = objs k"
  "rt_tick (set_ipc_objects x k) = rt_tick k" "rt_timer_list (set_ipc_objects x k) = rt_timer_list k"
  "rt_soft_timer_list (set_ipc_objects x k) = rt_soft_timer_list k" "tlists (set_ipc_objects x k) = tlists k"
  "on_list (set_ipc_objects x k) = on_list k" "rt_scheduler_lock_nest (set_ipc_objects x k) = rt_scheduler_lock_nest k"
  "rt_thread_ready_priority_group (set_ipc_objects x k) = rt_thread_ready_priority_group k"
  by (cases x; simp add: set_ipc_objects_def ipc_objects_def)+


lemma timer_insert_skip:
  "(\<And>j. j \<in> set ds \<Longrightarrow> tt j - tt i = 0 \<or> \<not> tt j - tt i < TICK_HALF) \<Longrightarrow> timer_insert tt i (ds @ zs) = ds @ timer_insert tt i zs"
  by (induction ds) auto

lemma unat_uminus: "s \<noteq> 0 \<Longrightarrow> unat (- s) = 2 ^ 32 - unat s" for s :: u32
  using unat_sub_if_size[of "0 :: u32" s] by (simp add: word_size unat_eq_zero)

text \<open>A timer restarted at this tick is behind the due ones and not due itself.\<close>

lemma restart_behind:
  fixes x t tick :: u32
  assumes "unat (tick - t) + unat x \<le> 2 ^ 31"
  shows "t - (tick + x) = 0 \<or> \<not> t - (tick + x) < TICK_HALF"
proof -
  define s where "s = (tick - t) + x"
  have e: "t - (tick + x) = - s" by (simp add: s_def)
  have "unat (tick - t) + unat x < 2 ^ LENGTH(32)" using assms by simp
  then have "unat s = unat (tick - t) + unat x" unfolding s_def by (simp only: unat_add_lem)
  then have "unat s \<le> 2 ^ 31" using assms by simp
  then have "s = 0 \<or> 2 ^ 31 \<le> unat (- s)" by (cases "s = 0") (simp_all add: unat_uminus)
  then show ?thesis unfolding e by (auto simp: word_less_nat_alt)
qed

lemma restart_not_due: "0 < x \<Longrightarrow> x < TICK_HALF \<Longrightarrow> \<not> tick - (tick + x) < TICK_HALF" for x tick :: u32
proof -
  assume "0 < x" "x < TICK_HALF"
  then have "x \<noteq> 0" "unat x < 0x7fffffff" by (auto simp: word_less_nat_alt)
  then have "\<not> - x < TICK_HALF" by (simp add: word_less_nat_alt unat_uminus)
  then show ?thesis by simp
qed

definition rearmed :: "kernel \<Rightarrow> timer_id \<Rightarrow> kernel \<Rightarrow> bool" where
  "rearmed k0 d k \<longleftrightarrow>
     (if timer_periodic k0 d
      then timer_active k d \<and> timers k d = (timers k0 d)\<lparr>tm_timeout_tick := rt_tick k0 + tm_init_tick (timers k0 d)\<rparr>
      else \<not> timer_active k d)"

text \<open>What a periodic timer needs so that it does not overtake the due ones when it is restarted.\<close>

definition soft_periods :: "kernel \<Rightarrow> timer_id list \<Rightarrow> bool" where
  "soft_periods k0 ds \<longleftrightarrow>
     (\<forall>p \<in> set ds. timer_periodic k0 p \<longrightarrow> 0 < tm_init_tick (timers k0 p) \<and> tm_init_tick (timers k0 p) < TICK_HALF \<and>
        (\<forall>d \<in> set ds. unat (rt_tick k0 - tm_timeout_tick (timers k0 d)) + unat (tm_init_tick (timers k0 p)) \<le> 2 ^ 31))"

lemma rearm_ok:
  assumes so: "sched_ok k" and tb: "timers_base k" and rd: "thread_stat k timer_thread = RT_THREAD_READY"
    and d: "\<not> timer_linked k d" "timer_active k d" "timer_soft k d" "d = UserTimer u"
    and per: "timer_periodic k d \<Longrightarrow> 0 < tm_init_tick (timers k d) \<and> tm_init_tick (timers k d) < TICK_HALF"
  shows "\<exists>k'. timer_rearm d k = Some k' \<and> sched_ok k' \<and> timers_base k' \<and> threads k' = threads k \<and>
     rt_scheduler_lock_nest k' = rt_scheduler_lock_nest k \<and> rt_tick k' = rt_tick k \<and> rt_timer_list k' = rt_timer_list k \<and>
     ipc_objects k' = ipc_objects k \<and>
     (\<forall>i. timer_periodic k' i = timer_periodic k i \<and> timer_soft k' i = timer_soft k i \<and> (i \<noteq> d \<longrightarrow> timer_active k' i = timer_active k i)) \<and>
     (if timer_periodic k d
      then timer_active k' d \<and> timers k' = (timers k)(d := (timers k d)\<lparr>tm_timeout_tick := rt_tick k + tm_init_tick (timers k d)\<rparr>) \<and>
           rt_soft_timer_list k' = timer_insert (\<lambda>j. tm_timeout_tick (timers k' j)) d (rt_soft_timer_list k)
      else \<not> timer_active k' d \<and> timers k' = timers k \<and> rt_soft_timer_list k' = rt_soft_timer_list k)"
proof -
  let ?k = "timer_deactivate d k"
  have tb1: "timers_base ?k" by (rule timers_base_deactivate[OF tb d(1)])
  have so1: "sched_ok ?k" using so by simp
  have same1: "ipc_objects ?k = ipc_objects k" "rt_scheduler_lock_nest ?k = rt_scheduler_lock_nest k"
    by (simp_all add: ipc_objects_def timer_deactivate_def upd_obj_def)
  show ?thesis
  proof (cases "timer_periodic k d")
    case False
    then have "timer_rearm d k = Some ?k" by (simp add: timer_rearm_def)
    then show ?thesis using False so1 tb1 same1 by simp
  next
    case True
    then have x: "tm_init_tick (timers ?k d) < TICK_HALF" using per by simp
    from timer_start_core_ok[OF tb1 x] d(4) obtain k' where k': "timer_start_core d ?k = Some k'" "timers_base k'" by blast
    from timer_start_core_eq[OF x] k'(1) d(3) have
      e: "timers k' = (timers k)(d := (timers k d)\<lparr>tm_timeout_tick := rt_tick k + tm_init_tick (timers k d)\<rparr>)"
         "rt_timer_list k' = remove1 d (rt_timer_list k)"
         "rt_soft_timer_list k' = timer_insert (\<lambda>j. tm_timeout_tick (timers k' j)) d (remove1 d (rt_soft_timer_list k))"
         "\<forall>j. timer_active k' j \<longleftrightarrow> j = d \<or> timer_active ?k j"
         "\<forall>j. timer_soft k' j = timer_soft k j" "\<forall>j. timer_periodic k' j = timer_periodic k j" by auto
    note fr = timer_start_core_frame[OF k'(1)]
    have same: "threads k' = threads k" "tlists k' = tlists k" "on_list k' = on_list k" "rt_tick k' = rt_tick k"
      "rt_thread_ready_priority_group k' = rt_thread_ready_priority_group k" "rt_scheduler_lock_nest k' = rt_scheduler_lock_nest k"
      "ipc_objects k' = ipc_objects k"
      by (subst fr, simp add: timer_deactivate_def upd_obj_def ipc_objects_def)+
    have "sched_ok k'" using so by (subst sched_ok_cong[of _ _ k]) (simp_all add: same)
    moreover have "rt_timer_start d ?k = Some k'"
      using k'(1) rd same(1) by (simp add: rt_timer_start_def)
    then have "timer_rearm d k = Some k'" using True d(2) by (simp add: timer_rearm_def)
    moreover have "remove1 d (rt_timer_list k) = rt_timer_list k" "remove1 d (rt_soft_timer_list k) = rt_soft_timer_list k"
      using d(1) by (simp_all add: timer_linked_def remove1_idem)
    ultimately show ?thesis using True k'(2) e same by simp
  qed
qed


lemma soft_round_ok:
  assumes inv: "soft_inv k0 (d # ds) zs k" and per: "soft_periods k0 (d # ds)"
  shows "\<exists>k' zs'. soft_timer_round (data_callbacks g) d k = Some (case ds @ zs of [] \<Rightarrow> None | j # _ \<Rightarrow> Some j, rt_tick k0, k') \<and>
     soft_inv k0 ds zs' k' \<and> (ds = [] \<longrightarrow> (\<forall>z \<in> set zs. \<not> timer_due (rt_tick k0) k' z)) \<and>
     ipc_objects k' = g (user_func k0 d) (ipc_objects k) \<and> set zs' = set zs \<union> (if timer_periodic k0 d then {d} else {}) \<and>
     rearmed k0 d k' \<and> (\<forall>i. i \<noteq> d \<longrightarrow> timers k' i = timers k i \<and> timer_active k' i = timer_active k i)"
proof -
  have i: "sched_ok k" "timers_base k" "thread_stat k timer_thread = RT_THREAD_READY" "rt_scheduler_lock_nest k = 1"
    "rt_tick k = rt_tick k0" "rt_timer_list k = rt_timer_list k0" "rt_soft_timer_list k = d # ds @ zs"
    "\<forall>z \<in> set zs. \<not> timer_due (rt_tick k0) k z" "\<forall>x \<in> set (d # ds). timers k x = timers k0 x \<and> timer_due (rt_tick k0) k0 x"
    "\<forall>i. timer_periodic k i = timer_periodic k0 i \<and> timer_soft k i = timer_soft k0 i"
    using inv by (simp_all add: soft_inv_def)
  have dist: "distinct (d # ds @ zs)" and act: "timer_active k d" "timer_soft k d" and nh: "d \<notin> set (rt_timer_list k)"
    using i(2,7) by (auto simp: timers_base_def)
  obtain u where u: "d = UserTimer u" using i(2,7) by (cases d) (auto simp: timers_base_def)
  obtain n where n: "tm_timeout_func (timers k d) = User_func n"
    using i(2) u by (cases "tm_timeout_func (timers k d)") (auto simp: timers_base_def)
  define k1 where "k1 = timer_remove d k"
  have k1: "sched_ok k1" "timers_base k1" "thread_stat k1 timer_thread = RT_THREAD_READY" "rt_scheduler_lock_nest k1 = 1"
    "rt_soft_timer_list k1 = ds @ zs" "rt_timer_list k1 = rt_timer_list k" "ipc_objects k1 = ipc_objects k"
    using i nh timers_base_remove[OF i(2), of d] unfolding k1_def
    by (simp_all add: remove1_idem) (simp_all add: timer_remove_def ipc_objects_def)
  obtain p c where k2: "rt_exit_critical k1 = Some (k1\<lparr>rt_scheduler_lock_nest := 0, rt_current_priority := p, rt_current_thread := c\<rparr>)"
    using leave_critical[OF k1(1,3,4)] by blast
  define k2 where "k2 = k1\<lparr>rt_scheduler_lock_nest := 0, rt_current_priority := p, rt_current_thread := c\<rparr>"
  define k4 where "k4 = rt_enter_critical (set_ipc_objects (g n (ipc_objects k2)) k2)"
  have same: "timers k4 = timers k" "threads k4 = threads k" "objs k4 = objs k" "rt_tick k4 = rt_tick k0"
    "rt_timer_list k4 = rt_timer_list k0" "rt_soft_timer_list k4 = ds @ zs" "tlists k4 = tlists k1" "on_list k4 = on_list k1"
    "rt_thread_ready_priority_group k4 = rt_thread_ready_priority_group k1" "rt_scheduler_lock_nest k4 = 1"
    "threads k1 = threads k" "timers k1 = timers k" "objs k1 = objs k" "timers k2 = timers k" "rt_tick k2 = rt_tick k0"
    by (simp_all add: k4_def k2_def k1_def rt_enter_critical_def i remove1_idem nh[unfolded i(6)])
  have ipc: "ipc_objects k4 = g n (ipc_objects k)"
    using set_ipc_objects_sel(1)[of "g n (ipc_objects k2)" k2] k1(7) by (simp add: k4_def k2_def ipc_objects_def rt_enter_critical_def)
  have so4: "sched_ok k4" using k1(1) by (subst sched_ok_cong[of _ _ k1]) (simp_all add: same)
  have tb4: "timers_base k4" using k1(2) by (subst timers_base_cong[of _ k1]) (simp_all add: same k1 i(6))
  have fl: "timer_active k4 = timer_active k" "timer_soft k4 = timer_soft k" "timer_periodic k4 = timer_periodic k"
    by (rule timer_flag_frame; simp add: same)+
  have nl: "\<not> timer_linked k4 d" using dist nh i(6) by (auto simp: timer_linked_def same)
  have td: "timers k d = timers k0 d" using i(9) by simp
  have pd: "0 < tm_init_tick (timers k4 d) \<and> tm_init_tick (timers k4 d) < TICK_HALF" if "timer_periodic k4 d"
    using per that i(10) by (simp add: soft_periods_def fl same td)
  have r: "thread_stat k4 timer_thread = RT_THREAD_READY" "timer_active k4 d" "timer_soft k4 d" using i(3) act by (simp_all add: same fl)
  have pk: "timer_periodic k = timer_periodic k0" "timer_soft k = timer_soft k0" using i(10) by (simp_all add: fun_eq_iff)
  obtain k' where k': "timer_rearm d k4 = Some k'"
    "sched_ok k'" "timers_base k'" "threads k' = threads k" "rt_scheduler_lock_nest k' = 1" "rt_tick k' = rt_tick k0"
    "rt_timer_list k' = rt_timer_list k0" "ipc_objects k' = g n (ipc_objects k)"
    "\<forall>i. timer_periodic k' i = timer_periodic k0 i \<and> timer_soft k' i = timer_soft k0 i \<and> (i \<noteq> d \<longrightarrow> timer_active k' i = timer_active k i)"
    and c: "if timer_periodic k0 d
      then timer_active k' d \<and> timers k' = (timers k)(d := (timers k0 d)\<lparr>tm_timeout_tick := rt_tick k0 + tm_init_tick (timers k0 d)\<rparr>) \<and>
           rt_soft_timer_list k' = timer_insert (\<lambda>j. tm_timeout_tick (timers k' j)) d (ds @ zs)
      else \<not> timer_active k' d \<and> timers k' = timers k \<and> rt_soft_timer_list k' = ds @ zs"
    using rearm_ok[OF so4 tb4 r(1) nl r(2,3) u pd] unfolding same fl ipc td pk by blast
  have run: "soft_timer_round (data_callbacks g) d k = Some (case ds @ zs of [] \<Rightarrow> None | j # _ \<Rightarrow> Some j, rt_tick k0, k')"
    using k'(1) k2 same(4) unfolding soft_timer_round_def Let_def k1_def[symmetric] k2_def[symmetric] k4_def
    by (simp add: soft_next_def i(7) timeout_call_def same n data_callbacks_def rt_tick_get_def k2_def[symmetric])
  have n0: "user_func k0 d = n" using n td by (simp add: user_func_def)
  have stay: "timers k' i = timers k i" if "i \<noteq> d" for i using c that by (simp split: if_splits)
  have ndz: "\<not> timer_due (rt_tick k0) k' z" if "z \<in> set zs" for z
  proof -
    have "z \<noteq> d" using that dist by auto
    then show ?thesis using i(8) that stay[of z] by (simp add: timer_due_def)
  qed
  have due: "timers k' x = timers k0 x" if "x \<in> set ds" for x using that dist i(9) stay[of x] by auto
  define zs' where "zs' = (if timer_periodic k0 d then timer_insert (\<lambda>j. tm_timeout_tick (timers k' j)) d zs else zs)"
  have "rt_soft_timer_list k' = ds @ zs' \<and> (\<forall>z \<in> set zs'. \<not> timer_due (rt_tick k0) k' z)"
  proof (cases "timer_periodic k0 d")
    case True
    let ?x = "tm_init_tick (timers k0 d)" and ?tt = "\<lambda>j. tm_timeout_tick (timers k' j)"
    have x: "0 < ?x" "?x < TICK_HALF" "\<And>j. j \<in> set (d # ds) \<Longrightarrow> unat (rt_tick k0 - tm_timeout_tick (timers k0 j)) + unat ?x \<le> 2 ^ 31"
      using per True by (auto simp: soft_periods_def)
    have tt: "?tt d = rt_tick k0 + ?x" using c True by simp
    have "timer_insert ?tt d (ds @ zs) = ds @ timer_insert ?tt d zs"
      using restart_behind[OF x(3)] due unfolding tt by (intro timer_insert_skip) (simp add: tt)
    moreover have "\<not> timer_due (rt_tick k0) k' d" using restart_not_due[OF x(1,2)] by (simp add: timer_due_def tt)
    ultimately show ?thesis using True c ndz by (auto simp: zs'_def)
  next
    case False
    then show ?thesis using c ndz by (simp add: zs'_def)
  qed
  then have "soft_inv k0 ds zs' k'" using k' i(3,9) due by (simp add: soft_inv_def)
  moreover have "set zs' = set zs \<union> (if timer_periodic k0 d then {d} else {})" by (simp add: zs'_def)
  moreover have "rearmed k0 d k'" using c by (simp add: rearmed_def)
  ultimately show ?thesis using run k'(8,9) n0 stay ndz by blast
qed

text \<open>The whole loop.\<close>

lemma soft_loop_ok:
  assumes "soft_inv k0 ds zs k" and "soft_periods k0 ds"
  shows "\<exists>k' zs'. soft_timer_loop (data_callbacks g) (rt_tick k0) (soft_first k) k = Some k' \<and> soft_inv k0 [] zs' k' \<and>
     ipc_objects k' = fold (\<lambda>d. g (user_func k0 d)) ds (ipc_objects k) \<and>
     set zs' = set zs \<union> {p \<in> set ds. timer_periodic k0 p} \<and> (\<forall>d \<in> set ds. rearmed k0 d k') \<and>
     (\<forall>i. i \<notin> set ds \<longrightarrow> timers k' i = timers k i \<and> timer_active k' i = timer_active k i)"
  using assms
proof (induction ds arbitrary: zs k)
  case Nil
  then have l: "rt_soft_timer_list k = zs" "\<forall>z \<in> set zs. \<not> timer_due (rt_tick k0) k z" by (simp_all add: soft_inv_def)
  have "soft_timer_loop (data_callbacks g) (rt_tick k0) (soft_first k) k = Some k"
    using l by (subst soft_timer_loop.simps) (cases zs; simp add: soft_first_def timer_due_def)
  then show ?case using Nil by auto
next
  case (Cons d ds)
  have l: "rt_soft_timer_list k = d # ds @ zs" "timer_due (rt_tick k0) k d" and dist: "distinct (d # ds @ zs)"
    using Cons.prems(1) by (auto simp: soft_inv_def timer_due_def timers_base_def)
  from soft_round_ok[OF Cons.prems, of g] obtain k1 zs1 where
    r: "soft_timer_round (data_callbacks g) d k = Some (case ds @ zs of [] \<Rightarrow> None | j # _ \<Rightarrow> Some j, rt_tick k0, k1)"
      "soft_inv k0 ds zs1 k1" "ds = [] \<longrightarrow> (\<forall>z \<in> set zs. \<not> timer_due (rt_tick k0) k1 z)"
      "ipc_objects k1 = g (user_func k0 d) (ipc_objects k)" "set zs1 = set zs \<union> (if timer_periodic k0 d then {d} else {})"
      "rearmed k0 d k1" "\<forall>i. i \<noteq> d \<longrightarrow> timers k1 i = timers k i \<and> timer_active k1 i = timer_active k i"
    by blast
  have "soft_periods k0 ds" using Cons.prems(2) by (auto simp: soft_periods_def)
  from Cons.IH[OF r(2) this] obtain k' zs' where
    k': "soft_timer_loop (data_callbacks g) (rt_tick k0) (soft_first k1) k1 = Some k'" "soft_inv k0 [] zs' k'"
      "ipc_objects k' = fold (\<lambda>d. g (user_func k0 d)) ds (ipc_objects k1)"
      "set zs' = set zs1 \<union> {p \<in> set ds. timer_periodic k0 p}" "\<forall>d \<in> set ds. rearmed k0 d k'"
      "\<forall>i. i \<notin> set ds \<longrightarrow> timers k' i = timers k1 i \<and> timer_active k' i = timer_active k1 i" by blast
  have n: "soft_timer_loop (data_callbacks g) (rt_tick k0) (case ds @ zs of [] \<Rightarrow> None | j # _ \<Rightarrow> Some j) k1 = Some k'"
  proof (cases ds)
    case (Cons e es)
    then have "soft_first k1 = Some e" using r(2) by (simp add: soft_inv_def soft_first_def)
    then show ?thesis using k'(1) Cons by simp
  next
    case Nil
    then have "k' = k1" using k'(1) r(2) by (subst (asm) soft_timer_loop.simps) (auto simp: soft_inv_def soft_first_def timer_due_def split: list.splits)
    then show ?thesis using Nil r(3) by (subst soft_timer_loop.simps) (auto simp: timer_due_def split: list.splits)
  qed
  have "soft_timer_loop (data_callbacks g) (rt_tick k0) (soft_first k) k = Some k'"
    using l r(1) n by (subst soft_timer_loop.simps) (simp add: soft_first_def timer_due_def)
  moreover have "rearmed k0 d k'" using r(6) k'(6) dist by (auto simp: rearmed_def)
  ultimately show ?case using k' r(4,5,7) by (intro exI[of _ k'] exI[of _ zs']) auto
qed



section \<open>A stopped timer\<close>



lemma deactivate_nest [simp]: "rt_scheduler_lock_nest (timer_deactivate i k) = rt_scheduler_lock_nest k"
  "rt_scheduler_lock_nest (timer_remove i k) = rt_scheduler_lock_nest k"
  by (simp_all add: timer_deactivate_def timer_remove_def upd_obj_def)




text \<open>The example system with the timer thread running and three soft timers that are due, the
  last one periodic.\<close>

definition ex_soft :: kernel where
  "ex_soft = ex_kernel\<lparr>rt_tick := 120,
     threads := (threads ex_kernel)(1 := ex_thread RT_THREAD_READY 4),
     tlists := (tlists ex_kernel)(ReadyQ 4 := [1]), on_list := (on_list ex_kernel)(1 := Some (ReadyQ 4)),
     rt_thread_ready_priority_group := push_bit 31 1 OR push_bit 10 1 OR push_bit 4 1,
     rt_current_thread := Some 1, rt_current_priority := 4,
     objs := (objs ex_kernel)
       (ObjTimer (UserTimer 1) := \<lparr>ob_name = [], ob_type = 0x89, ob_flag = RT_TIMER_FLAG_ACTIVATED OR RT_TIMER_FLAG_SOFT_TIMER\<rparr>,
        ObjTimer (UserTimer 2) := \<lparr>ob_name = [], ob_type = 0x89, ob_flag = RT_TIMER_FLAG_ACTIVATED OR RT_TIMER_FLAG_SOFT_TIMER\<rparr>,
        ObjTimer (UserTimer 3) := \<lparr>ob_name = [], ob_type = 0x89,
          ob_flag = RT_TIMER_FLAG_ACTIVATED OR RT_TIMER_FLAG_PERIODIC OR RT_TIMER_FLAG_SOFT_TIMER\<rparr>),
     rt_soft_timer_list := [UserTimer 1, UserTimer 2, UserTimer 3]\<rparr>"

lemma ex_soft_sched_ok: "sched_ok ex_soft"
proof -
  have "(0x80000410 :: u32) = push_bit 31 1 OR push_bit 10 1 OR push_bit 4 1" by simp
  then have "bit (0x80000410 :: u32) p \<longleftrightarrow> p = 31 \<or> p = 10 \<or> p = 4" if "p < 32" for p
    using that by (auto simp only: bit_or_iff bit_push_bit_iff bit_1_iff possible_bit_word) simp_all
  then have "group_ok ex_soft" by (auto simp: group_ok_def ex_soft_def ex_kernel_def)
  moreover have "thread_ok (threads ex_soft t) (on_list ex_soft t)" for t
    using ex_thread_ok(1)[of 31] ex_thread_ok(1)[of 10] ex_thread_ok(1)[of 4]
    by (simp add: ex_soft_def ex_kernel_def ex_thread_ok)
  moreover have "lists_ok ex_soft" by (auto simp: lists_ok_def ex_soft_def ex_kernel_def)
  ultimately show ?thesis by (simp add: sched_ok_but_def)
qed

lemma ex_soft_flags:
  "timer_active ex_soft i \<longleftrightarrow> i \<in> {ThreadTimer 3, UserTimer 0, UserTimer 1, UserTimer 2, UserTimer 3}"
  "timer_soft ex_soft i \<longleftrightarrow> i \<in> {UserTimer 1, UserTimer 2, UserTimer 3}" "timer_periodic ex_soft i \<longleftrightarrow> i = UserTimer 3"
  by (auto simp: timer_active_def timer_soft_def timer_periodic_def ex_soft_def ex_kernel_def)

lemma ex_soft_timers_base: "timers_base ex_soft"
  by (simp add: timers_base_def thread_timer_ok_def ex_soft_flags)
     (simp add: ex_soft_def ex_kernel_def ex_thread_def ex_blank_def)

lemma ex_soft_sel:
  "thread_stat ex_soft timer_thread = RT_THREAD_READY" "rt_scheduler_lock_nest ex_soft = 0" "rt_tick ex_soft = 120"
  "rt_soft_timer_list ex_soft = [UserTimer 1, UserTimer 2, UserTimer 3]"
  "timers ex_soft (UserTimer u) = \<lparr>tm_timeout_func = User_func u, tm_init_tick = 10, tm_timeout_tick = 110\<rparr>"
  by (simp_all add: ex_soft_def ex_kernel_def timer_thread_def ex_thread_def)

lemma ex_soft_due: "timer_due (rt_tick ex_soft) ex_soft (UserTimer u)"
  by (simp add: timer_due_def ex_soft_sel)

section \<open>Properties\<close>

text \<open>C16: A check of the soft timers by the timer thread ends, provided that the timeout functions
  change nothing but the contents of IPC objects and that no periodic timer is due too late.  It
  calls the timeout function of every due timer once, in the order of the list.  Afterwards no timer
  of the list is due, a one-shot timer that was due is stopped, a periodic one is active again with
  its period counted from the current tick, and the scheduler is unlocked again.
\<close>

theorem soft_timer_check_ends:
  assumes "sched_ok k" and "timers_base k" and "thread_stat k timer_thread = RT_THREAD_READY"
    and "rt_scheduler_lock_nest k = 0" and "rt_soft_timer_list k = ds @ rs" and "soft_periods k ds"
    and "\<forall>d \<in> set ds. timer_due (rt_tick k) k d" and "\<forall>r \<in> set rs. \<not> timer_due (rt_tick k) k r"
  shows "\<exists>k'. rt_soft_timer_check (data_callbacks g) k = Some k' \<and> sched_ok k' \<and> timers_base k' \<and>
     rt_scheduler_lock_nest k' = 0 \<and> rt_timer_list k' = rt_timer_list k \<and>
     ipc_objects k' = fold (\<lambda>d. g (user_func k d)) ds (ipc_objects k) \<and>
     set (rt_soft_timer_list k') = set rs \<union> {p \<in> set ds. timer_periodic k p} \<and>
     (\<forall>i \<in> set (rt_soft_timer_list k'). \<not> timer_due (rt_tick k') k' i) \<and> (\<forall>d \<in> set ds. rearmed k d k')"
proof -
  define k1 where "k1 = rt_enter_critical k"
  have same: "timers k1 = timers k" "threads k1 = threads k" "objs k1 = objs k" "rt_tick k1 = rt_tick k"
    "rt_timer_list k1 = rt_timer_list k" "rt_soft_timer_list k1 = ds @ rs" "rt_scheduler_lock_nest k1 = 1"
    "sched_ok k1" "ipc_objects k1 = ipc_objects k"
    using assms(1,4,5) by (simp_all add: k1_def rt_enter_critical_def ipc_objects_def)
  have fl: "timer_active k1 = timer_active k" "timer_soft k1 = timer_soft k" "timer_periodic k1 = timer_periodic k"
    by (rule timer_flag_frame; simp add: same)+
  have "timers_base k1" using assms(2) by (subst timers_base_cong[of _ k]) (simp_all add: same assms(5))
  then have inv: "soft_inv k ds rs k1" using assms(3,7,8) by (simp add: soft_inv_def same fl timer_due_def)
  from soft_loop_ok[OF inv assms(6), of g] obtain k2 zs where
    k2: "soft_timer_loop (data_callbacks g) (rt_tick k) (soft_first k1) k1 = Some k2" "soft_inv k [] zs k2"
      "ipc_objects k2 = fold (\<lambda>d. g (user_func k d)) ds (ipc_objects k)" "set zs = set rs \<union> {p \<in> set ds. timer_periodic k p}"
      "\<forall>d \<in> set ds. rearmed k d k2" unfolding same by blast
  have i: "sched_ok k2" "timers_base k2" "thread_stat k2 timer_thread = RT_THREAD_READY" "rt_scheduler_lock_nest k2 = 1"
    "rt_tick k2 = rt_tick k" "rt_timer_list k2 = rt_timer_list k" "rt_soft_timer_list k2 = zs"
    "\<forall>z \<in> set zs. \<not> timer_due (rt_tick k) k2 z" using k2(2) by (simp_all add: soft_inv_def)
  obtain p c where x: "rt_exit_critical k2 = Some (k2\<lparr>rt_scheduler_lock_nest := 0, rt_current_priority := p, rt_current_thread := c\<rparr>)"
    using leave_critical[OF i(1,3,4)] by blast
  define k' where "k' = k2\<lparr>rt_scheduler_lock_nest := 0, rt_current_priority := p, rt_current_thread := c\<rparr>"
  have "timers_base k'" using i(2) by (subst timers_base_cong[of _ k2]) (simp_all add: k'_def)
  moreover have "timer_active k' = timer_active k2" by (rule timer_flag_frame) (simp add: k'_def)
  then have "\<forall>d \<in> set ds. rearmed k d k'" using k2(5) by (simp add: rearmed_def k'_def)
  moreover have "rt_soft_timer_check (data_callbacks g) k = Some k'"
    using k2(1) x by (simp add: rt_soft_timer_check_def k1_def rt_tick_get_def k'_def)
  ultimately show ?thesis using i k2(3,4) by (intro exI[of _ k']) (simp add: k'_def ipc_objects_def timer_due_def)
qed

theorem soft_timer_check_ends_witness:
  "\<exists>k'. rt_soft_timer_check (data_callbacks (\<lambda>n (s, x). (s(n := \<lparr>sem_value = sem_value (s n) + 1\<rparr>), x))) ex_soft = Some k' \<and>
     rt_scheduler_lock_nest k' = 0 \<and> set (rt_soft_timer_list k') = {UserTimer 3} \<and> sem_value (sems k' 2) = 4 \<and>
     tm_timeout_tick (timers k' (UserTimer 3)) = 130"
proof -
  have per: "soft_periods ex_soft [UserTimer 1, UserTimer 2, UserTimer 3]" by (simp add: soft_periods_def ex_soft_flags ex_soft_sel)
  have s: "sems ex_soft 2 = \<lparr>sem_value = 3\<rparr>" by (simp add: ex_soft_def ex_kernel_def)
  from soft_timer_check_ends[OF ex_soft_sched_ok ex_soft_timers_base ex_soft_sel(1,2) _ per,
      of "[]" "\<lambda>n (s, x). (s(n := \<lparr>sem_value = sem_value (s n) + 1\<rparr>), x)"]
  obtain k' where k': "rt_soft_timer_check (data_callbacks (\<lambda>n (s, x). (s(n := \<lparr>sem_value = sem_value (s n) + 1\<rparr>), x))) ex_soft = Some k'"
    "rt_scheduler_lock_nest k' = 0"
    "ipc_objects k' = fold (\<lambda>d. case_prod (\<lambda>s x. (s(user_func ex_soft d := \<lparr>sem_value = sem_value (s (user_func ex_soft d)) + 1\<rparr>), x)))
       [UserTimer 1, UserTimer 2, UserTimer 3] (ipc_objects ex_soft)"
    "set (rt_soft_timer_list k') = {UserTimer 3}" "rearmed ex_soft (UserTimer 3) k'"
    using ex_soft_due by (auto simp: ex_soft_sel(4) ex_soft_flags)
  have "sems k' = fst (ipc_objects k')" by (simp add: ipc_objects_def)
  then have "sem_value (sems k' 2) = 4" unfolding k'(3) by (simp add: ipc_objects_def user_func_def ex_soft_sel s)
  then show ?thesis using k' by (simp add: rearmed_def ex_soft_flags ex_soft_sel)
qed




text \<open>The timer thread takes a timer that is due at the last tick before the counter wraps, as the
  next one, for no timer at all and suspends itself without a time limit.\<close>

lemma timer_entry_misses_last_tick:
  assumes "rt_soft_timer_list k = i # is" and "tm_timeout_tick (timers k i) = RT_TICK_MAX"
  shows "timer_entry_wait k =
    do { t \<leftarrow> rt_thread_self k; (_, k) \<leftarrow> rt_thread_suspend t k; k \<leftarrow> rt_schedule k; Some (Blocked, k) }"
  using assms by (simp add: timer_entry_wait_def rt_timer_list_next_timeout_def)

text \<open>A timer made by rt_timer_create is gone after rt_timer_delete.\<close>

lemma timer_create_delete:
  assumes "rt_timer_create (Some u) name timeout time flag k = Some (Some i, k1)"
  shows "i = UserTimer u \<and> \<not> timer_linked k1 i \<and>
    (\<exists>k2. rt_timer_delete i k1 = Some (RT_EOK, k2) \<and> object_list k2 = object_list k)"
proof -
  obtain k0 where k0: "rt_object_allocate (Some (ObjTimer (UserTimer u))) RT_Object_Class_Timer name k = Some (Some (ObjTimer (UserTimer u)), k0)"
      "timer_init_core (UserTimer u) timeout time flag k0 = Some k1" "i = UserTimer u"
    using assms by (auto simp: rt_timer_create_def rt_object_allocate_def Let_def split: if_splits bind_splits)
  have nl: "\<not> timer_linked k0 i" and k1: "k1 = upd_timer i (\<lambda>_. \<lparr>tm_timeout_func = timeout, tm_init_tick = time, tm_timeout_tick = 0\<rparr>)
             (set_timer_flag i (\<lambda>_. flag AND NOT RT_TIMER_FLAG_ACTIVATED) k0)"
    using k0(2,3) by (auto simp: timer_init_core_def split: if_splits)
  show ?thesis using k0 nl unfolding k1
    by (auto simp: rt_timer_delete_def rt_object_delete_def timer_linked_def rt_object_detach_def rt_object_allocate_def upd_defs
        timer_remove_def Let_def rt_object_get_information_def rt_object_container_def split: if_splits bind_splits)
qed

end
