(* ===== verification/Workqueue.thy ===== *)
theory Workqueue
  imports Semaphore
begin

text \<open>
  rt-thread/components/drivers/src/workqueue.c: works that a thread of the queue does one after the
  other.  The functions of the works are code of the user, a parameter.
\<close>

section \<open>Operations\<close>

text \<open>The works of a queue are known by numbers; sem is the number of its semaphore.\<close>

record rt_workqueue =
  wq_work_list :: "nat list"
  wq_work_current :: "nat option"
  wq_sem :: nat
  wq_work_thread :: tid

partial_function (option) completion_loop :: "nat \<Rightarrow> kernel \<Rightarrow> (rt_err \<times> kernel) option" where
  "completion_loop i k =
     do { (r, k) \<leftarrow> rt_sem_trytake i k;
          if r = Return RT_ETIMEOUT then do { k \<leftarrow> rt_sem_release i k; completion_loop i k }
          else if r = Return RT_EOK then Some (RT_EOK, k)
          else Some (RT_ERROR, k) }"

definition workqueue_work_completion :: "rt_workqueue \<Rightarrow> kernel \<Rightarrow> (rt_err \<times> kernel) option" where
  "workqueue_work_completion q k =
     do { let k = rt_enter_critical k;
          (result, k) \<leftarrow> completion_loop (wq_sem q) k;
          k \<leftarrow> rt_exit_critical k;
          Some (result, k) }"

text \<open>The thread of the queue: it is suspended while there is no work; then it takes the first work
  of the list, without looking again whether there is one (the head of an empty list is no work:
  None), calls its function and reports the end.  A work function is code of the user and may use
  the queue.\<close>

type_synonym work_funcs = "nat \<Rightarrow> rt_workqueue \<Rightarrow> kernel \<Rightarrow> (rt_workqueue \<times> kernel) option"

definition workqueue_wait :: "rt_workqueue \<Rightarrow> kernel \<Rightarrow> (unit outcome \<times> kernel) option" where
  "workqueue_wait q k =
     (if wq_work_list q = []
      then do { t \<leftarrow> rt_thread_self k;
                (_, k) \<leftarrow> rt_thread_suspend t k;
                k \<leftarrow> rt_schedule k;
                Some (Blocked, k) }
      else Some (Return (), k))"

definition workqueue_work :: "work_funcs \<Rightarrow> rt_workqueue \<Rightarrow> kernel \<Rightarrow> (rt_workqueue \<times> kernel) option" where
  "workqueue_work funcs q k =
     (case wq_work_list q of
        [] \<Rightarrow> None
      | work # works \<Rightarrow>
          do { let q = q\<lparr>wq_work_list := works, wq_work_current := Some work\<rparr>;
               (q, k) \<leftarrow> funcs work q k;
               let q = q\<lparr>wq_work_current := None\<rparr>;
               (_, k) \<leftarrow> workqueue_work_completion q k;
               Some (q, k) })"

definition workqueue_thread_entry :: "work_funcs \<Rightarrow> rt_workqueue \<Rightarrow> kernel \<Rightarrow> (unit outcome \<times> rt_workqueue \<times> kernel) option" where
  "workqueue_thread_entry funcs q k =
     do { (r, k) \<leftarrow> workqueue_wait q k;
          case r of
            Blocked \<Rightarrow> Some (Blocked, q, k)
          | Return _ \<Rightarrow> do { (q, k) \<leftarrow> workqueue_work funcs q k; Some (Return (), q, k) } }"

text \<open>The control block and the thread come from allocators: None when there is no memory.\<close>

definition rt_workqueue_create ::
  "bool \<Rightarrow> nat \<Rightarrow> tid option \<Rightarrow> u32 option \<Rightarrow> u8 list \<Rightarrow> u32 \<Rightarrow> u32 \<Rightarrow> u16 \<Rightarrow> u8 \<Rightarrow> u32 \<Rightarrow> kernel \<Rightarrow>
     (rt_workqueue option \<times> kernel) option" where
  "rt_workqueue_create mem sem tmem stack name entry parameter stack_size priority texit k =
     (if \<not> mem then Some (None, k)
      else do { k \<leftarrow> rt_sem_init sem [0x77, 0x71, 0x75, 0x65, 0x75, 0x65] 0 RT_IPC_FLAG_FIFO k;
                (t, k) \<leftarrow> rt_thread_create tmem stack name entry parameter (ucast stack_size) priority 10 texit k;
                case t of
                  None \<Rightarrow> Some (None, k)
                | Some t \<Rightarrow>
                    do { k \<leftarrow> rt_thread_startup t k;
                         Some (Some \<lparr>wq_work_list = [], wq_work_current = None, wq_sem = sem, wq_work_thread = t\<rparr>, k) } })"

definition rt_workqueue_destroy :: "rt_workqueue \<Rightarrow> kernel \<Rightarrow> (rt_err \<times> kernel) option" where
  "rt_workqueue_destroy q k = do { k \<leftarrow> rt_thread_delete (wq_work_thread q) k; Some (RT_EOK, k) }"

definition rt_workqueue_dowork :: "nat \<Rightarrow> rt_workqueue \<Rightarrow> kernel \<Rightarrow> (rt_err \<times> rt_workqueue \<times> kernel) option" where
  "rt_workqueue_dowork work q k =
     (if wq_work_current q = Some work then Some (RT_EBUSY, q, k)
      else let q = q\<lparr>wq_work_list := remove1 work (wq_work_list q)\<rparr>;
               q = q\<lparr>wq_work_list := wq_work_list q @ [work]\<rparr>
           in if wq_work_current q = None
              then do { (_, k) \<leftarrow> rt_thread_resume (wq_work_thread q) k;
                        k \<leftarrow> rt_schedule k;
                        Some (RT_EOK, q, k) }
              else Some (RT_EOK, q, k))"

definition rt_workqueue_critical_work :: "nat \<Rightarrow> rt_workqueue \<Rightarrow> kernel \<Rightarrow> (rt_err \<times> rt_workqueue \<times> kernel) option" where
  "rt_workqueue_critical_work work q k =
     (if wq_work_current q = Some work then Some (RT_EBUSY, q, k)
      else let q = q\<lparr>wq_work_list := remove1 work (wq_work_list q)\<rparr>;
               q = q\<lparr>wq_work_list := wq_work_list q @ [work]\<rparr>
           in if wq_work_current q = None
              then do { (_, k) \<leftarrow> rt_thread_resume (wq_work_thread q) k;
                        k \<leftarrow> rt_schedule k;
                        Some (RT_EOK, q, k) }
              else Some (RT_EOK, q, k))"

definition rt_workqueue_cancel_work :: "nat \<Rightarrow> rt_workqueue \<Rightarrow> rt_err \<times> rt_workqueue" where
  "rt_workqueue_cancel_work work q =
     (if wq_work_current q = Some work then (RT_EBUSY, q)
      else (RT_EOK, q\<lparr>wq_work_list := remove1 work (wq_work_list q)\<rparr>))"

definition rt_workqueue_cancel_work_sync :: "nat \<Rightarrow> rt_workqueue \<Rightarrow> kernel \<Rightarrow> (rt_err outcome \<times> rt_workqueue \<times> kernel) option" where
  "rt_workqueue_cancel_work_sync work q k =
     (if wq_work_current q = Some work
      then do { (r, k) \<leftarrow> rt_sem_take (wq_sem q) (- 1) k;
                Some (case r of Return _ \<Rightarrow> Return RT_EOK | Blocked \<Rightarrow> Blocked, q, k) }
      else Some (Return RT_EOK, q\<lparr>wq_work_list := remove1 work (wq_work_list q)\<rparr>, k))"

fun cancel_loop :: "nat list \<Rightarrow> rt_workqueue \<Rightarrow> rt_workqueue" where
  "cancel_loop [] q = q"
| "cancel_loop (work # works) q = cancel_loop works (q\<lparr>wq_work_list := remove1 work (wq_work_list q)\<rparr>)"

definition rt_workqueue_cancel_all_work :: "rt_workqueue \<Rightarrow> kernel \<Rightarrow> (rt_err \<times> rt_workqueue \<times> kernel) option" where
  "rt_workqueue_cancel_all_work q k =
     do { let k = rt_enter_critical k;
          let q = cancel_loop (wq_work_list q) q;
          k \<leftarrow> rt_exit_critical k;
          Some (RT_EOK, q, k) }"

section \<open>The end of a work\<close>

text \<open>With the scheduler locked a release wakes the first waiter and nothing else changes.\<close>

lemma release_locked:
  assumes ok: "kernel_ok k" and l: "rt_scheduler_lock_nest k \<noteq> 0" and ts: "tlists k (SemQ i) = t # ts"
  shows "\<exists>k'. rt_sem_release i k = Some k' \<and> kernel_ok k' \<and> rt_scheduler_lock_nest k' = rt_scheduler_lock_nest k \<and> sems k' = sems k \<and>
    tlists k' (SemQ i) = ts \<and> thread_stat k' t = RT_THREAD_READY \<and> (\<forall>u. u \<noteq> t \<longrightarrow> threads k' u = threads k u) \<and>
    (\<forall>u. th_error (threads k' u) = th_error (threads k u))"
proof -
  from list_resume_ok[OF ok _ ts] obtain k' where
    k': "rt_ipc_list_resume (SemQ i) k = Some k'" "kernel_ok k'" "thread_frame k k'" "thread_stat k' t = RT_THREAD_READY"
      "threads k' = (threads k)(t := (threads k t)\<lparr>th_stat := RT_THREAD_READY OR (th_stat (threads k t) AND NOT RT_THREAD_STAT_MASK)\<rparr>)"
      "tlists k' (SemQ i) = ts" by auto
  note f = thread_frameD[OF k'(3)]
  have n: "rt_scheduler_lock_nest k' = rt_scheduler_lock_nest k" "sems k' = sems k" using f by simp_all
  have "rt_sem_release i k = Some k'" using k'(1) ts l n by (simp add: rt_sem_release_def tlist_isempty_def rt_schedule_def)
  moreover have "\<forall>u. u \<noteq> t \<longrightarrow> threads k' u = threads k u" "\<forall>u. th_error (threads k' u) = th_error (threads k u)"
    by (simp_all add: k'(5))
  ultimately show ?thesis using k'(2,4,6) n by blast
qed

lemma completion_loop_ok:
  assumes "kernel_ok k" and "rt_scheduler_lock_nest k \<noteq> 0" and "tlists k (SemQ i) = ts" and "sem_value (sems k i) = 0"
    and "distinct ts"
  shows "\<exists>k'. completion_loop i k = Some (RT_EOK, k') \<and> kernel_ok k' \<and> rt_scheduler_lock_nest k' = rt_scheduler_lock_nest k \<and>
    tlists k' (SemQ i) = [] \<and> sem_value (sems k' i) = 0 \<and> (\<forall>t \<in> set ts. thread_stat k' t = RT_THREAD_READY) \<and>
    (\<forall>u. u \<notin> set ts \<longrightarrow> threads k' u = threads k u) \<and> (\<forall>u. th_error (threads k' u) = th_error (threads k u))"
  using assms
proof (induction ts arbitrary: k)
  case Nil
  let ?k = "upd_sem i (\<lambda>s. s\<lparr>sem_value := sem_value s + 1\<rparr>) k"
  have t: "rt_sem_trytake i k = Some (Return RT_ETIMEOUT, k)" using Nil by (simp add: rt_sem_trytake_def rt_sem_take_def)
  have r: "rt_sem_release i k = Some ?k" using Nil by (simp add: rt_sem_release_def tlist_isempty_def)
  let ?k2 = "upd_sem i (\<lambda>s. s\<lparr>sem_value := sem_value s - 1\<rparr>) ?k"
  have "rt_sem_trytake i ?k = Some (Return RT_EOK, ?k2)" using Nil by (simp add: rt_sem_trytake_def rt_sem_take_def upd_sem_def)
  then have "completion_loop i ?k = Some (RT_EOK, ?k2)" by (subst completion_loop.simps) simp
  then have "completion_loop i k = Some (RT_EOK, ?k2)" using t r by (subst completion_loop.simps) simp
  moreover have "kernel_ok ?k2" using Nil.prems(1) by simp
  ultimately show ?case using Nil.prems(2-4) by (intro exI[of _ ?k2]) (simp add: upd_sem_def)
next
  case (Cons t ts)
  have "rt_sem_trytake i k = Some (Return RT_ETIMEOUT, k)" using Cons.prems by (simp add: rt_sem_trytake_def rt_sem_take_def)
  moreover from release_locked[OF Cons.prems(1-3)] obtain k1 where
    k1: "rt_sem_release i k = Some k1" "kernel_ok k1" "rt_scheduler_lock_nest k1 = rt_scheduler_lock_nest k" "sems k1 = sems k"
      "tlists k1 (SemQ i) = ts" "thread_stat k1 t = RT_THREAD_READY" "\<forall>u. u \<noteq> t \<longrightarrow> threads k1 u = threads k u"
      "\<forall>u. th_error (threads k1 u) = th_error (threads k u)" by blast
  ultimately have "completion_loop i k = completion_loop i k1" by (subst completion_loop.simps) simp
  moreover from Cons.IH[of k1] k1 Cons.prems obtain k' where
    k': "completion_loop i k1 = Some (RT_EOK, k')" "kernel_ok k'" "rt_scheduler_lock_nest k' = rt_scheduler_lock_nest k"
      "tlists k' (SemQ i) = []" "sem_value (sems k' i) = 0" "\<forall>t \<in> set ts. thread_stat k' t = RT_THREAD_READY"
      "\<forall>u. u \<notin> set ts \<longrightarrow> threads k' u = threads k1 u" "\<forall>u. th_error (threads k' u) = th_error (threads k1 u)" by auto
  moreover have "thread_stat k' t = RT_THREAD_READY" using k'(7) k1(6) Cons.prems(5) by simp
  ultimately show ?case using k1(7,8) by auto
qed


section \<open>Properties\<close>

text \<open>C31: When the function of a work has returned, reporting its end terminates: it makes every
  thread that waits in rt_workqueue_cancel_work_sync ready, leaves the semaphore of the queue at
  zero, and unlocks the scheduler.\<close>

theorem work_completion_wakes_all:
  assumes "kernel_ok k" and "rt_scheduler_lock_nest k = 0" and "sem_value (sems k (wq_sem q)) = 0"
    and "thread_stat k u = RT_THREAD_READY"
  shows "\<exists>k'. workqueue_work_completion q k = Some (RT_EOK, k') \<and> kernel_ok k' \<and> rt_scheduler_lock_nest k' = 0 \<and>
     tlists k' (SemQ (wq_sem q)) = [] \<and> sem_value (sems k' (wq_sem q)) = 0 \<and>
     (\<forall>t \<in> set (tlists k (SemQ (wq_sem q))). thread_stat k' t = RT_THREAD_READY \<and> rt_sem_take_resumed t k' = rt_sem_take_resumed t k)"
proof -
  let ?i = "wq_sem q" and ?k = "rt_enter_critical k"
  have "timers_ok ?k = timers_ok k" by (rule timers_ok_cong) (simp_all add: rt_enter_critical_def)
  then have ok: "kernel_ok ?k" using assms(1) by (simp add: kernel_ok_def rt_enter_critical_def)
  have n: "rt_scheduler_lock_nest ?k = 1" "tlists ?k = tlists k" "sems ?k = sems k" "threads ?k = threads k"
    using assms(2) by (simp_all add: rt_enter_critical_def)
  have dist: "distinct (tlists k (SemQ ?i))"
    using kernel_okD(1)[OF assms(1)] by (simp add: sched_ok_but_def lists_ok_def)
  from completion_loop_ok[OF ok, of ?i "tlists k (SemQ ?i)"] n assms(3) dist obtain k1 where
    k1: "completion_loop ?i ?k = Some (RT_EOK, k1)" "kernel_ok k1" "rt_scheduler_lock_nest k1 = 1"
      "tlists k1 (SemQ ?i) = []" "sem_value (sems k1 ?i) = 0" "\<forall>t \<in> set (tlists k (SemQ ?i)). thread_stat k1 t = RT_THREAD_READY"
      "\<forall>u. u \<notin> set (tlists k (SemQ ?i)) \<longrightarrow> threads k1 u = threads k u"
      "\<forall>u. th_error (threads k1 u) = th_error (threads k u)" by auto
  have "thread_stat k1 u = RT_THREAD_READY" using k1(6,7) assms(4) by (cases "u \<in> set (tlists k (SemQ ?i))") auto
  from leave_critical[OF kernel_okD(1)[OF k1(2)] this k1(3)] obtain p c where
    x: "rt_exit_critical k1 = Some (k1\<lparr>rt_scheduler_lock_nest := 0, rt_current_priority := p, rt_current_thread := c\<rparr>)" by blast
  let ?k' = "k1\<lparr>rt_scheduler_lock_nest := 0, rt_current_priority := p, rt_current_thread := c\<rparr>"
  have "timers_ok ?k' = timers_ok k1" by (rule timers_ok_cong) simp_all
  then have "kernel_ok ?k'" using k1(2) by (simp add: kernel_ok_def)
  moreover have "workqueue_work_completion q k = Some (RT_EOK, ?k')" using k1(1) x by (simp add: workqueue_work_completion_def)
  ultimately show ?thesis using k1(4-6,8) by (intro exI[of _ ?k']) (simp add: rt_sem_take_resumed_def)
qed

text \<open>A work that is submitted and cancelled again before the thread of the queue runs leaves
  that thread ready with an empty list: when it runs it takes the head of the list for a work.\<close>

theorem cancelled_work_crashes:
  assumes "kernel_ok k" and "wq_work_current q = None" and "wq_work_list q = []"
    and "thread_stat k (wq_work_thread q) = RT_THREAD_SUSPEND"
  shows "\<exists>q1 k1. rt_workqueue_dowork w q k = Some (RT_EOK, q1, k1) \<and> wq_work_list q1 = [w] \<and> kernel_ok k1 \<and>
    thread_stat k1 (wq_work_thread q) = RT_THREAD_READY \<and>
    (let q2 = snd (rt_workqueue_cancel_work w q1) in wq_work_list q2 = [] \<and> workqueue_work funcs q2 k1 = None)"
proof -
  let ?q = "q\<lparr>wq_work_list := [w]\<rparr>" and ?t = "wq_work_thread q"
  from resume_ok[OF assms(1,4)] obtain k1 where
    k1: "rt_thread_resume ?t k = Some (RT_EOK, k1)" "kernel_ok k1" "thread_stat k1 ?t = RT_THREAD_READY" by blast
  note so = kernel_okD(1)[OF k1(2)]
  from schedule_defined[OF so ready_listed(2)[OF so k1(3)]] obtain k2 where k2: "rt_schedule k1 = Some k2" ..
  have "kernel_ok k2" using schedule_kernel_ok[OF k2] k1(2) by simp
  moreover have "thread_stat k2 ?t = RT_THREAD_READY" using k1(3) by (simp only: schedule_sel[OF k2])
  moreover have "rt_workqueue_dowork w q k = Some (RT_EOK, ?q, k2)"
    using assms(2,3) k1(1) k2 by (simp add: rt_workqueue_dowork_def)
  ultimately show ?thesis
    using assms(2) by (intro exI[of _ ?q] exI[of _ k2]) (simp add: rt_workqueue_cancel_work_def workqueue_work_def)
qed


definition ex_wq :: rt_workqueue where
  "ex_wq = \<lparr>wq_work_list = [], wq_work_current = None, wq_sem = 0, wq_work_thread = 1\<rparr>"

theorem work_completion_wakes_all_witness:
  "\<exists>k'. workqueue_work_completion ex_wq ex_kernel = Some (RT_EOK, k') \<and> thread_stat k' 3 = RT_THREAD_READY"
proof -
  have "sem_value (sems ex_kernel (wq_sem ex_wq)) = 0" "tlists ex_kernel (SemQ (wq_sem ex_wq)) = [3]"
    by (simp_all add: ex_wq_def ex_kernel_def)
  with work_completion_wakes_all[OF ex_kernel_ok ex_sel(3) _ ex_sel(6), of ex_wq] show ?thesis by auto
qed

theorem cancelled_work_crashes_witness:
  "\<exists>q1 k1. rt_workqueue_dowork 7 ex_wq ex_kernel = Some (RT_EOK, q1, k1) \<and>
     workqueue_work (\<lambda>w q k. Some (q, k)) (snd (rt_workqueue_cancel_work 7 q1)) k1 = None"
proof -
  have q: "wq_work_current ex_wq = None" "wq_work_list ex_wq = []" "thread_stat ex_kernel (wq_work_thread ex_wq) = RT_THREAD_SUSPEND"
    by (simp_all add: ex_wq_def ex_kernel_def ex_thread_def)
  show ?thesis using cancelled_work_crashes[OF ex_kernel_ok q, of 7 "\<lambda>w q k. Some (q, k)"] by (auto simp: Let_def)
qed

text \<open>Works are done in the order in which they were submitted; submitting a work that is pending
  moves it to the end, and cancelling removes it.\<close>

lemma dowork_order:
  assumes "rt_workqueue_dowork w q k = Some (RT_EOK, q', k')"
  shows "wq_work_list q' = remove1 w (wq_work_list q) @ [w]" "wq_work_current q' = wq_work_current q"
  using assms by (auto simp: rt_workqueue_dowork_def Let_def split: if_splits bind_splits)

lemma cancel_loop_all: "wq_work_list q = ws \<Longrightarrow> wq_work_list (cancel_loop ws q) = []"
  by (induction ws arbitrary: q) auto

lemma workqueue_takes_first:
  assumes "workqueue_work funcs q k = Some (q', k')"
  shows "\<exists>w ws q1 k1. wq_work_list q = w # ws \<and>
    funcs w (q\<lparr>wq_work_list := ws, wq_work_current := Some w\<rparr>) k = Some (q1, k1) \<and> q' = q1\<lparr>wq_work_current := None\<rparr>"
  using assms by (auto simp: workqueue_work_def Let_def split: list.splits bind_splits)

end
