(* ===== verification/Waitqueue.thy ===== *)
theory Waitqueue
  imports Ipc
begin

text \<open>
  rt-thread/components/drivers/src/waitqueue.c: queues of nodes through which threads wait for an
  event of a file, and the wakeup of the first node whose function accepts the key.
\<close>

section \<open>Operations\<close>

text \<open>A node is known by its place: a local variable of the thread that waits, or a block of the
  heap.  The wakeup function of a node belongs to its user; it answers a key with an int, and zero
  stands for waking up.\<close>

datatype wqueue_place = Stack_node tid | Heap_node nat

record rt_wqueue_node =
  wn_place :: wqueue_place
  wn_polling_thread :: tid
  wn_key :: u32
  wn_wakeup :: "u32 \<Rightarrow> int"

type_synonym rt_wqueue = "rt_wqueue_node list"

definition rt_wqueue_add :: "rt_wqueue_node \<Rightarrow> rt_wqueue \<Rightarrow> rt_wqueue" where
  "rt_wqueue_add node queue = queue @ [node]"

text \<open>Removing a node that is in no queue has no effect.\<close>

definition rt_wqueue_remove :: "wqueue_place \<Rightarrow> rt_wqueue \<Rightarrow> rt_wqueue" where
  "rt_wqueue_remove place queue = filter (\<lambda>node. wn_place node \<noteq> place) queue"

definition wqueue_default_wake :: "u32 \<Rightarrow> int" where
  "wqueue_default_wake key = 0"

definition rt_wqueue_wakeup :: "u32 \<Rightarrow> rt_wqueue \<Rightarrow> kernel \<Rightarrow> (rt_wqueue \<times> kernel) option" where
  "rt_wqueue_wakeup key queue k =
     (case List.find (\<lambda>entry. wn_wakeup entry key = 0) queue of
        None \<Rightarrow> Some (queue, k)
      | Some entry \<Rightarrow>
          do { (_, k) \<leftarrow> rt_thread_resume (wn_polling_thread entry) k;
               let queue = rt_wqueue_remove (wn_place entry) queue;
               k \<leftarrow> rt_schedule k;
               Some (queue, k) })"

text \<open>The node \<open>__wait\<close> of the thread tid.\<close>

definition wait_node :: "tid \<Rightarrow> rt_wqueue_node" where
  "wait_node tid = \<lparr>wn_place = Stack_node tid, wn_polling_thread = tid, wn_key = 0, wn_wakeup = wqueue_default_wake\<rparr>"

definition rt_wqueue_wait :: "bool \<Rightarrow> int \<Rightarrow> rt_wqueue \<Rightarrow> kernel \<Rightarrow> (int outcome \<times> rt_wqueue \<times> kernel) option" where
  "rt_wqueue_wait condition msec queue k =
     (if \<not> RT_DEBUG_NOT_IN_INTERRUPT k then None
      else do { tid \<leftarrow> rt_current_thread k;
                tick \<leftarrow> rt_tick_from_millisecond msec;
                if condition \<or> tick = 0 then Some (Return 0, queue, k)
                else do { let queue = rt_wqueue_add (wait_node tid) queue;
                          (_, k) \<leftarrow> rt_thread_suspend tid k;
                          k \<leftarrow> (if tick \<noteq> RT_WAITING_FOREVER
                                then rt_timer_start (ThreadTimer tid)
                                       (snd (rt_timer_control (ThreadTimer tid) (RT_TIMER_CTRL_SET_TIME (of_int tick)) k))
                                else Some k);
                          k \<leftarrow> rt_schedule k;
                          Some (Blocked, queue, k) } })"

definition rt_wqueue_wait_resumed :: "tid \<Rightarrow> rt_wqueue \<Rightarrow> int \<times> rt_wqueue" where
  "rt_wqueue_wait_resumed tid queue = (0, rt_wqueue_remove (Stack_node tid) queue)"

section \<open>Waiting and waking\<close>

lemma wakeup_nobody [simp]: "rt_wqueue_wakeup key [] k = Some ([], k)"
  by (simp add: rt_wqueue_wakeup_def)

text \<open>A wait without a time limit suspends the running thread, with its node at the end of the
  queue; another thread runs.\<close>

lemma wqueue_wait_blocks:
  assumes "kernel_ok k" and "rt_interrupt_nest k = 0" and "rt_current_thread k = Some t" and "thread_stat k t = RT_THREAD_READY"
    and "thread_stat k u = RT_THREAD_READY" and "u \<noteq> t"
  shows "\<exists>k'. rt_wqueue_wait False (- 1) queue k = Some (Blocked, queue @ [wait_node t], k') \<and> kernel_ok k' \<and>
     thread_stat k' t = RT_THREAD_SUSPEND \<and> on_list k' t = None"
proof -
  from suspend_ok[OF assms(1,4)] obtain k1 where
    k1: "rt_thread_suspend t k = Some (RT_EOK, k1)" "kernel_ok k1" "thread_stat k1 t = RT_THREAD_SUSPEND" "on_list k1 = (on_list k)(t := None)"
      "threads k1 = (threads k)(t := (threads k t)\<lparr>th_stat := RT_THREAD_SUSPEND OR (th_stat (threads k t) AND NOT RT_THREAD_STAT_MASK)\<rparr>)"
    by blast
  have "thread_stat k1 u = RT_THREAD_READY" using k1(5) assms(5,6) by simp
  note so = kernel_okD(1)[OF k1(2)]
  from schedule_defined[OF so ready_listed(2)[OF so \<open>thread_stat k1 u = RT_THREAD_READY\<close>]] obtain k2 where k2: "rt_schedule k1 = Some k2" ..
  have "rt_wqueue_wait False (- 1) queue k = Some (Blocked, queue @ [wait_node t], k2)"
    using assms(2,3) k1(1) k2 by (simp add: rt_wqueue_wait_def context_defs rt_tick_from_millisecond_def rt_wqueue_add_def)
  moreover have "kernel_ok k2" using schedule_kernel_ok[OF k2] k1(2) by simp
  moreover have "thread_stat k2 t = RT_THREAD_SUSPEND" "on_list k2 t = None" using k1(3,4) by (simp_all only: schedule_sel[OF k2]) simp_all
  ultimately show ?thesis by blast
qed

text \<open>A wakeup makes the thread of the first node that accepts the key ready, and only this node leaves
  the queue.\<close>

lemma wqueue_wakeup_first:
  assumes "kernel_ok k" and "thread_stat k (wn_polling_thread node) = RT_THREAD_SUSPEND"
    and "wn_wakeup node key = 0" and "\<forall>n \<in> set pre. wn_wakeup n key \<noteq> 0" and "distinct (map wn_place (pre @ node # post))"
  shows "\<exists>k'. rt_wqueue_wakeup key (pre @ node # post) k = Some (pre @ post, k') \<and> kernel_ok k' \<and>
     thread_stat k' (wn_polling_thread node) = RT_THREAD_READY"
proof -
  have f: "List.find (\<lambda>entry. wn_wakeup entry key = 0) (pre @ node # post) = Some node"
    using assms(3,4) by (induction pre) auto
  have r: "rt_wqueue_remove (wn_place node) (pre @ node # post) = pre @ post"
  proof -
    have "wn_place node \<notin> wn_place ` (set pre \<union> set post)" using assms(5) by auto
    then have "\<forall>n \<in> set pre \<union> set post. wn_place n \<noteq> wn_place node" by (metis image_eqI)
    then show ?thesis by (simp add: rt_wqueue_remove_def filter_id_conv)
  qed
  from resume_ok[OF assms(1,2)] obtain k1 where
    k1: "rt_thread_resume (wn_polling_thread node) k = Some (RT_EOK, k1)" "kernel_ok k1"
      "thread_stat k1 (wn_polling_thread node) = RT_THREAD_READY" by blast
  note so = kernel_okD(1)[OF k1(2)]
  from schedule_defined[OF so ready_listed(2)[OF so k1(3)]] obtain k2 where k2: "rt_schedule k1 = Some k2" ..
  have "rt_wqueue_wakeup key (pre @ node # post) k = Some (pre @ post, k2)" using f r k1(1) k2 by (simp add: rt_wqueue_wakeup_def)
  moreover have "kernel_ok k2" using schedule_kernel_ok[OF k2] k1(2) by simp
  moreover have "thread_stat k2 (wn_polling_thread node) = RT_THREAD_READY" using k1(3) by (simp only: schedule_sel[OF k2])
  ultimately show ?thesis by blast
qed

end
