(* ===== verification/Pipe.thy ===== *)
theory Pipe
  imports Waitqueue Mutex Ringbuffer Device
begin

text \<open>
  rt-thread/components/drivers/src/pipe.c: a ring buffer behind a mutex, as a file whose readers and
  writers wait for each other and as a device that never waits for data.
\<close>

section \<open>Pipes\<close>

abbreviation O_RDONLY :: u32 where "O_RDONLY \<equiv> 0"
abbreviation O_WRONLY :: u32 where "O_WRONLY \<equiv> 1"
abbreviation O_RDWR :: u32 where "O_RDWR \<equiv> 2"
abbreviation O_ACCMODE :: u32 where "O_ACCMODE \<equiv> 3"
abbreviation O_NONBLOCK :: u32 where "O_NONBLOCK \<equiv> 0x4000"
abbreviation POLLIN :: u32 where "POLLIN \<equiv> 0x01"
abbreviation POLLOUT :: u32 where "POLLOUT \<equiv> 0x02"
abbreviation POLLERR :: u32 where "POLLERR \<equiv> 0x04"
abbreviation POLLHUP :: u32 where "POLLHUP \<equiv> 0x08"
abbreviation EAGAIN :: int where "EAGAIN \<equiv> 11"
abbreviation EPIPE :: int where "EPIPE \<equiv> 32"
abbreviation ENODEV :: int where "ENODEV \<equiv> 19"
abbreviation EINVAL :: int where "EINVAL \<equiv> 22"

text \<open>The device of a pipe is a record of its own; lock is the number of its mutex.\<close>

record rt_pipe =
  pp_fifo :: "rt_ringbuffer option"
  pp_bufsz :: u16
  pp_readers :: u8
  pp_writers :: u8
  pp_reader_queue :: rt_wqueue
  pp_writer_queue :: rt_wqueue
  pp_lock :: nat

text \<open>A ring buffer from the allocator \<open>mem\<close>; a ring that was freed again must not be used: None.\<close>

definition pipe_new_fifo :: "bool \<times> u8 list option \<Rightarrow> rt_pipe \<Rightarrow> rt_pipe option" where
  "pipe_new_fifo mem p =
     (case rt_ringbuffer_create (fst mem) (snd mem) (pp_bufsz p) of
        Some (Rb_created rb) \<Rightarrow> Some (p\<lparr>pp_fifo := Some rb\<rparr>)
      | Some Rb_null \<Rightarrow> Some (p\<lparr>pp_fifo := None\<rparr>)
      | _ \<Rightarrow> None)"

definition pipe_count :: "(u8 \<Rightarrow> u8) \<Rightarrow> u32 \<Rightarrow> rt_pipe \<Rightarrow> rt_pipe" where
  "pipe_count f flags p =
     (let mode = flags AND O_ACCMODE
      in if mode = O_RDONLY then p\<lparr>pp_readers := f (pp_readers p)\<rparr>
         else if mode = O_WRONLY then p\<lparr>pp_writers := f (pp_writers p)\<rparr>
         else if mode = O_RDWR then p\<lparr>pp_readers := f (pp_readers p), pp_writers := f (pp_writers p)\<rparr>
         else p)"

text \<open>The operations begin by taking the lock: with it taken they go on as the definitions ending
  in \<open>_locked\<close> say; otherwise the thread waits for the mutex.\<close>

definition with_lock :: "nat \<Rightarrow> (kernel \<Rightarrow> ('r outcome \<times> 's \<times> kernel) option) \<Rightarrow> 's \<Rightarrow> kernel \<Rightarrow> ('r outcome \<times> 's \<times> kernel) option" where
  "with_lock lock f s k =
     do { (r, k) \<leftarrow> rt_mutex_take lock (- 1) k;
          case r of Blocked \<Rightarrow> Some (Blocked, s, k) | Return _ \<Rightarrow> f k }"

definition pipe_unlock :: "rt_pipe \<Rightarrow> kernel \<Rightarrow> kernel option" where
  "pipe_unlock p k = do { (_, k) \<leftarrow> rt_mutex_release (pp_lock p) k; Some k }"

text \<open>A call of the scheduler may give the processor to another thread; the calling thread then
  executes the rest of its function, f, when it runs again.\<close>

definition when_running :: "kernel \<Rightarrow> (kernel \<Rightarrow> ('r outcome \<times> 's \<times> kernel) option) \<Rightarrow> 's \<Rightarrow> kernel \<Rightarrow> ('r outcome \<times> 's \<times> kernel) option" where
  "when_running k0 f s k = (if rt_current_thread k = rt_current_thread k0 then f k else Some (Blocked, s, k))"

definition pipe_open_locked ::
  "bool \<times> u8 list option \<Rightarrow> u32 \<Rightarrow> rt_device \<Rightarrow> rt_pipe \<Rightarrow> kernel \<Rightarrow> (int outcome \<times> (rt_device \<times> rt_pipe) \<times> kernel) option" where
  "pipe_open_locked mem flags dev p k =
     do { p \<leftarrow> (if dev_ref_count dev = 0 then pipe_new_fifo mem p else Some p);
          let p = pipe_count (\<lambda>n. n + 1) flags p;
          let dev = dev\<lparr>dev_ref_count := dev_ref_count dev + 1\<rparr>;
          k \<leftarrow> pipe_unlock p k;
          Some (Return 0, (dev, p), k) }"

definition pipe_fops_open ::
  "bool \<times> u8 list option \<Rightarrow> u32 \<Rightarrow> rt_device \<Rightarrow> rt_pipe \<Rightarrow> kernel \<Rightarrow> (int outcome \<times> (rt_device \<times> rt_pipe) \<times> kernel) option" where
  "pipe_fops_open mem flags dev p k = with_lock (pp_lock p) (pipe_open_locked mem flags dev p) (dev, p) k"

text \<open>Destroying a ring buffer that does not exist fails an assertion.\<close>

definition pipe_drop_fifo :: "rt_pipe \<Rightarrow> rt_pipe option" where
  "pipe_drop_fifo p = (case pp_fifo p of None \<Rightarrow> None | Some _ \<Rightarrow> Some (p\<lparr>pp_fifo := None\<rparr>))"

definition pipe_close_end :: "rt_device \<Rightarrow> rt_pipe \<Rightarrow> kernel \<Rightarrow> (int outcome \<times> (rt_device \<times> rt_pipe) \<times> kernel) option" where
  "pipe_close_end dev p k =
     do { p \<leftarrow> (if dev_ref_count dev = 1 then pipe_drop_fifo p else Some p);
          let dev = dev\<lparr>dev_ref_count := dev_ref_count dev - 1\<rparr>;
          k \<leftarrow> pipe_unlock p k;
          Some (Return 0, (dev, p), k) }"

definition pipe_close_writers :: "rt_device \<Rightarrow> rt_pipe \<Rightarrow> kernel \<Rightarrow> (int outcome \<times> (rt_device \<times> rt_pipe) \<times> kernel) option" where
  "pipe_close_writers dev p k =
     do { (wq, k1) \<leftarrow> (if pp_readers p = 0 then rt_wqueue_wakeup (POLLOUT OR POLLERR OR POLLHUP) (pp_writer_queue p) k
                       else Some (pp_writer_queue p, k));
          let p = p\<lparr>pp_writer_queue := wq\<rparr>;
          when_running k (pipe_close_end dev p) (dev, p) k1 }"

definition pipe_close_locked :: "u32 \<Rightarrow> rt_device \<Rightarrow> rt_pipe \<Rightarrow> kernel \<Rightarrow> (int outcome \<times> (rt_device \<times> rt_pipe) \<times> kernel) option" where
  "pipe_close_locked flags dev p k =
     do { let p = pipe_count (\<lambda>n. n - 1) flags p;
          (rq, k1) \<leftarrow> (if pp_writers p = 0 then rt_wqueue_wakeup (POLLIN OR POLLERR OR POLLHUP) (pp_reader_queue p) k
                       else Some (pp_reader_queue p, k));
          let p = p\<lparr>pp_reader_queue := rq\<rparr>;
          when_running k (pipe_close_writers dev p) (dev, p) k1 }"

definition pipe_fops_close :: "u32 \<Rightarrow> rt_device \<Rightarrow> rt_pipe \<Rightarrow> kernel \<Rightarrow> (int outcome \<times> (rt_device \<times> rt_pipe) \<times> kernel) option" where
  "pipe_fops_close flags dev p k = with_lock (pp_lock p) (pipe_close_locked flags dev p) (dev, p) k"

datatype pipe_cmd = FIONREAD | FIONWRITE | FIO_OTHER

definition pipe_fops_ioctl :: "pipe_cmd \<Rightarrow> rt_pipe \<Rightarrow> (int \<times> u32 option) option" where
  "pipe_fops_ioctl cmd p =
     (case cmd of
        FIONREAD \<Rightarrow> do { rb \<leftarrow> pp_fifo p; Some (0, Some (rt_ringbuffer_data_len rb)) }
      | FIONWRITE \<Rightarrow> do { rb \<leftarrow> pp_fifo p; Some (0, Some (rt_ringbuffer_space_len rb)) }
      | FIO_OTHER \<Rightarrow> Some (- EINVAL, None))"

text \<open>A read with the lock taken: one round of its loop, and what follows.  The result is the number of
  bytes or an error, and the buffer; the count is passed to the ring buffer as a 16-bit number.  A round
  that finds no data unlocks, wakes a writer and waits; then the reader takes the lock and the next round
  begins.\<close>

definition pipe_read_out :: "int \<Rightarrow> u8 list \<Rightarrow> rt_pipe \<Rightarrow> kernel \<Rightarrow> ((int \<times> u8 list) outcome \<times> rt_pipe \<times> kernel) option" where
  "pipe_read_out len buf p k = do { k \<leftarrow> pipe_unlock p k; Some (Return (len, buf), p, k) }"

definition pipe_read_wait :: "rt_pipe \<Rightarrow> kernel \<Rightarrow> ((int \<times> u8 list) outcome \<times> rt_pipe \<times> kernel) option" where
  "pipe_read_wait p k =
     do { (_, rq, k) \<leftarrow> rt_wqueue_wait False (-1) (pp_reader_queue p) k;
          Some (Blocked, p\<lparr>pp_reader_queue := rq\<rparr>, k) }"

definition pipe_read_empty :: "rt_pipe \<Rightarrow> kernel \<Rightarrow> ((int \<times> u8 list) outcome \<times> rt_pipe \<times> kernel) option" where
  "pipe_read_empty p k =
     do { (wq, k1) \<leftarrow> rt_wqueue_wakeup POLLOUT (pp_writer_queue p) k;
          let p = p\<lparr>pp_writer_queue := wq\<rparr>;
          when_running k (pipe_read_wait p) p k1 }"

definition pipe_read_locked :: "u32 \<Rightarrow> u8 list \<Rightarrow> u32 \<Rightarrow> rt_pipe \<Rightarrow> kernel \<Rightarrow> ((int \<times> u8 list) outcome \<times> rt_pipe \<times> kernel) option" where
  "pipe_read_locked flags buf count p k =
     (if pp_writers p = 0 then pipe_read_out 0 buf p k
      else do { rb \<leftarrow> pp_fifo p;
                (len, buf, rb) \<leftarrow> rt_ringbuffer_get buf (ucast count) rb;
                let p = p\<lparr>pp_fifo := Some rb\<rparr>;
                if 0 < sint len
                then do { (wq, k1) \<leftarrow> rt_wqueue_wakeup POLLOUT (pp_writer_queue p) k;
                          let p = p\<lparr>pp_writer_queue := wq\<rparr>;
                          when_running k (pipe_read_out (sint len) buf p) p k1 }
                else if flags AND O_NONBLOCK \<noteq> 0 then pipe_read_out (- EAGAIN) buf p k
                else do { k1 \<leftarrow> pipe_unlock p k; when_running k (pipe_read_empty p) p k1 } })"

definition pipe_fops_read :: "u32 \<Rightarrow> u8 list \<Rightarrow> u32 \<Rightarrow> rt_pipe \<Rightarrow> kernel \<Rightarrow> ((int \<times> u8 list) outcome \<times> rt_pipe \<times> kernel) option" where
  "pipe_fops_read flags buf count p k =
     (if pp_writers p = 0 then Some (Return (0, buf), p, k)
      else with_lock (pp_lock p) (pipe_read_locked flags buf count p) p k)"

definition pipe_fops_read_resumed ::
  "tid \<Rightarrow> u32 \<Rightarrow> u8 list \<Rightarrow> u32 \<Rightarrow> rt_pipe \<Rightarrow> kernel \<Rightarrow> ((int \<times> u8 list) outcome \<times> rt_pipe \<times> kernel) option" where
  "pipe_fops_read_resumed t flags buf count p k =
     (let p = p\<lparr>pp_reader_queue := snd (rt_wqueue_wait_resumed t (pp_reader_queue p))\<rparr>
      in with_lock (pp_lock p) (pipe_read_locked flags buf count p) p k)"

text \<open>A round of a write: ret counts the bytes written so far.  A full pipe makes the writer unlock,
  wake a reader and wait.  After the loop a reader is woken unless no round reached the ring buffer.\<close>

definition pipe_write_wakeup :: "bool \<Rightarrow> int \<Rightarrow> rt_pipe \<Rightarrow> kernel \<Rightarrow> (int outcome \<times> rt_pipe \<times> kernel) option" where
  "pipe_write_wakeup wakeup ret p k =
     do { (rq, k) \<leftarrow> (if wakeup then rt_wqueue_wakeup POLLIN (pp_reader_queue p) k else Some (pp_reader_queue p, k));
          Some (Return ret, p\<lparr>pp_reader_queue := rq\<rparr>, k) }"

definition pipe_write_end :: "bool \<Rightarrow> int \<Rightarrow> rt_pipe \<Rightarrow> kernel \<Rightarrow> (int outcome \<times> rt_pipe \<times> kernel) option" where
  "pipe_write_end wakeup ret p k = do { k1 \<leftarrow> pipe_unlock p k; when_running k (pipe_write_wakeup wakeup ret p) p k1 }"

definition pipe_write_wait :: "rt_pipe \<Rightarrow> kernel \<Rightarrow> (int outcome \<times> rt_pipe \<times> kernel) option" where
  "pipe_write_wait p k =
     do { (_, wq, k) \<leftarrow> rt_wqueue_wait False (-1) (pp_writer_queue p) k;
          Some (Blocked, p\<lparr>pp_writer_queue := wq\<rparr>, k) }"

definition pipe_write_full :: "rt_pipe \<Rightarrow> kernel \<Rightarrow> (int outcome \<times> rt_pipe \<times> kernel) option" where
  "pipe_write_full p k =
     do { (rq, k1) \<leftarrow> rt_wqueue_wakeup POLLIN (pp_reader_queue p) k;
          let p = p\<lparr>pp_reader_queue := rq\<rparr>;
          when_running k (pipe_write_wait p) p k1 }"

definition pipe_write_locked :: "u32 \<Rightarrow> u8 list \<Rightarrow> u32 \<Rightarrow> bool \<Rightarrow> u32 \<Rightarrow> rt_pipe \<Rightarrow> kernel \<Rightarrow> (int outcome \<times> rt_pipe \<times> kernel) option" where
  "pipe_write_locked flags buf count wakeup ret p k =
     (if pp_readers p = 0 then pipe_write_end wakeup (if ret = 0 then - EPIPE else sint ret) p k
      else do { rb \<leftarrow> pp_fifo p;
                (len, rb) \<leftarrow> rt_ringbuffer_put (drop (unat ret) buf) (ucast (count - ret)) rb;
                let p = p\<lparr>pp_fifo := Some rb\<rparr>;
                let ret = ret + len;
                if ret = count then pipe_write_end True (sint ret) p k
                else if flags AND O_NONBLOCK \<noteq> 0 then pipe_write_end True (if ret = 0 then - EAGAIN else sint ret) p k
                else do { k1 \<leftarrow> pipe_unlock p k; when_running k (pipe_write_full p) p k1 } })"

definition pipe_fops_write :: "u32 \<Rightarrow> u8 list \<Rightarrow> u32 \<Rightarrow> rt_pipe \<Rightarrow> kernel \<Rightarrow> (int outcome \<times> rt_pipe \<times> kernel) option" where
  "pipe_fops_write flags buf count p k =
     (if pp_readers p = 0 then Some (Return (- EPIPE), p, k)
      else if count = 0 then Some (Return 0, p, k)
      else with_lock (pp_lock p) (pipe_write_locked flags buf count False 0 p) p k)"

definition pipe_fops_write_resumed ::
  "tid \<Rightarrow> u32 \<Rightarrow> u8 list \<Rightarrow> u32 \<Rightarrow> u32 \<Rightarrow> rt_pipe \<Rightarrow> kernel \<Rightarrow> (int outcome \<times> rt_pipe \<times> kernel) option" where
  "pipe_fops_write_resumed t flags buf count ret p k =
     (let p = p\<lparr>pp_writer_queue := snd (rt_wqueue_wait_resumed t (pp_writer_queue p))\<rparr>
      in with_lock (pp_lock p) (pipe_write_locked flags buf count True ret p) p k)"

text \<open>Polling enters the request in both wait queues through its function, if it has one.\<close>

definition rt_poll_add :: "(rt_wqueue \<Rightarrow> rt_wqueue) option \<Rightarrow> rt_wqueue \<Rightarrow> rt_wqueue" where
  "rt_poll_add proc wq = (case proc of Some f \<Rightarrow> f wq | None \<Rightarrow> wq)"

definition pipe_fops_poll :: "(rt_wqueue \<Rightarrow> rt_wqueue) option \<Rightarrow> u32 \<Rightarrow> rt_pipe \<Rightarrow> (u32 \<times> rt_pipe) option" where
  "pipe_fops_poll proc flags p =
     (let p = p\<lparr>pp_reader_queue := rt_poll_add proc (pp_reader_queue p)\<rparr>;
          p = p\<lparr>pp_writer_queue := rt_poll_add proc (pp_writer_queue p)\<rparr>;
          access = flags AND O_ACCMODE;
          mode = (if access = O_RDONLY then 1 else if access = O_WRONLY then 2 else if access = O_RDWR then 3 else 0 :: u32)
      in do { mask \<leftarrow> (if mode AND 1 \<noteq> 0
                      then do { rb \<leftarrow> pp_fifo p;
                                Some ((if rt_ringbuffer_data_len rb \<noteq> 0 then POLLIN else 0) OR (if pp_writers p = 0 then POLLHUP else 0)) }
                      else Some 0);
              mask \<leftarrow> (if mode AND 2 \<noteq> 0
                      then do { rb \<leftarrow> pp_fifo p;
                                Some (mask OR (if rt_ringbuffer_space_len rb \<noteq> 0 then POLLOUT else 0) OR (if pp_readers p = 0 then POLLERR else 0)) }
                      else Some mask);
              Some (mask, p) })"

text \<open>The device interface of a pipe.\<close>

definition rt_pipe_open :: "bool \<times> u8 list option \<Rightarrow> rt_pipe \<Rightarrow> kernel \<Rightarrow> (rt_err outcome \<times> rt_pipe \<times> kernel) option" where
  "rt_pipe_open mem p k =
     with_lock (pp_lock p) (\<lambda>k. do { p \<leftarrow> (if pp_fifo p = None then pipe_new_fifo mem p else Some p);
                                     k \<leftarrow> pipe_unlock p k;
                                     Some (Return RT_EOK, p, k) }) p k"

definition rt_pipe_close :: "rt_device \<Rightarrow> rt_pipe \<Rightarrow> kernel \<Rightarrow> (rt_err outcome \<times> rt_pipe \<times> kernel) option" where
  "rt_pipe_close dev p k =
     with_lock (pp_lock p) (\<lambda>k. do { p \<leftarrow> (if dev_ref_count dev = 1 then pipe_drop_fifo p else Some p);
                                     k \<leftarrow> pipe_unlock p k;
                                     Some (Return RT_EOK, p, k) }) p k"

partial_function (option) pipe_read_loop :: "u8 list \<Rightarrow> u32 \<Rightarrow> u32 \<Rightarrow> rt_ringbuffer \<Rightarrow> (u32 \<times> u8 list \<times> rt_ringbuffer) option" where
  "pipe_read_loop buf count read_bytes rb =
     (if read_bytes < count
      then do { (len, rest, rb) \<leftarrow> rt_ringbuffer_get (drop (unat read_bytes) buf) (ucast (count - read_bytes)) rb;
                let buf = take (unat read_bytes) buf @ rest;
                if sint len \<le> 0 then Some (read_bytes, buf, rb) else pipe_read_loop buf count (read_bytes + len) rb }
      else Some (read_bytes, buf, rb))"

partial_function (option) pipe_write_loop :: "u8 list \<Rightarrow> u32 \<Rightarrow> u32 \<Rightarrow> rt_ringbuffer \<Rightarrow> (u32 \<times> rt_ringbuffer) option" where
  "pipe_write_loop buf count write_bytes rb =
     (if write_bytes < count
      then do { (len, rb) \<leftarrow> rt_ringbuffer_put (drop (unat write_bytes) buf) (ucast (count - write_bytes)) rb;
                if sint len \<le> 0 then Some (write_bytes, rb) else pipe_write_loop buf count (write_bytes + len) rb }
      else Some (write_bytes, rb))"

definition rt_pipe_read :: "u8 list \<Rightarrow> u32 \<Rightarrow> rt_pipe \<Rightarrow> kernel \<Rightarrow> ((u32 \<times> u8 list) outcome \<times> rt_pipe \<times> kernel) option" where
  "rt_pipe_read buf count p k =
     (if count = 0 then Some (Return (0, buf), p, k)
      else with_lock (pp_lock p) (\<lambda>k. do { rb \<leftarrow> pp_fifo p;
                                           (n, buf, rb) \<leftarrow> pipe_read_loop buf count 0 rb;
                                           k \<leftarrow> pipe_unlock p k;
                                           Some (Return (n, buf), p\<lparr>pp_fifo := Some rb\<rparr>, k) }) p k)"

definition rt_pipe_write :: "u8 list \<Rightarrow> u32 \<Rightarrow> rt_pipe \<Rightarrow> kernel \<Rightarrow> (u32 outcome \<times> rt_pipe \<times> kernel) option" where
  "rt_pipe_write buf count p k =
     (if count = 0 then Some (Return 0, p, k)
      else with_lock (pp_lock p) (\<lambda>k. do { rb \<leftarrow> pp_fifo p;
                                           (n, rb) \<leftarrow> pipe_write_loop buf count 0 rb;
                                           k \<leftarrow> pipe_unlock p k;
                                           Some (Return n, p\<lparr>pp_fifo := Some rb\<rparr>, k) }) p k)"

definition rt_pipe_control :: rt_err where
  "rt_pipe_control = RT_EOK"

text \<open>rt_pipe_create with the control block from the allocator; lock and d are the numbers of its
  mutex and device.\<close>

abbreviation RT_Device_Class_Pipe :: u32 where "RT_Device_Class_Pipe \<equiv> 16"

definition rt_pipe_create ::
  "bool \<Rightarrow> nat \<Rightarrow> nat \<Rightarrow> u8 list \<Rightarrow> int \<Rightarrow> (nat \<Rightarrow> rt_device) \<Rightarrow> kernel \<Rightarrow> (rt_pipe option \<times> (nat \<Rightarrow> rt_device) \<times> kernel) option" where
  "rt_pipe_create mem lock d name bufsz devs k =
     (if \<not> mem then Some (None, devs, k)
      else do { k \<leftarrow> rt_mutex_init lock name RT_IPC_FLAG_FIFO k;
                if \<not> bufsz < 0xffff then None
                else do { let devs = devs(d := \<lparr>dev_type = RT_Device_Class_Pipe, dev_flag = 0, dev_open_flag = 0, dev_ref_count = 0,
                                                dev_rx_indicate = None, dev_tx_complete = None\<rparr>);
                          (r, devs, k) \<leftarrow> rt_device_register (Some d) name 0x007 devs k;
                          if r \<noteq> RT_EOK then Some (None, devs, k)
                          else Some (Some \<lparr>pp_fifo = None, pp_bufsz = of_int bufsz, pp_readers = 0, pp_writers = 0,
                                           pp_reader_queue = [], pp_writer_queue = [], pp_lock = lock\<rparr>, devs, k) } })"

text \<open>lock gives the mutex of the pipe that is the device d.  The result is -RT_EBUSY (7), -ENODEV or
  0; with 0 the ring buffer and the pipe itself have been freed.\<close>

definition rt_pipe_delete :: "(nat \<Rightarrow> nat) \<Rightarrow> u8 list \<Rightarrow> (nat \<Rightarrow> rt_device) \<Rightarrow> kernel \<Rightarrow> (int \<times> kernel) option" where
  "rt_pipe_delete lock name devs k =
     do { (device, k) \<leftarrow> rt_device_find name k;
          case device of
            None \<Rightarrow> Some (- ENODEV, k)
          | Some d \<Rightarrow>
              if dev_type (devs d) = RT_Device_Class_Pipe
              then if dev_ref_count (devs d) \<noteq> 0 then Some (- 7, k)
                   else do { k \<leftarrow> rt_mutex_detach (lock d) k;
                             Some (0, snd (rt_device_unregister d k)) }
              else Some (- ENODEV, k) }"

text \<open>The POSIX functions.  open and close belong to the file system, a parameter; the names that
  rt_snprintf writes from the number of the pipe are arguments.\<close>

abbreviation PIPE_BUFSZ :: int where "PIPE_BUFSZ \<equiv> 512"

type_synonym pipe_state = "rt_pipe \<times> (nat \<Rightarrow> rt_device) \<times> kernel"

definition pipe_posix ::
  "bool \<Rightarrow> nat \<Rightarrow> nat \<Rightarrow> u8 list \<Rightarrow> u8 list \<Rightarrow> (u8 list \<Rightarrow> u32 \<Rightarrow> pipe_state \<Rightarrow> (int \<times> pipe_state) option) \<Rightarrow>
   (int \<Rightarrow> pipe_state \<Rightarrow> (int \<times> pipe_state) option) \<Rightarrow> (nat \<Rightarrow> rt_device) \<Rightarrow> kernel \<Rightarrow>
   (int \<times> int list \<times> rt_pipe option \<times> (nat \<Rightarrow> rt_device) \<times> kernel) option" where
  "pipe_posix mem lock d dname dev_name open_file close_file devs k =
     do { (pipe, devs, k) \<leftarrow> rt_pipe_create mem lock d dname PIPE_BUFSZ devs k;
          case pipe of
            None \<Rightarrow> Some (- 1, [], None, devs, k)
          | Some p \<Rightarrow>
              do { (fd0, p, devs, k) \<leftarrow> open_file dev_name O_RDONLY (p, devs, k);
                   if fd0 < 0 then Some (- 1, [fd0], Some p, devs, k)
                   else do { (fd1, p, devs, k) \<leftarrow> open_file dev_name O_WRONLY (p, devs, k);
                             if fd1 < 0
                             then do { (_, p, devs, k) \<leftarrow> close_file fd1 (p, devs, k); Some (- 1, [fd0, fd1], Some p, devs, k) }
                             else Some (0, [fd0, fd1], Some p, devs, k) } } }"

definition mkfifo :: "bool \<Rightarrow> nat \<Rightarrow> nat \<Rightarrow> u8 list \<Rightarrow> (nat \<Rightarrow> rt_device) \<Rightarrow> kernel \<Rightarrow> (int \<times> (nat \<Rightarrow> rt_device) \<times> kernel) option" where
  "mkfifo mem lock d path devs k =
     do { (pipe, devs, k) \<leftarrow> rt_pipe_create mem lock d path PIPE_BUFSZ devs k;
          Some (if pipe = None then - 1 else 0, devs, k) }"

section \<open>The lock of a pipe\<close>

text \<open>The running thread can take the mutex without waiting.\<close>

definition lock_ready :: "nat \<Rightarrow> tid \<Rightarrow> kernel \<Rightarrow> bool" where
  "lock_ready i t k \<longleftrightarrow> kernel_ok k \<and> mutex_ok k i \<and> mutexes k i = mutex_free \<and> rt_current_thread k = Some t \<and>
     rt_interrupt_nest k = 0 \<and> thread_stat k t = RT_THREAD_READY"

definition lock_held :: "nat \<Rightarrow> tid \<Rightarrow> kernel \<Rightarrow> bool" where
  "lock_held i t k \<longleftrightarrow> kernel_ok k \<and> mutex_ok k i \<and> mx_owner (mutexes k i) = Some t \<and> mx_hold (mutexes k i) = 1 \<and>
     tlists k (MutexQ i) = [] \<and> rt_current_thread k = Some t \<and> rt_interrupt_nest k = 0 \<and> thread_stat k t = RT_THREAD_READY"

lemma lock_take:
  assumes "lock_ready i t k"
  shows "\<exists>k'. rt_mutex_take i time k = Some (Return RT_EOK, k') \<and> lock_held i t k'"
proof -
  have a: "kernel_ok k" "mutex_ok k i" "mutexes k i = mutex_free" "rt_current_thread k = Some t" "rt_interrupt_nest k = 0"
    "thread_stat k t = RT_THREAD_READY" using assms by (simp_all add: lock_ready_def)
  let ?p = "th_current_priority (threads k t)"
  define k0 where "k0 = upd_thread t (\<lambda>th. th\<lparr>th_error := RT_EOK\<rparr>) k"
  define k1 where "k1 = upd_mutex i (\<lambda>m. m\<lparr>mx_value := mx_value m - 1, mx_owner := Some t,
               mx_original_priority := th_current_priority (threads k0 t), mx_hold := mx_hold m + 1\<rparr>) k0"
  have e1: "mutexes k1 = (mutexes k)(i := \<lparr>mx_value = 0, mx_original_priority = ?p, mx_hold = 1, mx_owner = Some t\<rparr>)"
    "tlists k1 = tlists k" "objs k1 = objs k" "rt_current_thread k1 = rt_current_thread k"
    "rt_interrupt_nest k1 = rt_interrupt_nest k" "\<And>s. thread_stat k1 s = thread_stat k s"
    using a(3) by (simp_all add: k1_def k0_def upd_mutex_def upd_thread_def mutex_free_def)
  have nw: "tlists k (MutexQ i) = []" using a(2,3) by (simp add: mutex_ok_def mutex_free_def)
  have ok1: "kernel_ok k1" using set_error_ok[OF a(1)] by (simp add: k1_def k0_def)
  have mx1: "mutex_ok k1 i" using a(2,6) nw prio_lt_32[OF a(1), of t] by (simp add: mutex_ok_def Let_def e1)
  have m0: "mutexes k0 = mutexes k" by (simp add: k0_def upd_thread_def)
  have "rt_mutex_take i time k = Some (Return RT_EOK, k1)"
    using a(3-5) m0 by (simp add: rt_mutex_take_def mutex_take_again_def context_defs k0_def[symmetric] k1_def mutex_free_def)
  then show ?thesis using ok1 mx1 nw a(4-6) by (simp add: lock_held_def e1)
qed

lemma lock_release:
  assumes "lock_held i t k"
  shows "\<exists>k'. rt_mutex_release i k = Some (RT_EOK, k') \<and> lock_ready i t k'"
proof -
  have a: "kernel_ok k" "mutex_ok k i" "mx_owner (mutexes k i) = Some t" "mx_hold (mutexes k i) = 1"
     "tlists k (MutexQ i) = []" "rt_current_thread k = Some t" "rt_interrupt_nest k = 0" "thread_stat k t = RT_THREAD_READY"
    using assms by (simp_all add: lock_held_def)
  from mutex_release_frees[OF a] show ?thesis by (auto simp: lock_ready_def)
qed

lemma pipe_unlock_ok: "lock_held (pp_lock p) t k \<Longrightarrow> \<exists>k'. pipe_unlock p k = Some k' \<and> lock_ready (pp_lock p) t k'"
  using lock_release[of "pp_lock p" t k] by (auto simp: pipe_unlock_def)

lemma with_lock_ok:
  assumes "lock_ready i t k"
  shows "\<exists>k'. with_lock i f s k = f k' \<and> lock_held i t k'"
  using lock_take[OF assms, of "- 1"] by (auto simp: with_lock_def)

section \<open>Reading and writing\<close>

text \<open>An open pipe whose lock is free, with no thread in its wait queues.\<close>

definition pipe_ready :: "tid \<Rightarrow> rt_ringbuffer \<Rightarrow> rt_pipe \<Rightarrow> kernel \<Rightarrow> bool" where
  "pipe_ready t rb p k \<longleftrightarrow> lock_ready (pp_lock p) t k \<and> pp_fifo p = Some rb \<and> rb_ok rb \<and> pp_readers p \<noteq> 0 \<and> pp_writers p \<noteq> 0 \<and>
     pp_reader_queue p = [] \<and> pp_writer_queue p = []"


lemma unlock_running:
  assumes "lock_held (pp_lock p) t k"
  shows "\<exists>k'. pipe_unlock p k = Some k' \<and> lock_ready (pp_lock p) t k' \<and> when_running k f s k' = f k'"
  using pipe_unlock_ok[OF assms] assms by (auto simp: when_running_def lock_held_def lock_ready_def)

lemma when_running_refl [simp]: "when_running k f s k = f k"
  by (simp add: when_running_def)




section \<open>Properties\<close>


text \<open>The bytes that the last writer leaves behind are lost to the readers: once it has closed
  its end, a read returns 0, end of file, although the pipe holds data.\<close>

theorem pipe_last_writer_loses_data:
  assumes "pipe_ready t rb p k" and "pp_writers p = 1" and "1 < dev_ref_count dev" and "flags AND O_ACCMODE = O_WRONLY"
  shows "\<exists>dev' p' k'. pipe_fops_close flags dev p k = Some (Return 0, (dev', p'), k') \<and> pp_fifo p' = Some rb \<and>
     pipe_fops_read rflags buf count p' k' = Some (Return (0, buf), p', k')"
proof -
  have q: "pp_readers p \<noteq> 0" "pp_fifo p = Some rb" "lock_ready (pp_lock p) t k" "pp_reader_queue p = []"
    using assms(1) by (simp_all add: pipe_ready_def)
  define p' where "p' = p\<lparr>pp_writers := 0\<rparr>"
  have c: "pipe_count (\<lambda>n. n - 1) flags p = p'" using assms(2,4) by (simp add: pipe_count_def p'_def)
  have s: "pp_writers p' = 0" "pp_readers p' \<noteq> 0" "\<And>key k. rt_wqueue_wakeup key (pp_reader_queue p') k = Some (pp_reader_queue p', k)"
    using q(1,4) by (simp_all add: p'_def)
  obtain k1 where k1: "with_lock (pp_lock p) (pipe_close_locked flags dev p) (dev, p) k = pipe_close_locked flags dev p k1"
    "lock_held (pp_lock p) t k1"
    using with_lock_ok[OF q(3), of "pipe_close_locked flags dev p" "(dev, p)"] by (elim exE conjE)
  have d: "dev_ref_count dev \<noteq> 1" using assms(3) by auto
  from pipe_unlock_ok[of p' t k1] k1(2) obtain k2 where k2: "pipe_unlock p' k1 = Some k2" by (auto simp: p'_def)
  have "pipe_close_locked flags dev p k1 = Some (Return 0, (dev\<lparr>dev_ref_count := dev_ref_count dev - 1\<rparr>, p'), k2)"
    using c s d k2 by (simp add: pipe_close_locked_def pipe_close_writers_def pipe_close_end_def)
  then have "pipe_fops_close flags dev p k = Some (Return 0, (dev\<lparr>dev_ref_count := dev_ref_count dev - 1\<rparr>, p'), k2)"
    using k1(1) by (simp only: pipe_fops_close_def)
  then show ?thesis using q(2) by (simp add: p'_def pipe_fops_read_def)
qed


text \<open>The close function of a pipe device as rt_device_close calls it; when it has to wait for the
  lock there is no result.\<close>

definition pipe_close_op :: "(rt_pipe, rt_err) driver_fun" where
  "pipe_close_op dev p k =
     do { (r, p, k) \<leftarrow> rt_pipe_close dev p k; case r of Return e \<Rightarrow> Some (e, dev, p, k) | Blocked \<Rightarrow> None }"

text \<open>The ring buffer of a pipe device is not freed by its last close: rt_device_close has counted the
  user out before it calls the driver, which waits for a count of one.  The bytes in it are found by the
  next user.\<close>

lemma pipe_device_close_keeps_fifo:
  assumes "lock_ready (pp_lock p) t k" and "op_close ops = Some pipe_close_op" and "dev_ref_count dev = 1"
  shows "\<exists>dev' k'. rt_device_close ops dev p k = Some (RT_EOK, dev', p, k') \<and> dev_ref_count dev' = 0"
proof -
  let ?f = "\<lambda>k. do { p \<leftarrow> (if dev_ref_count (dev\<lparr>dev_ref_count := 0\<rparr>) = 1 then pipe_drop_fifo p else Some p);
                     k \<leftarrow> pipe_unlock p k;
                     Some (Return RT_EOK, p, k) }"
  from with_lock_ok[OF assms(1), of ?f p] obtain k1 where k1: "with_lock (pp_lock p) ?f p k = ?f k1" "lock_held (pp_lock p) t k1"
    by (elim exE conjE)
  from pipe_unlock_ok[OF k1(2)] obtain k2 where "pipe_unlock p k1 = Some k2" by blast
  with k1(1) have "rt_pipe_close (dev\<lparr>dev_ref_count := 0\<rparr>) p k = Some (Return RT_EOK, p, k2)" by (simp add: rt_pipe_close_def)
  then show ?thesis using assms(2,3) by (simp add: rt_device_close_def pipe_close_op_def)
qed

text \<open>The count of a write is cut to 16 bits: 65536 bytes are taken for none, and even an empty pipe
  is full for them.\<close>

lemma pipe_write_64k:
  assumes "pipe_ready t rb p k" and "flags AND O_NONBLOCK \<noteq> 0"
  shows "\<exists>p' k'. pipe_fops_write flags data 0x10000 p k = Some (Return (- EAGAIN), p', k') \<and>
    map_option rb_contents (pp_fifo p') = Some (rb_contents rb)"
proof -
  have q: "pp_readers p \<noteq> 0" "pp_fifo p = Some rb" "rb_ok rb" "lock_ready (pp_lock p) t k" "pp_reader_queue p = []"
    using assms(1) by (simp_all add: pipe_ready_def)
  obtain k1 where k1: "with_lock (pp_lock p) (pipe_write_locked flags data 0x10000 False 0 p) p k =
      pipe_write_locked flags data 0x10000 False 0 p k1" "lock_held (pp_lock p) t k1"
    using with_lock_ok[OF q(4), of "pipe_write_locked flags data 0x10000 False 0 p" p] by (elim exE conjE)
  from rb_put_ok[OF q(3), of 0 data] obtain rb' where
    rb': "rt_ringbuffer_put data 0 rb = Some (0, rb')" "rb_contents rb' = rb_contents rb" by auto
  define p' where "p' = p\<lparr>pp_fifo := Some rb'\<rparr>"
  have "lock_held (pp_lock p') t k1" using k1(2) by (simp add: p'_def)
  from unlock_running[OF this, where f = "pipe_write_wakeup True (- EAGAIN) p'" and s = p'] obtain k2 where
    k2: "pipe_unlock p' k1 = Some k2"
      "when_running k1 (pipe_write_wakeup True (- EAGAIN) p') p' k2 = pipe_write_wakeup True (- EAGAIN) p' k2" by blast
  have z: "(0x10000 :: u16) = 0" by (simp add: word_unat_eq_iff)
  have "pipe_write_locked flags data 0x10000 False 0 p k1 = pipe_write_end True (- EAGAIN) p' k1"
    unfolding pipe_write_locked_def using q(1,2) rb'(1) assms(2) by (simp add: p'_def z)
  then have "pipe_fops_write flags data 0x10000 p k = Some (Return (- EAGAIN), p'\<lparr>pp_reader_queue := []\<rparr>, k2)"
    using q(1,5) k1(1) k2 by (simp add: pipe_fops_write_def pipe_write_end_def pipe_write_wakeup_def p'_def)
  then show ?thesis using rb'(2) by (simp add: p'_def)
qed

section \<open>Witnesses\<close>

definition ex_pipe :: rt_pipe where
  "ex_pipe = \<lparr>pp_fifo = Some ex_rb, pp_bufsz = 4, pp_readers = 1, pp_writers = 1, pp_reader_queue = [], pp_writer_queue = [], pp_lock = 2\<rparr>"

lemma ex_pipe_ready: "pipe_ready 2 ex_rb ex_pipe ex_kernel"
proof -
  have "mutex_ok ex_kernel 2" "mutexes ex_kernel 2 = mutex_free" by (simp_all add: mutex_ok_def ex_kernel_def mutex_free_def)
  then show ?thesis using ex_kernel_ok ex_rb_ok(1) by (simp add: pipe_ready_def lock_ready_def ex_pipe_def)
qed


theorem pipe_last_writer_loses_data_witness:
  "\<exists>dev' p' k'. pipe_fops_close 1 (ex_device\<lparr>dev_ref_count := 2\<rparr>) ex_pipe ex_kernel = Some (Return 0, (dev', p'), k') \<and>
     map_option rb_contents (pp_fifo p') = Some [13, 10] \<and> pipe_fops_read 0 [5] 1 p' k' = Some (Return (0, [5]), p', k')"
  using pipe_last_writer_loses_data[OF ex_pipe_ready, of "ex_device\<lparr>dev_ref_count := 2\<rparr>" 1 0 "[5]" 1] ex_rb_ok(4)
  by (auto simp: ex_pipe_def)


end
