(* ===== verification/Button.thy ===== *)
theory Button
  imports Prelude
begin

text \<open>
  beken378/func/key/multi_button.c: buttons that are polled every 5 ms, their debouncing, the state
  machine that turns presses into events, and the list of the buttons that are polled.
\<close>

section \<open>Operations\<close>

datatype press_evt = PRESS_DOWN | PRESS_UP | PRESS_REPEAT | SINGLE_CLICK | DOUBLE_CLICK | LONG_RRESS_START | LONG_PRESS_HOLD | NONE_PRESS

text \<open>The number of an event as it is stored in the field event.\<close>

primrec evt_code :: "press_evt \<Rightarrow> 4 word" where
  "evt_code PRESS_DOWN = 0"
| "evt_code PRESS_UP = 1"
| "evt_code PRESS_REPEAT = 2"
| "evt_code SINGLE_CLICK = 3"
| "evt_code DOUBLE_CLICK = 4"
| "evt_code LONG_RRESS_START = 5"
| "evt_code LONG_PRESS_HOLD = 6"
| "evt_code NONE_PRESS = 8"

abbreviation DEBOUNCE_TICKS :: "3 word" where "DEBOUNCE_TICKS \<equiv> 3"
abbreviation SHORT_TICKS :: u16 where "SHORT_TICKS \<equiv> 60"
abbreviation LONG_TICKS :: u16 where "LONG_TICKS \<equiv> 200"

text \<open>The struct BUTTON_S with its bit fields.  Buttons, the functions that read a pin and the
  callbacks are known by numbers.\<close>

record button =
  bt_ticks :: u16
  bt_repeat :: "4 word"
  bt_event :: "4 word"
  bt_state :: "3 word"
  bt_debounce_cnt :: "3 word"
  bt_active_level :: "1 word"
  bt_button_level :: "1 word"
  bt_hal_button_Level :: nat
  bt_cb :: "press_evt \<Rightarrow> nat option"
  bt_next :: "nat option"

text \<open>The levels that the pin functions read now, and the callbacks, which get the button and may act
  on the world ('w).\<close>

type_synonym pins = "nat \<Rightarrow> u8"
type_synonym 'w btn_callbacks = "nat \<Rightarrow> button \<Rightarrow> 'w \<Rightarrow> button \<times> 'w"

text \<open>The call of memset has its arguments in the wrong order: it sets no byte.\<close>

definition button_init :: "pins \<Rightarrow> nat \<Rightarrow> u8 \<Rightarrow> button \<Rightarrow> button" where
  "button_init pins pin_level active_level handle =
     (let handle = handle\<lparr>bt_event := evt_code NONE_PRESS\<rparr>;
          handle = handle\<lparr>bt_hal_button_Level := pin_level\<rparr>;
          handle = handle\<lparr>bt_button_level := ucast (pins (bt_hal_button_Level handle))\<rparr>
      in handle\<lparr>bt_active_level := ucast active_level\<rparr>)"

definition button_attach :: "press_evt \<Rightarrow> nat option \<Rightarrow> button \<Rightarrow> button" where
  "button_attach event cb handle = handle\<lparr>bt_cb := (bt_cb handle)(event := cb)\<rparr>"

definition button_get_event :: "button \<Rightarrow> 4 word" where
  "button_get_event handle = bt_event handle"

definition EVENT_CB :: "'w btn_callbacks \<Rightarrow> press_evt \<Rightarrow> button \<times> 'w \<Rightarrow> button \<times> 'w" where
  "EVENT_CB cbs ev = (\<lambda>(handle, w). case bt_cb handle ev of Some n \<Rightarrow> cbs n handle w | None \<Rightarrow> (handle, w))"

definition button_debounce :: "u8 \<Rightarrow> button \<Rightarrow> button" where
  "button_debounce read_gpio_level handle =
     (if read_gpio_level \<noteq> ucast (bt_button_level handle)
      then let handle = handle\<lparr>bt_debounce_cnt := bt_debounce_cnt handle + 1\<rparr>
           in if bt_debounce_cnt handle \<ge> DEBOUNCE_TICKS
              then handle\<lparr>bt_button_level := ucast read_gpio_level, bt_debounce_cnt := 0\<rparr>
              else handle
      else handle\<lparr>bt_debounce_cnt := 0\<rparr>)"

definition set_event :: "press_evt \<Rightarrow> button \<times> 'w \<Rightarrow> button \<times> 'w" where
  "set_event ev = (\<lambda>(handle, w). (handle\<lparr>bt_event := evt_code ev\<rparr>, w))"

text \<open>The cases of the state machine, in the order of the states.\<close>

definition button_state0 :: "'w btn_callbacks \<Rightarrow> button \<times> 'w \<Rightarrow> button \<times> 'w" where
  "button_state0 cbs s =
     (if bt_button_level (fst s) = bt_active_level (fst s)
      then let s = EVENT_CB cbs PRESS_DOWN (set_event PRESS_DOWN s)
           in ((fst s)\<lparr>bt_ticks := 0, bt_repeat := 1, bt_state := 1\<rparr>, snd s)
      else set_event NONE_PRESS s)"

definition button_state1 :: "'w btn_callbacks \<Rightarrow> button \<times> 'w \<Rightarrow> button \<times> 'w" where
  "button_state1 cbs s =
     (if bt_button_level (fst s) \<noteq> bt_active_level (fst s)
      then let s = EVENT_CB cbs PRESS_UP (set_event PRESS_UP s)
           in ((fst s)\<lparr>bt_ticks := 0, bt_state := 2\<rparr>, snd s)
      else if bt_ticks (fst s) > LONG_TICKS
      then let s = EVENT_CB cbs LONG_RRESS_START (set_event LONG_RRESS_START s)
           in ((fst s)\<lparr>bt_state := 5\<rparr>, snd s)
      else s)"

definition button_state2 :: "'w btn_callbacks \<Rightarrow> button \<times> 'w \<Rightarrow> button \<times> 'w" where
  "button_state2 cbs s =
     (if bt_button_level (fst s) = bt_active_level (fst s)
      then let s = EVENT_CB cbs PRESS_DOWN (set_event PRESS_DOWN s);
               s = ((fst s)\<lparr>bt_repeat := bt_repeat (fst s) + 1\<rparr>, snd s);
               s = (if bt_repeat (fst s) = 2 then EVENT_CB cbs DOUBLE_CLICK s else s);
               s = EVENT_CB cbs PRESS_REPEAT s
           in ((fst s)\<lparr>bt_ticks := 0, bt_state := 3\<rparr>, snd s)
      else if bt_ticks (fst s) > SHORT_TICKS
      then let s = (if bt_repeat (fst s) = 1 then EVENT_CB cbs SINGLE_CLICK (set_event SINGLE_CLICK s)
                    else if bt_repeat (fst s) = 2 then set_event DOUBLE_CLICK s
                    else s)
           in ((fst s)\<lparr>bt_state := 0\<rparr>, snd s)
      else s)"

definition button_state3 :: "'w btn_callbacks \<Rightarrow> button \<times> 'w \<Rightarrow> button \<times> 'w" where
  "button_state3 cbs s =
     (if bt_button_level (fst s) \<noteq> bt_active_level (fst s)
      then let s = EVENT_CB cbs PRESS_UP (set_event PRESS_UP s)
           in if bt_ticks (fst s) < SHORT_TICKS
              then ((fst s)\<lparr>bt_ticks := 0, bt_state := 2\<rparr>, snd s)
              else ((fst s)\<lparr>bt_state := 0\<rparr>, snd s)
      else s)"

definition button_state5 :: "'w btn_callbacks \<Rightarrow> button \<times> 'w \<Rightarrow> button \<times> 'w" where
  "button_state5 cbs s =
     (if bt_button_level (fst s) = bt_active_level (fst s)
      then EVENT_CB cbs LONG_PRESS_HOLD (set_event LONG_PRESS_HOLD s)
      else let s = EVENT_CB cbs PRESS_UP (set_event PRESS_UP s)
           in ((fst s)\<lparr>bt_state := 0\<rparr>, snd s))"

definition button_handler :: "'w btn_callbacks \<Rightarrow> pins \<Rightarrow> button \<Rightarrow> 'w \<Rightarrow> button \<times> 'w" where
  "button_handler cbs pins handle w =
     (let read_gpio_level = pins (bt_hal_button_Level handle);
          handle = (if bt_state handle > 0 then handle\<lparr>bt_ticks := bt_ticks handle + 1\<rparr> else handle);
          s = (button_debounce read_gpio_level handle, w);
          state = bt_state (fst s)
      in if state = 0 then button_state0 cbs s
         else if state = 1 then button_state1 cbs s
         else if state = 2 then button_state2 cbs s
         else if state = 3 then button_state3 cbs s
         else if state = 5 then button_state5 cbs s
         else s)"

text \<open>The list of the buttons that are polled, linked through next from head_handle.\<close>

record button_list =
  bl_head_handle :: "nat option"
  bl_buttons :: "nat \<Rightarrow> button"

partial_function (option) button_search :: "nat \<Rightarrow> nat option \<Rightarrow> button_list \<Rightarrow> bool option" where
  "button_search handle target l =
     (case target of
        None \<Rightarrow> Some False
      | Some t \<Rightarrow> if t = handle then Some True else button_search handle (bt_next (bl_buttons l t)) l)"

definition upd_button :: "nat \<Rightarrow> (button \<Rightarrow> button) \<Rightarrow> button_list \<Rightarrow> button_list" where
  "upd_button h f l = l\<lparr>bl_buttons := (bl_buttons l)(h := f (bl_buttons l h))\<rparr>"

definition button_start :: "nat \<Rightarrow> button_list \<Rightarrow> (int \<times> button_list) option" where
  "button_start handle l =
     do { found \<leftarrow> button_search handle (bl_head_handle l) l;
          if found then Some (- 1, l)
          else let l = upd_button handle (\<lambda>b. b\<lparr>bt_next := bl_head_handle l\<rparr>) l
               in Some (0, l\<lparr>bl_head_handle := Some handle\<rparr>) }"

text \<open>cur points to head_handle (None) or to the field next of a button.\<close>

definition curr_get :: "nat option \<Rightarrow> button_list \<Rightarrow> nat option" where
  "curr_get cur l = (case cur of None \<Rightarrow> bl_head_handle l | Some b \<Rightarrow> bt_next (bl_buttons l b))"

definition curr_set :: "nat option \<Rightarrow> nat option \<Rightarrow> button_list \<Rightarrow> button_list" where
  "curr_set cur v l =
     (case cur of None \<Rightarrow> l\<lparr>bl_head_handle := v\<rparr> | Some b \<Rightarrow> upd_button b (\<lambda>x. x\<lparr>bt_next := v\<rparr>) l)"

partial_function (option) button_stop_loop :: "nat \<Rightarrow> nat option \<Rightarrow> button_list \<Rightarrow> button_list option" where
  "button_stop_loop handle cur l =
     (case curr_get cur l of
        None \<Rightarrow> Some l
      | Some entry \<Rightarrow>
          if entry = handle then button_stop_loop handle cur (curr_set cur (bt_next (bl_buttons l entry)) l)
          else button_stop_loop handle (Some entry) l)"

definition button_stop :: "nat \<Rightarrow> button_list \<Rightarrow> button_list option" where
  "button_stop handle l = button_stop_loop handle None l"

partial_function (option) button_ticks_loop :: "'w btn_callbacks \<Rightarrow> pins \<Rightarrow> nat option \<Rightarrow> button_list \<Rightarrow> 'w \<Rightarrow> (button_list \<times> 'w) option" where
  "button_ticks_loop cbs pins target l w =
     (case target of
        None \<Rightarrow> Some (l, w)
      | Some t \<Rightarrow>
          let (b, w) = button_handler cbs pins (bl_buttons l t) w;
              l = upd_button t (\<lambda>_. b) l
          in button_ticks_loop cbs pins (bt_next (bl_buttons l t)) l w)"

definition button_ticks :: "'w btn_callbacks \<Rightarrow> pins \<Rightarrow> button_list \<Rightarrow> 'w \<Rightarrow> (button_list \<times> 'w) option" where
  "button_ticks cbs pins l w = button_ticks_loop cbs pins (bl_head_handle l) l w"

section \<open>Gestures\<close>

text \<open>What the state machine is meant to recognise, with unbounded counters: a press, its duration, the
  pause after it, the presses that follow, a long press.  A step gets the debounced level (pressed or
  not) and gives the events.\<close>

datatype gesture = Idle | Pressed nat | Released nat nat | Again nat nat | Held

fun gesture_step :: "bool \<Rightarrow> gesture \<Rightarrow> gesture \<times> press_evt list" where
  "gesture_step d Idle = (if d then (Pressed 0, [PRESS_DOWN]) else (Idle, []))"
| "gesture_step d (Pressed t) =
     (if \<not> d then (Released 0 1, [PRESS_UP]) else if t < 200 then (Pressed (t + 1), []) else (Held, [LONG_RRESS_START]))"
| "gesture_step d (Released t n) =
     (if d then (Again 0 (n + 1), [PRESS_DOWN] @ (if n = 1 then [DOUBLE_CLICK] else []) @ [PRESS_REPEAT])
      else if t < 60 then (Released (t + 1) n, []) else (Idle, if n = 1 then [SINGLE_CLICK] else []))"
| "gesture_step d (Again t n) =
     (if d then (Again (t + 1) n, []) else (if t + 1 < 60 then Released 0 n else Idle, [PRESS_UP]))"
| "gesture_step d Held = (if d then (Held, [LONG_PRESS_HOLD]) else (Idle, [PRESS_UP]))"

text \<open>The level changes with the third reading in a row that differs from it.\<close>

definition debounce_step :: "bool \<Rightarrow> bool \<times> nat \<Rightarrow> bool \<times> nat" where
  "debounce_step r = (\<lambda>(d, c). if r = d then (d, 0) else if c < 2 then (d, c + 1) else (r, 0))"

text \<open>The counters of the code are bounded: 15 presses in a row, and a repeated press that lasts 65534
  polls.\<close>

fun in_range :: "gesture \<Rightarrow> bool" where
  "in_range (Pressed t) = (t \<le> 200)"
| "in_range (Released t n) = (t \<le> 60 \<and> 1 \<le> n \<and> n \<le> 15)"
| "in_range (Again t n) = (t < 65535 \<and> 1 \<le> n \<and> n \<le> 15)"
| "in_range _ = True"

fun gesture_run :: "bool list \<Rightarrow> gesture \<Rightarrow> bool \<times> nat \<Rightarrow> (gesture \<times> (bool \<times> nat) \<times> press_evt list) option" where
  "gesture_run [] g d = Some (g, d, [])"
| "gesture_run (r # rs) g d =
     (let d = debounce_step r d; (g, evs) = gesture_step (fst d) g
      in if in_range g then do { (g, d, evs') \<leftarrow> gesture_run rs g d; Some (g, d, evs @ evs') } else None)"

section \<open>The state machine recognises the gestures\<close>

text \<open>Callbacks that act on the world and leave the button alone; what an event does then.\<close>

definition only_act :: "(nat \<Rightarrow> 'w \<Rightarrow> 'w) \<Rightarrow> 'w btn_callbacks" where
  "only_act act n handle w = (handle, act n w)"

definition emit :: "(nat \<Rightarrow> 'w \<Rightarrow> 'w) \<Rightarrow> (press_evt \<Rightarrow> nat option) \<Rightarrow> press_evt \<Rightarrow> 'w \<Rightarrow> 'w" where
  "emit act cb ev w = (case cb ev of Some n \<Rightarrow> act n w | None \<Rightarrow> w)"

definition level_reading :: "button \<Rightarrow> bool \<Rightarrow> u8" where
  "level_reading b r = (if r then ucast (bt_active_level b) else 1 - ucast (bt_active_level b))"

definition button_run :: "'w btn_callbacks \<Rightarrow> u8 list \<Rightarrow> button \<times> 'w \<Rightarrow> button \<times> 'w" where
  "button_run cbs rs s = fold (\<lambda>r (b, w). button_handler cbs (\<lambda>_. r) b w) rs s"

fun gesture_rel :: "gesture \<Rightarrow> button \<Rightarrow> bool" where
  "gesture_rel Idle b = (bt_state b = 0)"
| "gesture_rel (Pressed t) b = (bt_state b = 1 \<and> bt_ticks b = of_nat t \<and> bt_repeat b = 1)"
| "gesture_rel (Released t n) b = (bt_state b = 2 \<and> bt_ticks b = of_nat t \<and> bt_repeat b = of_nat n)"
| "gesture_rel (Again t n) b = (bt_state b = 3 \<and> bt_ticks b = of_nat t \<and> bt_repeat b = of_nat n)"
| "gesture_rel Held b = (bt_state b = 5)"

definition level_rel :: "bool \<times> nat \<Rightarrow> button \<Rightarrow> bool" where
  "level_rel d b \<longleftrightarrow> fst d = (bt_button_level b = bt_active_level b) \<and> snd d \<le> 2 \<and> bt_debounce_cnt b = of_nat (snd d)"

lemma EVENT_CB_act [simp]: "EVENT_CB (only_act act) ev (b, w) = (b, emit act (bt_cb b) ev w)"
  by (simp add: EVENT_CB_def only_act_def emit_def split: option.splits)

lemma bit_word_cases: "(x :: 1 word) = 0 \<or> x = 1"
proof -
  have "unat x < 2 ^ LENGTH(1)" by (rule unsigned_less)
  then have "unat x = 0 \<or> unat x = 1" by auto
  then show ?thesis by (auto simp: word_unat_eq_iff)
qed

lemma reading_eq:
  fixes a l :: "1 word"
  shows "((if r then ucast a else 1 - ucast a) = (ucast l :: u8)) = (r = (l = a))"
    "(ucast (if r then ucast a else 1 - ucast a :: u8) = a) = r"
proof -
  have n: "(0 :: 1 word) \<noteq> 1" "(1 :: 1 word) \<noteq> 0" "(0 :: u8) \<noteq> 1" "(1 :: u8) \<noteq> 0" by simp_all
  have u: "ucast (0 :: 1 word) = (0 :: u8)" "ucast (1 :: 1 word) = (1 :: u8)" "ucast (0 :: u8) = (0 :: 1 word)" "ucast (1 :: u8) = (1 :: 1 word)"
    by simp_all
  from bit_word_cases[of a] bit_word_cases[of l]
  show "((if r then ucast a else 1 - ucast a) = (ucast l :: u8)) = (r = (l = a))"
    by (elim disjE; cases r) (simp_all only: u n if_True if_False diff_zero diff_self simp_thms)
  from bit_word_cases[of a] show "(ucast (if r then ucast a else 1 - ucast a :: u8) = a) = r"
    by (elim disjE; cases r) (simp_all only: u n if_True if_False diff_zero diff_self simp_thms)
qed

lemma debounce_cases:
  "button_debounce (level_reading b r) b =
     (if r = (bt_button_level b = bt_active_level b) then b\<lparr>bt_debounce_cnt := 0\<rparr>
      else if bt_debounce_cnt b + 1 \<ge> DEBOUNCE_TICKS
      then b\<lparr>bt_button_level := ucast (level_reading b r), bt_debounce_cnt := 0\<rparr>
      else b\<lparr>bt_debounce_cnt := bt_debounce_cnt b + 1\<rparr>)"
  using reading_eq(1)[of r "bt_active_level b" "bt_button_level b"] by (simp add: button_debounce_def level_reading_def)

lemma debounce_ok:
  assumes "level_rel d b"
  shows "level_rel (debounce_step r d) (button_debounce (level_reading b r) b)"
proof -
  obtain dl dc where d: "d = (dl, dc)" by (cases d)
  have a: "dl = (bt_button_level b = bt_active_level b)" "bt_debounce_cnt b = of_nat dc" "dc \<le> 2"
    using assms by (simp_all add: d level_rel_def)
  have l: "(ucast (level_reading b r) = bt_active_level b) = r" by (simp only: level_reading_def reading_eq(2))
  from a(3) consider "dc = 0" | "dc = 1" | "dc = 2" by linarith
  then have w: "(bt_debounce_cnt b + 1 \<ge> DEBOUNCE_TICKS) = (\<not> dc < 2)" by cases (simp_all add: a(2) word_le_nat_alt)
  show ?thesis
  proof (cases "r = dl")
    case True
    then have "button_debounce (level_reading b r) b = b\<lparr>bt_debounce_cnt := 0\<rparr>" unfolding debounce_cases using a(1) by simp
    then show ?thesis using True a(1) by (simp add: d debounce_step_def level_rel_def)
  next
    case ne: False
    show ?thesis
    proof (cases "dc < 2")
      case True
      then have "button_debounce (level_reading b r) b = b\<lparr>bt_debounce_cnt := bt_debounce_cnt b + 1\<rparr>"
        unfolding debounce_cases using ne a(1) w by simp
      then show ?thesis using True ne a by (simp add: d debounce_step_def level_rel_def)
    next
      case False
      then have "button_debounce (level_reading b r) b = b\<lparr>bt_button_level := ucast (level_reading b r), bt_debounce_cnt := 0\<rparr>"
        unfolding debounce_cases using ne a(1) w by simp
      then show ?thesis using False ne l by (simp add: d debounce_step_def level_rel_def)
    qed
  qed
qed

lemma debounce_keeps [simp]:
  "bt_state (button_debounce v b) = bt_state b" "bt_ticks (button_debounce v b) = bt_ticks b" "bt_repeat (button_debounce v b) = bt_repeat b"
  "bt_active_level (button_debounce v b) = bt_active_level b" "bt_cb (button_debounce v b) = bt_cb b"
  by (simp_all add: button_debounce_def Let_def)

lemma tick_words:
  assumes "t < 65535"
  shows "1 + of_nat t < (60 :: u16) \<longleftrightarrow> t + 1 < 60" "(60 :: u16) < 1 + of_nat t \<longleftrightarrow> \<not> t < 60" "(200 :: u16) < 1 + of_nat t \<longleftrightarrow> \<not> t < 200"
proof -
  have "unat (1 + of_nat t :: u16) = unat (of_nat (t + 1) :: u16)" by simp
  also have "\<dots> = t + 1" using assms by (simp only: unat_of_nat) (simp add: take_bit_nat_eq_self)
  finally have u: "unat (1 + of_nat t :: u16) = t + 1" .
  show "1 + of_nat t < (60 :: u16) \<longleftrightarrow> t + 1 < 60" "(60 :: u16) < 1 + of_nat t \<longleftrightarrow> \<not> t < 60" "(200 :: u16) < 1 + of_nat t \<longleftrightarrow> \<not> t < 200"
    unfolding word_less_nat_alt u by simp_all arith+
qed

lemma repeat_words:
  assumes "n < 16"
  shows "(of_nat n :: 4 word) = 1 \<longleftrightarrow> n = 1" "(of_nat n :: 4 word) = 2 \<longleftrightarrow> n = 2"
proof -
  have "unat (of_nat n :: 4 word) = n" using assms by (simp only: unat_of_nat) (simp add: take_bit_nat_eq_self)
  then show "(of_nat n :: 4 word) = 1 \<longleftrightarrow> n = 1" "(of_nat n :: 4 word) = 2 \<longleftrightarrow> n = 2" by (simp_all add: word_unat_eq_iff)
qed

definition step_goal :: "(nat \<Rightarrow> 'w \<Rightarrow> 'w) \<Rightarrow> bool \<times> nat \<Rightarrow> gesture \<times> press_evt list \<Rightarrow> button \<Rightarrow> 'w \<Rightarrow> button \<times> 'w \<Rightarrow> bool" where
  "step_goal act d g b w s \<longleftrightarrow> snd s = fold (emit act (bt_cb b)) (snd g) w \<and> gesture_rel (fst g) (fst s) \<and> level_rel d (fst s) \<and>
     bt_cb (fst s) = bt_cb b \<and> bt_active_level (fst s) = bt_active_level b"

lemmas fsm_defs = button_state0_def button_state1_def button_state2_def button_state3_def button_state5_def set_event_def Let_def

lemma step_ok:
  assumes g: "gesture_rel g b" and d: "level_rel d b" and r: "in_range g"
    and r': "in_range (fst (gesture_step (fst (debounce_step v d)) g))"
  shows "step_goal act (debounce_step v d) (gesture_step (fst (debounce_step v d)) g) b w
     (button_handler (only_act act) (\<lambda>_. level_reading b v) b w)"
proof -
  define b0 where "b0 = (if bt_state b > 0 then b\<lparr>bt_ticks := bt_ticks b + 1\<rparr> else b)"
  define b1 where "b1 = button_debounce (level_reading b v) b0"
  let ?d = "debounce_step v d"
  have b0: "bt_state b0 = bt_state b" "bt_repeat b0 = bt_repeat b" "bt_cb b0 = bt_cb b" "bt_active_level b0 = bt_active_level b"
     "level_reading b0 = level_reading b" "level_rel d b0"
    using d by (simp_all add: b0_def level_reading_def level_rel_def fun_eq_iff)
  have l1: "level_rel ?d b1" using debounce_ok[OF b0(6), of v] by (simp add: b1_def b0(5))
  then have lv: "fst ?d = (bt_button_level b1 = bt_active_level b1)" by (simp add: level_rel_def)
  have b1: "bt_state b1 = bt_state b" "bt_repeat b1 = bt_repeat b" "bt_cb b1 = bt_cb b" "bt_active_level b1 = bt_active_level b"
    using b0 by (simp_all add: b1_def)
  note l = l1[unfolded level_rel_def]
  have h: "button_handler (only_act act) (\<lambda>_. level_reading b v) b w =
     (let s = (b1, w); state = bt_state b1
      in if state = 0 then button_state0 (only_act act) s
         else if state = 1 then button_state1 (only_act act) s
         else if state = 2 then button_state2 (only_act act) s
         else if state = 3 then button_state3 (only_act act) s
         else if state = 5 then button_state5 (only_act act) s
         else s)"
    by (simp only: button_handler_def b0_def b1_def Let_def fst_conv)
  have tk: "bt_state b > 0 \<Longrightarrow> bt_ticks b1 = bt_ticks b + 1" by (simp add: b1_def b0_def)
  show ?thesis
  proof (cases g)
    case Idle
    then show ?thesis using g b1 l unfolding h
      by (simp add: step_goal_def level_rel_def fsm_defs lv)
  next
    case (Pressed t)
    then have "bt_ticks b1 = 1 + of_nat t" "t < 65535" using g tk r by (simp_all add: word_greater_zero_iff)
    then show ?thesis using Pressed g b1 l unfolding h
      by (simp add: step_goal_def level_rel_def fsm_defs lv tick_words add.commute)
  next
    case (Released t n)
    then have t: "bt_ticks b1 = 1 + of_nat t" "t < 65535" "n < 16" "n + 1 < 16 \<or> \<not> fst ?d" using g tk r r' by (auto simp: word_greater_zero_iff)
    have p: "(1 + of_nat n = (2 :: 4 word)) = (n = 1)" if "n + 1 < 16" using repeat_words(2)[OF that] by simp
    show ?thesis using t Released g b1 l p unfolding h
      by (simp add: step_goal_def level_rel_def fsm_defs lv tick_words repeat_words add.commute)
  next
    case (Again t n)
    then have a: "bt_ticks b1 = 1 + of_nat t" "t < 65535" "bt_state b1 = 3" using g tk r b1(1) by (simp_all add: word_greater_zero_iff)
    have "(3 :: 3 word) \<noteq> 0" by (simp add: word_unat_eq_iff)
    then have h3: "button_handler (only_act act) (\<lambda>_. level_reading b v) b w = button_state3 (only_act act) (b1, w)"
      unfolding h using a(3) by (simp add: Let_def)
    show ?thesis using Again a(1,2) g b1 l unfolding h3
      by (simp add: step_goal_def level_rel_def fsm_defs lv tick_words)
  next
    case Held
    then show ?thesis using g b1 l unfolding h
      by (simp add: step_goal_def level_rel_def fsm_defs lv)
  qed
qed

lemma button_run_ok:
  assumes "gesture_run vs g d = Some (g', d', evs)" and "gesture_rel g b" and "level_rel d b" and "in_range g"
  shows "\<exists>b'. button_run (only_act act) (map (level_reading b) vs) (b, w) = (b', fold (emit act (bt_cb b)) evs w) \<and>
     gesture_rel g' b' \<and> level_rel d' b'"
  using assms
proof (induction vs arbitrary: g d b w evs)
  case Nil
  then show ?case by (simp add: button_run_def)
next
  case (Cons v vs)
  let ?d = "debounce_step v d"
  obtain g1 ev1 where g1: "gesture_step (fst ?d) g = (g1, ev1)" by (cases "gesture_step (fst ?d) g")
  with Cons.prems(1) obtain evs' where r1: "in_range g1" "gesture_run vs g1 ?d = Some (g', d', evs')" "evs = ev1 @ evs'"
    by (auto simp: Let_def split: if_splits bind_splits)
  obtain b1 w1 where h: "button_handler (only_act act) (\<lambda>_. level_reading b v) b w = (b1, w1)" by (metis surj_pair)
  have "step_goal act ?d (g1, ev1) b w (b1, w1)"
    using step_ok[OF Cons.prems(2-4), of v act w] g1 r1(1) h by simp
  then have s: "w1 = fold (emit act (bt_cb b)) ev1 w" "gesture_rel g1 b1" "level_rel ?d b1" "bt_cb b1 = bt_cb b"
      "bt_active_level b1 = bt_active_level b" by (simp_all add: step_goal_def)
  have "level_reading b1 = level_reading b" using s(5) by (simp add: level_reading_def fun_eq_iff)
  with Cons.IH[OF r1(2) s(2,3) r1(1), of w1] s(1,4) r1(3) h show ?case by (simp add: button_run_def)
qed

section \<open>The gestures of presses\<close>

lemma press_steps:
  "gesture_run (True # True # True # vs) Idle (False, 0) = map_option (\<lambda>(g, d, e). (g, d, PRESS_DOWN # e)) (gesture_run vs (Pressed 0) (True, 0))"
  "t + 2 \<le> 200 \<Longrightarrow> gesture_run (False # False # False # vs) (Pressed t) (True, 0) =
     map_option (\<lambda>(g, d, e). (g, d, PRESS_UP # e)) (gesture_run vs (Released 0 1) (False, 0))"
  "t + 2 \<le> 60 \<Longrightarrow> gesture_run (True # True # True # vs) (Released t 1) (False, 0) =
     map_option (\<lambda>(g, d, e). (g, d, PRESS_DOWN # DOUBLE_CLICK # PRESS_REPEAT # e)) (gesture_run vs (Again 0 2) (True, 0))"
  "t + 3 < 60 \<Longrightarrow> gesture_run (False # False # False # vs) (Again t 2) (True, 0) =
     map_option (\<lambda>(g, d, e). (g, d, PRESS_UP # e)) (gesture_run vs (Released 0 2) (False, 0))"
  "n = 1 \<or> n = 2 \<Longrightarrow> gesture_run (False # vs) (Released 60 n) (False, 0) =
     map_option (\<lambda>(g, d, e). (g, d, (if n = 1 then [SINGLE_CLICK] else []) @ e)) (gesture_run vs Idle (False, 0))"
  by (auto simp: debounce_step_def Let_def map_option_case numeral_2_eq_2 split: option.splits)

lemma hold_steps:
  "t + k \<le> 200 \<Longrightarrow> gesture_run (replicate k True @ vs) (Pressed t) (True, 0) = gesture_run vs (Pressed (t + k)) (True, 0)"
  "t + k \<le> 60 \<Longrightarrow> n = 1 \<or> n = 2 \<Longrightarrow> gesture_run (replicate k False @ vs) (Released t n) (False, 0) = gesture_run vs (Released (t + k) n) (False, 0)"
  "t + k < 60 \<Longrightarrow> gesture_run (replicate k True @ vs) (Again t 2) (True, 0) = gesture_run vs (Again (t + k) 2) (True, 0)"
  "gesture_run (replicate k False) Idle (False, 0) = Some (Idle, (False, 0), [])"
  by (induction k arbitrary: t) (auto simp: debounce_step_def Let_def map_option_case split: option.splits)

lemma long_steps:
  "gesture_run (True # vs) (Pressed 200) (True, 0) = map_option (\<lambda>(g, d, e). (g, d, LONG_RRESS_START # e)) (gesture_run vs Held (True, 0))"
  "gesture_run (replicate k True @ vs) Held (True, 0) = map_option (\<lambda>(g, d, e). (g, d, replicate k LONG_PRESS_HOLD @ e)) (gesture_run vs Held (True, 0))"
  "gesture_run (False # False # False # vs) Held (True, 0) =
     map_option (\<lambda>(g, d, e). (g, d, LONG_PRESS_HOLD # LONG_PRESS_HOLD # PRESS_UP # e)) (gesture_run vs Idle (False, 0))"
proof -
  show "gesture_run (replicate k True @ vs) Held (True, 0) = map_option (\<lambda>(g, d, e). (g, d, replicate k LONG_PRESS_HOLD @ e)) (gesture_run vs Held (True, 0))"
    by (induction k) (auto simp: debounce_step_def Let_def map_option_case split: option.splits)
qed (auto simp: debounce_step_def Let_def map_option_case split: option.splits)

declare gesture_run.simps [simp del] gesture_step.simps [simp del]

lemma three_more: "3 \<le> n \<Longrightarrow> replicate n x = x # x # x # replicate (n - 3) x"
  by (auto simp: numeral_3_eq_3 le_iff_add)

lemma pause_run:
  assumes "61 \<le> m" and "n = 1 \<or> n = 2"
  shows "gesture_run (replicate m False) (Released 0 n) (False, 0) = Some (Idle, (False, 0), if n = 1 then [SINGLE_CLICK] else [])"
proof -
  have "m = 60 + Suc (m - 61)" using assms(1) by simp
  then have "replicate m False = replicate 60 False @ False # replicate (m - 61) False" by (metis replicate_add replicate_Suc)
  then show ?thesis using hold_steps(2)[of 0 60 n] hold_steps(4)[of "m - 61"] press_steps(5)[OF assms(2)] assms(2) by simp
qed

lemma click_run:
  assumes "3 \<le> n" and "n \<le> 201" and "64 \<le> m"
  shows "gesture_run (replicate n True @ replicate m False) Idle (False, 0) = Some (Idle, (False, 0), [PRESS_DOWN, PRESS_UP, SINGLE_CLICK])"
proof -
  have m: "3 \<le> m" "61 \<le> m - 3" "0 + (n - 3) \<le> 200" "0 + (n - 3) + 2 \<le> 200" using assms by simp_all
  show ?thesis
    unfolding three_more[OF assms(1)] three_more[OF m(1)] append_Cons press_steps(1) hold_steps(1)[OF m(3)] press_steps(2)[OF m(4)]
    using pause_run[OF m(2), of 1] by simp
qed

lemma double_run:
  assumes "3 \<le> n" and "n \<le> 201" and "3 \<le> p" and "p \<le> 61" and "3 \<le> n'" and "n' < 60" and "64 \<le> m"
  shows "gesture_run (replicate n True @ replicate p False @ replicate n' True @ replicate m False) Idle (False, 0) =
    Some (Idle, (False, 0), [PRESS_DOWN, PRESS_UP, PRESS_DOWN, DOUBLE_CLICK, PRESS_REPEAT, PRESS_UP])"
proof -
  have b: "3 \<le> m" "61 \<le> m - 3" "0 + (n - 3) \<le> 200" "0 + (n - 3) + 2 \<le> 200" "0 + (p - 3) \<le> 60" "0 + (p - 3) + 2 \<le> 60"
    "0 + (n' - 3) < 60" "0 + (n' - 3) + 3 < 60" using assms by simp_all
  have one: "(1 :: nat) = 1 \<or> (1 :: nat) = 2" by simp
  show ?thesis
    unfolding three_more[OF assms(1)] three_more[OF b(1)] three_more[OF assms(3)] three_more[OF assms(5)] append_Cons
      press_steps(1) hold_steps(1)[OF b(3)] press_steps(2)[OF b(4)] hold_steps(2)[OF b(5) one] press_steps(3)[OF b(6)]
      hold_steps(3)[OF b(7)] press_steps(4)[OF b(8)]
    using pause_run[OF b(2), of 2] by simp
qed

lemma long_run:
  assumes "204 \<le> n" and "3 \<le> m"
  shows "gesture_run (replicate n True @ replicate m False) Idle (False, 0) =
    Some (Idle, (False, 0), [PRESS_DOWN, LONG_RRESS_START] @ replicate (n - 202) LONG_PRESS_HOLD @ [PRESS_UP])"
proof -
  have b: "3 \<le> n" "0 + 200 \<le> (200 :: nat)" "n - 3 = 200 + Suc (n - 204)" using assms by simp_all
  have n: "replicate n True = True # True # True # replicate 200 True @ True # replicate (n - 204) True"
    unfolding three_more[OF b(1)] b(3) replicate_add replicate_Suc ..
  have "n - 202 = (n - 204) + 2" using assms(1) by simp
  then have h: "replicate (n - 202) LONG_PRESS_HOLD = replicate (n - 204) LONG_PRESS_HOLD @ [LONG_PRESS_HOLD, LONG_PRESS_HOLD]"
    by (simp only: replicate_add numeral_2_eq_2 replicate.simps)
  show ?thesis
    unfolding n three_more[OF assms(2)] append_Cons append_assoc press_steps(1) hold_steps(1)[OF b(2)]
    by (simp add: long_steps hold_steps(4) h)
qed

section \<open>The list of the buttons\<close>

primrec button_chain :: "button_list \<Rightarrow> nat option \<Rightarrow> nat list \<Rightarrow> bool" where
  "button_chain l p [] = (p = None)"
| "button_chain l p (b # bs) = (p = Some b \<and> button_chain l (bt_next (bl_buttons l b)) bs)"

text \<open>The buttons that are polled, in order.\<close>

definition polled :: "button_list \<Rightarrow> nat list \<Rightarrow> bool" where
  "polled l bs \<longleftrightarrow> button_chain l (bl_head_handle l) bs \<and> distinct bs"

lemma chain_cong: "(\<And>b. b \<in> set bs \<Longrightarrow> bt_next (bl_buttons l' b) = bt_next (bl_buttons l b)) \<Longrightarrow> button_chain l' p bs = button_chain l p bs"
  by (induction bs arbitrary: p) auto

lemma search_ok: "button_chain l p bs \<Longrightarrow> button_search h p l = Some (h \<in> set bs)"
  by (induction bs arbitrary: p) (subst button_search.simps, auto)+

lemma start_ok:
  assumes "polled l bs"
  shows "if h \<in> set bs then button_start h l = Some (- 1, l)
         else \<exists>l'. button_start h l = Some (0, l') \<and> polled l' (h # bs)"
proof -
  have c: "button_chain l (bl_head_handle l) bs" "distinct bs" using assms by (simp_all add: polled_def)
  note s = search_ok[OF c(1), of h]
  let ?l = "(upd_button h (\<lambda>b. b\<lparr>bt_next := bl_head_handle l\<rparr>) l)\<lparr>bl_head_handle := Some h\<rparr>"
  have "button_chain ?l p bs = button_chain l p bs" if "h \<notin> set bs" for p
    using that by (intro chain_cong) (auto simp: upd_button_def)
  then show ?thesis using s c by (auto simp: button_start_def polled_def upd_button_def)
qed

text \<open>The last place that the loop of button_stop has passed, and what is linked from it.\<close>

lemma stop_loop_gone:
  assumes "button_chain l (curr_get cur l) bs" and "h \<notin> set bs"
  shows "button_stop_loop h cur l = Some l"
  using assms
proof (induction bs arbitrary: cur)
  case Nil
  then show ?case by (subst button_stop_loop.simps) simp
next
  case (Cons b bs)
  have "curr_get (Some b) l = bt_next (bl_buttons l b)" by (simp add: curr_get_def)
  with Cons show ?case by (subst button_stop_loop.simps) simp
qed

lemma stop_loop_found:
  assumes "button_chain l (curr_get cur l) (bs @ h # cs)" and "h \<notin> set bs" and "h \<notin> set cs"
    and "distinct bs" and "set bs \<inter> set cs = {}" and "cur \<notin> Some ` set (bs @ h # cs)"
  shows "\<exists>l'. button_stop_loop h cur l = Some l' \<and> button_chain l' (curr_get cur l') (bs @ cs) \<and>
    (\<forall>b. b \<notin> set bs \<longrightarrow> Some b \<noteq> cur \<longrightarrow> bl_buttons l' b = bl_buttons l b) \<and> (cur \<noteq> None \<longrightarrow> bl_head_handle l' = bl_head_handle l) \<and>
    (cur = None \<longrightarrow> bs \<noteq> [] \<longrightarrow> bl_head_handle l' = bl_head_handle l)"
  using assms
proof (induction bs arbitrary: cur)
  case Nil
  let ?l = "curr_set cur (bt_next (bl_buttons l h)) l"
  have g: "curr_get cur l = Some h" "button_chain l (bt_next (bl_buttons l h)) cs" using Nil(1) by simp_all
  have n: "curr_get cur ?l = bt_next (bl_buttons l h)" by (cases cur) (simp_all add: curr_get_def curr_set_def upd_button_def)
  have "button_chain ?l (curr_get cur ?l) cs"
    unfolding n using g(2) Nil(6) by (subst chain_cong[of cs ?l l]) (cases cur, auto simp: curr_set_def upd_button_def)+
  moreover from stop_loop_gone[OF this Nil(3)] g(1) have "button_stop_loop h cur l = Some ?l"
    by (subst button_stop_loop.simps) simp
  ultimately show ?case by (intro exI[of _ ?l]) (cases cur, auto simp: curr_set_def upd_button_def)
next
  case (Cons b bs)
  have g: "curr_get cur l = Some b" "button_chain l (curr_get (Some b) l) (bs @ h # cs)" using Cons.prems(1) by (simp_all add: curr_get_def)
  have "b \<notin> set bs" "b \<noteq> h" "b \<notin> set cs" using Cons.prems(2,4,5) by auto
  then have "Some b \<notin> Some ` set (bs @ h # cs)" by auto
  with Cons.IH[OF g(2) _ Cons.prems(3)] Cons.prems obtain l' where
    l': "button_stop_loop h (Some b) l = Some l'" "button_chain l' (curr_get (Some b) l') (bs @ cs)"
      "\<forall>c. c \<notin> set bs \<longrightarrow> c \<noteq> b \<longrightarrow> bl_buttons l' c = bl_buttons l c" "bl_head_handle l' = bl_head_handle l" by auto
  have "button_stop_loop h cur l = Some l'" using g(1) \<open>b \<noteq> h\<close> l'(1) by (subst button_stop_loop.simps) simp
  moreover have "curr_get cur l' = Some b"
    using g(1) l'(3,4) Cons.prems(6) by (cases cur) (auto simp: curr_get_def)
  moreover have "button_chain l' (bt_next (bl_buttons l' b)) (bs @ cs)" using l'(2) by (simp add: curr_get_def)
  ultimately show ?case using l'(3,4) by auto
qed

lemma stop_ok:
  assumes "polled l bs"
  shows "\<exists>l'. button_stop h l = Some l' \<and> polled l' (remove1 h bs)"
proof (cases "h \<in> set bs")
  case False
  then show ?thesis using assms stop_loop_gone[of l None bs h] by (simp add: button_stop_def polled_def curr_get_def remove1_idem)
next
  case True
  then obtain xs ys where b: "bs = xs @ h # ys" "h \<notin> set xs" by (meson split_list_first)
  have d: "distinct (xs @ h # ys)" "button_chain l (bl_head_handle l) (xs @ h # ys)" using assms b(1) by (simp_all add: polled_def)
  from stop_loop_found[of l None xs h ys] d b(2) obtain l' where
    "button_stop_loop h None l = Some l'" "button_chain l' (bl_head_handle l') (xs @ ys)" by (auto simp: curr_get_def)
  moreover have "remove1 h bs = xs @ ys" using b by (simp add: remove1_append)
  ultimately show ?thesis using d(1) by (auto simp: button_stop_def polled_def)
qed

text \<open>A tick polls every button once, in the order of the list.\<close>

definition poll_button :: "'w btn_callbacks \<Rightarrow> pins \<Rightarrow> nat \<Rightarrow> button_list \<times> 'w \<Rightarrow> button_list \<times> 'w" where
  "poll_button cbs pins t = (\<lambda>(l, w). let (b, w) = button_handler cbs pins (bl_buttons l t) w in (upd_button t (\<lambda>_. b) l, w))"

lemma handler_keeps_next: "bt_next (fst (button_handler (only_act act) pins b w)) = bt_next b"
  by (simp add: button_handler_def fsm_defs button_debounce_def split: prod.splits)

lemma ticks_loop_ok:
  assumes "button_chain l p bs" and "distinct bs"
  shows "button_ticks_loop (only_act act) pins p l w = Some (fold (poll_button (only_act act) pins) bs (l, w))"
  using assms
proof (induction bs arbitrary: p l w)
  case Nil
  then show ?case by (subst button_ticks_loop.simps) simp
next
  case (Cons b bs)
  obtain b' w' where h: "button_handler (only_act act) pins (bl_buttons l b) w = (b', w')" by (metis surj_pair)
  have nx: "bt_next b' = bt_next (bl_buttons l b)" using handler_keeps_next[of act pins "bl_buttons l b" w] h by simp
  let ?l = "upd_button b (\<lambda>_. b') l"
  have "button_chain ?l (bt_next (bl_buttons ?l b)) bs"
    using Cons.prems nx by (subst chain_cong[of bs ?l l]) (auto simp: upd_button_def)
  moreover have "poll_button (only_act act) pins b (l, w) = (?l, w')" using h by (simp add: poll_button_def)
  ultimately show ?case using Cons.IH[of ?l "bt_next (bl_buttons ?l b)" w'] Cons.prems h
    by (subst button_ticks_loop.simps) simp
qed

lemma poll_keeps_list:
  assumes "polled l bs"
  shows "polled (fst (poll_button (only_act act) pins t (l, w))) bs"
proof -
  obtain b' w' where h: "button_handler (only_act act) pins (bl_buttons l t) w = (b', w')" by (metis surj_pair)
  have nx: "bt_next b' = bt_next (bl_buttons l t)" using handler_keeps_next[of act pins "bl_buttons l t" w] h by simp
  have "button_chain (upd_button t (\<lambda>_. b') l) p bs = button_chain l p bs" for p
    using nx by (intro chain_cong) (auto simp: upd_button_def)
  then show ?thesis using assms h by (simp add: poll_button_def polled_def upd_button_def)
qed

lemma polls_keep_list: "polled l bs \<Longrightarrow> polled (fst (fold (poll_button (only_act act) pins) ts (l, w))) bs"
proof (induction ts arbitrary: l w)
  case (Cons t ts)
  then show ?case using poll_keeps_list[OF Cons.prems, of act pins t w] by (cases "poll_button (only_act act) pins t (l, w)") simp
qed simp

section \<open>Properties\<close>

text \<open>C28: The state machine of a button implements the gestures.  From related states, as long as the
  counters do not run over (15 presses in a row), polling the button with any sequence of readings,
  bounces included, calls exactly the callbacks of the events that the gesture gives for it, in this
  order, and ends in a related state.\<close>

theorem button_refines_gestures:
  assumes "gesture_run vs g d = Some (g', d', evs)" and "gesture_rel g b" and "level_rel d b" and "in_range g"
  shows "\<exists>b'. button_run (only_act act) (map (level_reading b) vs) (b, w) = (b', fold (emit act (bt_cb b)) evs w) \<and>
     gesture_rel g' b' \<and> level_rel d' b'"
  by (rule button_run_ok[OF assms])

text \<open>An idle button reports clicks and long presses, by the number of polls that it is held and
  released: held for 3 to 201 polls and left for 64 it gives a single click; with a second press of 3 to 59
  polls after a pause of 3 to 61 polls a double click and no single click; held for 204 polls or longer a long
  press, reported again at every poll until it is released.\<close>

theorem button_gestures:
  assumes "bt_state b = 0" and "bt_button_level b \<noteq> bt_active_level b" and "bt_debounce_cnt b = 0"
  shows "(3 \<le> n \<and> n \<le> 201 \<and> 64 \<le> m \<longrightarrow>
      snd (button_run (only_act act) (map (level_reading b) (replicate n True @ replicate m False)) (b, w)) =
        fold (emit act (bt_cb b)) [PRESS_DOWN, PRESS_UP, SINGLE_CLICK] w) \<and>
    (3 \<le> n \<and> n \<le> 201 \<and> 3 \<le> p \<and> p \<le> 61 \<and> 3 \<le> n' \<and> n' < 60 \<and> 64 \<le> m \<longrightarrow>
      snd (button_run (only_act act) (map (level_reading b) (replicate n True @ replicate p False @ replicate n' True @ replicate m False)) (b, w)) =
        fold (emit act (bt_cb b)) [PRESS_DOWN, PRESS_UP, PRESS_DOWN, DOUBLE_CLICK, PRESS_REPEAT, PRESS_UP] w) \<and>
    (204 \<le> n \<and> 3 \<le> m \<longrightarrow>
      snd (button_run (only_act act) (map (level_reading b) (replicate n True @ replicate m False)) (b, w)) =
        fold (emit act (bt_cb b)) ([PRESS_DOWN, LONG_RRESS_START] @ replicate (n - 202) LONG_PRESS_HOLD @ [PRESS_UP]) w)"
proof -
  have r: "gesture_rel Idle b" "level_rel (False, 0) b" "in_range Idle" using assms by (simp_all add: level_rel_def)
  have "snd (button_run (only_act act) (map (level_reading b) vs) (b, w)) = fold (emit act (bt_cb b)) evs w"
    if "gesture_run vs Idle (False, 0) = Some (Idle, (False, 0), evs)" for vs evs
    using button_run_ok[OF that r, of act w] by auto
  then show ?thesis using click_run double_run long_run by blast
qed

text \<open>C29: Starting, stopping and polling work on the linked list of the buttons as on a sequence: a button
  is put in front unless it is in the list (then the result is -1), stopping takes it out, and a tick
  polls every button of the list once, in order.  All three return.\<close>

theorem button_list_refines:
  assumes "polled l bs"
  shows "(if h \<in> set bs then button_start h l = Some (- 1, l) else \<exists>l'. button_start h l = Some (0, l') \<and> polled l' (h # bs)) \<and>
     (\<exists>l'. button_stop h l = Some l' \<and> polled l' (remove1 h bs)) \<and>
     (\<exists>l' w'. button_ticks (only_act act) pins l w = Some (l', w') \<and> polled l' bs \<and>
        (l', w') = fold (poll_button (only_act act) pins) bs (l, w))"
proof (intro conjI)
  show "if h \<in> set bs then button_start h l = Some (- 1, l) else \<exists>l'. button_start h l = Some (0, l') \<and> polled l' (h # bs)"
    by (rule start_ok[OF assms])
  show "\<exists>l'. button_stop h l = Some l' \<and> polled l' (remove1 h bs)" by (rule stop_ok[OF assms])
  obtain l' w' where f: "fold (poll_button (only_act act) pins) bs (l, w) = (l', w')" by (metis surj_pair)
  have "button_ticks (only_act act) pins l w = Some (l', w')"
    using ticks_loop_ok[of l "bl_head_handle l" bs act pins w] assms f by (simp add: button_ticks_def polled_def)
  moreover have "polled l' bs" using polls_keep_list[OF assms, of act pins bs w] f by simp
  ultimately show "\<exists>l' w'. button_ticks (only_act act) pins l w = Some (l', w') \<and> polled l' bs \<and>
        (l', w') = fold (poll_button (only_act act) pins) bs (l, w)" using f by auto
qed

text \<open>button_init does not clear the struct.  A struct that held one of the three unused state numbers
  before still holds it, and a button in such a state never reports an event, whatever is read.\<close>

theorem button_init_leaves_state:
  assumes "bt_state b \<in> {4, 6, 7}"
  shows "\<exists>b'. button_run cbs vs (button_init pins p a b, w) = (b', w) \<and> bt_state b' = bt_state b"
proof -
  have "\<exists>b'. button_handler cbs (\<lambda>_. v) c u = (b', u) \<and> bt_state b' = bt_state c" if "bt_state c \<in> {4, 6, 7}" for c v u
    using that by (auto simp: button_handler_def Let_def word_unat_eq_iff)
  then have "\<exists>b'. button_run cbs vs (c, w) = (b', w) \<and> bt_state b' = bt_state c" if "bt_state c \<in> {4, 6, 7}" for c
    using that
  proof (induction vs arbitrary: c)
    case (Cons v vs)
    then obtain c' where "button_handler cbs (\<lambda>_. v) c w = (c', w)" "bt_state c' = bt_state c" by blast
    then show ?case using Cons.IH[of c'] Cons.prems by (simp add: button_run_def)
  qed (simp add: button_run_def)
  from this[of "button_init pins p a b"] assms show ?thesis by (simp add: button_init_def Let_def)
qed

section \<open>Witnesses\<close>

definition ex_button :: button where
  "ex_button = \<lparr>bt_ticks = 0, bt_repeat = 0, bt_event = 8, bt_state = 0, bt_debounce_cnt = 0, bt_active_level = 0, bt_button_level = 1,
     bt_hal_button_Level = 0, bt_cb = (\<lambda>ev. if ev = SINGLE_CLICK then Some 7 else None), bt_next = None\<rparr>"

theorem button_refines_gestures_witness:
  "\<exists>b'. button_run (only_act (\<lambda>n w. w @ [n])) (map (level_reading ex_button) [True, False, True, True, True]) (ex_button, []) = (b', []) \<and>
     gesture_rel (Pressed 0) b'"
proof -
  have "gesture_run [True, False, True, True, True] Idle (False, 0) = Some (Pressed 0, (True, 0), [PRESS_DOWN])"
    by (simp add: gesture_run.simps gesture_step.simps debounce_step_def)
  from button_refines_gestures[OF this, of ex_button "\<lambda>n w. w @ [n]" "[]"] show ?thesis
    by (auto simp: level_rel_def ex_button_def emit_def)
qed

theorem button_gestures_witness:
  "snd (button_run (only_act (\<lambda>n w. w @ [n])) (map (level_reading ex_button) (replicate 10 True @ replicate 70 False)) (ex_button, [])) = [7]"
  using button_gestures[of ex_button 10 70 "\<lambda>n w. w @ [n]" "[]" 0 0] by (simp add: ex_button_def emit_def)

definition ex_buttons :: button_list where
  "ex_buttons = \<lparr>bl_head_handle = Some 1, bl_buttons = (\<lambda>_. ex_button)(1 := ex_button\<lparr>bt_next := Some 2\<rparr>)\<rparr>"

theorem button_list_refines_witness:
  "button_start 2 ex_buttons = Some (- 1, ex_buttons) \<and> (\<exists>l'. button_start 3 ex_buttons = Some (0, l') \<and> polled l' [3, 1, 2]) \<and>
     (\<exists>l'. button_stop 1 ex_buttons = Some l' \<and> polled l' [2])"
proof -
  have p: "polled ex_buttons [1, 2]" by (simp add: polled_def ex_buttons_def ex_button_def)
  show ?thesis
    using button_list_refines[OF p, of 2 "\<lambda>n w. w" "\<lambda>_. 0" "()"] button_list_refines[OF p, of 3 "\<lambda>n w. w" "\<lambda>_. 0" "()"]
      button_list_refines[OF p, of 1 "\<lambda>n w. w" "\<lambda>_. 0" "()"] by simp
qed

theorem button_init_leaves_state_witness:
  "\<exists>b'. button_run (\<lambda>n b w. (b, w + 1)) [0, 0, 0, 0, 0] (button_init (\<lambda>_. 1) 0 0 (ex_button\<lparr>bt_state := 6\<rparr>), 0 :: nat) = (b', 0)"
  using button_init_leaves_state[of "ex_button\<lparr>bt_state := 6\<rparr>" "\<lambda>n b w. (b, w + 1)" "[0, 0, 0, 0, 0]" "\<lambda>_. 1" 0 0 "0 :: nat"] by auto

end
