(* ===== verification/Flash.thy ===== *)
theory Flash
  imports Prelude
begin

text \<open>
  Reading, programming and erasing the serial flash: the data loops of
  beken378/driver/flash/flash.c, which move blocks of 32 bytes, and the partitions of
  beken378/func/user_driver/BkDriverFlash.c.  The chip behind the registers is a parameter with the
  documented behaviour of such memories: programming only clears bits, erasing sets a sector of 4096 bytes
  to ones, both only when the protection is off.
\<close>

section \<open>Operations\<close>

datatype protect_type = FLASH_PROTECT_NONE | FLASH_PROTECT_ALL | FLASH_PROTECT_HALF | FLASH_UNPROTECT_LAST_BLOCK

text \<open>The chips that the driver knows: the fields of the status register for the protection and the
  values that protect the whole chip, nothing, the first half and all but the last block.\<close>

record flash_config =
  cf_flash_id :: u32
  sr_size :: u8
  line_mode :: u8
  cmp_post :: u8
  protect_post :: u8
  protect_mask :: u8
  protect_all :: u16
  protect_none :: u16
  protect_half :: u16
  unprotect_last_block :: u16
  qe_bit_post :: u8
  qe_bit :: u8
  m_value :: u8
  mode_sel :: u8

definition config_row :: "u32 \<Rightarrow> u8 \<Rightarrow> u8 \<Rightarrow> u8 \<Rightarrow> u8 \<Rightarrow> u8 \<Rightarrow> u16 \<Rightarrow> u16 \<Rightarrow> u16 \<Rightarrow> u16 \<Rightarrow> u8 \<Rightarrow> u8 \<Rightarrow> u8 \<Rightarrow> u8 \<Rightarrow> flash_config" where
  "config_row i s l c p m a n h u qp q v d =
     \<lparr>cf_flash_id = i, sr_size = s, line_mode = l, cmp_post = c, protect_post = p, protect_mask = m, protect_all = a, protect_none = n,
      protect_half = h, unprotect_last_block = u, qe_bit_post = qp, qe_bit = q, m_value = v, mode_sel = d\<rparr>"

definition flash_config_tbl :: "flash_config list" where
  "flash_config_tbl =
     [config_row 0x1C7016 1 2  0 2 0x1F 0x1F 0x00 0x16 0x01B 0 0 0xA5 0x01,
      config_row 0x0B4014 2 2 14 2 0x1F 0x1F 0x00 0x0C 0x101 9 1 0xA0 0x01,
      config_row 0x0B4015 2 2 14 2 0x1F 0x1F 0x00 0x0D 0x101 9 1 0xA0 0x01,
      config_row 0x0B4016 2 2 14 2 0x1F 0x1F 0x00 0x0E 0x101 9 1 0xA0 0x01,
      config_row 0x0E4016 2 2 14 2 0x1F 0x1F 0x00 0x0E 0x101 9 1 0xA0 0x01,
      config_row 0xC84015 2 2 14 2 0x1F 0x1F 0x00 0x0D 0x101 9 1 0xA0 0x01,
      config_row 0xC84016 2 2 14 2 0x1F 0x1F 0x00 0x0D 0x101 9 1 0xA0 0x01,
      config_row 0xEF4016 2 2 14 2 0x1F 0x1F 0x00 0x00 0x101 9 1 0xA0 0x01,
      config_row 0x204016 2 2 14 2 0x1F 0x1F 0x00 0x0E 0x101 9 1 0xA0 0x01,
      config_row 0xC22315 1 2  0 2 0x0F 0x0F 0x00 0x0A 0x00E 6 1 0xA5 0x01,
      config_row 0x000000 2 2  0 2 0x1F 0x00 0x00 0x00 0x000 0 0 0x00 0x01]"

definition flash_get_current_flash_config :: "u32 \<Rightarrow> flash_config" where
  "flash_get_current_flash_config flash_id =
     (case find (\<lambda>f. flash_id = cf_flash_id f) (butlast flash_config_tbl) of Some f \<Rightarrow> f | None \<Rightarrow> last flash_config_tbl)"

datatype flash_cmd = CMD_FLASH_SET_CLK u8 | CMD_FLASH_SET_DCO | CMD_FLASH_SET_DPLL | CMD_FLASH_WRITE_ENABLE | CMD_FLASH_WRITE_DISABLE
  | CMD_FLASH_READ_SR | CMD_FLASH_WRITE_SR u32 | CMD_FLASH_READ_QE | CMD_FLASH_SET_QE | CMD_FLASH_SET_QWFR | CMD_FLASH_CLR_QWFR
  | CMD_FLASH_SET_WSR u16 | CMD_FLASH_GET_ID | CMD_FLASH_READ_MID | CMD_FLASH_ERASE_SECTOR u32 | CMD_FLASH_SET_HPM
  | CMD_FLASH_SET_PROTECT protect_type | CMD_FLASH_OTHER u32

text \<open>The operations of the controller, each a write to its command register and a wait until it is not
  busy: FLASH_OPCODE_READ and FLASH_OPCODE_PP transfer the 32 bytes at an address, FLASH_OPCODE_SE erases a
  sector, the status register is read and written with one or two bytes, the number of data lines is set,
  and the other commands set up the controller or read its state.  nor_config is the configuration that
  flash_init has found.\<close>

record 'c nor_ops =
  nor_read :: "u32 \<Rightarrow> 'c \<Rightarrow> u8 list"
  nor_program :: "u32 \<Rightarrow> u8 list \<Rightarrow> 'c \<Rightarrow> 'c"
  nor_erase :: "u32 \<Rightarrow> 'c \<Rightarrow> 'c"
  nor_read_sr :: "u8 \<Rightarrow> 'c \<Rightarrow> u16"
  nor_write_sr :: "u8 \<Rightarrow> u16 \<Rightarrow> 'c \<Rightarrow> 'c"
  nor_line_mode :: "u8 \<Rightarrow> 'c \<Rightarrow> 'c"
  nor_setup :: "flash_cmd \<Rightarrow> 'c \<Rightarrow> u32 \<times> 'c"
  nor_config :: flash_config

text \<open>The inner loop of flash_read_data: bytes of the block pb from i on, until the block or the length
  ends; address and length afterwards.\<close>

function copy_out :: "nat \<Rightarrow> u8 list \<Rightarrow> u32 \<Rightarrow> u32 \<Rightarrow> u8 list \<times> u32 \<times> u32" where
  "copy_out i pb address len =
     (if i < 32
      then let address = address + 1; len = len - 1
           in if len = 0 then ([pb ! i], address, len)
              else let (bs, address, len) = copy_out (i + 1) pb address len in (pb ! i # bs, address, len)
      else ([], address, len))"
  by pat_completeness auto
termination copy_out by (relation "measure (\<lambda>(i, _). 32 - i)") auto

declare copy_out.simps [simp del]

lemma copy_out_eq:
  assumes "i < 32" and "len \<noteq> 0" and "length pb = 32" and "n = min (32 - i) (unat len)"
  shows "copy_out i pb address len = (take n (drop i pb), address + of_nat n, len - of_nat n)"
  using assms
proof (induction "32 - i" arbitrary: i address len n)
  case (Suc k)
  have l: "unat (len - 1) = unat len - 1" using Suc.prems(2) by (simp add: unat_minus_one)
  have u: "0 < unat len" using Suc.prems(2) by (simp add: unat_gt_0)
  have d: "drop i pb = pb ! i # drop (i + 1) pb" using Suc.prems(1,3) by (simp add: Cons_nth_drop_Suc)
  show ?case
  proof (cases "len - 1 = 0 \<or> i = 31")
    case True
    then have "n = 1" using Suc.prems(1,4) l u by auto
    moreover have "copy_out (i + 1) pb (address + 1) (len - 1) = ([], address + 1, len - 1)" if "i = 31" using that by (subst copy_out.simps) simp
    ultimately show ?thesis using True Suc.prems(1) d by (subst copy_out.simps) (auto simp: Let_def)
  next
    case False
    then have f: "len - 1 \<noteq> 0" "i + 1 < 32" using Suc.prems(1) by auto
    let ?n = "min (32 - (i + 1)) (unat (len - 1))"
    have n: "n = Suc ?n" using Suc.prems(1,4) l u by auto
    have "copy_out (i + 1) pb (address + 1) (len - 1) = (take ?n (drop (i + 1) pb), address + 1 + of_nat ?n, len - 1 - of_nat ?n)"
      using Suc.hyps(1)[of "i + 1" "len - 1" ?n "address + 1"] Suc.hyps(2) f Suc.prems(3) by simp
    then show ?thesis using f Suc.prems(1) d n by (subst copy_out.simps) (simp add: add.assoc diff_diff_eq)
  qed
qed simp

lemma copy_out_less:
  assumes "i < 32" and "len \<noteq> 0"
  shows "unat (snd (snd (copy_out i pb address len))) < unat len"
  using assms
proof (induction "32 - i" arbitrary: i address len)
  case (Suc k)
  have l: "unat (len - 1) < unat len" using Suc.prems(2) by (simp add: unat_minus_one unat_gt_0)
  show ?case
  proof (cases "len - 1 = 0 \<or> i = 31")
    case True
    moreover have "copy_out (i + 1) pb (address + 1) (len - 1) = ([], address + 1, len - 1)" if "i = 31" using that by (subst copy_out.simps) simp
    ultimately show ?thesis using Suc.prems(1) l by (subst copy_out.simps) (auto simp: Let_def)
  next
    case False
    then have "unat (snd (snd (copy_out (i + 1) pb (address + 1) (len - 1)))) < unat (len - 1)"
      using Suc.hyps(1)[of "i + 1" "len - 1" "address + 1"] Suc.hyps(2) Suc.prems(1) by auto
    then show ?thesis using False Suc.prems(1) l by (subst copy_out.simps) (auto split: prod.splits)
  qed
qed simp

lemma mod_32_less: "unat (x mod 32 :: u32) < 32"
  by (simp add: unat_mod)

function flash_read_loop :: "'c nor_ops \<Rightarrow> u32 \<Rightarrow> u32 \<Rightarrow> u32 \<Rightarrow> 'c \<Rightarrow> u8 list" where
  "flash_read_loop ops addr address len c =
     (if len = 0 then []
      else let pb = nor_read ops addr c;
               (bs, address, len) = copy_out (unat (address mod 32)) pb address len
           in bs @ flash_read_loop ops (addr + 32) address len c)"
  by pat_completeness auto
termination flash_read_loop
proof (relation "measure (\<lambda>(_, _, _, len, _). unat len)", goal_cases)
  case (2 ops addr address len c pb s bs t address' len')
  have "(bs, address', len') = copy_out (unat (address mod 32)) pb address len" using 2(3-5) by simp
  then have "len' = snd (snd (copy_out (unat (address mod 32)) pb address len))" by (metis snd_conv)
  then show ?case using copy_out_less[OF mod_32_less 2(1), of address pb address] by simp
qed simp

definition flash_read_data :: "'c nor_ops \<Rightarrow> u32 \<Rightarrow> u32 \<Rightarrow> 'c \<Rightarrow> u8 list" where
  "flash_read_data ops address len c = (if len = 0 then [] else flash_read_loop ops (address AND NOT 0x1f) address len c)"

text \<open>The inner loop of flash_write_data.\<close>

function copy_in :: "nat \<Rightarrow> u8 list \<Rightarrow> u8 list \<Rightarrow> u32 \<Rightarrow> u32 \<Rightarrow> u8 list \<times> u8 list \<times> u32 \<times> u32" where
  "copy_in i pb buffer address len =
     (if i < 32
      then let pb = pb[i := hd buffer]; buffer = tl buffer; address = address + 1; len = len - 1
           in if len = 0 then (pb, buffer, address, len) else copy_in (i + 1) pb buffer address len
      else (pb, buffer, address, len))"
  by pat_completeness auto
termination copy_in by (relation "measure (\<lambda>(i, _). 32 - i)") auto

declare copy_in.simps [simp del]

lemma copy_in_eq:
  assumes "i < 32" and "len \<noteq> 0" and "length pb = 32" and "unat len \<le> length buffer" and "n = min (32 - i) (unat len)"
  shows "copy_in i pb buffer address len = (take i pb @ take n buffer @ drop (i + n) pb, drop n buffer, address + of_nat n, len - of_nat n)"
  using assms
proof (induction "32 - i" arbitrary: i pb buffer address len n)
  case (Suc k)
  have l: "unat (len - 1) = unat len - 1" using Suc.prems(2) by (simp add: unat_minus_one)
  have u: "0 < unat len" using Suc.prems(2) by (simp add: unat_gt_0)
  then obtain b bs where b: "buffer = b # bs" using Suc.prems(4) by (cases buffer) auto
  have p: "pb[i := b] = take i pb @ b # drop (i + 1) pb" using Suc.prems(1,3) by (simp add: upd_conv_take_nth_drop)
  show ?case
  proof (cases "len - 1 = 0 \<or> i = 31")
    case True
    then have "n = 1" using Suc.prems(1,5) l u by auto
    moreover have "copy_in (i + 1) pb' bs (address + 1) (len - 1) = (pb', bs, address + 1, len - 1)" if "i = 31" for pb'
      using that by (subst copy_in.simps) simp
    ultimately show ?thesis using True Suc.prems(1) p by (subst copy_in.simps) (auto simp: Let_def b)
  next
    case False
    then have f: "len - 1 \<noteq> 0" "i + 1 < 32" using Suc.prems(1) by auto
    let ?n = "min (32 - (i + 1)) (unat (len - 1))"
    have n: "n = Suc ?n" using Suc.prems(1,5) l u by auto
    have t: "take (i + 1) (pb[i := b]) = take i pb @ [b]" "drop (i + 1 + ?n) (pb[i := b]) = drop (i + n) pb"
      using Suc.prems(1,3) by (simp_all add: p n add.commute)
    have "copy_in (i + 1) (pb[i := b]) bs (address + 1) (len - 1) =
        (take (i + 1) (pb[i := b]) @ take ?n bs @ drop (i + 1 + ?n) (pb[i := b]), drop ?n bs, address + 1 + of_nat ?n, len - 1 - of_nat ?n)"
      using Suc.hyps(1)[of "i + 1" "len - 1" "pb[i := b]" bs ?n "address + 1"] Suc.hyps(2) f Suc.prems(3,4) l b by simp
    then show ?thesis using f Suc.prems(1) t n unfolding b by (subst copy_in.simps) (simp add: add.assoc diff_diff_eq)
  qed
qed simp

lemma copy_in_counts: "snd (snd (copy_in i pb buffer address len)) = snd (copy_out i pb' address len)"
proof (induction "32 - i" arbitrary: i pb buffer address len)
  case (Suc k)
  then show ?case using Suc.hyps(1)[of "i + 1"] by (subst copy_in.simps, subst copy_out.simps) (auto simp: Let_def split: prod.splits)
qed (subst copy_in.simps, subst copy_out.simps, simp)

function flash_write_loop :: "'c nor_ops \<Rightarrow> u8 list \<Rightarrow> u32 \<Rightarrow> u8 list \<Rightarrow> u32 \<Rightarrow> u32 \<Rightarrow> 'c \<Rightarrow> 'c" where
  "flash_write_loop ops pb addr buffer address len c =
     (if len = 0 then c
      else let pb = (if len < 32 then flash_read_data ops addr 32 c else pb);
               (pb, buffer, address, len) = copy_in (unat (address mod 32)) pb buffer address len;
               c = nor_program ops addr pb c
           in flash_write_loop ops (replicate 32 0xff) (addr + 32) buffer address len c)"
  by pat_completeness auto
termination flash_write_loop
proof (relation "measure (\<lambda>(_, _, _, _, _, len, _). unat len)", goal_cases)
  case (2 ops pb addr buffer address len c pb1 s pb2 t buffer' u address' len' c')
  have "(pb2, buffer', address', len') = copy_in (unat (address mod 32)) pb1 buffer address len" using 2(3-6) by simp
  then have "len' = snd (snd (snd (copy_in (unat (address mod 32)) pb1 buffer address len)))" by (metis snd_conv)
  then show ?case using copy_out_less[OF mod_32_less 2(1), of address pb address] by (simp add: copy_in_counts[of _ _ _ _ _ pb])
qed simp

text \<open>A buffer that is shorter than the length would be read beyond its end: None.\<close>

definition flash_write_data :: "'c nor_ops \<Rightarrow> u8 list \<Rightarrow> u32 \<Rightarrow> u32 \<Rightarrow> 'c \<Rightarrow> 'c option" where
  "flash_write_data ops buffer address len c =
     (if length buffer < unat len then None
      else let addr = address AND NOT 0x1f;
               pb = (if address mod 32 \<noteq> 0 then flash_read_data ops addr 32 c else replicate 32 0xff)
           in Some (flash_write_loop ops pb addr buffer address len c))"

text \<open>The value of the status register that the protection asks for is written when the register holds
  another one.\<close>

definition protect_value :: "protect_type \<Rightarrow> flash_config \<Rightarrow> u16" where
  "protect_value ty f =
     (case ty of
        FLASH_PROTECT_NONE \<Rightarrow> protect_none f
      | FLASH_PROTECT_ALL \<Rightarrow> protect_all f
      | FLASH_PROTECT_HALF \<Rightarrow> protect_half f
      | FLASH_UNPROTECT_LAST_BLOCK \<Rightarrow> unprotect_last_block f)"

definition set_flash_protect :: "'c nor_ops \<Rightarrow> protect_type \<Rightarrow> 'c \<Rightarrow> 'c" where
  "set_flash_protect ops ty c =
     (let f = nor_config ops;
          param = ucast (protect_value ty f AND 0xff) :: u32;
          cmp = ucast (drop_bit 8 (protect_value ty f) AND 0xff) :: u32;
          value = ucast (nor_read_sr ops (sr_size f) c) :: u32;
          mask = push_bit (unat (protect_post f)) (ucast (protect_mask f)) :: u32
      in if push_bit (unat (protect_post f)) param \<noteq> value AND mask \<or>
            push_bit (unat (cmp_post f)) cmp \<noteq> value AND push_bit (unat (cmp_post f)) 1
         then let value = (value AND NOT mask) OR push_bit (unat (protect_post f)) param;
                  value = value AND NOT (push_bit (unat (cmp_post f)) 1);
                  value = value OR push_bit (unat (cmp_post f)) (cmp AND 1)
              in nor_write_sr ops (sr_size f) (ucast value) c
         else c)"

abbreviation FLASH_SUCCESS :: u32 where "FLASH_SUCCESS \<equiv> 0"
abbreviation FLASH_FAILURE :: u32 where "FLASH_FAILURE \<equiv> 1"

definition flash_read :: "'c nor_ops \<Rightarrow> u32 \<Rightarrow> u32 \<Rightarrow> 'c \<Rightarrow> u8 list" where
  "flash_read ops count address c = flash_read_data ops address count c"

text \<open>Writes and commands go over two data lines at most.\<close>

definition flash_two_lines :: "'c nor_ops \<Rightarrow> 'c \<Rightarrow> 'c" where
  "flash_two_lines ops c = (if line_mode (nor_config ops) = 4 then nor_line_mode ops 2 c else c)"

definition flash_four_lines :: "'c nor_ops \<Rightarrow> 'c \<Rightarrow> 'c" where
  "flash_four_lines ops c = (if line_mode (nor_config ops) = 4 then nor_line_mode ops 4 c else c)"

definition flash_write :: "'c nor_ops \<Rightarrow> u8 list \<Rightarrow> u32 \<Rightarrow> u32 \<Rightarrow> 'c \<Rightarrow> 'c option" where
  "flash_write ops user_buf count address c =
     do { let c = flash_two_lines ops c;
          c \<leftarrow> flash_write_data ops user_buf address count c;
          Some (flash_four_lines ops c) }"

text \<open>The status, the value that is stored through the parameter (0 if there is none) and the state.\<close>

definition flash_cmd_op :: "'c nor_ops \<Rightarrow> flash_cmd \<Rightarrow> 'c \<Rightarrow> u32 \<times> u32 \<times> 'c" where
  "flash_cmd_op ops cmd c =
     (case cmd of
        CMD_FLASH_READ_SR \<Rightarrow> (FLASH_SUCCESS, ucast (nor_read_sr ops 2 c), c)
      | CMD_FLASH_WRITE_SR parm \<Rightarrow> (FLASH_SUCCESS, 0, nor_write_sr ops (ucast (parm AND 0xff)) (ucast (drop_bit 8 parm AND 0xffff)) c)
      | CMD_FLASH_SET_QE \<Rightarrow>
          (FLASH_SUCCESS, 0, if qe_bit (nor_config ops) \<noteq> 0 then snd (nor_setup ops CMD_FLASH_SET_QE c) else c)
      | CMD_FLASH_ERASE_SECTOR address \<Rightarrow> (FLASH_SUCCESS, 0, nor_erase ops address c)
      | CMD_FLASH_SET_PROTECT ty \<Rightarrow> (FLASH_SUCCESS, 0, set_flash_protect ops ty c)
      | CMD_FLASH_OTHER _ \<Rightarrow> (FLASH_FAILURE, 0, c)
      | _ \<Rightarrow> (FLASH_SUCCESS, nor_setup ops cmd c))"

definition flash_ctrl :: "'c nor_ops \<Rightarrow> flash_cmd \<Rightarrow> 'c \<Rightarrow> u32 \<times> u32 \<times> 'c" where
  "flash_ctrl ops cmd c =
     (let c = flash_two_lines ops c;
          (ret, out, c) = flash_cmd_op ops cmd c
      in (ret, out, flash_four_lines ops c))"

abbreviation flash_command :: "'c nor_ops \<Rightarrow> flash_cmd \<Rightarrow> 'c \<Rightarrow> 'c" where
  "flash_command ops cmd c \<equiv> snd (snd (flash_ctrl ops cmd c))"

text \<open>The partitions.  The flash device is open, so that ddev_read, ddev_write and ddev_control reach
  flash_read, flash_write and flash_ctrl.\<close>

datatype bk_partition = BK_PARTITION_BOOTLOADER | BK_PARTITION_APPLICATION | BK_PARTITION_RF_FIRMWARE | BK_PARTITION_NET_PARAM | BK_PARTITION_USR_CONFIG

record bk_logic_partition =
  partition_start_addr :: u32
  partition_length :: u32

definition bk7231_partitions :: "bk_partition \<Rightarrow> bk_logic_partition" where
  "bk7231_partitions p =
     (case p of
        BK_PARTITION_BOOTLOADER \<Rightarrow> \<lparr>partition_start_addr = 0, partition_length = 0xf000\<rparr>
      | BK_PARTITION_APPLICATION \<Rightarrow> \<lparr>partition_start_addr = 0x11000, partition_length = 0x143000\<rparr>
      | BK_PARTITION_RF_FIRMWARE \<Rightarrow> \<lparr>partition_start_addr = 0x10000, partition_length = 0x1000\<rparr>
      | BK_PARTITION_NET_PARAM \<Rightarrow> \<lparr>partition_start_addr = 0x1ff000, partition_length = 0x1000\<rparr>
      | BK_PARTITION_USR_CONFIG \<Rightarrow> \<lparr>partition_start_addr = 0, partition_length = 0\<rparr>)"

definition bk_flash_get_info :: "bk_partition \<Rightarrow> bk_logic_partition" where
  "bk_flash_get_info inPartition = bk7231_partitions inPartition"

definition bk_flash_erase :: "'c nor_ops \<Rightarrow> bk_partition \<Rightarrow> u32 \<Rightarrow> u32 \<Rightarrow> 'c \<Rightarrow> 'c" where
  "bk_flash_erase ops inPartition off_set sz c =
     (let partition_info = bk_flash_get_info inPartition;
          start_sector = drop_bit 12 off_set;
          end_sector = drop_bit 12 (off_set + sz - 1)
      in fold (\<lambda>i. flash_command ops (CMD_FLASH_ERASE_SECTOR (partition_start_addr partition_info + push_bit 12 (of_nat i))))
           [unat start_sector ..< Suc (unat end_sector)] c)"

definition bk_flash_write :: "'c nor_ops \<Rightarrow> bk_partition \<Rightarrow> u32 \<Rightarrow> u8 list \<Rightarrow> u32 \<Rightarrow> 'c \<Rightarrow> 'c option" where
  "bk_flash_write ops inPartition off_set inBuffer inBufferLength c =
     (let start_addr = partition_start_addr (bk_flash_get_info inPartition) + off_set
      in flash_write ops inBuffer inBufferLength start_addr c)"

definition bk_flash_read :: "'c nor_ops \<Rightarrow> bk_partition \<Rightarrow> u32 \<Rightarrow> u32 \<Rightarrow> 'c \<Rightarrow> u8 list" where
  "bk_flash_read ops inPartition off_set inBufferLength c =
     (let start_addr = partition_start_addr (bk_flash_get_info inPartition) + off_set
      in flash_read ops inBufferLength start_addr c)"

definition bk_flash_enable_security :: "'c nor_ops \<Rightarrow> protect_type \<Rightarrow> 'c \<Rightarrow> 'c" where
  "bk_flash_enable_security ops ty c = flash_command ops (CMD_FLASH_SET_PROTECT ty) c"

section \<open>The chip\<close>

definition bytes_at :: "(u32 \<Rightarrow> u8) \<Rightarrow> u32 \<Rightarrow> nat \<Rightarrow> u8 list" where
  "bytes_at m a n = map (\<lambda>i. m (a + of_nat i)) [0..<n]"

lemma length_bytes_at [simp]: "length (bytes_at m a n) = n"
  by (simp add: bytes_at_def)

lemma nth_bytes_at [simp]: "i < n \<Longrightarrow> bytes_at m a n ! i = m (a + of_nat i)"
  by (simp add: bytes_at_def)

lemma bytes_at_part: "i + n \<le> k \<Longrightarrow> take n (drop i (bytes_at m a k)) = bytes_at m (a + of_nat i) n"
  by (rule nth_equalityI) (simp_all add: add.assoc)

lemma bytes_at_append: "bytes_at m a (i + n) = bytes_at m a i @ bytes_at m (a + of_nat i) n"
  by (rule nth_equalityI) (auto simp: nth_append add.assoc)

text \<open>An interval of addresses that does not wrap.\<close>

lemma addr_interval:
  fixes a x l :: u32
  assumes "unat a + unat l \<le> 2 ^ 32"
  shows "x - a < l \<longleftrightarrow> unat a \<le> unat x \<and> unat x < unat a + unat l"
proof (cases "unat a \<le> unat x")
  case True
  then have "unat (x - a) = unat x - unat a" by (simp add: unat_sub word_le_nat_alt)
  then show ?thesis using True by (auto simp: word_less_nat_alt)
next
  case False
  then have "unat (x - a) = unat x + 2 ^ 32 - unat a" by (simp add: unat_sub_if')
  then show ?thesis using False assms by (simp add: word_less_nat_alt)
qed

text \<open>Blocks of 32 bytes.\<close>

lemma low_bits: "(a AND 0x1f :: u32) = a mod 32" "unat (a mod 32 :: u32) = unat a mod 32"
proof -
  have "a AND 0x1f = a AND mask 5" by (simp add: mask_eq_exp_minus_1)
  also have "\<dots> = a mod 32" by (simp only: take_bit_eq_mask[symmetric] take_bit_eq_mod) simp
  finally show "a AND 0x1f = a mod 32" .
  show "unat (a mod 32) = unat a mod 32" by (simp add: unat_mod)
qed

lemma block_start:
  fixes a :: u32
  defines "b \<equiv> a AND NOT 0x1f"
  shows "unat b = unat a - unat a mod 32" "b AND 0x1f = 0" "b + of_nat (unat a mod 32) = a"
proof -
  have "(0x1f :: u32) = mask 5" by (simp add: mask_eq_exp_minus_1)
  then show u: "unat b = unat a - unat a mod 32" unfolding b_def using unat_and_not_mask[of a 5] by simp
  show "b AND 0x1f = 0" unfolding b_def by (simp add: and.assoc)
  have "b + (a AND 0x1f) = a" unfolding b_def by (rule word_and_split)
  then show "b + of_nat (unat a mod 32) = a" unfolding low_bits(1) by (simp flip: low_bits(2))
qed

lemma block_aligned: "unat (a :: u32) mod 32 = 0 \<Longrightarrow> a AND NOT 0x1f = a"
  using block_start(1)[of a] by (simp add: word_unat_eq_iff)

lemma block_next:
  fixes a :: u32
  assumes "unat a + (32 - unat a mod 32) < 2 ^ 32"
  shows "(a + of_nat (32 - unat a mod 32)) AND NOT 0x1f = (a AND NOT 0x1f) + 32" "unat (a + of_nat (32 - unat a mod 32)) = unat a + (32 - unat a mod 32)"
proof -
  let ?i = "unat a mod 32"
  have i: "?i < 32" "?i \<le> unat a" by simp_all
  have "unat (of_nat (32 - ?i) :: u32) = 32 - ?i" by (simp only: unat_of_nat) (simp add: take_bit_nat_eq_self)
  then show u: "unat (a + of_nat (32 - ?i)) = unat a + (32 - ?i)" using assms by (subst unat_add_lem[THEN iffD1]) simp_all
  have "unat a + (32 - ?i) = 32 * (unat a div 32) + 32" using i mult_div_mod_eq[of 32 "unat a"] by linarith
  then have "(unat a + (32 - ?i)) mod 32 = 0" by simp
  with u have e: "(a + of_nat (32 - ?i)) AND NOT 0x1f = a + of_nat (32 - ?i)" by (intro block_aligned) simp
  have "(a AND NOT 0x1f) + 32 = (a AND NOT 0x1f) + of_nat ?i + of_nat (32 - ?i)" using i(1) by (simp flip: of_nat_add)
  then show "(a + of_nat (32 - ?i)) AND NOT 0x1f = (a AND NOT 0x1f) + 32" unfolding e block_start(3) by simp
qed

text \<open>Sectors of 4096 bytes.\<close>

lemma same_sector:
  fixes x a :: u32
  shows "x AND NOT 0xfff = a AND NOT 0xfff \<longleftrightarrow> unat x div 4096 = unat a div 4096"
proof -
  have m: "(0xfff :: u32) = mask 12" by (simp add: mask_eq_exp_minus_1)
  have "unat (y AND NOT 0xfff) = 4096 * (unat y div 4096)" for y :: u32
    unfolding m unat_and_not_mask by (simp add: minus_mod_eq_mult_div)
  then show ?thesis by (simp only: word_unat_eq_iff) simp
qed

lemma partition_start: "unat (partition_start_addr (bk_flash_get_info p)) mod 4096 = 0"
  by (cases p) (simp_all add: bk_flash_get_info_def bk7231_partitions_def)

text \<open>The address is a field of 24 bits in the command register.\<close>

locale nor_chip =
  fixes ops :: "'c nor_ops" and cells :: "'c \<Rightarrow> u32 \<Rightarrow> u8" and writable :: "'c \<Rightarrow> bool"
  assumes chip_read: "a AND 0x1f = 0 \<Longrightarrow> unat a < 2 ^ 24 \<Longrightarrow> nor_read ops a c = bytes_at (cells c) a 32"
    and chip_program: "writable c \<Longrightarrow> a AND 0x1f = 0 \<Longrightarrow> unat a < 2 ^ 24 \<Longrightarrow> length bs = 32 \<Longrightarrow>
      cells (nor_program ops a bs c) x = (if x - a < 32 then cells c x AND bs ! unat (x - a) else cells c x)"
    and chip_erase: "writable c \<Longrightarrow> unat a < 2 ^ 24 \<Longrightarrow>
      cells (nor_erase ops a c) x = (if x AND NOT 0xfff = a AND NOT 0xfff then 0xff else cells c x)"
    and chip_writable: "writable c \<Longrightarrow> writable (nor_program ops a bs c)" "writable c \<Longrightarrow> writable (nor_erase ops a c)"
    and chip_config: "nor_config ops \<in> set flash_config_tbl"
    and chip_status: "nor_read_sr ops w (nor_write_sr ops w v c) = (if w = 1 then v AND 0xff else v)" "cells (nor_write_sr ops w v c) = cells c"
    and chip_unprotected: "nor_read_sr ops (sr_size (nor_config ops)) c AND
        (push_bit (unat (protect_post (nor_config ops))) (ucast (protect_mask (nor_config ops))) OR
         push_bit (unat (cmp_post (nor_config ops))) 1) = 0 \<Longrightarrow> writable c"
begin

lemma two_lines [simp]: "flash_two_lines ops c = c" "flash_four_lines ops c = c"
  using chip_config by (auto simp: flash_two_lines_def flash_four_lines_def flash_config_tbl_def config_row_def)

lemma erase_command: "flash_command ops (CMD_FLASH_ERASE_SECTOR a) c = nor_erase ops a c"
  by (simp add: flash_ctrl_def flash_cmd_op_def)

lemma security: "bk_flash_enable_security ops ty c = set_flash_protect ops ty c"
  by (simp add: bk_flash_enable_security_def flash_ctrl_def flash_cmd_op_def)

lemma protect_cells: "cells (set_flash_protect ops ty c) = cells c"
  by (simp add: set_flash_protect_def Let_def chip_status)

lemma protect_none_writable: "writable (set_flash_protect ops FLASH_PROTECT_NONE c)"
proof (rule chip_unprotected, rule bit_word_eqI)
  fix n assume "n < LENGTH(16)"
  let ?f = "nor_config ops"
  define v where "v = nor_read_sr ops (sr_size ?f) c"
  define m b where "m = (push_bit (unat (protect_post ?f)) (ucast (protect_mask ?f)) :: u32)" and "b = (push_bit (unat (cmp_post ?f)) 1 :: u32)"
  define c' where "c' = set_flash_protect ops FLASH_PROTECT_NONE c"
  have none: "protect_none ?f = 0" using chip_config by (auto simp: flash_config_tbl_def config_row_def)
  have c': "c' = (if 0 = ucast v AND m \<and> 0 = ucast v AND b then c
      else nor_write_sr ops (sr_size ?f) (ucast ((ucast v AND NOT m) AND NOT b)) c)"
    unfolding c'_def set_flash_protect_def Let_def v_def m_def b_def by (simp add: protect_value_def none)
  have "\<not> (bit (nor_read_sr ops (sr_size ?f) c') n \<and> (bit m n \<or> bit b n))"
  proof (cases "0 = ucast v AND m \<and> 0 = ucast v AND b")
    case True
    then have "ucast v AND m = 0" "ucast v AND b = 0" by (simp_all only:)
    then have "\<not> bit (ucast v AND m) n" "\<not> bit (ucast v AND b) n" by simp_all
    moreover have "c' = c" unfolding c' using True by (simp only: if_True simp_thms)
    ultimately show ?thesis using \<open>n < LENGTH(16)\<close> by (auto simp: v_def bit_simps)
  next
    case False
    then have "c' = nor_write_sr ops (sr_size ?f) (ucast ((ucast v AND NOT m) AND NOT b)) c" unfolding c' by (simp only: if_False)
    then show ?thesis by (auto simp: chip_status bit_simps)
  qed
  then show "bit (nor_read_sr ops (sr_size ?f) c' AND (push_bit (unat (protect_post ?f)) (ucast (protect_mask ?f)) OR push_bit (unat (cmp_post ?f)) 1)) n =
      bit (0 :: u16) n" using \<open>n < LENGTH(16)\<close> by (auto simp: m_def b_def bit_simps)
qed

lemma read_loop:
  assumes "unat address + unat len \<le> 2 ^ 24"
  shows "flash_read_loop ops (address AND NOT 0x1f) address len c = bytes_at (cells c) address (unat len)"
  using assms
proof (induction "unat len" arbitrary: address len rule: less_induct)
  case less
  show ?case
  proof (cases "len = 0")
    case False
    let ?b = "address AND NOT 0x1f" and ?i = "unat address mod 32"
    define n where "n = min (32 - ?i) (unat len)"
    have u: "0 < unat len" using False by (simp add: unat_gt_0)
    have i: "unat (address mod 32) = ?i" "?i < 32" by (simp_all add: low_bits(2))
    have "unat ?b < 2 ^ 24" using block_start(1)[of address] less.prems u by linarith
    then have pb: "nor_read ops ?b c = bytes_at (cells c) ?b 32" using chip_read block_start(2) by blast
    have n: "n \<le> unat len" "0 < n" "?i + n \<le> 32" using i u by (auto simp: n_def)
    have "unat len < 2 ^ LENGTH(32)" by (rule unsigned_less)
    then have w: "unat (of_nat n :: u32) = n" using n(1) by (simp add: unat_of_nat take_bit_nat_eq_self)
    then have l: "unat (len - of_nat n) = unat len - n" using n(1) by (simp add: unat_sub word_le_nat_alt)
    have bs: "take n (drop ?i (bytes_at (cells c) ?b 32)) = bytes_at (cells c) address n"
      using bytes_at_part[OF n(3), of "cells c" ?b] block_start(3)[of address] by simp
    have step: "flash_read_loop ops ?b address len c =
        bytes_at (cells c) address n @ flash_read_loop ops (?b + 32) (address + of_nat n) (len - of_nat n) c"
      using False copy_out_eq[OF i(2) False, of "bytes_at (cells c) ?b 32" n address] n_def bs pb i(1)
      by (subst flash_read_loop.simps) (simp del: flash_read_loop.simps)
    show ?thesis
    proof (cases "unat len \<le> 32 - ?i")
      case True
      then have "len - of_nat n = 0" "n = unat len" using l by (simp_all add: n_def unat_eq_zero)
      then show ?thesis using step by simp
    next
      case False
      then have n32: "n = 32 - ?i" by (simp add: n_def)
      have b: "unat address + (32 - ?i) < 2 ^ 32" using less.prems False by simp
      note nx = block_next[OF b]
      have ua: "unat (address + of_nat n) = unat address + n" using nx(2) n32 by simp
      have "unat (len - of_nat n) < unat len" "unat (address + of_nat n) + unat (len - of_nat n) \<le> 2 ^ 24"
        using n(1,2) less.prems u unfolding l ua by simp_all
      from less.hyps[OF this] have "flash_read_loop ops (?b + 32) (address + of_nat n) (len - of_nat n) c =
          bytes_at (cells c) (address + of_nat n) (unat len - n)" using nx(1) l by (simp add: n32 del: flash_read_loop.simps)
      then show ?thesis using step n(1) bytes_at_append[of "cells c" address n "unat len - n"] by (simp del: flash_read_loop.simps)
    qed
  qed (simp add: bytes_at_def)
qed

lemma read_data:
  assumes "unat address + unat len \<le> 2 ^ 24"
  shows "flash_read_data ops address len c = bytes_at (cells c) address (unat len)"
  using read_loop[OF assms] by (simp add: flash_read_data_def bytes_at_def del: flash_read_loop.simps)

text \<open>What programming bytes at an address leaves in the cells.\<close>

lemma write_block:
  assumes wr: "writable c" and b: "unat address + n \<le> 2 ^ 24" and n: "unat address mod 32 + n \<le> 32"
    and pb: "length pb = 32" "unat address mod 32 + n < 32 \<or> unat address mod 32 \<noteq> 0 \<Longrightarrow> pb = bytes_at (cells c) (address AND NOT 0x1f) 32"
    and bs: "length bs = n" "0 < n"
  shows "cells (nor_program ops (address AND NOT 0x1f) (take (unat address mod 32) pb @ bs @ drop (unat address mod 32 + n) pb) c) x =
     (if unat address \<le> unat x \<and> unat x < unat address + n then cells c x AND bs ! (unat x - unat address) else cells c x)"
proof -
  let ?b = "address AND NOT 0x1f" and ?i = "unat address mod 32"
  let ?p = "take ?i pb @ bs @ drop (?i + n) pb"
  have ub: "unat ?b = unat address - ?i" by (rule block_start(1))
  have ui: "?i \<le> unat address" by simp
  note ub = ub ui
  have lt: "unat ?b < 2 ^ 24" using ub b bs(2) by linarith
  have len: "length ?p = 32" using pb(1) bs(1) n by simp
  have iv: "x - ?b < 32 \<longleftrightarrow> unat ?b \<le> unat x \<and> unat x < unat ?b + 32" using addr_interval[of ?b 32 x] lt by simp
  note pr = chip_program[OF wr block_start(2) lt len, of x]
  show ?thesis
  proof (cases "x - ?b < 32")
    case False
    then have "\<not> (unat address \<le> unat x \<and> unat x < unat address + n)" using iv ub n by linarith
    then show ?thesis unfolding pr using False by (simp only: if_False)
  next
    case True
    define j where "j = unat (x - ?b)"
    have j: "j = unat x - unat ?b" "j < 32" "unat ?b \<le> unat x" using True iv by (auto simp: j_def unat_sub word_le_nat_alt word_less_nat_alt)
    have x: "x = ?b + of_nat j" by (simp add: j_def)
    have in_bs: "unat address \<le> unat x \<and> unat x < unat address + n \<longleftrightarrow> ?i \<le> j \<and> j < ?i + n" using j ub by linarith
    have p: "cells (nor_program ops ?b ?p c) x = cells c x AND ?p ! j" using pr True by (simp add: j_def)
    show ?thesis
    proof (cases "?i \<le> j \<and> j < ?i + n")
      case True
      then have "j - ?i < n" by linarith
      then have "?p ! j = bs ! (j - ?i)" using True pb(1) bs(1) n by (simp add: nth_append)
      moreover have "unat x - unat address = j - ?i" using j ub by linarith
      ultimately show ?thesis using p in_bs True by simp
    next
      case False
      then have "?p ! j = pb ! j" using pb(1) bs(1) n by (auto simp: nth_append)
      moreover have "pb = bytes_at (cells c) ?b 32" using False j(2) n by (intro pb(2)) linarith
      ultimately have "?p ! j = cells c x" using j(2) x by simp
      then show ?thesis using p in_bs False by auto
    qed
  qed
qed

lemma write_loop:
  assumes "writable c" and "unat address + unat len \<le> 2 ^ 24" and "unat len \<le> length buffer" and "length pb = 32"
    and "unat address mod 32 \<noteq> 0 \<Longrightarrow> pb = bytes_at (cells c) (address AND NOT 0x1f) 32"
  shows "writable (flash_write_loop ops pb (address AND NOT 0x1f) buffer address len c) \<and>
    cells (flash_write_loop ops pb (address AND NOT 0x1f) buffer address len c) x =
     (if unat address \<le> unat x \<and> unat x < unat address + unat len then cells c x AND buffer ! (unat x - unat address) else cells c x)"
  using assms
proof (induction "unat len" arbitrary: address len buffer pb c rule: less_induct)
  case less
  show ?case
  proof (cases "len = 0")
    case True
    then show ?thesis using less.prems(1) by auto
  next
    case False
    let ?b = "address AND NOT 0x1f" and ?i = "unat address mod 32"
    define n where "n = min (32 - ?i) (unat len)"
    have u: "0 < unat len" using False by (simp add: unat_gt_0)
    have i: "unat (address mod 32) = ?i" "?i < 32" by (simp_all add: low_bits(2))
    have n: "n \<le> unat len" "0 < n" "?i + n \<le> 32" using i u by (auto simp: n_def)
    have "unat len < 2 ^ LENGTH(32)" by (rule unsigned_less)
    then have w: "unat (of_nat n :: u32) = n" using n(1) by (simp add: unat_of_nat take_bit_nat_eq_self)
    then have l: "unat (len - of_nat n) = unat len - n" using n(1) by (simp add: unat_sub word_le_nat_alt)
    have rd: "flash_read_data ops ?b 32 c = bytes_at (cells c) ?b 32"
    proof -
      have "32 * (unat address div 32) < 2 ^ 24" using less.prems(2) u mult_div_mod_eq[of 32 "unat address"] by simp
      then have "unat address div 32 < 2 ^ 19" by simp
      moreover have "unat ?b = 32 * (unat address div 32)" unfolding block_start(1) by (rule minus_mod_eq_mult_div)
      ultimately have "unat ?b + 32 \<le> 2 ^ 24" by simp
      then show ?thesis using read_data[of ?b 32 c] by simp
    qed
    define pb1 where "pb1 = (if len < 32 then flash_read_data ops ?b 32 c else pb)"
    define bs where "bs = take n buffer"
    define pb2 where "pb2 = take ?i pb1 @ bs @ drop (?i + n) pb1"
    define c1 where "c1 = nor_program ops ?b pb2 c"
    have p1: "length pb1 = 32" using less.prems(4) rd by (simp add: pb1_def)
    have p1': "pb1 = bytes_at (cells c) ?b 32" if "?i + n < 32 \<or> ?i \<noteq> 0"
    proof (cases "len < 32")
      case False
      then have "32 \<le> unat len" by (simp add: word_less_nat_alt)
      then have "?i \<noteq> 0" using that by (auto simp: n_def min_def split: if_splits)
      then show ?thesis using less.prems(5) False by (simp add: pb1_def)
    qed (use rd in \<open>simp add: pb1_def\<close>)
    have ci: "copy_in ?i pb1 buffer address len = (pb2, drop n buffer, address + of_nat n, len - of_nat n)"
      using copy_in_eq[OF i(2) False p1 less.prems(3) n_def] by (simp add: pb2_def bs_def)
    have step: "flash_write_loop ops pb ?b buffer address len c =
        flash_write_loop ops (replicate 32 0xff) (?b + 32) (drop n buffer) (address + of_nat n) (len - of_nat n) c1"
      using False ci i(1) by (subst flash_write_loop.simps) (simp add: c1_def pb1_def[symmetric] del: flash_write_loop.simps)
    have bn: "unat address + n \<le> 2 ^ 24" "length bs = n" using less.prems(2,3) n(1) by (simp_all add: bs_def)
    have c1: "writable c1" using chip_writable(1)[OF less.prems(1)] by (simp add: c1_def)
    have cells1: "cells c1 x = (if unat address \<le> unat x \<and> unat x < unat address + n then cells c x AND bs ! (unat x - unat address) else cells c x)" for x
      unfolding c1_def pb2_def by (rule write_block[OF less.prems(1) bn(1) n(3) p1 p1' bn(2) n(2)])
    show ?thesis
    proof (cases "unat len \<le> 32 - ?i")
      case True
      then have e: "len - of_nat n = 0" "n = unat len" using l by (simp_all add: n_def unat_eq_zero)
      then have "flash_write_loop ops pb ?b buffer address len c = c1" using step by simp
      moreover have "take (unat len) buffer ! (unat x - unat address) = buffer ! (unat x - unat address)"
        if "unat address \<le> unat x" "unat x < unat address + unat len" using that by (intro nth_take) linarith
      ultimately show ?thesis using c1 cells1[of x] e(2) by (auto simp: bs_def simp del: flash_write_loop.simps)
    next
      case False
      then have n32: "n = 32 - ?i" by (simp add: n_def)
      have b: "unat address + (32 - ?i) < 2 ^ 32" using less.prems(2) False by simp
      note nx = block_next[OF b]
      have ua: "unat (address + of_nat n) = unat address + n" using nx(2) n32 by simp
      have m0: "unat (address + of_nat n) mod 32 = 0"
      proof -
        have "unat address + n = 32 * (unat address div 32) + 32" using n32 mult_div_mod_eq[of 32 "unat address"] i(2) by linarith
        then show ?thesis unfolding ua by simp
      qed
      have h: "unat (len - of_nat n) < unat len" "unat (address + of_nat n) + unat (len - of_nat n) \<le> 2 ^ 24"
        "unat (len - of_nat n) \<le> length (drop n buffer)" using l n ua less.prems(2,3) u by simp_all
      have "?b + 32 = (address + of_nat n) AND NOT 0x1f" using nx(1) n32 by simp
      then have st: "flash_write_loop ops pb ?b buffer address len c =
        flash_write_loop ops (replicate 32 0xff) ((address + of_nat n) AND NOT 0x1f) (drop n buffer) (address + of_nat n) (len - of_nat n) c1"
        using step by (simp only:)
      have ih: "writable (flash_write_loop ops pb ?b buffer address len c) \<and>
        cells (flash_write_loop ops pb ?b buffer address len c) x =
          (if unat address + n \<le> unat x \<and> unat x < unat address + n + (unat len - n) then cells c1 x AND drop n buffer ! (unat x - (unat address + n)) else cells c1 x)"
        unfolding st using less.hyps[OF h(1) c1 h(2,3), of "replicate 32 0xff"] m0 unfolding ua l by simp
      show ?thesis
      proof (cases "unat address \<le> unat x \<and> unat x < unat address + n")
        case True
        then show ?thesis using ih cells1[of x] n(1) by (auto simp: bs_def simp del: flash_write_loop.simps)
      next
        case out: False
        show ?thesis
        proof (cases "unat address + n \<le> unat x \<and> unat x < unat address + unat len")
          case True
          then have "drop n buffer ! (unat x - (unat address + n)) = buffer ! (unat x - unat address)" using less.prems(3) n(1) by simp
          then show ?thesis using True out ih cells1[of x] n(1) by (simp del: flash_write_loop.simps)
        next
          case False
          then show ?thesis using out ih cells1[of x] n(1) by (auto simp del: flash_write_loop.simps)
        qed
      qed
    qed
  qed
qed

lemma write_data:
  assumes "writable c" and "unat address + unat len \<le> 2 ^ 24" and "unat len \<le> length buffer"
  shows "\<exists>c'. flash_write_data ops buffer address len c = Some c' \<and> writable c' \<and>
    (\<forall>x. cells c' x = (if unat address \<le> unat x \<and> unat x < unat address + unat len then cells c x AND buffer ! (unat x - unat address) else cells c x))"
proof (cases "len = 0")
  case True
  then show ?thesis using assms(1) by (auto simp: flash_write_data_def)
next
  case False
  let ?b = "address AND NOT 0x1f"
  let ?pb = "if address mod 32 \<noteq> 0 then flash_read_data ops ?b 32 c else replicate 32 0xff"
  have u: "0 < unat len" using False by (simp add: unat_gt_0)
  have "32 * (unat address div 32) < 2 ^ 24" using assms(2) u mult_div_mod_eq[of 32 "unat address"] by simp
  then have "unat address div 32 < 2 ^ 19" by simp
  moreover have "unat ?b = 32 * (unat address div 32)" unfolding block_start(1) by (rule minus_mod_eq_mult_div)
  ultimately have "unat ?b + unat (32 :: u32) \<le> 2 ^ 24" by simp
  from read_data[OF this] have rd: "flash_read_data ops ?b 32 c = bytes_at (cells c) ?b 32" by simp
  have m: "address mod 32 \<noteq> 0 \<longleftrightarrow> unat address mod 32 \<noteq> 0" using low_bits(2)[of address] by (metis unat_eq_zero)
  have p: "length ?pb = 32" "unat address mod 32 \<noteq> 0 \<Longrightarrow> ?pb = bytes_at (cells c) ?b 32" unfolding rd m by simp_all
  have "flash_write_data ops buffer address len c = Some (flash_write_loop ops ?pb ?b buffer address len c)"
    unfolding flash_write_data_def Let_def using assms(3) by (simp del: flash_write_loop.simps)
  then show ?thesis using write_loop[OF assms p] by blast
qed

lemma erase_sectors:
  assumes "unat a mod 4096 = 0" and "unat a + 4096 * e \<le> 2 ^ 24" and "writable c" and "s \<le> e"
  shows "let c' = fold (\<lambda>i. nor_erase ops (a + push_bit 12 (of_nat i))) [s..<e] c
    in writable c' \<and> (\<forall>x. cells c' x = (if unat a + 4096 * s \<le> unat x \<and> unat x < unat a + 4096 * e then 0xff else cells c x))"
  using assms(2,4)
proof (induction e)
  case 0
  then show ?case using assms(3) by auto
next
  case (Suc e)
  show ?case
  proof (cases "s \<le> e")
    case False
    then have "s = Suc e" using Suc.prems(2) by simp
    then show ?thesis using assms(3) by auto
  next
    case True
    let ?a = "a + push_bit 12 (of_nat e)"
    define c1 where "c1 = fold (\<lambda>i. nor_erase ops (a + push_bit 12 (of_nat i))) [s..<e] c"
    have ih: "writable c1" "\<And>x. cells c1 x = (if unat a + 4096 * s \<le> unat x \<and> unat x < unat a + 4096 * e then 0xff else cells c x)"
      using Suc.IH Suc.prems True by (simp_all add: c1_def Let_def)
    have "(push_bit 12 (of_nat e) :: u32) = of_nat (4096 * e)" by (simp add: push_bit_eq_mult)
    moreover have "unat (of_nat (4096 * e) :: u32) = 4096 * e" using Suc.prems(1) by (simp only: unat_of_nat) (simp add: take_bit_nat_eq_self)
    ultimately have ua: "unat ?a = unat a + 4096 * e" using Suc.prems(1) by (subst unat_add_lem[THEN iffD1]) simp_all
    have er: "cells (nor_erase ops ?a c1) x = (if unat x div 4096 = unat ?a div 4096 then 0xff else cells c1 x)" for x
      using chip_erase[OF ih(1), of ?a x] Suc.prems(1) ua unfolding same_sector by simp
    have sec: "unat x div 4096 = unat ?a div 4096 \<longleftrightarrow> unat a + 4096 * e \<le> unat x \<and> unat x < unat a + 4096 * Suc e" for x :: u32
    proof -
      obtain q where q: "unat a = 4096 * q" using assms(1) by auto
      then have "unat ?a div 4096 = q + e" using ua by (simp add: q)
      then show ?thesis unfolding q by (auto simp: div_nat_eqI dividend_less_div_times) 
    qed
    have "fold (\<lambda>i. nor_erase ops (a + push_bit 12 (of_nat i))) [s..<Suc e] c = nor_erase ops ?a c1"
      using True by (simp add: c1_def)
    moreover have "cells (nor_erase ops ?a c1) x = (if unat a + 4096 * s \<le> unat x \<and> unat x < unat a + 4096 * Suc e then 0xff else cells c x)" for x
    proof (cases "unat a + 4096 * e \<le> unat x \<and> unat x < unat a + 4096 * Suc e")
      case True
      then have "unat a + 4096 * s \<le> unat x" using \<open>s \<le> e\<close> by linarith
      with True show ?thesis using er[of x] sec[of x] by simp
    next
      case False
      then have "(unat a + 4096 * s \<le> unat x \<and> unat x < unat a + 4096 * Suc e) = (unat a + 4096 * s \<le> unat x \<and> unat x < unat a + 4096 * e)" by auto
      then show ?thesis using er[of x] sec[of x] ih(2)[of x] False by (simp only: if_False) 
    qed
    ultimately show ?thesis using chip_writable(2)[OF ih(1)] by (simp add: Let_def)
  qed
qed

lemma erase_partition:
  assumes "writable c" and "0 < unat sz" and "unat (partition_start_addr (bk_flash_get_info p)) + unat off + unat sz + 4096 \<le> 2 ^ 24"
  shows "let P = unat (partition_start_addr (bk_flash_get_info p)); c' = bk_flash_erase ops p off sz c
    in writable c' \<and> (\<forall>x. cells c' x =
      (if P + 4096 * (unat off div 4096) \<le> unat x \<and> unat x < P + 4096 * ((unat off + unat sz - 1) div 4096 + 1) then 0xff else cells c x))"
proof -
  let ?P = "partition_start_addr (bk_flash_get_info p)"
  have "unat (off + sz) = unat off + unat sz" using assms(3) by (subst unat_add_lem[THEN iffD1]) simp_all
  moreover have "off + sz \<noteq> 0" using calculation assms(2) by auto
  ultimately have u: "unat (off + sz - 1) = unat off + unat sz - 1" by (simp add: unat_minus_one)
  have d: "unat (drop_bit 12 w) = unat w div 4096" for w :: u32 by (simp add: drop_bit_eq_div unat_div)
  let ?e = "(unat off + unat sz - 1) div 4096 + 1"
  have "4096 * ((unat off + unat sz - 1) div 4096) \<le> unat off + unat sz - 1" by (rule times_div_less_eq_dividend)
  then have e: "unat ?P + 4096 * ?e \<le> 2 ^ 24" using assms(2,3) by simp
  have s: "unat off div 4096 \<le> ?e" by (intro le_SucI[unfolded Suc_eq_plus1] div_le_mono) (use assms(2) in simp)
  have eq: "bk_flash_erase ops p off sz c = fold (\<lambda>i. nor_erase ops (?P + push_bit 12 (of_nat i))) [unat off div 4096 ..< ?e] c"
    unfolding bk_flash_erase_def Let_def d u Suc_eq_plus1 erase_command ..
  show ?thesis using erase_sectors[OF partition_start e assms(1) s] unfolding Let_def eq .
qed

end

section \<open>A chip\<close>

record flash_chip =
  fc_cells :: "u32 \<Rightarrow> u8"
  fc_sr :: u16

abbreviation fc_protected :: "flash_chip \<Rightarrow> bool" where "fc_protected c \<equiv> fc_sr c AND 0x407c \<noteq> 0"

definition chip_ops :: "flash_chip nor_ops" where
  "chip_ops = \<lparr>nor_read = (\<lambda>a c. bytes_at (fc_cells c) a 32),
     nor_program = (\<lambda>a bs c. if fc_protected c then c
        else c\<lparr>fc_cells := (\<lambda>x. if x - a < 32 then fc_cells c x AND bs ! unat (x - a) else fc_cells c x)\<rparr>),
     nor_erase = (\<lambda>a c. if fc_protected c then c
        else c\<lparr>fc_cells := (\<lambda>x. if x AND NOT 0xfff = a AND NOT 0xfff then 0xff else fc_cells c x)\<rparr>),
     nor_read_sr = (\<lambda>w c. if w = 1 then fc_sr c AND 0xff else fc_sr c),
     nor_write_sr = (\<lambda>w v c. c\<lparr>fc_sr := v\<rparr>), nor_line_mode = (\<lambda>_ c. c), nor_setup = (\<lambda>_ c. (0, c)),
     nor_config = flash_get_current_flash_config 0xC84015\<rparr>"

interpretation flash_chip: nor_chip chip_ops fc_cells "\<lambda>c. \<not> fc_protected c"
  by unfold_locales (simp_all add: chip_ops_def flash_get_current_flash_config_def flash_config_tbl_def config_row_def)

section \<open>Erasing, writing and reading a partition\<close>

lemma erase_write_read:
  assumes "nor_chip ops cells writable" and "writable c" and "buf \<noteq> []" and "unat len = length buf"
    and "unat (partition_start_addr (bk_flash_get_info p)) + unat off + length buf + 4096 \<le> 2 ^ 24"
  shows "\<exists>c'. bk_flash_write ops p off buf len (bk_flash_erase ops p off len c) = Some c' \<and> bk_flash_read ops p off len c' = buf \<and>
     bytes_at (cells c') (partition_start_addr (bk_flash_get_info p) + off) (length buf) = buf \<and>
     (\<forall>x. (let P = unat (partition_start_addr (bk_flash_get_info p))
           in unat x < P + 4096 * (unat off div 4096) \<or> P + 4096 * ((unat off + length buf - 1) div 4096 + 1) \<le> unat x) \<longrightarrow>
        cells c' x = cells c x)"
proof -
  let ?P = "partition_start_addr (bk_flash_get_info p)" and ?L = "length buf"
  define c1 where "c1 = bk_flash_erase ops p off len c"
  define lo hi where "lo = unat ?P + 4096 * (unat off div 4096)" and "hi = unat ?P + 4096 * ((unat off + ?L - 1) div 4096 + 1)"
  have L: "0 < ?L" using assms(3) by simp
  have c1: "writable c1" "\<And>x. cells c1 x = (if lo \<le> unat x \<and> unat x < hi then 0xff else cells c x)"
    using nor_chip.erase_partition[OF assms(1,2), of len p off] assms(4,5) L by (simp_all add: c1_def lo_def hi_def Let_def)
  have ua: "unat (?P + off) = unat ?P + unat off" using assms(5) by (subst unat_add_lem[THEN iffD1]) simp_all
  have bd: "unat (?P + off) + unat len \<le> 2 ^ 24" using ua assms(4,5) by simp
  from nor_chip.write_data[OF assms(1) c1(1) bd, of buf] assms(4) obtain c2 where
    c2: "flash_write_data ops buf (?P + off) len c1 = Some c2"
      "\<And>x. cells c2 x = (if unat (?P + off) \<le> unat x \<and> unat x < unat (?P + off) + ?L then cells c1 x AND buf ! (unat x - unat (?P + off)) else cells c1 x)"
    by auto
  have "4096 * (unat off div 4096) \<le> unat off" "unat off + ?L - 1 < 4096 * ((unat off + ?L - 1) div 4096 + 1)"
    using dividend_less_times_div[of 4096 "unat off + ?L - 1"] by (simp_all add: times_div_less_eq_dividend)
  then have in_sec: "lo \<le> unat (?P + off)" "unat (?P + off) + ?L \<le> hi" using ua L by (simp_all add: lo_def hi_def)
  have rd: "bytes_at (cells c2) (?P + off) ?L = buf"
  proof (rule nth_equalityI)
    fix i assume "i < length (bytes_at (cells c2) (?P + off) ?L)"
    then have i: "i < ?L" by simp
    then have "unat (of_nat i :: u32) = i" using bd assms(4) by (simp only: unat_of_nat) (simp add: take_bit_nat_eq_self)
    then have ux: "unat (?P + off + of_nat i) = unat (?P + off) + i" using bd i assms(4) by (subst unat_add_lem[THEN iffD1]) simp_all
    then have "cells c1 (?P + off + of_nat i) = 0xff" using c1(2) in_sec i by simp
    moreover have "(0xff :: u8) AND b = b" for b
    proof -
      have "(0xff :: u8) = - 1" by simp
      then show ?thesis by (simp only: and.left_neutral)
    qed
    ultimately show "bytes_at (cells c2) (?P + off) ?L ! i = buf ! i" using c2(2)[of "?P + off + of_nat i"] ux i by simp
  qed simp
  then have "bk_flash_read ops p off len c2 = buf"
    using nor_chip.read_data[OF assms(1) bd, of c2] assms(4) by (simp add: bk_flash_read_def flash_read_def)
  moreover have "cells c2 x = cells c x" if "unat x < lo \<or> hi \<le> unat x" for x
  proof -
    have "\<not> (lo \<le> unat x \<and> unat x < hi)" "\<not> (unat (?P + off) \<le> unat x \<and> unat x < unat (?P + off) + ?L)" using that in_sec by linarith+
    then show ?thesis using c1(2)[of x] c2(2)[of x] by (simp only: if_False)
  qed
  ultimately show ?thesis using c2(1) rd 
    by (auto simp: bk_flash_write_def flash_write_def nor_chip.two_lines[OF assms(1)] c1_def lo_def hi_def Let_def)
qed

section \<open>Properties\<close>

text \<open>C23: Data survives in the flash.  After the protection of any of the known chips has been taken off, what is
  written to an erased range of a partition is read back, at any offset and length; the cells outside the
  erased sectors keep their contents.\<close>

theorem flash_write_read:
  assumes "nor_chip ops cells writable" and "buf \<noteq> []" and "unat len = length buf"
    and "unat (partition_start_addr (bk_flash_get_info p)) + unat off + length buf + 4096 \<le> 2 ^ 24"
  shows "\<exists>c'. bk_flash_write ops p off buf len (bk_flash_erase ops p off len (bk_flash_enable_security ops FLASH_PROTECT_NONE c)) = Some c' \<and>
     bk_flash_read ops p off len c' = buf \<and>
     (\<forall>x. (let P = unat (partition_start_addr (bk_flash_get_info p))
           in unat x < P + 4096 * (unat off div 4096) \<or> P + 4096 * ((unat off + length buf - 1) div 4096 + 1) \<le> unat x) \<longrightarrow>
        cells c' x = cells c x)"
proof -
  let ?c = "bk_flash_enable_security ops FLASH_PROTECT_NONE c"
  have "writable ?c" "cells ?c = cells c"
    using nor_chip.protect_none_writable[OF assms(1)] nor_chip.protect_cells[OF assms(1)] by (simp_all add: nor_chip.security[OF assms(1)])
  then show ?thesis using erase_write_read[OF assms(1) _ assms(2-4), of ?c] by auto
qed

definition ex_chip :: flash_chip where
  "ex_chip = \<lparr>fc_cells = (\<lambda>_. 0x5a), fc_sr = 0x4004\<rparr>"

theorem flash_write_read_witness:
  "\<exists>c'. bk_flash_write chip_ops BK_PARTITION_NET_PARAM 30 [1, 2, 3, 4, 5] 5
       (bk_flash_erase chip_ops BK_PARTITION_NET_PARAM 30 5 (bk_flash_enable_security chip_ops FLASH_PROTECT_NONE ex_chip)) = Some c' \<and>
     bk_flash_read chip_ops BK_PARTITION_NET_PARAM 30 5 c' = [1, 2, 3, 4, 5] \<and> fc_cells c' 0x1fefff = 0x5a"
proof -
  have "unat (partition_start_addr (bk_flash_get_info BK_PARTITION_NET_PARAM)) = 0x1ff000"
    by (simp add: bk_flash_get_info_def bk7231_partitions_def)
  with flash_write_read[OF flash_chip.nor_chip_axioms, of "[1, 2, 3, 4, 5]" 5 BK_PARTITION_NET_PARAM 30 ex_chip] show ?thesis
    by (auto simp: ex_chip_def Let_def dest: spec[of _ "0x1fefff"])
qed

text \<open>An erase of no byte at offset 0 erases the whole chip: the last sector is computed from -1.\<close>

lemma erase_nothing_erases_all:
  "bk_flash_erase ops p 0 0 c =
     fold (\<lambda>i. flash_command ops (CMD_FLASH_ERASE_SECTOR (partition_start_addr (bk_flash_get_info p) + push_bit 12 (of_nat i)))) [0..<0x100000] c"
proof -
  have m: "(0 + 0 - 1 :: u32) = 0xffffffff" by simp
  have "unat (drop_bit 12 (0 + 0 - 1 :: u32)) = 0xfffff" unfolding m by (simp add: drop_bit_eq_div unat_div)
  then have "[unat (drop_bit 12 (0 :: u32))..<Suc (unat (drop_bit 12 (0 + 0 - 1 :: u32)))] = [0..<0x100000]" by (simp del: upt_Suc)
  then show ?thesis unfolding bk_flash_erase_def Let_def by (simp only:)
qed

end
