(* ===== verification/Net_Param.thy ===== *)
theory Net_Param
  imports Flash
begin

text \<open>
  beken378/func/net_param_intf/net_param.c: the table of network parameters in a partition of the flash.
  The table is a header and a sequence of items, each with a type, a length and a value.
\<close>

section \<open>Operations\<close>

abbreviation INFO_TLV_HEADER :: u32 where "INFO_TLV_HEADER \<equiv> 0x00564c54"
abbreviation AUTO_CONNECT_ITEM :: u32 where "AUTO_CONNECT_ITEM \<equiv> 0x11111111"
abbreviation WIFI_MODE_ITEM :: u32 where "WIFI_MODE_ITEM \<equiv> 0x22222222"
abbreviation DHCP_MODE_ITEM :: u32 where "DHCP_MODE_ITEM \<equiv> 0x33333333"
abbreviation WIFI_MAC_ITEM :: u32 where "WIFI_MAC_ITEM \<equiv> 0x44444444"
abbreviation SSID_KEY_ITEM :: u32 where "SSID_KEY_ITEM \<equiv> 0x55555555"
abbreviation IP_CONFIG_ITEM :: u32 where "IP_CONFIG_ITEM \<equiv> 0x66666666"
abbreviation RF_CFG_TSSI_ITEM :: u32 where "RF_CFG_TSSI_ITEM \<equiv> 0x77777777"
abbreviation RF_CFG_DIST_ITEM :: u32 where "RF_CFG_DIST_ITEM \<equiv> 0x88888888"
abbreviation RF_CFG_MODE_ITEM :: u32 where "RF_CFG_MODE_ITEM \<equiv> 0x99999999"
abbreviation CHARGE_CONFIG_ITEM :: u32 where "CHARGE_CONFIG_ITEM \<equiv> 0xaaaaaaaa"

text \<open>Words in memory have the least significant byte first.\<close>

definition word_of_bytes :: "u8 list \<Rightarrow> u32" where
  "word_of_bytes bs = foldr (\<lambda>b w. ucast b OR push_bit 8 w) bs 0"

definition bytes_of_word :: "u32 \<Rightarrow> u8 list" where
  "bytes_of_word w = [ucast w, ucast (drop_bit 8 w), ucast (drop_bit 16 w), ucast (drop_bit 24 w)]"

record info_item_st =
  it_type :: u32
  it_len :: u32

definition item_of_bytes :: "u8 list \<Rightarrow> info_item_st" where
  "item_of_bytes bs = \<lparr>it_type = word_of_bytes (take 4 bs), it_len = word_of_bytes (take 4 (drop 4 bs))\<rparr>"

definition item_bytes :: "info_item_st \<Rightarrow> u8 list" where
  "item_bytes it = bytes_of_word (it_type it) @ bytes_of_word (it_len it)"

abbreviation net_start :: u32 where
  "net_start \<equiv> partition_start_addr (bk_flash_get_info BK_PARTITION_NET_PARAM)"

text \<open>The result, the length of the table, and the bytes that are stored through buf if it is given.\<close>

definition search_info_tbl :: "'c nor_ops \<Rightarrow> bool \<Rightarrow> 'c \<Rightarrow> u32 \<times> u32 \<times> u8 list" where
  "search_info_tbl ops buf c =
     (let head = item_of_bytes (flash_read_data ops net_start 8 c)
      in if INFO_TLV_HEADER = it_type head
         then let cfg_len = it_len head + 8
              in (1, cfg_len, if buf then flash_read_data ops net_start cfg_len c else [])
         else (0, 0, []))"

partial_function (option) search_item_loop :: "'c nor_ops \<Rightarrow> u32 \<Rightarrow> u32 \<Rightarrow> u32 \<Rightarrow> 'c \<Rightarrow> u32 option" where
  "search_item_loop ops ty addr end_addr c =
     (if addr < end_addr
      then let head = item_of_bytes (flash_read_data ops addr 8 c)
           in if ty \<noteq> it_type head then search_item_loop ops ty (addr + 8 + it_len head) end_addr c
              else Some addr
      else Some addr)"

definition search_info_item :: "'c nor_ops \<Rightarrow> u32 \<Rightarrow> u32 \<Rightarrow> 'c \<Rightarrow> u32 option" where
  "search_info_item ops ty start_addr c =
     (let head = item_of_bytes (flash_read_data ops start_addr 8 c);
          addr = start_addr + 8;
          end_addr = addr + it_len head
      in do { addr \<leftarrow> search_item_loop ops ty addr end_addr c;
              Some (if addr \<ge> end_addr then 0 else addr) })"

definition info_item_len :: "u32 \<Rightarrow> u32" where
  "info_item_len item =
     (if item = WIFI_MAC_ITEM then 16
      else if item = CHARGE_CONFIG_ITEM then 12
      else if item = SSID_KEY_ITEM then 104
      else if item = IP_CONFIG_ITEM then 56
      else 12)"

text \<open>The items of the first group of the switch of get_info_item.\<close>

definition plain_item :: "u32 \<Rightarrow> bool" where
  "plain_item item \<longleftrightarrow> item \<in> set [AUTO_CONNECT_ITEM, WIFI_MODE_ITEM, DHCP_MODE_ITEM, WIFI_MAC_ITEM, RF_CFG_TSSI_ITEM, RF_CFG_DIST_ITEM,
     RF_CFG_MODE_ITEM, CHARGE_CONFIG_ITEM]"

text \<open>p0, p1 and p2 tell which pointers are given; the bytes that are stored through them.\<close>

definition get_info_item :: "'c nor_ops \<Rightarrow> u32 \<Rightarrow> bool \<Rightarrow> bool \<Rightarrow> bool \<Rightarrow> 'c \<Rightarrow> (u32 \<times> u8 list list) option" where
  "get_info_item ops item p0 p1 p2 c =
     (if fst (search_info_tbl ops False c) = 0 then Some (0, [])
      else do { addr_start \<leftarrow> search_info_item ops item net_start c;
                if addr_start = 0 then Some (0, [])
                else let head = item_of_bytes (flash_read_data ops addr_start 8 c);
                         addr_start = addr_start + 8
                     in Some (if plain_item item
                              then (if p0 then (1, [flash_read_data ops addr_start (it_len head) c]) else (0, []))
                              else if item = SSID_KEY_ITEM
                              then (if p0 \<and> p1
                                    then (1, [flash_read_data ops addr_start 32 c, flash_read_data ops (addr_start + 32) 64 c])
                                    else (0, []))
                              else if item = IP_CONFIG_ITEM
                              then (if p0 \<and> p1 \<and> p2
                                    then (1, [flash_read_data ops addr_start 16 c, flash_read_data ops (addr_start + 16) 16 c,
                                              flash_read_data ops (addr_start + 32) 16 c])
                                    else (0, []))
                              else (0, [])) })"

text \<open>os_memcpy of n bytes to an offset of the buffer; None outside of either.\<close>

definition put_bytes :: "nat \<Rightarrow> u8 list \<Rightarrow> nat \<Rightarrow> u8 list \<Rightarrow> u8 list option" where
  "put_bytes n src off buf =
     (if n \<le> length src \<and> off + n \<le> length buf then Some (take off buf @ take n src @ drop (off + n) buf) else None)"

text \<open>The first part of save_info_item: the offset of the item, the new length of the table and the buffer
  with the old table; None when the table does not fit in the buffer.  mem tells whether there is memory
  for the buffer.\<close>

datatype save_layout = No_memory | Layout u32 u32 "u8 list"

definition save_prepare :: "'c nor_ops \<Rightarrow> bool \<Rightarrow> u32 \<Rightarrow> 'c \<Rightarrow> save_layout option" where
  "save_prepare ops mem item c =
     (let item_len = info_item_len item;
          (found, cfg_tbl_len, _) = search_info_tbl ops False c
      in if found = 0
         then let cfg_tbl_len = 8 + item_len
              in Some (if mem then Layout 8 cfg_tbl_len (replicate (unat cfg_tbl_len) 0) else No_memory)
         else do { addr \<leftarrow> search_info_item ops item net_start c;
                   let (addr_offset, cfg_tbl_len) = (if addr = 0 then (cfg_tbl_len, cfg_tbl_len + item_len)
                                                     else (addr - net_start, cfg_tbl_len));
                   if \<not> mem then Some No_memory
                   else do { let (_, tmp, old) = search_info_tbl ops True c;
                             wrbuf \<leftarrow> put_bytes (unat tmp) old 0 (replicate (unat cfg_tbl_len) 0);
                             Some (Layout addr_offset cfg_tbl_len wrbuf) } })"

text \<open>The switch over the items.\<close>

definition save_value :: "u32 \<Rightarrow> u8 list \<Rightarrow> u8 list \<Rightarrow> u8 list \<Rightarrow> nat \<Rightarrow> u8 list \<Rightarrow> u8 list option" where
  "save_value item ptr0 ptr1 ptr2 item_buf buf =
     (if item = WIFI_MAC_ITEM then put_bytes 6 ptr0 item_buf buf
      else if item = SSID_KEY_ITEM
      then do { buf \<leftarrow> put_bytes 32 ptr0 item_buf buf; put_bytes 64 ptr1 (item_buf + 32) buf }
      else if item = IP_CONFIG_ITEM
      then do { buf \<leftarrow> put_bytes 16 ptr0 item_buf buf;
                buf \<leftarrow> put_bytes 16 ptr1 (item_buf + 16) buf;
                put_bytes 16 ptr2 (item_buf + 32) buf }
      else if item = CHARGE_CONFIG_ITEM then put_bytes 3 ptr0 item_buf buf
      else put_bytes 4 ptr0 item_buf buf)"

definition save_info_item :: "'c nor_ops \<Rightarrow> bool \<Rightarrow> u32 \<Rightarrow> u8 list \<Rightarrow> u8 list \<Rightarrow> u8 list \<Rightarrow> 'c \<Rightarrow> (u32 \<times> 'c) option" where
  "save_info_item ops mem item ptr0 ptr1 ptr2 c =
     do { layout \<leftarrow> save_prepare ops mem item c;
          case layout of
            No_memory \<Rightarrow> Some (0, c)
          | Layout addr_offset cfg_tbl_len wrbuf \<Rightarrow>
              do { wrbuf \<leftarrow> save_value item ptr0 ptr1 ptr2 (unat addr_offset + 8) wrbuf;
                   wrbuf \<leftarrow> put_bytes 8 (item_bytes \<lparr>it_type = item, it_len = info_item_len item - 8\<rparr>) (unat addr_offset) wrbuf;
                   wrbuf \<leftarrow> put_bytes 8 (item_bytes \<lparr>it_type = INFO_TLV_HEADER, it_len = cfg_tbl_len - 8\<rparr>) 0 wrbuf;
                   let c = bk_flash_enable_security ops FLASH_PROTECT_NONE c;
                   let c = bk_flash_erase ops BK_PARTITION_NET_PARAM 0 cfg_tbl_len c;
                   c \<leftarrow> bk_flash_write ops BK_PARTITION_NET_PARAM 0 wrbuf cfg_tbl_len c;
                   let c = bk_flash_enable_security ops FLASH_UNPROTECT_LAST_BLOCK c;
                   Some (1, c) } }"

definition test_get_whole_tbl :: "'c nor_ops \<Rightarrow> bool \<Rightarrow> 'c \<Rightarrow> u32 \<times> u8 list" where
  "test_get_whole_tbl ops ptr c = (let (ret, _, bs) = search_info_tbl ops ptr c in (ret, bs))"

section \<open>The table as a list of items\<close>

lemma word_bytes [simp]: "word_of_bytes (bytes_of_word w) = w"
proof (rule bit_word_eqI)
  fix n assume "n < LENGTH(32)"
  then consider "n < 8" | "8 \<le> n" "n < 16" | "16 \<le> n" "n < 24" | "24 \<le> n" "n < 32" by fastforce
  then show "bit (word_of_bytes (bytes_of_word w)) n = bit w n"
    by cases (auto simp: word_of_bytes_def bytes_of_word_def bit_simps less_diff_conv2)
qed

lemma length_bytes_of_word [simp]: "length (bytes_of_word w) = 4"
  by (simp add: bytes_of_word_def)

lemma item_bytes_inverse [simp]: "item_of_bytes (item_bytes it) = it" "length (item_bytes it) = 8"
  by (simp_all add: item_of_bytes_def item_bytes_def)

type_synonym net_table = "(u32 \<times> u8 list) list"

definition entry_bytes :: "u32 \<times> u8 list \<Rightarrow> u8 list" where
  "entry_bytes e = item_bytes \<lparr>it_type = fst e, it_len = of_nat (length (snd e))\<rparr> @ snd e"

definition table_body :: "net_table \<Rightarrow> u8 list" where
  "table_body tbl = concat (map entry_bytes tbl)"

definition table_bytes :: "net_table \<Rightarrow> u8 list" where
  "table_bytes tbl = item_bytes \<lparr>it_type = INFO_TLV_HEADER, it_len = of_nat (length (table_body tbl))\<rparr> @ table_body tbl"

text \<open>Every value has the length of its type, and the table fits in its sector.\<close>

definition table_ok :: "net_table \<Rightarrow> bool" where
  "table_ok tbl \<longleftrightarrow> (\<forall>e \<in> set tbl. length (snd e) + 8 = unat (info_item_len (fst e))) \<and> length (table_bytes tbl) \<le> 4096"

definition stored :: "(u32 \<Rightarrow> u8) \<Rightarrow> net_table \<Rightarrow> bool" where
  "stored m tbl \<longleftrightarrow> bytes_at m net_start (length (table_bytes tbl)) = table_bytes tbl"

fun entry_offset :: "u32 \<Rightarrow> net_table \<Rightarrow> nat" where
  "entry_offset item [] = 0"
| "entry_offset item ((t, v) # tbl) = (if t = item then 0 else 8 + length v + entry_offset item tbl)"

lemma net_start_eq: "net_start = 0x1ff000" "unat net_start = 0x1ff000"
  by (simp_all add: bk_flash_get_info_def bk7231_partitions_def)

lemma length_entry [simp]: "length (entry_bytes e) = 8 + length (snd e)"
  by (simp add: entry_bytes_def)

lemma table_body_simps [simp]: "table_body [] = []" "table_body (e # tbl) = entry_bytes e @ table_body tbl" "table_body (a @ b) = table_body a @ table_body b"
  by (simp_all add: table_body_def)

lemma length_table [simp]: "length (table_bytes tbl) = 8 + length (table_body tbl)"
  by (simp add: table_bytes_def)

lemma entry_offset_le: "entry_offset item tbl \<le> length (table_body tbl)" "map_of tbl item \<noteq> None \<Longrightarrow> entry_offset item tbl < length (table_body tbl)"
  "map_of tbl item = None \<Longrightarrow> entry_offset item tbl = length (table_body tbl)"
  by (induction tbl) auto

lemma entry_split:
  assumes "map_of tbl item = Some v"
  shows "\<exists>pre post. tbl = pre @ (item, v) # post \<and> length (table_body pre) = entry_offset item tbl \<and> map_of pre item = None"
  using assms
proof (induction tbl)
  case (Cons e tbl)
  obtain t u where e: "e = (t, u)" by (cases e)
  show ?case
  proof (cases "t = item")
    case True
    then show ?thesis using Cons.prems e by (intro exI[of _ "[]"] exI[of _ tbl]) simp
  next
    case False
    then obtain pre post where "tbl = pre @ (item, v) # post" "length (table_body pre) = entry_offset item tbl" "map_of pre item = None"
      using Cons e by auto
    then show ?thesis using False e by (intro exI[of _ "e # pre"] exI[of _ post]) simp
  qed
qed simp

text \<open>Reading a part of a stored sequence.\<close>

lemma bytes_part:
  assumes "bytes_at m a n = xs @ ys @ zs" and "n = length xs + length ys + length zs"
  shows "bytes_at m (a + of_nat (length xs)) (length ys) = ys"
proof -
  have "bytes_at m (a + of_nat (length xs)) (length ys) = take (length ys) (drop (length xs) (bytes_at m a n))"
    using bytes_at_part[of "length xs" "length ys" n m a] assms(2) by simp
  then show ?thesis by (simp add: assms(1))
qed

lemma small_nat: "n \<le> 4096 \<Longrightarrow> unat (of_nat n :: u32) = n"
  by (simp add: unat_of_nat take_bit_nat_eq_self)

lemma word_of_unat: "unat (w :: u32) = n \<Longrightarrow> w = of_nat n"
  by auto

lemma item_lens: "unat (info_item_len item) \<in> {12, 16, 56, 104}" "unat (info_item_len item - 8) = unat (info_item_len item) - 8"
  by (simp_all add: info_item_len_def)

text \<open>A flash without the mark of a table holds the empty table.\<close>

definition net_table_at :: "(u32 \<Rightarrow> u8) \<Rightarrow> net_table \<Rightarrow> bool" where
  "net_table_at m tbl \<longleftrightarrow> stored m tbl \<or> (tbl = [] \<and> it_type (item_of_bytes (bytes_at m net_start 8)) \<noteq> INFO_TLV_HEADER)"

text \<open>What a read should give: the parts of the value of the first item of the type.\<close>

definition net_get :: "u32 \<Rightarrow> bool \<Rightarrow> bool \<Rightarrow> bool \<Rightarrow> net_table \<Rightarrow> u32 \<times> u8 list list" where
  "net_get item p0 p1 p2 tbl =
     (case map_of tbl item of
        None \<Rightarrow> (0, [])
      | Some v \<Rightarrow>
          if plain_item item then (if p0 then (1, [v]) else (0, []))
          else if item = SSID_KEY_ITEM then (if p0 \<and> p1 then (1, [take 32 v, take 64 (drop 32 v)]) else (0, []))
          else if item = IP_CONFIG_ITEM then (if p0 \<and> p1 \<and> p2 then (1, [take 16 v, take 16 (drop 16 v), take 16 (drop 32 v)]) else (0, []))
          else (0, []))"

text \<open>What a save should do: replace the front of the value of the first item of the type, or append an item
  with a value that is filled up with zeros.\<close>

definition item_data :: "u32 \<Rightarrow> u8 list \<Rightarrow> u8 list \<Rightarrow> u8 list \<Rightarrow> u8 list" where
  "item_data item ptr0 ptr1 ptr2 =
     (if item = WIFI_MAC_ITEM then take 6 ptr0
      else if item = SSID_KEY_ITEM then take 32 ptr0 @ take 64 ptr1
      else if item = IP_CONFIG_ITEM then take 16 ptr0 @ take 16 ptr1 @ take 16 ptr2
      else if item = CHARGE_CONFIG_ITEM then take 3 ptr0
      else take 4 ptr0)"

definition sources_ok :: "u32 \<Rightarrow> u8 list \<Rightarrow> u8 list \<Rightarrow> u8 list \<Rightarrow> bool" where
  "sources_ok item ptr0 ptr1 ptr2 \<longleftrightarrow>
     (if item = WIFI_MAC_ITEM then 6 \<le> length ptr0
      else if item = SSID_KEY_ITEM then 32 \<le> length ptr0 \<and> 64 \<le> length ptr1
      else if item = IP_CONFIG_ITEM then 16 \<le> length ptr0 \<and> 16 \<le> length ptr1 \<and> 16 \<le> length ptr2
      else if item = CHARGE_CONFIG_ITEM then 3 \<le> length ptr0
      else 4 \<le> length ptr0)"

definition overlay :: "u8 list \<Rightarrow> u8 list \<Rightarrow> u8 list" where
  "overlay data old = data @ drop (length data) old"

fun net_put :: "u32 \<Rightarrow> u8 list \<Rightarrow> net_table \<Rightarrow> net_table" where
  "net_put item data [] = [(item, overlay data (replicate (unat (info_item_len item) - 8) 0))]"
| "net_put item data ((t, v) # tbl) = (if t = item then (t, overlay data v) # tbl else (t, v) # net_put item data tbl)"

lemma net_put_absent: "map_of tbl item = None \<Longrightarrow> net_put item data tbl = tbl @ net_put item data []"
  by (induction tbl) auto

lemma net_put_present: "map_of pre item = None \<Longrightarrow> net_put item data (pre @ (item, v) # post) = pre @ (item, overlay data v) # post"
  by (induction pre) auto

lemma map_of_net_put: "map_of (net_put item data tbl) item' =
  (if item' = item then Some (overlay data (case map_of tbl item of Some v \<Rightarrow> v | None \<Rightarrow> replicate (unat (info_item_len item) - 8) 0))
   else map_of tbl item')"
  by (induction tbl) auto

lemma put_mid:
  assumes "n \<le> length src" and "length xs = off" and "length ys = n"
  shows "put_bytes n src off (xs @ ys @ zs) = Some (xs @ take n src @ zs)"
  using assms by (simp add: put_bytes_def)

lemma save_value_ok:
  assumes "sources_ok item ptr0 ptr1 ptr2" and "length old + 8 = unat (info_item_len item)" and "length xs = off"
  shows "save_value item ptr0 ptr1 ptr2 off (xs @ old @ zs) = Some (xs @ overlay (item_data item ptr0 ptr1 ptr2) old @ zs)"
proof -
  have one: "put_bytes n src off (xs @ old @ zs) = Some (xs @ overlay (take n src) old @ zs)" if "n \<le> length src" "n \<le> length old" for n src
  proof -
    have e: "take n old @ drop n old @ zs = old @ zs" by (metis append.assoc append_take_drop_id)
    show ?thesis using put_mid[OF that(1) assms(3), of "take n old" "drop n old @ zs", unfolded e] that by (simp add: overlay_def)
  qed
  have more: "put_bytes n src (off + k) (xs @ overlay d old @ zs) = Some (xs @ overlay (d @ take n src) old @ zs)"
    if "n \<le> length src" "length d = k" "k + n \<le> length old" for n src d k
  proof -
    have "take n (drop k old) @ drop (k + n) old = drop k old" using append_take_drop_id[of n "drop k old"] by (simp add: add.commute)
    then have e: "take n (drop k old) @ drop (k + n) old @ zs = drop k old @ zs" by (metis append.assoc)
    show ?thesis using put_mid[OF that(1), of "xs @ d" "off + k" "take n (drop k old)" "drop (k + n) old @ zs", unfolded e] that assms(3)
      by (simp add: overlay_def)
  qed
  consider "item = WIFI_MAC_ITEM" | "item = SSID_KEY_ITEM" | "item = IP_CONFIG_ITEM" | "item = CHARGE_CONFIG_ITEM"
    | "item \<noteq> WIFI_MAC_ITEM" "item \<noteq> SSID_KEY_ITEM" "item \<noteq> IP_CONFIG_ITEM" "item \<noteq> CHARGE_CONFIG_ITEM" by blast
  then show ?thesis
  proof cases
    case 1
    then have "6 \<le> length ptr0" "6 \<le> length old" using assms(1,2) by (simp_all add: sources_ok_def info_item_len_def)
    then show ?thesis using one 1 by (simp add: save_value_def item_data_def)
  next
    case 2
    then have l: "32 \<le> length ptr0" "64 \<le> length ptr1" "length old = 96" using assms(1,2) by (simp_all add: sources_ok_def info_item_len_def)
    then show ?thesis using one[of 32 ptr0] more[of 64 ptr1 "take 32 ptr0" 32] 2 by (simp add: save_value_def item_data_def)
  next
    case 3
    then have l: "16 \<le> length ptr0" "16 \<le> length ptr1" "16 \<le> length ptr2" "length old = 48" using assms(1,2) by (simp_all add: sources_ok_def info_item_len_def)
    then show ?thesis using one[of 16 ptr0] more[of 16 ptr1 "take 16 ptr0" 16] more[of 16 ptr2 "take 16 ptr0 @ take 16 ptr1" 32] 3
      by (simp add: save_value_def item_data_def)
  next
    case 4
    then have "3 \<le> length ptr0" "3 \<le> length old" using assms(1,2) by (simp_all add: sources_ok_def info_item_len_def)
    then show ?thesis using one 4 by (simp add: save_value_def item_data_def)
  next
    case 5
    then have "4 \<le> length ptr0" "4 \<le> length old" using assms(1,2) by (simp_all add: sources_ok_def info_item_len_def)
    then show ?thesis using one 5 by (simp add: save_value_def item_data_def)
  qed
qed

section \<open>Searching and reading the table\<close>

context nor_chip
begin

lemma read_at:
  assumes "unat a + n \<le> 2 ^ 24" and "n \<le> 4096"
  shows "flash_read_data ops a (of_nat n) c = bytes_at (cells c) a n"
  using read_data[of a "of_nat n" c] assms small_nat[OF assms(2)] by simp

lemma read_entry:
  assumes "bytes_at (cells c) a (length (entry_bytes e)) = entry_bytes e" and "unat a + length (entry_bytes e) \<le> 2 ^ 24"
  shows "item_of_bytes (flash_read_data ops a 8 c) = \<lparr>it_type = fst e, it_len = of_nat (length (snd e))\<rparr>"
    "bytes_at (cells c) (a + 8) (length (snd e)) = snd e"
proof -
  let ?h = "item_bytes \<lparr>it_type = fst e, it_len = of_nat (length (snd e))\<rparr>"
  have "bytes_at (cells c) a 8 = ?h" using bytes_part[of "cells c" a _ "[]" ?h "snd e"] assms(1) by (simp add: entry_bytes_def)
  moreover have "flash_read_data ops a 8 c = bytes_at (cells c) a 8" using read_at[of a 8 c] assms(2) by simp
  ultimately show "item_of_bytes (flash_read_data ops a 8 c) = \<lparr>it_type = fst e, it_len = of_nat (length (snd e))\<rparr>" by simp
  show "bytes_at (cells c) (a + 8) (length (snd e)) = snd e"
    using bytes_part[of "cells c" a _ ?h "snd e" "[]"] assms(1) by (simp add: entry_bytes_def)
qed

lemma search_loop:
  assumes "bytes_at (cells c) a (length (table_body tbl)) = table_body tbl" and "unat a + length (table_body tbl) \<le> 2 ^ 24"
  shows "search_item_loop ops item a (a + of_nat (length (table_body tbl))) c = Some (a + of_nat (entry_offset item tbl))"
  using assms
proof (induction tbl arbitrary: a)
  case Nil
  then show ?case by (subst search_item_loop.simps) simp
next
  case (Cons e tbl)
  obtain t v where e: "e = (t, v)" by (cases e)
  let ?n = "length (entry_bytes e)" and ?m = "length (table_body tbl)"
  have b: "unat a + ?n \<le> 2 ^ 24" using Cons.prems(2) by simp
  have p: "bytes_at (cells c) a ?n = entry_bytes e" "bytes_at (cells c) (a + of_nat ?n) ?m = table_body tbl"
    using bytes_part[of "cells c" a _ "[]" "entry_bytes e" "table_body tbl"] bytes_part[of "cells c" a _ "entry_bytes e" "table_body tbl" "[]"]
      Cons.prems(1) by simp_all
  note h = read_entry(1)[OF p(1) b]
  have le: "length (table_body (e # tbl)) = ?n + ?m" by simp
  have w: "unat (of_nat (?n + ?m) :: u32) = ?n + ?m" "unat (of_nat ?n :: u32) = ?n"
    using Cons.prems(2) by (simp_all only: unat_of_nat) (simp_all add: take_bit_nat_eq_self)
  then have ua: "unat (a + of_nat (?n + ?m)) = unat a + (?n + ?m)" "unat (a + of_nat ?n) = unat a + ?n"
    using Cons.prems(2) unfolding le by (subst unat_add_lem[THEN iffD1]; simp)+
  have lt: "a < a + of_nat (length (table_body (e # tbl)))" unfolding le word_less_nat_alt ua by simp
  show ?case
  proof (cases "t = item")
    case True
    then show ?thesis using lt h e by (subst search_item_loop.simps) simp
  next
    case False
    have e1: "a + 8 + of_nat (length v) = a + of_nat ?n" by (simp add: e add.assoc)
    have e2: "a + of_nat (length (table_body (e # tbl))) = a + of_nat ?n + of_nat ?m" by (simp add: add.assoc)
    have "unat (a + of_nat ?n) + ?m \<le> 2 ^ 24" using Cons.prems(2) unfolding ua(2) le by simp
    from Cons.IH[OF p(2) this] have "search_item_loop ops item (a + 8 + of_nat (length v)) (a + of_nat (length (table_body (e # tbl)))) c =
        Some (a + of_nat ?n + of_nat (entry_offset item tbl))" unfolding e1 e2 .
    then show ?thesis using lt h False e by (subst search_item_loop.simps) (simp add: add.assoc)
  qed
qed

lemma search_table:
  assumes "stored (cells c) tbl" and "table_ok tbl"
  shows "search_info_tbl ops buf c = (1, of_nat (length (table_bytes tbl)), if buf then table_bytes tbl else [])"
    "search_info_item ops item net_start c = Some (if map_of tbl item = None then 0 else net_start + 8 + of_nat (entry_offset item tbl))"
proof -
  let ?L = "length (table_body tbl)"
  let ?h = "item_bytes \<lparr>it_type = INFO_TLV_HEADER, it_len = of_nat ?L\<rparr>"
  have L: "?L + 8 \<le> 4096" using assms(2) by (simp add: table_ok_def)
  have s: "bytes_at (cells c) net_start (8 + ?L) = ?h @ table_body tbl" using assms(1) by (simp add: stored_def table_bytes_def)
  have p: "bytes_at (cells c) net_start 8 = ?h" "bytes_at (cells c) (net_start + 8) ?L = table_body tbl"
    using bytes_part[of "cells c" net_start _ "[]" ?h "table_body tbl"] bytes_part[of "cells c" net_start _ ?h "table_body tbl" "[]"] s by simp_all
  have rd: "flash_read_data ops net_start 8 c = ?h" using read_at[of net_start 8 c] p(1) net_start_eq(2) by simp
  have "of_nat ?L + (8 :: u32) = of_nat (8 + ?L)" by simp
  moreover have "flash_read_data ops net_start (of_nat (8 + ?L)) c = table_bytes tbl"
    using read_at[of net_start "8 + ?L" c] L net_start_eq(2) s by (simp add: table_bytes_def)
  ultimately show "search_info_tbl ops buf c = (1, of_nat (length (table_bytes tbl)), if buf then table_bytes tbl else [])"
    using rd by (simp add: search_info_tbl_def Let_def add.commute)
  have u8: "unat (net_start + 8) = 0x1ff008" unfolding net_start_eq(1) by simp
  have lp: "search_item_loop ops item (net_start + 8) (net_start + 8 + of_nat ?L) c = Some (net_start + 8 + of_nat (entry_offset item tbl))"
    using search_loop[OF p(2)] u8 L by simp
  have un: "unat (net_start + 8 + of_nat n) = 0x1ff008 + n" if "n \<le> 4096" for n
    using small_nat[OF that] that u8 by (subst unat_add_lem[THEN iffD1]) simp_all
  have "net_start + 8 + of_nat (entry_offset item tbl) \<ge> net_start + 8 + of_nat ?L \<longleftrightarrow> ?L \<le> entry_offset item tbl"
    using un[of ?L] un[of "entry_offset item tbl"] L entry_offset_le(1)[of item tbl] by (simp add: word_le_nat_alt)
  also have "\<dots> \<longleftrightarrow> map_of tbl item = None" using entry_offset_le(2,3)[of tbl item] by (cases "map_of tbl item = None") auto
  finally show "search_info_item ops item net_start c = Some (if map_of tbl item = None then 0 else net_start + 8 + of_nat (entry_offset item tbl))"
    using rd lp by (simp add: search_info_item_def Let_def)
qed

lemma no_table:
  assumes "it_type (item_of_bytes (bytes_at (cells c) net_start 8)) \<noteq> INFO_TLV_HEADER"
  shows "search_info_tbl ops buf c = (0, 0, [])"
  using read_at[of net_start 8 c] net_start_eq(2) assms by (simp add: search_info_tbl_def Let_def)

lemma get_item:
  assumes "net_table_at (cells c) tbl" and "table_ok tbl"
  shows "get_info_item ops item p0 p1 p2 c = Some (net_get item p0 p1 p2 tbl)"
proof (cases "stored (cells c) tbl")
  case False
  then have "search_info_tbl ops False c = (0, 0, [])" "tbl = []" using no_table assms(1) by (auto simp: net_table_at_def)
  then show ?thesis by (simp add: get_info_item_def net_get_def)
next
  case True
  note st = search_table[OF True assms(2)]
  show ?thesis
  proof (cases "map_of tbl item")
    case None
    then show ?thesis using st by (simp add: get_info_item_def net_get_def)
  next
    case (Some v)
    from entry_split[OF Some] obtain pre post where
      t: "tbl = pre @ (item, v) # post" "length (table_body pre) = entry_offset item tbl" by blast
    let ?h = "item_bytes \<lparr>it_type = INFO_TLV_HEADER, it_len = of_nat (length (table_body tbl))\<rparr>" and ?e = "(item, v)"
    define A where "A = net_start + 8 + of_nat (entry_offset item tbl)"
    have L: "length (table_body tbl) + 8 \<le> 4096" "length v + 8 = unat (info_item_len item)" using assms(2) t(1) by (auto simp: table_ok_def)
    have off: "entry_offset item tbl + 8 + length v \<le> length (table_body tbl)" using t by (simp only: t(1)[symmetric]) (simp add: t(1) flip: t(2))
    have eA: "A = net_start + of_nat (length (?h @ table_body pre))" by (simp add: A_def t(2) add.assoc)
    have eB: "bytes_at (cells c) net_start (length (table_bytes tbl)) = (?h @ table_body pre) @ entry_bytes ?e @ table_body post"
      using True t(1) by (simp add: stored_def table_bytes_def)
    have b: "bytes_at (cells c) A (length (entry_bytes ?e)) = entry_bytes ?e"
      unfolding eA by (rule bytes_part[OF eB]) (simp add: t(1))
    have un: "unat (net_start + 8 + of_nat n) = 0x1ff008 + n" if "n \<le> 4096" for n
    proof -
      have "unat (net_start + 8) = 0x1ff008" unfolding net_start_eq(1) by simp
      then show ?thesis using small_nat[OF that] that by (subst unat_add_lem[THEN iffD1]) simp_all
    qed
    have uA: "unat A = 0x1ff008 + entry_offset item tbl" using un[of "entry_offset item tbl"] off L(1) by (simp add: A_def)
    have bd: "unat A + length (entry_bytes ?e) \<le> 2 ^ 24" using uA off L(1) by simp
    note re = read_entry[OF b bd, simplified]
    have u8: "unat (A + 8) = unat A + 8" using uA off L(1) by (subst unat_add_lem[THEN iffD1]) simp_all
    have part: "flash_read_data ops (A + 8 + of_nat i) (of_nat n) c = take n (drop i v)" if "i + n \<le> length v" for i n
    proof -
      have "unat (of_nat i :: u32) = i" "n \<le> 4096" using that off L(1) by (simp_all add: small_nat)
      moreover have "unat (A + 8 + of_nat i) = unat A + 8 + i" using calculation u8 uA that off L(1) by (subst unat_add_lem[THEN iffD1]) simp_all
      ultimately have "flash_read_data ops (A + 8 + of_nat i) (of_nat n) c = bytes_at (cells c) (A + 8 + of_nat i) n"
        using read_at[of "A + 8 + of_nat i" n c] uA that off L(1) by simp
      also have "\<dots> = take n (drop i v)" using bytes_at_part[OF that, of "cells c" "A + 8"] re(2) by simp
      finally show ?thesis .
    qed
    have rd: "flash_read_data ops (A + 8) (of_nat n) c = take n v" if "n \<le> length v" for n using part[of 0 n] that by simp
    have nz: "A \<noteq> 0" using uA by (metis unat_0 add_is_0 zero_neq_numeral)
    have vl: "item = SSID_KEY_ITEM \<Longrightarrow> length v = 96" "item = IP_CONFIG_ITEM \<Longrightarrow> length v = 48" using L(2) by (simp_all add: info_item_len_def)
    have np: "\<not> plain_item SSID_KEY_ITEM" "\<not> plain_item IP_CONFIG_ITEM" by (simp_all add: plain_item_def)
    have go: "search_info_item ops item net_start c = Some A" using st(2)[of item] Some by (simp add: A_def)
    consider "plain_item item" | "item = SSID_KEY_ITEM" | "item = IP_CONFIG_ITEM"
      | "\<not> plain_item item" "item \<noteq> SSID_KEY_ITEM" "item \<noteq> IP_CONFIG_ITEM" by blast
    then show ?thesis
    proof cases
      case 1
      then show ?thesis using st(1) go nz re(1) rd[of "length v"] Some by (simp add: get_info_item_def net_get_def Let_def)
    next
      case 2
      then show ?thesis using st(1) go nz rd[of 32] part[of 32 64] vl(1) np Some by (simp add: get_info_item_def net_get_def Let_def)
    next
      case 3
      then show ?thesis using st(1) go nz rd[of 16] part[of 16 16] part[of 32 16] vl(2) np Some by (simp add: get_info_item_def net_get_def Let_def)
    next
      case 4
      then show ?thesis using st(1) go nz Some by (simp add: get_info_item_def net_get_def Let_def)
    qed
  qed
qed

end

section \<open>Writing the table\<close>

lemma item_data_length: "sources_ok item ptr0 ptr1 ptr2 \<Longrightarrow> length (item_data item ptr0 ptr1 ptr2) + 8 \<le> unat (info_item_len item)"
  by (auto simp: sources_ok_def item_data_def info_item_len_def)

lemma length_overlay [simp]: "length data \<le> length old \<Longrightarrow> length (overlay data old) = length old"
  by (simp add: overlay_def)

lemma entry_of_item:
  assumes "length v + 8 = unat (info_item_len item)"
  shows "entry_bytes (item, v) = item_bytes \<lparr>it_type = item, it_len = info_item_len item - 8\<rparr> @ v"
proof -
  have "unat (info_item_len item - 8) = length v" using assms item_lens(2)[of item] by simp
  then have "info_item_len item - 8 = of_nat (length v)" by (rule word_of_unat)
  then show ?thesis by (simp add: entry_bytes_def)
qed

text \<open>The three writes into the buffer put the entry between what is before and after it.\<close>

lemma save_fields:
  assumes "sources_ok item ptr0 ptr1 ptr2" and "length old + 8 = unat (info_item_len item)" and "length H = 8" and "length E = 8"
    and "off = 8 + length P"
  shows "do { buf \<leftarrow> save_value item ptr0 ptr1 ptr2 (off + 8) (H @ P @ E @ old @ Q);
              buf \<leftarrow> put_bytes 8 (item_bytes \<lparr>it_type = item, it_len = info_item_len item - 8\<rparr>) off buf;
              put_bytes 8 (item_bytes h) 0 buf } =
         Some (item_bytes h @ P @ entry_bytes (item, overlay (item_data item ptr0 ptr1 ptr2) old) @ Q)"
proof -
  let ?v = "overlay (item_data item ptr0 ptr1 ptr2) old"
  let ?e = "item_bytes \<lparr>it_type = item, it_len = info_item_len item - 8\<rparr>"
  have "save_value item ptr0 ptr1 ptr2 (off + 8) (H @ P @ E @ old @ Q) = Some (H @ P @ E @ ?v @ Q)"
    using save_value_ok[OF assms(1,2), of "H @ P @ E" "off + 8" Q] assms(3-5) by simp
  moreover have "put_bytes 8 ?e off (H @ P @ E @ ?v @ Q) = Some (H @ P @ ?e @ ?v @ Q)"
    using put_mid[of 8 ?e "H @ P" off E "?v @ Q"] assms(3-5) by simp
  moreover have "put_bytes 8 (item_bytes h) 0 (H @ P @ ?e @ ?v @ Q) = Some (item_bytes h @ P @ ?e @ ?v @ Q)"
    using put_mid[of 8 "item_bytes h" "[]" 0 H "P @ ?e @ ?v @ Q"] assms(3) by simp
  moreover have "length ?v + 8 = unat (info_item_len item)" using assms(2) item_data_length[OF assms(1)] by simp
  ultimately show ?thesis using entry_of_item[of ?v item] by simp
qed

text \<open>What the first part of the save leaves in the buffer, around the place of the item.\<close>

definition prepared :: "net_table \<Rightarrow> u32 \<Rightarrow> save_layout \<Rightarrow> u8 list \<Rightarrow> u8 list \<Rightarrow> u8 list \<Rightarrow> u8 list \<Rightarrow> u8 list \<Rightarrow> bool" where
  "prepared tbl item layout H P E old Q \<longleftrightarrow> length H = 8 \<and> length E = 8 \<and> length old + 8 = unat (info_item_len item) \<and>
     layout = Layout (of_nat (8 + length P)) (of_nat (16 + length P + length old + length Q)) (H @ P @ E @ old @ Q) \<and>
     (\<forall>data. table_body (net_put item data tbl) = P @ entry_bytes (item, overlay data old) @ Q)"

lemma item_len_split: "\<exists>k. unat (info_item_len item) = 8 + k"
  using item_lens(1)[of item] by auto

context nor_chip
begin

lemma prepare_new:
  assumes "it_type (item_of_bytes (bytes_at (cells c) net_start 8)) \<noteq> INFO_TLV_HEADER"
  shows "\<exists>layout H P E old Q. save_prepare ops True item c = Some layout \<and> prepared [] item layout H P E old Q"
proof -
  obtain k where k: "unat (info_item_len item) = 8 + k" using item_len_split by blast
  have w: "8 + info_item_len item = of_nat (16 + k)" "unat (8 + info_item_len item) = 16 + k"
  proof -
    have "info_item_len item = of_nat (8 + k)" by (rule word_of_unat[OF k])
    then show "8 + info_item_len item = of_nat (16 + k)" by simp
    moreover have "16 + k \<le> 4096" using item_lens(1)[of item] k by auto
    ultimately show "unat (8 + info_item_len item) = 16 + k" by (simp only: small_nat)
  qed
  have r: "replicate (16 + k) (0 :: u8) = replicate 8 0 @ [] @ replicate 8 0 @ replicate k 0 @ []"
    by (simp only: append_Nil append_Nil2 flip: replicate_add) simp
  have "save_prepare ops True item c = Some (Layout 8 (of_nat (16 + k)) (replicate 8 0 @ [] @ replicate 8 0 @ replicate k 0 @ []))"
    using no_table[OF assms, of False] w unfolding r[symmetric] by (simp add: save_prepare_def)
  moreover have "prepared [] item (Layout 8 (of_nat (16 + k)) (replicate 8 0 @ [] @ replicate 8 0 @ replicate k 0 @ [])) (replicate 8 0) [] (replicate 8 0) (replicate k 0) []"
    using k by (simp add: prepared_def)
  ultimately show ?thesis by blast
qed

lemma prepare_append:
  assumes "stored (cells c) tbl" and "table_ok tbl" and "map_of tbl item = None"
  shows "\<exists>layout H P E old Q. save_prepare ops True item c = Some layout \<and> prepared tbl item layout H P E old Q"
proof -
  obtain k where k: "unat (info_item_len item) = 8 + k" using item_len_split by blast
  then have il: "info_item_len item = of_nat (8 + k)" by (rule word_of_unat)
  let ?b = "table_bytes tbl" and ?m = "length (table_bytes tbl)"
  note st = search_table[OF assms(1,2)]
  have m: "?m \<le> 4096" "k \<le> 96" using assms(2) item_lens(1)[of item] k by (auto simp: table_ok_def)
  have l: "of_nat ?m + info_item_len item = of_nat (?m + (8 + k))" unfolding il by (simp only: of_nat_add)
  have u: "unat (of_nat ?m :: u32) = ?m" "unat (of_nat (?m + (8 + k)) :: u32) = ?m + (8 + k)"
    using m by (simp_all only: unat_of_nat) (simp_all add: take_bit_nat_eq_self)
  have z: "replicate (?m + (8 + k)) (0 :: u8) = [] @ replicate ?m 0 @ replicate 8 0 @ replicate k 0" by (simp only: replicate_add append_Nil)
  let ?buf = "?b @ replicate 8 0 @ replicate k 0"
  have "put_bytes ?m ?b 0 (replicate (?m + (8 + k)) 0) = Some ?buf" unfolding z using put_mid[of ?m ?b "[]" 0 "replicate ?m 0"] by simp
  then have "save_prepare ops True item c = Some (Layout (of_nat ?m) (of_nat (?m + (8 + k))) ?buf)"
    using st(1)[of False] st(1)[of True] st(2)[of item] assms(3) u l by (simp add: save_prepare_def Let_def del: length_table of_nat_add)
  moreover have "prepared tbl item (Layout (of_nat ?m) (of_nat (?m + (8 + k))) ?buf)
      (item_bytes \<lparr>it_type = INFO_TLV_HEADER, it_len = of_nat (length (table_body tbl))\<rparr>) (table_body tbl) (replicate 8 0) (replicate k 0) []"
    using k net_put_absent[OF assms(3)] by (simp add: prepared_def table_bytes_def)
  ultimately show ?thesis by blast
qed

lemma prepare_found:
  assumes "stored (cells c) tbl" and "table_ok tbl" and "map_of tbl item = Some v"
  shows "\<exists>layout H P E old Q. save_prepare ops True item c = Some layout \<and> prepared tbl item layout H P E old Q"
proof -
  from entry_split[OF assms(3)] obtain pre post where
    t: "tbl = pre @ (item, v) # post" "length (table_body pre) = entry_offset item tbl" "map_of pre item = None" by blast
  let ?b = "table_bytes tbl" and ?m = "length (table_bytes tbl)" and ?o = "entry_offset item tbl"
  note st = search_table[OF assms(1,2)]
  have m: "?m \<le> 4096" "length v + 8 = unat (info_item_len item)" using assms(2) t(1) by (auto simp: table_ok_def)
  have off: "?o \<le> 4096" using entry_offset_le(1)[of item tbl] m(1) by simp
  have "unat (net_start + 8) = 0x1ff008" unfolding net_start_eq(1) by simp
  then have "unat (net_start + 8 + of_nat ?o) = 0x1ff008 + ?o" using small_nat[OF off] off by (subst unat_add_lem[THEN iffD1]) simp_all
  then have nz: "net_start + 8 + of_nat ?o \<noteq> 0" by (metis unat_0 add_is_0 zero_neq_numeral)
  have d: "net_start + 8 + of_nat ?o - net_start = of_nat (8 + ?o)" by simp
  have "put_bytes ?m ?b 0 (replicate ?m 0) = Some ?b" using put_mid[of ?m ?b "[]" 0 "replicate ?m 0" "[]"] by simp
  then have "save_prepare ops True item c = Some (Layout (of_nat (8 + ?o)) (of_nat ?m) ?b)"
    using st(1)[of False] st(1)[of True] st(2)[of item] assms(3) nz d small_nat[OF m(1)] by (simp add: save_prepare_def Let_def del: length_table of_nat_add)
  moreover have "prepared tbl item (Layout (of_nat (8 + ?o)) (of_nat ?m) ?b)
      (item_bytes \<lparr>it_type = INFO_TLV_HEADER, it_len = of_nat (length (table_body tbl))\<rparr>) (table_body pre)
      (item_bytes \<lparr>it_type = item, it_len = of_nat (length v)\<rparr>) v (table_body post)"
  proof -
    have b: "table_body tbl = table_body pre @ entry_bytes (item, v) @ table_body post" by (simp add: t(1))
    have e: "entry_bytes (item, v) = item_bytes \<lparr>it_type = item, it_len = of_nat (length v)\<rparr> @ v" by (simp add: entry_bytes_def)
    have "?b = item_bytes \<lparr>it_type = INFO_TLV_HEADER, it_len = of_nat (length (table_body tbl))\<rparr> @ table_body pre @
        item_bytes \<lparr>it_type = item, it_len = of_nat (length v)\<rparr> @ v @ table_body post"
      unfolding table_bytes_def by (simp add: b e)
    moreover have "?m = 16 + length (table_body pre) + length v + length (table_body post)" by (simp add: b)
    moreover have "\<forall>data. table_body (net_put item data tbl) = table_body pre @ entry_bytes (item, overlay data v) @ table_body post"
      using net_put_present[OF t(3)] by (simp add: t(1))
    ultimately show ?thesis unfolding prepared_def using m(2) t(2) by (simp only: item_bytes_inverse simp_thms)
  qed
  ultimately show ?thesis by blast
qed

lemma save_item:
  assumes at: "net_table_at (cells c) tbl" and ok: "table_ok tbl" and src: "sources_ok item ptr0 ptr1 ptr2"
    and ok': "table_ok (net_put item (item_data item ptr0 ptr1 ptr2) tbl)"
  shows "\<exists>c'. save_info_item ops True item ptr0 ptr1 ptr2 c = Some (1, c') \<and>
    net_table_at (cells c') (net_put item (item_data item ptr0 ptr1 ptr2) tbl) \<and>
    (\<forall>x. x - net_start \<ge> 0x1000 \<longrightarrow> cells c' x = cells c x)"
proof -
  let ?data = "item_data item ptr0 ptr1 ptr2"
  let ?tbl = "net_put item ?data tbl"
  have "\<exists>layout H P E old Q. save_prepare ops True item c = Some layout \<and> prepared tbl item layout H P E old Q"
    using at prepare_new prepare_append[OF _ ok] prepare_found[OF _ ok] by (cases "map_of tbl item") (auto simp: net_table_at_def)
  then obtain layout H P E old Q where pr: "save_prepare ops True item c = Some layout" "prepared tbl item layout H P E old Q" by blast
  then have q: "length H = 8" "length E = 8" "length old + 8 = unat (info_item_len item)"
     "layout = Layout (of_nat (8 + length P)) (of_nat (16 + length P + length old + length Q)) (H @ P @ E @ old @ Q)"
     "table_body ?tbl = P @ entry_bytes (item, overlay ?data old) @ Q" by (simp_all add: prepared_def)
  let ?cfg = "of_nat (16 + length P + length old + length Q) :: u32"
  have dl: "length ?data \<le> length old" using item_data_length[OF src] q(3) by simp
  have lb: "length (table_body ?tbl) = 8 + length P + length old + length Q" unfolding q(5) using dl by simp
  have sz: "16 + length P + length old + length Q \<le> 4096" using ok' lb by (simp add: table_ok_def)
  have u: "unat ?cfg = 16 + length P + length old + length Q" "unat (of_nat (8 + length P) :: u32) = 8 + length P"
    using sz by (simp_all only: small_nat)
  have h: "?cfg - 8 = of_nat (length (table_body ?tbl))" unfolding lb by simp
  have bytes: "item_bytes \<lparr>it_type = INFO_TLV_HEADER, it_len = ?cfg - 8\<rparr> @ P @ entry_bytes (item, overlay ?data old) @ Q = table_bytes ?tbl"
    unfolding h table_bytes_def q(5) ..
  define c0 where "c0 = bk_flash_enable_security ops FLASH_PROTECT_NONE c"
  have c0: "writable c0" "cells c0 = cells c" by (simp_all add: c0_def security protect_cells protect_none_writable)
  have len: "length (table_bytes ?tbl) = 16 + length P + length old + length Q" using lb by simp
  have ne: "table_bytes ?tbl \<noteq> []" by (simp add: table_bytes_def item_bytes_def bytes_of_word_def)
  from erase_write_read[OF nor_chip_axioms c0(1) ne, of ?cfg BK_PARTITION_NET_PARAM 0] u(1) len sz net_start_eq(2) obtain c1 where
    c1: "bk_flash_write ops BK_PARTITION_NET_PARAM 0 (table_bytes ?tbl) ?cfg (bk_flash_erase ops BK_PARTITION_NET_PARAM 0 ?cfg c0) = Some c1"
      "bytes_at (cells c1) net_start (length (table_bytes ?tbl)) = table_bytes ?tbl"
      "\<forall>x. unat x < 0x1ff000 \<or> 0x1ff000 + 4096 * ((length (table_bytes ?tbl) - 1) div 4096 + 1) \<le> unat x \<longrightarrow> cells c1 x = cells c0 x"
    by (auto simp: Let_def)
  define c2 where "c2 = bk_flash_enable_security ops FLASH_UNPROTECT_LAST_BLOCK c1"
  have c2: "cells c2 = cells c1" by (simp add: c2_def security protect_cells)
  have "save_info_item ops True item ptr0 ptr1 ptr2 c = Some (1, c2)"
    using pr(1) q(4) u(2) save_fields[OF src q(3,1,2), of "8 + length P" P Q "\<lparr>it_type = INFO_TLV_HEADER, it_len = ?cfg - 8\<rparr>"] c1(1) bytes
    unfolding save_info_item_def by (auto simp: c0_def[symmetric] c2_def bind_eq_Some_conv simp del: of_nat_add)
  moreover have "net_table_at (cells c2) ?tbl" using c1(2) by (simp add: net_table_at_def stored_def c2)
  moreover have "cells c2 x = cells c x" if "x - net_start \<ge> 0x1000" for x
  proof -
    have "(length (table_bytes ?tbl) - 1) div 4096 = 0" using len sz by simp
    moreover have "\<not> (x - net_start < 0x1000)" using that by simp
    then have "unat x < 0x1ff000 \<or> 0x200000 \<le> unat x" using addr_interval[of net_start "0x1000" x] net_start_eq(2) by auto
    ultimately show ?thesis using c1(3) c2 c0(2) by auto
  qed
  ultimately show ?thesis by blast
qed

end

text \<open>An entry fits when the sector has room for one more.\<close>

lemma net_put_ok:
  assumes "table_ok tbl" and "sources_ok item ptr0 ptr1 ptr2" and "length (table_bytes tbl) + unat (info_item_len item) \<le> 4096"
  shows "table_ok (net_put item (item_data item ptr0 ptr1 ptr2) tbl)"
proof -
  let ?d = "item_data item ptr0 ptr1 ptr2"
  note dl = item_data_length[OF assms(2)]
  have "(\<forall>e \<in> set (net_put item ?d tbl). length (snd e) + 8 = unat (info_item_len (fst e))) \<and>
      length (table_body (net_put item ?d tbl)) \<le> length (table_body tbl) + unat (info_item_len item)"
    if "\<forall>e \<in> set tbl. length (snd e) + 8 = unat (info_item_len (fst e))"
    using that
  proof (induction tbl)
    case (Cons e tbl)
    obtain t v where e: "e = (t, v)" by (cases e)
    have "length v + 8 = unat (info_item_len t)" using Cons.prems e by simp
    then have "t = item \<Longrightarrow> length ?d \<le> length v" using dl by simp
    with Cons e show ?case by auto
  qed (use dl in simp)
  then show ?thesis using assms(1,3) by (auto simp: table_ok_def)
qed

context nor_chip
begin

lemma save_no_memory:
  assumes "net_table_at (cells c) tbl" and "table_ok tbl"
  shows "save_info_item ops False item ptr0 ptr1 ptr2 c = Some (0, c)"
proof (cases "stored (cells c) tbl")
  case True
  then show ?thesis using search_table[OF True assms(2)] by (simp add: save_info_item_def save_prepare_def Let_def)
next
  case False
  then show ?thesis using no_table assms(1) by (simp add: net_table_at_def save_info_item_def save_prepare_def Let_def)
qed

end

text \<open>A stored length of -8 keeps the search at the same address.\<close>

lemma search_item_hangs:
  assumes "item_of_bytes (flash_read_data ops addr 8 c) = \<lparr>it_type = t, it_len = - 8\<rparr>" and "t \<noteq> item" and "addr < end_addr"
  shows "search_item_loop ops item addr end_addr c = None"
proof -
  have "\<not> (o' = ops \<and> i' = item \<and> a' = addr \<and> e' = end_addr \<and> c' = c)" if "search_item_loop o' i' a' e' c' = Some r" for o' i' a' e' c' r
  proof (rule search_item_loop.raw_induct[where P = "\<lambda>o' i' a' e' c' r. \<not> (o' = ops \<and> i' = item \<and> a' = addr \<and> e' = end_addr \<and> c' = c)", OF _ that])
    fix f o' i' a' e' c' r
    assume ih: "\<And>o' i' a' e' c' r. f o' i' a' e' c' = Some r \<Longrightarrow> \<not> (o' = ops \<and> i' = item \<and> a' = addr \<and> e' = end_addr \<and> c' = c)"
      and body: "(if a' < e' then let head = item_of_bytes (flash_read_data o' a' 8 c')
           in if i' \<noteq> it_type head then f o' i' (a' + 8 + it_len head) e' c' else Some a' else Some a') = Some r"
    show "\<not> (o' = ops \<and> i' = item \<and> a' = addr \<and> e' = end_addr \<and> c' = c)"
      using body assms ih[of ops item addr end_addr c r] by (auto simp: Let_def)
  qed
  from this[of ops item addr end_addr c] show ?thesis by (cases "search_item_loop ops item addr end_addr c") auto
qed

section \<open>Properties\<close>

text \<open>C22: The network parameters behave as a table of items.  On a flash that holds a table, and on one
  without its mark, which counts as the empty table, a read gives the value of the first item of the type
  through the given pointers, or 0 when there is none; a save that fits in the sector returns 1 and leaves
  the table with the item replaced or appended, and the other sectors as they were; without memory for its
  buffer a save returns 0 and changes nothing.\<close>

theorem net_param_refines_table:
  assumes "nor_chip ops cells writable" and "net_table_at (cells c) tbl" and "table_ok tbl"
  shows "get_info_item ops item p0 p1 p2 c = Some (net_get item p0 p1 p2 tbl) \<and>
     save_info_item ops False item ptr0 ptr1 ptr2 c = Some (0, c) \<and>
     (sources_ok item ptr0 ptr1 ptr2 \<and> length (table_bytes tbl) + unat (info_item_len item) \<le> 4096 \<longrightarrow>
       (\<exists>c'. save_info_item ops True item ptr0 ptr1 ptr2 c = Some (1, c') \<and>
          net_table_at (cells c') (net_put item (item_data item ptr0 ptr1 ptr2) tbl) \<and>
          table_ok (net_put item (item_data item ptr0 ptr1 ptr2) tbl) \<and>
          (\<forall>x. x - net_start \<ge> 0x1000 \<longrightarrow> cells c' x = cells c x)))"
  using nor_chip.get_item[OF assms] nor_chip.save_no_memory[OF assms] nor_chip.save_item[OF assms] net_put_ok[OF assms(3)] by blast

text \<open>C24: What is saved is read back.  After a save the parts of an SSID with its key or of an IP configuration
  come back as they were given, any other item with its data in front, and every other item reads as
  before.\<close>

theorem net_param_roundtrip:
  assumes "nor_chip ops cells writable" and "net_table_at (cells c) tbl" and "table_ok tbl" and "sources_ok item ptr0 ptr1 ptr2"
    and "length (table_bytes tbl) + unat (info_item_len item) \<le> 4096"
  shows "\<exists>c'. save_info_item ops True item ptr0 ptr1 ptr2 c = Some (1, c') \<and>
     (item = SSID_KEY_ITEM \<longrightarrow> get_info_item ops item True True p2 c' = Some (1, [take 32 ptr0, take 64 ptr1])) \<and>
     (item = IP_CONFIG_ITEM \<longrightarrow> get_info_item ops item True True True c' = Some (1, [take 16 ptr0, take 16 ptr1, take 16 ptr2])) \<and>
     (plain_item item \<longrightarrow> (\<exists>rest. get_info_item ops item True p1 p2 c' = Some (1, [item_data item ptr0 ptr1 ptr2 @ rest]))) \<and>
     (\<forall>item'. item' \<noteq> item \<longrightarrow> get_info_item ops item' p0 p1 p2 c' = get_info_item ops item' p0 p1 p2 c)"
proof -
  let ?d = "item_data item ptr0 ptr1 ptr2"
  let ?t = "net_put item ?d tbl"
  note ok = net_put_ok[OF assms(3-5)]
  from nor_chip.save_item[OF assms(1-4) ok] obtain c' where
    s: "save_info_item ops True item ptr0 ptr1 ptr2 c = Some (1, c')" "net_table_at (cells c') ?t" by blast
  note g = nor_chip.get_item[OF assms(1) s(2) ok] nor_chip.get_item[OF assms(1-3)]
  obtain old where m: "map_of ?t item = Some (overlay ?d old)" by (simp add: map_of_net_put)
  have "length (overlay ?d old) + 8 = unat (info_item_len item)" using ok map_of_SomeD[OF m] by (auto simp: table_ok_def)
  then have "item = SSID_KEY_ITEM \<Longrightarrow> length old \<le> 96" "item = IP_CONFIG_ITEM \<Longrightarrow> length old \<le> 48"
    using assms(4) by (auto simp: overlay_def info_item_len_def)
  then have "item = SSID_KEY_ITEM \<Longrightarrow> get_info_item ops item True True p2 c' = Some (1, [take 32 ptr0, take 64 ptr1])"
    "item = IP_CONFIG_ITEM \<Longrightarrow> get_info_item ops item True True True c' = Some (1, [take 16 ptr0, take 16 ptr1, take 16 ptr2])"
    using m assms(4) by (simp_all add: g net_get_def plain_item_def overlay_def item_data_def sources_ok_def)
  moreover have "plain_item item \<Longrightarrow> get_info_item ops item True p1 p2 c' = Some (1, [?d @ drop (length ?d) old])"
    using m by (simp add: g net_get_def overlay_def)
  moreover have "item' \<noteq> item \<Longrightarrow> get_info_item ops item' p0 p1 p2 c' = get_info_item ops item' p0 p1 p2 c" for item'
    by (simp add: g net_get_def map_of_net_put)
  ultimately show ?thesis using s(1) by blast
qed

section \<open>Witnesses\<close>

text \<open>The memory of ex_chip has no mark of a table.\<close>

lemma ex_chip_empty: "net_table_at (fc_cells ex_chip) []" "table_ok []"
proof -
  have "bytes_at (fc_cells ex_chip) net_start 8 = replicate 8 0x5a" by (rule nth_equalityI) (simp_all add: ex_chip_def)
  also have "\<dots> = [0x5a, 0x5a, 0x5a, 0x5a, 0x5a, 0x5a, 0x5a, 0x5a]" by (simp add: numeral_eq_Suc)
  finally have "bytes_at (fc_cells ex_chip) net_start 8 = [0x5a, 0x5a, 0x5a, 0x5a, 0x5a, 0x5a, 0x5a, 0x5a]" .
  then show "net_table_at (fc_cells ex_chip) []"
    by (simp add: net_table_at_def item_of_bytes_def word_of_bytes_def)
qed (simp add: table_ok_def)

theorem net_param_refines_table_witness:
  "get_info_item chip_ops DHCP_MODE_ITEM True False False ex_chip = Some (0, []) \<and>
   (\<exists>c'. save_info_item chip_ops True DHCP_MODE_ITEM [1, 0, 0, 0] [] [] ex_chip = Some (1, c') \<and>
      net_table_at (fc_cells c') [(DHCP_MODE_ITEM, [1, 0, 0, 0])])"
  using net_param_refines_table[OF flash_chip.nor_chip_axioms ex_chip_empty, of DHCP_MODE_ITEM True False False "[1, 0, 0, 0]" "[]" "[]"]
  by (auto simp: net_get_def sources_ok_def item_data_def overlay_def info_item_len_def)

theorem net_param_roundtrip_witness:
  "\<exists>c' rest. save_info_item chip_ops True WIFI_MAC_ITEM [1, 2, 3, 4, 5, 6] [] [] ex_chip = Some (1, c') \<and>
     get_info_item chip_ops WIFI_MAC_ITEM True False False c' = Some (1, [[1, 2, 3, 4, 5, 6] @ rest])"
  using net_param_roundtrip[OF flash_chip.nor_chip_axioms ex_chip_empty, of WIFI_MAC_ITEM "[1, 2, 3, 4, 5, 6]" "[]" "[]" False False True]
  by (auto simp: sources_ok_def item_data_def info_item_len_def plain_item_def)

end
