(* ===== verification/Drv_Model.thy ===== *)
theory Drv_Model
  imports Prelude
begin

text \<open>
  beken378/driver/common/drv_model.c: the two tables of chip drivers, the handles by which their users know
  them and the count of the users of a driver.  The functions of a driver are a parameter.
\<close>

section \<open>Operations\<close>

abbreviation DRV_FAILURE :: u32 where "DRV_FAILURE \<equiv> - 5"
abbreviation DRV_SUCCESS :: u32 where "DRV_SUCCESS \<equiv> 0"
abbreviation DD_HANDLE_MAGIC_WORD :: u32 where "DD_HANDLE_MAGIC_WORD \<equiv> 0xA5A50000"
abbreviation DD_HANDLE_MAGIC_MASK :: u32 where "DD_HANDLE_MAGIC_MASK \<equiv> 0xFFFF0000"
abbreviation DD_HANDLE_ID_MASK :: u32 where "DD_HANDLE_ID_MASK \<equiv> 0x0000FFFF"
abbreviation DD_HANDLE_UNVALID :: u32 where "DD_HANDLE_UNVALID \<equiv> - 1"
abbreviation DD_ID_UNVALID :: u32 where "DD_ID_UNVALID \<equiv> - 1"
abbreviation DD_MAX_DEV :: nat where "DD_MAX_DEV \<equiv> 10"
abbreviation DD_MAX_SDEV :: nat where "DD_MAX_SDEV \<equiv> 16"
abbreviation DD_MAX_NAME_LEN :: nat where "DD_MAX_NAME_LEN \<equiv> 16"

datatype dd_state = DD_STATE_NODEVICE | DD_STATE_CLOSED | DD_STATE_OPENED | DD_STATE_BREAK | DD_STATE_SUCCESS

text \<open>The functions of a driver act on the world ('w): the hardware and the data of the drivers.  A read gives
  the bytes for the buffer; the parameter of a command is an address.\<close>

record 'w dd_operations =
  dd_open :: "(u32 \<Rightarrow> 'w \<Rightarrow> u32 \<times> 'w) option"
  dd_close :: "('w \<Rightarrow> u32 \<times> 'w) option"
  dd_read :: "(u32 \<Rightarrow> u32 \<Rightarrow> 'w \<Rightarrow> u32 \<times> u8 list \<times> 'w) option"
  dd_write :: "(u8 list \<Rightarrow> u32 \<Rightarrow> u32 \<Rightarrow> 'w \<Rightarrow> u32 \<times> 'w) option"
  dd_control :: "(u32 \<Rightarrow> u32 \<Rightarrow> 'w \<Rightarrow> u32 \<times> 'w) option"

record 'w sdd_operations =
  sdd_control :: "(u32 \<Rightarrow> u32 \<Rightarrow> 'w \<Rightarrow> u32 \<times> 'w) option"

record 'o drv_dev =
  drv_name :: "string option"
  drv_use_cnt :: u32
  drv_state :: dd_state
  drv_op :: "'o option"

record 'w drv_model =
  drv_dev_tbl :: "'w dd_operations drv_dev list"
  drv_sdev_tbl :: "'w sdd_operations drv_dev list"

definition no_dev :: "'o drv_dev" where
  "no_dev = \<lparr>drv_name = None, drv_use_cnt = 0, drv_state = DD_STATE_NODEVICE, drv_op = None\<rparr>"

definition drv_model_init :: "'w drv_model \<Rightarrow> u32 \<times> 'w drv_model" where
  "drv_model_init m = (DRV_SUCCESS, \<lparr>drv_dev_tbl = replicate DD_MAX_DEV no_dev, drv_sdev_tbl = replicate DD_MAX_SDEV no_dev\<rparr>)"

definition drv_model_uninit :: "'w drv_model \<Rightarrow> u32 \<times> 'w drv_model" where
  "drv_model_uninit m = (DRV_SUCCESS, \<lparr>drv_dev_tbl = replicate DD_MAX_DEV no_dev, drv_sdev_tbl = replicate DD_MAX_SDEV no_dev\<rparr>)"

definition ddev_check_handle :: "u32 \<Rightarrow> u32" where
  "ddev_check_handle handle =
     (let magic = handle AND DD_HANDLE_MAGIC_MASK; dev_id = handle AND DD_HANDLE_ID_MASK
      in if DD_HANDLE_MAGIC_WORD = magic \<and> unat dev_id < DD_MAX_DEV then DRV_SUCCESS else DRV_FAILURE)"

definition ddev_make_handle :: "u32 \<Rightarrow> u32" where
  "ddev_make_handle dev_id = (if unat dev_id \<ge> DD_MAX_DEV then DD_HANDLE_UNVALID else dev_id + DD_HANDLE_MAGIC_WORD)"

definition ddev_get_id_from_handle :: "u32 \<Rightarrow> u32" where
  "ddev_get_id_from_handle handle =
     (let magic = handle AND DD_HANDLE_MAGIC_MASK; dev_id = handle AND DD_HANDLE_ID_MASK
      in if magic \<noteq> DD_HANDLE_MAGIC_WORD then DD_ID_UNVALID else dev_id)"

text \<open>os_strncmp gives 0 when the first n characters agree.  The search of the loops: the first index from i
  to n whose name starts with dev_name.  A name that is a null pointer is followed, and an index beyond
  the table is read: None.\<close>

definition os_strncmp_eq :: "string \<Rightarrow> string \<Rightarrow> nat \<Rightarrow> bool" where
  "os_strncmp_eq s1 s2 n \<longleftrightarrow> take n s1 = take n s2"

function drv_find :: "nat \<Rightarrow> nat \<Rightarrow> string \<Rightarrow> 'o drv_dev list \<Rightarrow> nat option option" where
  "drv_find i n dev_name tbl =
     (if i < n
      then if i < length tbl
           then case drv_name (tbl ! i) of
                  None \<Rightarrow> None
                | Some name \<Rightarrow> if os_strncmp_eq name dev_name (length dev_name) then Some (Some i) else drv_find (i + 1) n dev_name tbl
           else None
      else Some None)"
  by pat_completeness auto
termination drv_find by (relation "measure (\<lambda>(i, n, _). n - i)") auto

declare drv_find.simps [simp del]

abbreviation upd_dev :: "nat \<Rightarrow> ('w dd_operations drv_dev \<Rightarrow> 'w dd_operations drv_dev) \<Rightarrow> 'w drv_model \<Rightarrow> 'w drv_model" where
  "upd_dev i f m \<equiv> m\<lparr>drv_dev_tbl := (drv_dev_tbl m)[i := f (drv_dev_tbl m ! i)]\<rparr>"

text \<open>The handle, the status that is stored (if it is), the tables and the world.  A null name is read before it
  is tested, and no handle at the end is a failed ASSERT: None.\<close>

definition ddev_open :: "string option \<Rightarrow> bool \<Rightarrow> u32 \<Rightarrow> 'w drv_model \<Rightarrow> 'w \<Rightarrow> (u32 \<times> u32 option \<times> 'w drv_model \<times> 'w) option" where
  "ddev_open dev_name status op_flag m w =
     do { dev_name \<leftarrow> dev_name;
          if \<not> status \<or> length dev_name > DD_MAX_NAME_LEN then Some (DD_HANDLE_UNVALID, None, m, w)
          else do { found \<leftarrow> drv_find 0 DD_MAX_DEV dev_name (drv_dev_tbl m);
                    i \<leftarrow> found;
                    let dev = drv_dev_tbl m ! i;
                    case drv_state dev of
                      DD_STATE_OPENED \<Rightarrow>
                        Some (ddev_make_handle (of_nat i), Some DRV_FAILURE, upd_dev i (\<lambda>d. d\<lparr>drv_use_cnt := drv_use_cnt d + 1\<rparr>) m, w)
                    | DD_STATE_CLOSED \<Rightarrow>
                        let (st, w) = (case Option.bind (drv_op dev) dd_open of Some f \<Rightarrow> f op_flag w | None \<Rightarrow> (DRV_FAILURE, w));
                            m = upd_dev i (\<lambda>d. d\<lparr>drv_state := DD_STATE_OPENED, drv_use_cnt := 0\<rparr>) m
                        in Some (ddev_make_handle (of_nat i), Some st, upd_dev i (\<lambda>d. d\<lparr>drv_use_cnt := drv_use_cnt d + 1\<rparr>) m, w)
                    | _ \<Rightarrow> None } }"

text \<open>The entry of a handle: None for an index beyond the table.\<close>

definition dev_at :: "u32 \<Rightarrow> 'w drv_model \<Rightarrow> 'w dd_operations drv_dev option" where
  "dev_at dev_id m = (if unat dev_id < length (drv_dev_tbl m) then Some (drv_dev_tbl m ! unat dev_id) else None)"

definition ddev_close :: "u32 \<Rightarrow> 'w drv_model \<Rightarrow> 'w \<Rightarrow> (u32 \<times> 'w drv_model \<times> 'w) option" where
  "ddev_close handle m w =
     (let dev_id = ddev_get_id_from_handle handle
      in if DD_ID_UNVALID = dev_id then Some (DRV_FAILURE, m, w)
         else do { dev \<leftarrow> dev_at dev_id m;
                   let m = upd_dev (unat dev_id) (\<lambda>d. d\<lparr>drv_use_cnt := drv_use_cnt d - 1\<rparr>) m;
                   if drv_use_cnt dev - 1 = 0
                   then let w = (case Option.bind (drv_op dev) dd_close of Some f \<Rightarrow> snd (f w) | None \<Rightarrow> w)
                        in Some (DRV_SUCCESS, upd_dev (unat dev_id) (\<lambda>d. d\<lparr>drv_state := DD_STATE_CLOSED\<rparr>) m, w)
                   else Some (DRV_SUCCESS, m, w) })"

definition ddev_read :: "u32 \<Rightarrow> u32 \<Rightarrow> u32 \<Rightarrow> 'w drv_model \<Rightarrow> 'w \<Rightarrow> (u32 \<times> u8 list \<times> 'w) option" where
  "ddev_read handle count op_flag m w =
     (let dev_id = ddev_get_id_from_handle handle
      in if DD_ID_UNVALID = dev_id then Some (DRV_FAILURE, [], w)
         else do { dev \<leftarrow> dev_at dev_id m;
                   Some (case Option.bind (drv_op dev) dd_read of Some f \<Rightarrow> f count op_flag w | None \<Rightarrow> (DRV_FAILURE, [], w)) })"

definition ddev_write :: "u32 \<Rightarrow> u8 list \<Rightarrow> u32 \<Rightarrow> u32 \<Rightarrow> 'w drv_model \<Rightarrow> 'w \<Rightarrow> (u32 \<times> 'w) option" where
  "ddev_write handle user_buf count op_flag m w =
     (let dev_id = ddev_get_id_from_handle handle
      in if DD_ID_UNVALID = dev_id then Some (DRV_FAILURE, w)
         else do { dev \<leftarrow> dev_at dev_id m;
                   Some (case Option.bind (drv_op dev) dd_write of Some f \<Rightarrow> f user_buf count op_flag w | None \<Rightarrow> (DRV_FAILURE, w)) })"

definition ddev_control :: "u32 \<Rightarrow> u32 \<Rightarrow> u32 \<Rightarrow> 'w drv_model \<Rightarrow> 'w \<Rightarrow> (u32 \<times> 'w) option" where
  "ddev_control handle cmd param m w =
     (let dev_id = ddev_get_id_from_handle handle
      in if DD_ID_UNVALID = dev_id then Some (DRV_FAILURE, w)
         else do { dev \<leftarrow> dev_at dev_id m;
                   Some (case Option.bind (drv_op dev) dd_control of Some f \<Rightarrow> f cmd param w | None \<Rightarrow> (DRV_FAILURE, w)) })"

definition sddev_control :: "string \<Rightarrow> u32 \<Rightarrow> u32 \<Rightarrow> 'w drv_model \<Rightarrow> 'w \<Rightarrow> (u32 \<times> 'w) option" where
  "sddev_control dev_name cmd param m w =
     do { found \<leftarrow> drv_find 0 DD_MAX_SDEV dev_name (drv_sdev_tbl m);
          i \<leftarrow> found;
          op \<leftarrow> drv_op (drv_sdev_tbl m ! i);
          Some (case sdd_control op of Some f \<Rightarrow> f cmd param w | None \<Rightarrow> (DRV_FAILURE, w)) }"

text \<open>Registration takes the first entry without a device; a full table is a failed ASSERT.\<close>

definition free_slot :: "'o drv_dev list \<Rightarrow> nat option" where
  "free_slot tbl = List.find (\<lambda>i. drv_name (tbl ! i) = None \<and> drv_state (tbl ! i) = DD_STATE_NODEVICE) [0..<length tbl]"

definition register_at :: "string \<Rightarrow> 'o \<Rightarrow> nat \<Rightarrow> 'o drv_dev list \<Rightarrow> 'o drv_dev list" where
  "register_at name optr i tbl = tbl[i := (tbl ! i)\<lparr>drv_name := Some name, drv_op := Some optr, drv_state := DD_STATE_CLOSED\<rparr>]"

definition ddev_register_dev :: "string option \<Rightarrow> 'w dd_operations option \<Rightarrow> 'w drv_model \<Rightarrow> (u32 \<times> 'w drv_model) option" where
  "ddev_register_dev dev_name optr m =
     (case (dev_name, optr) of
        (Some name, Some op) \<Rightarrow>
          do { i \<leftarrow> free_slot (drv_dev_tbl m); Some (DRV_SUCCESS, m\<lparr>drv_dev_tbl := register_at name op i (drv_dev_tbl m)\<rparr>) }
      | _ \<Rightarrow> Some (DRV_FAILURE, m))"

definition sddev_register_dev :: "string option \<Rightarrow> 'w sdd_operations option \<Rightarrow> 'w drv_model \<Rightarrow> (u32 \<times> 'w drv_model) option" where
  "sddev_register_dev dev_name optr m =
     (case (dev_name, optr) of
        (Some name, Some op) \<Rightarrow>
          do { i \<leftarrow> free_slot (drv_sdev_tbl m); Some (DRV_SUCCESS, m\<lparr>drv_sdev_tbl := register_at name op i (drv_sdev_tbl m)\<rparr>) }
      | _ \<Rightarrow> Some (DRV_FAILURE, m))"

definition unregister_at :: "nat \<Rightarrow> 'o drv_dev list \<Rightarrow> 'o drv_dev list" where
  "unregister_at i tbl = tbl[i := (tbl ! i)\<lparr>drv_name := None, drv_op := None, drv_state := DD_STATE_NODEVICE\<rparr>]"

text \<open>The bounds of the two loops are exchanged, as in the source.\<close>

definition ddev_unregister_dev :: "string option \<Rightarrow> 'w drv_model \<Rightarrow> (u32 \<times> 'w drv_model) option" where
  "ddev_unregister_dev dev_name m =
     (case dev_name of
        None \<Rightarrow> Some (DRV_FAILURE, m)
      | Some name \<Rightarrow>
          if length name > DD_MAX_NAME_LEN then Some (DRV_FAILURE, m)
          else do { found \<leftarrow> drv_find 0 DD_MAX_SDEV name (drv_dev_tbl m);
                    i \<leftarrow> found;
                    Some (DRV_SUCCESS, m\<lparr>drv_dev_tbl := unregister_at i (drv_dev_tbl m)\<rparr>) })"

definition sddev_unregister_dev :: "string option \<Rightarrow> 'w drv_model \<Rightarrow> (u32 \<times> 'w drv_model) option" where
  "sddev_unregister_dev dev_name m =
     (case dev_name of
        None \<Rightarrow> Some (DRV_FAILURE, m)
      | Some name \<Rightarrow>
          if length name > DD_MAX_NAME_LEN then Some (DRV_FAILURE, m)
          else do { found \<leftarrow> drv_find 0 DD_MAX_DEV name (drv_sdev_tbl m);
                    i \<leftarrow> found;
                    Some (DRV_SUCCESS, m\<lparr>drv_sdev_tbl := unregister_at i (drv_sdev_tbl m)\<rparr>) })"

section \<open>Handles\<close>

lemma small_id:
  assumes "unat (dev_id :: u32) < 10"
  shows "dev_id \<in> {0, 1, 2, 3, 4, 5, 6, 7, 8, 9}"
proof -
  have "unat dev_id \<in> {0, 1, 2, 3, 4, 5, 6, 7, 8, 9}" using assms by auto
  then show ?thesis by (auto simp: word_unat_eq_iff)
qed

lemma id_of_handle:
  assumes "unat dev_id < DD_MAX_DEV"
  shows "ddev_get_id_from_handle (ddev_make_handle dev_id) = dev_id" "ddev_check_handle (ddev_make_handle dev_id) = DRV_SUCCESS" "dev_id \<noteq> DD_ID_UNVALID"
  using small_id[OF assms] by (auto simp: ddev_make_handle_def ddev_get_id_from_handle_def ddev_check_handle_def Let_def)

lemma handle_of_nat:
  assumes "i < DD_MAX_DEV"
  shows "ddev_get_id_from_handle (ddev_make_handle (of_nat i)) = of_nat i" "(of_nat i :: u32) \<noteq> DD_ID_UNVALID" "unat (of_nat i :: u32) = i"
proof -
  show u: "unat (of_nat i :: u32) = i" using assms by (simp add: unat_of_nat take_bit_nat_eq_self)
  show "ddev_get_id_from_handle (ddev_make_handle (of_nat i)) = of_nat i" "(of_nat i :: u32) \<noteq> DD_ID_UNVALID"
    using id_of_handle(1,3)[of "of_nat i"] assms u by simp_all
qed

lemma checked_handle:
  assumes "ddev_check_handle h = DRV_SUCCESS"
  shows "\<exists>dev_id. unat dev_id < DD_MAX_DEV \<and> h = ddev_make_handle dev_id"
proof -
  have c: "h AND DD_HANDLE_MAGIC_MASK = DD_HANDLE_MAGIC_WORD" "unat (h AND DD_HANDLE_ID_MASK) < 10"
    using assms by (auto simp: ddev_check_handle_def Let_def split: if_splits)
  have n: "DD_HANDLE_MAGIC_MASK = NOT DD_HANDLE_ID_MASK" by simp
  have "(h AND DD_HANDLE_MAGIC_MASK) + (h AND DD_HANDLE_ID_MASK) = h" unfolding n by (rule word_and_split)
  then have "h = ddev_make_handle (h AND DD_HANDLE_ID_MASK)" using c by (simp add: ddev_make_handle_def add.commute)
  then show ?thesis using c(2) by blast
qed

section \<open>Finding a driver\<close>

text \<open>The first entry whose name starts with the given one, when every entry before has a name.\<close>

lemma drv_find_at:
  assumes "i \<le> k" and "k < n" and "k < length tbl" and "\<forall>j. i \<le> j \<and> j < k \<longrightarrow> (\<exists>s. drv_name (tbl ! j) = Some s \<and> \<not> os_strncmp_eq s name (length name))"
    and "drv_name (tbl ! k) = Some s" and "os_strncmp_eq s name (length name)"
  shows "drv_find i n name tbl = Some (Some k)"
  using assms
proof (induction "k - i" arbitrary: i)
  case 0
  then have "i = k" by simp
  then show ?case using "0.prems" by (subst drv_find.simps) simp
next
  case (Suc d)
  then have "i < k" by simp
  moreover from this Suc.prems(4) obtain s' where "drv_name (tbl ! i) = Some s'" "\<not> os_strncmp_eq s' name (length name)" by blast
  moreover have "drv_find (i + 1) n name tbl = Some (Some k)" using Suc.hyps Suc.prems \<open>i < k\<close> by (intro Suc.hyps(1)) auto
  ultimately show ?case using Suc.prems by (subst drv_find.simps) simp
qed

lemma drv_find_Some: "drv_find i n name tbl = Some (Some k) \<Longrightarrow> i \<le> k \<and> k < n \<and> k < length tbl \<and> drv_name (tbl ! k) \<noteq> None"
proof (induction i n name tbl rule: drv_find.induct)
  case (1 i n name tbl)
  then show ?case by (subst (asm) (2) drv_find.simps) (auto split: if_splits option.splits)
qed

text \<open>The search looks at the names only.\<close>

lemma drv_find_cong:
  assumes "map drv_name tbl = map drv_name tbl'"
  shows "drv_find i n name tbl = drv_find i n name tbl'"
  using assms
proof (induction i n name tbl rule: drv_find.induct)
  case (1 i n name tbl)
  have l: "length tbl = length tbl'" using "1.prems" by (metis length_map)
  have "i < length tbl \<Longrightarrow> drv_name (tbl ! i) = drv_name (tbl' ! i)" using "1.prems" l by (metis nth_map)
  then show ?case using "1.IH" "1.prems" l by (subst (1 2) drv_find.simps) (auto split: option.splits)
qed

section \<open>The users of a driver\<close>

text \<open>What the layer promises: a driver is opened with its first user and closed with its last one.\<close>

datatype dd_call = Dd_open u32 | Dd_close

definition drv_open :: "'w dd_operations \<Rightarrow> u32 \<Rightarrow> 'w \<Rightarrow> 'w" where
  "drv_open op flag w = (case dd_open op of Some f \<Rightarrow> snd (f flag w) | None \<Rightarrow> w)"

definition drv_close :: "'w dd_operations \<Rightarrow> 'w \<Rightarrow> 'w" where
  "drv_close op w = (case dd_close op of Some f \<Rightarrow> snd (f w) | None \<Rightarrow> w)"

fun users_step :: "'w dd_operations \<Rightarrow> dd_call \<Rightarrow> nat \<times> 'w \<Rightarrow> (nat \<times> 'w) option" where
  "users_step op (Dd_open flag) (n, w) =
     (if n + 1 < 2 ^ 32 then Some (n + 1, if n = 0 then drv_open op flag w else w) else None)"
| "users_step op Dd_close (n, w) = (if n = 0 then None else Some (n - 1, if n = 1 then drv_close op w else w))"

fun users_run :: "'w dd_operations \<Rightarrow> dd_call list \<Rightarrow> nat \<times> 'w \<Rightarrow> (nat \<times> 'w) option" where
  "users_run op [] s = Some s"
| "users_run op (c # cs) s = do { s \<leftarrow> users_step op c s; users_run op cs s }"

text \<open>The same calls to the layer, by the name of the driver and by its handle.\<close>

fun ddev_run :: "string \<Rightarrow> u32 \<Rightarrow> dd_call list \<Rightarrow> 'w drv_model \<times> 'w \<Rightarrow> ('w drv_model \<times> 'w) option" where
  "ddev_run name h [] s = Some s"
| "ddev_run name h (Dd_open flag # cs) (m, w) =
     do { (h', _, m, w) \<leftarrow> ddev_open (Some name) True flag m w; if h' = h then ddev_run name h cs (m, w) else None }"
| "ddev_run name h (Dd_close # cs) (m, w) =
     do { (ret, m, w) \<leftarrow> ddev_close h m w; if ret = DRV_SUCCESS then ddev_run name h cs (m, w) else None }"

definition dev_users :: "string \<Rightarrow> nat \<Rightarrow> 'w dd_operations \<Rightarrow> nat \<Rightarrow> 'w drv_model \<Rightarrow> bool" where
  "dev_users name i op n m \<longleftrightarrow> length (drv_dev_tbl m) = DD_MAX_DEV \<and> drv_find 0 DD_MAX_DEV name (drv_dev_tbl m) = Some (Some i) \<and>
     drv_op (drv_dev_tbl m ! i) = Some op \<and> n < 2 ^ 32 \<and>
     (if n = 0 then drv_state (drv_dev_tbl m ! i) = DD_STATE_CLOSED
      else drv_state (drv_dev_tbl m ! i) = DD_STATE_OPENED \<and> drv_use_cnt (drv_dev_tbl m ! i) = of_nat n)"

text \<open>The tables agree but for the use count and the state of an entry.\<close>

definition others_same :: "nat \<Rightarrow> 'w drv_model \<Rightarrow> 'w drv_model \<Rightarrow> bool" where
  "others_same i m m' \<longleftrightarrow> drv_sdev_tbl m' = drv_sdev_tbl m \<and> map drv_name (drv_dev_tbl m') = map drv_name (drv_dev_tbl m) \<and>
     (\<forall>j. j \<noteq> i \<longrightarrow> drv_dev_tbl m' ! j = drv_dev_tbl m ! j)"

lemma others_same_refl [simp]: "others_same i m m"
  by (simp add: others_same_def)

lemma others_same_trans: "others_same i a b \<Longrightarrow> others_same i b c \<Longrightarrow> others_same i a c"
  by (simp add: others_same_def)

lemma map_name_upd:
  assumes "drv_name d = drv_name (tbl ! i)"
  shows "map drv_name (tbl[i := d]) = map drv_name tbl"
proof (rule nth_equalityI)
  fix j assume "j < length (map drv_name (tbl[i := d]))"
  then show "map drv_name (tbl[i := d]) ! j = map drv_name tbl ! j" using assms by (cases "i = j") auto
qed simp

lemma users_upd:
  assumes "dev_users name i op n m" and "drv_name d = drv_name (drv_dev_tbl m ! i)" and "drv_op d = Some op" and "n' < 2 ^ 32"
    and "if n' = 0 then drv_state d = DD_STATE_CLOSED else drv_state d = DD_STATE_OPENED \<and> drv_use_cnt d = of_nat n'"
  shows "dev_users name i op n' (m\<lparr>drv_dev_tbl := (drv_dev_tbl m)[i := d]\<rparr>)" "others_same i m (m\<lparr>drv_dev_tbl := (drv_dev_tbl m)[i := d]\<rparr>)"
proof -
  have "i < length (drv_dev_tbl m)" using assms(1) drv_find_Some by (fastforce simp: dev_users_def)
  moreover have "drv_find 0 DD_MAX_DEV name ((drv_dev_tbl m)[i := d]) = drv_find 0 DD_MAX_DEV name (drv_dev_tbl m)"
    by (rule drv_find_cong[OF map_name_upd[OF assms(2)]])
  ultimately show "dev_users name i op n' (m\<lparr>drv_dev_tbl := (drv_dev_tbl m)[i := d]\<rparr>)" "others_same i m (m\<lparr>drv_dev_tbl := (drv_dev_tbl m)[i := d]\<rparr>)"
    using assms map_name_upd[OF assms(2)] by (simp_all add: dev_users_def others_same_def)
qed

lemma open_users:
  assumes "dev_users name i op n m" and "n + 1 < 2 ^ 32" and "length name \<le> DD_MAX_NAME_LEN"
  shows "\<exists>st m'. ddev_open (Some name) True flag m w = Some (ddev_make_handle (of_nat i), st, m', if n = 0 then drv_open op flag w else w) \<and>
    dev_users name i op (n + 1) m' \<and> others_same i m m'"
proof (cases "n = 0")
  case True
  let ?d = "(drv_dev_tbl m ! i)\<lparr>drv_state := DD_STATE_OPENED, drv_use_cnt := 1\<rparr>"
  have "i < length (drv_dev_tbl m)" using assms(1) drv_find_Some by (fastforce simp: dev_users_def)
  then have "\<exists>st. ddev_open (Some name) True flag m w =
      Some (ddev_make_handle (of_nat i), st, m\<lparr>drv_dev_tbl := (drv_dev_tbl m)[i := ?d]\<rparr>, drv_open op flag w)"
    using assms True by (auto simp: ddev_open_def dev_users_def drv_open_def Let_def split: option.splits prod.splits)
  moreover have "drv_op ?d = Some op" using assms(1) by (simp add: dev_users_def)
  ultimately show ?thesis using users_upd[OF assms(1), of ?d "n + 1"] True by auto
next
  case False
  let ?d = "(drv_dev_tbl m ! i)\<lparr>drv_use_cnt := of_nat (n + 1)\<rparr>"
  have "ddev_open (Some name) True flag m w = Some (ddev_make_handle (of_nat i), Some DRV_FAILURE, m\<lparr>drv_dev_tbl := (drv_dev_tbl m)[i := ?d]\<rparr>, w)"
    using assms False by (simp add: ddev_open_def dev_users_def add.commute)
  moreover have "drv_op ?d = Some op" "drv_state ?d = DD_STATE_OPENED" using assms(1) False by (simp_all add: dev_users_def)
  ultimately show ?thesis using users_upd[OF assms(1), of ?d "n + 1"] False assms(2) by auto
qed

lemma close_users:
  assumes "dev_users name i op n m" and "n \<noteq> 0"
  shows "\<exists>m'. ddev_close (ddev_make_handle (of_nat i)) m w = Some (DRV_SUCCESS, m', if n = 1 then drv_close op w else w) \<and>
    dev_users name i op (n - 1) m' \<and> others_same i m m'"
proof -
  let ?t = "drv_dev_tbl m"
  have i: "i < length ?t" "length ?t = 10" using assms(1) drv_find_Some by (fastforce simp: dev_users_def)+
  then have "i < DD_MAX_DEV" by simp
  note h = handle_of_nat[OF this]
  have d: "drv_op (?t ! i) = Some op" "drv_state (?t ! i) = DD_STATE_OPENED" "drv_use_cnt (?t ! i) = of_nat n" "n < 2 ^ 32"
    using assms by (simp_all add: dev_users_def)
  have n1: "drv_use_cnt (?t ! i) - 1 = of_nat (n - 1)" using d(3) assms(2) by (simp add: of_nat_diff)
  have u: "unat (of_nat (n - 1) :: u32) = n - 1" using d(4) by (simp add: unat_of_nat take_bit_nat_eq_self)
  then have z: "(of_nat (n - 1) :: u32) = 0 \<longleftrightarrow> n = 1" using assms(2) by (metis unat_eq_zero One_nat_def diff_is_0_eq le_antisym Suc_leI neq0_conv diff_self_eq_0)
  show ?thesis
  proof (cases "n = 1")
    case True
    let ?d = "(?t ! i)\<lparr>drv_use_cnt := 0, drv_state := DD_STATE_CLOSED\<rparr>"
    have "ddev_close (ddev_make_handle (of_nat i)) m w = Some (DRV_SUCCESS, m\<lparr>drv_dev_tbl := ?t[i := ?d]\<rparr>, drv_close op w)"
      using h i d True by (simp add: ddev_close_def dev_at_def drv_close_def Let_def)
    then show ?thesis using users_upd[OF assms(1), of ?d 0] d True by auto
  next
    case False
    let ?d = "(?t ! i)\<lparr>drv_use_cnt := of_nat (n - 1)\<rparr>"
    have "ddev_close (ddev_make_handle (of_nat i)) m w = Some (DRV_SUCCESS, m\<lparr>drv_dev_tbl := ?t[i := ?d]\<rparr>, w)"
      using h i n1 z False by (simp add: ddev_close_def dev_at_def Let_def) (metis diff_self)
    then show ?thesis using users_upd[OF assms(1), of ?d "n - 1"] d assms(2) False by auto
  qed
qed

lemma run_users:
  assumes "users_run op cs (n, w) = Some (n', w')" and "dev_users name i op n m" and "length name \<le> DD_MAX_NAME_LEN"
  shows "\<exists>m'. ddev_run name (ddev_make_handle (of_nat i)) cs (m, w) = Some (m', w') \<and> dev_users name i op n' m' \<and> others_same i m m'"
  using assms(1,2)
proof (induction cs arbitrary: n w m)
  case (Cons c cs)
  then obtain n1 w1 where s: "users_step op c (n, w) = Some (n1, w1)" "users_run op cs (n1, w1) = Some (n', w')" by (auto simp: bind_eq_Some_conv)
  have "\<exists>m1. ddev_run name (ddev_make_handle (of_nat i)) (c # cs) (m, w) = ddev_run name (ddev_make_handle (of_nat i)) cs (m1, w1) \<and>
      dev_users name i op n1 m1 \<and> others_same i m m1"
  proof (cases c)
    case (Dd_open flag)
    then show ?thesis using s(1) open_users[OF Cons.prems(2) _ assms(3), of flag w] by (auto split: if_splits)
  next
    case Dd_close
    then show ?thesis using s(1) close_users[OF Cons.prems(2), of w] by (auto split: if_splits)
  qed
  then show ?case using Cons.IH[OF s(2)] others_same_trans by metis
qed simp

section \<open>Registration\<close>

lemma drv_find_below:
  assumes "drv_find i n name tbl = Some (Some k)" and "k < l" and "l < length tbl"
  shows "drv_find i n name (tbl[l := d]) = Some (Some k)"
  using assms
proof (induction i n name tbl rule: drv_find.induct)
  case (1 i n name tbl)
  have "i \<le> k" using drv_find_Some[OF "1.prems"(1)] by simp
  then have "i \<noteq> l" using "1.prems"(2) by simp
  moreover have "\<not> os_strncmp_eq s name (length name) \<Longrightarrow> drv_name (tbl ! i) = Some s \<Longrightarrow> drv_find (i + 1) n name tbl = Some (Some k)" for s
    using "1.prems"(1) by (subst (asm) drv_find.simps) (auto split: if_splits)
  ultimately show ?case using "1.IH" "1.prems" by (subst drv_find.simps, subst (asm) (3) drv_find.simps) (auto split: if_splits option.splits)
qed

lemma drv_find_before_hole:
  assumes "drv_find i n name tbl = Some (Some k)" and "drv_name (tbl ! l) = None" and "i \<le> l"
  shows "k < l"
  using assms
proof (induction i n name tbl rule: drv_find.induct)
  case (1 i n name tbl)
  show ?case
  proof (cases "i = l")
    case True
    then show ?thesis using "1.prems"(1,2) by (subst (asm) drv_find.simps) (auto split: if_splits)
  next
    case False
    then have "i < l" using "1.prems"(3) by simp
    from "1.prems"(1) consider "k = i" | s where "i < n" "i < length tbl" "drv_name (tbl ! i) = Some s" "\<not> os_strncmp_eq s name (length name)"
      "drv_find (i + 1) n name tbl = Some (Some k)" by (subst (asm) drv_find.simps) (auto split: if_splits option.splits)
    then show ?thesis
    proof cases
      case 2
      then show ?thesis using "1.IH"[OF 2(1,2,3,4)] "1.prems"(2) \<open>i < l\<close> by simp
    qed (use \<open>i < l\<close> in simp)
  qed
qed

lemma free_slot_Some:
  assumes "free_slot tbl = Some i"
  shows "i < length tbl" "drv_name (tbl ! i) = None" "drv_state (tbl ! i) = DD_STATE_NODEVICE"
proof -
  from assms obtain j where "j < length [0..<length tbl]" "[0..<length tbl] ! j = i" "drv_name (tbl ! i) = None" "drv_state (tbl ! i) = DD_STATE_NODEVICE"
    unfolding free_slot_def by (metis (mono_tags, lifting) find_Some_iff)
  then show "i < length tbl" "drv_name (tbl ! i) = None" "drv_state (tbl ! i) = DD_STATE_NODEVICE" by auto
qed

section \<open>Well-formed tables\<close>

text \<open>An entry without a driver has no name and no functions, one with a driver has both.\<close>

definition slot_ok :: "'o drv_dev \<Rightarrow> bool" where
  "slot_ok d \<longleftrightarrow> (if drv_name d = None then drv_state d = DD_STATE_NODEVICE \<and> drv_op d = None
      else drv_state d \<in> {DD_STATE_CLOSED, DD_STATE_OPENED} \<and> drv_op d \<noteq> None)"

definition drv_ok :: "'w drv_model \<Rightarrow> bool" where
  "drv_ok m \<longleftrightarrow> length (drv_dev_tbl m) = DD_MAX_DEV \<and> length (drv_sdev_tbl m) = DD_MAX_SDEV \<and>
     list_all slot_ok (drv_dev_tbl m) \<and> list_all slot_ok (drv_sdev_tbl m)"

lemma slots_upd: "list_all slot_ok tbl \<Longrightarrow> slot_ok d \<Longrightarrow> list_all slot_ok (tbl[i := d])"
  by (auto simp: list_all_iff dest: set_update_subset_insert[THEN subsetD])

lemma slot_nth: "list_all slot_ok tbl \<Longrightarrow> i < length tbl \<Longrightarrow> slot_ok (tbl ! i)"
  by (simp add: list_all_length)

lemma drv_ok_register: "list_all slot_ok tbl \<Longrightarrow> list_all slot_ok (register_at name op i tbl)"
  "list_all slot_ok tbl \<Longrightarrow> list_all slot_ok (unregister_at i tbl)"
  by (simp_all add: register_at_def unregister_at_def slots_upd slot_ok_def)

lemma drv_ok_upd: "drv_ok m \<Longrightarrow> slot_ok d \<Longrightarrow> drv_ok (m\<lparr>drv_dev_tbl := (drv_dev_tbl m)[i := d]\<rparr>)"
  by (simp add: drv_ok_def slots_upd)

lemma ddev_open_ok:
  assumes "drv_ok m" and "ddev_open name st flag m w = Some (h, st', m', w')"
  shows "drv_ok m'"
proof -
  from assms(2) obtain nm where nm: "name = Some nm" by (cases name) (simp_all add: ddev_open_def)
  show ?thesis
  proof (cases "\<not> st \<or> length nm > DD_MAX_NAME_LEN")
    case True
    then show ?thesis using assms nm by (simp add: ddev_open_def)
  next
    case False
    with assms(2) nm obtain i where f: "drv_find 0 DD_MAX_DEV nm (drv_dev_tbl m) = Some (Some i)"
      by (auto simp: ddev_open_def bind_eq_Some_conv)
    let ?d = "drv_dev_tbl m ! i"
    have i: "i < length (drv_dev_tbl m)" "drv_name ?d \<noteq> None" using drv_find_Some[OF f] by simp_all
    then have o: "drv_op ?d \<noteq> None" using assms(1) slot_nth[of "drv_dev_tbl m" i] by (simp add: drv_ok_def slot_ok_def)
    show ?thesis using assms nm False f i o
      by (cases "drv_state ?d") (auto simp: ddev_open_def Let_def slot_ok_def split: prod.splits intro!: drv_ok_upd)
  qed
qed

lemma ddev_close_ok:
  assumes "drv_ok m" and "ddev_close h m w = Some (r, m', w')" and "\<And>d. dev_at (ddev_get_id_from_handle h) m = Some d \<Longrightarrow> drv_name d \<noteq> None"
  shows "drv_ok m'"
proof (cases "ddev_get_id_from_handle h = DD_ID_UNVALID")
  case False
  let ?i = "unat (ddev_get_id_from_handle h)"
  let ?d = "drv_dev_tbl m ! ?i"
  from assms(2) False have i: "?i < length (drv_dev_tbl m)" by (auto simp: ddev_close_def dev_at_def Let_def split: if_splits)
  then have n: "drv_name ?d \<noteq> None" using assms(3) by (simp add: dev_at_def)
  have sl: "drv_state ?d \<in> {DD_STATE_CLOSED, DD_STATE_OPENED}" "drv_op ?d \<noteq> None"
    using assms(1) slot_nth[of "drv_dev_tbl m" ?i] i n by (simp_all add: drv_ok_def slot_ok_def)
  show ?thesis using assms(1,2) False i n sl
    by (auto simp: ddev_close_def dev_at_def Let_def slot_ok_def split: if_splits intro!: drv_ok_upd)
qed (use assms(1,2) in \<open>simp add: ddev_close_def\<close>)

section \<open>Properties\<close>

text \<open>C25: The layer counts the users of a driver.  For a driver that is registered, any sequence of opens by
  name and closes by handle that never closes more often than it has opened, and with fewer than 2^32
  users at a time, succeeds with one and the same handle, calls the driver's open for the first user and
  its close for the last one and for no other, and leaves the other drivers as they were.\<close>

theorem ddev_counts_users:
  assumes "users_run op cs (n, w) = Some (n', w')" and "dev_users name i op n m" and "length name \<le> DD_MAX_NAME_LEN"
  shows "\<exists>m'. ddev_run name (ddev_make_handle (of_nat i)) cs (m, w) = Some (m', w') \<and> dev_users name i op n' m' \<and> others_same i m m'"
  by (rule run_users[OF assms])

text \<open>C26: The tables stay well formed: every entry either has a name, functions and a state or none of them.
  This holds after initialisation and is kept by registration, removal, opening, and closing a driver that
  is still registered.\<close>

theorem drv_model_well_formed:
  assumes "drv_ok m"
  shows "drv_ok (snd (drv_model_init m)) \<and>
     (ddev_register_dev name op m = Some (r, m') \<longrightarrow> drv_ok m') \<and> (sddev_register_dev name sop m = Some (r, m') \<longrightarrow> drv_ok m') \<and>
     (ddev_unregister_dev name m = Some (r, m') \<longrightarrow> drv_ok m') \<and> (sddev_unregister_dev name m = Some (r, m') \<longrightarrow> drv_ok m') \<and>
     (ddev_open name st flag m w = Some (h, st', m', w') \<longrightarrow> drv_ok m') \<and>
     (ddev_close h m w = Some (r, m', w') \<and> (\<forall>d. dev_at (ddev_get_id_from_handle h) m = Some d \<longrightarrow> drv_name d \<noteq> None) \<longrightarrow> drv_ok m')"
proof (intro conjI impI)
  show "drv_ok (snd (drv_model_init m))" by (simp add: drv_model_init_def drv_ok_def slot_ok_def no_dev_def list_all_iff)
  show "drv_ok m'" if "ddev_register_dev name op m = Some (r, m')"
    using that assms by (auto simp: ddev_register_dev_def drv_ok_def drv_ok_register register_at_def bind_eq_Some_conv split: option.splits
        intro: drv_ok_register(1)[unfolded register_at_def])
  show "drv_ok m'" if "sddev_register_dev name sop m = Some (r, m')"
    using that assms by (auto simp: sddev_register_dev_def drv_ok_def register_at_def bind_eq_Some_conv split: option.splits
        intro: drv_ok_register(1)[unfolded register_at_def])
  show "drv_ok m'" if "ddev_unregister_dev name m = Some (r, m')"
    using that assms by (auto simp: ddev_unregister_dev_def drv_ok_def unregister_at_def bind_eq_Some_conv split: option.splits if_splits
        intro: drv_ok_register(2)[unfolded unregister_at_def])
  show "drv_ok m'" if "sddev_unregister_dev name m = Some (r, m')"
    using that assms by (auto simp: sddev_unregister_dev_def drv_ok_def unregister_at_def bind_eq_Some_conv split: option.splits if_splits
        intro: drv_ok_register(2)[unfolded unregister_at_def])
  show "drv_ok m'" if "ddev_open name st flag m w = Some (h, st', m', w')" by (rule ddev_open_ok[OF assms that])
  show "drv_ok m'" if "ddev_close h m w = Some (r, m', w') \<and> (\<forall>d. dev_at (ddev_get_id_from_handle h) m = Some d \<longrightarrow> drv_name d \<noteq> None)"
    using ddev_close_ok[OF assms] that by blast
qed

text \<open>A driver that has been registered is reached: when its name begins no name that was registered before,
  it has no users, opening it by name gives a handle through which its own functions are called, and every
  driver that was found before is still found.\<close>

theorem ddev_register_reached:
  assumes "drv_ok m" and "free_slot (drv_dev_tbl m) = Some i" and "length name \<le> DD_MAX_NAME_LEN"
    and "\<forall>j < i. \<exists>s. drv_name (drv_dev_tbl m ! j) = Some s \<and> \<not> os_strncmp_eq s name (length name)"
  shows "\<exists>m'. ddev_register_dev (Some name) (Some op) m = Some (DRV_SUCCESS, m') \<and> dev_users name i op 0 m' \<and>
     (\<forall>other k. drv_find 0 DD_MAX_DEV other (drv_dev_tbl m) = Some (Some k) \<longrightarrow> drv_find 0 DD_MAX_DEV other (drv_dev_tbl m') = Some (Some k)) \<and>
     (\<exists>st m'' w'. ddev_open (Some name) True flag m' w = Some (ddev_make_handle (of_nat i), st, m'', w') \<and>
        (\<forall>f. dd_read op = Some f \<longrightarrow> ddev_read (ddev_make_handle (of_nat i)) count fl m'' w' = Some (f count fl w')) \<and>
        (\<forall>f. dd_control op = Some f \<longrightarrow> ddev_control (ddev_make_handle (of_nat i)) cmd param m'' w' = Some (f cmd param w')))"
proof -
  let ?t = "drv_dev_tbl m"
  let ?m = "m\<lparr>drv_dev_tbl := register_at name op i ?t\<rparr>"
  note fs = free_slot_Some[OF assms(2)]
  have len: "length ?t = DD_MAX_DEV" "i < DD_MAX_DEV" using assms(1) fs(1) by (simp_all add: drv_ok_def)
  have "drv_find 0 DD_MAX_DEV name (register_at name op i ?t) = Some (Some i)"
    using assms(4) len fs(1) by (intro drv_find_at[where s = name]) (auto simp: register_at_def os_strncmp_eq_def)
  then have u: "dev_users name i op 0 ?m" using len fs(1) by (simp add: dev_users_def register_at_def)
  from open_users[OF u _ assms(3), of flag w] obtain st m'' where
    o: "ddev_open (Some name) True flag ?m w = Some (ddev_make_handle (of_nat i), st, m'', drv_open op flag w)" "dev_users name i op 1 m''" by auto
  note h = handle_of_nat[OF len(2)]
  have "dev_at (of_nat i) m'' = Some (drv_dev_tbl m'' ! i)" "drv_op (drv_dev_tbl m'' ! i) = Some op"
    using o(2) len h(3) by (simp_all add: dev_at_def dev_users_def)
  then have "(\<forall>f. dd_read op = Some f \<longrightarrow> ddev_read (ddev_make_handle (of_nat i)) count fl m'' w' = Some (f count fl w')) \<and>
     (\<forall>f. dd_control op = Some f \<longrightarrow> ddev_control (ddev_make_handle (of_nat i)) cmd param m'' w' = Some (f cmd param w'))" for w'
    using h by (simp add: ddev_read_def ddev_control_def Let_def)
  moreover have "drv_find 0 DD_MAX_DEV other (register_at name op i ?t) = Some (Some k)" if "drv_find 0 DD_MAX_DEV other ?t = Some (Some k)" for other k
    using drv_find_below[OF that _ fs(1)] drv_find_before_hole[OF that fs(2)] by (simp add: register_at_def)
  ultimately show ?thesis using u o(1) assms(2) by (auto simp: ddev_register_dev_def)
qed

text \<open>Closing the last user of a driver that has been removed marks an entry without a name as closed, and no
  driver is registered there again.\<close>

lemma closed_after_removal:
  assumes "i < length (drv_dev_tbl m)" and "i < DD_MAX_DEV" and "drv_name (drv_dev_tbl m ! i) = None" and "drv_use_cnt (drv_dev_tbl m ! i) = 1"
    and "drv_op (drv_dev_tbl m ! i) = None"
  shows "\<exists>m'. ddev_close (ddev_make_handle (of_nat i)) m w = Some (DRV_SUCCESS, m', w) \<and> free_slot (drv_dev_tbl m') \<noteq> Some i"
proof -
  note h = handle_of_nat[OF assms(2)]
  let ?m = "upd_dev i (\<lambda>d. d\<lparr>drv_use_cnt := 0, drv_state := DD_STATE_CLOSED\<rparr>) m"
  have "ddev_close (ddev_make_handle (of_nat i)) m w = Some (DRV_SUCCESS, ?m, w)"
    using h assms by (simp add: ddev_close_def dev_at_def Let_def)
  moreover have "drv_state (drv_dev_tbl ?m ! i) = DD_STATE_CLOSED" using assms(1) by simp
  then have "free_slot (drv_dev_tbl ?m) \<noteq> Some i" using free_slot_Some(3) by force
  ultimately show ?thesis by blast
qed

section \<open>Witnesses\<close>

definition ex_flash_dev :: "nat list dd_operations" where
  "ex_flash_dev = \<lparr>dd_open = Some (\<lambda>flag w. (0, w @ [1])), dd_close = Some (\<lambda>w. (0, w @ [2])), dd_read = Some (\<lambda>n a w. (0, replicate (unat n) 7, w)),
     dd_write = None, dd_control = None\<rparr>"

definition ex_drivers :: "nat list drv_model" where
  "ex_drivers = \<lparr>drv_dev_tbl = no_dev\<lparr>drv_name := Some ''uart1'', drv_state := DD_STATE_CLOSED, drv_op := Some ex_flash_dev\<rparr> # replicate 9 no_dev,
     drv_sdev_tbl = replicate 16 no_dev\<rparr>"

lemma ex_drivers_ok: "drv_ok ex_drivers"
  by (simp add: ex_drivers_def drv_ok_def slot_ok_def no_dev_def list_all_iff)

lemma ex_uart: "dev_users ''uart1'' 0 ex_flash_dev 0 ex_drivers"
  using drv_find_at[of 0 0 DD_MAX_DEV "drv_dev_tbl ex_drivers" "''uart1''" "''uart1''"]
  by (simp add: dev_users_def ex_drivers_def no_dev_def os_strncmp_eq_def)

theorem ddev_counts_users_witness:
  "\<exists>m'. ddev_run ''uart1'' (ddev_make_handle 0) [Dd_open 0, Dd_open 0, Dd_close, Dd_close] (ex_drivers, []) = Some (m', [1, 2])"
  using ddev_counts_users[OF _ ex_uart, of "[Dd_open 0, Dd_open 0, Dd_close, Dd_close]" "[]" 0 "[1, 2]"]
  by (auto simp: drv_open_def drv_close_def ex_flash_dev_def)

lemma ex_free: "free_slot (drv_dev_tbl ex_drivers) = Some 1"
proof -
  have "[0..<10] = [0, 1] @ [2..<10 :: nat]" by (simp add: upt_rec)
  then show ?thesis by (simp add: free_slot_def ex_drivers_def no_dev_def)
qed

theorem drv_model_well_formed_witness:
  "\<exists>m'. ddev_register_dev (Some ''flash'') (Some ex_flash_dev) ex_drivers = Some (DRV_SUCCESS, m') \<and> drv_ok m'"
proof -
  have "\<exists>m'. ddev_register_dev (Some ''flash'') (Some ex_flash_dev) ex_drivers = Some (DRV_SUCCESS, m')"
    by (simp add: ddev_register_dev_def ex_free)
  then show ?thesis using drv_model_well_formed[OF ex_drivers_ok, of "Some ''flash''" "Some ex_flash_dev"] by blast
qed

theorem ddev_register_reached_witness:
  "\<exists>m'. ddev_register_dev (Some ''flash'') (Some ex_flash_dev) ex_drivers = Some (DRV_SUCCESS, m') \<and> dev_users ''flash'' 1 ex_flash_dev 0 m'"
proof -
  have "\<forall>j < 1. \<exists>s. drv_name (drv_dev_tbl ex_drivers ! j) = Some s \<and> \<not> os_strncmp_eq s ''flash'' (length ''flash'')"
    by (simp add: ex_drivers_def os_strncmp_eq_def)
  from ddev_register_reached[OF ex_drivers_ok ex_free _ this, of ex_flash_dev 0 "[]" 0 0 0 0] show ?thesis by auto
qed

end
