(* ===== verification/Console.thy ===== *)
theory Console
  imports Device Kprintf
begin

text \<open>
  The console of rt-thread/src/kservice.c: the device that the kernel prints on, and rt_kputs and rt_kprintf,
  which put formatted output, devices and drivers together.
\<close>

section \<open>Operations\<close>

abbreviation RT_DEVICE_OFLAG_RDWR :: u16 where "RT_DEVICE_OFLAG_RDWR \<equiv> 0x003"
abbreviation RT_DEVICE_FLAG_STREAM :: u16 where "RT_DEVICE_FLAG_STREAM \<equiv> 0x040"

text \<open>_console_device, the devices, the data of the drivers, and the buffer rt_log_buf.\<close>

record 'h console =
  con_device :: "nat option"
  con_devs :: "nat \<Rightarrow> rt_device"
  con_hw :: 'h
  con_log_buf :: "nat \<Rightarrow> char"

text \<open>The drivers of the devices, and rt_hw_console_output, which a board may define.\<close>

record 'h board =
  bd_driver :: "nat \<Rightarrow> 'h rt_device_ops"
  bd_console_output :: "string \<Rightarrow> 'h \<Rightarrow> 'h"

definition rt_console_get_device :: "'h console \<Rightarrow> nat option" where
  "rt_console_get_device s = con_device s"

text \<open>A call of the device layer for device d.\<close>

definition on_device :: "nat \<Rightarrow> ('h, 'r) driver_fun \<Rightarrow> 'h console \<Rightarrow> kernel \<Rightarrow> ('h console \<times> kernel) option" where
  "on_device d f s k =
     do { (_, dev, h, k) \<leftarrow> f (con_devs s d) (con_hw s) k;
          Some (s\<lparr>con_devs := (con_devs s)(d := dev), con_hw := h\<rparr>, k) }"

definition rt_console_set_device :: "'h board \<Rightarrow> u8 list \<Rightarrow> 'h console \<Rightarrow> kernel \<Rightarrow> (nat option \<times> 'h console \<times> kernel) option" where
  "rt_console_set_device bd name s k =
     (let old = con_device s
      in do { (new_dev, k) \<leftarrow> rt_device_find name k;
              case new_dev of
                None \<Rightarrow> Some (old, s, k)
              | Some n \<Rightarrow>
                  do { (s, k) \<leftarrow> (case con_device s of
                                    Some d \<Rightarrow> on_device d (rt_device_close (bd_driver bd d)) s k
                                  | None \<Rightarrow> Some (s, k));
                       (s, k) \<leftarrow> on_device n (rt_device_open (bd_driver bd n) (RT_DEVICE_OFLAG_RDWR OR RT_DEVICE_FLAG_STREAM)) s k;
                       Some (old, s\<lparr>con_device := Some n\<rparr>, k) } })"

text \<open>The common part of rt_kputs and rt_kprintf when there is a console device.\<close>

definition console_write :: "'h board \<Rightarrow> nat \<Rightarrow> u8 list \<Rightarrow> 'h console \<Rightarrow> kernel \<Rightarrow> ('h console \<times> kernel) option" where
  "console_write bd d bytes s k =
     (let old_flag = dev_open_flag (con_devs s d);
          s = s\<lparr>con_devs := (con_devs s)(d := (con_devs s d)\<lparr>dev_open_flag := old_flag OR RT_DEVICE_FLAG_STREAM\<rparr>)\<rparr>
      in do { (s, k) \<leftarrow> on_device d (rt_device_write (bd_driver bd d) 0 bytes) s k;
              Some (s\<lparr>con_devs := (con_devs s)(d := (con_devs s d)\<lparr>dev_open_flag := old_flag\<rparr>)\<rparr>, k) })"

definition rt_kputs :: "'h board \<Rightarrow> string option \<Rightarrow> 'h console \<Rightarrow> kernel \<Rightarrow> ('h console \<times> kernel) option" where
  "rt_kputs bd str s k =
     (case str of
        None \<Rightarrow> Some (s, k)
      | Some str \<Rightarrow>
          (case con_device s of
             None \<Rightarrow> Some (s\<lparr>con_hw := bd_console_output bd str (con_hw s)\<rparr>, k)
           | Some d \<Rightarrow> console_write bd d (map of_char str) s k))"


section \<open>Properties\<close>







text \<open>Setting the console to a device that is not registered changes nothing and returns the old one.\<close>

lemma console_unknown_device:
  "rt_device_find name k = Some (None, k') \<Longrightarrow> rt_console_set_device bd name s k = Some (con_device s, s, k')"
  by (simp add: rt_console_set_device_def)

section \<open>Witnesses\<close>




end
