(* ===== verification/Heap_Align.thy ===== *)
theory Heap_Align
  imports System_Heap
begin

text \<open>
  rt_malloc_align and rt_free_align of rt-thread/src/kservice.c, on the system heap: an aligned address inside a
  block that is large enough, with the address of the block stored in front of it.
\<close>

section \<open>Operations\<close>

text \<open>A word in the memory of a heap, the least significant byte first.\<close>

definition heap_store :: "heap_ptr \<Rightarrow> u32 \<Rightarrow> heaps \<Rightarrow> heaps" where
  "heap_store dst v hs = (case dst of (j, d) \<Rightarrow>
     hs(j := (hs j)\<lparr>mh_data := (\<lambda>a. if a - d < 4 then ucast (drop_bit (8 * unat (a - d)) v) else mh_data (hs j) a)\<rparr>))"

definition heap_load :: "heap_ptr \<Rightarrow> heaps \<Rightarrow> u32" where
  "heap_load src hs = (case src of (i, s) \<Rightarrow>
     ucast (mh_data (hs i) s) OR push_bit 8 (ucast (mh_data (hs i) (s + 1))) OR
     push_bit 16 (ucast (mh_data (hs i) (s + 2))) OR push_bit 24 (ucast (mh_data (hs i) (s + 3))))"

definition align_size :: "u32 \<Rightarrow> u32 \<Rightarrow> u32" where
  "align_size sz align = ((sz + 0x03) AND NOT 0x03) + align"

definition align_ptr :: "u32 \<Rightarrow> u32 \<Rightarrow> u32" where
  "align_ptr ptr align = (if ptr AND (align - 1) = 0 then ptr + align else (ptr + (align - 1)) AND NOT (align - 1))"

definition rt_malloc_align ::
  "(nat \<Rightarrow> nat) \<Rightarrow> u32 \<Rightarrow> u32 \<Rightarrow> heaps \<Rightarrow> kernel \<Rightarrow> (heap_ptr option outcome \<times> heaps \<times> kernel) option" where
  "rt_malloc_align lock sz align hs k =
     (let align = (align + 0x03) AND NOT 0x03
      in do { (r, hs, k) \<leftarrow> rt_malloc lock (align_size sz align) hs k;
              Some (case r of
                      Return (Some (i, ptr)) \<Rightarrow>
                        (Return (Some (i, align_ptr ptr align)), heap_store (i, align_ptr ptr align - 4) ptr hs, k)
                    | _ \<Rightarrow> (r, hs, k)) })"

definition rt_free_align :: "(nat \<Rightarrow> nat) \<Rightarrow> heap_ptr \<Rightarrow> heaps \<Rightarrow> kernel \<Rightarrow> (unit outcome \<times> heaps \<times> kernel) option" where
  "rt_free_align lock ptr hs k =
     (let real_ptr = heap_load (fst ptr, snd ptr - 4) hs in rt_free lock (Some (fst ptr, real_ptr)) hs k)"

section \<open>The aligned address\<close>

lemma load_store [simp]: "heap_load (i, d) (heap_store (i, d) v hs) = v"
proof -
  have "heap_load (i, d) (heap_store (i, d) v hs) =
      ucast (ucast v :: u8) OR push_bit 8 (ucast (ucast (drop_bit 8 v) :: u8)) OR push_bit 16 (ucast (ucast (drop_bit 16 v) :: u8)) OR
      push_bit 24 (ucast (ucast (drop_bit 24 v) :: u8))"
    by (simp add: heap_load_def heap_store_def)
  also have "\<dots> = v"
  proof (rule bit_word_eqI)
    fix n assume "n < LENGTH(32)"
    then consider "n < 8" | "8 \<le> n" "n < 16" | "16 \<le> n" "n < 24" | "24 \<le> n" "n < 32" by fastforce
    then show "bit (ucast (ucast v :: u8) OR push_bit 8 (ucast (ucast (drop_bit 8 v) :: u8)) OR push_bit 16 (ucast (ucast (drop_bit 16 v) :: u8)) OR
      push_bit 24 (ucast (ucast (drop_bit 24 v) :: u8)) :: u32) n = bit v n" by cases (auto simp: bit_simps less_diff_conv2)
  qed
  finally show ?thesis .
qed

lemma unat_power: "n < 32 \<Longrightarrow> unat (2 ^ n :: u32) = 2 ^ n"
proof -
  assume n: "n < 32"
  have "(2 ^ n :: u32) = of_nat (2 ^ n)" by simp
  moreover have "(2 :: nat) ^ n < 2 ^ 32" using n by (rule power_strict_increasing) simp
  ultimately show ?thesis by (simp only: unat_of_nat take_bit_nat_eq_self) (simp add: take_bit_nat_eq_self)
qed

lemma power_4: "2 \<le> n \<Longrightarrow> (4 :: nat) dvd 2 ^ n"
  using le_imp_power_dvd[of 2 n "2 :: nat"] by simp

lemma aligned_power: "2 \<le> n \<Longrightarrow> n < 31 \<Longrightarrow> ((2 ^ n + 0x03) AND NOT 0x03 :: u32) = 2 ^ n"
proof -
  assume n: "2 \<le> n" "n < 31"
  have u: "unat (2 ^ n :: u32) = 2 ^ n" using n(2) by (simp add: unat_power)
  have "(2 :: nat) ^ n < 2 ^ 31" using n(2) by (rule power_strict_increasing) simp
  then have "unat (RT_ALIGN (2 ^ n) 4 :: u32) = (2 ^ n + 3) - (2 ^ n + 3) mod 4" using align_up_unat[of 4 2 "2 ^ n :: u32"] u by simp
  moreover obtain c where "(2 :: nat) ^ n = 4 * c" using power_4[OF n(1)] by auto
  ultimately have "unat (RT_ALIGN (2 ^ n) 4 :: u32) = 2 ^ n" by simp
  then show ?thesis using u by (simp add: RT_ALIGN_def word_unat_eq_iff add.commute)
qed

lemma align_size_unat:
  assumes "2 \<le> n" and "n < 31" and "unat sz + 3 + 2 ^ n < 2 ^ 32"
  shows "unat sz + 2 ^ n \<le> unat (align_size sz (2 ^ n))"
proof -
  have "(2 :: nat) ^ 2 \<le> 2 ^ n" using assms(1) by (rule power_increasing) simp
  then have r: "unat (RT_ALIGN sz 4) = (unat sz + 3) - (unat sz + 3) mod 4" using align_up_unat[of 4 2 sz] assms(3) by simp
  then have "unat sz \<le> unat (RT_ALIGN sz 4)" "unat (RT_ALIGN sz 4) \<le> unat sz + 3" by presburger+
  moreover have "align_size sz (2 ^ n) = RT_ALIGN sz 4 + 2 ^ n" by (simp add: align_size_def RT_ALIGN_def add.commute)
  moreover have "unat (RT_ALIGN sz 4 + 2 ^ n :: u32) = unat (RT_ALIGN sz 4) + 2 ^ n"
    using calculation(2) assms(2,3) by (subst unat_add_lem[THEN iffD1]) (simp_all add: unat_power)
  ultimately show ?thesis by simp
qed

lemma align_ptr_range:
  assumes "2 \<le> n" and "n < 31" and "unat ptr mod 4 = 0" and "unat ptr + 2 ^ n < 2 ^ 32"
  shows "unat (align_ptr ptr (2 ^ n)) mod 2 ^ n = 0" "unat ptr + 4 \<le> unat (align_ptr ptr (2 ^ n))" "unat (align_ptr ptr (2 ^ n)) \<le> unat ptr + 2 ^ n"
proof -
  let ?q = "align_ptr ptr (2 ^ n)" and ?A = "2 ^ n :: nat"
  have m: "(2 ^ n - 1 :: u32) = mask n" by (simp add: mask_eq_exp_minus_1)
  have low: "unat (ptr AND mask n) = unat ptr mod ?A"
    unfolding take_bit_eq_mask[symmetric] unsigned_take_bit_eq by (simp add: take_bit_eq_mod)
  obtain a where a: "?A = 4 * a" using power_4[OF assms(1)] by auto
  obtain u where u: "unat ptr = 4 * u" using assms(3) by auto
  have "unat ?q mod ?A = 0 \<and> unat ptr + 4 \<le> unat ?q \<and> unat ?q \<le> unat ptr + ?A"
  proof (cases "unat ptr mod ?A = 0")
    case True
    then have "ptr AND mask n = 0" using low by (simp add: unat_eq_zero)
    then have q: "?q = ptr + 2 ^ n" by (simp add: align_ptr_def m)
    have uq: "unat (ptr + 2 ^ n :: u32) = unat ptr + ?A" using assms(2,4) by (subst unat_add_lem[THEN iffD1]) (simp_all add: unat_power)
    have "0 < ?A" by simp
    then have "4 \<le> ?A" using a by simp
    then show ?thesis unfolding q uq using True by simp
  next
    case False
    then have "ptr AND mask n \<noteq> 0" using low by auto
    then have "?q = RT_ALIGN ptr (2 ^ n)" by (simp add: align_ptr_def RT_ALIGN_def m mask_eq_exp_minus_1[symmetric] flip: add_diff_eq)
    then have q: "unat ?q = (unat ptr + (?A - 1)) - (unat ptr + (?A - 1)) mod ?A" using align_up_unat[of "2 ^ n" n ptr] assms(2,4) by simp
    then have z: "unat ?q mod ?A = 0" by (simp add: minus_mod_eq_mult_div)
    have lt: "(unat ptr + (?A - 1)) mod ?A < ?A" by simp
    then have le: "unat ptr \<le> unat ?q" "unat ?q \<le> unat ptr + ?A" using q by linarith+
    have "unat ptr \<noteq> unat ?q" using False z by auto
    moreover obtain c where "unat ?q = 4 * c" using z a by (metis dvd_def dvd_mult_left mod_0_imp_dvd)
    ultimately show ?thesis using z le u by simp
  qed
  then show "unat ?q mod ?A = 0" "unat ptr + 4 \<le> unat ?q" "unat ?q \<le> unat ptr + ?A" by simp_all
qed

section \<open>Properties\<close>

text \<open>For an alignment that is a power of two from 4 on, rt_malloc_align serves its request from a block of
  rt_malloc: the address it returns is aligned, there is room for the stored address in front of it, the
  requested bytes lie inside the block, and rt_free_align gives exactly that block back.\<close>

theorem malloc_align_block:
  assumes "rt_malloc lock (align_size sz (2 ^ n)) hs k = Some (Return (Some (i, ptr)), hs1, k1)"
    and "2 \<le> n" and "n < 31" and "unat sz + 3 + 2 ^ n < 2 ^ 32" and "unat ptr mod 4 = 0" and "unat ptr + unat (align_size sz (2 ^ n)) < 2 ^ 32"
  shows "\<exists>q hs'. rt_malloc_align lock sz (2 ^ n) hs k = Some (Return (Some (i, q)), hs', k1) \<and> unat q mod 2 ^ n = 0 \<and>
     unat ptr + 4 \<le> unat q \<and> unat q + unat sz \<le> unat ptr + unat (align_size sz (2 ^ n)) \<and>
     rt_free_align lock (i, q) hs' k' = rt_free lock (Some (i, ptr)) hs' k'"
proof -
  let ?q = "align_ptr ptr (2 ^ n)"
  let ?hs = "heap_store (i, ?q - 4) ptr hs1"
  note sz = align_size_unat[OF assms(2-4)]
  have "rt_malloc_align lock sz (2 ^ n) hs k = Some (Return (Some (i, ?q)), ?hs, k1)"
    using assms(1) aligned_power[OF assms(2,3)] by (simp add: rt_malloc_align_def Let_def)
  moreover have "rt_free_align lock (i, ?q) ?hs k' = rt_free lock (Some (i, ptr)) ?hs k'" by (simp add: rt_free_align_def)
  moreover have "unat ptr + 2 ^ n < 2 ^ 32" using sz assms(6) by simp
  note al = align_ptr_range[OF assms(2,3,5) this]
  ultimately show ?thesis using al sz by (intro exI[of _ ?q] exI[of _ ?hs]) simp
qed

text \<open>An alignment of zero yields the null pointer, and the address of the block is stored at the end of the
  address space.\<close>

lemma malloc_align_zero:
  assumes "rt_malloc lock (align_size sz 0) hs k = Some (Return (Some (i, ptr)), hs1, k1)" and "ptr \<noteq> 0"
  shows "rt_malloc_align lock sz 0 hs k = Some (Return (Some (i, 0)), heap_store (i, - 4) ptr hs1, k1)"
proof -
  have "align_ptr ptr 0 = 0" using assms(2) by (simp add: align_ptr_def)
  then show ?thesis using assms(1) by (simp add: rt_malloc_align_def)
qed

end
