(* ===== verification/Audio_Ring.thy ===== *)
theory Audio_Ring
  imports Fifo
begin

text \<open>
  beken378/driver/audio/ring_buffer.c: the ring buffer of the audio drivers, with 32-bit indices and four bytes
  that are never filled, so that a full ring differs from an empty one.
\<close>

section \<open>Operations\<close>

abbreviation RWP_SAFE_INTERVAL :: u32 where "RWP_SAFE_INTERVAL \<equiv> 4"

text \<open>The memory behind address, and the fields of the struct.\<close>

record rb_st =
  ar_address :: "u8 list"
  ar_capacity :: u32
  ar_wp :: u32
  ar_rp :: u32

definition rb_init :: "u8 list \<Rightarrow> u32 \<Rightarrow> rb_st" where
  "rb_init addr capacity = \<lparr>ar_address = addr, ar_capacity = capacity, ar_wp = 0, ar_rp = 0\<rparr>"

definition rb_clear :: "rb_st \<Rightarrow> rb_st" where
  "rb_clear rb = rb\<lparr>ar_wp := 0, ar_rp := 0\<rparr>"

text \<open>RB_MEMCPY from the ring and into it; None outside the memory.\<close>

definition ring_out :: "rb_st \<Rightarrow> u32 \<Rightarrow> u32 \<Rightarrow> u8 list option" where
  "ring_out rb from n =
     (if unat from + unat n \<le> length (ar_address rb) then Some (take (unat n) (drop (unat from) (ar_address rb))) else None)"

definition ring_in :: "u32 \<Rightarrow> u8 list \<Rightarrow> u32 \<Rightarrow> u32 \<Rightarrow> rb_st \<Rightarrow> rb_st option" where
  "ring_in dst buffer from n rb =
     (if unat dst + unat n \<le> length (ar_address rb) \<and> unat from + unat n \<le> length buffer
      then Some (rb\<lparr>ar_address := take (unat dst) (ar_address rb) @ take (unat n) (drop (unat from) buffer) @ drop (unat dst + unat n) (ar_address rb)\<rparr>)
      else None)"

text \<open>The result, the bytes that are stored in the buffer, and the ring.\<close>

definition rb_read_audio :: "u32 \<Rightarrow> u32 \<Rightarrow> rb_st \<Rightarrow> (u32 \<times> u8 list \<times> rb_st) option" where
  "rb_read_audio sz count rb =
     (let required_bytes = sz * count; wp = ar_wp rb
      in if required_bytes = 0 then Some (0, [], rb)
         else if wp \<ge> ar_rp rb
         then let remain_bytes = wp - ar_rp rb;
                  read_bytes = (if required_bytes > remain_bytes then remain_bytes else required_bytes)
              in do { bs \<leftarrow> ring_out rb (ar_rp rb) read_bytes;
                      Some (read_bytes, bs, rb\<lparr>ar_rp := ar_rp rb + read_bytes\<rparr>) }
         else let remain_bytes = ar_capacity rb - ar_rp rb
              in if required_bytes > remain_bytes
                 then let read_bytes = remain_bytes
                      in do { bs \<leftarrow> ring_out rb (ar_rp rb) read_bytes;
                              if required_bytes - read_bytes > wp
                              then do { bs' \<leftarrow> ring_out rb 0 wp;
                                        Some (read_bytes + wp, bs @ bs', rb\<lparr>ar_rp := wp\<rparr>) }
                              else do { bs' \<leftarrow> ring_out rb 0 (required_bytes - read_bytes);
                                        Some (required_bytes, bs @ bs', rb\<lparr>ar_rp := required_bytes - read_bytes\<rparr>) } }
                 else do { bs \<leftarrow> ring_out rb (ar_rp rb) required_bytes;
                           Some (required_bytes, bs, rb\<lparr>ar_rp := ar_rp rb + required_bytes\<rparr>) })"

text \<open>The end of rb_write: a write index at the end of the memory goes to its start.\<close>

definition rb_write_wrap :: "rb_st \<Rightarrow> rb_st" where
  "rb_write_wrap rb = (if ar_wp rb \<ge> ar_capacity rb \<and> ar_rp rb \<noteq> 0 then rb\<lparr>ar_wp := 0\<rparr> else rb)"

definition rb_write_audio :: "u8 list \<Rightarrow> u32 \<Rightarrow> u32 \<Rightarrow> rb_st \<Rightarrow> (u32 \<times> rb_st) option" where
  "rb_write_audio buffer sz count rb =
     (let write_bytes = sz * count; rp = ar_rp rb
      in if write_bytes = 0 then Some (0, rb)
         else if ar_wp rb \<ge> rp
         then if ar_capacity rb - ar_wp rb + rp \<ge> write_bytes + RWP_SAFE_INTERVAL
              then let remain_bytes = ar_capacity rb - ar_wp rb
                   in if remain_bytes \<ge> write_bytes
                      then do { rb \<leftarrow> ring_in (ar_wp rb) buffer 0 write_bytes rb;
                                let rb = rb\<lparr>ar_wp := ar_wp rb + write_bytes\<rparr>;
                                Some (write_bytes, rb_write_wrap rb) }
                      else do { rb \<leftarrow> ring_in (ar_wp rb) buffer 0 remain_bytes rb;
                                let rb = rb\<lparr>ar_wp := write_bytes - remain_bytes\<rparr>;
                                rb \<leftarrow> ring_in 0 buffer remain_bytes (ar_wp rb) rb;
                                Some (write_bytes, rb_write_wrap rb) }
              else Some (0, rb)
         else if rp - ar_wp rb \<ge> write_bytes + RWP_SAFE_INTERVAL
         then do { rb \<leftarrow> ring_in (ar_wp rb) buffer 0 write_bytes rb;
                   let rb = rb\<lparr>ar_wp := ar_wp rb + write_bytes\<rparr>;
                   Some (write_bytes, rb_write_wrap rb) }
         else Some (0, rb))"

definition rb_get_fill_size :: "rb_st \<Rightarrow> u32" where
  "rb_get_fill_size rb = (if ar_wp rb \<ge> ar_rp rb then ar_wp rb - ar_rp rb else ar_capacity rb - ar_rp rb + ar_wp rb)"

definition rb_get_free_size :: "rb_st \<Rightarrow> u32" where
  "rb_get_free_size rb =
     (let free_size = (if ar_wp rb \<ge> ar_rp rb then ar_capacity rb - ar_wp rb + ar_rp rb else ar_rp rb - ar_wp rb)
      in if free_size > RWP_SAFE_INTERVAL then free_size - RWP_SAFE_INTERVAL else 0)"

section \<open>The ring as a sequence of bytes\<close>

abbreviation rb_w :: "rb_st \<Rightarrow> nat" where "rb_w rb \<equiv> unat (ar_wp rb)"
abbreviation rb_r :: "rb_st \<Rightarrow> nat" where "rb_r rb \<equiv> unat (ar_rp rb)"
abbreviation rb_c :: "rb_st \<Rightarrow> nat" where "rb_c rb \<equiv> unat (ar_capacity rb)"

definition ring_bytes :: "rb_st \<Rightarrow> u8 list" where
  "ring_bytes rb =
     (if rb_r rb \<le> rb_w rb then take (rb_w rb - rb_r rb) (drop (rb_r rb) (ar_address rb))
      else drop (rb_r rb) (ar_address rb) @ take (rb_w rb) (ar_address rb))"

definition ring_ok :: "rb_st \<Rightarrow> bool" where
  "ring_ok rb \<longleftrightarrow> length (ar_address rb) = rb_c rb \<and> rb_r rb \<le> rb_c rb \<and> (rb_w rb < rb_c rb \<or> rb_w rb = 0) \<and>
     (length (ring_bytes rb) = 0 \<or> length (ring_bytes rb) + 4 \<le> rb_c rb)"

lemma ring_word: "unat (w :: u32) = n \<Longrightarrow> w = of_nat n"
  by auto

lemma unat_32: "unat (w :: u32) < 4294967296"
  using unsigned_less[of w, where 'a = nat] by simp

lemma ring_length: "ring_ok rb \<Longrightarrow> length (ring_bytes rb) = (if rb_r rb \<le> rb_w rb then rb_w rb - rb_r rb else rb_c rb - rb_r rb + rb_w rb)"
  by (auto simp: ring_ok_def ring_bytes_def)

lemma fill_size: "ring_ok rb \<Longrightarrow> unat (rb_get_fill_size rb) = length (ring_bytes rb)"
proof -
  assume ok: "ring_ok rb"
  have c: "rb_c rb < 2 ^ 32" using unat_32[of "ar_capacity rb"] by simp
  show ?thesis
  proof (cases "rb_r rb \<le> rb_w rb")
    case True
    then show ?thesis using ring_length[OF ok] by (simp add: rb_get_fill_size_def word_le_nat_alt unat_sub)
  next
    case False
    have "unat (ar_capacity rb - ar_rp rb) = rb_c rb - rb_r rb" using ok by (simp add: ring_ok_def unat_sub word_le_nat_alt)
    moreover have "unat (ar_capacity rb - ar_rp rb + ar_wp rb) = unat (ar_capacity rb - ar_rp rb) + rb_w rb"
      using calculation False ok c by (subst unat_add_lem[THEN iffD1]) (simp_all add: ring_ok_def)
    ultimately show ?thesis using False ring_length[OF ok] by (simp add: rb_get_fill_size_def word_le_nat_alt)
  qed
qed

lemma ring_out_eq: "unat from + unat n \<le> length (ar_address rb) \<Longrightarrow> ring_out rb from n = Some (take (unat n) (drop (unat from) (ar_address rb)))"
  by (simp add: ring_out_def)

definition ring_taken :: "nat \<Rightarrow> rb_st \<Rightarrow> rb_st \<Rightarrow> bool" where
  "ring_taken n rb rb' \<longleftrightarrow> ring_ok rb' \<and> ring_bytes rb' = drop n (ring_bytes rb) \<and> ar_capacity rb' = ar_capacity rb"

lemma ring_takenI:
  assumes "ring_ok rb" and "unat r \<le> rb_c rb" and "ring_bytes (rb\<lparr>ar_rp := r\<rparr>) = drop n (ring_bytes rb)"
  shows "ring_taken n rb (rb\<lparr>ar_rp := r\<rparr>)"
  using assms by (auto simp: ring_taken_def ring_ok_def)

lemma ring_okD:
  assumes "ring_ok rb"
  shows "length (ar_address rb) = rb_c rb" "rb_r rb \<le> rb_c rb" "rb_w rb \<le> rb_c rb" "rb_w rb < rb_c rb \<or> rb_w rb = 0"
  using assms by (auto simp: ring_ok_def)

text \<open>The contents lie in one piece.\<close>

lemma read_piece:
  assumes ok: "ring_ok rb" and q: "sz * count \<noteq> 0" and r: "rb_r rb \<le> rb_w rb"
    and n: "n = min (unat (sz * count)) (length (ring_bytes rb))"
  shows "\<exists>rb'. rb_read_audio sz count rb = Some (of_nat n, take n (ring_bytes rb), rb') \<and> ring_taken n rb rb'"
proof -
  let ?m = "ar_address rb"
  note o = ring_okD[OF ok] and len = ring_length[OF ok, simplified if_P[OF r]]
  define k where "k = (if unat (ar_wp rb - ar_rp rb) < unat (sz * count) then ar_wp rb - ar_rp rb else sz * count)"
  have d: "unat (ar_wp rb - ar_rp rb) = rb_w rb - rb_r rb" using r by (simp add: unat_sub word_le_nat_alt)
  have k: "unat k = n" using n len d by (simp add: k_def)
  have nl: "rb_r rb + n \<le> rb_w rb" using n len r by auto
  have u: "unat (ar_rp rb + k) = rb_r rb + n"
    using k nl unat_32[of "ar_wp rb"] by (subst unat_add_lem[THEN iffD1]) simp_all
  have b: "ring_bytes (rb\<lparr>ar_rp := ar_rp rb + k\<rparr>) = drop n (ring_bytes rb)"
    unfolding ring_bytes_def using u r nl by (simp add: drop_take add.commute diff_diff_eq)
  have "rb_read_audio sz count rb = Some (k, take (unat k) (drop (rb_r rb) ?m), rb\<lparr>ar_rp := ar_rp rb + k\<rparr>)"
    using q r k nl o(1,3) ring_out_eq[of "ar_rp rb" k rb]
    by (simp add: rb_read_audio_def Let_def word_le_nat_alt word_less_nat_alt flip: k_def)
  moreover have "take (unat k) (drop (rb_r rb) ?m) = take n (ring_bytes rb)" using k nl r by (simp add: ring_bytes_def min_def)
  ultimately show ?thesis using ring_takenI[OF ok _ b] u nl o(3) ring_word[OF k] by simp
qed

text \<open>The contents go round the end of the memory, and the read stays before it or follows them.\<close>

lemma read_before_end:
  assumes ok: "ring_ok rb" and q0: "sz * count \<noteq> 0" and F: "\<not> rb_r rb \<le> rb_w rb" and le: "unat (sz * count) \<le> rb_c rb - rb_r rb"
    and n: "n = min (unat (sz * count)) (length (ring_bytes rb))"
  shows "\<exists>rb'. rb_read_audio sz count rb = Some (of_nat n, take n (ring_bytes rb), rb') \<and> ring_taken n rb rb'"
proof -
  let ?m = "ar_address rb" and ?q = "sz * count"
  note o = ring_okD[OF ok]
  have cr: "unat (ar_capacity rb - ar_rp rb) = rb_c rb - rb_r rb" using o(2) by (simp add: unat_sub word_le_nat_alt)
  have rbs: "ring_bytes rb = drop (rb_r rb) ?m @ take (rb_w rb) ?m" using F by (simp add: ring_bytes_def)
  have nq: "unat ?q = n" using n le ring_length[OF ok] F by simp
  have u: "unat (ar_rp rb + ?q) = rb_r rb + n"
    using le nq o(2) unat_32[of "ar_capacity rb"] by (subst unat_add_lem[THEN iffD1]) simp_all
  have b: "ring_bytes (rb\<lparr>ar_rp := ar_rp rb + ?q\<rparr>) = drop n (ring_bytes rb)"
    unfolding rbs ring_bytes_def using u F le nq o by (simp add: add.commute)
  have "rb_read_audio sz count rb = Some (?q, take n (drop (rb_r rb) ?m), rb\<lparr>ar_rp := ar_rp rb + ?q\<rparr>)"
    using q0 F le cr nq o ring_out_eq[of "ar_rp rb" ?q rb] by (simp add: rb_read_audio_def Let_def word_le_nat_alt word_less_nat_alt)
  moreover have "take n (drop (rb_r rb) ?m) = take n (ring_bytes rb)" unfolding rbs using le nq o by simp
  ultimately show ?thesis using ring_takenI[OF ok _ b] u le nq o(2) ring_word[OF nq] by simp
qed

lemma read_past_end:
  assumes ok: "ring_ok rb" and q0: "sz * count \<noteq> 0" and F: "\<not> rb_r rb \<le> rb_w rb" and gt: "\<not> unat (sz * count) \<le> rb_c rb - rb_r rb"
    and n: "n = min (unat (sz * count)) (length (ring_bytes rb))"
  shows "\<exists>rb'. rb_read_audio sz count rb = Some (of_nat n, take n (ring_bytes rb), rb') \<and> ring_taken n rb rb'"
proof -
  let ?m = "ar_address rb" and ?d = "ar_capacity rb - ar_rp rb" and ?e = "sz * count - (ar_capacity rb - ar_rp rb)"
  note o = ring_okD[OF ok]
  have cr: "unat ?d = rb_c rb - rb_r rb" using o(2) by (simp add: unat_sub word_le_nat_alt)
  have L: "length (ring_bytes rb) = rb_c rb - rb_r rb + rb_w rb" using ring_length[OF ok] F by simp
  have rbs: "ring_bytes rb = drop (rb_r rb) ?m @ take (rb_w rb) ?m" using F by (simp add: ring_bytes_def)
  have qd: "unat ?e = unat (sz * count) - (rb_c rb - rb_r rb)" using gt cr by (simp add: unat_sub word_le_nat_alt)
  define k where "k = (if unat ?e > rb_w rb then ar_wp rb else ?e)"
  have k: "rb_c rb - rb_r rb + unat k = n" "unat k \<le> rb_w rb" using n L gt qd by (auto simp: k_def)
  have o1: "ring_out rb (ar_rp rb) ?d = Some (drop (rb_r rb) ?m)" using ring_out_eq[of "ar_rp rb" ?d rb] cr o by simp
  have o2: "ring_out rb 0 k = Some (take (unat k) ?m)" using ring_out_eq[of 0 k rb] k(2) o by simp
  have "rb_read_audio sz count rb = Some (?d + k, drop (rb_r rb) ?m @ take (unat k) ?m, rb\<lparr>ar_rp := k\<rparr>)"
    using q0 F gt cr o1 o2
    by (cases "unat ?e > rb_w rb") (simp_all add: rb_read_audio_def Let_def word_le_nat_alt word_less_nat_alt k_def)
  moreover have "?d + k = of_nat n" unfolding k(1)[symmetric] cr[symmetric] by simp
  moreover have "take n (ring_bytes rb) = drop (rb_r rb) ?m @ take (unat k) ?m"
    unfolding rbs k(1)[symmetric] using k(2) o by (simp add: min_def)
  moreover have b: "ring_bytes (rb\<lparr>ar_rp := k\<rparr>) = drop n (ring_bytes rb)"
    unfolding rbs k(1)[symmetric] using k(2) o by (simp add: ring_bytes_def drop_take)
  ultimately show ?thesis using ring_takenI[OF ok _ b] k(2) o(3) by simp
qed

lemma read_ok:
  assumes ok: "ring_ok rb" and n: "n = min (unat (sz * count)) (length (ring_bytes rb))"
  shows "\<exists>rb'. rb_read_audio sz count rb = Some (of_nat n, take n (ring_bytes rb), rb') \<and> ring_taken n rb rb'"
proof (cases "sz * count = 0")
  case True
  then show ?thesis using ok n by (simp add: rb_read_audio_def ring_taken_def)
next
  case False
  show ?thesis
    using read_piece[OF ok False _ n] read_before_end[OF ok False _ _ n] read_past_end[OF ok False _ _ n] by blast
qed

text \<open>The effect of storing bytes in the memory, on the two ways the contents can lie in it.\<close>

lemma splice_tail:
  assumes "r \<le> w" "w + length b \<le> length m"
  shows "take (w + length b - r) (drop r (take w m @ b @ drop (w + length b) m)) = take (w - r) (drop r m) @ b"
proof -
  have "w + length b - r = length (drop r (take w m)) + length b" using assms by simp
  moreover have "drop r (take w m @ b @ drop (w + length b) m) = drop r (take w m) @ b @ drop (w + length b) m" using assms by simp
  ultimately show ?thesis by (simp only: take_append) (simp add: drop_take)
qed

lemma splice_end:
  assumes "r \<le> w" "w + length b = length m"
  shows "drop r (take w m @ b @ drop (w + length b) m) = take (w - r) (drop r m) @ b"
  using assms by (simp add: drop_take)

lemma splice_front:
  assumes "w + length b \<le> r" "r \<le> length m"
  shows "drop r (take w m @ b @ drop (w + length b) m) @ take (w + length b) (take w m @ b @ drop (w + length b) m) =
    (drop r m @ take w m) @ b"
proof -
  have "length (take w m @ b) = w + length b" using assms by simp
  then have "take (w + length b) ((take w m @ b) @ drop (w + length b) m) = take w m @ b" "drop r ((take w m @ b) @ drop (w + length b) m) = drop r m"
    using assms(1) by (simp_all only: take_append drop_append) (use assms in simp_all)
  then show ?thesis by simp
qed

lemma splice_wrap:
  assumes "r \<le> w" "w + length a = length m" "length b \<le> r"
  shows "drop r (take 0 (take w m @ a) @ b @ drop (0 + length b) (take w m @ a)) @ take (length b) (take 0 (take w m @ a) @ b @ drop (0 + length b) (take w m @ a)) =
    take (w - r) (drop r m) @ a @ b"
  using assms by (simp add: drop_take)

lemma ring_in_eq:
  assumes "unat dst + unat n \<le> length (ar_address rb)" "unat from + unat n \<le> length buffer"
  shows "ring_in dst buffer from n rb = Some (rb\<lparr>ar_address :=
    (let b = take (unat n) (drop (unat from) buffer) in take (unat dst) (ar_address rb) @ b @ drop (unat dst + length b) (ar_address rb))\<rparr>)"
  using assms by (simp add: ring_in_def)


definition ring_appended :: "u8 list \<Rightarrow> rb_st \<Rightarrow> rb_st \<Rightarrow> bool" where
  "ring_appended bs rb rb' \<longleftrightarrow> ring_ok rb' \<and> ring_bytes rb' = ring_bytes rb @ bs \<and> ar_capacity rb' = ar_capacity rb"

text \<open>One copy behind the write index.\<close>

lemma store_behind:
  assumes ok: "ring_ok rb" and room: "length (ring_bytes rb) + unat q + 4 \<le> rb_c rb" and b: "unat q \<le> length buffer"
    and fits: "rb_r rb \<le> rb_w rb \<Longrightarrow> rb_w rb + unat q \<le> rb_c rb"
  shows "\<exists>rb'. ring_in (ar_wp rb) buffer 0 q rb = Some rb' \<and> ar_wp rb' = ar_wp rb \<and>
    ring_appended (take (unat q) buffer) rb (rb_write_wrap (rb'\<lparr>ar_wp := ar_wp rb' + q\<rparr>))"
proof -
  let ?m = "ar_address rb" and ?b = "take (unat q) buffer"
  define M where "M = take (rb_w rb) ?m @ ?b @ drop (rb_w rb + length ?b) ?m"
  have o: "length ?m = rb_c rb" "rb_r rb \<le> rb_c rb" "rb_w rb < rb_c rb \<or> rb_w rb = 0" using ok by (simp_all add: ring_ok_def)
  note len = ring_length[OF ok]
  have lb: "length ?b = unat q" using b by simp
  have fit: "rb_w rb + unat q \<le> rb_c rb" using fits room len by (cases "rb_r rb \<le> rb_w rb") auto
  have i: "ring_in (ar_wp rb) buffer 0 q rb = Some (rb\<lparr>ar_address := M\<rparr>)"
    using ring_in_eq[of "ar_wp rb" q rb 0 buffer] fit b o(1) by (simp add: M_def)
  have u: "unat (ar_wp rb + q) = rb_w rb + unat q"
    using fit unat_32[of "ar_capacity rb"] by (subst unat_add_lem[THEN iffD1]) simp_all
  have m': "length M = rb_c rb" using fit o(1) lb by (simp add: M_def)
  define R where "R = rb_write_wrap (rb\<lparr>ar_address := M, ar_wp := ar_wp rb + q\<rparr>)"
  have keep: "ar_address R = M" "ar_rp R = ar_rp rb" "ar_capacity R = ar_capacity rb"
    by (simp_all add: rb_write_wrap_def R_def)
  have "ring_bytes R = ring_bytes rb @ ?b \<and> (rb_w R < rb_c rb \<or> rb_w R = 0)"
  proof (cases "rb_r rb \<le> rb_w rb")
    case True
    note rbs = ring_bytes_def[of rb, simplified if_P[OF True]]
    show ?thesis
    proof (cases "rb_w rb + unat q = rb_c rb")
      case E: True
      have "rb_r rb \<noteq> 0" using E len True room by simp
      then have w: "ar_wp R = 0" "ar_rp rb \<noteq> 0" using E u by (auto simp: rb_write_wrap_def R_def word_le_nat_alt)
      have "ring_bytes R = drop (rb_r rb) M" unfolding ring_bytes_def keep w(1) using \<open>rb_r rb \<noteq> 0\<close> by simp
      then show ?thesis using splice_end[OF True, of ?b ?m] E lb o(1) w(1) rbs by (simp add: M_def)
    next
      case N: False
      then have w: "ar_wp R = ar_wp rb + q" using u fit by (simp add: rb_write_wrap_def R_def word_le_nat_alt)
      have "ring_bytes R = take (rb_w rb + length ?b - rb_r rb) (drop (rb_r rb) M)"
        unfolding ring_bytes_def keep w u using True lb by simp
      then show ?thesis using splice_tail[OF True, of ?b ?m] fit lb o(1) rbs u w N by (simp add: M_def del: take_append drop_append)
    qed
  next
    case False
    have f: "rb_w rb + length ?b \<le> rb_r rb" "rb_w rb + unat q + 4 \<le> rb_r rb" using room len False lb o(2) by auto
    have w: "ar_wp R = ar_wp rb + q" using u f o(2) by (simp add: rb_write_wrap_def R_def word_le_nat_alt)
    have "ring_bytes R = drop (rb_r rb) M @ take (rb_w rb + length ?b) M"
      unfolding ring_bytes_def keep w u using f lb by simp
    then show ?thesis using splice_front[OF f(1), of ?m] o False u w f
      by (simp add: M_def ring_bytes_def[of rb] del: take_append drop_append)
  qed
  then have "ring_appended ?b rb R"
    unfolding ring_appended_def ring_ok_def keep using m' o(2) room lb by simp
  then show ?thesis using i by (simp add: R_def)
qed


text \<open>Two copies: up to the end of the memory, and the rest at its start.\<close>

lemma store_split:
  assumes ok: "ring_ok rb" and room: "length (ring_bytes rb) + unat q + 4 \<le> rb_c rb" and b: "unat q \<le> length buffer"
    and r: "rb_r rb \<le> rb_w rb" and over: "rb_c rb < rb_w rb + unat q"
  defines "d \<equiv> ar_capacity rb - ar_wp rb"
  shows "\<exists>rb1 rb2. ring_in (ar_wp rb) buffer 0 d rb = Some rb1 \<and>
    ring_in 0 buffer d (q - d) (rb1\<lparr>ar_wp := q - d\<rparr>) = Some rb2 \<and>
    ring_appended (take (unat q) buffer) rb (rb_write_wrap rb2)"
proof -
  let ?m = "ar_address rb" and ?a = "take (unat d) buffer" and ?b = "take (unat (q - d)) (drop (unat d) buffer)"
  have o: "length ?m = rb_c rb" "rb_w rb \<le> rb_c rb" using ok by (auto simp: ring_ok_def)
  note len = ring_length[OF ok, simplified if_P[OF r]]
  have d: "unat d = rb_c rb - rb_w rb" unfolding d_def using o(2) by (simp add: unat_sub word_le_nat_alt)
  have e: "unat (q - d) = unat q - unat d" using over o(2) d by (simp add: unat_sub word_le_nat_alt)
  have la: "length ?a = unat d" "length ?b = unat (q - d)" using b e d over by simp_all
  have er: "unat (q - d) + 4 \<le> rb_r rb" using room len r over o(2) unfolding e d by simp
  define M where "M = take (rb_w rb) ?m @ ?a"
  define N where "N = take 0 M @ ?b @ drop (0 + length ?b) M"
  have lM: "length M = rb_c rb" using o d la(1) by (simp add: M_def)
  have lN: "length N = rb_c rb" using lM er r o(2) la by (simp add: N_def)
  have i1: "ring_in (ar_wp rb) buffer 0 d rb = Some (rb\<lparr>ar_address := M\<rparr>)"
    using ring_in_eq[of "ar_wp rb" d rb 0 buffer] o la(1) d over b by (simp add: M_def)
  have i2: "ring_in 0 buffer d (q - d) (rb\<lparr>ar_address := M, ar_wp := q - d\<rparr>) = Some (rb\<lparr>ar_address := N, ar_wp := q - d\<rparr>)"
    using ring_in_eq[of 0 "q - d" "rb\<lparr>ar_address := M, ar_wp := q - d\<rparr>" d buffer] la e b over d er r o(2) lM by (simp add: N_def)
  let ?R = "rb\<lparr>ar_address := N, ar_wp := q - d\<rparr>"
  have w: "rb_write_wrap ?R = ?R" using er r o(2) by (simp add: rb_write_wrap_def word_le_nat_alt)
  have "ring_bytes ?R = drop (rb_r rb) N @ take (length ?b) N" using er la(2) by (simp add: ring_bytes_def)
  also have "\<dots> = take (rb_w rb - rb_r rb) (drop (rb_r rb) ?m) @ ?a @ ?b"
    unfolding N_def M_def by (rule splice_wrap) (use r o d la er in simp_all)
  also have "?a @ ?b = take (unat q) buffer" using take_add[of "unat d" "unat (q - d)" buffer] e over o(2) d by simp
  finally have "ring_bytes ?R = ring_bytes rb @ take (unat q) buffer" using r by (simp add: ring_bytes_def[of rb])
  moreover have "ring_ok ?R" using calculation lN er r o(2) room b by (simp add: ring_ok_def)
  ultimately have "ring_appended (take (unat q) buffer) rb ?R" by (simp add: ring_appended_def)
  then show ?thesis using i1 i2 w by simp
qed

lemma ring_room: "ring_ok rb \<Longrightarrow> unat (if ar_wp rb \<ge> ar_rp rb then ar_capacity rb - ar_wp rb + ar_rp rb else ar_rp rb - ar_wp rb) =
    rb_c rb - length (ring_bytes rb)"
proof -
  assume ok: "ring_ok rb"
  have o: "rb_r rb \<le> rb_c rb" "rb_w rb \<le> rb_c rb" using ok by (auto simp: ring_ok_def)
  have d: "unat (ar_capacity rb - ar_wp rb) = rb_c rb - rb_w rb" using o(2) by (simp add: unat_sub word_le_nat_alt)
  have "rb_r rb \<le> rb_w rb \<Longrightarrow> unat (ar_capacity rb - ar_wp rb + ar_rp rb) = rb_c rb - rb_w rb + rb_r rb"
    using d o(2) unat_32[of "ar_capacity rb"] by (subst unat_add_lem[THEN iffD1]) simp_all
  then show ?thesis using ring_length[OF ok] o by (simp add: word_le_nat_alt unat_sub)
qed

lemma free_size: "ring_ok rb \<Longrightarrow> unat (rb_get_free_size rb) = rb_c rb - length (ring_bytes rb) - 4"
  using ring_room[of rb] by (simp add: rb_get_free_size_def Let_def word_less_nat_alt unat_sub word_le_nat_alt split del: if_split) (auto simp: unat_sub word_le_nat_alt)

lemma write_ok:
  assumes ok: "ring_ok rb" and b: "unat (sz * count) \<le> length buffer" and max: "unat (sz * count) + 4 < 2 ^ 32"
  shows "if 0 < unat (sz * count) \<and> length (ring_bytes rb) + unat (sz * count) + 4 \<le> rb_c rb
    then \<exists>rb'. rb_write_audio buffer sz count rb = Some (sz * count, rb') \<and> ring_appended (take (unat (sz * count)) buffer) rb rb'
    else rb_write_audio buffer sz count rb = Some (0, rb)"
proof -
  define q where "q = sz * count"
  note b = b[folded q_def] and max = max[folded q_def]
  note wr = rb_write_audio_def[of buffer sz count rb, folded q_def, unfolded Let_def]
  have q4: "unat (q + 4) = unat q + 4" using max by (subst unat_add_lem[THEN iffD1]) simp_all
  have o: "rb_w rb \<le> rb_c rb" "length (ring_bytes rb) \<le> rb_c rb" using ok by (auto simp: ring_ok_def)
  have room: "ar_wp rb \<ge> ar_rp rb \<Longrightarrow> ar_capacity rb - ar_wp rb + ar_rp rb \<ge> q + 4 \<longleftrightarrow> length (ring_bytes rb) + unat q + 4 \<le> rb_c rb"
      "\<not> ar_wp rb \<ge> ar_rp rb \<Longrightarrow> ar_rp rb - ar_wp rb \<ge> q + 4 \<longleftrightarrow> length (ring_bytes rb) + unat q + 4 \<le> rb_c rb"
    using ring_room[OF ok] q4 o(2) unfolding word_le_nat_alt[of "q + 4"] by auto
  have d: "unat (ar_capacity rb - ar_wp rb) = rb_c rb - rb_w rb" using o(1) by (simp add: unat_sub word_le_nat_alt)
  show ?thesis
  proof (cases "0 < unat q \<and> length (ring_bytes rb) + unat q + 4 \<le> rb_c rb")
    case False
    then have "q = 0 \<or> \<not> length (ring_bytes rb) + unat q + 4 \<le> rb_c rb" by (simp add: unat_gt_0)
    then have "rb_write_audio buffer sz count rb = Some (0, rb)"
    proof
      assume "\<not> length (ring_bytes rb) + unat q + 4 \<le> rb_c rb"
      then show ?thesis using room by (cases "ar_wp rb \<ge> ar_rp rb") (simp_all add: wr)
    qed (simp add: wr)
    then show ?thesis using False unfolding q_def[symmetric] by (simp only: if_False)
  next
    case True
    have "\<exists>rb'. rb_write_audio buffer sz count rb = Some (q, rb') \<and> ring_appended (take (unat q) buffer) rb rb'"
    proof (cases "rb_r rb \<le> rb_w rb \<and> rb_c rb < rb_w rb + unat q")
      case S: True
      then show ?thesis using store_split[OF ok _ b] True d room o(1) by (auto simp: wr word_le_nat_alt unat_gt_0)
    next
      case S: False
      then show ?thesis using store_behind[OF ok _ b] True d room o(1) by (auto simp: wr word_le_nat_alt unat_gt_0)
    qed
    then show ?thesis using True by (simp flip: q_def)
  qed
qed


section \<open>Calls on a ring and on a queue of bytes\<close>

datatype audio_call =
  RingWrite "u8 list" u32 u32
| RingRead u32 u32
| RingFill
| RingFree
| RingClear

text \<open>The result of a call and the bytes it stores in the caller's buffer.\<close>

fun ring_call :: "audio_call \<Rightarrow> rb_st \<Rightarrow> ((u32 \<times> u8 list) \<times> rb_st) option" where
  "ring_call (RingWrite buffer sz count) rb = map_option (\<lambda>(n, rb). ((n, []), rb)) (rb_write_audio buffer sz count rb)"
| "ring_call (RingRead sz count) rb = map_option (\<lambda>(n, bs, rb). ((n, bs), rb)) (rb_read_audio sz count rb)"
| "ring_call RingFill rb = Some ((rb_get_fill_size rb, []), rb)"
| "ring_call RingFree rb = Some ((rb_get_free_size rb, []), rb)"
| "ring_call RingClear rb = Some ((0, []), rb_clear rb)"

fun ring_calls :: "audio_call list \<Rightarrow> rb_st \<Rightarrow> ((u32 \<times> u8 list) list \<times> rb_st) option" where
  "ring_calls [] rb = Some ([], rb)"
| "ring_calls (c # cs) rb = do { (r, rb) \<leftarrow> ring_call c rb; (rs, rb) \<leftarrow> ring_calls cs rb; Some (r # rs, rb) }"

text \<open>
  The specification, a queue of at most cap - 4 bytes: a write is taken as a whole or not at all, a read takes what
  there is.
\<close>

fun queue_call :: "nat \<Rightarrow> audio_call \<Rightarrow> u8 list \<Rightarrow> (u32 \<times> u8 list) \<times> u8 list" where
  "queue_call cap (RingWrite buffer sz count) xs =
     (let n = unat (sz * count) in if length xs + n + 4 \<le> cap then ((sz * count, []), xs @ take n buffer) else ((0, []), xs))"
| "queue_call cap (RingRead sz count) xs = (let n = min (unat (sz * count)) (length xs) in ((of_nat n, take n xs), drop n xs))"
| "queue_call cap RingFill xs = ((of_nat (length xs), []), xs)"
| "queue_call cap RingFree xs = ((of_nat (cap - length xs - 4), []), xs)"
| "queue_call cap RingClear xs = ((0, []), [])"

fun queue_calls :: "nat \<Rightarrow> audio_call list \<Rightarrow> u8 list \<Rightarrow> (u32 \<times> u8 list) list \<times> u8 list" where
  "queue_calls cap [] xs = ([], xs)"
| "queue_calls cap (c # cs) xs = (let (r, xs) = queue_call cap c xs; (rs, xs) = queue_calls cap cs xs in (r # rs, xs))"

text \<open>A write whose bytes are in the caller's buffer and whose size leaves the room check below 2^32.\<close>

fun ring_call_valid :: "audio_call \<Rightarrow> bool" where
  "ring_call_valid (RingWrite buffer sz count) \<longleftrightarrow> unat (sz * count) \<le> length buffer \<and> unat (sz * count) + 4 < 2 ^ 32"
| "ring_call_valid _ \<longleftrightarrow> True"

lemma call_refines:
  assumes ok: "ring_ok rb" and v: "ring_call_valid c"
  shows "\<exists>rb'. ring_call c rb = Some (fst (queue_call (rb_c rb) c (ring_bytes rb)), rb') \<and> ring_ok rb' \<and>
    ring_bytes rb' = snd (queue_call (rb_c rb) c (ring_bytes rb)) \<and> ar_capacity rb' = ar_capacity rb"
proof (cases c)
  case (RingWrite buffer sz count)
  show ?thesis
  proof (cases "sz * count = 0")
    case True
    then show ?thesis using ok RingWrite by (auto simp: rb_write_audio_def)
  next
    case False
    then have "0 < unat (sz * count)" by (simp add: unat_gt_0)
    then show ?thesis using write_ok[OF ok, of sz count buffer] v RingWrite
      by (auto simp: ring_appended_def Let_def ok split: if_splits)
  qed
next
  case (RingRead sz count)
  then show ?thesis using read_ok[OF ok refl, of sz count] by (auto simp: Let_def ring_taken_def)
next
  case RingFill
  then show ?thesis using ok ring_word[OF fill_size[OF ok]] by simp
next
  case RingFree
  then show ?thesis using ok ring_word[OF free_size[OF ok]] by simp
next
  case RingClear
  then show ?thesis using ok by (simp add: rb_clear_def ring_ok_def ring_bytes_def)
qed

lemma calls_refine:
  assumes "ring_ok rb" and "list_all ring_call_valid cs"
  shows "\<exists>rb'. ring_calls cs rb = Some (fst (queue_calls (rb_c rb) cs (ring_bytes rb)), rb') \<and> ring_ok rb' \<and>
    ring_bytes rb' = snd (queue_calls (rb_c rb) cs (ring_bytes rb))"
  using assms
proof (induction cs arbitrary: rb)
  case (Cons c cs)
  obtain rb1 where 1: "ring_call c rb = Some (fst (queue_call (rb_c rb) c (ring_bytes rb)), rb1)" "ring_ok rb1"
      "ring_bytes rb1 = snd (queue_call (rb_c rb) c (ring_bytes rb))" "ar_capacity rb1 = ar_capacity rb"
    using call_refines[of rb c] Cons.prems by auto
  obtain rb2 where "ring_calls cs rb1 = Some (fst (queue_calls (rb_c rb) cs (ring_bytes rb1)), rb2)" "ring_ok rb2"
      "ring_bytes rb2 = snd (queue_calls (rb_c rb) cs (ring_bytes rb1))"
    using Cons.IH[OF 1(2)] Cons.prems(2) 1(4) by auto
  then show ?case using 1 by (simp add: split_beta)
qed simp

lemma init_ring: "length addr = unat capacity \<Longrightarrow> ring_ok (rb_init addr capacity) \<and> ring_bytes (rb_init addr capacity) = []"
  by (simp add: rb_init_def ring_ok_def ring_bytes_def)

section \<open>Properties\<close>

text \<open>C27: every sequence of calls of rb_write, rb_read, rb_get_fill_size, rb_get_free_size and rb_clear on a ring that rb_init
  set up on capacity bytes of memory never leaves that memory, and returns the results and the bytes of a queue of
  at most capacity - 4 bytes that takes a write as a whole or not at all.
\<close>

theorem audio_ring_refines_queue:
  assumes "length addr = unat capacity" and "list_all ring_call_valid cs"
  shows "\<exists>rb'. ring_calls cs (rb_init addr capacity) = Some (fst (queue_calls (unat capacity) cs []), rb') \<and>
    ring_bytes rb' = snd (queue_calls (unat capacity) cs [])"
  using calls_refine[of "rb_init addr capacity" cs] init_ring[OF assms(1)] assms(2)
  by (auto simp: rb_init_def)

text \<open>Eight bytes of memory: a write of three, a read of two, and writes that go round the end of the memory.\<close>

definition ex_ring_calls :: "audio_call list" where
  "ex_ring_calls = [RingWrite [1, 2, 3] 1 3, RingWrite [4, 5] 1 2, RingRead 1 2, RingWrite [4, 5, 6] 3 1, RingRead 1 3,
     RingWrite [7, 8, 9] 1 3, RingFill, RingFree, RingRead 2 8]"

theorem audio_ring_refines_queue_witness:
  "\<exists>rb'. ring_calls ex_ring_calls (rb_init (replicate 8 0) 8) =
     Some ([(3, []), (0, []), (2, [1, 2]), (3, []), (3, [3, 4, 5]), (3, []), (4, []), (0, []), (4, [6, 7, 8, 9])], rb')"
proof -
  have "list_all ring_call_valid ex_ring_calls" by (simp add: ex_ring_calls_def)
  from audio_ring_refines_queue[of "replicate 8 0" 8, OF _ this] obtain rb' where
    "ring_calls ex_ring_calls (rb_init (replicate 8 0) 8) = Some (fst (queue_calls 8 ex_ring_calls []), rb')"
    by auto
  moreover have "fst (queue_calls 8 ex_ring_calls []) =
      [(3, []), (0, []), (2, [1, 2]), (3, []), (3, [3, 4, 5]), (3, []), (4, []), (0, []), (4, [6, 7, 8, 9])]"
    by code_simp
  ultimately show ?thesis by auto
qed

text \<open>
  A write of 2^32 - 4 bytes or more: write_bytes + RWP_SAFE_INTERVAL wraps, the room check passes, and the copy leaves the
  memory (rb_write_audio has no value).
\<close>

lemma audio_ring_huge_write: "rb_write_audio buffer 0xFFFFFFFC 1 (rb_init (replicate 8 0) 8) = None"
  by (simp add: rb_write_audio_def rb_init_def ring_in_def word_le_nat_alt unat_32)

end
