(* ===== verification/Spec2Isabelle.thy ===== *)
theory Spec2Isabelle
  imports Scheduling Mutex Event Mailbox Messagequeue Ringbuffer System_Heap Idle Liveness
    Completion Dataqueue Device Kstring Kprintf Soft_Timer Workqueue Pipe Button Net_Param Drv_Model Console Heap_Align Audio_Ring
begin

text \<open>
  A verification of the BK7252 SDK: its RT-Thread kernel and parts of its drivers.

  \<^bold>\<open>The program.\<close>  The SDK runs every driver, protocol stack and application of the chip on
  the RT-Thread 3 kernel in rt-thread/src.  The kernel keeps threads in ready queues by
  priority and switches to the most urgent one (scheduler.c, thread.c); suspended threads wait
  in the queue of a semaphore, mutex, event set, mailbox or message queue (ipc.c) or of a memory
  pool (mempool.c), with or without a time limit; a sorted list of timers (timer.c) is checked
  at every tick interrupt (clock.c) and wakes the threads whose time is over.  Every object is
  registered in a container (object.c).  The heap behind malloc (memheap.c) is a list of blocks
  locked by a semaphore.  Strings, memory blocks and formatted output are in kservice.c, devices
  are registered and opened through device.c.  Drivers exchange data and signals through ring
  buffers, data queues, completions, work queues, wait queues and pipes
  (rt-thread/components/drivers/src).  On top of the kernel the SDK of the chip maker (beken378) keeps its own tables of drivers
  (driver/common/drv_model.c), polls
  buttons (func/key/multi_button.c) and keeps its network parameters (func/net_param_intf/net_param.c)
  in a partition (func/user_driver/BkDriverFlash.c) of the serial flash (driver/flash/flash.c).  The
  development models the configuration of
  rtconfig.h: 32 priorities, 1000 ticks per second, names of 8 bytes, assertions on, soft
  timers, memory pools, memory heaps as the system heap, no modules, no signals; of the kernel
  hooks, which are compiled in, the SDK installs only the one of the idle thread.

  \<^bold>\<open>Conventions.\<close>  The kernel state is the record \<open>kernel\<close> of Kernel_State: the static variables
  of the C files and, for each kind of object, a function from its number to its control block.
  An operation is a function with the name of the C function; its last argument is the state
  before and its result the state after.  None means that the C code does not come back from
  the call or leaves defined behaviour: a failed RT_ASSERT, a null or foreign pointer followed,
  a list node linked twice.  Error codes are values of type \<open>rt_err\<close>.  Integers are words of the
  C type's width and wrap as the C code does.  The body between rt_hw_interrupt_disable and
  rt_hw_interrupt_enable is one step.  A call that suspends its own thread ends at its
  rt_schedule with the outcome \<open>Blocked\<close>; what the thread executes when it is resumed is the
  function with the suffix _resumed.  In the pipes, where a function goes on after a call that may
  switch, the outcome is \<open>Blocked\<close> when it did, and the rest of the function is a definition of its
  own.

  \<^bold>\<open>The theories.\<close>
  \<^item> Prelude: machine types, error codes, alignment macros (rtdef.h), facts on words and lists.
  \<^item> Rt_List: the intrusive linked lists of rtservice.h on a store of next and prev pointers, and
    the locale \<open>linked_lists\<close>: what an implementation of the thread lists promises.  It is
    interpreted twice, by the pointer operations here and by the functional lists that
    Kernel_State uses for the thread queues, so the second is justified by the first.
  \<^item> Kservice: find-first-set and the bounded string functions that the kernel uses (kservice.c).
  \<^item> Kmemory: rt_memset, rt_memcpy, rt_memmove and rt_memcmp on a byte memory, with their loops over
    words and blocks of words; Kstring: the string functions, on the same memory.
  \<^item> Kprintf: print_number and rt_vsnprintf with its relatives, and what a format means.
  \<^item> Kernel_State: the records of rtdef.h, the kernel state, linking and unlinking of threads.
  \<^item> Scheduler: scheduler.c and irq.c; \<open>sched_ok\<close> says that the queues, the bitmap of
    priorities and the states of the threads agree.
  \<^item> Object: object.c.
  \<^item> Timer: the timer lists of timer.c; \<open>timers_ok\<close> says that the list is sorted by the time that is
    left, on the circle of the 32-bit tick, and agrees with the flags and the threads.
  \<^item> Thread: thread.c, libcpu/stack.c and rt_timer_start; \<open>kernel_ok\<close> is the conjunction of the two
    invariants, and every operation keeps it.
  \<^item> Example_System: a concrete kernel with seven threads, on which theorems are instantiated.
  \<^item> Clock: clock.c and the check of the timers in the interrupt.
  \<^item> Soft_Timer: the rest of timer.c, the check of the soft timers and the timer thread, creation and
    deletion of timers.
  \<^item> Idle: idle.c, the cleanup of threads that have ended.
  \<^item> Scheduling: the properties of the theories up to Clock.
  \<^item> Ipc, Semaphore, Mutex, Event, Mailbox, Messagequeue: ipc.c.
  \<^item> Fifo: the locale \<open>bounded_fifo\<close>, the contract of a queue of bounded capacity; mailboxes,
    message queues and ring buffers interpret it.
  \<^item> Ringbuffer: ringbuffer.c.  Dataqueue: dataqueue.c, with its 16-bit indices and water mark.
  \<^item> Completion, Workqueue, Waitqueue, Pipe: completion.c, workqueue.c, waitqueue.c and pipe.c.  A pipe
    is composed of a mutex, a ring buffer, two wait queues and a device.
  \<^item> Device: device.c; the functions of a driver are a parameter.
  \<^item> Console: the console of kservice.c, which puts formatted output and devices together.
  \<^item> Mempool: mempool.c.
  \<^item> Memheap, Memheap_Resize, System_Heap: memheap.c.  The first has the operations on the block
    list, its representation predicate and allocation and release; the second resizing,
    initialisation and the promises to the callers; the third rt_malloc and its relatives.
    Heap_Align: aligned blocks (kservice.c).
  \<^item> Button: multi_button.c, the debouncing and the state machine of a button and the list of buttons,
    and the gestures that they recognise.
  \<^item> Flash: the data loops, the protection and the commands of flash.c and the partitions of
    BkDriverFlash.c; the locale \<open>nor_chip\<close> is the contract of the chip and its controller, interpreted
    by the concrete \<open>chip_ops\<close>.
  \<^item> Drv_Model: drv_model.c, the tables of the chip drivers; \<open>drv_ok\<close> says that their entries are
    well formed.
  \<^item> Net_Param: net_param.c, against tables of items.
  \<^item> Audio_Ring: ring_buffer.c, the ring of the audio drivers, against a bounded queue of bytes.
  \<^item> System: runs of the kernel, as sequences of calls and tick interrupts; Liveness: waits with a
    time limit end.

  \<^bold>\<open>What is shown.\<close>  Scheduling: the thread that runs is the front of the most urgent ready
  queue; yielding is round robin; critical sections defer the switch; every tick wakes
  the threads whose time is over and the timer loop ends.  IPC: who is suspended, in which order
  waiters are served, what the resumed thread gets, priority inheritance of mutexes with its two
  gaps, delivery in order without loss for mailboxes and message queues, which refine an
  abstract queue.  Memory: a block that is handed out is free memory, disjoint from every block
  in use, its neighbours and their contents are untouched, freeing merges with free neighbours,
  resizing keeps the contents, a pool never hands a block out twice.  Data structures: the
  pointer operations refine list operations, the ring buffer refines a byte stream and a data
  queue a stream of blocks.  Library: the optimised memory functions equal their byte-wise
  specifications, rt_snprintf stores the text that its format means, cut to the buffer, rt_kprintf sends it
  to the console device, and numbers are read back as printed.  Drivers: the device layer counts users, a completion meets its waiter
  in either order, the end of a work reaches everyone who waits for it, a pipe delivers in order.
  The tables of chip drivers count users in the same way.  The state machine of a button calls exactly the callbacks of the gestures.  Bytes written to erased
  flash are read back and nothing else changes, and the network parameters behave as a table of items
  that keeps every other item and sector.  The ring of the audio drivers is a queue that takes a write as a
  whole or not at all.  Soft timers: a check ends when its timeout functions leave the other timers alone.  The system:
  no sequence of calls and interrupts from a well-formed state runs into an assertion, and every
  wait with a time limit ends in time.  Where the
  code does not do what it means to, the theorem states what it does.

  \<^bold>\<open>Loops.\<close>  Loops over a list or a bounded range are structural recursions.  The loop of
  rt_timer_check, the retry loops of mailboxes, message queues and pools, the search of the heap
  and the free list of a pool need not end on a broken state; they are partial functions into
  option, and the theorems show that they return, never only what holds if they do.
  The loops of the memory functions and of formatted output have termination proofs by measures; the
  loops over a string that may lack its end, the check of the soft timers, the loops of a pipe device
  and the loop that reports the end of a work, the loops over the list of buttons and the search for a
  network parameter are partial functions too.  rt_list_len takes fuel, for which one more than the number of nodes is enough.

  \<^bold>\<open>What is taken as given.\<close>  The timeout functions of user timers are a parameter; the theorems
  on the tick assume that they return, keep the invariants, make no further timer due and put no
  thread to sleep (\<open>callbacks_ok\<close>, \<open>callbacks_calm\<close>, \<open>callbacks_wait\<close>).  The cleanup
  functions of threads are a parameter too (\<open>cleanups_ok\<close>), and so are the
  functions of a driver (\<open>driver_plain\<close>) and of a work, and the callbacks of a button (\<open>only_act\<close>).
  The commands of the flash controller are a parameter with the documented behaviour of serial flash
  memories (\<open>nor_chip\<close>).  The memory a dynamic object gets is a
  parameter of the create functions.

  \<^bold>\<open>Not modelled.\<close>  The registers saved by a context switch (assembly) and the instruction-level
  interleaving inside a section with interrupts enabled; hooks, modules, signals, slab and small memory allocators, which the configuration
  excludes; poll and the file descriptors behind the pipes; the register accesses of the flash
  controller; the DMA variants of the audio ring, where the hardware owns one index; the other chip drivers, the network,
  audio and file system code of the SDK, which is
  vendored or works on hardware registers.
\<close>

end
